(* ===== verification/Milyra_Base.thy ===== *)
theory Milyra_Base
  imports Main "HOL-Library.Word" "HOL-Library.Monad_Syntax"
begin

unbundle bit_operations_syntax

text \<open>
  Shared vocabulary of the Milyra development.

  \<^item> Machine integers: \<open>u8\<close>, \<open>u16\<close>, \<open>u32\<close>, \<open>u64\<close> and the C \<open>int\<close> (\<open>c_int\<close>,
    a 32 bit word read through \<open>sint\<close>).  The engine is built for x64 Windows, so
    \<open>size_t\<close> is \<open>u64\<close>, signed arithmetic is two's complement and memory is little endian.
  \<^item> Undefined behaviour: a C operation without a defined result (an access outside an
    array, a NULL dereference, an aborting \<open>strcpy_s\<close>) is the value \<open>None\<close>; operations that
    may also wait for another thread return an \<open>outcome\<close>.
  \<^item> Arrays (\<open>arr_get\<close>, \<open>arr_set\<close>), raw byte blocks (\<open>rd_bytes\<close>, \<open>wr_bytes\<close>), the
    first-match loop \<open>scan\<close> that many functions of the engine share, and the little endian
    image of a 32 bit integer.
\<close>

section \<open>Machine types and outcomes\<close>

type_synonym u8 = "8 word"
type_synonym u16 = "16 word"
type_synonym u32 = "32 word"
type_synonym u64 = "64 word"
type_synonym c_int = "32 word"

text \<open>A pointer to an object of type \<open>'a\<close>; \<open>None\<close> is \<open>NULL\<close>.\<close>

type_synonym 'a ptr = "'a option"

datatype 'a outcome = Returns 'a | Blocks | Undefined

lemma case_Returns_iff:
  "(case x of Returns y \<Rightarrow> P y | Blocks \<Rightarrow> False | Undefined \<Rightarrow> False) \<longleftrightarrow> (\<exists>y. x = Returns y \<and> P y)"
  by (cases x) auto

text \<open>C's remainder truncates towards zero: its sign is the sign of the dividend.\<close>

definition c_rem :: "int \<Rightarrow> int \<Rightarrow> int" where
  "c_rem a b = sgn a * (\<bar>a\<bar> mod \<bar>b\<bar>)"

lemma c_rem_nonneg: "0 \<le> a \<Longrightarrow> 0 < b \<Longrightarrow> c_rem a b = a mod b"
  by (cases "a = 0") (auto simp: c_rem_def)

lemma c_rem_neg: "a < 0 \<Longrightarrow> c_rem a b = - ((- a) mod \<bar>b\<bar>)"
  by (simp add: c_rem_def)

lemma sint_small [simp]: "n < 2 ^ 31 \<Longrightarrow> sint (word_of_nat n :: c_int) = int n"
  by (simp add: signed_of_nat signed_take_bit_int_eq_self_iff)

lemma sint_unat: "unat (w :: c_int) < 2 ^ 31 \<Longrightarrow> sint w = int (unat w)"
  using sint_small [of "unat w"] by simp

section \<open>Arrays\<close>

definition arr_get :: "'a list \<Rightarrow> nat \<Rightarrow> 'a option" where
  "arr_get xs i = (if i < length xs then Some (xs ! i) else None)"

definition arr_set :: "'a list \<Rightarrow> nat \<Rightarrow> 'a \<Rightarrow> 'a list option" where
  "arr_set xs i x = (if i < length xs then Some (xs[i := x]) else None)"

text \<open>Indexing with a signed integer.\<close>

definition arr_at :: "'a list \<Rightarrow> int \<Rightarrow> 'a option" where
  "arr_at xs i = (if 0 \<le> i then arr_get xs (nat i) else None)"

lemma arr_get_in [simp]: "i < length xs \<Longrightarrow> arr_get xs i = Some (xs ! i)"
  by (simp add: arr_get_def)

lemma arr_get_out [simp]: "length xs \<le> i \<Longrightarrow> arr_get xs i = None"
  by (simp add: arr_get_def)

lemma arr_set_in [simp]: "i < length xs \<Longrightarrow> arr_set xs i x = Some (xs[i := x])"
  by (simp add: arr_set_def)

lemma arr_set_out [simp]: "length xs \<le> i \<Longrightarrow> arr_set xs i x = None"
  by (simp add: arr_set_def)

lemma arr_get_Some_iff: "arr_get xs i = Some y \<longleftrightarrow> i < length xs \<and> xs ! i = y"
  by (auto simp: arr_get_def)

lemma arr_set_Some_iff: "arr_set xs i x = Some ys \<longleftrightarrow> i < length xs \<and> ys = xs[i := x]"
  by (auto simp: arr_set_def)

lemma arr_at_Some_iff: "arr_at xs i = Some y \<longleftrightarrow> 0 \<le> i \<and> nat i < length xs \<and> xs ! nat i = y"
  by (auto simp: arr_at_def arr_get_Some_iff)

section \<open>Byte blocks\<close>

definition rd_bytes :: "u8 list \<Rightarrow> nat \<Rightarrow> nat \<Rightarrow> u8 list option" where
  "rd_bytes b off n = (if off + n \<le> length b then Some (take n (drop off b)) else None)"

definition wr_bytes :: "u8 list \<Rightarrow> nat \<Rightarrow> u8 list \<Rightarrow> u8 list option" where
  "wr_bytes b off bs =
     (if off + length bs \<le> length b
      then Some (take off b @ bs @ drop (off + length bs) b) else None)"

lemma wr_bytes_length: "wr_bytes b off bs = Some b' \<Longrightarrow> length b' = length b"
  by (auto simp: wr_bytes_def split: if_splits)

lemma rd_bytes_length: "rd_bytes b off n = Some bs \<Longrightarrow> length bs = n"
  by (auto simp: rd_bytes_def split: if_splits)

lemma rd_wr_same:
  "wr_bytes b off bs = Some b' \<Longrightarrow> rd_bytes b' off (length bs) = Some bs"
  by (auto simp: wr_bytes_def rd_bytes_def split: if_splits)

lemma rd_wr_before:
  assumes "wr_bytes b off bs = Some b'" and "o2 + n \<le> off"
  shows "rd_bytes b' o2 n = rd_bytes b o2 n"
  using assms
  by (auto simp: wr_bytes_def rd_bytes_def drop_take min_absorb1 split: if_splits)

lemma rd_wr_after:
  assumes "wr_bytes b off bs = Some b'" and "off + length bs \<le> o2"
  shows "rd_bytes b' o2 n = rd_bytes b o2 n"
  using assms
  by (auto simp: wr_bytes_def rd_bytes_def split: if_splits)

lemma wr_bytes_take:
  "wr_bytes b off bs = Some b' \<Longrightarrow> take (off + length bs) b' = take off b @ bs"
  by (auto simp: wr_bytes_def split: if_splits)

section \<open>First-match loops\<close>

text \<open>
  \<open>scan P i n\<close> is the loop \<^verbatim>\<open>for (; i < n; ++i) if (P(i)) break;\<close>: the first index from
  \<open>i\<close> on, below \<open>n\<close>, that satisfies \<open>P\<close>, and \<open>None\<close> when the loop runs out.
\<close>

function scan :: "(nat \<Rightarrow> bool) \<Rightarrow> nat \<Rightarrow> nat \<Rightarrow> nat option" where
  "scan P i n = (if i < n then (if P i then Some i else scan P (Suc i) n) else None)"
  by pat_completeness auto
termination
  by (relation "measure (\<lambda>(P, i, n). n - i)") auto

declare scan.simps [simp del]

lemma scan_Some_iff:
  "scan P i n = Some k \<longleftrightarrow> i \<le> k \<and> k < n \<and> P k \<and> (\<forall>j. i \<le> j \<longrightarrow> j < k \<longrightarrow> \<not> P j)"
proof (induction P i n rule: scan.induct)
  case (1 P i n)
  show ?case
  proof (cases "i < n \<and> \<not> P i")
    case True
    with "1" have "scan P i n = Some k \<longleftrightarrow>
        Suc i \<le> k \<and> k < n \<and> P k \<and> (\<forall>j. Suc i \<le> j \<longrightarrow> j < k \<longrightarrow> \<not> P j)"
      by (simp add: scan.simps [of P i n])
    with True show ?thesis
      by (metis Suc_leD Suc_leI le_neq_implies_less)
  next
    case False
    then show ?thesis
      by (auto simp: scan.simps [of P i n] not_le)

  qed
qed

lemma scan_None_iff: "scan P i n = None \<longleftrightarrow> (\<forall>k. i \<le> k \<longrightarrow> k < n \<longrightarrow> \<not> P k)"
proof (induction P i n rule: scan.induct)
  case (1 P i n)
  show ?case
  proof (cases "i < n \<and> \<not> P i")
    case True
    with "1" have "scan P i n = None \<longleftrightarrow> (\<forall>k. Suc i \<le> k \<longrightarrow> k < n \<longrightarrow> \<not> P k)"
      by (simp add: scan.simps [of P i n])
    with True show ?thesis
      by (metis Suc_leD Suc_leI le_neq_implies_less)
  next
    case False
    then show ?thesis
      by (auto simp: scan.simps [of P i n])
  qed
qed

lemma scan_SomeD:
  "scan P i n = Some k \<Longrightarrow> i \<le> k \<and> k < n \<and> P k"
  by (simp add: scan_Some_iff)

lemma scan_cong:
  "(\<And>k. i \<le> k \<Longrightarrow> k < n \<Longrightarrow> P k = Q k) \<Longrightarrow> scan P i n = scan Q i n"
proof (induction P i n rule: scan.induct)
  case (1 P i n)
  then show ?case
    by (simp add: scan.simps [of P i n] scan.simps [of Q i n])
qed

lemma scan_hit: "i < n \<Longrightarrow> P i \<Longrightarrow> scan P i n = Some i"
  by (simp add: scan.simps)

section \<open>Little endian integers\<close>

definition le32_bytes :: "u32 \<Rightarrow> u8 list" where
  "le32_bytes w =
     [ucast w, ucast (drop_bit 8 w), ucast (drop_bit 16 w), ucast (drop_bit 24 w)]"

definition le32_word :: "u8 list \<Rightarrow> u32" where
  "le32_word bs =
     ucast (bs ! 0) OR push_bit 8 (ucast (bs ! 1)) OR
     push_bit 16 (ucast (bs ! 2)) OR push_bit 24 (ucast (bs ! 3))"

lemma le32_bytes_length [simp]: "length (le32_bytes w) = 4"
  by (simp add: le32_bytes_def)

lemma le32_roundtrip [simp]: "le32_word (le32_bytes w) = w"
proof (rule bit_word_eqI)
  fix n
  assume "n < LENGTH(32)"
  then show "bit (le32_word (le32_bytes w)) n \<longleftrightarrow> bit w n"
    by (cases "n < 8"; cases "n < 16"; cases "n < 24")
      (auto simp: le32_word_def le32_bytes_def bit_simps)
qed

lemma le32_bytes_inject [simp]: "le32_bytes v = le32_bytes w \<longleftrightarrow> v = w"
  by (metis le32_roundtrip)

end
