(* ===== verification/Sync.thy ===== *)
theory Sync
  imports Milyra_Base
begin

text \<open>
  The synchronisation layer: \<^verbatim>\<open>atomic.c\<close>, \<^verbatim>\<open>semaphore.c\<close>, \<^verbatim>\<open>event.c\<close>, \<^verbatim>\<open>mutex.c\<close>.

  The atomics are modelled on the cell they operate on (the x64 interlocked intrinsics of the
  compiler are part of the language).  Semaphores, events and mutexes are kernel objects of
  Windows, which is not part of the repository: the functions the wrappers call are
  parameters, grouped in one record per kind of object, and what the engine relies on is
  stated as \<open>semaphore_laws\<close>, \<open>event_laws\<close> and \<open>mutex_laws\<close> (their documented behaviour).
  Each set of laws is satisfiable: \<open>counting_api\<close>, \<open>flag_api\<close> and \<open>owner_api\<close>.
\<close>

section \<open>Atomics (atomic.c)\<close>

text \<open>The intrinsics: each returns its result and the new contents of the cell.\<close>

definition interlocked_increment :: "c_int \<Rightarrow> c_int \<times> c_int" where
  "interlocked_increment m = (m + 1, m + 1)"

definition interlocked_decrement :: "c_int \<Rightarrow> c_int \<times> c_int" where
  "interlocked_decrement m = (m - 1, m - 1)"

definition interlocked_compare_exchange :: "c_int \<Rightarrow> c_int \<Rightarrow> c_int \<Rightarrow> c_int \<times> c_int" where
  "interlocked_compare_exchange m exchange comperand =
     (m, if m = comperand then exchange else m)"

definition atomic_increment :: "c_int \<Rightarrow> c_int \<times> c_int" where
  "atomic_increment m = (let (r, m') = interlocked_increment m in (r - 1, m'))"

definition atomic_decrement :: "c_int \<Rightarrow> c_int \<times> c_int" where
  "atomic_decrement m = (let (r, m') = interlocked_decrement m in (r + 1, m'))"

definition atomic_compare_and_exchange :: "c_int \<Rightarrow> c_int \<Rightarrow> c_int \<Rightarrow> c_int \<times> c_int" where
  "atomic_compare_and_exchange m compare exchange =
     interlocked_compare_exchange m exchange compare"

definition atomic_load :: "c_int \<Rightarrow> c_int" where
  "atomic_load m = m"

definition atomic_store :: "c_int \<Rightarrow> c_int \<Rightarrow> c_int" where
  "atomic_store m value = value"

text \<open>
  The specification in the comments of \<^verbatim>\<open>atomic.h\<close>: every operation returns the old value.
\<close>

lemma atomic_increment_spec [simp]: "atomic_increment m = (m, m + 1)"
  by (simp add: atomic_increment_def interlocked_increment_def)

lemma atomic_decrement_spec [simp]: "atomic_decrement m = (m, m - 1)"
  by (simp add: atomic_decrement_def interlocked_decrement_def)

lemma atomic_compare_and_exchange_spec [simp]:
  "atomic_compare_and_exchange m compare exchange = (m, if m = compare then exchange else m)"
  by (simp add: atomic_compare_and_exchange_def interlocked_compare_exchange_def)

section \<open>Waiting\<close>

datatype wait_result = WAIT_OBJECT_0 | WAIT_TIMEOUT | WAIT_FAILED

datatype wait_time = No_wait | Infinite

section \<open>Semaphores (semaphore.c)\<close>

text \<open>
  \<open>'s\<close> is the state of a semaphore object.  A wait that has not returned yet is \<open>None\<close>.
\<close>

record 's semaphore_api =
  CreateSemaphore :: "c_int \<Rightarrow> c_int \<Rightarrow> 's"
  WaitSemaphore :: "wait_time \<Rightarrow> 's \<Rightarrow> (wait_result \<times> 's) option"
  ReleaseSemaphore :: "'s \<Rightarrow> c_int \<Rightarrow> 's"

definition semaphore_create :: "'s semaphore_api \<Rightarrow> c_int \<Rightarrow> c_int \<Rightarrow> 's" where
  "semaphore_create K initial_count max_count = CreateSemaphore K initial_count max_count"

text \<open>\<^verbatim>\<open>semaphore_acquire\<close> ignores the result of the wait; \<open>None\<close>: the caller is blocked.\<close>

definition semaphore_acquire :: "'s semaphore_api \<Rightarrow> 's \<Rightarrow> 's option" where
  "semaphore_acquire K s = map_option snd (WaitSemaphore K Infinite s)"

definition semaphore_try_acquire :: "'s semaphore_api \<Rightarrow> 's \<Rightarrow> bool \<times> 's" where
  "semaphore_try_acquire K s =
     (case WaitSemaphore K No_wait s of
        None \<Rightarrow> (False, s)
      | Some (result, s') \<Rightarrow> (result = WAIT_OBJECT_0, s'))"

definition semaphore_release :: "'s semaphore_api \<Rightarrow> 's \<Rightarrow> 's" where
  "semaphore_release K s = ReleaseSemaphore K s 1"

text \<open>The documented behaviour of Win32 semaphores, for counts below \<open>2 ^ 31\<close>.\<close>

definition semaphore_laws :: "'s semaphore_api \<Rightarrow> ('s \<Rightarrow> nat) \<Rightarrow> ('s \<Rightarrow> nat) \<Rightarrow> bool" where
  "semaphore_laws K count limit \<longleftrightarrow>
     (\<forall>i m. 0 \<le> sint i \<longrightarrow> sint i \<le> sint m \<longrightarrow> 0 < sint m \<longrightarrow>
        count (CreateSemaphore K i m) = nat (sint i) \<and>
        limit (CreateSemaphore K i m) = nat (sint m)) \<and>
     (\<forall>t s. 0 < count s \<longrightarrow>
        (\<exists>s'. WaitSemaphore K t s = Some (WAIT_OBJECT_0, s') \<and>
              count s' = count s - 1 \<and> limit s' = limit s)) \<and>
     (\<forall>s. count s = 0 \<longrightarrow> WaitSemaphore K No_wait s = Some (WAIT_TIMEOUT, s)) \<and>
     (\<forall>s. count s = 0 \<longrightarrow> WaitSemaphore K Infinite s = None) \<and>
     (\<forall>s. count s < limit s \<longrightarrow>
        count (ReleaseSemaphore K s 1) = count s + 1 \<and>
        limit (ReleaseSemaphore K s 1) = limit s) \<and>
     (\<forall>s. limit s \<le> count s \<longrightarrow> ReleaseSemaphore K s 1 = s)"

definition counting_api :: "(nat \<times> nat) semaphore_api" where
  "counting_api =
     \<lparr>CreateSemaphore = (\<lambda>i m. (nat (sint i), nat (sint m))),
      WaitSemaphore = (\<lambda>t (c, m).
        if 0 < c then Some (WAIT_OBJECT_0, (c - 1, m))
        else (case t of No_wait \<Rightarrow> Some (WAIT_TIMEOUT, (c, m)) | Infinite \<Rightarrow> None)),
      ReleaseSemaphore = (\<lambda>(c, m) n.
        if c + unat n \<le> m then (c + unat n, m) else (c, m))\<rparr>"

lemma counting_api_laws: "semaphore_laws counting_api fst snd"
  by (auto simp: semaphore_laws_def counting_api_def)

lemma semaphore_create_count:
  assumes "semaphore_laws K count limit" and "i \<le> m" and "0 < m" and "m < 2 ^ 31"
  shows "count (semaphore_create K (word_of_nat i) (word_of_nat m)) = i"
    and "limit (semaphore_create K (word_of_nat i) (word_of_nat m)) = m"
  using assms by (auto simp: semaphore_laws_def semaphore_create_def)

lemma semaphore_acquire_Some:
  assumes "semaphore_laws K count limit" and "semaphore_acquire K s = Some s'"
  shows "0 < count s \<and> count s' = count s - 1 \<and> limit s' = limit s"
proof (cases "0 < count s")
  case True
  with assms(1) obtain s2 where
    "WaitSemaphore K Infinite s = Some (WAIT_OBJECT_0, s2)"
    "count s2 = count s - 1" "limit s2 = limit s"
    unfolding semaphore_laws_def by blast
  with assms(2) True show ?thesis by (simp add: semaphore_acquire_def)
next
  case False
  with assms show ?thesis by (simp add: semaphore_laws_def semaphore_acquire_def)
qed

lemma semaphore_acquire_blocks:
  assumes "semaphore_laws K count limit"
  shows "semaphore_acquire K s = None \<longleftrightarrow> count s = 0"
proof (cases "0 < count s")
  case True
  with assms obtain s2 where "WaitSemaphore K Infinite s = Some (WAIT_OBJECT_0, s2)"
    unfolding semaphore_laws_def by blast
  with True show ?thesis by (simp add: semaphore_acquire_def)
next
  case False
  with assms show ?thesis by (simp add: semaphore_laws_def semaphore_acquire_def)
qed

lemma semaphore_try_acquire_cases:
  assumes "semaphore_laws K count limit"
  obtains
    (taken) s' where "semaphore_try_acquire K s = (True, s')" and "0 < count s"
      and "count s' = count s - 1" and "limit s' = limit s"
  | (refused) "semaphore_try_acquire K s = (False, s)" and "count s = 0"
proof (cases "0 < count s")
  case True
  with assms obtain s2 where
    "WaitSemaphore K No_wait s = Some (WAIT_OBJECT_0, s2)"
    "count s2 = count s - 1" "limit s2 = limit s"
    unfolding semaphore_laws_def by blast
  with True show ?thesis
    by (intro taken [of s2]) (auto simp: semaphore_try_acquire_def)
next
  case False
  with assms show ?thesis
    by (intro refused) (auto simp: semaphore_laws_def semaphore_try_acquire_def)
qed

lemma semaphore_release_count:
  assumes "semaphore_laws K count limit" and "count s < limit s"
  shows "count (semaphore_release K s) = count s + 1"
    and "limit (semaphore_release K s) = limit s"
  using assms by (auto simp: semaphore_laws_def semaphore_release_def)

section \<open>Events (event.c)\<close>

text \<open>\<^verbatim>\<open>event_create\<close> asks for a manual-reset event that starts unsignalled.\<close>

record 'e event_api =
  CreateEvent :: "bool \<Rightarrow> bool \<Rightarrow> 'e"
  WaitEvent :: "wait_time \<Rightarrow> 'e \<Rightarrow> (wait_result \<times> 'e) option"
  SetEvent :: "'e \<Rightarrow> 'e"

definition event_create :: "'e event_api \<Rightarrow> 'e" where
  "event_create E = CreateEvent E True False"

definition event_signal :: "'e event_api \<Rightarrow> 'e \<Rightarrow> 'e" where
  "event_signal E e = SetEvent E e"

definition event_wait :: "'e event_api \<Rightarrow> 'e \<Rightarrow> 'e option" where
  "event_wait E e = map_option snd (WaitEvent E Infinite e)"

definition event_is_raised :: "'e event_api \<Rightarrow> 'e \<Rightarrow> bool \<times> 'e" where
  "event_is_raised E e =
     (case WaitEvent E No_wait e of
        None \<Rightarrow> (False, e)
      | Some (result, e') \<Rightarrow> (result = WAIT_OBJECT_0, e'))"

text \<open>A manual-reset event, once set, stays signalled: waiting does not reset it.\<close>

definition event_laws :: "'e event_api \<Rightarrow> ('e \<Rightarrow> bool) \<Rightarrow> bool" where
  "event_laws E signalled \<longleftrightarrow>
     \<not> signalled (CreateEvent E True False) \<and>
     (\<forall>e. signalled (SetEvent E e)) \<and>
     (\<forall>e t. signalled e \<longrightarrow> WaitEvent E t e = Some (WAIT_OBJECT_0, e)) \<and>
     (\<forall>e. \<not> signalled e \<longrightarrow> WaitEvent E No_wait e = Some (WAIT_TIMEOUT, e)) \<and>
     (\<forall>e. \<not> signalled e \<longrightarrow> WaitEvent E Infinite e = None)"

definition flag_api :: "bool event_api" where
  "flag_api =
     \<lparr>CreateEvent = (\<lambda>manual initial. initial),
      WaitEvent = (\<lambda>t e. if e then Some (WAIT_OBJECT_0, e)
        else (case t of No_wait \<Rightarrow> Some (WAIT_TIMEOUT, e) | Infinite \<Rightarrow> None)),
      SetEvent = (\<lambda>_. True)\<rparr>"

lemma flag_api_laws: "event_laws flag_api id"
  by (auto simp: event_laws_def flag_api_def)

lemma event_laws_wait:
  "event_laws E signalled \<Longrightarrow> event_wait E e = (if signalled e then Some e else None)"
  by (auto simp: event_laws_def event_wait_def)

lemma event_laws_is_raised:
  "event_laws E signalled \<Longrightarrow> event_is_raised E e = (signalled e, e)"
  by (cases "signalled e") (auto simp: event_laws_def event_is_raised_def)

lemma event_laws_create: "event_laws E signalled \<Longrightarrow> \<not> signalled (event_create E)"
  by (auto simp: event_laws_def event_create_def)

lemma event_laws_signal: "event_laws E signalled \<Longrightarrow> signalled (event_signal E e)"
  by (auto simp: event_laws_def event_signal_def)

section \<open>Mutexes (mutex.c)\<close>

text \<open>A Win32 mutex is owned by a thread and may be taken again by its owner.\<close>

type_synonym tid = nat

record 'm mutex_api =
  CreateMutex :: "bool \<Rightarrow> 'm"
  WaitMutex :: "tid \<Rightarrow> wait_time \<Rightarrow> 'm \<Rightarrow> (wait_result \<times> 'm) option"
  ReleaseMutex :: "tid \<Rightarrow> 'm \<Rightarrow> 'm"

definition mutex_create :: "'m mutex_api \<Rightarrow> 'm" where
  "mutex_create M = CreateMutex M False"

definition mutex_lock :: "'m mutex_api \<Rightarrow> tid \<Rightarrow> 'm \<Rightarrow> 'm option" where
  "mutex_lock M t m = map_option snd (WaitMutex M t Infinite m)"

definition mutex_unlock :: "'m mutex_api \<Rightarrow> tid \<Rightarrow> 'm \<Rightarrow> 'm" where
  "mutex_unlock M t m = ReleaseMutex M t m"

text \<open>\<open>holder m\<close>: the owner and how often it has taken the mutex, if it is taken.\<close>

definition mutex_laws :: "'m mutex_api \<Rightarrow> ('m \<Rightarrow> (tid \<times> nat) option) \<Rightarrow> bool" where
  "mutex_laws M holder \<longleftrightarrow>
     holder (CreateMutex M False) = None \<and>
     (\<forall>t w m. holder m = None \<longrightarrow>
        (\<exists>m'. WaitMutex M t w m = Some (WAIT_OBJECT_0, m') \<and> holder m' = Some (t, 1))) \<and>
     (\<forall>t w m n. holder m = Some (t, n) \<longrightarrow>
        (\<exists>m'. WaitMutex M t w m = Some (WAIT_OBJECT_0, m') \<and> holder m' = Some (t, n + 1))) \<and>
     (\<forall>t u m n. holder m = Some (u, n) \<longrightarrow> u \<noteq> t \<longrightarrow> WaitMutex M t Infinite m = None) \<and>
     (\<forall>t m n. holder m = Some (t, n) \<longrightarrow>
        holder (ReleaseMutex M t m) = (if n \<le> 1 then None else Some (t, n - 1)))"

definition owner_api :: "(tid \<times> nat) option mutex_api" where
  "owner_api =
     \<lparr>CreateMutex = (\<lambda>_. None),
      WaitMutex = (\<lambda>t w m. case m of
         None \<Rightarrow> Some (WAIT_OBJECT_0, Some (t, 1))
       | Some (u, n) \<Rightarrow>
           if u = t then Some (WAIT_OBJECT_0, Some (t, n + 1))
           else (case w of No_wait \<Rightarrow> Some (WAIT_TIMEOUT, m) | Infinite \<Rightarrow> None)),
      ReleaseMutex = (\<lambda>t m. case m of
         None \<Rightarrow> None
       | Some (u, n) \<Rightarrow>
           if u = t then (if n \<le> 1 then None else Some (t, n - 1)) else m)\<rparr>"

lemma owner_api_laws: "mutex_laws owner_api id"
  by (auto simp: mutex_laws_def owner_api_def)

lemma mutex_lock_free:
  assumes "mutex_laws M holder" and "holder m = None"
  obtains m' where "mutex_lock M t m = Some m'" and "holder m' = Some (t, 1)"
proof -
  from assms obtain m' where
    "WaitMutex M t Infinite m = Some (WAIT_OBJECT_0, m')" "holder m' = Some (t, 1)"
    unfolding mutex_laws_def by blast
  then show ?thesis by (intro that [of m']) (simp_all add: mutex_lock_def)
qed

lemma mutex_lock_held:
  assumes "mutex_laws M holder" and "holder m = Some (u, n)" and "u \<noteq> t"
  shows "mutex_lock M t m = None"
  using assms by (auto simp: mutex_laws_def mutex_lock_def)

lemma mutex_unlock_last:
  assumes "mutex_laws M holder" and "holder m = Some (t, 1)"
  shows "holder (mutex_unlock M t m) = None"
  using assms by (auto simp: mutex_laws_def mutex_unlock_def)

end
