(* ===== verification/Queue.thy ===== *)
theory Queue
  imports Sync
begin

text \<open>
  The bounded queue of \<^verbatim>\<open>queue.c\<close>: a ring of \<open>capacity\<close> pointers, two semaphores and two
  free-running 32 bit indices.  The functions are composed of the atomic actions they perform
  in order (\<open>q_acquire_free\<close>, \<open>q_take_tail\<close>, \<open>q_write\<close>, \<open>q_publish\<close> and the ones of the
  consumer), which \<^verbatim>\<open>Queue_Conc\<close> interleaves.  Here they run without interference: under
  \<open>queue_inv\<close> the queue is a bounded FIFO over \<open>queue_contents\<close> (with a stack-like
  \<open>dequeue\<close> at the other end), the contract stated by the locales \<open>bounded_channel\<close> and
  \<open>bounded_deque\<close>.
\<close>

section \<open>State and atomic actions\<close>

record ('s, 'a) queue =
  used_items :: 's
  free_items :: 's
  items :: "'a ptr list"
  capacity :: c_int
  head_index :: c_int
  tail_index :: c_int

text \<open>\<^verbatim>\<open>index % capacity\<close> on signed integers; a zero capacity is a division by zero.\<close>

definition slot_index :: "c_int \<Rightarrow> c_int \<Rightarrow> int option" where
  "slot_index i cap = (if sint cap = 0 then None else Some (c_rem (sint i) (sint cap)))"

definition slot_load :: "'a list \<Rightarrow> int option \<Rightarrow> 'a option" where
  "slot_load xs idx =
     (case idx of None \<Rightarrow> None | Some i \<Rightarrow> if 0 \<le> i then arr_get xs (nat i) else None)"

definition slot_store :: "'a list \<Rightarrow> int option \<Rightarrow> 'a \<Rightarrow> 'a list option" where
  "slot_store xs idx x =
     (case idx of None \<Rightarrow> None | Some i \<Rightarrow> if 0 \<le> i then arr_set xs (nat i) x else None)"

definition q_acquire_free :: "'s semaphore_api \<Rightarrow> ('s, 'a) queue \<Rightarrow> ('s, 'a) queue option" where
  "q_acquire_free K q =
     map_option (\<lambda>f. q\<lparr>free_items := f\<rparr>) (semaphore_acquire K (free_items q))"

definition q_acquire_used :: "'s semaphore_api \<Rightarrow> ('s, 'a) queue \<Rightarrow> ('s, 'a) queue option" where
  "q_acquire_used K q =
     map_option (\<lambda>u. q\<lparr>used_items := u\<rparr>) (semaphore_acquire K (used_items q))"

definition q_take_tail :: "('s, 'a) queue \<Rightarrow> int option \<times> ('s, 'a) queue" where
  "q_take_tail q =
     (let (old, tail') = atomic_increment (tail_index q)
      in (slot_index old (capacity q), q\<lparr>tail_index := tail'\<rparr>))"

definition q_take_head :: "('s, 'a) queue \<Rightarrow> int option \<times> ('s, 'a) queue" where
  "q_take_head q =
     (let (old, head') = atomic_increment (head_index q)
      in (slot_index old (capacity q), q\<lparr>head_index := head'\<rparr>))"

definition q_untake_tail :: "('s, 'a) queue \<Rightarrow> int option \<times> ('s, 'a) queue" where
  "q_untake_tail q =
     (let (old, tail') = atomic_decrement (tail_index q)
      in (slot_index (old - 1) (capacity q), q\<lparr>tail_index := tail'\<rparr>))"

definition q_write :: "('s, 'a) queue \<Rightarrow> int option \<Rightarrow> 'a ptr \<Rightarrow> ('s, 'a) queue option" where
  "q_write q idx x = map_option (\<lambda>xs. q\<lparr>items := xs\<rparr>) (slot_store (items q) idx x)"

definition q_read :: "('s, 'a) queue \<Rightarrow> int option \<Rightarrow> 'a ptr option" where
  "q_read q idx = slot_load (items q) idx"

definition q_publish :: "'s semaphore_api \<Rightarrow> ('s, 'a) queue \<Rightarrow> ('s, 'a) queue" where
  "q_publish K q = q\<lparr>used_items := semaphore_release K (used_items q)\<rparr>"

definition q_recycle :: "'s semaphore_api \<Rightarrow> ('s, 'a) queue \<Rightarrow> ('s, 'a) queue" where
  "q_recycle K q = q\<lparr>free_items := semaphore_release K (free_items q)\<rparr>"

section \<open>The operations of queue.c\<close>

text \<open>
  \<open>ok\<close> says whether the heap returned memory for the queue, \<open>mem\<close> is the (uninitialised)
  memory it returned for the items: \<open>[]\<close> when that allocation failed.
\<close>

definition queue_create ::
  "'s semaphore_api \<Rightarrow> bool \<Rightarrow> 'a ptr list \<Rightarrow> c_int \<Rightarrow> ('s, 'a) queue option" where
  "queue_create K ok mem cap =
     (if ok then Some
        \<lparr>used_items = semaphore_create K 0 cap,
         free_items = semaphore_create K cap cap,
         items = mem, capacity = cap, head_index = 0, tail_index = 0\<rparr>
      else None)"

definition queue_push ::
  "'s semaphore_api \<Rightarrow> ('s, 'a) queue \<Rightarrow> 'a ptr \<Rightarrow> ('s, 'a) queue outcome" where
  "queue_push K q item =
     (case q_acquire_free K q of
        None \<Rightarrow> Blocks
      | Some q1 \<Rightarrow>
          let (idx, q2) = q_take_tail q1 in
          (case q_write q2 idx item of
             None \<Rightarrow> Undefined
           | Some q3 \<Rightarrow> Returns (q_publish K q3)))"

definition queue_pop ::
  "'s semaphore_api \<Rightarrow> ('s, 'a) queue \<Rightarrow> ('a ptr \<times> ('s, 'a) queue) outcome" where
  "queue_pop K q =
     (case q_acquire_used K q of
        None \<Rightarrow> Blocks
      | Some q1 \<Rightarrow>
          let (idx, q2) = q_take_head q1 in
          (case q_read q2 idx of
             None \<Rightarrow> Undefined
           | Some item \<Rightarrow> Returns (item, q_recycle K q2)))"

definition dequeue ::
  "'s semaphore_api \<Rightarrow> ('s, 'a) queue \<Rightarrow> ('a ptr \<times> ('s, 'a) queue) outcome" where
  "dequeue K q =
     (case q_acquire_used K q of
        None \<Rightarrow> Blocks
      | Some q1 \<Rightarrow>
          let (idx, q2) = q_untake_tail q1 in
          (case q_read q2 idx of
             None \<Rightarrow> Undefined
           | Some item \<Rightarrow> Returns (item, q_recycle K q2)))"

definition queue_try_push ::
  "'s semaphore_api \<Rightarrow> ('s, 'a) queue \<Rightarrow> 'a ptr \<Rightarrow> (bool \<times> ('s, 'a) queue) outcome" where
  "queue_try_push K q item =
     (let (taken, f) = semaphore_try_acquire K (free_items q); q1 = q\<lparr>free_items := f\<rparr> in
      if taken then
        let (idx, q2) = q_take_tail q1 in
        (case q_write q2 idx item of
           None \<Rightarrow> Undefined
         | Some q3 \<Rightarrow> Returns (True, q_publish K q3))
      else Returns (False, q1))"

definition queue_try_pop ::
  "'s semaphore_api \<Rightarrow> ('s, 'a) queue \<Rightarrow> ('a ptr \<times> ('s, 'a) queue) outcome" where
  "queue_try_pop K q =
     (let (taken, u) = semaphore_try_acquire K (used_items q); q1 = q\<lparr>used_items := u\<rparr> in
      if taken then
        let (idx, q2) = q_take_head q1 in
        (case q_read q2 idx of
           None \<Rightarrow> Undefined
         | Some item \<Rightarrow> Returns (item, q_recycle K q2))
      else Returns (None, q1))"

lemmas queue_action_defs =
  q_acquire_free_def q_acquire_used_def q_take_tail_def q_take_head_def q_untake_tail_def
  q_write_def q_read_def q_publish_def q_recycle_def

section \<open>The interface the clients of a queue rely on\<close>

text \<open>
  A bounded FIFO.  \<open>room\<close> is the free space; \<open>budget\<close> bounds how many more pushes the
  implementation supports (an index that is never reset wraps eventually).
\<close>

locale bounded_channel =
  fixes inv :: "'q \<Rightarrow> bool"
    and contents :: "'q \<Rightarrow> 'a ptr list"
    and room :: "'q \<Rightarrow> nat"
    and budget :: "'q \<Rightarrow> nat"
    and push :: "'q \<Rightarrow> 'a ptr \<Rightarrow> 'q outcome"
    and pop :: "'q \<Rightarrow> ('a ptr \<times> 'q) outcome"
    and try_push :: "'q \<Rightarrow> 'a ptr \<Rightarrow> (bool \<times> 'q) outcome"
    and try_pop :: "'q \<Rightarrow> ('a ptr \<times> 'q) outcome"
  assumes push_room: "inv q \<Longrightarrow> 0 < room q \<Longrightarrow> 0 < budget q \<Longrightarrow>
      \<exists>q'. push q x = Returns q' \<and> inv q' \<and> contents q' = contents q @ [x] \<and>
           room q' = room q - 1 \<and> budget q' = budget q - 1"
    and push_full: "inv q \<Longrightarrow> room q = 0 \<Longrightarrow> push q x = Blocks"
    and pop_cons: "inv q \<Longrightarrow> contents q = x # xs \<Longrightarrow>
      \<exists>q'. pop q = Returns (x, q') \<and> inv q' \<and> contents q' = xs \<and>
           room q' = room q + 1 \<and> budget q' = budget q"
    and pop_empty: "inv q \<Longrightarrow> contents q = [] \<Longrightarrow> pop q = Blocks"
    and try_push_room: "inv q \<Longrightarrow> 0 < room q \<Longrightarrow> 0 < budget q \<Longrightarrow>
      \<exists>q'. try_push q x = Returns (True, q') \<and> inv q' \<and> contents q' = contents q @ [x] \<and>
           room q' = room q - 1 \<and> budget q' = budget q - 1"
    and try_push_full: "inv q \<Longrightarrow> room q = 0 \<Longrightarrow> try_push q x = Returns (False, q)"
    and try_pop_cons: "inv q \<Longrightarrow> contents q = x # xs \<Longrightarrow>
      \<exists>q'. try_pop q = Returns (x, q') \<and> inv q' \<and> contents q' = xs \<and>
           room q' = room q + 1 \<and> budget q' = budget q"
    and try_pop_empty: "inv q \<Longrightarrow> contents q = [] \<Longrightarrow> try_pop q = Returns (None, q)"
begin

text \<open>Operations run one after the other; the first that does not return stops the run.\<close>

fun push_all :: "'q \<Rightarrow> 'a ptr list \<Rightarrow> 'q outcome" where
  "push_all q [] = Returns q"
| "push_all q (x # xs) =
     (case push q x of Returns q' \<Rightarrow> push_all q' xs | Blocks \<Rightarrow> Blocks | Undefined \<Rightarrow> Undefined)"

fun pop_many :: "nat \<Rightarrow> 'q \<Rightarrow> ('a ptr list \<times> 'q) outcome" where
  "pop_many 0 q = Returns ([], q)"
| "pop_many (Suc n) q =
     (case pop q of
        Returns (x, q') \<Rightarrow>
          (case pop_many n q' of
             Returns (xs, q2) \<Rightarrow> Returns (x # xs, q2) | Blocks \<Rightarrow> Blocks | Undefined \<Rightarrow> Undefined)
      | Blocks \<Rightarrow> Blocks | Undefined \<Rightarrow> Undefined)"

lemma push_all_room:
  "inv q \<Longrightarrow> length xs \<le> room q \<Longrightarrow> length xs \<le> budget q \<Longrightarrow>
   \<exists>q'. push_all q xs = Returns q' \<and> inv q' \<and> contents q' = contents q @ xs \<and>
        room q' = room q - length xs"
proof (induction xs arbitrary: q)
  case Nil
  then show ?case by simp
next
  case (Cons x xs)
  then obtain q1 where q1: "push q x = Returns q1" "inv q1" "contents q1 = contents q @ [x]"
    "room q1 = room q - 1" "budget q1 = budget q - 1"
    using push_room [of q x] by auto
  from q1 Cons.prems have "length xs \<le> room q1" "length xs \<le> budget q1"
    by auto
  from Cons.IH [OF q1(2) this] obtain q' where "push_all q1 xs = Returns q'" "inv q'"
    "contents q' = contents q1 @ xs" "room q' = room q1 - length xs"
    by blast
  with q1 show ?case by auto
qed

lemma pop_many_contents:
  "inv q \<Longrightarrow> contents q = xs @ ys \<Longrightarrow>
   \<exists>q'. pop_many (length xs) q = Returns (xs, q') \<and> inv q' \<and> contents q' = ys \<and>
        room q' = room q + length xs"
proof (induction xs arbitrary: q)
  case Nil
  then show ?case by simp
next
  case (Cons x xs)
  then obtain q1 where q1: "pop q = Returns (x, q1)" "inv q1" "contents q1 = xs @ ys"
    "room q1 = room q + 1"
    using pop_cons [of q x "xs @ ys"] by auto
  with Cons.IH [of q1] obtain q' where "pop_many (length xs) q1 = Returns (xs, q')" "inv q'"
    "contents q' = ys" "room q' = room q1 + length xs" by auto
  with q1 show ?case by auto
qed

text \<open>A batch that fits comes out in the order it went in.\<close>

lemma fifo:
  assumes "inv q" and "contents q = []" and "length xs \<le> room q" and "length xs \<le> budget q"
  shows "\<exists>q1 q2. push_all q xs = Returns q1 \<and> pop_many (length xs) q1 = Returns (xs, q2) \<and>
           inv q2 \<and> contents q2 = [] \<and> room q2 = room q"
proof -
  from push_all_room [OF assms(1,3,4)] assms(2) obtain q1 where
    q1: "push_all q xs = Returns q1" "inv q1" "contents q1 = xs @ []"
      "room q1 = room q - length xs" by auto
  with pop_many_contents [OF q1(2,3)] assms(3) show ?thesis by auto
qed

end

text \<open>A queue whose newest element can be taken back as well.\<close>

locale bounded_deque = bounded_channel inv contents room budget push pop try_push try_pop
  for inv :: "'q \<Rightarrow> bool"
    and contents :: "'q \<Rightarrow> 'a ptr list"
    and room :: "'q \<Rightarrow> nat"
    and budget :: "'q \<Rightarrow> nat"
    and push :: "'q \<Rightarrow> 'a ptr \<Rightarrow> 'q outcome"
    and pop :: "'q \<Rightarrow> ('a ptr \<times> 'q) outcome"
    and try_push :: "'q \<Rightarrow> 'a ptr \<Rightarrow> (bool \<times> 'q) outcome"
    and try_pop :: "'q \<Rightarrow> ('a ptr \<times> 'q) outcome" +
  fixes pop_back :: "'q \<Rightarrow> ('a ptr \<times> 'q) outcome"
  assumes pop_back_snoc: "inv q \<Longrightarrow> contents q = xs @ [x] \<Longrightarrow>
      \<exists>q'. pop_back q = Returns (x, q') \<and> inv q' \<and> contents q' = xs \<and>
           room q' = room q + 1 \<and> budget q' = budget q + 1"
    and pop_back_empty: "inv q \<Longrightarrow> contents q = [] \<Longrightarrow> pop_back q = Blocks"
begin

lemma push_pop_back:
  assumes "inv q" and "0 < room q" and "0 < budget q"
  shows "\<exists>q1 q2. push q x = Returns q1 \<and> pop_back q1 = Returns (x, q2) \<and> inv q2 \<and>
           contents q2 = contents q \<and> room q2 = room q \<and> budget q2 = budget q"
proof -
  from push_room [OF assms] obtain q1 where q1: "push q x = Returns q1" "inv q1"
    "contents q1 = contents q @ [x]" "room q1 = room q - 1" "budget q1 = budget q - 1"
    by blast
  from pop_back_snoc [OF q1(2,3)] q1 assms(2,3) show ?thesis by fastforce
qed

end

section \<open>The sequential contract of queue.c\<close>

text \<open>
  Between operations, \<open>tail - head\<close> items lie in the ring from \<open>head\<close> on; the semaphores
  count them and the free slots.  The indices are read as naturals, which is exact until
  \<open>2 ^ 31\<close> pushes.
\<close>

definition q_cap :: "('s, 'a) queue \<Rightarrow> nat" where
  "q_cap q = unat (capacity q)"

definition q_head :: "('s, 'a) queue \<Rightarrow> nat" where
  "q_head q = unat (head_index q)"

definition q_tail :: "('s, 'a) queue \<Rightarrow> nat" where
  "q_tail q = unat (tail_index q)"

definition queue_contents :: "('s, 'a) queue \<Rightarrow> 'a ptr list" where
  "queue_contents q = map (\<lambda>k. items q ! (k mod q_cap q)) [q_head q..<q_tail q]"

definition queue_room :: "('s, 'a) queue \<Rightarrow> nat" where
  "queue_room q = q_cap q - (q_tail q - q_head q)"

definition queue_budget :: "('s, 'a) queue \<Rightarrow> nat" where
  "queue_budget q = 2 ^ 31 - 1 - q_tail q"

definition queue_inv :: "('s \<Rightarrow> nat) \<Rightarrow> ('s \<Rightarrow> nat) \<Rightarrow> ('s, 'a) queue \<Rightarrow> bool" where
  "queue_inv count limit q \<longleftrightarrow>
     0 < q_cap q \<and> q_cap q < 2 ^ 31 \<and> length (items q) = q_cap q \<and>
     q_head q \<le> q_tail q \<and> q_tail q \<le> q_head q + q_cap q \<and> q_tail q < 2 ^ 31 \<and>
     count (used_items q) = q_tail q - q_head q \<and> limit (used_items q) = q_cap q \<and>
     count (free_items q) = q_cap q - (q_tail q - q_head q) \<and> limit (free_items q) = q_cap q"

lemma queue_contents_length [simp]: "length (queue_contents q) = q_tail q - q_head q"
  by (simp add: queue_contents_def)

lemma slot_index_nat:
  assumes "unat i < 2 ^ 31" and "unat cap < 2 ^ 31" and "0 < unat cap"
  shows "slot_index i cap = Some (int (unat i mod unat cap))"
proof -
  from assms have "sint i = int (unat i)" "sint cap = int (unat cap)"
    by (auto intro: sint_unat simp del: of_nat_unat)
  moreover from assms(3) have "unat cap \<noteq> 0" by simp
  ultimately show ?thesis
    using assms(3) unfolding slot_index_def
    by (simp only: c_rem_nonneg of_nat_0_le_iff of_nat_0_less_iff
        of_nat_eq_0_iff zmod_int if_False)
qed

lemma slot_index_load:
  "0 < n \<Longrightarrow> length xs = n \<Longrightarrow> slot_load xs (Some (int (k mod n))) = Some (xs ! (k mod n))"
  by (simp add: slot_load_def)

lemma slot_index_store:
  "0 < n \<Longrightarrow> length xs = n \<Longrightarrow>
   slot_store xs (Some (int (k mod n))) x = Some (xs[k mod n := x])"
  by (simp add: slot_store_def)

lemma unat_suc: "unat (w :: c_int) < 2 ^ 32 - 1 \<Longrightarrow> unat (w + 1) = unat w + 1"
  using unat_add_lem [of w 1] by simp

lemma unat_pred: "0 < unat (w :: c_int) \<Longrightarrow> unat (w - 1) = unat w - 1"
  by (metis unat_minus_one gr_implies_not_zero unat_0)

text \<open>Indices closer together than the capacity use different slots.\<close>

lemma mod_distinct:
  fixes j k n :: nat
  assumes "j < k" and "k < j + n"
  shows "j mod n \<noteq> k mod n"
proof
  assume "j mod n = k mod n"
  then have "n dvd k - j"
    using assms(1) mod_eq_dvd_iff_nat [of j k n] by simp
  with assms show False
    by (auto dest: dvd_imp_le)
qed

lemma queue_create_inv:
  assumes laws: "semaphore_laws K count limit" and "0 < n" "n < 2 ^ 31" "length mem = n"
    and q: "queue_create K True mem (word_of_nat n) = Some q"
  shows "queue_inv count limit q \<and> queue_contents q = [] \<and> queue_room q = n \<and>
         queue_budget q = 2 ^ 31 - 1"
proof -
  have n: "unat (word_of_nat n :: c_int) = n"
    using assms(3) by (simp add: unat_of_nat take_bit_nat_eq_self_iff)
  show ?thesis
    using q semaphore_create_count [OF laws, of 0 n] semaphore_create_count [OF laws, of n n]
      assms(2-4) n
    by (auto simp: queue_create_def queue_inv_def queue_contents_def queue_room_def
        queue_budget_def q_cap_def q_head_def q_tail_def)
qed

subsection \<open>Producer side\<close>

text \<open>What \<open>queue_push\<close> and \<open>queue_try_push\<close> leave behind once a free slot is acquired.\<close>

definition pushed_queue ::
  "'s semaphore_api \<Rightarrow> ('s, 'a) queue \<Rightarrow> 's \<Rightarrow> 'a ptr \<Rightarrow> ('s, 'a) queue" where
  "pushed_queue K q f x =
     q\<lparr>free_items := f, tail_index := tail_index q + 1,
       items := (items q)[q_tail q mod q_cap q := x],
       used_items := semaphore_release K (used_items q)\<rparr>"

lemma take_tail_write:
  assumes "queue_inv count limit q"
  obtains idx q2 q3 where "q_take_tail (q\<lparr>free_items := f\<rparr>) = (idx, q2)"
    and "q_write q2 idx x = Some q3" and "q_publish K q3 = pushed_queue K q f x"
proof -
  let ?i = "q_tail q mod q_cap q"
  have idx: "slot_index (tail_index q) (capacity q) = Some (int ?i)"
    using assms by (auto simp: queue_inv_def q_tail_def q_cap_def intro: slot_index_nat)
  have "slot_store (items q) (Some (int ?i)) x = Some ((items q)[?i := x])"
    using assms by (intro slot_index_store) (auto simp: queue_inv_def)
  with idx show ?thesis
    by (intro that) (auto simp: q_take_tail_def q_write_def q_publish_def pushed_queue_def)
qed

lemma pushed_queue_contract:
  assumes laws: "semaphore_laws K count limit"
    and inv: "queue_inv count limit q" and room: "0 < queue_room q" and budget: "0 < queue_budget q"
    and f: "count f = count (free_items q) - 1" "limit f = limit (free_items q)"
    and q': "q' = pushed_queue K q f x"
  shows "queue_inv count limit q' \<and> queue_contents q' = queue_contents q @ [x] \<and>
         queue_room q' = queue_room q - 1 \<and> queue_budget q' = queue_budget q - 1"
proof -
  let ?n = "q_cap q" and ?t = "q_tail q" and ?h = "q_head q"
  have bounds: "0 < ?n" "length (items q) = ?n" "?h \<le> ?t" "?t < ?h + ?n" "?t + 1 < 2 ^ 31"
    using inv room budget by (auto simp: queue_inv_def queue_room_def queue_budget_def)
  have fields: "q_cap q' = ?n" "q_head q' = ?h" "q_tail q' = ?t + 1"
    "items q' = (items q)[?t mod ?n := x]"
    using bounds(5) unat_suc [of "tail_index q"]
    by (simp_all add: q' pushed_queue_def q_cap_def q_head_def q_tail_def)
  have "count (used_items q) < limit (used_items q)"
    using inv bounds by (auto simp: queue_inv_def)
  from semaphore_release_count [OF laws this]
  have used: "count (used_items q') = count (used_items q) + 1"
    "limit (used_items q') = limit (used_items q)"
    by (simp_all add: q' pushed_queue_def)
  have "queue_inv count limit q'"
    using inv used f fields bounds by (auto simp: queue_inv_def q' pushed_queue_def)
  moreover have "queue_contents q' = queue_contents q @ [x]"
  proof -
    have "(items q)[?t mod ?n := x] ! (k mod ?n) = items q ! (k mod ?n)"
      if "k \<in> set [?h..<?t]" for k
      using that mod_distinct [of k ?t ?n] bounds by auto
    then have "map (\<lambda>k. (items q)[?t mod ?n := x] ! (k mod ?n)) [?h..<?t] = queue_contents q"
      by (simp add: queue_contents_def)
    with bounds show ?thesis
      by (simp add: queue_contents_def [of q'] fields)
  qed
  ultimately show ?thesis
    using bounds by (auto simp: queue_room_def queue_budget_def fields)
qed

lemma queue_push_room:
  assumes laws: "semaphore_laws K count limit"
    and inv: "queue_inv count limit q" and room: "0 < queue_room q" and budget: "0 < queue_budget q"
  shows "\<exists>q'. queue_push K q x = Returns q' \<and> queue_inv count limit q' \<and>
           queue_contents q' = queue_contents q @ [x] \<and>
           queue_room q' = queue_room q - 1 \<and> queue_budget q' = queue_budget q - 1"
proof -
  have "0 < count (free_items q)"
    using inv room by (auto simp: queue_inv_def queue_room_def)
  then obtain f where f: "semaphore_acquire K (free_items q) = Some f"
    using semaphore_acquire_blocks [OF laws, of "free_items q"] by fastforce
  obtain idx q2 q3 where "q_take_tail (q\<lparr>free_items := f\<rparr>) = (idx, q2)"
    "q_write q2 idx x = Some q3" "q_publish K q3 = pushed_queue K q f x"
    using take_tail_write [OF inv] by metis
  with f have "queue_push K q x = Returns (pushed_queue K q f x)"
    by (simp add: queue_push_def q_acquire_free_def)
  with semaphore_acquire_Some [OF laws f] pushed_queue_contract [OF laws inv room budget _ _ refl]
  show ?thesis by blast
qed

lemma queue_push_full:
  assumes "semaphore_laws K count limit" and "queue_inv count limit q" and "queue_room q = 0"
  shows "queue_push K q x = Blocks"
proof -
  have "count (free_items q) = 0"
    using assms(2,3) by (auto simp: queue_inv_def queue_room_def)
  with assms(1) show ?thesis
    by (simp add: queue_push_def q_acquire_free_def semaphore_acquire_blocks [THEN iffD2])
qed

lemma queue_try_push_room:
  assumes laws: "semaphore_laws K count limit"
    and inv: "queue_inv count limit q" and room: "0 < queue_room q" and budget: "0 < queue_budget q"
  shows "\<exists>q'. queue_try_push K q x = Returns (True, q') \<and> queue_inv count limit q' \<and>
           queue_contents q' = queue_contents q @ [x] \<and>
           queue_room q' = queue_room q - 1 \<and> queue_budget q' = queue_budget q - 1"
proof -
  have "0 < count (free_items q)"
    using inv room by (auto simp: queue_inv_def queue_room_def)
  then obtain f where f: "semaphore_try_acquire K (free_items q) = (True, f)"
    "count f = count (free_items q) - 1" "limit f = limit (free_items q)"
    using semaphore_try_acquire_cases [OF laws, of "free_items q"] by (metis less_irrefl)
  obtain idx q2 q3 where "q_take_tail (q\<lparr>free_items := f\<rparr>) = (idx, q2)"
    "q_write q2 idx x = Some q3" "q_publish K q3 = pushed_queue K q f x"
    using take_tail_write [OF inv] by metis
  with f have "queue_try_push K q x = Returns (True, pushed_queue K q f x)"
    by (simp add: queue_try_push_def)
  with f pushed_queue_contract [OF laws inv room budget _ _ refl]
  show ?thesis by blast
qed

lemma queue_try_push_full:
  assumes laws: "semaphore_laws K count limit" and "queue_inv count limit q" and "queue_room q = 0"
  shows "queue_try_push K q x = Returns (False, q)"
proof -
  have "count (free_items q) = 0"
    using assms(2,3) by (auto simp: queue_inv_def queue_room_def)
  then have "semaphore_try_acquire K (free_items q) = (False, free_items q)"
    using semaphore_try_acquire_cases [OF laws, of "free_items q"] by (metis less_irrefl)
  then show ?thesis by (simp add: queue_try_push_def)
qed

subsection \<open>Consumer side\<close>

definition popped_queue :: "'s semaphore_api \<Rightarrow> ('s, 'a) queue \<Rightarrow> 's \<Rightarrow> ('s, 'a) queue" where
  "popped_queue K q u =
     q\<lparr>used_items := u, head_index := head_index q + 1,
       free_items := semaphore_release K (free_items q)\<rparr>"

definition unpushed_queue :: "'s semaphore_api \<Rightarrow> ('s, 'a) queue \<Rightarrow> 's \<Rightarrow> ('s, 'a) queue" where
  "unpushed_queue K q u =
     q\<lparr>used_items := u, tail_index := tail_index q - 1,
       free_items := semaphore_release K (free_items q)\<rparr>"

lemma take_head_read:
  assumes "queue_inv count limit q"
  obtains idx q2 where "q_take_head (q\<lparr>used_items := u\<rparr>) = (idx, q2)"
    and "q_read q2 idx = Some (items q ! (q_head q mod q_cap q))"
    and "q_recycle K q2 = popped_queue K q u"
proof -
  let ?i = "q_head q mod q_cap q"
  have idx: "slot_index (head_index q) (capacity q) = Some (int ?i)"
    using assms by (auto simp: queue_inv_def q_head_def q_tail_def q_cap_def intro!: slot_index_nat)
  have "slot_load (items q) (Some (int ?i)) = Some (items q ! ?i)"
    using assms by (intro slot_index_load) (auto simp: queue_inv_def)
  with idx show ?thesis
    by (intro that [of _ "q\<lparr>used_items := u, head_index := head_index q + 1\<rparr>"])
      (auto simp: q_take_head_def q_read_def q_recycle_def popped_queue_def)
qed

lemma untake_tail_read:
  assumes "queue_inv count limit q" and "q_head q < q_tail q"
  obtains idx q2 where "q_untake_tail (q\<lparr>used_items := u\<rparr>) = (idx, q2)"
    and "q_read q2 idx = Some (items q ! ((q_tail q - 1) mod q_cap q))"
    and "q_recycle K q2 = unpushed_queue K q u"
proof -
  let ?i = "(q_tail q - 1) mod q_cap q"
  have "unat (tail_index q - 1) = q_tail q - 1"
    using assms(2) by (simp add: q_tail_def unat_pred)
  then have idx: "slot_index (tail_index q - 1) (capacity q) = Some (int ?i)"
    using assms slot_index_nat [of "tail_index q - 1" "capacity q"]
    by (auto simp: queue_inv_def q_cap_def)
  have "slot_load (items q) (Some (int ?i)) = Some (items q ! ?i)"
    using assms by (intro slot_index_load) (auto simp: queue_inv_def)
  with idx show ?thesis
    by (intro that [of _ "q\<lparr>used_items := u, tail_index := tail_index q - 1\<rparr>"])
      (auto simp: q_untake_tail_def q_read_def q_recycle_def unpushed_queue_def)
qed

lemma popped_queue_contract:
  assumes laws: "semaphore_laws K count limit"
    and inv: "queue_inv count limit q" and contents: "queue_contents q = x # xs"
    and u: "count u = count (used_items q) - 1" "limit u = limit (used_items q)"
    and q': "q' = popped_queue K q u"
  shows "items q ! (q_head q mod q_cap q) = x \<and> queue_inv count limit q' \<and>
         queue_contents q' = xs \<and> queue_room q' = queue_room q + 1 \<and>
         queue_budget q' = queue_budget q"
proof -
  let ?n = "q_cap q" and ?t = "q_tail q" and ?h = "q_head q"
  have "length (x # xs) = ?t - ?h"
    by (simp only: contents [symmetric] queue_contents_length)
  then have "?h < ?t" by simp
  with inv have bounds: "0 < ?n" "length (items q) = ?n" "?h < ?t" "?t \<le> ?h + ?n" "?t < 2 ^ 31"
    by (auto simp: queue_inv_def)
  have fields: "q_cap q' = ?n" "q_head q' = ?h + 1" "q_tail q' = ?t" "items q' = items q"
    using bounds unat_suc [of "head_index q"]
    by (simp_all add: q' popped_queue_def q_cap_def q_head_def q_tail_def)
  have "count (free_items q) < limit (free_items q)"
    using inv bounds by (auto simp: queue_inv_def)
  from semaphore_release_count [OF laws this]
  have free: "count (free_items q') = count (free_items q) + 1"
    "limit (free_items q') = limit (free_items q)"
    by (simp_all add: q' popped_queue_def)
  have "queue_inv count limit q'"
    using inv free u fields bounds by (auto simp: queue_inv_def q' popped_queue_def)
  moreover have "x # xs = items q ! (?h mod ?n) # queue_contents q'"
    using contents bounds(3) by (simp add: queue_contents_def fields upt_conv_Cons)
  ultimately show ?thesis
    using bounds by (auto simp: queue_room_def queue_budget_def fields)
qed

lemma unpushed_queue_contract:
  assumes laws: "semaphore_laws K count limit"
    and inv: "queue_inv count limit q" and contents: "queue_contents q = xs @ [x]"
    and u: "count u = count (used_items q) - 1" "limit u = limit (used_items q)"
    and q': "q' = unpushed_queue K q u"
  shows "items q ! ((q_tail q - 1) mod q_cap q) = x \<and> queue_inv count limit q' \<and>
         queue_contents q' = xs \<and> queue_room q' = queue_room q + 1 \<and>
         queue_budget q' = queue_budget q + 1"
proof -
  let ?n = "q_cap q" and ?t = "q_tail q" and ?h = "q_head q"
  have "length (xs @ [x]) = ?t - ?h"
    by (simp only: contents [symmetric] queue_contents_length)
  then have "?h < ?t" by simp
  with inv have bounds: "0 < ?n" "length (items q) = ?n" "?h < ?t" "?t \<le> ?h + ?n" "?t < 2 ^ 31"
    by (auto simp: queue_inv_def)
  have fields: "q_cap q' = ?n" "q_head q' = ?h" "q_tail q' = ?t - 1" "items q' = items q"
    using bounds(3) unat_pred [of "tail_index q"]
    by (simp_all add: q' unpushed_queue_def q_cap_def q_head_def q_tail_def)
  have "count (free_items q) < limit (free_items q)"
    using inv bounds by (auto simp: queue_inv_def)
  from semaphore_release_count [OF laws this]
  have free: "count (free_items q') = count (free_items q) + 1"
    "limit (free_items q') = limit (free_items q)"
    by (simp_all add: q' unpushed_queue_def)
  have "queue_inv count limit q'"
    using inv free u fields bounds by (auto simp: queue_inv_def q' unpushed_queue_def)
  moreover have "[?h..<?t] = [?h..<?t - 1] @ [?t - 1]"
    using bounds(3) upt_Suc_append [of ?h "?t - 1"] by simp
  then have "xs @ [x] = queue_contents q' @ [items q ! ((?t - 1) mod ?n)]"
    using contents by (simp add: queue_contents_def fields)
  ultimately show ?thesis
    using bounds by (auto simp: queue_room_def queue_budget_def fields)
qed

lemma used_count:
  "queue_inv count limit q \<Longrightarrow> count (used_items q) = length (queue_contents q)"
  by (simp add: queue_inv_def)

lemma queue_pop_cons:
  assumes laws: "semaphore_laws K count limit"
    and inv: "queue_inv count limit q" and contents: "queue_contents q = x # xs"
  shows "\<exists>q'. queue_pop K q = Returns (x, q') \<and> queue_inv count limit q' \<and>
           queue_contents q' = xs \<and> queue_room q' = queue_room q + 1 \<and>
           queue_budget q' = queue_budget q"
proof -
  have "0 < count (used_items q)"
    unfolding used_count [OF inv] contents by simp
  then obtain u where u: "semaphore_acquire K (used_items q) = Some u"
    using semaphore_acquire_blocks [OF laws, of "used_items q"] by fastforce
  obtain idx q2 where "q_take_head (q\<lparr>used_items := u\<rparr>) = (idx, q2)"
    "q_read q2 idx = Some (items q ! (q_head q mod q_cap q))"
    "q_recycle K q2 = popped_queue K q u"
    using take_head_read [OF inv] by metis
  with u have "queue_pop K q = Returns (items q ! (q_head q mod q_cap q), popped_queue K q u)"
    by (simp add: queue_pop_def q_acquire_used_def)
  with semaphore_acquire_Some [OF laws u] popped_queue_contract [OF laws inv contents _ _ refl]
  show ?thesis by metis
qed

lemma queue_pop_empty:
  assumes "semaphore_laws K count limit" and "queue_inv count limit q" and "queue_contents q = []"
  shows "queue_pop K q = Blocks" and "dequeue K q = Blocks"
proof -
  have "count (used_items q) = 0"
    using used_count [OF assms(2)] assms(3) by simp
  with assms(1) show "queue_pop K q = Blocks" and "dequeue K q = Blocks"
    by (simp_all add: queue_pop_def dequeue_def q_acquire_used_def
        semaphore_acquire_blocks [THEN iffD2])
qed

lemma queue_try_pop_cons:
  assumes laws: "semaphore_laws K count limit"
    and inv: "queue_inv count limit q" and contents: "queue_contents q = x # xs"
  shows "\<exists>q'. queue_try_pop K q = Returns (x, q') \<and> queue_inv count limit q' \<and>
           queue_contents q' = xs \<and> queue_room q' = queue_room q + 1 \<and>
           queue_budget q' = queue_budget q"
proof -
  have "0 < count (used_items q)"
    unfolding used_count [OF inv] contents by simp
  then obtain u where u: "semaphore_try_acquire K (used_items q) = (True, u)"
    "count u = count (used_items q) - 1" "limit u = limit (used_items q)"
    using semaphore_try_acquire_cases [OF laws, of "used_items q"] by (metis less_irrefl)
  obtain idx q2 where "q_take_head (q\<lparr>used_items := u\<rparr>) = (idx, q2)"
    "q_read q2 idx = Some (items q ! (q_head q mod q_cap q))"
    "q_recycle K q2 = popped_queue K q u"
    using take_head_read [OF inv] by metis
  with u have "queue_try_pop K q = Returns (items q ! (q_head q mod q_cap q), popped_queue K q u)"
    by (simp add: queue_try_pop_def)
  with u popped_queue_contract [OF laws inv contents _ _ refl]
  show ?thesis by metis
qed

lemma queue_try_pop_empty:
  assumes laws: "semaphore_laws K count limit" and "queue_inv count limit q"
    and "queue_contents q = []"
  shows "queue_try_pop K q = Returns (None, q)"
proof -
  have "count (used_items q) = 0"
    using used_count [OF assms(2)] assms(3) by simp
  then have "semaphore_try_acquire K (used_items q) = (False, used_items q)"
    using semaphore_try_acquire_cases [OF laws, of "used_items q"] by (metis less_irrefl)
  then show ?thesis by (simp add: queue_try_pop_def)
qed

lemma dequeue_snoc:
  assumes laws: "semaphore_laws K count limit"
    and inv: "queue_inv count limit q" and contents: "queue_contents q = xs @ [x]"
  shows "\<exists>q'. dequeue K q = Returns (x, q') \<and> queue_inv count limit q' \<and>
           queue_contents q' = xs \<and> queue_room q' = queue_room q + 1 \<and>
           queue_budget q' = queue_budget q + 1"
proof -
  have used: "0 < count (used_items q)"
    unfolding used_count [OF inv] contents by simp
  then obtain u where u: "semaphore_acquire K (used_items q) = Some u"
    using semaphore_acquire_blocks [OF laws, of "used_items q"] by fastforce
  have "q_head q < q_tail q"
    using used inv by (simp add: queue_inv_def)
  then obtain idx q2 where "q_untake_tail (q\<lparr>used_items := u\<rparr>) = (idx, q2)"
    "q_read q2 idx = Some (items q ! ((q_tail q - 1) mod q_cap q))"
    "q_recycle K q2 = unpushed_queue K q u"
    using untake_tail_read [OF inv] by metis
  with u have "dequeue K q =
      Returns (items q ! ((q_tail q - 1) mod q_cap q), unpushed_queue K q u)"
    by (simp add: dequeue_def q_acquire_used_def)
  with semaphore_acquire_Some [OF laws u] unpushed_queue_contract [OF laws inv contents _ _ refl]
  show ?thesis by metis
qed

section \<open>The queue provides the interface\<close>

lemmas queue_contract =
  queue_push_room queue_push_full queue_pop_cons queue_pop_empty
  queue_try_push_room queue_try_push_full queue_try_pop_cons queue_try_pop_empty dequeue_snoc

lemma queue_bounded_deque:
  assumes "semaphore_laws K count limit"
  shows "bounded_deque (queue_inv count limit) queue_contents queue_room queue_budget
    (queue_push K) (queue_pop K) (queue_try_push K) (queue_try_pop K) (dequeue K)"
  by unfold_locales
    ((rule queue_contract [OF assms]; assumption)+)

text \<open>The instance on counting semaphores, the documented behaviour of the kernel objects.\<close>

interpretation ring: bounded_deque "queue_inv fst snd" queue_contents queue_room queue_budget
  "queue_push counting_api" "queue_pop counting_api" "queue_try_push counting_api"
  "queue_try_pop counting_api" "dequeue counting_api"
  by (rule queue_bounded_deque [OF counting_api_laws])

section \<open>Properties\<close>

text \<open>C2. Run without interference, the queue refines a bounded list: a push appends when there
  is room (and blocks when there is none), a pop takes the first element and a dequeue the
  last (and both block on an empty queue), for every kernel whose semaphores count.\<close>

theorem queue_refines_list:
  assumes "semaphore_laws K count limit" and "queue_inv count limit q" and "0 < queue_budget q"
  shows "(if queue_room q = 0 then queue_push K q x = Blocks
          else \<exists>q'. queue_push K q x = Returns q' \<and> queue_inv count limit q' \<and>
                 queue_contents q' = queue_contents q @ [x]) \<and>
         (case queue_contents q of
            [] \<Rightarrow> queue_pop K q = Blocks \<and> dequeue K q = Blocks
          | y # ys \<Rightarrow>
              (\<exists>q'. queue_pop K q = Returns (y, q') \<and> queue_inv count limit q' \<and>
                    queue_contents q' = ys) \<and>
              (\<exists>q'. dequeue K q = Returns (last (y # ys), q') \<and> queue_inv count limit q' \<and>
                    queue_contents q' = butlast (y # ys)))"
    (is "?push \<and> ?take")
proof
  note laws = assms(1) and inv = assms(2)
  show ?push
    using queue_push_full [OF laws inv] queue_push_room [OF laws inv _ assms(3)] by fastforce
  show ?take
  proof (cases "queue_contents q")
    case Nil
    with queue_pop_empty [OF laws inv] show ?thesis by simp
  next
    case (Cons y ys)
    then have "queue_contents q = butlast (y # ys) @ [last (y # ys)]"
      by (simp add: append_butlast_last_id)
    from queue_pop_cons [OF laws inv Cons] dequeue_snoc [OF laws inv this] Cons
    show ?thesis by auto
  qed
qed

text \<open>A queue of capacity 2 holding one item.\<close>

definition sample_queue :: "(nat \<times> nat, nat) queue" where
  "sample_queue = \<lparr>used_items = (1, 2), free_items = (1, 2), items = [Some 7, None],
     capacity = 2, head_index = 0, tail_index = 1\<rparr>"

lemma sample_queue_inv:
  "queue_inv fst snd sample_queue \<and> 0 < queue_budget sample_queue \<and>
   queue_contents sample_queue = [Some 7] \<and> queue_room sample_queue = 1"
  by (simp add: sample_queue_def queue_inv_def queue_budget_def queue_contents_def queue_room_def
      q_cap_def q_head_def q_tail_def)

theorem queue_refines_list_witness:
  "(\<exists>q'. queue_push counting_api sample_queue (Some 9) = Returns q' \<and>
         queue_contents q' = [Some 7, Some 9]) \<and>
   (\<exists>q'. queue_pop counting_api sample_queue = Returns (Some 7, q') \<and> queue_contents q' = [])"
  using sample_queue_inv queue_refines_list [OF counting_api_laws, of sample_queue "Some 9"]
  by auto

text \<open>The free-running indices are not reset: once \<open>2 ^ 31\<close> items have been pushed the index
  is negative, C's remainder is negative with it, and a push writes in front of the ring,
  unless the capacity divides \<open>2 ^ 31\<close> (the engine creates queues of capacity 3).\<close>

theorem queue_push_index_wraps:
  assumes "semaphore_laws K count limit" and "0 < count (free_items q)"
    and "tail_index q = 2 ^ 31" and "capacity q = word_of_nat n" and "0 < n" and "n < 2 ^ 31"
    and "\<not> n dvd 2 ^ 31"
  shows "queue_push K q x = Undefined"
proof -
  obtain f where f: "semaphore_acquire K (free_items q) = Some f"
    using semaphore_acquire_blocks [OF assms(1), of "free_items q"] assms(2) by fastforce
  define r where "r = (2147483648 :: nat) mod n"
  have "0 < r"
    using assms(7) by (simp add: r_def dvd_eq_mod_eq_0)
  have "(2147483648 :: int) mod int n = int r"
    unfolding r_def by (simp add: zmod_int)
  then have "slot_index (tail_index q) (capacity q) = Some (- int r)"
    using assms(3-6) by (simp add: slot_index_def c_rem_neg)
  with \<open>0 < r\<close> f show ?thesis
    by (simp add: queue_push_def queue_action_defs slot_store_def)
qed

text \<open>The ring of capacity 3 that \<^verbatim>\<open>render_create\<close> makes, empty, after \<open>2 ^ 31\<close> pushes and pops.\<close>

definition worn_queue :: "(nat \<times> nat, nat) queue" where
  "worn_queue = \<lparr>used_items = (0, 3), free_items = (3, 3), items = [None, None, None],
     capacity = 3, head_index = 2 ^ 31, tail_index = 2 ^ 31\<rparr>"

theorem queue_push_index_wraps_witness:
  "queue_push counting_api worn_queue (Some 9) = Undefined"
proof (rule queue_push_index_wraps [OF counting_api_laws, where n = 3])
  show "\<not> 3 dvd (2 :: nat) ^ 31" by (simp add: dvd_eq_mod_eq_0)
qed (simp_all add: worn_queue_def)

end
