(* ===== verification/Queue_Conc.thy ===== *)
theory Queue_Conc
  imports Queue
begin

text \<open>
  \<^verbatim>\<open>queue.c\<close> under concurrency.  Any number of threads run \<open>queue_push\<close> and \<open>queue_pop\<close>; a
  step is one atomic action of one thread, the same actions the sequential functions are
  composed of.  Two history variables record the items in the order their slots were taken
  (\<open>pushed\<close>) and the values the consumers read (\<open>popped\<close>).

  With one producer and one consumer the queue is FIFO and stays inside its ring
  (\<open>spsc_inv\<close>), until \<open>2 ^ 31\<close> items have been pushed.  With two producers, or with two
  consumers, it is not: \<open>two_producers\<close> and \<open>two_consumers\<close> are runs in which a consumer
  reads a slot nobody has written yet.
\<close>

section \<open>Threads and steps\<close>

text \<open>Where a thread stands inside \<open>queue_push\<close> or \<open>queue_pop\<close>.\<close>

datatype 'a qpc =
    Idle
  | Push_acquired "'a ptr"
  | Push_indexed "'a ptr" "int option"
  | Push_written
  | Pop_acquired
  | Pop_indexed "int option"
  | Pop_read

record ('s, 'a) qsys =
  shared :: "('s, 'a) queue"
  pcs :: "tid \<Rightarrow> 'a qpc"
  pushed :: "'a ptr list"
  popped :: "'a ptr list"

definition goto :: "('s, 'a) qsys \<Rightarrow> tid \<Rightarrow> 'a qpc \<Rightarrow> ('s, 'a) queue \<Rightarrow> ('s, 'a) qsys" where
  "goto s t pc q = s\<lparr>shared := q, pcs := (pcs s)(t := pc)\<rparr>"

text \<open>
  Only the threads in \<open>P\<close> push and only those in \<open>C\<close> pop.  A read or write outside the ring
  has no step: the thread is stuck, which \<open>spsc_inv\<close> excludes.
\<close>

inductive qstep ::
  "'s semaphore_api \<Rightarrow> tid set \<Rightarrow> tid set \<Rightarrow> ('s, 'a) qsys \<Rightarrow> ('s, 'a) qsys \<Rightarrow> bool"
  for K P C where
  push_acquire: "t \<in> P \<Longrightarrow> pcs s t = Idle \<Longrightarrow> q_acquire_free K (shared s) = Some q \<Longrightarrow>
    qstep K P C s (goto s t (Push_acquired x) q)"
| push_index: "pcs s t = Push_acquired x \<Longrightarrow> q_take_tail (shared s) = (idx, q) \<Longrightarrow>
    qstep K P C s ((goto s t (Push_indexed x idx) q)\<lparr>pushed := pushed s @ [x]\<rparr>)"
| push_write: "pcs s t = Push_indexed x idx \<Longrightarrow> q_write (shared s) idx x = Some q \<Longrightarrow>
    qstep K P C s (goto s t Push_written q)"
| push_publish: "pcs s t = Push_written \<Longrightarrow>
    qstep K P C s (goto s t Idle (q_publish K (shared s)))"
| pop_acquire: "t \<in> C \<Longrightarrow> pcs s t = Idle \<Longrightarrow> q_acquire_used K (shared s) = Some q \<Longrightarrow>
    qstep K P C s (goto s t Pop_acquired q)"
| pop_index: "pcs s t = Pop_acquired \<Longrightarrow> q_take_head (shared s) = (idx, q) \<Longrightarrow>
    qstep K P C s (goto s t (Pop_indexed idx) q)"
| pop_read: "pcs s t = Pop_indexed idx \<Longrightarrow> q_read (shared s) idx = Some x \<Longrightarrow>
    qstep K P C s ((goto s t Pop_read (shared s))\<lparr>popped := popped s @ [x]\<rparr>)"
| pop_recycle: "pcs s t = Pop_read \<Longrightarrow>
    qstep K P C s (goto s t Idle (q_recycle K (shared s)))"

definition qstart :: "('s, 'a) queue \<Rightarrow> ('s, 'a) qsys" where
  "qstart q = \<lparr>shared = q, pcs = (\<lambda>_. Idle), pushed = [], popped = []\<rparr>"

inductive qreach ::
  "'s semaphore_api \<Rightarrow> tid set \<Rightarrow> tid set \<Rightarrow> ('s, 'a) queue \<Rightarrow> ('s, 'a) qsys \<Rightarrow> bool"
  for K P C q0 where
  start: "qreach K P C q0 (qstart q0)"
| step: "qreach K P C q0 s \<Longrightarrow> qstep K P C s s' \<Longrightarrow> qreach K P C q0 s'"

lemmas goto_simps [simp] = goto_def

section \<open>One producer, one consumer\<close>

text \<open>How far the producer and the consumer are ahead of the semaphores.\<close>

fun claimed_free :: "'a qpc \<Rightarrow> nat" where
  "claimed_free (Push_acquired x) = 1"
| "claimed_free _ = 0"

fun unwritten :: "'a qpc \<Rightarrow> nat" where
  "unwritten (Push_indexed x i) = 1"
| "unwritten _ = 0"

fun unpublished :: "'a qpc \<Rightarrow> nat" where
  "unpublished (Push_indexed x i) = 1"
| "unpublished Push_written = 1"
| "unpublished _ = 0"

fun claimed_used :: "'a qpc \<Rightarrow> nat" where
  "claimed_used Pop_acquired = 1"
| "claimed_used _ = 0"

fun unread :: "'a qpc \<Rightarrow> nat" where
  "unread (Pop_indexed i) = 1"
| "unread _ = 0"

fun unrecycled :: "'a qpc \<Rightarrow> nat" where
  "unrecycled Pop_read = 1"
| "unrecycled _ = 0"

fun pushing :: "'a qpc \<Rightarrow> bool" where
  "pushing (Push_acquired x) = True"
| "pushing (Push_indexed x i) = True"
| "pushing Push_written = True"
| "pushing _ = False"

fun popping :: "'a qpc \<Rightarrow> bool" where
  "popping Pop_acquired = True"
| "popping (Pop_indexed i) = True"
| "popping Pop_read = True"
| "popping _ = False"

text \<open>
  The invariant.  \<open>T\<close> slots were taken by the producer \<open>p\<close> and \<open>R\<close> values read by the
  consumer \<open>c\<close>; the indices and the semaphores agree with them, up to where the two
  threads stand; the slots between \<open>R\<close> and the last written one hold the pushed items.
\<close>

definition spsc_threads :: "tid \<Rightarrow> tid \<Rightarrow> ('s, 'a) qsys \<Rightarrow> bool" where
  "spsc_threads p c s \<longleftrightarrow>
     (\<forall>t. t \<noteq> p \<longrightarrow> t \<noteq> c \<longrightarrow> pcs s t = Idle) \<and>
     \<not> popping (pcs s p) \<and> \<not> pushing (pcs s c)"

definition spsc_counts ::
  "('s \<Rightarrow> nat) \<Rightarrow> ('s \<Rightarrow> nat) \<Rightarrow> nat \<Rightarrow> tid \<Rightarrow> tid \<Rightarrow> ('s, 'a) qsys \<Rightarrow> bool" where
  "spsc_counts count limit n p c s \<longleftrightarrow>
     (let T = length (pushed s); R = length (popped s); pp = pcs s p; pc = pcs s c; q = shared s in
      capacity q = word_of_nat n \<and> length (items q) = n \<and>
      tail_index q = word_of_nat T \<and> head_index q = word_of_nat (R + unread pc) \<and>
      limit (used_items q) = n \<and> limit (free_items q) = n \<and>
      count (used_items q) + R + unread pc + claimed_used pc + unpublished pp = T \<and>
      count (free_items q) + T + claimed_free pp + unrecycled pc = n + R)"

definition spsc_slots :: "nat \<Rightarrow> tid \<Rightarrow> tid \<Rightarrow> ('s, 'a) qsys \<Rightarrow> bool" where
  "spsc_slots n p c s \<longleftrightarrow>
     (let T = length (pushed s); R = length (popped s) in
      (\<forall>x i. pcs s p = Push_indexed x i \<longrightarrow>
         0 < T \<and> i = Some (int ((T - 1) mod n)) \<and> pushed s ! (T - 1) = x) \<and>
      (\<forall>i. pcs s c = Pop_indexed i \<longrightarrow> i = Some (int (R mod n))) \<and>
      (\<forall>k. R \<le> k \<longrightarrow> k + unwritten (pcs s p) < T \<longrightarrow>
         items (shared s) ! (k mod n) = pushed s ! k))"

definition spsc_inv ::
  "('s \<Rightarrow> nat) \<Rightarrow> ('s \<Rightarrow> nat) \<Rightarrow> nat \<Rightarrow> tid \<Rightarrow> tid \<Rightarrow> ('s, 'a) qsys \<Rightarrow> bool" where
  "spsc_inv count limit n p c s \<longleftrightarrow>
     p \<noteq> c \<and> 0 < n \<and> n < 2 ^ 31 \<and> spsc_threads p c s \<and> spsc_counts count limit n p c s \<and>
     spsc_slots n p c s \<and> popped s = take (length (popped s)) (pushed s)"

lemmas spsc_defs =
  spsc_inv_def spsc_threads_def spsc_counts_def spsc_slots_def Let_def

lemma spsc_bounds:
  assumes "spsc_inv count limit n p c s"
  shows "length (popped s) + unread (pcs s c) + claimed_used (pcs s c) +
           unpublished (pcs s p) \<le> length (pushed s)"
    and "length (pushed s) + claimed_free (pcs s p) + unrecycled (pcs s c) \<le>
           n + length (popped s)"
  using assms by (auto simp: spsc_defs)

lemma spsc_start:
  assumes laws: "semaphore_laws K count limit" and "p \<noteq> c" "0 < n" "n < 2 ^ 31" "length mem = n"
    and q: "queue_create K True mem (word_of_nat n) = Some q"
  shows "spsc_inv count limit n p c (qstart q)"
  using q assms(2-5) semaphore_create_count [OF laws, of 0 n]
    semaphore_create_count [OF laws, of n n]
  by (auto simp: spsc_defs qstart_def queue_create_def)

subsection \<open>Each action keeps the invariant\<close>

lemma spsc_push_acquire:
  assumes laws: "semaphore_laws K count limit" and inv: "spsc_inv count limit n p c s"
    and "pcs s p = Idle" and q: "q_acquire_free K (shared s) = Some q"
  shows "spsc_inv count limit n p c (goto s p (Push_acquired x) q)"
proof -
  from q obtain f where f: "semaphore_acquire K (free_items (shared s)) = Some f"
    and q: "q = (shared s)\<lparr>free_items := f\<rparr>"
    by (auto simp: q_acquire_free_def)
  from semaphore_acquire_Some [OF laws f] inv assms(3) show ?thesis
    by (auto simp: spsc_defs q)
qed

lemma spsc_push_index:
  assumes inv: "spsc_inv count limit n p c s" and small: "length (pushed s) < 2 ^ 31"
    and pc: "pcs s p = Push_acquired x" and q: "q_take_tail (shared s) = (idx, q)"
  shows "spsc_inv count limit n p c ((goto s p (Push_indexed x idx) q)\<lparr>pushed := pushed s @ [x]\<rparr>)"
proof -
  let ?T = "length (pushed s)"
  have n: "0 < n" "n < 2 ^ 31" "tail_index (shared s) = word_of_nat ?T"
    "capacity (shared s) = word_of_nat n"
    using inv by (auto simp: spsc_defs)
  have "slot_index (tail_index (shared s)) (capacity (shared s)) = Some (int (?T mod n))"
    using slot_index_nat [of "word_of_nat ?T" "word_of_nat n"] n small
    by (simp add: unat_of_nat take_bit_nat_eq_self)
  with q have idx: "idx = Some (int (?T mod n))"
    and q: "q = (shared s)\<lparr>tail_index := word_of_nat (Suc ?T)\<rparr>"
    using n by (auto simp: q_take_tail_def)
  have "length (popped s) \<le> ?T"
    using spsc_bounds(1) [OF inv] by simp
  with inv pc show ?thesis
    by (auto simp: spsc_defs q idx nth_append)
qed

lemma spsc_push_write:
  assumes inv: "spsc_inv count limit n p c s"
    and pc: "pcs s p = Push_indexed x idx" and q: "q_write (shared s) idx x = Some q"
  shows "spsc_inv count limit n p c (goto s p Push_written q)"
proof -
  let ?T = "length (pushed s)" and ?R = "length (popped s)" and ?xs = "items (shared s)"
  have T: "0 < ?T" "idx = Some (int ((?T - 1) mod n))" "pushed s ! (?T - 1) = x"
    and n: "0 < n" "length ?xs = n" and old: "\<And>k. ?R \<le> k \<Longrightarrow> k + 1 < ?T \<Longrightarrow>
      ?xs ! (k mod n) = pushed s ! k"
    using inv pc by (auto simp: spsc_defs)
  from q T n have q: "q = (shared s)\<lparr>items := ?xs[(?T - 1) mod n := x]\<rparr>"
    by (auto simp: q_write_def slot_store_def)
  have "?xs[(?T - 1) mod n := x] ! (k mod n) = pushed s ! k" if "?R \<le> k" "k < ?T" for k
  proof (cases "k = ?T - 1")
    case True
    with T n show ?thesis by simp
  next
    case False
    with that have "k < ?T - 1" "k + 1 < ?T" by auto
    moreover from this spsc_bounds(2) [OF inv] that(1) have "?T - 1 < k + n" by auto
    ultimately show ?thesis
      using mod_distinct [of k "?T - 1" n] old [OF that(1)] by auto
  qed
  with inv pc show ?thesis
    by (auto simp: spsc_defs q)
qed

lemma spsc_push_publish:
  assumes laws: "semaphore_laws K count limit" and inv: "spsc_inv count limit n p c s"
    and pc: "pcs s p = Push_written"
  shows "spsc_inv count limit n p c (goto s p Idle (q_publish K (shared s)))"
proof -
  have "count (used_items (shared s)) < limit (used_items (shared s))"
    using inv pc spsc_bounds(2) [OF inv] by (auto simp: spsc_defs)
  from semaphore_release_count [OF laws this] inv pc show ?thesis
    by (auto simp: spsc_defs q_publish_def)
qed

lemma spsc_pop_acquire:
  assumes laws: "semaphore_laws K count limit" and inv: "spsc_inv count limit n p c s"
    and "pcs s c = Idle" and q: "q_acquire_used K (shared s) = Some q"
  shows "spsc_inv count limit n p c (goto s c Pop_acquired q)"
proof -
  from q obtain u where u: "semaphore_acquire K (used_items (shared s)) = Some u"
    and q: "q = (shared s)\<lparr>used_items := u\<rparr>"
    by (auto simp: q_acquire_used_def)
  from semaphore_acquire_Some [OF laws u] inv assms(3) show ?thesis
    by (auto simp: spsc_defs q)
qed

lemma spsc_pop_index:
  assumes inv: "spsc_inv count limit n p c s" and small: "length (pushed s) < 2 ^ 31"
    and pc: "pcs s c = Pop_acquired" and q: "q_take_head (shared s) = (idx, q)"
  shows "spsc_inv count limit n p c (goto s c (Pop_indexed idx) q)"
proof -
  let ?R = "length (popped s)"
  have n: "0 < n" "n < 2 ^ 31" "head_index (shared s) = word_of_nat ?R"
    "capacity (shared s) = word_of_nat n"
    using inv pc by (auto simp: spsc_defs)
  have "?R < 2 ^ 31"
    using spsc_bounds(1) [OF inv] small by simp
  then have "slot_index (head_index (shared s)) (capacity (shared s)) = Some (int (?R mod n))"
    using slot_index_nat [of "word_of_nat ?R" "word_of_nat n"] n
    by (simp add: unat_of_nat take_bit_nat_eq_self)
  with q have idx: "idx = Some (int (?R mod n))"
    and q: "q = (shared s)\<lparr>head_index := word_of_nat (Suc ?R)\<rparr>"
    using n by (auto simp: q_take_head_def)
  from inv pc show ?thesis
    by (auto simp: spsc_defs q idx)
qed

lemma spsc_pop_read:
  assumes inv: "spsc_inv count limit n p c s"
    and pc: "pcs s c = Pop_indexed idx" and x: "q_read (shared s) idx = Some x"
  shows "spsc_inv count limit n p c ((goto s c Pop_read (shared s))\<lparr>popped := popped s @ [x]\<rparr>)"
proof -
  let ?R = "length (popped s)"
  have R: "?R + 1 + unpublished (pcs s p) \<le> length (pushed s)"
    using spsc_bounds(1) [OF inv] pc by simp
  moreover have "unwritten (pcs s p) \<le> unpublished (pcs s p)"
    by (cases "pcs s p") auto
  ultimately have "items (shared s) ! (?R mod n) = pushed s ! ?R"
    using inv by (auto simp: spsc_defs)
  with inv pc x have "x = pushed s ! ?R"
    by (auto simp: spsc_defs q_read_def slot_load_def split: if_splits)
  with R inv have "popped s @ [x] = take (Suc ?R) (pushed s)"
    by (auto simp: spsc_inv_def take_Suc_conv_app_nth)
  with inv pc show ?thesis
    by (auto simp: spsc_defs)
qed

lemma spsc_pop_recycle:
  assumes laws: "semaphore_laws K count limit" and inv: "spsc_inv count limit n p c s"
    and pc: "pcs s c = Pop_read"
  shows "spsc_inv count limit n p c (goto s c Idle (q_recycle K (shared s)))"
proof -
  have "count (free_items (shared s)) < limit (free_items (shared s))"
    using inv pc spsc_bounds(1) [OF inv] by (auto simp: spsc_defs)
  from semaphore_release_count [OF laws this] inv pc show ?thesis
    by (auto simp: spsc_defs q_recycle_def)
qed

subsection \<open>Reachable states\<close>

inductive_cases qstepE: "qstep K P C s s'"

lemma qstep_pushed_mono: "qstep K P C s s' \<Longrightarrow> length (pushed s) \<le> length (pushed s')"
  by (erule qstepE) auto

lemma spsc_pc_owner:
  assumes "spsc_inv count limit n p c s"
  shows "pushing (pcs s t) \<Longrightarrow> t = p" and "popping (pcs s t) \<Longrightarrow> t = c"
  using assms by (auto simp: spsc_inv_def spsc_threads_def)

lemma spsc_step:
  assumes laws: "semaphore_laws K count limit" and inv: "spsc_inv count limit n p c s"
    and step: "qstep K {p} {c} s s'" and small: "length (pushed s') < 2 ^ 31"
  shows "spsc_inv count limit n p c s'"
proof -
  have small': "length (pushed s) < 2 ^ 31"
    using qstep_pushed_mono [OF step] small by simp
  note owner = spsc_pc_owner [OF inv]
  from step show ?thesis
  proof cases
    case (push_acquire t q x)
    then show ?thesis using spsc_push_acquire [OF laws inv] by auto
  next
    case (push_index t x idx q)
    moreover from this have "t = p" using owner(1) [of t] by simp
    ultimately show ?thesis using spsc_push_index [OF inv small'] by auto
  next
    case (push_write t x idx q)
    moreover from this have "t = p" using owner(1) [of t] by simp
    ultimately show ?thesis using spsc_push_write [OF inv] by auto
  next
    case (push_publish t)
    moreover from this have "t = p" using owner(1) [of t] by simp
    ultimately show ?thesis using spsc_push_publish [OF laws inv] by auto
  next
    case (pop_acquire t q)
    then show ?thesis using spsc_pop_acquire [OF laws inv] by auto
  next
    case (pop_index t idx q)
    moreover from this have "t = c" using owner(2) [of t] by simp
    ultimately show ?thesis using spsc_pop_index [OF inv small'] by auto
  next
    case (pop_read t idx x)
    moreover from this have "t = c" using owner(2) [of t] by simp
    ultimately show ?thesis using spsc_pop_read [OF inv] by auto
  next
    case (pop_recycle t)
    moreover from this have "t = c" using owner(2) [of t] by simp
    ultimately show ?thesis using spsc_pop_recycle [OF laws inv] by auto
  qed
qed

lemma spsc_reachable:
  assumes laws: "semaphore_laws K count limit" and "p \<noteq> c" "0 < n" "n < 2 ^ 31" "length mem = n"
    and q: "queue_create K True mem (word_of_nat n) = Some q"
    and "qreach K {p} {c} q s" and "length (pushed s) < 2 ^ 31"
  shows "spsc_inv count limit n p c s"
  using assms(7,8)
proof (induction rule: qreach.induct)
  case start
  show ?case by (rule spsc_start [OF laws assms(2-5) q])
next
  case (step s s')
  then have "length (pushed s) < 2 ^ 31"
    using qstep_pushed_mono by fastforce
  with step show ?case by (blast intro: spsc_step [OF laws])
qed

text \<open>No access outside the ring, and never both sides blocked.\<close>

lemma spsc_write_defined:
  assumes "spsc_inv count limit n p c s" and "pcs s t = Push_indexed x idx"
  shows "\<exists>q. q_write (shared s) idx x = Some q"
proof -
  have "t = p" using spsc_pc_owner(1) [OF assms(1), of t] assms(2) by simp
  with assms show ?thesis
    by (auto simp: spsc_defs q_write_def slot_store_def)
qed

lemma spsc_read_defined:
  assumes "spsc_inv count limit n p c s" and "pcs s t = Pop_indexed idx"
  shows "\<exists>x. q_read (shared s) idx = Some x"
proof -
  have "t = c" using spsc_pc_owner(2) [OF assms(1), of t] assms(2) by simp
  with assms show ?thesis
    by (auto simp: spsc_defs q_read_def slot_load_def)
qed

lemma spsc_progress:
  assumes laws: "semaphore_laws K count limit" and inv: "spsc_inv count limit n p c s"
  shows "\<exists>s'. qstep K {p} {c} s s'"
proof (cases "pcs s p")
  case Idle
  show ?thesis
  proof (cases "pcs s c")
    case Idle
    note idle = \<open>pcs s p = Idle\<close> \<open>pcs s c = Idle\<close>
    then have "count (used_items (shared s)) \<noteq> 0 \<or> count (free_items (shared s)) \<noteq> 0"
      using inv by (auto simp: spsc_defs)
    then consider
        q where "q_acquire_used K (shared s) = Some q"
      | q where "q_acquire_free K (shared s) = Some q"
      using semaphore_acquire_blocks [OF laws] unfolding q_acquire_used_def q_acquire_free_def
      by fastforce
    with idle show ?thesis
      by cases (auto intro: qstep.push_acquire qstep.pop_acquire)
  next
    case (Pop_indexed idx)
    from spsc_read_defined [OF inv Pop_indexed] Pop_indexed show ?thesis
      by (blast intro: qstep.pop_read)
  next
    case Pop_acquired
    then show ?thesis
      by (cases "q_take_head (shared s)") (blast intro: qstep.pop_index)
  next
    case Pop_read
    then show ?thesis by (blast intro: qstep.pop_recycle)
  qed (use inv in \<open>auto simp: spsc_inv_def spsc_threads_def\<close>)
next
  case (Push_indexed x idx)
  from spsc_write_defined [OF inv Push_indexed] Push_indexed show ?thesis
    by (blast intro: qstep.push_write)
next
  case (Push_acquired x)
  then show ?thesis
    by (cases "q_take_tail (shared s)") (blast intro: qstep.push_index)
next
  case Push_written
  then show ?thesis by (blast intro: qstep.push_publish)
qed (use inv in \<open>auto simp: spsc_inv_def spsc_threads_def\<close>)

section \<open>An executable scheduler\<close>

text \<open>
  \<open>qexec\<close> performs the next action of a thread; an idle thread starts a push when it is given
  an item and a pop otherwise.  \<open>qrun\<close> follows a schedule.
\<close>

definition qexec ::
  "'s semaphore_api \<Rightarrow> tid set \<Rightarrow> tid set \<Rightarrow> ('s, 'a) qsys \<Rightarrow> tid \<Rightarrow> 'a ptr option \<Rightarrow>
   ('s, 'a) qsys option" where
  "qexec K P C s t work =
     (case pcs s t of
        Idle \<Rightarrow>
          (case work of
             Some x \<Rightarrow>
               if t \<in> P then map_option (goto s t (Push_acquired x)) (q_acquire_free K (shared s))
               else None
           | None \<Rightarrow>
               if t \<in> C then map_option (goto s t Pop_acquired) (q_acquire_used K (shared s))
               else None)
      | Push_acquired x \<Rightarrow>
          (case q_take_tail (shared s) of (idx, q) \<Rightarrow>
             Some ((goto s t (Push_indexed x idx) q)\<lparr>pushed := pushed s @ [x]\<rparr>))
      | Push_indexed x idx \<Rightarrow> map_option (goto s t Push_written) (q_write (shared s) idx x)
      | Push_written \<Rightarrow> Some (goto s t Idle (q_publish K (shared s)))
      | Pop_acquired \<Rightarrow>
          (case q_take_head (shared s) of (idx, q) \<Rightarrow> Some (goto s t (Pop_indexed idx) q))
      | Pop_indexed idx \<Rightarrow>
          map_option (\<lambda>x. (goto s t Pop_read (shared s))\<lparr>popped := popped s @ [x]\<rparr>)
            (q_read (shared s) idx)
      | Pop_read \<Rightarrow> Some (goto s t Idle (q_recycle K (shared s))))"

fun qrun ::
  "'s semaphore_api \<Rightarrow> tid set \<Rightarrow> tid set \<Rightarrow> ('s, 'a) qsys \<Rightarrow> (tid \<times> 'a ptr option) list \<Rightarrow>
   ('s, 'a) qsys option" where
  "qrun K P C s [] = Some s"
| "qrun K P C s ((t, work) # rest) =
     (case qexec K P C s t work of None \<Rightarrow> None | Some s' \<Rightarrow> qrun K P C s' rest)"

lemma qexec_step: "qexec K P C s t work = Some s' \<Longrightarrow> qstep K P C s s'"
  unfolding qexec_def
  by (auto split: qpc.splits option.splits if_splits prod.splits simp del: goto_simps
      intro: qstep.intros)

lemma qrun_reach:
  "qreach K P C q s \<Longrightarrow> qrun K P C s sched = Some s' \<Longrightarrow> qreach K P C q s'"
proof (induction sched arbitrary: s)
  case Nil
  then show ?case by simp
next
  case (Cons a sched)
  obtain t work where a: "a = (t, work)" by (cases a)
  with Cons.prems(2) obtain s1 where "qexec K P C s t work = Some s1"
    "qrun K P C s1 sched = Some s'"
    by (auto split: option.splits)
  with Cons.IH [of s1] Cons.prems(1) show ?case
    by (blast intro: qreach.step qexec_step)
qed

section \<open>Two producers, or two consumers\<close>

text \<open>A ring of two slots, in memory that happens to hold NULL pointers.\<close>

definition race_queue :: "(nat \<times> nat, nat) queue" where
  "race_queue = \<lparr>used_items = (0, 2), free_items = (2, 2), items = [None, None],
     capacity = 2, head_index = 0, tail_index = 0\<rparr>"

lemma race_queue_create: "queue_create counting_api True [None, None] 2 = Some race_queue"
  by (simp add: queue_create_def semaphore_create_def counting_api_def race_queue_def)

text \<open>
  Producers 0 and 1, consumer 2.  Producer 0 has taken slot 0 and not written it when
  producer 1 fills slot 1 and releases the semaphore.
\<close>

definition producer_race :: "(tid \<times> nat ptr option) list" where
  "producer_race =
     [(0, Some (Some 10)), (0, None),
      (1, Some (Some 20)), (1, None), (1, None), (1, None),
      (2, None), (2, None), (2, None)]"

text \<open>
  Producer 0, consumers 1 and 2.  Consumer 1 has taken slot 0 and not read it when consumer 2
  empties slot 1 and makes room for the producer, which overwrites slot 0.
\<close>

definition consumer_race :: "(tid \<times> nat ptr option) list" where
  "consumer_race =
     [(0, Some (Some 10)), (0, None), (0, None), (0, None),
      (0, Some (Some 20)), (0, None), (0, None), (0, None),
      (1, None), (1, None),
      (2, None), (2, None), (2, None), (2, None),
      (0, Some (Some 30)), (0, None), (0, None),
      (1, None)]"

lemmas race_simps =
  qexec_def queue_action_defs race_queue_def qstart_def semaphore_acquire_def
  semaphore_release_def counting_api_def slot_index_def slot_load_def slot_store_def c_rem_def
  arr_get_def arr_set_def

lemma producer_race_run:
  "\<exists>s. qrun counting_api {0, 1} {2} (qstart race_queue) producer_race = Some s \<and>
     pushed s = [Some 10, Some 20] \<and> popped s = [None]"
  by (simp add: producer_race_def race_simps)

lemma consumer_race_run:
  "\<exists>s. qrun counting_api {0} {1, 2} (qstart race_queue) consumer_race = Some s \<and>
     pushed s = [Some 10, Some 20, Some 30] \<and> popped s = [Some 20, Some 30]"
  by (simp add: consumer_race_def race_simps)

section \<open>Properties\<close>

text \<open>C1. One producer thread and one consumer thread, interleaved in any way at the granularity
  of the atomic actions: what the consumer has read is a prefix of what the producer has
  pushed, in order; the producer never runs more than the capacity ahead; and no access
  leaves the ring.\<close>

theorem spsc_fifo:
  assumes "semaphore_laws K count limit" and "p \<noteq> c" "0 < n" "n < 2 ^ 31" "length mem = n"
    and "queue_create K True mem (word_of_nat n) = Some q"
    and "qreach K {p} {c} q s" and "length (pushed s) < 2 ^ 31"
  shows "popped s = take (length (popped s)) (pushed s) \<and>
         length (pushed s) \<le> length (popped s) + n \<and>
         (\<forall>t x idx. pcs s t = Push_indexed x idx \<longrightarrow> q_write (shared s) idx x \<noteq> None) \<and>
         (\<forall>t idx. pcs s t = Pop_indexed idx \<longrightarrow> q_read (shared s) idx \<noteq> None)"
proof -
  from spsc_reachable [OF assms] have inv: "spsc_inv count limit n p c s" .
  then have "popped s = take (length (popped s)) (pushed s)"
    by (simp add: spsc_inv_def)
  with spsc_bounds(2) [OF inv] spsc_write_defined [OF inv] spsc_read_defined [OF inv]
  show ?thesis by fastforce
qed

text \<open>Producer 0 pushes two items, consumer 1 reads the first one.\<close>

definition spsc_schedule :: "(tid \<times> nat ptr option) list" where
  "spsc_schedule =
     [(0, Some (Some 10)), (0, None), (0, None), (0, None),
      (0, Some (Some 20)), (1, None), (0, None), (1, None), (1, None)]"

lemma spsc_schedule_run:
  "\<exists>s. qrun counting_api {0} {1} (qstart race_queue) spsc_schedule = Some s \<and>
     pushed s = [Some 10, Some 20] \<and> popped s = [Some 10]"
  by (simp add: spsc_schedule_def race_simps)

theorem spsc_fifo_witness:
  "\<exists>s. qreach counting_api {0} {1} race_queue s \<and> pushed s = [Some 10, Some 20] \<and>
     popped s = [Some 10] \<and> popped s = take (length (popped s)) (pushed s) \<and>
     length (pushed s) \<le> length (popped s) + 2"
proof -
  from spsc_schedule_run obtain s where
    run: "qrun counting_api {0} {1} (qstart race_queue) spsc_schedule = Some s"
    and s: "pushed s = [Some 10, Some 20]" "popped s = [Some 10]" by blast
  have reach: "qreach counting_api {0} {1} race_queue s"
    by (rule qrun_reach [OF qreach.start run])
  have "queue_create counting_api True [None, None] (word_of_nat 2) = Some race_queue"
    using race_queue_create by simp
  from spsc_fifo [OF counting_api_laws _ _ _ _ this reach] s reach show ?thesis
    by auto
qed

text \<open>C3. With one producer and one consumer the queue never deadlocks: in every reachable state
  one of the two threads can take its next action.\<close>

theorem spsc_deadlock_free:
  assumes "semaphore_laws K count limit" and "p \<noteq> c" "0 < n" "n < 2 ^ 31" "length mem = n"
    and "queue_create K True mem (word_of_nat n) = Some q"
    and "qreach K {p} {c} q s" and "length (pushed s) < 2 ^ 31"
  shows "\<exists>s'. qstep K {p} {c} s s'"
  by (rule spsc_progress [OF assms(1) spsc_reachable [OF assms]])

theorem spsc_deadlock_free_witness:
  "\<exists>s'. qstep counting_api {0} {1} (qstart race_queue) s'"
proof -
  have "queue_create counting_api True [None, None] (word_of_nat 2) = Some race_queue"
    using race_queue_create by simp
  from spsc_deadlock_free [OF counting_api_laws _ _ _ _ this qreach.start, of 0 1]
  show ?thesis by (simp add: qstart_def)
qed

text \<open>Two threads pushing at once break the queue, although the header declares it safe:
  there is a run in which the consumer reads a slot that no producer has written, and gets
  the NULL that happened to be there (the shutdown message of the file system threads),
  while both pushed items are lost or late.\<close>

theorem two_producers:
  "\<exists>s. qreach counting_api {0, 1} {2} race_queue s \<and>
     pushed s = [Some 10, Some 20] \<and> popped s = [None]"
  using producer_race_run qrun_reach [OF qreach.start] by metis

text \<open>Two threads popping at once break the queue as well: there is a run in which a slot is
  overwritten before the consumer that took it has read it, so that the first item is
  never delivered.\<close>

theorem two_consumers:
  "\<exists>s. qreach counting_api {0} {1, 2} race_queue s \<and>
     pushed s = [Some 10, Some 20, Some 30] \<and> popped s = [Some 20, Some 30]"
  using consumer_race_run qrun_reach [OF qreach.start] by metis

end
