(* ===== verification/Ecs.thy ===== *)
theory Ecs
  imports Milyra_Base
begin

text \<open>
  The entity component system of \<^verbatim>\<open>ecs.c\<close>: 512 entity slots with a state, a sequence number
  and a component mask each, and up to 64 component types, each with one block of memory
  that holds the component of every slot.

  The state \<open>ecs_t\<close> has the fields of the C struct; a component block is the list of its
  bytes, and a component pointer is the type it belongs to and a byte offset.  \<open>None\<close> stands
  for undefined behaviour (an index outside the arrays, \<open>memset\<close> on NULL, the abort of
  \<open>strcpy_s\<close>).  Sequence numbers are 32 bit words that wrap.
\<close>

section \<open>State\<close>

abbreviation (input) k_max_component_types :: nat where
  "k_max_component_types \<equiv> 64"

abbreviation (input) k_max_entities :: nat where
  "k_max_entities \<equiv> 512"

datatype entity_state_t =
    k_entity_unused
  | k_entity_pending_add
  | k_entity_active
  | k_entity_pending_remove

text \<open>The enumerators are compared as integers, in the order of the declaration.\<close>

fun state_code :: "entity_state_t \<Rightarrow> nat" where
  "state_code k_entity_unused = 0"
| "state_code k_entity_pending_add = 1"
| "state_code k_entity_active = 2"
| "state_code k_entity_pending_remove = 3"

lemma state_code_inject [simp]: "state_code a = state_code b \<longleftrightarrow> a = b"
  by (cases a; cases b) auto

instantiation entity_state_t :: linorder
begin

definition less_eq_entity_state_t :: "entity_state_t \<Rightarrow> entity_state_t \<Rightarrow> bool" where
  "less_eq_entity_state_t a b \<longleftrightarrow> state_code a \<le> state_code b"

definition less_entity_state_t :: "entity_state_t \<Rightarrow> entity_state_t \<Rightarrow> bool" where
  "less_entity_state_t a b \<longleftrightarrow> state_code a < state_code b"

instance
  by standard (auto simp: less_eq_entity_state_t_def less_entity_state_t_def)

end

lemmas state_order = less_eq_entity_state_t_def less_entity_state_t_def

lemma pending_add_le_iff [simp]: "k_entity_pending_add \<le> s \<longleftrightarrow> s \<noteq> k_entity_unused"
  by (cases s) (auto simp: state_order)

lemma active_le_iff [simp]:
  "k_entity_active \<le> s \<longleftrightarrow> s = k_entity_active \<or> s = k_entity_pending_remove"
  by (cases s) (auto simp: state_order)

record ecs_entity_ref_t =
  entity :: int
  sequence :: c_int

record ecs_query_t =
  component_mask :: u64
  query_entity :: int

record ecs_t =
  global_sequence :: c_int
  sequences :: "c_int list"
  entity_states :: "entity_state_t list"
  component_masks :: "u64 list"
  components :: "u8 list ptr list"
  component_type_sizes :: "u64 list"
  component_type_names :: "string list"

text \<open>A component pointer: the type whose block it points into, and the byte offset.\<close>

type_synonym comp_ptr = "nat \<times> u64"

section \<open>Operations\<close>

text \<open>\<open>ok\<close>: the heap returned memory for the struct.\<close>

definition ecs_create :: "bool \<Rightarrow> ecs_t option" where
  "ecs_create ok =
     (if ok then Some
        \<lparr>global_sequence = 1,
         sequences = replicate k_max_entities 0,
         entity_states = replicate k_max_entities k_entity_unused,
         component_masks = replicate k_max_entities 0,
         components = replicate k_max_component_types None,
         component_type_sizes = replicate k_max_component_types 0,
         component_type_names = replicate k_max_component_types []\<rparr>
      else None)"

fun update_state :: "entity_state_t \<Rightarrow> entity_state_t" where
  "update_state k_entity_pending_add = k_entity_active"
| "update_state k_entity_pending_remove = k_entity_unused"
| "update_state s = s"

definition ecs_update :: "ecs_t \<Rightarrow> ecs_t" where
  "ecs_update ecs =
     ecs\<lparr>entity_states :=
       fold (\<lambda>i states. states[i := update_state (states ! i)]) [0..<k_max_entities]
         (entity_states ecs)\<rparr>"

definition align_size :: "u64 \<Rightarrow> u64 \<Rightarrow> u64" where
  "align_size sz alignment = (sz + (alignment - 1)) AND NOT (alignment - 1)"

definition memset0 :: "u8 list \<Rightarrow> nat \<Rightarrow> u8 list option" where
  "memset0 block n = (if n \<le> length block then Some (replicate n 0 @ drop n block) else None)"

text \<open>
  \<open>alloc size alignment\<close> is what \<open>heap_alloc\<close> returns: the uninitialised bytes of a block, or
  \<open>None\<close> for NULL.
\<close>

definition ecs_register_component_type ::
  "ecs_t \<Rightarrow> string \<Rightarrow> u64 \<Rightarrow> u64 \<Rightarrow> (u64 \<Rightarrow> u64 \<Rightarrow> u8 list ptr) \<Rightarrow> (int \<times> ecs_t) option" where
  "ecs_register_component_type ecs name size_per_component alignment alloc =
     (case scan (\<lambda>i. components ecs ! i = None) 0 k_max_component_types of
        Some i \<Rightarrow>
          let aligned_size = align_size size_per_component alignment;
              bytes = aligned_size * word_of_nat k_max_entities in
          if length name < 32 then
            (case alloc bytes alignment of
               None \<Rightarrow> None
             | Some block \<Rightarrow>
                 map_option (\<lambda>zeroed.
                   (int i,
                    ecs\<lparr>component_type_names := (component_type_names ecs)[i := name],
                        component_type_sizes := (component_type_sizes ecs)[i := aligned_size],
                        components := (components ecs)[i := Some zeroed]\<rparr>))
                   (memset0 block (unat bytes)))
          else None
      | None \<Rightarrow> Some (-1, ecs))"

definition ecs_get_component_type_size :: "ecs_t \<Rightarrow> int \<Rightarrow> u64 option" where
  "ecs_get_component_type_size ecs component_type =
     (if 0 \<le> component_type then arr_get (component_type_sizes ecs) (nat component_type) else None)"

definition ecs_entity_add :: "ecs_t \<Rightarrow> u64 \<Rightarrow> ecs_entity_ref_t \<times> ecs_t" where
  "ecs_entity_add ecs cmask =
     (case scan (\<lambda>i. entity_states ecs ! i = k_entity_unused) 0 k_max_entities of
        Some i \<Rightarrow>
          (\<lparr>entity = int i, sequence = global_sequence ecs\<rparr>,
           ecs\<lparr>entity_states := (entity_states ecs)[i := k_entity_pending_add],
               sequences := (sequences ecs)[i := global_sequence ecs],
               global_sequence := global_sequence ecs + 1,
               component_masks := (component_masks ecs)[i := cmask]\<rparr>)
      | None \<Rightarrow> (\<lparr>entity = -1, sequence = -1\<rparr>, ecs))"

definition ecs_is_entity_ref_valid :: "ecs_t \<Rightarrow> ecs_entity_ref_t \<Rightarrow> bool \<Rightarrow> bool option" where
  "ecs_is_entity_ref_valid ecs ref allow_pending_add =
     (if entity ref < 0 then Some False
      else do {
        s \<leftarrow> arr_get (sequences ecs) (nat (entity ref));
        if s \<noteq> sequence ref then Some False
        else do {
          state \<leftarrow> arr_get (entity_states ecs) (nat (entity ref));
          Some ((if allow_pending_add then k_entity_pending_add else k_entity_active) \<le> state)
        }
      })"

definition ecs_entity_remove :: "ecs_t \<Rightarrow> ecs_entity_ref_t \<Rightarrow> bool \<Rightarrow> ecs_t option" where
  "ecs_entity_remove ecs ref allow_pending_add = do {
     valid \<leftarrow> ecs_is_entity_ref_valid ecs ref allow_pending_add;
     if valid then
       map_option (\<lambda>states. ecs\<lparr>entity_states := states\<rparr>)
         (arr_set (entity_states ecs) (nat (entity ref)) k_entity_pending_remove)
     else Some ecs
   }"

text \<open>A NULL result is \<open>Some None\<close>.\<close>

definition ecs_entity_get_component ::
  "ecs_t \<Rightarrow> ecs_entity_ref_t \<Rightarrow> int \<Rightarrow> bool \<Rightarrow> comp_ptr ptr option" where
  "ecs_entity_get_component ecs ref component_type allow_pending_add = do {
     valid \<leftarrow> ecs_is_entity_ref_valid ecs ref allow_pending_add;
     if valid then
       if 0 \<le> component_type then do {
         block \<leftarrow> arr_get (components ecs) (nat component_type);
         size \<leftarrow> arr_get (component_type_sizes ecs) (nat component_type);
         Some (if block = None then None
               else Some (nat component_type, size * word_of_int (entity ref)))
       }
       else None
     else Some None
   }"

definition query_match :: "ecs_t \<Rightarrow> u64 \<Rightarrow> nat \<Rightarrow> bool" where
  "query_match ecs cmask i \<longleftrightarrow>
     (component_masks ecs ! i) AND cmask = cmask \<and> k_entity_active \<le> entity_states ecs ! i"

definition ecs_query_next :: "ecs_t \<Rightarrow> ecs_query_t \<Rightarrow> ecs_query_t" where
  "ecs_query_next ecs query =
     (case scan (query_match ecs (component_mask query)) (nat (query_entity query + 1))
             k_max_entities of
        Some i \<Rightarrow> query\<lparr>query_entity := int i\<rparr>
      | None \<Rightarrow> query\<lparr>query_entity := -1\<rparr>)"

definition ecs_query_create :: "ecs_t \<Rightarrow> u64 \<Rightarrow> ecs_query_t" where
  "ecs_query_create ecs cmask =
     ecs_query_next ecs \<lparr>component_mask = cmask, query_entity = -1\<rparr>"

definition ecs_query_is_valid :: "ecs_query_t \<Rightarrow> bool" where
  "ecs_query_is_valid query \<longleftrightarrow> 0 \<le> query_entity query"

text \<open>No check here: the pointer of an invalid query lies outside the block.\<close>

definition ecs_query_get_component :: "ecs_t \<Rightarrow> ecs_query_t \<Rightarrow> int \<Rightarrow> comp_ptr option" where
  "ecs_query_get_component ecs query component_type = do {
     size \<leftarrow> ecs_get_component_type_size ecs component_type;
     Some (nat component_type, size * word_of_int (query_entity query))
   }"

definition ecs_query_get_entity :: "ecs_t \<Rightarrow> ecs_query_t \<Rightarrow> ecs_entity_ref_t option" where
  "ecs_query_get_entity ecs query =
     (if query_entity query < 0 then None
      else map_option (\<lambda>s. \<lparr>entity = query_entity query, sequence = s\<rparr>)
             (arr_get (sequences ecs) (nat (query_entity query))))"

text \<open>Reading and writing through a component pointer.\<close>

definition comp_read :: "ecs_t \<Rightarrow> comp_ptr \<Rightarrow> nat \<Rightarrow> u8 list option" where
  "comp_read ecs p n = do {
     block \<leftarrow> arr_get (components ecs) (fst p);
     bytes \<leftarrow> block;
     rd_bytes bytes (unat (snd p)) n
   }"

definition comp_write :: "ecs_t \<Rightarrow> comp_ptr \<Rightarrow> u8 list \<Rightarrow> ecs_t option" where
  "comp_write ecs p bs = do {
     block \<leftarrow> arr_get (components ecs) (fst p);
     bytes \<leftarrow> block;
     bytes' \<leftarrow> wr_bytes bytes (unat (snd p)) bs;
     Some (ecs\<lparr>components := (components ecs)[fst p := Some bytes']\<rparr>)
   }"

text \<open>
  The loop every client of a query runs,
  \<^verbatim>\<open>for (q = create(..); is_valid(q); next(q))\<close>: the slots it visits, in order.
\<close>

function ecs_query_loop :: "ecs_t \<Rightarrow> ecs_query_t \<Rightarrow> int list" where
  "ecs_query_loop ecs q =
     (if ecs_query_is_valid q then query_entity q # ecs_query_loop ecs (ecs_query_next ecs q)
      else [])"
  by pat_completeness auto
termination
  by (relation "measure (\<lambda>(ecs, q). if query_entity q < 0 then 0 else 1 + nat (512 - query_entity q))")
    (auto simp: ecs_query_is_valid_def ecs_query_next_def scan_Some_iff split: option.splits)

declare ecs_query_loop.simps [simp del]

definition ecs_query_all :: "ecs_t \<Rightarrow> u64 \<Rightarrow> int list" where
  "ecs_query_all ecs cmask = ecs_query_loop ecs (ecs_query_create ecs cmask)"

section \<open>Sizes and alignment\<close>

lemma align_size_eq:
  "align_size sz (2 ^ k) = (sz + (2 ^ k - 1)) - take_bit k (sz + (2 ^ k - 1))"
proof -
  let ?x = "sz + (2 ^ k - 1)"
  have "?x AND NOT (mask k) = ?x AND NOT (take_bit k ?x)"
    by (rule bit_word_eqI) (auto simp: bit_simps)
  also have "\<dots> = ?x - take_bit k ?x"
    by (rule disjunctive_diff_eq_and_not [symmetric], rule bit_word_eqI) (auto simp: bit_simps)
  finally show ?thesis
    by (simp add: align_size_def mask_eq_exp_minus_1)
qed

text \<open>Rounding up to a power of two, as long as the sum does not overflow.\<close>

lemma unat_align_size:
  assumes "k < 64" and "unat sz + (2 ^ k - 1) < 2 ^ 64"
  shows "unat (align_size sz (2 ^ k)) = (unat sz + (2 ^ k - 1)) div 2 ^ k * 2 ^ k"
proof -
  let ?x = "sz + (2 ^ k - 1)"
  have p: "unat (2 ^ k :: u64) = 2 ^ k"
  proof -
    have "(2 :: nat) ^ k < 2 ^ 64"
      using assms(1) by (rule power_strict_increasing) simp
    then have "unat (word_of_nat (2 ^ k) :: u64) = 2 ^ k"
      by (simp add: unat_of_nat take_bit_nat_eq_self del: of_nat_power)
    then show ?thesis by simp
  qed
  moreover from p have "(2 ^ k :: u64) \<noteq> 0"
    by (metis power_not_zero unat_0 zero_neq_numeral)
  ultimately have "unat (2 ^ k - 1 :: u64) = 2 ^ k - 1"
    by (simp add: unat_minus_one)
  with assms(2) have x: "unat ?x = unat sz + (2 ^ k - 1)"
    using unat_add_lem [of sz "2 ^ k - 1"] by simp
  have t: "unat (take_bit k ?x) = unat ?x mod 2 ^ k"
    by (simp only: unsigned_take_bit_eq) (simp add: take_bit_nat_def)
  then have "take_bit k ?x \<le> ?x"
    by (simp add: word_le_nat_alt)
  then have "unat (align_size sz (2 ^ k)) = unat ?x - unat ?x mod 2 ^ k"
    by (simp add: align_size_eq unat_sub t)
  also have "\<dots> = unat ?x div 2 ^ k * 2 ^ k"
    by (simp add: minus_mod_eq_div_mult)
  finally show ?thesis by (simp add: x)
qed

lemma round_up_bounds:
  fixes m n :: nat
  assumes "0 < m"
  shows "n \<le> (n + (m - 1)) div m * m" and "(n + (m - 1)) div m * m < n + m"
proof -
  have "(n + (m - 1)) div m * m + (n + (m - 1)) mod m = n + (m - 1)" by simp
  moreover have "(n + (m - 1)) mod m < m" using assms by simp
  ultimately show "n \<le> (n + (m - 1)) div m * m" by linarith
  show "(n + (m - 1)) div m * m < n + m"
    using \<open>(n + (m - 1)) div m * m + (n + (m - 1)) mod m = n + (m - 1)\<close> assms by linarith
qed

lemma align_size_bounds:
  assumes "k < 64" and "unat sz + (2 ^ k - 1) < 2 ^ 64"
  shows "2 ^ k dvd unat (align_size sz (2 ^ k))"
    and "unat sz \<le> unat (align_size sz (2 ^ k))"
    and "unat (align_size sz (2 ^ k)) < unat sz + 2 ^ k"
  using round_up_bounds [of "2 ^ k" "unat sz"] by (simp_all add: unat_align_size [OF assms])

section \<open>Well-formedness\<close>

text \<open>Array lengths, and every block holds 512 components of its type.\<close>

definition block_ok :: "u8 list ptr \<Rightarrow> u64 \<Rightarrow> bool" where
  "block_ok c sz \<longleftrightarrow>
     (case c of None \<Rightarrow> True
      | Some block \<Rightarrow> length block = unat sz * k_max_entities \<and> length block < 2 ^ 64)"

definition ecs_ok :: "ecs_t \<Rightarrow> bool" where
  "ecs_ok ecs \<longleftrightarrow>
     length (sequences ecs) = k_max_entities \<and>
     length (entity_states ecs) = k_max_entities \<and>
     length (component_masks ecs) = k_max_entities \<and>
     length (components ecs) = k_max_component_types \<and>
     length (component_type_sizes ecs) = k_max_component_types \<and>
     length (component_type_names ecs) = k_max_component_types \<and>
     list_all2 block_ok (components ecs) (component_type_sizes ecs)"

lemma ecs_ok_block:
  assumes "ecs_ok ecs" and "ct < k_max_component_types" and "components ecs ! ct = Some block"
  shows "length block = unat (component_type_sizes ecs ! ct) * k_max_entities"
    and "length block < 2 ^ 64"
proof -
  from assms have "block_ok (components ecs ! ct) (component_type_sizes ecs ! ct)"
    by (auto simp: ecs_ok_def list_all2_conv_all_nth)
  with assms(3) show "length block = unat (component_type_sizes ecs ! ct) * k_max_entities"
    and "length block < 2 ^ 64" by (simp_all add: block_ok_def)
qed

lemma ecs_create_ok: "ecs_create True = Some ecs \<Longrightarrow> ecs_ok ecs"
  by (auto simp: ecs_create_def ecs_ok_def block_ok_def list_all2_conv_all_nth)

lemma fold_update_map:
  "n \<le> length xs \<Longrightarrow>
   fold (\<lambda>i xs. xs[i := f (xs ! i)]) [0..<n] xs = map f (take n xs) @ drop n xs"
proof (induction n)
  case 0
  then show ?case by simp
next
  case (Suc n)
  then show ?case
    by (simp add: list_update_append take_Suc_conv_app_nth nth_append min_absorb2
        Cons_nth_drop_Suc [symmetric])
qed

lemma ecs_update_eq:
  assumes "ecs_ok ecs"
  shows "ecs_update ecs = ecs\<lparr>entity_states := map update_state (entity_states ecs)\<rparr>"
  using assms fold_update_map [of k_max_entities "entity_states ecs" update_state]
  by (simp add: ecs_update_def ecs_ok_def)

lemma ecs_update_ok: "ecs_ok ecs \<Longrightarrow> ecs_ok (ecs_update ecs)"
  by (simp add: ecs_update_eq) (simp add: ecs_ok_def)

lemma ecs_entity_add_ok: "ecs_ok ecs \<Longrightarrow> ecs_ok (snd (ecs_entity_add ecs cmask))"
  by (auto simp: ecs_entity_add_def ecs_ok_def split: option.splits)

lemma ecs_entity_remove_ok:
  "ecs_ok ecs \<Longrightarrow> ecs_entity_remove ecs ref allow = Some ecs' \<Longrightarrow> ecs_ok ecs'"
  by (auto simp: ecs_entity_remove_def ecs_ok_def arr_set_Some_iff bind_eq_Some_conv
      split: if_splits)

lemma memset0_length: "memset0 block n = Some z \<Longrightarrow> length z = length block"
  by (auto simp: memset0_def split: if_splits)

text \<open>What a registration that returns has done: nothing, or filled the first free type.\<close>

definition registered :: "ecs_t \<Rightarrow> nat \<Rightarrow> string \<Rightarrow> u64 \<Rightarrow> u8 list \<Rightarrow> ecs_t" where
  "registered ecs i name sz block =
     ecs\<lparr>component_type_names := (component_type_names ecs)[i := name],
         component_type_sizes := (component_type_sizes ecs)[i := sz],
         components := (components ecs)[i := Some block]\<rparr>"

lemma ecs_register_cases:
  assumes reg: "ecs_register_component_type ecs name sz al alloc = Some (ct, ecs')"
  obtains
    (full) "scan (\<lambda>i. components ecs ! i = None) 0 k_max_component_types = None"
      and "ct = -1" and "ecs' = ecs"
  | (new) i n block where "scan (\<lambda>i. components ecs ! i = None) 0 k_max_component_types = Some i"
      and "n = unat (align_size sz al * word_of_nat k_max_entities)"
      and "length name < 32" and "alloc (align_size sz al * word_of_nat k_max_entities) al = Some block"
      and "n \<le> length block" and "ct = int i"
      and "ecs' = registered ecs i name (align_size sz al) (replicate n 0 @ drop n block)"
proof (cases "scan (\<lambda>i. components ecs ! i = None) 0 k_max_component_types")
  case None
  with reg show ?thesis
    by (intro full) (auto simp: ecs_register_component_type_def)
next
  case (Some i)
  with reg show ?thesis
    unfolding ecs_register_component_type_def Let_def memset0_def registered_def [symmetric]
    by (auto split: if_splits option.splits intro: new)
qed

lemma ecs_register_ok:
  assumes ok: "ecs_ok ecs"
    and alloc: "\<And>n a block. alloc n a = Some block \<Longrightarrow> length block = unat n"
    and fits: "unat (align_size sz al) * k_max_entities < 2 ^ 64"
    and reg: "ecs_register_component_type ecs name sz al alloc = Some (ct, ecs')"
  shows "ecs_ok ecs'"
proof -
  have bytes: "unat (align_size sz al * word_of_nat k_max_entities) =
      unat (align_size sz al) * k_max_entities"
    using fits by (simp add: unat_word_ariths)
  from reg show ?thesis
  proof (cases rule: ecs_register_cases)
    case full
    with ok show ?thesis by simp
  next
    case (new i n block)
    with bytes have "block_ok (Some (replicate n 0 @ drop n block)) (align_size sz al)"
      using fits by (auto simp: block_ok_def dest: alloc)
    with ok new show ?thesis
      by (auto simp: ecs_ok_def registered_def intro: list_all2_update_cong)
  qed
qed

section \<open>References\<close>

text \<open>
  \<open>names_slot ecs ref i\<close>: \<open>ref\<close> points at slot \<open>i\<close> and has its current sequence number.  Every
  reference the engine hands out lies inside the arrays (\<open>ref_in_range\<close>), which the validity
  check itself does not test.
\<close>

definition ref_in_range :: "ecs_entity_ref_t \<Rightarrow> bool" where
  "ref_in_range ref \<longleftrightarrow> entity ref < int k_max_entities"

definition names_slot :: "ecs_t \<Rightarrow> ecs_entity_ref_t \<Rightarrow> nat \<Rightarrow> bool" where
  "names_slot ecs ref i \<longleftrightarrow>
     entity ref = int i \<and> i < k_max_entities \<and> sequences ecs ! i = sequence ref"

definition live :: "ecs_t \<Rightarrow> ecs_entity_ref_t \<Rightarrow> bool" where
  "live ecs ref \<longleftrightarrow> ecs_is_entity_ref_valid ecs ref True = Some True"

definition spawned :: "ecs_t \<Rightarrow> ecs_entity_ref_t \<Rightarrow> bool" where
  "spawned ecs ref \<longleftrightarrow> ecs_is_entity_ref_valid ecs ref False = Some True"

lemma names_slot_ex:
  "(\<exists>i. names_slot ecs ref i \<and> P i) \<longleftrightarrow>
     0 \<le> entity ref \<and> entity ref < int k_max_entities \<and>
     sequences ecs ! nat (entity ref) = sequence ref \<and> P (nat (entity ref))"
  by (auto simp: names_slot_def intro!: exI [of _ "nat (entity ref)"])

lemma valid_defined:
  assumes "ecs_ok ecs" and "ref_in_range ref"
  shows "ecs_is_entity_ref_valid ecs ref allow =
    Some (\<exists>i. names_slot ecs ref i \<and>
      (if allow then k_entity_pending_add else k_entity_active) \<le> entity_states ecs ! i)"
proof (cases "entity ref < 0")
  case True
  then show ?thesis
    by (auto simp: ecs_is_entity_ref_valid_def names_slot_def)
next
  case False
  then obtain i where i: "entity ref = int i"
    by (metis nonneg_int_cases not_le_imp_less)
  with assms show ?thesis
    by (auto simp: ecs_is_entity_ref_valid_def names_slot_def ref_in_range_def ecs_ok_def)
qed

lemma valid_out_of_range:
  assumes "ecs_ok ecs" and "\<not> ref_in_range ref"
  shows "ecs_is_entity_ref_valid ecs ref allow = None"
  using assms by (auto simp: ecs_is_entity_ref_valid_def ref_in_range_def ecs_ok_def)

lemma live_iff:
  assumes "ecs_ok ecs"
  shows "live ecs ref \<longleftrightarrow>
    (\<exists>i. names_slot ecs ref i \<and> entity_states ecs ! i \<noteq> k_entity_unused)"
proof (cases "ref_in_range ref")
  case True
  then show ?thesis by (simp add: live_def valid_defined [OF assms])
next
  case False
  then show ?thesis
    by (auto simp: live_def valid_out_of_range [OF assms] names_slot_def ref_in_range_def)
qed

lemma spawned_iff:
  assumes "ecs_ok ecs"
  shows "spawned ecs ref \<longleftrightarrow>
    (\<exists>i. names_slot ecs ref i \<and>
      entity_states ecs ! i \<in> {k_entity_active, k_entity_pending_remove})"
proof (cases "ref_in_range ref")
  case True
  then show ?thesis by (simp add: spawned_def valid_defined [OF assms])
next
  case False
  then show ?thesis
    by (auto simp: spawned_def valid_out_of_range [OF assms] names_slot_def ref_in_range_def)
qed

lemma live_in_range: "ecs_ok ecs \<Longrightarrow> live ecs ref \<Longrightarrow> ref_in_range ref"
  using valid_out_of_range by (fastforce simp: live_def)

section \<open>Sequence numbers\<close>

text \<open>
  Until the global counter wraps, every sequence number in use is below it, no two slots
  share one (other than the initial 0), and a used slot has a number other than 0.
\<close>

definition ecs_fresh :: "ecs_t \<Rightarrow> bool" where
  "ecs_fresh ecs \<longleftrightarrow>
     0 < unat (global_sequence ecs) \<and>
     (\<forall>i < k_max_entities. unat (sequences ecs ! i) < unat (global_sequence ecs)) \<and>
     (\<forall>i < k_max_entities. entity_states ecs ! i \<noteq> k_entity_unused \<longrightarrow> sequences ecs ! i \<noteq> 0) \<and>
     (\<forall>i < k_max_entities. \<forall>j < k_max_entities.
        i \<noteq> j \<longrightarrow> sequences ecs ! i = sequences ecs ! j \<longrightarrow> sequences ecs ! i = 0)"

definition ecs_inv :: "ecs_t \<Rightarrow> bool" where
  "ecs_inv ecs \<longleftrightarrow> ecs_ok ecs \<and> ecs_fresh ecs"

text \<open>How many more entities can be spawned before the counter wraps.\<close>

definition spawn_budget :: "ecs_t \<Rightarrow> nat" where
  "spawn_budget ecs = 2 ^ 32 - 1 - unat (global_sequence ecs)"

text \<open>\<open>issued\<close>: the sequence number has been handed out already.\<close>

definition issued :: "ecs_t \<Rightarrow> ecs_entity_ref_t \<Rightarrow> bool" where
  "issued ecs ref \<longleftrightarrow> unat (sequence ref) < unat (global_sequence ecs)"

lemma ecs_create_inv: "ecs_create True = Some ecs \<Longrightarrow> ecs_inv ecs"
  using ecs_create_ok [of ecs] by (auto simp: ecs_create_def ecs_inv_def ecs_fresh_def)

lemma ecs_create_no_live: "ecs_create True = Some ecs \<Longrightarrow> \<not> live ecs ref"
  using ecs_create_ok [of ecs] by (auto simp: live_iff names_slot_def ecs_create_def)

lemma live_issued: "ecs_inv ecs \<Longrightarrow> live ecs ref \<Longrightarrow> issued ecs ref"
  by (auto simp: ecs_inv_def live_iff issued_def ecs_fresh_def names_slot_def)

lemma live_unique:
  assumes "ecs_inv ecs" and "live ecs r1" and "live ecs r2" and "sequence r1 = sequence r2"
  shows "r1 = r2"
  using assms by (cases r1; cases r2)
    (auto simp: ecs_inv_def live_iff ecs_fresh_def names_slot_def)

text \<open>The zero reference of a cleared struct is never valid.\<close>

lemma zero_ref_dead: "ecs_inv ecs \<Longrightarrow> sequence ref = 0 \<Longrightarrow> \<not> live ecs ref"
  by (auto simp: ecs_inv_def live_iff ecs_fresh_def names_slot_def)

subsection \<open>The per-frame update\<close>

lemma update_state_unused [simp]:
  "update_state s = k_entity_unused \<longleftrightarrow> s \<in> {k_entity_unused, k_entity_pending_remove}"
  by (cases s) auto

lemma update_state_not_pending_add [simp]: "update_state s \<noteq> k_entity_pending_add"
  by (cases s) auto

lemma ecs_update_inv: "ecs_inv ecs \<Longrightarrow> ecs_inv (ecs_update ecs)"
  using ecs_update_ok [of ecs]
  by (auto simp: ecs_inv_def ecs_update_eq ecs_fresh_def ecs_ok_def)

lemma ecs_update_live:
  assumes "ecs_ok ecs"
  shows "live (ecs_update ecs) ref \<longleftrightarrow>
    (\<exists>i. names_slot ecs ref i \<and>
      entity_states ecs ! i \<in> {k_entity_pending_add, k_entity_active})"
proof -
  have len: "length (entity_states ecs) = k_max_entities"
    using assms by (simp add: ecs_ok_def)
  have "update_state s \<noteq> k_entity_unused \<longleftrightarrow> s \<in> {k_entity_pending_add, k_entity_active}" for s
    by (cases s) auto
  then show ?thesis
    using assms len unfolding live_iff [OF ecs_update_ok [OF assms]]
    by (auto simp: ecs_update_eq names_slot_def)
qed

lemma ecs_update_spawned:
  assumes "ecs_ok ecs"
  shows "spawned (ecs_update ecs) ref \<longleftrightarrow> live (ecs_update ecs) ref"
proof -
  have len: "length (entity_states ecs) = k_max_entities"
    using assms by (simp add: ecs_ok_def)
  have "update_state s \<in> {k_entity_active, k_entity_pending_remove} \<longleftrightarrow>
      update_state s \<noteq> k_entity_unused" for s
    by (cases s) auto
  then show ?thesis
    using assms len unfolding live_iff [OF ecs_update_ok [OF assms]]
      spawned_iff [OF ecs_update_ok [OF assms]]
    by (auto simp: ecs_update_eq names_slot_def)
qed

subsection \<open>Spawning\<close>

lemma ecs_entity_add_cases:
  obtains
    (full) "ecs_entity_add ecs m = (\<lparr>entity = -1, sequence = -1\<rparr>, ecs)"
      and "\<And>i. i < k_max_entities \<Longrightarrow> entity_states ecs ! i \<noteq> k_entity_unused"
  | (slot) i where "i < k_max_entities" and "entity_states ecs ! i = k_entity_unused"
      and "\<And>j. j < i \<Longrightarrow> entity_states ecs ! j \<noteq> k_entity_unused"
      and "ecs_entity_add ecs m =
        (\<lparr>entity = int i, sequence = global_sequence ecs\<rparr>,
         ecs\<lparr>entity_states := (entity_states ecs)[i := k_entity_pending_add],
             sequences := (sequences ecs)[i := global_sequence ecs],
             global_sequence := global_sequence ecs + 1,
             component_masks := (component_masks ecs)[i := m]\<rparr>)"
proof (cases "scan (\<lambda>i. entity_states ecs ! i = k_entity_unused) 0 k_max_entities")
  case None
  then show ?thesis
    by (intro full) (simp_all add: ecs_entity_add_def, simp add: scan_None_iff)
next
  case (Some i)
  then show ?thesis
    by (intro slot [of i]) (simp_all add: ecs_entity_add_def, simp_all add: scan_Some_iff)
qed

lemma ecs_entity_add_live:
  assumes inv: "ecs_inv ecs" and budget: "0 < spawn_budget ecs"
    and add: "ecs_entity_add ecs m = (ref, ecs')" and ref: "0 \<le> entity ref"
  shows "ecs_inv ecs'" and "spawn_budget ecs' = spawn_budget ecs - 1"
    and "\<not> issued ecs ref" and "issued ecs' r \<longleftrightarrow> issued ecs r \<or> sequence r = sequence ref"
    and "live ecs' r \<longleftrightarrow> live ecs r \<or> r = ref"
    and "spawned ecs' r \<longleftrightarrow> spawned ecs r"
proof -
  have ok: "ecs_ok ecs" and fresh: "ecs_fresh ecs" using inv by (auto simp: ecs_inv_def)
  have ok': "ecs_ok ecs'" using ecs_entity_add_ok [OF ok, of m] add by simp
  from add ref obtain i where i: "i < k_max_entities" "entity_states ecs ! i = k_entity_unused"
    and r: "ref = \<lparr>entity = int i, sequence = global_sequence ecs\<rparr>"
    and e: "ecs' = ecs\<lparr>entity_states := (entity_states ecs)[i := k_entity_pending_add],
             sequences := (sequences ecs)[i := global_sequence ecs],
             global_sequence := global_sequence ecs + 1,
             component_masks := (component_masks ecs)[i := m]\<rparr>"
    by (cases rule: ecs_entity_add_cases [of ecs m]) auto
  have g: "unat (global_sequence ecs + 1) = unat (global_sequence ecs) + 1"
    using budget unat_add_lem [of "global_sequence ecs" 1] by (simp add: spawn_budget_def)
  have seq: "length (sequences ecs) = k_max_entities" "length (entity_states ecs) = k_max_entities"
    using ok by (auto simp: ecs_ok_def)
  have nz: "global_sequence ecs \<noteq> 0" using fresh by (auto simp: ecs_fresh_def)
  have new: "sequences ecs ! j \<noteq> global_sequence ecs" if "j < k_max_entities" for j
    using fresh that by (auto simp: ecs_fresh_def)
  show "spawn_budget ecs' = spawn_budget ecs - 1"
    by (simp add: spawn_budget_def e g)
  show "\<not> issued ecs ref" by (simp add: issued_def r)
  show "issued ecs' r \<longleftrightarrow> issued ecs r \<or> sequence r = sequence ref"
    by (auto simp: issued_def e g r less_Suc_eq dest: unsigned_word_eqI)
  have "ecs_fresh ecs'"
    using fresh seq nz new i
    by (auto simp: ecs_fresh_def e g nth_list_update less_SucI)
  with ok' show "ecs_inv ecs'" by (simp add: ecs_inv_def)
  show "live ecs' r \<longleftrightarrow> live ecs r \<or> r = ref"
    using seq i new unfolding live_iff [OF ok] live_iff [OF ok']
    by (cases r) (auto simp: e r names_slot_def nth_list_update)
  show "spawned ecs' r \<longleftrightarrow> spawned ecs r"
    using seq i new unfolding spawned_iff [OF ok] spawned_iff [OF ok']
    by (cases r) (auto simp: e names_slot_ex nth_list_update)
qed

lemma ecs_entity_add_full:
  assumes "ecs_entity_add ecs m = (ref, ecs')" and "entity ref < 0"
  shows "ecs' = ecs" and "ref = \<lparr>entity = -1, sequence = -1\<rparr>"
    and "\<And>i. i < k_max_entities \<Longrightarrow> entity_states ecs ! i \<noteq> k_entity_unused"
proof -
  from assms have "ecs' = ecs \<and> ref = \<lparr>entity = -1, sequence = -1\<rparr> \<and>
      (\<forall>i < k_max_entities. entity_states ecs ! i \<noteq> k_entity_unused)"
    by (cases rule: ecs_entity_add_cases [of ecs m]) auto
  then show "ecs' = ecs" and "ref = \<lparr>entity = -1, sequence = -1\<rparr>"
    and "\<And>i. i < k_max_entities \<Longrightarrow> entity_states ecs ! i \<noteq> k_entity_unused" by auto
qed

subsection \<open>Despawning\<close>

lemma ecs_entity_remove_eq:
  assumes ok: "ecs_ok ecs" and "ref_in_range ref"
  shows "\<exists>ecs'. ecs_entity_remove ecs ref allow = Some ecs' \<and>
    (if ecs_is_entity_ref_valid ecs ref allow = Some True
     then ecs' = ecs\<lparr>entity_states := (entity_states ecs)[nat (entity ref) := k_entity_pending_remove]\<rparr>
     else ecs' = ecs)"
proof -
  have len: "length (entity_states ecs) = k_max_entities" using ok by (simp add: ecs_ok_def)
  have "nat (entity ref) < k_max_entities"
    using assms(2) by (auto simp: ref_in_range_def)
  with len show ?thesis
    by (auto simp: ecs_entity_remove_def valid_defined [OF assms])
qed

lemma ecs_entity_remove_live:
  assumes inv: "ecs_inv ecs" and rem: "ecs_entity_remove ecs ref allow = Some ecs'"
  shows "ecs_inv ecs'" and "spawn_budget ecs' = spawn_budget ecs"
    and "issued ecs' r \<longleftrightarrow> issued ecs r"
    and "live ecs' r \<longleftrightarrow> live ecs r"
proof -
  have ok: "ecs_ok ecs" and fresh: "ecs_fresh ecs" using inv by (auto simp: ecs_inv_def)
  have len: "length (entity_states ecs) = k_max_entities" using ok by (simp add: ecs_ok_def)
  have ok': "ecs_ok ecs'" by (rule ecs_entity_remove_ok [OF ok rem])
  have range: "ref_in_range ref"
    using rem valid_out_of_range [OF ok, of ref allow] by (cases "ref_in_range ref")
      (auto simp: ecs_entity_remove_def)
  from ecs_entity_remove_eq [OF ok range, of allow] rem consider
      "ecs' = ecs"
    | i where "names_slot ecs ref i" "entity_states ecs ! i \<noteq> k_entity_unused"
        "ecs' = ecs\<lparr>entity_states := (entity_states ecs)[i := k_entity_pending_remove]\<rparr>"
    using valid_defined [OF ok range, of allow]
    by (cases allow) (auto simp: names_slot_def split: if_splits)
  note cs = this
  show "ecs_inv ecs'"
    using cs
  proof cases
    case 2
    then have "ecs_fresh ecs'"
      using fresh len by (auto simp: ecs_fresh_def nth_list_update names_slot_def)
    with ok' show ?thesis by (simp add: ecs_inv_def)
  qed (use inv in simp)
  show "spawn_budget ecs' = spawn_budget ecs" and "issued ecs' r \<longleftrightarrow> issued ecs r"
    using cs by (cases; simp add: spawn_budget_def issued_def)+
  show "live ecs' r \<longleftrightarrow> live ecs r"
    using cs len unfolding live_iff [OF ok] live_iff [OF ok']
    by cases (auto simp: names_slot_def nth_list_update)
qed

section \<open>Stale references stay dead\<close>

text \<open>
  What a client of an entity store relies on: a handle that was issued and is no longer live
  never becomes live again, whatever is spawned, despawned or updated in between, for as long
  as the budget of fresh handles lasts.
\<close>

datatype ('r, 'm) entity_op = Spawn 'm | Despawn 'r bool | Frame

fun is_spawn :: "('r, 'm) entity_op \<Rightarrow> bool" where
  "is_spawn (Spawn m) = True"
| "is_spawn _ = False"

definition spawns :: "('r, 'm) entity_op list \<Rightarrow> nat" where
  "spawns ops = length (filter is_spawn ops)"

lemma spawns_simps [simp]:
  "spawns [] = 0"
  "spawns (Spawn m # ops) = Suc (spawns ops)"
  "spawns (Despawn r b # ops) = spawns ops"
  "spawns (Frame # ops) = spawns ops"
  by (simp_all add: spawns_def)

text \<open>A sequence of operations and the handles it returned.\<close>

fun ops_run ::
  "('s \<Rightarrow> 'm \<Rightarrow> 'r \<times> 's) \<Rightarrow> ('s \<Rightarrow> 'r \<Rightarrow> bool \<Rightarrow> 's option) \<Rightarrow> ('s \<Rightarrow> 's) \<Rightarrow> ('r \<Rightarrow> bool) \<Rightarrow>
   's \<Rightarrow> ('r, 'm) entity_op list \<Rightarrow> ('r list \<times> 's) option" where
  "ops_run add remove frame null s [] = Some ([], s)"
| "ops_run add remove frame null s (Spawn m # ops) =
     (case add s m of (r, s') \<Rightarrow>
        map_option (\<lambda>(rs, s''). (if null r then rs else r # rs, s''))
          (ops_run add remove frame null s' ops))"
| "ops_run add remove frame null s (Despawn r f # ops) =
     (case remove s r f of None \<Rightarrow> None | Some s' \<Rightarrow> ops_run add remove frame null s' ops)"
| "ops_run add remove frame null s (Frame # ops) = ops_run add remove frame null (frame s) ops"

locale entity_store =
  fixes inv :: "'s \<Rightarrow> bool"
    and alive :: "'s \<Rightarrow> 'r \<Rightarrow> bool"
    and known :: "'s \<Rightarrow> 'r \<Rightarrow> bool"
    and budget :: "'s \<Rightarrow> nat"
    and null_ref :: "'r \<Rightarrow> bool"
    and add :: "'s \<Rightarrow> 'm \<Rightarrow> 'r \<times> 's"
    and remove :: "'s \<Rightarrow> 'r \<Rightarrow> bool \<Rightarrow> 's option"
    and frame :: "'s \<Rightarrow> 's"
  assumes add_null: "\<lbrakk>add s m = (r, s'); null_ref r\<rbrakk> \<Longrightarrow> s' = s"
    and add_inv: "\<lbrakk>inv s; 0 < budget s; add s m = (r, s'); \<not> null_ref r\<rbrakk> \<Longrightarrow>
      inv s' \<and> budget s' = budget s - 1"
    and add_known: "\<lbrakk>inv s; 0 < budget s; add s m = (r, s'); \<not> null_ref r\<rbrakk> \<Longrightarrow>
      \<not> known s r \<and> known s' r \<and> (known s q \<longrightarrow> known s' q)"
    and add_alive: "\<lbrakk>inv s; 0 < budget s; add s m = (r, s'); \<not> null_ref r\<rbrakk> \<Longrightarrow>
      alive s' q \<longleftrightarrow> alive s q \<or> q = r"
    and remove_inv: "\<lbrakk>inv s; remove s r f = Some s'\<rbrakk> \<Longrightarrow> inv s' \<and> budget s' = budget s"
    and remove_known: "\<lbrakk>inv s; remove s r f = Some s'\<rbrakk> \<Longrightarrow> known s' q = known s q"
    and remove_alive: "\<lbrakk>inv s; remove s r f = Some s'\<rbrakk> \<Longrightarrow> alive s' q \<Longrightarrow> alive s q"
    and frame_inv: "inv s \<Longrightarrow> inv (frame s) \<and> budget (frame s) = budget s"
    and frame_known: "inv s \<Longrightarrow> known (frame s) q = known s q"
    and frame_alive: "inv s \<Longrightarrow> alive (frame s) q \<Longrightarrow> alive s q"
begin

abbreviation "run \<equiv> ops_run add remove frame null_ref"

lemma run_facts:
  assumes "inv s" and "spawns ops \<le> budget s" and "run s ops = Some (rs, s')"
  shows "inv s' \<and> (\<forall>q. known s q \<longrightarrow> known s' q) \<and> (\<forall>q. alive s' q \<longrightarrow> alive s q \<or> q \<in> set rs) \<and>
    (\<forall>q \<in> set rs. \<not> known s q \<and> known s' q) \<and> distinct rs \<and> budget s \<le> budget s' + spawns ops"
  using assms
proof (induction ops arbitrary: s rs)
  case Nil
  then show ?case by simp
next
  case (Cons op ops)
  show ?case
  proof (cases op)
    case (Spawn m)
    obtain r t where add: "add s m = (r, t)" by fastforce
    with Cons.prems(3) Spawn obtain rs' where run: "run t ops = Some (rs', s')"
      and rs: "rs = (if null_ref r then rs' else r # rs')" by auto
    show ?thesis
    proof (cases "null_ref r")
      case True
      with Cons.prems add_null [OF add] Spawn have "inv t" "spawns ops \<le> budget t" "t = s" by auto
      with Cons.IH [OF _ _ run] rs True Spawn show ?thesis by auto
    next
      case False
      have b: "0 < budget s" using Cons.prems(2) Spawn by simp
      note new = add_inv [OF Cons.prems(1) b add False] add_known [OF Cons.prems(1) b add False]
        add_alive [OF Cons.prems(1) b add False]
      with Cons.prems(2) Spawn have "inv t" "spawns ops \<le> budget t" by auto
      from Cons.IH [OF this run] have IH: "inv s'" "\<And>q. known t q \<Longrightarrow> known s' q"
          "\<And>q. alive s' q \<Longrightarrow> alive t q \<or> q \<in> set rs'" "distinct rs'"
          "\<And>q. q \<in> set rs' \<Longrightarrow> \<not> known t q \<and> known s' q" "budget t \<le> budget s' + spawns ops"
        by blast+
      from rs False have rs: "rs = r # rs'" by simp
      from IH(5) new have "r \<notin> set rs'" by blast
      moreover from new IH(6) b have "budget s \<le> budget s' + spawns (op # ops)"
        by (simp add: Spawn)
      ultimately show ?thesis
        unfolding rs using IH new by auto
    qed
  next
    case (Despawn r f)
    with Cons.prems(3) obtain t where t: "remove s r f = Some t" and run: "run t ops = Some (rs, s')"
      by (auto split: option.splits)
    note rem = remove_inv [OF Cons.prems(1) t] remove_known [OF Cons.prems(1) t]
      remove_alive [OF Cons.prems(1) t]
    with Cons.prems(2) Despawn have "inv t" "spawns ops \<le> budget t" by auto
    from Cons.IH [OF this run] rem Despawn show ?thesis by auto
  next
    case Frame
    note fr = frame_inv [OF Cons.prems(1)] frame_known [OF Cons.prems(1)]
      frame_alive [OF Cons.prems(1)]
    with Cons.prems(2) Frame have "inv (frame s)" "spawns ops \<le> budget (frame s)" by auto
    moreover from Cons.prems(3) Frame have "run (frame s) ops = Some (rs, s')" by simp
    ultimately show ?thesis using Cons.IH [of "frame s" rs] fr Frame by auto
  qed
qed

lemma stale_stays_dead:
  assumes "inv s" and "spawns ops \<le> budget s" and "run s ops = Some (rs, s')"
    and "known s q" and "\<not> alive s q"
  shows "\<not> alive s' q"
  using run_facts [OF assms(1-3)] assms(4,5) by blast

lemma fresh_handles:
  assumes "inv s" and "spawns ops \<le> budget s" and "run s ops = Some (rs, s')"
  shows "distinct rs" and "\<forall>r \<in> set rs. \<not> known s r" and "inv s'"
  using run_facts [OF assms] by blast+

end

definition is_null_ref :: "ecs_entity_ref_t \<Rightarrow> bool" where
  "is_null_ref ref \<longleftrightarrow> entity ref < 0"

lemma ecs_update_issued: "issued (ecs_update ecs) r = issued ecs r"
  and ecs_update_budget: "spawn_budget (ecs_update ecs) = spawn_budget ecs"
  by (simp_all add: ecs_update_def issued_def spawn_budget_def)

lemma ecs_inv_ok: "ecs_inv ecs \<Longrightarrow> ecs_ok ecs"
  by (simp add: ecs_inv_def)

interpretation store: entity_store ecs_inv live issued spawn_budget is_null_ref
  ecs_entity_add ecs_entity_remove ecs_update
proof (unfold_locales, goal_cases)
  case 1
  then show ?case by (simp add: is_null_ref_def ecs_entity_add_full)
next
  case (2 s m r s')
  then show ?case using ecs_entity_add_live(1,2) [of s m r s'] by (simp add: is_null_ref_def)
next
  case (3 s m r s' q)
  then show ?case using ecs_entity_add_live(3,4) [of s m r s'] by (simp add: is_null_ref_def)
next
  case (4 s m r s' q)
  then show ?case using ecs_entity_add_live(5) [of s m r s' q] by (simp add: is_null_ref_def)
next
  case 5
  then show ?case using ecs_entity_remove_live by blast
next
  case 6
  then show ?case using ecs_entity_remove_live by blast
next
  case 7
  then show ?case using ecs_entity_remove_live by blast
next
  case 8
  then show ?case by (simp add: ecs_update_inv ecs_update_budget)
next
  case 9
  then show ?case by (simp add: ecs_update_issued)
next
  case 10
  then show ?case by (auto simp: ecs_update_live live_iff ecs_inv_ok)
qed

end
