(* ===== verification/Ecs_World.thy ===== *)
theory Ecs_World
  imports Ecs
begin

text \<open>
  What the clients of \<^verbatim>\<open>ecs.c\<close> rely on: the life cycle of an entity over the frames, stale
  references, the entities a query visits, and the memory of the components.
\<close>

section \<open>Queries\<close>

lemma ecs_query_next_at:
  "ecs_query_next ecs \<lparr>component_mask = m, query_entity = int i - 1\<rparr> =
     (case scan (query_match ecs m) i k_max_entities of
        Some j \<Rightarrow> \<lparr>component_mask = m, query_entity = int j\<rparr>
      | None \<Rightarrow> \<lparr>component_mask = m, query_entity = -1\<rparr>)"
  by (simp add: ecs_query_next_def split: option.splits)

lemma query_loop_from:
  "ecs_query_loop ecs (ecs_query_next ecs \<lparr>component_mask = m, query_entity = int i - 1\<rparr>) =
     map int (filter (query_match ecs m) [i..<k_max_entities])"
proof (induction "k_max_entities - i" arbitrary: i rule: less_induct)
  case less
  show ?case
  proof (cases "scan (query_match ecs m) i k_max_entities")
    case None
    then have "filter (query_match ecs m) [i..<k_max_entities] = []"
      by (auto simp: scan_None_iff filter_empty_conv)
    with None show ?thesis
      by (simp add: ecs_query_next_at ecs_query_loop.simps ecs_query_is_valid_def)
  next
    case (Some j)
    then have j: "i \<le> j" "j < k_max_entities" "query_match ecs m j"
      "\<And>k. i \<le> k \<Longrightarrow> k < j \<Longrightarrow> \<not> query_match ecs m k"
      by (auto simp: scan_Some_iff)
    then have "[i..<k_max_entities] = [i..<j] @ j # [Suc j..<k_max_entities]"
      using upt_add_eq_append [of i j "k_max_entities - j"] by (simp add: upt_conv_Cons)
    then have f: "filter (query_match ecs m) [i..<k_max_entities] =
        j # filter (query_match ecs m) [Suc j..<k_max_entities]"
      using j(3,4) by (simp add: filter_empty_conv)
    have "ecs_query_loop ecs (ecs_query_next ecs
        \<lparr>component_mask = m, query_entity = int (Suc j) - 1\<rparr>) =
        map int (filter (query_match ecs m) [Suc j..<k_max_entities])"
      using j(1,2) by (intro less) simp
    with Some f show ?thesis
      by (simp add: ecs_query_next_at ecs_query_loop.simps [of ecs "\<lparr>component_mask = m, query_entity = int j\<rparr>"]
          ecs_query_is_valid_def)
  qed
qed

lemma ecs_query_all_eq:
  "ecs_query_all ecs m = map int (filter (query_match ecs m) [0..<k_max_entities])"
  using query_loop_from [of ecs m 0]
  by (simp add: ecs_query_all_def ecs_query_create_def)

section \<open>Component memory\<close>

lemma component_offset:
  assumes ok: "ecs_ok ecs" and ct: "ct < k_max_component_types"
    and block: "components ecs ! ct = Some bytes" and i: "i < k_max_entities"
  shows "unat (component_type_sizes ecs ! ct * word_of_nat i) = unat (component_type_sizes ecs ! ct) * i"
    and "unat (component_type_sizes ecs ! ct) * i + unat (component_type_sizes ecs ! ct) \<le> length bytes"
proof -
  let ?n = "unat (component_type_sizes ecs ! ct)"
  have "?n * i + ?n = ?n * Suc i" by simp
  also have "\<dots> \<le> ?n * k_max_entities" using i by (intro mult_le_mono2) simp
  finally show le: "?n * i + ?n \<le> length bytes"
    using ecs_ok_block(1) [OF ok ct block] by simp
  with ecs_ok_block(2) [OF ok ct block] have "?n * i < 2 ^ 64" by linarith
  moreover have "unat (word_of_nat i :: u64) = i"
    using i by (simp add: unat_of_nat take_bit_nat_eq_self)
  ultimately show "unat (component_type_sizes ecs ! ct * word_of_nat i) = ?n * i"
    by (simp add: unat_mult_lem [THEN iffD1])
qed

text \<open>\<open>has_component ecs ref ct i n\<close>: \<open>ref\<close> is live in slot \<open>i\<close> and type \<open>ct\<close> is registered with size \<open>n\<close>.\<close>

definition has_component :: "ecs_t \<Rightarrow> ecs_entity_ref_t \<Rightarrow> nat \<Rightarrow> nat \<Rightarrow> nat \<Rightarrow> bool" where
  "has_component ecs ref ct i n \<longleftrightarrow>
     live ecs ref \<and> entity ref = int i \<and> ct < k_max_component_types \<and>
     components ecs ! ct \<noteq> None \<and> unat (component_type_sizes ecs ! ct) = n"

lemma has_component_slot: "ecs_ok ecs \<Longrightarrow> has_component ecs ref ct i n \<Longrightarrow> i < k_max_entities"
  by (auto simp: has_component_def live_iff names_slot_def)

lemma get_component_pointer:
  assumes ok: "ecs_ok ecs" and has: "has_component ecs ref ct i n"
  obtains off bytes where "ecs_entity_get_component ecs ref (int ct) True = Some (Some (ct, off))"
    and "unat off = n * i" and "components ecs ! ct = Some bytes" and "n * i + n \<le> length bytes"
proof -
  note i = has_component_slot [OF ok has]
  from has obtain bytes where block: "components ecs ! ct = Some bytes"
    by (auto simp: has_component_def)
  have len: "length (components ecs) = k_max_component_types"
      "length (component_type_sizes ecs) = k_max_component_types"
    using ok by (auto simp: ecs_ok_def)
  have "ecs_entity_get_component ecs ref (int ct) True =
      Some (Some (ct, component_type_sizes ecs ! ct * word_of_nat i))"
    using has block len by (simp add: ecs_entity_get_component_def has_component_def live_def)
  moreover have "ct < k_max_component_types" and "unat (component_type_sizes ecs ! ct) = n"
    using has by (simp_all add: has_component_def)
  ultimately show ?thesis
    using component_offset [OF ok _ block i] block that by auto
qed

lemma comp_write_Some:
  assumes ok: "ecs_ok ecs" and "ct < k_max_component_types" and "components ecs ! ct = Some bytes"
    and "unat off + length bs \<le> length bytes"
  obtains bytes' where "wr_bytes bytes (unat off) bs = Some bytes'"
    and "comp_write ecs (ct, off) bs = Some (ecs\<lparr>components := (components ecs)[ct := Some bytes']\<rparr>)"
  using assms that by (auto simp: comp_write_def ecs_ok_def wr_bytes_def)

lemma comp_read_eq:
  assumes "ecs_ok ecs" and "ct < k_max_component_types" and "components ecs ! ct = Some bytes"
  shows "comp_read ecs (ct, off) n = rd_bytes bytes (unat off) n"
  using assms by (simp add: comp_read_def ecs_ok_def)

lemma rd_wr_disjoint_rows:
  assumes "wr_bytes b (n * i) bs = Some b'" and "length bs \<le> n" and "i \<noteq> j" and "k \<le> n"
  shows "rd_bytes b' (n * j) k = rd_bytes b (n * j) k"
proof (cases "j < i")
  case True
  then have "n * Suc j \<le> n * i" by (intro mult_le_mono2) simp
  with assms show ?thesis by (intro rd_wr_before [of b "n * i" bs]) auto
next
  case False
  with assms(3) have "n * Suc i \<le> n * j" by (intro mult_le_mono2) simp
  with assms show ?thesis by (intro rd_wr_after [of b "n * i" bs]) auto
qed

lemma comp_write_ok:
  assumes "ecs_ok ecs" and "comp_write ecs p bs = Some ecs'"
  shows "ecs_ok ecs'" and "live ecs' r = live ecs r"
    and "has_component ecs' r ct i n = has_component ecs r ct i n"
    and "ecs_entity_get_component ecs' r c allow = ecs_entity_get_component ecs r c allow"
proof -
  from assms(2) obtain bytes bytes' where b: "fst p < length (components ecs)"
    "components ecs ! fst p = Some bytes" "wr_bytes bytes (unat (snd p)) bs = Some bytes'"
    and e: "ecs' = ecs\<lparr>components := (components ecs)[fst p := Some bytes']\<rparr>"
    by (auto simp: comp_write_def bind_eq_Some_conv arr_get_Some_iff)
  with assms(1) have "block_ok (Some bytes') (component_type_sizes ecs ! fst p)"
    by (auto simp: ecs_ok_def list_all2_conv_all_nth block_ok_def dest!: wr_bytes_length
        split: option.splits)
  with assms(1) b(1) show "ecs_ok ecs'"
    unfolding e ecs_ok_def
    by (auto simp: list_all2_conv_all_nth nth_list_update)
  have valid: "ecs_is_entity_ref_valid ecs' r a = ecs_is_entity_ref_valid ecs r a" for r a
    by (simp add: e ecs_is_entity_ref_valid_def cong: if_cong)
  then show "live ecs' r = live ecs r" by (simp add: live_def)
  have nulls: "(components ecs' ! c = None) = (components ecs ! c = None)" for c
    using b by (auto simp: e nth_list_update)
  then show "has_component ecs' r ct i n = has_component ecs r ct i n"
    using valid by (simp add: has_component_def live_def) (simp add: e)
  have "(arr_get (components ecs') k = None) = (arr_get (components ecs) k = None)" for k
    by (auto simp: arr_get_def e)
  with valid nulls show "ecs_entity_get_component ecs' r c allow = ecs_entity_get_component ecs r c allow"
    by (auto simp: ecs_entity_get_component_def arr_get_def e intro!: Option.bind_cong)
qed

section \<open>The life of an entity\<close>

lemma in_query_all:
  "int i \<in> set (ecs_query_all ecs m) \<longleftrightarrow> i < k_max_entities \<and> query_match ecs m i"
  by (auto simp: ecs_query_all_eq)

lemma query_slot:
  assumes "ecs_ok ecs" and "names_slot ecs ref i"
  shows "entity ref \<in> set (ecs_query_all ecs m) \<longleftrightarrow>
    component_masks ecs ! i AND m = m \<and> spawned ecs ref"
  using assms by (auto simp: in_query_all query_match_def spawned_iff names_slot_def)

lemma spawn_pending:
  assumes inv: "ecs_inv ecs" and budget: "0 < spawn_budget ecs"
    and add: "ecs_entity_add ecs m = (ref, ecs')" and ref: "0 \<le> entity ref"
  obtains i where "names_slot ecs' ref i" and "entity_states ecs' ! i = k_entity_pending_add"
    and "component_masks ecs' ! i = m"
proof -
  have ok: "ecs_ok ecs" by (rule ecs_inv_ok [OF inv])
  from add ref show ?thesis
    by (cases rule: ecs_entity_add_cases [of ecs m]) (use ok that in \<open>auto simp: names_slot_def ecs_ok_def\<close>)
qed

lemma names_slot_update [simp]:
  "ecs_ok ecs \<Longrightarrow> names_slot (ecs_update ecs) ref i = names_slot ecs ref i"
  by (simp add: ecs_update_eq names_slot_def)

lemma ecs_update_masks [simp]: "component_masks (ecs_update ecs) = component_masks ecs"
  by (simp add: ecs_update_def)

lemma update_slot_state:
  "ecs_ok ecs \<Longrightarrow> i < k_max_entities \<Longrightarrow>
   entity_states (ecs_update ecs) ! i = update_state (entity_states ecs ! i)"
  by (simp add: ecs_update_eq ecs_ok_def)

lemma names_slot_lt: "names_slot ecs ref i \<Longrightarrow> i < k_max_entities"
  by (simp add: names_slot_def)

lemma spawned_slot:
  "ecs_ok ecs \<Longrightarrow> names_slot ecs ref i \<Longrightarrow>
   spawned ecs ref \<longleftrightarrow> entity_states ecs ! i \<in> {k_entity_active, k_entity_pending_remove}"
  and live_slot:
  "ecs_ok ecs \<Longrightarrow> names_slot ecs ref i \<Longrightarrow> live ecs ref \<longleftrightarrow> entity_states ecs ! i \<noteq> k_entity_unused"
  by (auto simp: spawned_iff live_iff names_slot_def)

lemma remove_slot:
  assumes ok: "ecs_ok ecs" and slot: "names_slot ecs ref i" and state: "entity_states ecs ! i \<noteq> k_entity_unused"
    and allow: "allow \<or> entity_states ecs ! i \<noteq> k_entity_pending_add"
  obtains ecs' where "ecs_entity_remove ecs ref allow = Some ecs'" and "ecs_ok ecs'"
    and "names_slot ecs' ref i" and "entity_states ecs' ! i = k_entity_pending_remove"
    and "component_masks ecs' = component_masks ecs"
proof -
  have range: "ref_in_range ref" using slot by (simp add: names_slot_def ref_in_range_def)
  have "k_entity_active \<le> entity_states ecs ! i" if "\<not> allow"
    using that state allow by (cases "entity_states ecs ! i") auto
  with valid_defined [OF ok range, of allow] slot state
  have "ecs_is_entity_ref_valid ecs ref allow = Some True"
    by (cases allow) auto
  with ecs_entity_remove_eq [OF ok range, of allow] slot obtain ecs' where
    rem: "ecs_entity_remove ecs ref allow = Some ecs'" and
    e: "ecs' = ecs\<lparr>entity_states := (entity_states ecs)[i := k_entity_pending_remove]\<rparr>"
    by (auto simp: names_slot_def)
  moreover have "length (entity_states ecs) = k_max_entities" using ok by (simp add: ecs_ok_def)
  ultimately show ?thesis
    using that [OF rem ecs_entity_remove_ok [OF ok rem]] slot by (simp add: names_slot_def)
qed

section \<open>A sample world\<close>

definition new_world :: ecs_t where
  "new_world = the (ecs_create True)"

definition world_ops :: "(ecs_entity_ref_t, u64) entity_op list" where
  "world_ops = [Spawn 5, Frame, Despawn \<lparr>entity = 0, sequence = 1\<rparr> True, Frame, Spawn 6]"

lemma new_world_inv: "ecs_inv new_world"
  by (rule ecs_create_inv) (simp add: new_world_def ecs_create_def)

lemma ecs_entity_add_first:
  "entity_states ecs ! 0 = k_entity_unused \<Longrightarrow>
   ecs_entity_add ecs m =
     (\<lparr>entity = 0, sequence = global_sequence ecs\<rparr>,
      ecs\<lparr>entity_states := (entity_states ecs)[0 := k_entity_pending_add],
        sequences := (sequences ecs)[0 := global_sequence ecs],
        global_sequence := global_sequence ecs + 1,
        component_masks := (component_masks ecs)[0 := m]\<rparr>)"
  by (simp add: ecs_entity_add_def scan_hit)

lemma world_ops_run:
  "\<exists>ecs'. ops_run ecs_entity_add ecs_entity_remove ecs_update is_null_ref new_world world_ops =
     Some ([\<lparr>entity = 0, sequence = 1\<rparr>, \<lparr>entity = 0, sequence = 2\<rparr>], ecs')"
  by (simp add: world_ops_def new_world_def ecs_create_def ecs_entity_add_first is_null_ref_def
      ecs_update_def fold_update_map ecs_entity_remove_def ecs_is_entity_ref_valid_def map_update)

lemma new_world_budget: "0 < spawn_budget new_world"
  by (simp add: new_world_def ecs_create_def spawn_budget_def)

definition one_entity :: ecs_t where
  "one_entity = snd (ecs_entity_add new_world 5)"

lemma one_entity_add: "ecs_entity_add new_world 5 = (\<lparr>entity = 0, sequence = 1\<rparr>, one_entity)"
  by (simp add: one_entity_def new_world_def ecs_create_def ecs_entity_add_first)

lemma one_entity_inv: "ecs_inv one_entity"
  using ecs_entity_add_live(1) [OF new_world_inv new_world_budget one_entity_add] by simp

lemma one_entity_query: "filter (query_match (ecs_update one_entity) 4) [0..<512] = [0]"
proof -
  have "query_match (ecs_update one_entity) 4 i \<longleftrightarrow> i = 0" if "i < 512" for i
    using that ecs_inv_ok [OF one_entity_inv]
    by (simp add: query_match_def ecs_update_eq ecs_ok_def)
      (simp add: one_entity_def new_world_def ecs_create_def ecs_entity_add_first nth_list_update)
  then have "filter (query_match (ecs_update one_entity) 4) [0..<512] = filter (\<lambda>i. i = 0) [0..<512]"
    by (intro filter_cong) auto
  also have "\<dots> = [0]"
    using upt_conv_Cons [of 0 512] by (simp add: filter_empty_conv)
  finally show ?thesis .
qed

definition one_component :: ecs_t where
  "one_component = registered one_entity 0 ''transform'' 16 (replicate 8192 0)"

lemma zeroed_alloc_register:
  "ecs_register_component_type one_entity ''transform'' 13 8 (\<lambda>n a. Some (replicate (unat n) 0)) =
     Some (0, one_component)"
proof -
  have "align_size 13 8 = 16" by (simp add: align_size_def)
  moreover have "components one_entity ! 0 = None"
    by (simp add: one_entity_def new_world_def ecs_create_def ecs_entity_add_first)
  ultimately show ?thesis
    by (simp add: ecs_register_component_type_def scan_hit memset0_def one_component_def registered_def)
qed

lemma one_component_ok: "ecs_ok one_component"
proof -
  have "block_ok (Some (replicate 8192 0)) 16" by (simp add: block_ok_def)
  then show ?thesis
    using ecs_inv_ok [OF one_entity_inv]
    by (auto simp: ecs_ok_def one_component_def registered_def intro: list_all2_update_cong)
qed

lemma one_component_has: "has_component one_component \<lparr>entity = 0, sequence = 1\<rparr> 0 0 16"
proof -
  have "live one_entity \<lparr>entity = 0, sequence = 1\<rparr>"
    using ecs_entity_add_live(5) [OF new_world_inv new_world_budget one_entity_add] by simp
  then show ?thesis
    using ecs_inv_ok [OF one_entity_inv]
    by (simp add: has_component_def one_component_def registered_def live_def ecs_ok_def
        ecs_is_entity_ref_valid_def cong: if_cong)
qed

section \<open>Properties\<close>

text \<open>C4. A reference that was issued and is no longer live stays dead, and every reference the
  store returns is new, through any sequence of spawns, despawns and frame updates, until the
  32 bit sequence counter has been used up.\<close>

theorem ecs_stale_refs_stay_dead:
  assumes "ecs_inv ecs" and "spawns ops \<le> spawn_budget ecs"
    and "ops_run ecs_entity_add ecs_entity_remove ecs_update is_null_ref ecs ops = Some (refs, ecs')"
  shows "ecs_inv ecs' \<and> distinct refs \<and> (\<forall>ref \<in> set refs. \<not> issued ecs ref) \<and>
    (\<forall>ref. issued ecs ref \<longrightarrow> \<not> live ecs ref \<longrightarrow> \<not> live ecs' ref)"
  using store.fresh_handles [OF assms] store.stale_stays_dead [OF assms] by blast+

theorem ecs_stale_refs_stay_dead_witness:
  "\<exists>ecs'. ops_run ecs_entity_add ecs_entity_remove ecs_update is_null_ref new_world world_ops =
       Some ([\<lparr>entity = 0, sequence = 1\<rparr>, \<lparr>entity = 0, sequence = 2\<rparr>], ecs') \<and>
     ecs_inv ecs' \<and> \<not> live ecs' \<lparr>entity = 0, sequence = 0\<rparr>"
proof -
  obtain ecs' where run: "ops_run ecs_entity_add ecs_entity_remove ecs_update is_null_ref
      new_world world_ops = Some ([\<lparr>entity = 0, sequence = 1\<rparr>, \<lparr>entity = 0, sequence = 2\<rparr>], ecs')"
    using world_ops_run by blast
  have "issued new_world \<lparr>entity = 0, sequence = 0\<rparr>"
    and "\<not> live new_world \<lparr>entity = 0, sequence = 0\<rparr>"
    and "spawns world_ops \<le> spawn_budget new_world"
    using zero_ref_dead [OF new_world_inv]
    by (simp_all add: issued_def new_world_def ecs_create_def spawn_budget_def world_ops_def)
  with run ecs_stale_refs_stay_dead [OF new_world_inv _ run] show ?thesis by simp
qed

text \<open>C6. The life cycle of an entity: pending and invisible to every query until the next frame
  update, then spawned and visible to the queries its mask satisfies; after its removal still
  visible until the next update, and dead from then on.\<close>

theorem ecs_entity_life_cycle:
  assumes inv: "ecs_inv ecs" and budget: "0 < spawn_budget ecs"
    and add: "ecs_entity_add ecs m = (ref, e1)" and ref: "0 \<le> entity ref"
  shows "\<not> live ecs ref \<and> live e1 ref \<and> \<not> spawned e1 ref \<and>
      entity ref \<notin> set (ecs_query_all e1 q)
    \<and> spawned (ecs_update e1) ref \<and>
      (entity ref \<in> set (ecs_query_all (ecs_update e1) q) \<longleftrightarrow> m AND q = q)
    \<and> (\<exists>e2. ecs_entity_remove (ecs_update e1) ref False = Some e2 \<and> spawned e2 ref \<and>
      (entity ref \<in> set (ecs_query_all e2 q) \<longleftrightarrow> m AND q = q) \<and>
      \<not> live (ecs_update e2) ref \<and> entity ref \<notin> set (ecs_query_all (ecs_update e2) q))"
proof -
  note add_live = ecs_entity_add_live [OF inv budget add ref]
  have fresh: "\<not> live ecs ref" using add_live(3) live_issued [OF inv] by blast
  have ok1: "ecs_ok e1" by (rule ecs_inv_ok [OF add_live(1)])
  have ok2: "ecs_ok (ecs_update e1)" by (rule ecs_update_ok [OF ok1])
  obtain i where i: "names_slot e1 ref i" "entity_states e1 ! i = k_entity_pending_add"
    "component_masks e1 ! i = m" using spawn_pending [OF inv budget add ref] .
  have i2: "names_slot (ecs_update e1) ref i" "entity_states (ecs_update e1) ! i = k_entity_active"
    using i names_slot_lt [OF i(1)] by (simp_all add: ok1 update_slot_state)
  obtain e2 where rem: "ecs_entity_remove (ecs_update e1) ref False = Some e2" and ok3: "ecs_ok e2"
    and i3: "names_slot e2 ref i" "entity_states e2 ! i = k_entity_pending_remove"
      "component_masks e2 = component_masks (ecs_update e1)"
    using i2 by (elim remove_slot [OF ok2, of ref i False]) auto
  have i4: "entity_states (ecs_update e2) ! i = k_entity_unused"
    using i3 names_slot_lt [OF i3(1)] by (simp add: ok3 update_slot_state)
  have ok4: "ecs_ok (ecs_update e2)" by (rule ecs_update_ok [OF ok3])
  have dead: "\<not> live (ecs_update e2) ref" "\<not> spawned (ecs_update e2) ref"
    using i3(1) i4 ok3 by (simp_all add: live_slot [OF ok4, of ref i] spawned_slot [OF ok4, of ref i])
  show ?thesis
    using fresh rem dead i i2 i3 ok1 ok3
    by (simp add: live_slot [OF ok1] spawned_slot [OF ok1] spawned_slot [OF ok2] spawned_slot [OF ok3]
        query_slot [OF ok1] query_slot [OF ok2] query_slot [OF ok3] query_slot [OF ok4, of ref i])
qed

theorem ecs_entity_life_cycle_witness:
  "live one_entity \<lparr>entity = 0, sequence = 1\<rparr> \<and> \<not> spawned one_entity \<lparr>entity = 0, sequence = 1\<rparr> \<and>
   spawned (ecs_update one_entity) \<lparr>entity = 0, sequence = 1\<rparr> \<and>
   0 \<in> set (ecs_query_all (ecs_update one_entity) 4)"
  using ecs_entity_life_cycle [OF new_world_inv new_world_budget one_entity_add, of 4] by simp

text \<open>An entity that is removed before its first update becomes visible to queries and valid
  without \<open>allow_pending_add\<close> for the rest of the frame, although it was never activated.\<close>

theorem ecs_cancelled_spawn_is_visible:
  assumes inv: "ecs_inv ecs" and budget: "0 < spawn_budget ecs"
    and add: "ecs_entity_add ecs m = (ref, e1)" and ref: "0 \<le> entity ref"
    and rem: "ecs_entity_remove e1 ref True = Some e2"
  shows "\<not> spawned e1 ref \<and> spawned e2 ref \<and> entity ref \<in> set (ecs_query_all e2 m)"
proof -
  have ok1: "ecs_ok e1" by (rule ecs_inv_ok [OF ecs_entity_add_live(1) [OF inv budget add ref]])
  obtain i where i: "names_slot e1 ref i" "entity_states e1 ! i = k_entity_pending_add"
    "component_masks e1 ! i = m" using spawn_pending [OF inv budget add ref] .
  with rem obtain ok2: "ecs_ok e2" and i2: "names_slot e2 ref i"
    "entity_states e2 ! i = k_entity_pending_remove" "component_masks e2 ! i = m"
    by (elim remove_slot [OF ok1, of ref i True]) auto
  show ?thesis
    using i i2 by (simp_all add: spawned_slot [OF ok1, of ref i] spawned_slot [OF ok2, of ref i]
        query_slot [OF ok2, of ref i])
qed

theorem ecs_cancelled_spawn_is_visible_witness:
  "\<exists>e2. ecs_entity_remove one_entity \<lparr>entity = 0, sequence = 1\<rparr> True = Some e2 \<and>
     spawned e2 \<lparr>entity = 0, sequence = 1\<rparr> \<and> 0 \<in> set (ecs_query_all e2 5)"
proof -
  obtain e2 where rem: "ecs_entity_remove one_entity \<lparr>entity = 0, sequence = 1\<rparr> True = Some e2"
    using ecs_entity_remove_eq [OF ecs_inv_ok [OF one_entity_inv], of "\<lparr>entity = 0, sequence = 1\<rparr>"]
    by (auto simp: ref_in_range_def)
  with ecs_cancelled_spawn_is_visible [OF new_world_inv new_world_budget one_entity_add _ rem]
  show ?thesis by simp
qed

text \<open>C7. The loop over a query visits exactly the slots whose mask contains the query's mask and
  whose entity is spawned, each once and in increasing order, and the reference it yields for
  each is valid.\<close>

theorem ecs_query_visits_matches:
  assumes "ecs_ok ecs"
  shows "ecs_query_all ecs m = map int (filter (query_match ecs m) [0..<512]) \<and>
    (\<forall>e \<in> set (ecs_query_all ecs m). \<exists>ref.
      ecs_query_get_entity ecs \<lparr>component_mask = m, query_entity = e\<rparr> = Some ref \<and>
      entity ref = e \<and> spawned ecs ref)"
  using assms
  by (auto simp: ecs_query_all_eq ecs_query_get_entity_def spawned_iff names_slot_def
      query_match_def ecs_ok_def)

theorem ecs_query_visits_matches_witness:
  "ecs_query_all (ecs_update one_entity) 4 = [0] \<and>
   (\<exists>ref. ecs_query_get_entity (ecs_update one_entity) \<lparr>component_mask = 4, query_entity = 0\<rparr> = Some ref \<and>
      spawned (ecs_update one_entity) ref)"
  using ecs_query_visits_matches [OF ecs_update_ok [OF ecs_inv_ok [OF one_entity_inv]], of 4]
  by (auto simp: one_entity_query)



text \<open>Registering a component type takes the first free of the 64 types, rounds the size up to
  the alignment, and gives every slot a zeroed component; the other types are untouched.\<close>

theorem ecs_register_first_free:
  assumes ok: "ecs_ok ecs" and k: "k < 64" and small: "(unat sz + 2 ^ k) * 512 < 2 ^ 64"
    and alloc: "\<And>n a block. alloc n a = Some block \<Longrightarrow> length block = unat n"
    and reg: "ecs_register_component_type ecs name sz (2 ^ k) alloc = Some (ct, ecs')"
    and ct: "0 \<le> ct"
  shows "ecs_ok ecs' \<and> (\<exists>i n. ct = int i \<and> i < 64 \<and> components ecs ! i = None \<and>
    (\<forall>j < i. components ecs ! j \<noteq> None) \<and>
    n = unat (component_type_sizes ecs' ! i) \<and> 2 ^ k dvd n \<and> unat sz \<le> n \<and> n < unat sz + 2 ^ k \<and>
    components ecs' ! i = Some (replicate (n * 512) 0) \<and>
    (\<forall>j. j \<noteq> i \<longrightarrow> components ecs' ! j = components ecs ! j \<and>
       component_type_sizes ecs' ! j = component_type_sizes ecs ! j))"
proof -
  have sum: "unat sz + (2 ^ k - 1) < 2 ^ 64" using small by simp
  let ?n = "unat (align_size sz (2 ^ k))"
  have n: "2 ^ k dvd ?n" "unat sz \<le> ?n" "?n < unat sz + 2 ^ k"
    by (rule align_size_bounds [OF k sum])+
  then have fits: "?n * 512 < 2 ^ 64" using small by simp
  then have bytes: "unat (align_size sz (2 ^ k) * word_of_nat k_max_entities) = ?n * k_max_entities"
    by (simp add: unat_word_ariths)
  from reg show ?thesis
  proof (cases rule: ecs_register_cases)
    case full
    with ct show ?thesis by simp
  next
    case (new i m block)
    with alloc bytes have "length block = ?n * 512" "m = ?n * 512" by auto
    moreover have "ecs_ok ecs'"
      using ecs_register_ok [OF ok alloc _ reg] fits by simp
    moreover have "i < length (components ecs)" "i < length (component_type_sizes ecs)"
      using new(1) ok by (auto simp: ecs_ok_def scan_Some_iff)
    ultimately show ?thesis
      using new(1,6,7) n by (auto simp: scan_Some_iff registered_def)
  qed
qed

theorem ecs_register_first_free_witness:
  "ecs_ok one_component \<and> components one_component ! 0 = Some (replicate 8192 0)"
  using ecs_register_first_free [OF ecs_inv_ok [OF one_entity_inv], of 3 13
      "\<lambda>n a. Some (replicate (unat n) 0)" "''transform''" 0 one_component]
    zeroed_alloc_register
  by (auto simp: one_component_def registered_def)

end
