(* ===== verification/Wav.thy ===== *)
theory Wav
  imports Milyra_Base
begin

text \<open>
  The WAV parser of \<^verbatim>\<open>wav_parse.c\<close>.  The struct \<^verbatim>\<open>WAVHeader\<close> has no padding, and the parser
  writes one byte past most of its 4 byte strings, so it is modelled as its 44 byte image; the
  fields are read from the image (\<open>hdr_u32\<close>, \<open>hdr_u16\<close>, \<open>hdr_tag\<close>).  The file is the list of
  its bytes, a pointer into it an index, and reading past its end is undefined (\<open>None\<close>): the
  parser is given no length.
\<close>

section \<open>The parser\<close>

record WAVFile_t =
  wav_header :: "u8 list"
  wav_data :: nat
  wav_data_length :: u32

definition little2big_u32 :: "u8 list \<Rightarrow> nat \<Rightarrow> u32 option" where
  "little2big_u32 buf p = map_option le32_word (rd_bytes buf p 4)"

definition little2big_u16 :: "u8 list \<Rightarrow> nat \<Rightarrow> u16 option" where
  "little2big_u16 buf p =
     map_option (\<lambda>bs. ucast (bs ! 0) OR push_bit 8 (ucast (bs ! 1))) (rd_bytes buf p 2)"

definition le16_bytes :: "u16 \<Rightarrow> u8 list" where
  "le16_bytes w = [ucast w, ucast (drop_bit 8 w)]"

text \<open>\<open>destination\<close> is an offset of the header image.\<close>

definition bytes_to_string ::
  "u8 list \<Rightarrow> nat \<Rightarrow> u8 list \<Rightarrow> nat \<Rightarrow> nat \<Rightarrow> u8 list option" where
  "bytes_to_string buf source hdr destination amount = do {
     bs \<leftarrow> rd_bytes buf source amount;
     hdr \<leftarrow> wr_bytes hdr destination bs;
     wr_bytes hdr (destination + amount) [0]
   }"

definition put_u32 :: "u8 list \<Rightarrow> nat \<Rightarrow> u8 list \<Rightarrow> nat \<Rightarrow> u8 list option" where
  "put_u32 buf p hdr off = do {
     v \<leftarrow> little2big_u32 buf p;
     wr_bytes hdr off (le32_bytes v)
   }"

definition put_u16 :: "u8 list \<Rightarrow> nat \<Rightarrow> u8 list \<Rightarrow> nat \<Rightarrow> u8 list option" where
  "put_u16 buf p hdr off = do {
     v \<leftarrow> little2big_u16 buf p;
     wr_bytes hdr off (le16_bytes v)
   }"

text \<open>The condition of the search loop; \<open>&&\<close> reads a byte only if the ones before it match.\<close>

definition at_data_tag :: "u8 list \<Rightarrow> nat \<Rightarrow> bool option" where
  "at_data_tag buf p = do {
     c0 \<leftarrow> arr_get buf p;
     if c0 \<noteq> 100 then Some False else do {
       c1 \<leftarrow> arr_get buf (p + 1);
       if c1 \<noteq> 97 then Some False else do {
         c2 \<leftarrow> arr_get buf (p + 2);
         if c2 \<noteq> 116 then Some False else do {
           c3 \<leftarrow> arr_get buf (p + 3);
           Some (c3 = 97)
         }
       }
     }
   }"

function find_data :: "u8 list \<Rightarrow> nat \<Rightarrow> nat option" where
  "find_data buf p =
     (case at_data_tag buf p of
        None \<Rightarrow> None
      | Some True \<Rightarrow> Some p
      | Some False \<Rightarrow> find_data buf (p + 1))"
  by pat_completeness auto
termination
  by (relation "measure (\<lambda>(buf, p). length buf - p)")
    (auto simp: at_data_tag_def bind_eq_Some_conv arr_get_Some_iff)

declare find_data.simps [simp del]

text \<open>\<open>garbage\<close> is the uninitialised header of the local variable \<^verbatim>\<open>file\<close>.\<close>

definition WAV_ParseFileData :: "u8 list \<Rightarrow> u8 list \<Rightarrow> WAVFile_t option" where
  "WAV_ParseFileData garbage data = do {
     hdr \<leftarrow> bytes_to_string data 0 garbage 0 4;
     hdr \<leftarrow> put_u32 data 4 hdr 4;
     hdr \<leftarrow> bytes_to_string data 8 hdr 8 4;
     hdr \<leftarrow> bytes_to_string data 12 hdr 12 4;
     hdr \<leftarrow> put_u32 data 16 hdr 16;
     hdr \<leftarrow> put_u16 data 20 hdr 20;
     hdr \<leftarrow> put_u16 data 22 hdr 22;
     hdr \<leftarrow> put_u32 data 24 hdr 24;
     hdr \<leftarrow> put_u32 data 28 hdr 28;
     hdr \<leftarrow> put_u16 data 32 hdr 32;
     hdr \<leftarrow> put_u16 data 34 hdr 34;
     p \<leftarrow> find_data data 36;
     hdr \<leftarrow> bytes_to_string data p hdr 36 4;
     hdr \<leftarrow> put_u32 data (p + 4) hdr 40;
     size \<leftarrow> little2big_u32 hdr 40;
     Some \<lparr>wav_header = hdr, wav_data = p + 8, wav_data_length = size\<rparr>
   }"

section \<open>Byte order\<close>

lemma le32_bytes_word:
  assumes "length bs = 4"
  shows "le32_bytes (le32_word bs) = bs"
proof -
  from assms obtain a b c d where bs: "bs = [a, b, c, d]"
    by (auto simp: length_Suc_conv eval_nat_numeral)
  have "ucast (ucast a OR push_bit 8 (ucast b) OR push_bit 16 (ucast c) OR push_bit 24 (ucast d) :: u32) = a"
    "ucast (drop_bit 8 (ucast a OR push_bit 8 (ucast b) OR push_bit 16 (ucast c) OR push_bit 24 (ucast d) :: u32)) = b"
    "ucast (drop_bit 16 (ucast a OR push_bit 8 (ucast b) OR push_bit 16 (ucast c) OR push_bit 24 (ucast d) :: u32)) = c"
    "ucast (drop_bit 24 (ucast a OR push_bit 8 (ucast b) OR push_bit 16 (ucast c) OR push_bit 24 (ucast d) :: u32)) = d"
    by (rule bit_word_eqI, auto simp: bit_simps dest: bit_imp_le_length)+
  then show ?thesis by (simp add: bs le32_bytes_def le32_word_def)
qed

lemma le16_bytes_word:
  assumes "length bs = 2"
  shows "le16_bytes (ucast (bs ! 0) OR push_bit 8 (ucast (bs ! 1))) = bs"
proof -
  from assms obtain a b where bs: "bs = [a, b]"
    by (auto simp: length_Suc_conv eval_nat_numeral)
  have "ucast (ucast a OR push_bit 8 (ucast b) :: u16) = a"
    "ucast (drop_bit 8 (ucast a OR push_bit 8 (ucast b) :: u16)) = b"
    by (rule bit_word_eqI, auto simp: bit_simps dest: bit_imp_le_length)+
  then show ?thesis by (simp add: bs le16_bytes_def)
qed

lemma put_u32_copy:
  "put_u32 buf p hdr off = do { bs \<leftarrow> rd_bytes buf p 4; wr_bytes hdr off bs }"
  by (auto simp: put_u32_def little2big_u32_def rd_bytes_def le32_bytes_word)

lemma put_u16_copy:
  "put_u16 buf p hdr off = do { bs \<leftarrow> rd_bytes buf p 2; wr_bytes hdr off bs }"
  using le16_bytes_word [of "take 2 (drop p buf)"]
  by (auto simp: put_u16_def little2big_u16_def rd_bytes_def)

section \<open>Searching the data chunk\<close>

definition data_tag :: "u8 list" where
  "data_tag = [100, 97, 116, 97]"

text \<open>Every operation of the parser is a copy of bytes into the image.\<close>

lemma at_data_tag_True:
  "at_data_tag buf p = Some True \<longleftrightarrow> rd_bytes buf p 4 = Some data_tag"
proof -
  have "take 4 (drop p buf) = [buf ! p, buf ! (p + 1), buf ! (p + 2), buf ! (p + 3)]"
    if "p + 4 \<le> length buf"
    using that by (intro nth_equalityI) (auto simp: less_Suc_eq eval_nat_numeral)
  then show ?thesis
    by (auto simp: at_data_tag_def rd_bytes_def data_tag_def bind_eq_Some_conv arr_get_Some_iff
        split: if_splits)
qed

lemma at_data_tag_cases:
  assumes "p + 4 \<le> length buf"
  shows "at_data_tag buf p = Some (rd_bytes buf p 4 = Some data_tag)"
proof -
  have "\<exists>b. at_data_tag buf p = Some b"
    using assms by (auto simp: at_data_tag_def)
  with at_data_tag_True [of buf p] show ?thesis by fastforce
qed

lemma find_data_Some_iff:
  "find_data buf p = Some q \<longleftrightarrow>
     p \<le> q \<and> rd_bytes buf q 4 = Some data_tag \<and>
     (\<forall>r. p \<le> r \<longrightarrow> r < q \<longrightarrow> rd_bytes buf r 4 \<noteq> Some data_tag)"
proof (induction buf p rule: find_data.induct)
  case (1 buf p)
  show ?case
  proof (cases "at_data_tag buf p")
    case None
    have "length buf < p + 4"
      using None at_data_tag_cases [of p buf] by (cases "p + 4 \<le> length buf") auto
    then have "rd_bytes buf q 4 = None" if "p \<le> q" for q
      using that by (simp add: rd_bytes_def)
    with None show ?thesis by (auto simp: find_data.simps [of buf p])
  next
    case (Some b)
    show ?thesis
    proof (cases b)
      case True
      with Some have "rd_bytes buf p 4 = Some data_tag" by (simp add: at_data_tag_True)
      with Some True show ?thesis
        by (auto simp: find_data.simps [of buf p] dest: le_neq_implies_less)
    next
      case False
      with Some have no: "rd_bytes buf p 4 \<noteq> Some data_tag"
        using at_data_tag_True [of buf p] by auto
      have "find_data buf p = find_data buf (p + 1)"
        using Some False by (simp add: find_data.simps [of buf p])
      moreover have "p \<le> r \<longleftrightarrow> r = p \<or> p + 1 \<le> r" for r by auto
      ultimately show ?thesis
        using "1" [OF Some] False no by auto
    qed
  qed
qed

section \<open>The header image\<close>

text \<open>The struct, and the image the compiler gives it.\<close>

record WAVHeader =
  file_id :: "u8 list"
  file_size :: u32
  wav_format :: "u8 list"
  subchunk_id :: "u8 list"
  subchunk_size :: u32
  audio_format :: u16
  number_of_channels :: u16
  sample_rate :: u32
  byte_rate :: u32
  block_align :: u16
  bits_per_sample :: u16
  data_id :: "u8 list"
  data_size :: u32

definition format_image :: "WAVHeader \<Rightarrow> u8 list" where
  "format_image h =
     file_id h @ le32_bytes (file_size h) @ wav_format h @ subchunk_id h @
     le32_bytes (subchunk_size h) @ le16_bytes (audio_format h) @
     le16_bytes (number_of_channels h) @ le32_bytes (sample_rate h) @ le32_bytes (byte_rate h) @
     le16_bytes (block_align h) @ le16_bytes (bits_per_sample h)"

definition header_image :: "WAVHeader \<Rightarrow> u8 list" where
  "header_image h = format_image h @ data_id h @ le32_bytes (data_size h)"

definition header_ok :: "WAVHeader \<Rightarrow> bool" where
  "header_ok h \<longleftrightarrow>
     length (file_id h) = 4 \<and> length (wav_format h) = 4 \<and> length (subchunk_id h) = 4 \<and>
     data_id h = data_tag"

lemma le16_bytes_length [simp]: "length (le16_bytes w) = 2"
  by (simp add: le16_bytes_def)

lemma format_image_length: "header_ok h \<Longrightarrow> length (format_image h) = 36"
  by (simp add: format_image_def header_ok_def)

text \<open>Each write extends the prefix of the image that is already right.\<close>

lemma copy_step:
  assumes "p + n \<le> length buf" and "off + n \<le> length hdr"
  obtains hdr' where "do { bs \<leftarrow> rd_bytes buf p n; wr_bytes hdr off bs } = Some hdr'"
    and "length hdr' = length hdr" and "take (off + n) hdr' = take off hdr @ take n (drop p buf)"
  using assms that by (simp add: rd_bytes_def wr_bytes_def)

lemma string_step:
  assumes "p + n \<le> length buf" and "off + n < length hdr"
  obtains hdr' where "bytes_to_string buf p hdr off n = Some hdr'"
    and "length hdr' = length hdr" and "take (off + n) hdr' = take off hdr @ take n (drop p buf)"
  using assms that by (simp add: bytes_to_string_def rd_bytes_def wr_bytes_def)

lemma take_more: "take k hdr = take k buf \<Longrightarrow>
  take (k + n) hdr' = take k hdr @ take n (drop k buf) \<Longrightarrow> take (k + n) hdr' = take (k + n) buf"
  by (simp add: take_add)

lemma u32_field:
  assumes "k + 4 \<le> length buf" and "length hdr = 44" and "k + 4 \<le> 44" and "take k hdr = take k buf"
  obtains hdr' where "put_u32 buf k hdr k = Some hdr'" and "length hdr' = 44"
    and "take (k + 4) hdr' = take (k + 4) buf"
  using copy_step [of k 4 buf k hdr] assms take_more [of k hdr buf 4] unfolding put_u32_copy by metis

lemma u16_field:
  assumes "k + 2 \<le> length buf" and "length hdr = 44" and "k + 2 \<le> 44" and "take k hdr = take k buf"
  obtains hdr' where "put_u16 buf k hdr k = Some hdr'" and "length hdr' = 44"
    and "take (k + 2) hdr' = take (k + 2) buf"
  using copy_step [of k 2 buf k hdr] assms take_more [of k hdr buf 2] unfolding put_u16_copy by metis

lemma string_field:
  assumes "k + 4 \<le> length buf" and "length hdr = 44" and "k + 4 < 44" and "take k hdr = take k buf"
  obtains hdr' where "bytes_to_string buf k hdr k 4 = Some hdr'" and "length hdr' = 44"
    and "take (k + 4) hdr' = take (k + 4) buf"
  using string_step [of k 4 buf k hdr] assms take_more [of k hdr buf 4] by metis

lemma parse_format:
  assumes g: "length garbage = 44" and n: "36 \<le> length buf"
  obtains hdr where "length hdr = 44" and "take 36 hdr = take 36 buf"
    and "WAV_ParseFileData garbage buf = do {
      p \<leftarrow> find_data buf 36;
      hdr \<leftarrow> bytes_to_string buf p hdr 36 4;
      hdr \<leftarrow> put_u32 buf (p + 4) hdr 40;
      size \<leftarrow> little2big_u32 hdr 40;
      Some \<lparr>wav_header = hdr, wav_data = p + 8, wav_data_length = size\<rparr>
    }"
proof -
  obtain h1 where h1: "bytes_to_string buf 0 garbage 0 4 = Some h1" "length h1 = 44" "take 4 h1 = take 4 buf"
    using string_field [of 0 buf garbage] g n by auto
  obtain h2 where h2: "put_u32 buf 4 h1 4 = Some h2" "length h2 = 44" "take 8 h2 = take 8 buf"
    using u32_field [of 4 buf h1] h1 n by auto
  obtain h3 where h3: "bytes_to_string buf 8 h2 8 4 = Some h3" "length h3 = 44" "take 12 h3 = take 12 buf"
    using string_field [of 8 buf h2] h2 n by auto
  obtain h4 where h4: "bytes_to_string buf 12 h3 12 4 = Some h4" "length h4 = 44" "take 16 h4 = take 16 buf"
    using string_field [of 12 buf h3] h3 n by auto
  obtain h5 where h5: "put_u32 buf 16 h4 16 = Some h5" "length h5 = 44" "take 20 h5 = take 20 buf"
    using u32_field [of 16 buf h4] h4 n by auto
  obtain h6 where h6: "put_u16 buf 20 h5 20 = Some h6" "length h6 = 44" "take 22 h6 = take 22 buf"
    using u16_field [of 20 buf h5] h5 n by auto
  obtain h7 where h7: "put_u16 buf 22 h6 22 = Some h7" "length h7 = 44" "take 24 h7 = take 24 buf"
    using u16_field [of 22 buf h6] h6 n by auto
  obtain h8 where h8: "put_u32 buf 24 h7 24 = Some h8" "length h8 = 44" "take 28 h8 = take 28 buf"
    using u32_field [of 24 buf h7] h7 n by auto
  obtain h9 where h9: "put_u32 buf 28 h8 28 = Some h9" "length h9 = 44" "take 32 h9 = take 32 buf"
    using u32_field [of 28 buf h8] h8 n by auto
  obtain h10 where h10: "put_u16 buf 32 h9 32 = Some h10" "length h10 = 44" "take 34 h10 = take 34 buf"
    using u16_field [of 32 buf h9] h9 n by auto
  obtain h11 where h11: "put_u16 buf 34 h10 34 = Some h11" "length h11 = 44" "take 36 h11 = take 36 buf"
    using u16_field [of 34 buf h10] h10 n by auto
  show ?thesis
    by (rule that [of h11]) (simp_all only: h1 h2 h3 h4 h5 h6 h7 h8 h9 h10 h11 WAV_ParseFileData_def bind.bind_lunit)
qed

lemma parse_short: "length buf < 36 \<Longrightarrow> WAV_ParseFileData garbage buf = None"
  by (rule ccontr) (auto simp: WAV_ParseFileData_def put_u16_copy rd_bytes_def bind_eq_Some_conv
      split: if_splits)

lemma rd_bytes_take_drop: "p + n \<le> length buf \<Longrightarrow> rd_bytes buf p n = Some (take n (drop p buf))"
  by (simp add: rd_bytes_def)

section \<open>The result of the parser\<close>

lemma parse_image:
  assumes "length garbage = 44"
  shows "WAV_ParseFileData garbage buf =
    (if length buf < 36 then None
     else case find_data buf 36 of
       None \<Rightarrow> None
     | Some p \<Rightarrow>
         if length buf < p + 8 then None
         else Some \<lparr>wav_header = take 36 buf @ take 8 (drop p buf), wav_data = p + 8,
                    wav_data_length = le32_word (take 4 (drop (p + 4) buf))\<rparr>)"
proof (cases "length buf < 36")
  case True
  then show ?thesis by (simp add: parse_short)
next
  case False
  then obtain hdr where hdr: "length hdr = 44" "take 36 hdr = take 36 buf"
    and eq: "WAV_ParseFileData garbage buf = do {
      p \<leftarrow> find_data buf 36;
      hdr \<leftarrow> bytes_to_string buf p hdr 36 4;
      hdr \<leftarrow> put_u32 buf (p + 4) hdr 40;
      size \<leftarrow> little2big_u32 hdr 40;
      Some \<lparr>wav_header = hdr, wav_data = p + 8, wav_data_length = size\<rparr>
    }" by (elim parse_format [OF assms, of buf, rotated]) simp
  show ?thesis
  proof (cases "find_data buf 36")
    case None
    with False show ?thesis by (simp add: eq)
  next
    case (Some p)
    then have "p + 4 \<le> length buf"
      by (auto simp: find_data_Some_iff rd_bytes_def split: if_splits)
    then obtain h1 where h1: "bytes_to_string buf p hdr 36 4 = Some h1" "length h1 = 44"
        "take 40 h1 = take 36 buf @ take 4 (drop p buf)"
      using string_step [of p 4 buf 36 hdr] hdr by auto
    show ?thesis
    proof (cases "length buf < p + 8")
      case True
      with False Some h1 show ?thesis
        by (simp add: eq put_u32_copy rd_bytes_def)
    next
      case f: False
      then obtain h2 where h2: "put_u32 buf (p + 4) h1 40 = Some h2" "length h2 = 44"
          "take 44 h2 = take 40 h1 @ take 4 (drop (p + 4) buf)"
        using copy_step [of "p + 4" 4 buf 40 h1] h1(2) unfolding put_u32_copy by auto
      have "take 8 (drop p buf) = take 4 (drop p buf) @ take 4 (drop (p + 4) buf)"
        using take_add [of 4 4 "drop p buf"] by (simp add: add.commute)
      with h1 h2 have h: "h2 = take 36 buf @ take 8 (drop p buf)" by simp
      have "take 4 (drop 40 h2) = take 4 (drop (p + 4) buf)"
        using False f unfolding h by (simp add: drop_take add.commute)
      with False f Some h1 h2 h show ?thesis
        by (simp add: eq little2big_u32_def rd_bytes_take_drop)
    qed
  qed
qed

lemma parse_file:
  assumes "length garbage = 44" and "header_ok h"
    and "\<And>r. r < length extra \<Longrightarrow> take 4 (drop r (extra @ data_tag)) \<noteq> data_tag"
  shows "WAV_ParseFileData garbage
      (format_image h @ extra @ data_tag @ le32_bytes (data_size h) @ samples) =
    Some \<lparr>wav_header = header_image h, wav_data = 44 + length extra, wav_data_length = data_size h\<rparr>"
proof -
  let ?buf = "format_image h @ extra @ data_tag @ le32_bytes (data_size h) @ samples"
  let ?p = "36 + length extra"
  note len = format_image_length [OF assms(2)]
  have tag: "length data_tag = 4" by (simp add: data_tag_def)
  have "rd_bytes ?buf ?p 4 = Some data_tag"
    using len tag by (simp add: rd_bytes_def)
  moreover have "rd_bytes ?buf r 4 \<noteq> Some data_tag" if "36 \<le> r" "r < ?p" for r
  proof -
    have "take 4 (drop r ?buf) = take 4 (drop (r - 36) (extra @ data_tag))"
      using that len tag by simp
    with assms(3) [of "r - 36"] that show ?thesis by (auto simp: rd_bytes_def)
  qed
  ultimately have "find_data ?buf 36 = Some ?p"
    by (simp add: find_data_Some_iff)
  then show ?thesis
    using len tag assms(2)
    by (simp add: parse_image [OF assms(1)] header_image_def header_ok_def)
qed

section \<open>Properties\<close>

text \<open>What the parser returns for any input: the 36 bytes of the format part, the first
  "data" tag at offset 36 or later with the four bytes after it, and the samples right after
  them.  The writes past the 4 byte strings leave no trace.  When the file is shorter, or has
  no tag with a size, the parser reads outside it.\<close>

theorem wav_parse_image:
  assumes "length garbage = 44"
  shows "WAV_ParseFileData garbage buf =
    (if length buf < 36 then None
     else case find_data buf 36 of
       None \<Rightarrow> None
     | Some p \<Rightarrow>
         if length buf < p + 8 then None
         else Some \<lparr>wav_header = take 36 buf @ take 8 (drop p buf), wav_data = p + 8,
                    wav_data_length = le32_word (take 4 (drop (p + 4) buf))\<rparr>)"
  by (rule parse_image [OF assms])

definition tiny_header :: WAVHeader where
  "tiny_header = \<lparr>file_id = [82, 73, 70, 70], file_size = 38, wav_format = [87, 65, 86, 69],
     subchunk_id = [102, 109, 116, 32], subchunk_size = 16, audio_format = 1,
     number_of_channels = 2, sample_rate = 44100, byte_rate = 176400, block_align = 4,
     bits_per_sample = 16, data_id = data_tag, data_size = 2\<rparr>"

theorem wav_parse_image_witness:
  "WAV_ParseFileData (replicate 44 7) (format_image tiny_header @ [100, 97, 116]) = None"
  using wav_parse_image [of "replicate 44 7" "format_image tiny_header @ [100, 97, 116]"]
    format_image_length [of tiny_header]
  by (simp add: find_data.simps at_data_tag_def arr_get_def nth_append header_ok_def tiny_header_def)

text \<open>C8. Round trip: a file made of the image of a header, with other chunks between the format
  part and the data chunk as long as "data" does not occur in them, parses to that header, to
  its data size, and to the position of the samples.\<close>

theorem wav_roundtrip:
  assumes "length garbage = 44" and "header_ok h"
    and "\<And>r. r < length extra \<Longrightarrow> take 4 (drop r (extra @ data_tag)) \<noteq> data_tag"
  shows "WAV_ParseFileData garbage
      (format_image h @ extra @ data_tag @ le32_bytes (data_size h) @ samples) =
    Some \<lparr>wav_header = header_image h, wav_data = 44 + length extra, wav_data_length = data_size h\<rparr>"
  by (rule parse_file [OF assms])

theorem wav_roundtrip_witness:
  "WAV_ParseFileData (replicate 44 7) (header_image tiny_header @ [1, 2]) =
     Some \<lparr>wav_header = header_image tiny_header, wav_data = 44, wav_data_length = 2\<rparr>"
  using wav_roundtrip [of "replicate 44 7" tiny_header "[]" "[1, 2]"]
  by (simp add: header_image_def header_ok_def tiny_header_def)

end
