(* ===== verification/Wm.thy ===== *)
theory Wm
  imports Milyra_Base
begin

text \<open>
  The window of \<^verbatim>\<open>wm.c\<close>: the state that the window procedure keeps about keys, mouse and focus,
  and the message pump.  The desktop (cursor and window rectangle) belongs to the Win32 API: it
  is a state \<open>'d\<close> that the window procedure reads and changes through the functions of
  \<open>desktop_api\<close>.
\<close>

section \<open>State and operations\<close>

record wm_window_t =
  quit :: bool
  has_focus :: bool
  mouse_mask :: u32
  key_mask :: u32
  mouse_x :: c_int
  mouse_y :: c_int

record 'd desktop_api =
  GetCursorPos :: "'d \<Rightarrow> c_int \<times> c_int"
  SetCursorPos :: "c_int \<times> c_int \<Rightarrow> 'd \<Rightarrow> 'd"
  GetWindowRect :: "'d \<Rightarrow> (c_int \<times> c_int) \<times> (c_int \<times> c_int)"
  ShowCursor :: "bool \<Rightarrow> 'd \<Rightarrow> 'd"

datatype wm_message =
    WM_KEYDOWN u64
  | WM_KEYUP u64
  | WM_LBUTTONDOWN
  | WM_LBUTTONUP
  | WM_RBUTTONDOWN
  | WM_RBUTTONUP
  | WM_MBUTTONDOWN
  | WM_MBUTTONUP
  | WM_MOUSEMOVE
  | WM_ACTIVATEAPP u64
  | WM_CLOSE
  | WM_OTHER

definition k_mouse_button_left :: u32 where "k_mouse_button_left = push_bit 0 1"
definition k_mouse_button_right :: u32 where "k_mouse_button_right = push_bit 1 1"
definition k_mouse_button_middle :: u32 where "k_mouse_button_middle = push_bit 2 1"

definition k_key_up :: u32 where "k_key_up = push_bit 0 1"
definition k_key_down :: u32 where "k_key_down = push_bit 1 1"
definition k_key_left :: u32 where "k_key_left = push_bit 2 1"
definition k_key_right :: u32 where "k_key_right = push_bit 3 1"

text \<open>Pairs of a virtual key code and the engine's mask: VK_LEFT, VK_RIGHT, VK_UP, VK_DOWN.\<close>

definition k_key_map :: "(u64 \<times> u32) list" where
  "k_key_map = [(0x25, k_key_left), (0x27, k_key_right), (0x26, k_key_up), (0x28, k_key_down)]"

text \<open>The two loops over the key map, each of which stops at the first match.\<close>

fun key_down :: "(u64 \<times> u32) list \<Rightarrow> u64 \<Rightarrow> u32 \<Rightarrow> u32" where
  "key_down [] wParam held_keys = held_keys"
| "key_down ((virtual_key, ga_key) # rest) wParam held_keys =
     (if virtual_key = wParam then held_keys OR ga_key else key_down rest wParam held_keys)"

fun key_up :: "(u64 \<times> u32) list \<Rightarrow> u64 \<Rightarrow> u32 \<Rightarrow> u32" where
  "key_up [] wParam held_keys = held_keys"
| "key_up ((virtual_key, ga_key) # rest) wParam held_keys =
     (if virtual_key = wParam then held_keys AND NOT ga_key else key_up rest wParam held_keys)"

text \<open>C's division by 2 truncates towards zero.\<close>

definition half :: "c_int \<Rightarrow> c_int" where
  "half x = word_of_int (sgn (sint x) * (\<bar>sint x\<bar> div 2))"

definition mouse_move ::
  "'d desktop_api \<Rightarrow> wm_window_t \<Rightarrow> 'd \<Rightarrow> wm_window_t \<times> 'd" where
  "mouse_move A win d =
     (if has_focus win then
        let old_cursor = GetCursorPos A d;
            ((x0, x1), (y0, y1)) = GetWindowRect A d;
            d' = SetCursorPos A (half (x0 + x1), half (y0 + y1)) d;
            new_cursor = GetCursorPos A d'
        in (win\<lparr>mouse_x := fst old_cursor - fst new_cursor,
                mouse_y := snd old_cursor - snd new_cursor\<rparr>, d')
      else (win, d))"

fun window_proc :: "'d desktop_api \<Rightarrow> wm_message \<Rightarrow> wm_window_t \<Rightarrow> 'd \<Rightarrow> wm_window_t \<times> 'd" where
  "window_proc A (WM_KEYDOWN wParam) win d =
     (win\<lparr>key_mask := key_down k_key_map wParam (key_mask win)\<rparr>, d)"
| "window_proc A (WM_KEYUP wParam) win d =
     (win\<lparr>key_mask := key_up k_key_map wParam (key_mask win)\<rparr>, d)"
| "window_proc A WM_LBUTTONDOWN win d =
     (win\<lparr>mouse_mask := mouse_mask win OR k_mouse_button_left\<rparr>, d)"
| "window_proc A WM_LBUTTONUP win d =
     (win\<lparr>mouse_mask := mouse_mask win AND NOT k_mouse_button_left\<rparr>, d)"
| "window_proc A WM_RBUTTONDOWN win d =
     (win\<lparr>mouse_mask := mouse_mask win OR k_mouse_button_right\<rparr>, d)"
| "window_proc A WM_RBUTTONUP win d =
     (win\<lparr>mouse_mask := mouse_mask win AND NOT k_mouse_button_right\<rparr>, d)"
| "window_proc A WM_MBUTTONDOWN win d =
     (win\<lparr>mouse_mask := mouse_mask win OR k_mouse_button_middle\<rparr>, d)"
| "window_proc A WM_MBUTTONUP win d =
     (win\<lparr>mouse_mask := mouse_mask win AND NOT k_mouse_button_middle\<rparr>, d)"
| "window_proc A WM_MOUSEMOVE win d = mouse_move A win d"
| "window_proc A (WM_ACTIVATEAPP wParam) win d =
     (win\<lparr>has_focus := wParam \<noteq> 0\<rparr>, ShowCursor A (wParam = 0) d)"
| "window_proc A WM_CLOSE win d = (win\<lparr>quit := True\<rparr>, d)"
| "window_proc A WM_OTHER win d = (win, d)"

text \<open>\<open>ok\<close>: the system made the window; \<open>garbage\<close> is the memory of the new struct, of which the
  mouse movement is not initialised.\<close>

definition wm_create :: "bool \<Rightarrow> wm_window_t \<Rightarrow> wm_window_t ptr" where
  "wm_create ok garbage =
     (if ok then Some (garbage\<lparr>has_focus := False, key_mask := 0, mouse_mask := 0, quit := False\<rparr>)
      else None)"

text \<open>The messages that are waiting when the pump is called.\<close>

definition pump_messages ::
  "'d desktop_api \<Rightarrow> wm_message list \<Rightarrow> wm_window_t \<Rightarrow> 'd \<Rightarrow> wm_window_t \<times> 'd" where
  "pump_messages A msgs win d = fold (\<lambda>m (win, d). window_proc A m win d) msgs (win, d)"

definition wm_pump ::
  "'d desktop_api \<Rightarrow> wm_message list \<Rightarrow> wm_window_t \<Rightarrow> 'd \<Rightarrow> bool \<times> wm_window_t \<times> 'd" where
  "wm_pump A msgs win d = (let (win', d') = pump_messages A msgs win d in (quit win', win', d'))"

definition wm_get_mouse_mask :: "wm_window_t \<Rightarrow> u32" where
  "wm_get_mouse_mask win = mouse_mask win"

definition wm_get_key_mask :: "wm_window_t \<Rightarrow> u32" where
  "wm_get_key_mask win = key_mask win"

definition wm_get_mouse_move :: "wm_window_t \<Rightarrow> c_int \<times> c_int" where
  "wm_get_mouse_move win = (mouse_x win, mouse_y win)"

section \<open>What is held down\<close>

text \<open>
  The specification: a key is held if the last message about it was a key press.  \<open>keys\<close> gives
  the four keys with their bit, \<open>buttons\<close> the three mouse buttons with their messages.
\<close>

definition keys :: "(u64 \<times> nat) list" where
  "keys = [(0x25, 2), (0x27, 3), (0x26, 0), (0x28, 1)]"

definition buttons :: "((wm_message \<times> wm_message) \<times> nat) list" where
  "buttons = [((WM_LBUTTONDOWN, WM_LBUTTONUP), 0), ((WM_RBUTTONDOWN, WM_RBUTTONUP), 1),
     ((WM_MBUTTONDOWN, WM_MBUTTONUP), 2)]"

definition held :: "wm_message \<Rightarrow> wm_message \<Rightarrow> bool \<Rightarrow> wm_message list \<Rightarrow> bool" where
  "held press release before msgs =
     fold (\<lambda>m down. if m = press then True else if m = release then False else down) msgs before"

lemma held_simps [simp]:
  "held p r b [] = b"
  "held p r b (m # ms) = held p r (if m = p then True else if m = r then False else b) ms"
  by (simp_all add: held_def)

lemma pump_simps [simp]:
  "pump_messages A [] win d = (win, d)"
  "pump_messages A (m # ms) win d =
     (case window_proc A m win d of (win', d') \<Rightarrow> pump_messages A ms win' d')"
  by (simp_all add: pump_messages_def split: prod.split)

lemma mouse_move_masks:
  "key_mask (fst (mouse_move A win d)) = key_mask win"
  "mouse_mask (fst (mouse_move A win d)) = mouse_mask win"
  "quit (fst (mouse_move A win d)) = quit win"
  "has_focus (fst (mouse_move A win d)) = has_focus win"
  by (simp_all add: mouse_move_def Let_def split: prod.split)

lemmas mask_defs = k_key_map_def k_key_up_def k_key_down_def k_key_left_def k_key_right_def
  k_mouse_button_left_def k_mouse_button_right_def k_mouse_button_middle_def

lemma key_step:
  assumes "(vk, n) \<in> set keys"
  shows "bit (key_mask (fst (window_proc A m win d))) n \<longleftrightarrow>
    (if m = WM_KEYDOWN vk then True else if m = WM_KEYUP vk then False else bit (key_mask win) n)"
  using assms
  by (cases m) (auto simp: keys_def mask_defs bit_simps mouse_move_masks)

lemma button_step:
  assumes "((press, release), n) \<in> set buttons"
  shows "bit (mouse_mask (fst (window_proc A m win d))) n \<longleftrightarrow>
    (if m = press then True else if m = release then False else bit (mouse_mask win) n)"
  using assms
  by (cases m) (auto simp: buttons_def mask_defs bit_simps mouse_move_masks)

lemma quit_step: "quit (fst (window_proc A m win d)) \<longleftrightarrow> m = WM_CLOSE \<or> quit win"
  by (cases m) (auto simp: mouse_move_masks)

lemma pump_bits:
  assumes "\<And>m win d. P (fst (window_proc A m win d)) \<longleftrightarrow>
    (if m = press then True else if m = release then False else P win)"
  shows "P (fst (pump_messages A msgs win d)) \<longleftrightarrow> held press release (P win) msgs"
proof (induction msgs arbitrary: win d)
  case Nil
  then show ?case by simp
next
  case (Cons m msgs)
  obtain win' d' where step: "window_proc A m win d = (win', d')" by fastforce
  with assms [of m win d] Cons [of win' d'] show ?case by simp
qed

lemma pump_quit: "quit (fst (pump_messages A msgs win d)) \<longleftrightarrow> WM_CLOSE \<in> set msgs \<or> quit win"
proof (induction msgs arbitrary: win d)
  case Nil
  then show ?case by simp
next
  case (Cons m msgs)
  obtain win' d' where step: "window_proc A m win d = (win', d')" by fastforce
  with quit_step [of A m win d] Cons [of win' d'] show ?case by auto
qed


text \<open>No other bit of a mask ever changes.\<close>

lemma mask_bits:
  "bit k_key_up n \<longleftrightarrow> n = 0" "bit k_key_down n \<longleftrightarrow> n = 1"
  "bit k_key_left n \<longleftrightarrow> n = 2" "bit k_key_right n \<longleftrightarrow> n = 3"
  "bit k_mouse_button_left n \<longleftrightarrow> n = 0" "bit k_mouse_button_right n \<longleftrightarrow> n = 1"
  "bit k_mouse_button_middle n \<longleftrightarrow> n = 2"
  by (simp_all only: mask_defs bit_push_bit_iff bit_1_iff possible_bit_word) auto

lemma set_clear_bits:
  "\<not> bit m n \<Longrightarrow> bit (w OR m) n = bit w n"
  "\<not> bit m n \<Longrightarrow> bit (w AND NOT m) n = bit w n" for w m :: u32
  by (auto simp: bit_or_iff bit_and_iff bit_not_iff dest: bit_imp_le_length)

lemma other_key_bits:
  assumes "4 \<le> n"
  shows "bit (key_mask (fst (window_proc A m win d))) n = bit (key_mask win) n"
proof -
  from assms have "\<not> bit k_key_up n" "\<not> bit k_key_down n" "\<not> bit k_key_left n" "\<not> bit k_key_right n"
    by (auto simp: mask_bits)
  then show ?thesis
    by (cases m) (simp_all add: k_key_map_def set_clear_bits mouse_move_masks)
qed

lemma other_button_bits:
  assumes "3 \<le> n"
  shows "bit (mouse_mask (fst (window_proc A m win d))) n = bit (mouse_mask win) n"
proof -
  from assms have "\<not> bit k_mouse_button_left n" "\<not> bit k_mouse_button_right n"
    "\<not> bit k_mouse_button_middle n"
    by (auto simp: mask_bits)
  then show ?thesis
    by (cases m) (simp_all add: set_clear_bits mouse_move_masks)
qed

lemma pump_keeps:
  assumes "\<And>m win d. f (fst (window_proc A m win d)) = f win"
  shows "f (fst (pump_messages A msgs win d)) = f win"
proof (induction msgs arbitrary: win d)
  case Nil
  then show ?case by simp
next
  case (Cons m msgs)
  obtain win' d' where step: "window_proc A m win d = (win', d')" by fastforce
  with assms [of m win d] Cons [of win' d'] show ?case by simp
qed

lemma pump_other_key_bits:
  "4 \<le> n \<Longrightarrow> bit (key_mask (fst (pump_messages A msgs win d))) n = bit (key_mask win) n"
  by (rule pump_keeps [where f = "\<lambda>w. bit (key_mask w) n"]) (rule other_key_bits)

lemma pump_other_button_bits:
  "3 \<le> n \<Longrightarrow> bit (mouse_mask (fst (pump_messages A msgs win d))) n = bit (mouse_mask win) n"
  by (rule pump_keeps [where f = "\<lambda>w. bit (mouse_mask w) n"]) (rule other_button_bits)

section \<open>Mouse movement\<close>

definition window_center :: "'d desktop_api \<Rightarrow> 'd \<Rightarrow> c_int \<times> c_int" where
  "window_center A d =
     (case GetWindowRect A d of ((x0, x1), (y0, y1)) \<Rightarrow> (half (x0 + x1), half (y0 + y1)))"

lemma no_move_step:
  assumes "m \<noteq> WM_MOUSEMOVE"
  shows "wm_get_mouse_move (fst (window_proc A m win d)) = wm_get_mouse_move win"
  using assms by (cases m) (auto simp: wm_get_mouse_move_def)

lemma pump_no_move:
  assumes "WM_MOUSEMOVE \<notin> set msgs"
  shows "wm_get_mouse_move (fst (pump_messages A msgs win d)) = wm_get_mouse_move win"
  using assms
proof (induction msgs arbitrary: win d)
  case Nil
  then show ?case by simp
next
  case (Cons m msgs)
  obtain win' d' where step: "window_proc A m win d = (win', d')" by fastforce
  with no_move_step [of m A win d] Cons show ?case by auto
qed

lemma pump_append:
  "pump_messages A (xs @ ys) win d =
     (case pump_messages A xs win d of (win', d') \<Rightarrow> pump_messages A ys win' d')"
  by (simp add: pump_messages_def split: prod.split)

section \<open>Properties\<close>

text \<open>C9. After a pump each of the four key bits and three button bits says whether the key is
  held, that is whether its last message was a press (or it was held before and none came), the
  result says whether the window was asked to close, and no other bit of the masks changes.\<close>

theorem wm_pump_tracks_input:
  assumes "wm_pump A msgs win d = (q, win', d')"
  shows "(\<forall>(vk, n) \<in> set keys. bit (wm_get_key_mask win') n =
            held (WM_KEYDOWN vk) (WM_KEYUP vk) (bit (wm_get_key_mask win) n) msgs) \<and>
         (\<forall>((press, release), n) \<in> set buttons. bit (wm_get_mouse_mask win') n =
            held press release (bit (wm_get_mouse_mask win) n) msgs) \<and>
         (q \<longleftrightarrow> WM_CLOSE \<in> set msgs \<or> quit win) \<and>
         drop_bit 4 (wm_get_key_mask win') = drop_bit 4 (wm_get_key_mask win) \<and>
         drop_bit 3 (wm_get_mouse_mask win') = drop_bit 3 (wm_get_mouse_mask win)"
proof -
  from assms have win': "win' = fst (pump_messages A msgs win d)" and q: "q = quit win'"
    by (auto simp: wm_pump_def split: prod.splits)
  have "bit (wm_get_key_mask win') n =
      held (WM_KEYDOWN vk) (WM_KEYUP vk) (bit (wm_get_key_mask win) n) msgs"
    if "(vk, n) \<in> set keys" for vk n
    unfolding win' wm_get_key_mask_def
    by (rule pump_bits [where P = "\<lambda>w. bit (key_mask w) n"]) (rule key_step [OF that])
  moreover have "bit (wm_get_mouse_mask win') n =
      held press release (bit (wm_get_mouse_mask win) n) msgs"
    if "((press, release), n) \<in> set buttons" for press release n
    unfolding win' wm_get_mouse_mask_def
    by (rule pump_bits [where P = "\<lambda>w. bit (mouse_mask w) n"]) (rule button_step [OF that])
  moreover have "drop_bit 4 (wm_get_key_mask win') = drop_bit 4 (wm_get_key_mask win)"
    and "drop_bit 3 (wm_get_mouse_mask win') = drop_bit 3 (wm_get_mouse_mask win)"
    unfolding win' wm_get_key_mask_def wm_get_mouse_mask_def
    by (rule bit_word_eqI, simp add: bit_drop_bit_eq pump_other_key_bits pump_other_button_bits)+
  ultimately show ?thesis
    using pump_quit [of A msgs win d] unfolding q win' by auto
qed

definition still_desktop :: "(c_int \<times> c_int) desktop_api" where
  "still_desktop = \<lparr>GetCursorPos = (\<lambda>d. d), SetCursorPos = (\<lambda>p d. p),
     GetWindowRect = (\<lambda>d. ((10, 110), (20, 120))), ShowCursor = (\<lambda>b d. d)\<rparr>"

definition blank_window :: wm_window_t where
  "blank_window = the (wm_create True \<lparr>quit = True, has_focus = True, mouse_mask = 1, key_mask = 1,
     mouse_x = 1, mouse_y = 2\<rparr>)"

theorem wm_pump_tracks_input_witness:
  "\<exists>win' d'. wm_pump still_desktop [WM_KEYDOWN 0x25, WM_LBUTTONDOWN, WM_KEYDOWN 0x26, WM_KEYUP 0x25]
       blank_window (0, 0) = (False, win', d') \<and>
     bit (wm_get_key_mask win') 0 \<and> \<not> bit (wm_get_key_mask win') 2 \<and> bit (wm_get_mouse_mask win') 0"
proof -
  obtain q win' d' where run: "wm_pump still_desktop
      [WM_KEYDOWN 0x25, WM_LBUTTONDOWN, WM_KEYDOWN 0x26, WM_KEYUP 0x25] blank_window (0, 0) = (q, win', d')"
    by (metis prod_cases3)
  from wm_pump_tracks_input [OF run] run show ?thesis
    by (auto simp: keys_def buttons_def blank_window_def wm_create_def wm_get_key_mask_def)
qed

text \<open>A mouse message in the focused window reports the distance of the cursor from the middle
  of the window and moves the cursor back there; messages after it leave the report alone, so it
  is still reported in later frames in which the mouse does not move.\<close>

theorem wm_mouse_move_is_relative:
  assumes "pump_messages A before win d = (w, d1)" and "has_focus w"
    and "GetCursorPos A (SetCursorPos A (window_center A d1) d1) = window_center A d1"
    and "WM_MOUSEMOVE \<notin> set after"
    and "wm_pump A (before @ WM_MOUSEMOVE # after) win d = (q, win', d')"
  shows "wm_get_mouse_move win' =
      (fst (GetCursorPos A d1) - fst (window_center A d1),
       snd (GetCursorPos A d1) - snd (window_center A d1)) \<and>
    (\<forall>msgs q2 w2 d2. WM_MOUSEMOVE \<notin> set msgs \<longrightarrow> wm_pump A msgs win' d' = (q2, w2, d2) \<longrightarrow>
       wm_get_mouse_move w2 = wm_get_mouse_move win')"
proof -
  obtain w3 d3 where move: "mouse_move A w d1 = (w3, d3)" by fastforce
  from assms(1,5) move have win': "win' = fst (pump_messages A after w3 d3)"
    by (auto simp: wm_pump_def pump_append split: prod.splits)
  from move assms(2,3) have "wm_get_mouse_move w3 =
      (fst (GetCursorPos A d1) - fst (window_center A d1),
       snd (GetCursorPos A d1) - snd (window_center A d1))"
    by (auto simp: mouse_move_def window_center_def wm_get_mouse_move_def Let_def split: prod.splits)
  moreover have "wm_get_mouse_move win' = wm_get_mouse_move w3"
    unfolding win' by (rule pump_no_move [OF assms(4)])
  moreover have "wm_get_mouse_move w2 = wm_get_mouse_move win'"
    if "WM_MOUSEMOVE \<notin> set msgs" "wm_pump A msgs win' d' = (q2, w2, d2)" for msgs q2 w2 d2
    using pump_no_move [OF that(1), of A win' d'] that(2)
    by (auto simp: wm_pump_def split: prod.splits)
  ultimately show ?thesis by simp
qed

theorem wm_mouse_move_is_relative_witness:
  "\<exists>q win' d'. wm_pump still_desktop [WM_ACTIVATEAPP 1, WM_MOUSEMOVE] blank_window (65, 73) = (q, win', d') \<and>
     wm_get_mouse_move win' = (5, 3)"
proof -
  obtain q win' d' where run: "wm_pump still_desktop ([WM_ACTIVATEAPP 1] @ WM_MOUSEMOVE # [])
      blank_window (65, 73) = (q, win', d')"
    by (metis prod_cases3)
  have "window_center still_desktop (65, 73) = (60, 70)"
    by (simp add: window_center_def still_desktop_def half_def)
  then have "wm_get_mouse_move win' = (5, 3)"
    using wm_mouse_move_is_relative [OF _ _ _ _ run, of "blank_window\<lparr>has_focus := True\<rparr>" "(65, 73)"]
    by (simp add: still_desktop_def)
  with run show ?thesis by auto
qed

end
