(* ===== verification/Net.thy ===== *)
theory Net
  imports Ecs_World Queue
begin

text \<open>
  The replication layer of \<^verbatim>\<open>net.c\<close>: every frame the registered entities are written to a
  snapshot, each connection gets a packet that encodes the snapshot against the last one it
  acknowledged, and the packets it sent are decoded into local entities.

  The structs keep their fields and array sizes; packets and snapshots are byte arrays of 1024
  bytes and every access outside them is undefined (\<open>None\<close>).  Sockets, threads, the clock and
  the heap are outside: the bytes of a fresh packet, the time and the handle of a new thread
  are arguments.  \<open>'s\<close> is the state of a semaphore, \<open>'t\<close> a thread handle, \<open>'u\<close> the user data
  of the configure callbacks.
\<close>

section \<open>State\<close>

abbreviation (input) k_net_mtu :: nat where "k_net_mtu \<equiv> 1024"
abbreviation (input) k_max_entity_types :: nat where "k_max_entity_types \<equiv> 32"
abbreviation (input) k_max_snapshots :: nat where "k_max_snapshots \<equiv> 256"
abbreviation (input) k_max_net_entities :: nat where "k_max_net_entities \<equiv> 32"

record 'u entity_type_t =
  et_component_mask :: u64
  replicated_component_mask :: u64
  configure_callback :: "(ecs_t \<Rightarrow> ecs_entity_ref_t \<Rightarrow> c_int \<Rightarrow> 'u ptr \<Rightarrow> ecs_t) ptr"
  configure_callback_data :: "'u ptr"
  replicated_size :: u64

record entity_data_t =
  ed_ref :: ecs_entity_ref_t
  ed_type :: c_int
  remote_sequence :: c_int
  last_recved_sequence :: c_int

record snapshot_t =
  snap_sequence :: c_int
  snap_size :: int
  snap_data :: "u8 list"

record packet_t =
  packet_size :: int
  packet_data :: "u8 list"

record net_address_t =
  ip :: "u8 list"
  port :: u16

record ('s, 't) connection_t =
  address :: net_address_t
  incoming_sequence :: c_int
  ack_sequence :: c_int
  send_thread :: "'t ptr"
  send_queue :: "('s, packet_t) queue ptr"
  recv_queue :: "('s, packet_t) queue ptr"
  last_recv_ms :: u32
  conn_entities :: "entity_data_t list"

record ('s, 't, 'u) net_t =
  net_ecs :: ecs_t
  net_sequence :: c_int
  connections :: "('s, 't) connection_t list"
  entity_types :: "'u entity_type_t list"
  net_entities :: "entity_data_t list"
  snapshots :: "snapshot_t list"

text \<open>The image of \<^verbatim>\<open>packet_header_t\<close> and of \<^verbatim>\<open>entity_packet_header_t\<close>: two 32 bit integers.\<close>

definition pair_bytes :: "c_int \<Rightarrow> c_int \<Rightarrow> u8 list" where
  "pair_bytes a b = le32_bytes a @ le32_bytes b"

definition rd_pair :: "u8 list \<Rightarrow> nat \<Rightarrow> (c_int \<times> c_int) option" where
  "rd_pair b off =
     map_option (\<lambda>bs. (le32_word (take 4 bs), le32_word (drop 4 bs))) (rd_bytes b off 8)"

text \<open>\<^verbatim>\<open>sequence % _countof(snapshots)\<close>: the int is converted to \<^verbatim>\<open>size_t\<close> first.\<close>

definition snapshot_index :: "c_int \<Rightarrow> nat" where
  "snapshot_index s = unat (scast s :: u64) mod k_max_snapshots"

section \<open>Registration\<close>

text \<open>All fields zero, as \<^verbatim>\<open>memset\<close> leaves them.\<close>

definition zero_entity :: entity_data_t where
  "zero_entity = \<lparr>ed_ref = \<lparr>entity = 0, sequence = 0\<rparr>, ed_type = 0, remote_sequence = 0,
     last_recved_sequence = 0\<rparr>"

definition zero_connection :: "('s, 't) connection_t" where
  "zero_connection = \<lparr>address = \<lparr>ip = [0, 0, 0, 0], port = 0\<rparr>, incoming_sequence = 0,
     ack_sequence = 0, send_thread = None, send_queue = None, recv_queue = None,
     last_recv_ms = 0, conn_entities = replicate k_max_net_entities zero_entity\<rparr>"

definition zero_type :: "'u entity_type_t" where
  "zero_type = \<lparr>et_component_mask = 0, replicated_component_mask = 0, configure_callback = None,
     configure_callback_data = None, replicated_size = 0\<rparr>"

definition net_create :: "ecs_t \<Rightarrow> ('s, 't, 'u) net_t" where
  "net_create ecs = \<lparr>net_ecs = ecs, net_sequence = 0,
     connections = replicate 3 zero_connection,
     entity_types = replicate k_max_entity_types zero_type,
     net_entities = replicate k_max_net_entities zero_entity,
     snapshots = replicate k_max_snapshots
       \<lparr>snap_sequence = 0, snap_size = 0, snap_data = replicate k_net_mtu 0\<rparr>\<rparr>"

text \<open>The loop over the bits of a mask that sums up the sizes of the component types.\<close>

primrec sum_sizes :: "ecs_t \<Rightarrow> u64 \<Rightarrow> nat list \<Rightarrow> u64 \<Rightarrow> u64 option" where
  "sum_sizes ecs m [] acc = Some acc"
| "sum_sizes ecs m (c # cs) acc =
     (if bit m c then do {
        n \<leftarrow> ecs_get_component_type_size ecs (int c);
        sum_sizes ecs m cs (acc + n)
      } else sum_sizes ecs m cs acc)"

definition net_state_register_entity_type ::
  "('s, 't, 'u) net_t \<Rightarrow> c_int \<Rightarrow> u64 \<Rightarrow> u64 \<Rightarrow>
   (ecs_t \<Rightarrow> ecs_entity_ref_t \<Rightarrow> c_int \<Rightarrow> 'u ptr \<Rightarrow> ecs_t) ptr \<Rightarrow> 'u ptr \<Rightarrow> ('s, 't, 'u) net_t option" where
  "net_state_register_entity_type net type cmask rmask callback callback_data =
     (if unat (scast type :: u64) < k_max_entity_types then do {
        total \<leftarrow> sum_sizes (net_ecs net) rmask [0..<64] 0;
        types \<leftarrow> arr_set (entity_types net) (nat (sint type))
          \<lparr>et_component_mask = cmask, replicated_component_mask = rmask,
           configure_callback = callback, configure_callback_data = callback_data,
           replicated_size = total\<rparr>;
        Some (net\<lparr>entity_types := types\<rparr>)
      } else Some net)"

text \<open>The first of the slots \<open>is\<close> whose reference is not valid any more.\<close>

primrec free_slot :: "ecs_t \<Rightarrow> entity_data_t list \<Rightarrow> nat list \<Rightarrow> nat option option" where
  "free_slot ecs es [] = Some None"
| "free_slot ecs es (i # is) = do {
     e \<leftarrow> arr_get es i;
     valid \<leftarrow> ecs_is_entity_ref_valid ecs (ed_ref e) True;
     if valid then free_slot ecs es is else Some (Some i)
   }"

definition net_state_register_entity_instance ::
  "('s, 't, 'u) net_t \<Rightarrow> c_int \<Rightarrow> ecs_entity_ref_t \<Rightarrow> ('s, 't, 'u) net_t option" where
  "net_state_register_entity_instance net type ent = do {
     slot \<leftarrow> free_slot (net_ecs net) (net_entities net) [0..<k_max_net_entities];
     Some (case slot of
       None \<Rightarrow> net
     | Some i \<Rightarrow> net\<lparr>net_entities := (net_entities net)
         [i := (net_entities net ! i)\<lparr>ed_ref := ent, ed_type := type\<rparr>]\<rparr>)
   }"

section \<open>Snapshots\<close>

text \<open>Copy the replicated components of one entity to \<open>data\<close> from \<open>cur\<close> on.\<close>

primrec copy_components ::
  "ecs_t \<Rightarrow> ecs_entity_ref_t \<Rightarrow> u64 \<Rightarrow> nat list \<Rightarrow> u8 list \<Rightarrow> nat \<Rightarrow> (u8 list \<times> nat) option" where
  "copy_components ecs ref m [] data cur = Some (data, cur)"
| "copy_components ecs ref m (c # cs) data cur =
     (if bit m c then do {
        component_data \<leftarrow> ecs_entity_get_component ecs ref (int c) True;
        component_size \<leftarrow> ecs_get_component_type_size ecs (int c);
        p \<leftarrow> component_data;
        bs \<leftarrow> comp_read ecs p (unat component_size);
        data \<leftarrow> wr_bytes data cur bs;
        copy_components ecs ref m cs data (cur + unat component_size)
      } else copy_components ecs ref m cs data cur)"

text \<open>The loop of \<open>snapshot_entities\<close> over the slots \<open>es\<close> that are left.\<close>

primrec snapshot_loop ::
  "ecs_t \<Rightarrow> 'u entity_type_t list \<Rightarrow> entity_data_t list \<Rightarrow> u8 list \<Rightarrow> nat \<Rightarrow> (u8 list \<times> nat) option" where
  "snapshot_loop ecs types [] data cur = Some (data, cur)"
| "snapshot_loop ecs types (e # es) data cur = do {
     valid \<leftarrow> ecs_is_entity_ref_valid ecs (ed_ref e) True;
     if valid then do {
       t \<leftarrow> arr_at types (sint (ed_type e));
       if replicated_size t + 8 < word_of_nat (length data - cur) then do {
         data \<leftarrow> wr_bytes data cur (pair_bytes (ed_type e) (sequence (ed_ref e)));
         (data, cur) \<leftarrow> copy_components ecs (ed_ref e) (replicated_component_mask t) [0..<64] data (cur + 8);
         snapshot_loop ecs types es data cur
       } else snapshot_loop ecs types es data cur
     } else Some (data, cur)
   }"

definition snapshot_entities :: "('s, 't, 'u) net_t \<Rightarrow> ('s, 't, 'u) net_t option" where
  "snapshot_entities net = do {
     let i = snapshot_index (net_sequence net);
     snap \<leftarrow> arr_get (snapshots net) i;
     (data, cur) \<leftarrow> snapshot_loop (net_ecs net) (entity_types net) (net_entities net) (snap_data snap) 0;
     Some (net\<lparr>snapshots := (snapshots net)
       [i := \<lparr>snap_sequence = net_sequence net, snap_size = int cur, snap_data = data\<rparr>]\<rparr>)
   }"

section \<open>Writing packets\<close>

text \<open>
  Whether the data \<open>bs\<close> of an entity differs from the acknowledged snapshot, and the offset of
  the next acknowledged entity.
\<close>

definition compare_acked ::
  "u8 list \<Rightarrow> nat \<Rightarrow> nat \<Rightarrow> c_int \<Rightarrow> u8 list \<Rightarrow> (bool \<times> nat) option" where
  "compare_acked ack ack_iter ack_end cur_seq bs =
     (if ack_iter < ack_end then do {
        (ack_type, ack_seq) \<leftarrow> rd_pair ack ack_iter;
        if ack_seq = cur_seq then do {
          old \<leftarrow> rd_bytes ack (ack_iter + 8) (length bs);
          Some (bs \<noteq> old, ack_iter + 8 + length bs)
        } else Some (True, ack_iter)
      } else Some (True, ack_iter))"

text \<open>The flag, and the data if it is set.\<close>

definition put_diff :: "u8 list \<Rightarrow> nat \<Rightarrow> bool \<Rightarrow> u8 list \<Rightarrow> (u8 list \<times> nat) option" where
  "put_diff packet packet_iter diff bs = do {
     packet \<leftarrow> wr_bytes packet packet_iter [if diff then 1 else 0];
     if diff then do {
       packet \<leftarrow> wr_bytes packet (packet_iter + 1) bs;
       Some (packet, packet_iter + 1 + length bs)
     } else Some (packet, packet_iter + 1)
   }"

text \<open>
  One iteration per entity of the current snapshot.  \<open>cur_iter\<close>, \<open>ack_iter\<close> and \<open>packet_iter\<close>
  are offsets into the current snapshot, the acknowledged one and the packet.
\<close>

function add_entities_loop ::
  "'u entity_type_t list \<Rightarrow> u8 list \<Rightarrow> nat \<Rightarrow> u8 list \<Rightarrow> nat \<Rightarrow> nat \<Rightarrow> nat \<Rightarrow> u8 list \<Rightarrow> nat \<Rightarrow>
   (u8 list \<times> nat) option" where
  "add_entities_loop types cur cur_end ack ack_end cur_iter ack_iter packet packet_iter =
     (if cur_iter < cur_end then do {
        (cur_type, cur_seq) \<leftarrow> rd_pair cur cur_iter;
        packet \<leftarrow> wr_bytes packet packet_iter (pair_bytes cur_type cur_seq);
        t \<leftarrow> arr_at types (sint cur_type);
        let ent_size = unat (replicated_size t);
        bs \<leftarrow> rd_bytes cur (cur_iter + 8) ent_size;
        (diff, ack_iter) \<leftarrow> compare_acked ack ack_iter ack_end cur_seq bs;
        (packet, packet_iter) \<leftarrow> put_diff packet (packet_iter + 8) diff bs;
        add_entities_loop types cur cur_end ack ack_end (cur_iter + 8 + ent_size) ack_iter packet packet_iter
      } else Some (packet, packet_iter))"
  by pat_completeness auto
termination
  by (relation "measure (\<lambda>(types, cur, cur_end, ack, ack_end, cur_iter, rest). cur_end - cur_iter)") auto

declare add_entities_loop.simps [simp del]

text \<open>\<open>packet\<close> is the whole data array, to be filled from \<open>start\<close> on; the result is the array and
  the number of bytes written.  The capacity is a parameter the code never looks at.\<close>

definition packet_add_entities ::
  "('s, 't, 'u) net_t \<Rightarrow> ('s, 't) connection_t \<Rightarrow> u8 list \<Rightarrow> nat \<Rightarrow> nat \<Rightarrow> (u8 list \<times> nat) option" where
  "packet_add_entities net c packet start packet_capacity = do {
     cur_snapshot \<leftarrow> arr_get (snapshots net) (snapshot_index (net_sequence net));
     ack_snapshot \<leftarrow> arr_get (snapshots net) (snapshot_index (ack_sequence c));
     let ack_end = nat (snap_size ack_snapshot);
     (packet, last_iter) \<leftarrow> add_entities_loop (entity_types net) (snap_data cur_snapshot) (nat (snap_size cur_snapshot))
       (snap_data ack_snapshot) ack_end 0
       (if snap_sequence ack_snapshot \<noteq> ack_sequence c then ack_end else 0) packet start;
     Some (packet, last_iter - start)
   }"

text \<open>\<open>mem\<close> is the data array of the packet the heap returned (\<open>None\<close>: NULL).\<close>

definition make_packet ::
  "('s, 't, 'u) net_t \<Rightarrow> ('s, 't) connection_t \<Rightarrow> u8 list ptr \<Rightarrow> packet_t option" where
  "make_packet net c mem = do {
     data \<leftarrow> mem;
     data \<leftarrow> wr_bytes data 0 (pair_bytes (net_sequence net) (incoming_sequence c));
     (data, n) \<leftarrow> packet_add_entities net c data 8 (length data - 8);
     Some \<lparr>packet_size = 8 + int n, packet_data = data\<rparr>
   }"

definition packet_send ::
  "'s semaphore_api \<Rightarrow> ('s, 't, 'u) net_t \<Rightarrow> ('s, 't) connection_t \<Rightarrow> u8 list ptr \<Rightarrow>
   ('s, 't) connection_t outcome" where
  "packet_send K net c mem =
     (case (make_packet net c mem, send_queue c) of
        (Some packet, Some q) \<Rightarrow>
          (case queue_push K q (Some packet) of
             Returns q' \<Rightarrow> Returns (c\<lparr>send_queue := Some q'\<rparr>)
           | Blocks \<Rightarrow> Blocks
           | Undefined \<Rightarrow> Undefined)
      | _ \<Rightarrow> Undefined)"

section \<open>Reading packets\<close>

text \<open>The entity the remote side calls \<open>seq\<close>, marked as seen in this frame.\<close>

definition find_remote ::
  "c_int \<Rightarrow> c_int \<Rightarrow> entity_data_t list \<Rightarrow> ecs_entity_ref_t \<times> entity_data_t list" where
  "find_remote now seq es =
     (case scan (\<lambda>i. remote_sequence (es ! i) = seq) 0 (length es) of
        Some i \<Rightarrow> (ed_ref (es ! i), es[i := (es ! i)\<lparr>last_recved_sequence := now\<rparr>])
      | None \<Rightarrow> (\<lparr>entity = -1, sequence = 0\<rparr>, es))"

text \<open>Spawn a local entity for a remote one and remember it in the first free slot, if any.\<close>

definition spawn_remote ::
  "'u entity_type_t list \<Rightarrow> c_int \<Rightarrow> c_int \<Rightarrow> c_int \<Rightarrow> ecs_t \<Rightarrow> entity_data_t list \<Rightarrow>
   (ecs_entity_ref_t \<times> ecs_t \<times> entity_data_t list) option" where
  "spawn_remote types now type seq ecs es = do {
     t \<leftarrow> arr_at types (sint type);
     (ref, ecs) \<leftarrow> Some (ecs_entity_add ecs (et_component_mask t));
     callback \<leftarrow> configure_callback t;
     let ecs = callback ecs ref type (configure_callback_data t);
     slot \<leftarrow> free_slot ecs es [0..<length es];
     Some (ref, ecs,
       case slot of
         None \<Rightarrow> es
       | Some i \<Rightarrow> es[i := \<lparr>ed_ref = ref, ed_type = type, remote_sequence = seq,
           last_recved_sequence = now\<rparr>])
   }"

text \<open>Store the replicated components of one entity.\<close>

primrec store_components ::
  "ecs_entity_ref_t \<Rightarrow> u64 \<Rightarrow> nat list \<Rightarrow> u8 list \<Rightarrow> nat \<Rightarrow> ecs_t \<Rightarrow> (ecs_t \<times> nat) option" where
  "store_components ref m [] packet iter ecs = Some (ecs, iter)"
| "store_components ref m (c # cs) packet iter ecs =
     (if bit m c then do {
        component_data \<leftarrow> ecs_entity_get_component ecs ref (int c) True;
        component_size \<leftarrow> ecs_get_component_type_size ecs (int c);
        p \<leftarrow> component_data;
        bs \<leftarrow> rd_bytes packet iter (unat component_size);
        ecs \<leftarrow> comp_write ecs p bs;
        store_components ref m cs packet (iter + unat component_size) ecs
      } else store_components ref m cs packet iter ecs)"

definition read_entity ::
  "'u entity_type_t list \<Rightarrow> c_int \<Rightarrow> u8 list \<Rightarrow> nat \<Rightarrow> ecs_t \<times> entity_data_t list \<Rightarrow>
   (nat \<times> ecs_t \<times> entity_data_t list) option" where
  "read_entity types now packet iter st = do {
     (ecs, es) \<leftarrow> Some st;
     (type, seq) \<leftarrow> rd_pair packet iter;
     (ref, es) \<leftarrow> Some (find_remote now seq es);
     valid \<leftarrow> ecs_is_entity_ref_valid ecs ref True;
     (ref, ecs, es) \<leftarrow> (if valid then Some (ref, ecs, es) else spawn_remote types now type seq ecs es);
     diff \<leftarrow> arr_get packet (iter + 8);
     if diff \<noteq> 0 then do {
       t \<leftarrow> arr_at types (sint type);
       (ecs, iter) \<leftarrow> store_components ref (replicated_component_mask t) [0..<64] packet (iter + 9) ecs;
       Some (iter, ecs, es)
     } else Some (iter + 9, ecs, es)
   }"

lemma store_components_iter:
  "store_components ref m cs packet iter ecs = Some (ecs', iter') \<Longrightarrow> iter \<le> iter'"
  by (induction cs arbitrary: iter ecs) (fastforce simp: bind_eq_Some_conv split: if_splits)+

lemma read_entity_iter:
  assumes "read_entity types now packet iter st = Some (iter', st')"
  shows "iter + 9 \<le> iter'"
proof -
  obtain ecs es where st: "st = (ecs, es)" by fastforce
  with assms obtain type seq where pair: "rd_pair packet iter = Some (type, seq)"
    by (cases "rd_pair packet iter") (auto simp: read_entity_def)
  obtain ref es' where "find_remote now seq es = (ref, es')" by fastforce
  with assms st pair show ?thesis
    by (auto simp: read_entity_def bind_eq_Some_conv dest!: store_components_iter split: if_splits)
qed

function read_entities ::
  "'u entity_type_t list \<Rightarrow> c_int \<Rightarrow> u8 list \<Rightarrow> nat \<Rightarrow> nat \<Rightarrow> ecs_t \<times> entity_data_t list \<Rightarrow>
   (ecs_t \<times> entity_data_t list) option" where
  "read_entities types now packet iter stop st =
     (if iter < stop then
        (case read_entity types now packet iter st of
           None \<Rightarrow> None
         | Some (iter', st') \<Rightarrow> read_entities types now packet iter' stop st')
      else Some st)"
  by pat_completeness auto
termination
  by (relation "measure (\<lambda>(types, now, packet, iter, stop, st). stop - iter)")
    (auto dest!: read_entity_iter)

declare read_entities.simps [simp del]

text \<open>The loop that removes the entities the packet did not mention.\<close>

primrec remove_unseen :: "c_int \<Rightarrow> entity_data_t list \<Rightarrow> ecs_t \<Rightarrow> ecs_t option" where
  "remove_unseen now [] ecs = Some ecs"
| "remove_unseen now (e # es) ecs = do {
     valid \<leftarrow> ecs_is_entity_ref_valid ecs (ed_ref e) True;
     ecs \<leftarrow> (if valid \<and> last_recved_sequence e \<noteq> now
             then ecs_entity_remove ecs (ed_ref e) True else Some ecs);
     remove_unseen now es ecs
   }"

text \<open>\<open>start\<close> and \<open>stop\<close> are the offsets of \<^verbatim>\<open>iter\<close> and \<^verbatim>\<open>end\<close> in the data array.\<close>

definition packet_read_entities ::
  "'u entity_type_t list \<Rightarrow> c_int \<Rightarrow> u8 list \<Rightarrow> nat \<Rightarrow> nat \<Rightarrow> ecs_t \<Rightarrow> entity_data_t list \<Rightarrow>
   (ecs_t \<times> entity_data_t list) option" where
  "packet_read_entities types now packet start stop ecs es = do {
     (ecs, es) \<leftarrow> read_entities types now packet start stop (ecs, es);
     ecs \<leftarrow> remove_unseen now es ecs;
     Some (ecs, es)
   }"

text \<open>
  What the receive loop does with one packet; the flag says whether the packet went back to
  the heap (a stale packet does not).
\<close>

definition packet_accept ::
  "('s, 't, 'u) net_t \<Rightarrow> ('s, 't) connection_t \<Rightarrow> packet_t \<Rightarrow>
   (bool \<times> ('s, 't, 'u) net_t \<times> ('s, 't) connection_t) option" where
  "packet_accept net c packet = do {
     (seq, ack) \<leftarrow> rd_pair (packet_data packet) 0;
     if sint seq \<le> sint (incoming_sequence c) then Some (False, net, c)
     else do {
       (ecs, es) \<leftarrow> packet_read_entities (entity_types net) (net_sequence net) (packet_data packet) 8
         (nat (packet_size packet)) (net_ecs net) (conn_entities c);
       Some (True, net\<lparr>net_ecs := ecs\<rparr>,
         c\<lparr>incoming_sequence := seq, ack_sequence := ack, conn_entities := es\<rparr>)
     }
   }"

text \<open>The loop ends at a packet of size 0 too (which is not freed); a queue of capacity 3 without
  concurrent pushes holds at most \<open>fuel\<close> packets.\<close>

fun packet_recv ::
  "nat \<Rightarrow> 's semaphore_api \<Rightarrow> ('s, 't, 'u) net_t \<Rightarrow> ('s, 't) connection_t \<Rightarrow>
   (('s, 't, 'u) net_t \<times> ('s, 't) connection_t) option" where
  "packet_recv 0 K net c = None"
| "packet_recv (Suc fuel) K net c =
     (case recv_queue c of
        None \<Rightarrow> None
      | Some q \<Rightarrow>
          (case queue_try_pop K q of
             Returns (packet, q') \<Rightarrow>
               let c = c\<lparr>recv_queue := Some q'\<rparr> in
               (case packet of
                  None \<Rightarrow> Some (net, c)
                | Some pk \<Rightarrow>
                    if packet_size pk = 0 then Some (net, c)
                    else (case packet_accept net c pk of
                        None \<Rightarrow> None
                      | Some (freed, net, c) \<Rightarrow> packet_recv fuel K net c))
           | _ \<Rightarrow> None))"

section \<open>Connections\<close>

text \<open>
  \<open>make_queue\<close> and \<open>thread\<close> are what \<open>queue_create\<close> and the thread library return, \<open>now\<close> the
  time.  The functions run under the connections mutex; the index of the connection stands for
  the pointer to it.
\<close>

definition find_or_create_connection ::
  "('s, packet_t) queue ptr \<times> ('s, packet_t) queue ptr \<Rightarrow> 't ptr \<Rightarrow> u32 \<Rightarrow> net_address_t \<Rightarrow>
   ('s, 't, 'u) net_t \<Rightarrow> nat ptr \<times> ('s, 't, 'u) net_t" where
  "find_or_create_connection queues thread now addr net =
     (let cs = connections net in
      case scan (\<lambda>i. address (cs ! i) = addr) 0 (length cs) of
        Some i \<Rightarrow> (Some i, net)
      | None \<Rightarrow>
          (case scan (\<lambda>i. port (address (cs ! i)) = 0) 0 (length cs) of
             Some i \<Rightarrow>
               (Some i, net\<lparr>connections := cs[i := (cs ! i)
                  \<lparr>address := addr, incoming_sequence := -1, ack_sequence := -1, last_recv_ms := now,
                   send_queue := fst queues, recv_queue := snd queues, send_thread := thread\<rparr>]\<rparr>)
           | None \<Rightarrow> (None, net)))"

text \<open>\<^verbatim>\<open>k_timeout_ms\<close> is an int, the sum and the comparison are unsigned.\<close>

definition timed_out :: "u32 \<Rightarrow> ('s, 't) connection_t \<Rightarrow> bool" where
  "timed_out now c \<longleftrightarrow> port (address c) \<noteq> 0 \<and> last_recv_ms c + 5000 < now"

text \<open>
  Closing a connection pushes the NULL that ends the send thread, joins the thread, destroys
  both queues and clears the struct.  The push blocks while the send queue is full.
\<close>

definition close_connection ::
  "'s semaphore_api \<Rightarrow> ('s, 't) connection_t \<Rightarrow> ('s, 't) connection_t outcome" where
  "close_connection K c =
     (case send_queue c of
        None \<Rightarrow> Undefined
      | Some q \<Rightarrow>
          (case queue_push K q None of
             Returns q' \<Rightarrow> Returns zero_connection
           | Blocks \<Rightarrow> Blocks
           | Undefined \<Rightarrow> Undefined))"

fun close_where ::
  "(('s, 't) connection_t \<Rightarrow> bool) \<Rightarrow> 's semaphore_api \<Rightarrow> ('s, 't) connection_t list \<Rightarrow>
   ('s, 't) connection_t list outcome" where
  "close_where P K [] = Returns []"
| "close_where P K (c # cs) =
     (case (if P c then close_connection K c else Returns c) of
        Returns c' \<Rightarrow>
          (case close_where P K cs of
             Returns cs' \<Rightarrow> Returns (c' # cs')
           | Blocks \<Rightarrow> Blocks
           | Undefined \<Rightarrow> Undefined)
      | Blocks \<Rightarrow> Blocks
      | Undefined \<Rightarrow> Undefined)"

definition timeout_old_connections ::
  "'s semaphore_api \<Rightarrow> u32 \<Rightarrow> ('s, 't, 'u) net_t \<Rightarrow> ('s, 't, 'u) net_t outcome" where
  "timeout_old_connections K now net =
     (case close_where (timed_out now) K (connections net) of
        Returns cs \<Rightarrow> Returns (net\<lparr>connections := cs\<rparr>)
      | Blocks \<Rightarrow> Blocks
      | Undefined \<Rightarrow> Undefined)"

definition net_disconnect_all ::
  "'s semaphore_api \<Rightarrow> ('s, 't, 'u) net_t \<Rightarrow> ('s, 't, 'u) net_t outcome" where
  "net_disconnect_all K net =
     (case close_where (\<lambda>c. port (address c) \<noteq> 0) K (connections net) of
        Returns cs \<Rightarrow> Returns (net\<lparr>connections := replicate (length cs) zero_connection\<rparr>)
      | Blocks \<Rightarrow> Blocks
      | Undefined \<Rightarrow> Undefined)"

section \<open>The frame\<close>

text \<open>The packets of one frame: \<open>mems\<close> are the data arrays the heap returns for them.\<close>

fun update_connections ::
  "'s semaphore_api \<Rightarrow> nat \<Rightarrow> (nat \<Rightarrow> u8 list ptr) \<Rightarrow> nat list \<Rightarrow> ('s, 't, 'u) net_t \<Rightarrow>
   ('s, 't, 'u) net_t outcome" where
  "update_connections K fuel mems [] net = Returns net"
| "update_connections K fuel mems (i # is) net =
     (let c = connections net ! i in
      if port (address c) \<noteq> 0 then
        (case packet_send K net c (mems i) of
           Returns c' \<Rightarrow>
             (case packet_recv fuel K net c' of
                Some (net', c'') \<Rightarrow>
                  update_connections K fuel mems is (net'\<lparr>connections := (connections net')[i := c'']\<rparr>)
              | None \<Rightarrow> Undefined)
         | Blocks \<Rightarrow> Blocks
         | Undefined \<Rightarrow> Undefined)
      else update_connections K fuel mems is net)"

definition net_update ::
  "'s semaphore_api \<Rightarrow> nat \<Rightarrow> u32 \<Rightarrow> (nat \<Rightarrow> u8 list ptr) \<Rightarrow> ('s, 't, 'u) net_t \<Rightarrow>
   ('s, 't, 'u) net_t outcome" where
  "net_update K fuel now mems net =
     (case timeout_old_connections K now net of
        Returns net \<Rightarrow>
          (case snapshot_entities net of
             None \<Rightarrow> Undefined
           | Some net \<Rightarrow>
               (case update_connections K fuel mems [0..<length (connections net)] net of
                  Returns net \<Rightarrow> Returns (net\<lparr>net_sequence := net_sequence net + 1\<rparr>)
                | Blocks \<Rightarrow> Blocks
                | Undefined \<Rightarrow> Undefined))
      | Blocks \<Rightarrow> Blocks
      | Undefined \<Rightarrow> Undefined)"

end
