(* ===== verification/Net_Delta.thy ===== *)
theory Net_Delta
  imports Net
begin

text \<open>
  The wire format of \<^verbatim>\<open>net.c\<close>.  A snapshot is the concatenation of \<open>entry_bytes\<close>, a packet
  encodes it against the acknowledged snapshot as \<open>delta\<close>.  The loops over bytes are shown to
  compute these list functions, and to write outside the packet exactly when the encoding does
  not fit.
\<close>

section \<open>Byte blocks as lists\<close>

lemma wr_bytes_append:
  "off = length pre \<Longrightarrow>
   wr_bytes (pre @ rest) off bs =
     (if length bs \<le> length rest then Some ((pre @ bs) @ drop (length bs) rest) else None)"
  by (auto simp: wr_bytes_def)

lemma rd_bytes_append:
  "off = length pre \<Longrightarrow> n = length bs \<Longrightarrow> rd_bytes (pre @ bs @ post) off n = Some bs"
  by (auto simp: rd_bytes_def)

lemma pair_bytes_length [simp]: "length (pair_bytes a b) = 8"
  by (simp add: pair_bytes_def)

lemma rd_pair_append:
  "off = length pre \<Longrightarrow> rd_pair (pre @ pair_bytes a b @ post) off = Some (a, b)"
  by (simp add: rd_pair_def rd_bytes_append) (simp add: pair_bytes_def)

section \<open>Entries\<close>

type_synonym entry = "c_int \<times> c_int \<times> u8 list"

fun entry_type :: "entry \<Rightarrow> c_int" where "entry_type (t, s, bs) = t"
fun entry_seq :: "entry \<Rightarrow> c_int" where "entry_seq (t, s, bs) = s"
fun entry_data :: "entry \<Rightarrow> u8 list" where "entry_data (t, s, bs) = bs"

definition entry_bytes :: "entry \<Rightarrow> u8 list" where
  "entry_bytes e = pair_bytes (entry_type e) (entry_seq e) @ entry_data e"

definition image :: "entry list \<Rightarrow> u8 list" where
  "image es = concat (map entry_bytes es)"

text \<open>The encoding of a list of entries against the acknowledged ones.\<close>

fun delta :: "entry list \<Rightarrow> entry list \<Rightarrow> (entry \<times> bool) list" where
  "delta [] as = []"
| "delta (e # es) [] = (e, True) # delta es []"
| "delta (e # es) (a # as) =
     (if entry_seq a = entry_seq e then (e, entry_data e \<noteq> entry_data a) # delta es as
      else (e, True) # delta es (a # as))"

definition delta_bytes :: "entry \<times> bool \<Rightarrow> u8 list" where
  "delta_bytes d =
     pair_bytes (entry_type (fst d)) (entry_seq (fst d)) @ [if snd d then 1 else 0] @
     (if snd d then entry_data (fst d) else [])"

definition delta_image :: "(entry \<times> bool) list \<Rightarrow> u8 list" where
  "delta_image ds = concat (map delta_bytes ds)"

lemma image_simps [simp]:
  "image [] = []"
  "image (e # es) = pair_bytes (entry_type e) (entry_seq e) @ entry_data e @ image es"
  by (simp_all add: image_def entry_bytes_def)

lemma delta_image_simps [simp]:
  "delta_image [] = []"
  "delta_image (d # ds) = delta_bytes d @ delta_image ds"
  by (simp_all add: delta_image_def)

text \<open>The size of the data is the one registered for the type.\<close>

definition size_ok :: "'u entity_type_t list \<Rightarrow> entry \<Rightarrow> bool" where
  "size_ok types e \<longleftrightarrow>
     (\<exists>t. arr_at types (sint (entry_type e)) = Some t \<and>
          unat (replicated_size t) = length (entry_data e))"

definition same_sizes :: "entry list \<Rightarrow> entry list \<Rightarrow> bool" where
  "same_sizes es as \<longleftrightarrow>
     (\<forall>e \<in> set es. \<forall>a \<in> set as. entry_seq a = entry_seq e \<longrightarrow>
        length (entry_data a) = length (entry_data e))"

lemma same_sizes_Cons:
  "same_sizes (e # es) as \<Longrightarrow> same_sizes es as"
  "same_sizes (e # es) (a # as) \<Longrightarrow> same_sizes es as"
  by (auto simp: same_sizes_def)

section \<open>The sender\<close>

lemma wr_bytes_split:
  "wr_bytes b off (xs @ ys) =
     (case wr_bytes b off xs of None \<Rightarrow> None | Some b' \<Rightarrow> wr_bytes b' (off + length xs) ys)"
  by (auto simp: wr_bytes_def add.commute add.left_commute)

lemma put_delta:
  "(do { p \<leftarrow> wr_bytes packet off (pair_bytes (entry_type e) (entry_seq e));
         r \<leftarrow> put_diff p (off + 8) diff (entry_data e);
         f r }) =
   (case wr_bytes packet off (delta_bytes (e, diff)) of
      None \<Rightarrow> None
    | Some p \<Rightarrow> f (p, off + length (delta_bytes (e, diff))))"
  using wr_bytes_split [of _ _ "[1]" "entry_data e"]
  by (auto simp: delta_bytes_def put_diff_def wr_bytes_split [of _ _ "pair_bytes _ _"]
      bind_eq_None_conv ac_simps split: option.splits)

text \<open>One iteration writes the encoding of one entry.\<close>

lemma add_entities_iteration:
  assumes "cur_iter < cur_end" and "rd_pair cur cur_iter = Some (entry_type e, entry_seq e)"
    and "size_ok types e" and "rd_bytes cur (cur_iter + 8) (length (entry_data e)) = Some (entry_data e)"
    and "compare_acked ack ack_iter ack_end (entry_seq e) (entry_data e) = Some (diff, ack_iter')"
  shows "add_entities_loop types cur cur_end ack ack_end cur_iter ack_iter packet packet_iter =
    (case wr_bytes packet packet_iter (delta_bytes (e, diff)) of
       None \<Rightarrow> None
     | Some packet \<Rightarrow> add_entities_loop types cur cur_end ack ack_end
         (cur_iter + 8 + length (entry_data e)) ack_iter' packet
         (packet_iter + length (delta_bytes (e, diff))))"
proof -
  obtain t where t: "arr_at types (sint (entry_type e)) = Some t"
    "unat (replicated_size t) = length (entry_data e)"
    using assms(3) by (auto simp: size_ok_def)
  show ?thesis
    using assms(1,2,4,5) t
    by (simp add: add_entities_loop.simps [of types cur cur_end ack ack_end cur_iter] put_delta
        split: option.split)
qed

lemma add_entities_encodes:
  assumes "\<forall>e \<in> set es. size_ok types e" and "same_sizes es as"
    and "cur = cpre @ image es @ cpost" and "ack = apre @ image as @ apost"
  shows "add_entities_loop types cur (length cpre + length (image es))
           ack (length apre + length (image as)) (length cpre) (length apre) (pre @ rest) (length pre) =
         (let d = delta_image (delta es as) in
          if length d \<le> length rest then Some (pre @ d @ drop (length d) rest, length pre + length d)
          else None)"
  using assms
proof (induction es as arbitrary: cpre apre pre rest rule: delta.induct)
  case (1 as)
  then show ?case by (simp add: add_entities_loop.simps)
next
  case (2 e es)
  let ?h = "pair_bytes (entry_type e) (entry_seq e)"
  let ?d = "delta_bytes (e, True)"
  have step: "add_entities_loop types cur (length cpre + length (image (e # es))) ack
      (length apre + length (image [])) (length cpre) (length apre) (pre @ rest) (length pre) =
    (case wr_bytes (pre @ rest) (length pre) ?d of
       None \<Rightarrow> None
     | Some packet \<Rightarrow> add_entities_loop types cur (length cpre + length (image (e # es))) ack
         (length apre + length (image [])) (length cpre + 8 + length (entry_data e)) (length apre)
         packet (length pre + length ?d))"
    using 2(2,4) by (intro add_entities_iteration)
      (simp_all add: rd_pair_append rd_bytes_append [of _ "cpre @ ?h", simplified] compare_acked_def)
  have IH: "add_entities_loop types cur
        (length (cpre @ ?h @ entry_data e) + length (image es)) ack
        (length apre + length (image [])) (length (cpre @ ?h @ entry_data e)) (length apre)
        ((pre @ ?d) @ drop (length ?d) rest) (length (pre @ ?d)) =
      (let d = delta_image (delta es []) in
       if length d \<le> length (drop (length ?d) rest)
       then Some ((pre @ ?d) @ d @ drop (length d) (drop (length ?d) rest), length (pre @ ?d) + length d)
       else None)"
    using 2 by (intro "2.IH") (auto dest: same_sizes_Cons)
  show ?case
    unfolding step using IH
    by (auto simp: wr_bytes_append Let_def ac_simps)
next
  case (3 e es a as)
  let ?h = "pair_bytes (entry_type e) (entry_seq e)"
  let ?ha = "pair_bytes (entry_type a) (entry_seq a)"
  have cur: "rd_pair cur (length cpre) = Some (entry_type e, entry_seq e)"
      "rd_bytes cur (length cpre + 8) (length (entry_data e)) = Some (entry_data e)"
    using 3(5) by (simp_all add: rd_pair_append rd_bytes_append [of _ "cpre @ ?h", simplified])
  have acked: "rd_pair ack (length apre) = Some (entry_type a, entry_seq a)"
      "rd_bytes ack (length apre + 8) (length (entry_data a)) = Some (entry_data a)"
    using 3(6) by (simp_all add: rd_pair_append rd_bytes_append [of _ "apre @ ?ha", simplified])
  show ?case
  proof (cases "entry_seq a = entry_seq e")
    case True
    let ?d = "delta_bytes (e, entry_data e \<noteq> entry_data a)"
    have len: "length (entry_data a) = length (entry_data e)"
      using 3(4) True by (simp add: same_sizes_def)
    have step: "add_entities_loop types cur (length cpre + length (image (e # es))) ack
        (length apre + length (image (a # as))) (length cpre) (length apre) (pre @ rest) (length pre) =
      (case wr_bytes (pre @ rest) (length pre) ?d of
         None \<Rightarrow> None
       | Some packet \<Rightarrow> add_entities_loop types cur (length cpre + length (image (e # es))) ack
           (length apre + length (image (a # as))) (length cpre + 8 + length (entry_data e))
           (length apre + 8 + length (entry_data e)) packet (length pre + length ?d))"
      using 3(3) cur acked len True by (intro add_entities_iteration) (simp_all add: compare_acked_def)
    have IH: "add_entities_loop types cur
          (length (cpre @ ?h @ entry_data e) + length (image es)) ack
          (length (apre @ ?ha @ entry_data a) + length (image as)) (length (cpre @ ?h @ entry_data e))
          (length (apre @ ?ha @ entry_data a)) ((pre @ ?d) @ drop (length ?d) rest) (length (pre @ ?d)) =
        (let d = delta_image (delta es as) in
         if length d \<le> length (drop (length ?d) rest)
         then Some ((pre @ ?d) @ d @ drop (length d) (drop (length ?d) rest), length (pre @ ?d) + length d)
         else None)"
      using 3 True by (intro "3.IH"(1)) (auto dest: same_sizes_Cons)
    show ?thesis
      unfolding step using IH True len
      by (auto simp: wr_bytes_append Let_def ac_simps)
  next
    case False
    let ?d = "delta_bytes (e, True)"
    have step: "add_entities_loop types cur (length cpre + length (image (e # es))) ack
        (length apre + length (image (a # as))) (length cpre) (length apre) (pre @ rest) (length pre) =
      (case wr_bytes (pre @ rest) (length pre) ?d of
         None \<Rightarrow> None
       | Some packet \<Rightarrow> add_entities_loop types cur (length cpre + length (image (e # es))) ack
           (length apre + length (image (a # as))) (length cpre + 8 + length (entry_data e))
           (length apre) packet (length pre + length ?d))"
      using 3(3) cur acked False by (intro add_entities_iteration) (simp_all add: compare_acked_def)
    have IH: "add_entities_loop types cur
          (length (cpre @ ?h @ entry_data e) + length (image es)) ack
          (length apre + length (image (a # as))) (length (cpre @ ?h @ entry_data e))
          (length apre) ((pre @ ?d) @ drop (length ?d) rest) (length (pre @ ?d)) =
        (let d = delta_image (delta es (a # as)) in
         if length d \<le> length (drop (length ?d) rest)
         then Some ((pre @ ?d) @ d @ drop (length d) (drop (length ?d) rest), length (pre @ ?d) + length d)
         else None)"
      using 3 False by (intro "3.IH"(2)) (auto dest: same_sizes_Cons)
    show ?thesis
      unfolding step using IH False
      by (auto simp: wr_bytes_append Let_def ac_simps)
  qed
qed

section \<open>Snapshots\<close>

text \<open>The replicated data of one entity.\<close>

primrec component_bytes :: "ecs_t \<Rightarrow> ecs_entity_ref_t \<Rightarrow> u64 \<Rightarrow> nat list \<Rightarrow> u8 list option" where
  "component_bytes ecs ref m [] = Some []"
| "component_bytes ecs ref m (c # cs) =
     (if bit m c then do {
        component_data \<leftarrow> ecs_entity_get_component ecs ref (int c) True;
        component_size \<leftarrow> ecs_get_component_type_size ecs (int c);
        p \<leftarrow> component_data;
        bs \<leftarrow> comp_read ecs p (unat component_size);
        rest \<leftarrow> component_bytes ecs ref m cs;
        Some (bs @ rest)
      } else component_bytes ecs ref m cs)"

lemma comp_read_length: "comp_read ecs p n = Some bs \<Longrightarrow> length bs = n"
  by (auto simp: comp_read_def bind_eq_Some_conv dest: rd_bytes_length)

lemma copy_components_eq:
  assumes "component_bytes ecs ref m cs = Some bs" and "length bs \<le> length rest"
  shows "copy_components ecs ref m cs (pre @ rest) (length pre) =
    Some (pre @ bs @ drop (length bs) rest, length pre + length bs)"
  using assms
proof (induction cs arbitrary: pre rest bs)
  case Nil
  then show ?case by simp
next
  case (Cons c cs)
  show ?case
  proof (cases "bit m c")
    case True
    with Cons.prems obtain p n b1 b2 where
      "ecs_entity_get_component ecs ref (int c) True = Some (Some p)"
      "ecs_get_component_type_size ecs (int c) = Some n"
      "comp_read ecs p (unat n) = Some b1" "component_bytes ecs ref m cs = Some b2" "bs = b1 @ b2"
      by (auto simp: bind_eq_Some_conv)
    moreover from this have "length b1 = unat n" by (auto dest: comp_read_length)
    ultimately show ?thesis
      using Cons.prems Cons.IH [of b2 "drop (length b1) rest" "pre @ b1"] True
      by (simp add: wr_bytes_append add.commute)
  next
    case False
    with Cons show ?thesis by simp
  qed
qed

text \<open>An entity whose data can be replicated, and the entry it contributes.\<close>

definition entity_entry :: "ecs_t \<Rightarrow> 'u entity_type_t list \<Rightarrow> entity_data_t \<Rightarrow> entry option" where
  "entity_entry ecs types e = do {
     t \<leftarrow> arr_at types (sint (ed_type e));
     bs \<leftarrow> component_bytes ecs (ed_ref e) (replicated_component_mask t) [0..<64];
     if unat (replicated_size t) = length bs \<and> length bs < 2 ^ 63
     then Some (ed_type e, sequence (ed_ref e), bs) else None
   }"

lemma entity_entry_size_ok: "entity_entry ecs types e = Some x \<Longrightarrow> size_ok types x"
  by (auto simp: entity_entry_def size_ok_def bind_eq_Some_conv split: if_splits)

text \<open>The entries that are written when \<open>room\<close> bytes are left: one that does not fit is skipped.\<close>

fun fitting :: "nat \<Rightarrow> entry list \<Rightarrow> entry list" where
  "fitting room [] = []"
| "fitting room (e # es) =
     (if 8 + length (entry_data e) < room
      then e # fitting (room - (8 + length (entry_data e))) es
      else fitting room es)"

lemma fitting_length: "0 < room \<Longrightarrow> length (image (fitting room es)) < room"
  by (induction room es rule: fitting.induct) auto

lemma fitting_subset: "set (fitting room es) \<subseteq> set es"
  by (induction room es rule: fitting.induct) auto

lemma fitting_all: "length (image es) < room \<Longrightarrow> fitting room es = es"
  by (induction room es rule: fitting.induct) auto

lemma replicated_fits:
  assumes "entity_entry ecs types e = Some x" and "arr_at types (sint (ed_type e)) = Some t"
    and "n < 2 ^ 64"
  shows "replicated_size t + 8 < word_of_nat n \<longleftrightarrow> 8 + length (entry_data x) < n"
proof -
  from assms(1,2) have x: "unat (replicated_size t) = length (entry_data x)" "length (entry_data x) < 2 ^ 63"
    by (auto simp: entity_entry_def bind_eq_Some_conv split: if_splits)
  then have "unat (replicated_size t + 8) = length (entry_data x) + 8"
    using unat_add_lem [of "replicated_size t" 8] by simp
  moreover have "unat (word_of_nat n :: u64) = n"
    using assms(3) by (simp add: unat_of_nat take_bit_nat_eq_self)
  ultimately show ?thesis
    by (simp add: word_less_nat_alt add.commute)
qed

lemma snapshot_loop_eq:
  assumes ok: "ecs_ok ecs" and "\<forall>e \<in> set es. ref_in_range (ed_ref e)"
    and "\<forall>e \<in> set (takeWhile (\<lambda>e. live ecs (ed_ref e)) es). entity_entry ecs types e \<noteq> None"
    and "length pre + length rest < 2 ^ 64"
  shows "snapshot_loop ecs types es (pre @ rest) (length pre) =
    (let d = image (fitting (length rest)
         (map (\<lambda>e. the (entity_entry ecs types e)) (takeWhile (\<lambda>e. live ecs (ed_ref e)) es)))
     in Some (pre @ d @ drop (length d) rest, length pre + length d))"
  using assms(2-)
proof (induction es arbitrary: pre rest)
  case Nil
  then show ?case by simp
next
  case (Cons e es)
  have valid: "ecs_is_entity_ref_valid ecs (ed_ref e) True = Some (live ecs (ed_ref e))"
    using valid_defined [OF ok, of "ed_ref e" True] Cons.prems(1) by (simp add: live_def)
  show ?case
  proof (cases "live ecs (ed_ref e)")
    case False
    with valid show ?thesis by simp
  next
    case True
    then obtain x where x: "entity_entry ecs types e = Some x"
      using Cons.prems(2) by auto
    then obtain t bs where t: "arr_at types (sint (ed_type e)) = Some t"
      "component_bytes ecs (ed_ref e) (replicated_component_mask t) [0..<64] = Some bs"
      "x = (ed_type e, sequence (ed_ref e), bs)"
      by (auto simp: entity_entry_def bind_eq_Some_conv split: if_splits)
    note fits = replicated_fits [OF x t(1), of "length rest"]
    let ?h = "pair_bytes (ed_type e) (sequence (ed_ref e))"
    show ?thesis
    proof (cases "8 + length bs < length rest")
      case f: True
      have "copy_components ecs (ed_ref e) (replicated_component_mask t) [0..<64]
          ((pre @ ?h) @ drop 8 rest) (length (pre @ ?h)) =
        Some ((pre @ ?h) @ bs @ drop (length bs) (drop 8 rest), length (pre @ ?h) + length bs)"
        using f by (intro copy_components_eq [OF t(2)]) simp
      moreover have "snapshot_loop ecs types es ((pre @ ?h @ bs) @ drop (8 + length bs) rest)
          (length (pre @ ?h @ bs)) =
        (let d = image (fitting (length (drop (8 + length bs) rest))
             (map (\<lambda>e. the (entity_entry ecs types e)) (takeWhile (\<lambda>e. live ecs (ed_ref e)) es)))
         in Some ((pre @ ?h @ bs) @ d @ drop (length d) (drop (8 + length bs) rest),
                  length (pre @ ?h @ bs) + length d))"
        using Cons.prems True f by (intro Cons.IH) auto
      ultimately show ?thesis
        using True f fits Cons.prems(3) x t valid
        by (simp add: wr_bytes_append Let_def ac_simps)
    next
      case False
      then show ?thesis
        using True fits Cons.prems Cons.IH [of pre rest] x t valid by simp
    qed
  qed
qed

end
