(* ===== verification/Net_Protocol.thy ===== *)
theory Net_Protocol
  imports Net_Delta
begin

text \<open>
  What the sender of \<^verbatim>\<open>net.c\<close> guarantees: the snapshot holds the registered entities up to the
  first dead one, the packet is the delta against the acknowledged snapshot and decodes to the
  current one if the receiver still has the acknowledged state, and where each of these fails.
\<close>

section \<open>Decoding\<close>

definition to_map :: "entry list \<Rightarrow> c_int \<Rightarrow> u8 list option" where
  "to_map es = map_of (map (\<lambda>e. (entry_seq e, entry_data e)) es)"

text \<open>What a receiver with the data \<open>old\<close> per entity has after a packet.\<close>

definition apply_delta ::
  "(entry \<times> bool) list \<Rightarrow> (c_int \<Rightarrow> u8 list option) \<Rightarrow> c_int \<Rightarrow> u8 list option" where
  "apply_delta ds old s =
     (case find (\<lambda>d. entry_seq (fst d) = s) ds of
        None \<Rightarrow> None
      | Some (e, diff) \<Rightarrow> if diff then Some (entry_data e) else old s)"

lemma map_fst_delta [simp]: "map fst (delta es as) = es"
  by (induction es as rule: delta.induct) auto

lemma delta_unchanged:
  "(e, False) \<in> set (delta es as) \<Longrightarrow>
   \<exists>a \<in> set as. entry_seq a = entry_seq e \<and> entry_data a = entry_data e"
  by (induction es as rule: delta.induct) (auto split: if_splits)

lemma to_map_in: "distinct (map entry_seq es) \<Longrightarrow> e \<in> set es \<Longrightarrow> to_map es (entry_seq e) = Some (entry_data e)"
  unfolding to_map_def by (rule map_of_is_SomeI) (auto simp: o_def)

lemma to_map_None: "to_map es s = None \<longleftrightarrow> s \<notin> entry_seq ` set es"
  unfolding to_map_def by (auto simp: map_of_eq_None_iff image_iff)

lemma find_SomeD: "find P xs = Some x \<Longrightarrow> x \<in> set xs \<and> P x"
  by (auto simp: find_Some_iff)

lemma apply_delta_roundtrip:
  assumes "distinct (map entry_seq es)" and "distinct (map entry_seq as)"
  shows "apply_delta (delta es as) (to_map as) = to_map es"
proof
  fix s
  let ?P = "\<lambda>d :: entry \<times> bool. entry_seq (fst d) = s"
  show "apply_delta (delta es as) (to_map as) s = to_map es s"
  proof (cases "find ?P (delta es as)")
    case None
    have "entry_seq e \<noteq> s" if "e \<in> set es" for e
    proof -
      from that have "e \<in> fst ` set (delta es as)"
        using map_fst_delta [of es as] by (metis set_map)
      with None show ?thesis by (auto simp: find_None_iff)
    qed
    then have "to_map es s = None" by (auto simp: to_map_None)
    with None show ?thesis by (simp add: apply_delta_def)
  next
    case (Some d)
    obtain e diff where d: "d = (e, diff)" by fastforce
    with find_SomeD [OF Some] have ds: "(e, diff) \<in> set (delta es as)" "entry_seq e = s" by auto
    then have "e \<in> fst ` set (delta es as)" by force
    then have "e \<in> set es" using map_fst_delta [of es as] by (metis set_map)
    then have e: "to_map es s = Some (entry_data e)"
      using to_map_in [OF assms(1), of e] ds(2) by simp
    show ?thesis
    proof (cases diff)
      case True
      with Some d e show ?thesis by (simp add: apply_delta_def)
    next
      case False
      with ds delta_unchanged obtain a where "a \<in> set as" "entry_seq a = s" "entry_data a = entry_data e"
        by metis
      with to_map_in [OF assms(2), of a] Some d e False show ?thesis
        by (simp add: apply_delta_def)
    qed
  qed
qed

lemma delta_self: "delta es es = map (\<lambda>e. (e, False)) es"
  by (induction es) auto

lemma delta_self_image: "length (delta_image (map (\<lambda>e. (e, False)) es)) = 9 * length es"
  by (induction es) (auto simp: delta_bytes_def)

lemma apply_delta_unchanged:
  assumes "e \<in> set es"
  shows "apply_delta (map (\<lambda>e. (e, False)) es) old (entry_seq e) = old (entry_seq e)"
proof (cases "find (\<lambda>d. entry_seq (fst d) = entry_seq e) (map (\<lambda>e. (e, False)) es)")
  case None
  with assms show ?thesis by (auto simp: find_None_iff)
next
  case (Some d)
  with find_SomeD [OF Some] show ?thesis by (auto simp: apply_delta_def)
qed

section \<open>Snapshots of a net\<close>

definition snapshots_ok :: "('s, 't, 'u) net_t \<Rightarrow> bool" where
  "snapshots_ok net \<longleftrightarrow>
     length (snapshots net) = k_max_snapshots \<and>
     (\<forall>s \<in> set (snapshots net). length (snap_data s) = k_net_mtu \<and>
        0 \<le> snap_size s \<and> snap_size s \<le> int k_net_mtu)"

definition current_snapshot :: "('s, 't, 'u) net_t \<Rightarrow> snapshot_t" where
  "current_snapshot net = snapshots net ! snapshot_index (net_sequence net)"

text \<open>The snapshot in the slot of the acknowledged sequence number.\<close>

definition acked_snapshot :: "('s, 't, 'u) net_t \<Rightarrow> ('s, 't) connection_t \<Rightarrow> snapshot_t" where
  "acked_snapshot net c = snapshots net ! snapshot_index (ack_sequence c)"

definition holds :: "snapshot_t \<Rightarrow> entry list \<Rightarrow> bool" where
  "holds snap es \<longleftrightarrow> snap_size snap = int (length (image es)) \<and>
     take (length (image es)) (snap_data snap) = image es"

text \<open>The entries the sender compares against: none if the slot has been reused since.\<close>

definition holds_acked :: "('s, 't, 'u) net_t \<Rightarrow> ('s, 't) connection_t \<Rightarrow> entry list \<Rightarrow> bool" where
  "holds_acked net c as \<longleftrightarrow>
     (if snap_sequence (acked_snapshot net c) = ack_sequence c then holds (acked_snapshot net c) as
      else as = [])"

lemma snapshot_index_less [simp]: "snapshot_index s < 256"
  by (simp add: snapshot_index_def)

lemma snapshot_at:
  assumes "snapshots_ok net"
  shows "arr_get (snapshots net) (snapshot_index s) = Some (snapshots net ! snapshot_index s)"
    and "length (snap_data (snapshots net ! snapshot_index s)) = 1024"
    and "0 \<le> snap_size (snapshots net ! snapshot_index s)"
    and "snap_size (snapshots net ! snapshot_index s) \<le> 1024"
proof -
  have "snapshots net ! snapshot_index s \<in> set (snapshots net)"
    using assms by (intro nth_mem) (simp add: snapshots_ok_def)
  with assms show "length (snap_data (snapshots net ! snapshot_index s)) = 1024"
    and "0 \<le> snap_size (snapshots net ! snapshot_index s)"
    and "snap_size (snapshots net ! snapshot_index s) \<le> 1024"
    by (auto simp: snapshots_ok_def)
  show "arr_get (snapshots net) (snapshot_index s) = Some (snapshots net ! snapshot_index s)"
    using assms by (simp add: snapshots_ok_def)
qed

lemma holds_split: "holds snap es \<Longrightarrow> snap_data snap = [] @ image es @ drop (length (image es)) (snap_data snap)"
  by (metis append_Nil append_take_drop_id holds_def)

lemma packet_add_entities_eq:
  assumes ok: "snapshots_ok net" and cur: "holds (current_snapshot net) es"
    and types: "\<forall>e \<in> set es. size_ok (entity_types net) e"
    and acked: "holds_acked net c as" and same: "same_sizes es as"
  shows "packet_add_entities net c (pre @ rest) (length pre) cap =
    (let d = delta_image (delta es as) in
     if length d \<le> length rest then Some (pre @ d @ drop (length d) rest, length d) else None)"
proof -
  let ?cur = "current_snapshot net" and ?ack = "acked_snapshot net c"
  let ?stop = "nat (snap_size ?ack)"
  note cur' = holds_split [OF cur]
  have curs: "nat (snap_size ?cur) = length ([] :: u8 list) + length (image es)"
    using cur by (simp add: holds_def)
  have loop: "add_entities_loop (entity_types net) (snap_data ?cur) (nat (snap_size ?cur))
      (snap_data ?ack) ?stop 0 (if snap_sequence ?ack \<noteq> ack_sequence c then ?stop else 0)
      (pre @ rest) (length pre) =
    (let d = delta_image (delta es as) in
     if length d \<le> length rest then Some (pre @ d @ drop (length d) rest, length pre + length d) else None)"
  proof (cases "snap_sequence ?ack = ack_sequence c")
    case True
    with acked have h: "holds ?ack as" by (simp add: holds_acked_def)
    then have "?stop = length ([] :: u8 list) + length (image as)" by (simp add: holds_def)
    with add_entities_encodes [OF types same cur' holds_split [OF h], of pre rest] True curs
    show ?thesis by simp
  next
    case False
    with acked have as: "as = []" by (simp add: holds_acked_def)
    have "?stop \<le> length (snap_data ?ack)"
      using snapshot_at [OF ok, of "ack_sequence c"] by (simp add: acked_snapshot_def)
    then have "snap_data ?ack = take ?stop (snap_data ?ack) @ image [] @ drop ?stop (snap_data ?ack)"
      and "length (take ?stop (snap_data ?ack)) = ?stop" by simp_all
    with add_entities_encodes [OF types same [unfolded as] cur' this(1), of pre rest] False curs as
    show ?thesis by simp
  qed
  show ?thesis
    using loop snapshot_at(1) [OF ok]
    by (simp add: packet_add_entities_def Let_def current_snapshot_def acked_snapshot_def cong: if_cong)
qed

lemma make_packet_eq:
  assumes "snapshots_ok net" and "holds (current_snapshot net) es"
    and "\<forall>e \<in> set es. size_ok (entity_types net) e"
    and "holds_acked net c as" and "same_sizes es as" and mem: "length mem = 1024"
  shows "make_packet net c (Some mem) =
    (let d = delta_image (delta es as); h = pair_bytes (net_sequence net) (incoming_sequence c) in
     if length d \<le> 1016
     then Some \<lparr>packet_size = 8 + int (length d), packet_data = h @ d @ drop (8 + length d) mem\<rparr>
     else None)"
proof -
  have "wr_bytes mem 0 (pair_bytes (net_sequence net) (incoming_sequence c)) =
      Some (pair_bytes (net_sequence net) (incoming_sequence c) @ drop 8 mem)"
    using mem by (simp add: wr_bytes_def)
  then show ?thesis
    using packet_add_entities_eq [OF assms(1-5), of "pair_bytes (net_sequence net) (incoming_sequence c)" "drop 8 mem"] mem
    by (simp add: make_packet_def Let_def add.commute)
qed

section \<open>A sample net\<close>

text \<open>One entity of type 0 whose 16 byte transform is replicated; the snapshot of frame 0 holds it.\<close>

definition sample_type :: "nat entity_type_t" where
  "sample_type = \<lparr>et_component_mask = 5, replicated_component_mask = 1,
     configure_callback = Some (\<lambda>ecs ref t u. ecs), configure_callback_data = None, replicated_size = 16\<rparr>"

definition sample_slot :: entity_data_t where
  "sample_slot = zero_entity\<lparr>ed_ref := \<lparr>entity = 0, sequence = 1\<rparr>\<rparr>"

definition sample_entry :: entry where
  "sample_entry = (0, 1, replicate 16 0)"

definition sample_net :: "(nat \<times> nat, nat, nat) net_t" where
  "sample_net = (net_create one_component)
     \<lparr>entity_types := sample_type # replicate 31 zero_type,
      net_entities := sample_slot # replicate 31 zero_entity,
      snapshots := \<lparr>snap_sequence = 0, snap_size = 24, snap_data = image [sample_entry] @ replicate 1000 0\<rparr>
        # replicate 255 \<lparr>snap_sequence = 0, snap_size = 0, snap_data = replicate 1024 0\<rparr>\<rparr>"

definition sample_connection :: "c_int \<Rightarrow> (nat \<times> nat, nat) connection_t" where
  "sample_connection ack = zero_connection\<lparr>incoming_sequence := -1, ack_sequence := ack\<rparr>"

lemma component_bytes_none: "\<forall>c \<in> set cs. \<not> bit m c \<Longrightarrow> component_bytes ecs ref m cs = Some []"
  by (induction cs) auto

lemma sample_entity_entry: "entity_entry one_component (entity_types sample_net) sample_slot = Some sample_entry"
proof -
  obtain off where off: "ecs_entity_get_component one_component \<lparr>entity = 0, sequence = 1\<rparr> (int 0) True = Some (Some (0, off))"
    "unat off = 16 * 0"
    by (rule get_component_pointer [OF one_component_ok one_component_has])
  have sz: "ecs_get_component_type_size one_component 0 = Some 16"
    using one_component_ok ecs_inv_ok [OF one_entity_inv]
    by (simp add: ecs_get_component_type_size_def ecs_ok_def one_component_def registered_def)
  have "comp_read one_component (0, off) 16 = Some (replicate 16 0)"
    using ecs_inv_ok [OF one_entity_inv] off(2)
    by (simp add: comp_read_def one_component_def registered_def ecs_ok_def rd_bytes_def)
  moreover have "component_bytes one_component \<lparr>entity = 0, sequence = 1\<rparr> 1 [Suc 0..<64] = Some []"
    by (rule component_bytes_none) (auto simp: bit_simps)
  ultimately have "component_bytes one_component \<lparr>entity = 0, sequence = 1\<rparr> 1 [0..<64] = Some (replicate 16 0)"
    using off(1) sz upt_conv_Cons [of 0 64] by simp
  then show ?thesis
    by (simp add: entity_entry_def sample_slot_def zero_entity_def sample_net_def sample_type_def
        sample_entry_def arr_at_def)
qed

lemma sample_live:
  "live one_component (ed_ref sample_slot)" "\<not> live one_component (ed_ref zero_entity)"
proof -
  show "live one_component (ed_ref sample_slot)"
    using one_component_has by (simp add: has_component_def sample_slot_def)
  have "sequences one_component ! 0 = 1"
    by (simp add: one_component_def registered_def one_entity_def new_world_def ecs_create_def ecs_entity_add_first)
  then show "\<not> live one_component (ed_ref zero_entity)"
    by (auto simp: live_iff [OF one_component_ok] names_slot_def zero_entity_def)
qed

lemma sample_net_facts:
  "net_ecs sample_net = one_component" "net_sequence sample_net = 0"
  "net_entities sample_net = sample_slot # replicate 31 zero_entity" "snapshots_ok sample_net"
  "current_snapshot sample_net =
     \<lparr>snap_sequence = 0, snap_size = 24, snap_data = image [sample_entry] @ replicate 1000 0\<rparr>"
  "holds (current_snapshot sample_net) [sample_entry]"
  "size_ok (entity_types sample_net) sample_entry"
proof -
  have s: "snapshot_index 0 = 0" by (simp add: snapshot_index_def)
  show "net_ecs sample_net = one_component" "net_sequence sample_net = 0"
    "net_entities sample_net = sample_slot # replicate 31 zero_entity" "snapshots_ok sample_net"
    "current_snapshot sample_net =
       \<lparr>snap_sequence = 0, snap_size = 24, snap_data = image [sample_entry] @ replicate 1000 0\<rparr>"
    using s by (simp_all add: sample_net_def net_create_def snapshots_ok_def current_snapshot_def sample_entry_def)
  then show "holds (current_snapshot sample_net) [sample_entry]"
    by (simp add: holds_def sample_entry_def)
  show "size_ok (entity_types sample_net) sample_entry"
    by (rule entity_entry_size_ok [OF sample_entity_entry])
qed

section \<open>Properties\<close>

text \<open>C12. The snapshot of a frame is the concatenation of the entries of the registered entities, in
  the order of their slots, up to the first slot whose entity is dead, without the entries that
  do not fit; it never fills the whole buffer, and no other snapshot changes.\<close>

theorem net_snapshot_image:
  assumes ok: "ecs_ok (net_ecs net)" and snaps: "snapshots_ok net"
    and range: "\<forall>e \<in> set (net_entities net). ref_in_range (ed_ref e)"
    and entries: "entries = map (entity_entry (net_ecs net) (entity_types net))
      (takeWhile (\<lambda>e. live (net_ecs net) (ed_ref e)) (net_entities net))"
    and defined: "None \<notin> set entries"
  shows "\<exists>net'. snapshot_entities net = Some net' \<and> snapshots_ok net' \<and>
    holds (current_snapshot net') (fitting 1024 (map the entries)) \<and>
    snap_sequence (current_snapshot net') = net_sequence net \<and>
    snap_size (current_snapshot net') < 1024 \<and>
    (\<forall>i. i \<noteq> snapshot_index (net_sequence net) \<longrightarrow> snapshots net' ! i = snapshots net ! i)"
proof -
  let ?i = "snapshot_index (net_sequence net)"
  let ?data = "snap_data (snapshots net ! ?i)"
  let ?d = "image (fitting 1024 (map the entries))"
  note snap = snapshot_at [OF snaps, of "net_sequence net"]
  have "\<forall>e \<in> set (takeWhile (\<lambda>e. live (net_ecs net) (ed_ref e)) (net_entities net)).
      entity_entry (net_ecs net) (entity_types net) e \<noteq> None"
    using defined unfolding entries set_map by (metis image_eqI)
  then have loop: "snapshot_loop (net_ecs net) (entity_types net) (net_entities net) ?data 0 =
      Some (?d @ drop (length ?d) ?data, length ?d)"
    using snapshot_loop_eq [OF ok range, of "entity_types net" "[]" ?data] snap
    by (simp add: entries Let_def o_def)
  have size: "length ?d < 1024" by (rule fitting_length) simp
  let ?net' = "net\<lparr>snapshots := (snapshots net)
    [?i := \<lparr>snap_sequence = net_sequence net, snap_size = int (length ?d),
      snap_data = ?d @ drop (length ?d) ?data\<rparr>]\<rparr>"
  have "snapshot_entities net = Some ?net'"
    using snap loop by (simp add: snapshot_entities_def Let_def)
  moreover have "snapshots_ok ?net'"
    using snaps snap size by (auto simp: snapshots_ok_def dest!: set_update_subset_insert [THEN subsetD])
  moreover have "current_snapshot ?net' = \<lparr>snap_sequence = net_sequence net, snap_size = int (length ?d),
      snap_data = ?d @ drop (length ?d) ?data\<rparr>"
    using snaps by (simp add: current_snapshot_def snapshots_ok_def)
  ultimately show ?thesis
    using size by (intro exI [of _ ?net']) (simp add: holds_def)
qed

theorem net_snapshot_image_witness:
  "\<exists>net'. snapshot_entities sample_net = Some net' \<and> holds (current_snapshot net') [sample_entry]"
proof -
  let ?es = "map (entity_entry (net_ecs sample_net) (entity_types sample_net))
    (takeWhile (\<lambda>e. live (net_ecs sample_net) (ed_ref e)) (net_entities sample_net))"
  have "takeWhile (\<lambda>e. live one_component (ed_ref e)) (sample_slot # replicate 31 zero_entity) = [sample_slot]"
    using sample_live takeWhile_eq_Nil_iff [of _ "replicate 31 zero_entity"] by (auto simp: hd_replicate)
  then have es: "?es = [Some sample_entry]"
    by (simp add: sample_net_facts sample_entity_entry)
  have fit: "fitting 1024 (map the [Some sample_entry]) = [sample_entry]"
    by (simp add: sample_entry_def)
  have "\<forall>e \<in> set (net_entities sample_net). ref_in_range (ed_ref e)"
    by (simp add: sample_net_facts ref_in_range_def sample_slot_def zero_entity_def)
  then show ?thesis
    using net_snapshot_image [OF _ _ _ es [symmetric]] fit one_component_ok sample_net_facts(1,4) by auto
qed

text \<open>A registered entity that dies hides every entity registered after it: with a dead one in
  the first slot the snapshot is empty, whatever else is alive.\<close>

theorem net_dead_slot_hides_rest:
  assumes "ecs_ok (net_ecs net)" and "snapshots_ok net" and "net_entities net = e # es"
    and "ref_in_range (ed_ref e)" and "\<not> live (net_ecs net) (ed_ref e)"
  shows "\<exists>net'. snapshot_entities net = Some net' \<and> snap_size (current_snapshot net') = 0"
proof -
  have "ecs_is_entity_ref_valid (net_ecs net) (ed_ref e) True = Some False"
    using valid_defined [OF assms(1,4), of True] assms(5) by (simp add: live_def)
  with assms(2,3) snapshot_at(1) [OF assms(2), of "net_sequence net"] show ?thesis
    by (auto simp: snapshot_entities_def current_snapshot_def snapshots_ok_def Let_def)
qed

theorem net_dead_slot_hides_rest_witness:
  "\<exists>net'. snapshot_entities (sample_net\<lparr>net_entities := [zero_entity, sample_slot]\<rparr>) = Some net' \<and>
     snap_size (current_snapshot net') = 0"
  using net_dead_slot_hides_rest [of "sample_net\<lparr>net_entities := [zero_entity, sample_slot]\<rparr>" zero_entity
      "[sample_slot]"] sample_net_facts(1,4) one_component_ok sample_live(2)
  by (simp add: snapshots_ok_def ref_in_range_def zero_entity_def)



text \<open>A receiver that has read a newer packet than the acknowledged one keeps its newer data for
  the entities that have returned to their acknowledged value: the packet then carries no data
  at all.\<close>

theorem net_stale_ack_sends_nothing:
  assumes "snapshots_ok net" and "holds (current_snapshot net) es"
    and "\<forall>e \<in> set es. size_ok (entity_types net) e"
    and "snap_sequence (acked_snapshot net c) = ack_sequence c"
    and "holds (acked_snapshot net c) es" and "distinct (map entry_seq es)" and "length mem = 1024"
    and "length es \<le> 32"
    and "e \<in> set es" and "newer (entry_seq e) = Some bs" and "bs \<noteq> entry_data e"
  shows "\<exists>p. make_packet net c (Some mem) = Some p \<and> packet_size p = 8 + 9 * int (length es) \<and>
    take (nat (packet_size p)) (packet_data p) =
      pair_bytes (net_sequence net) (incoming_sequence c) @ delta_image (delta es es) \<and>
    apply_delta (delta es es) newer (entry_seq e) = Some bs \<and>
    to_map es (entry_seq e) = Some (entry_data e)"
proof -
  have "same_sizes es es"
    using assms(6) by (auto simp: same_sizes_def dest!: distinct_map [THEN iffD1] inj_onD)
  moreover have "holds_acked net c es" using assms(4,5) by (simp add: holds_acked_def)
  ultimately show ?thesis
    using make_packet_eq [OF assms(1-3) _ _ assms(7), of c es] assms(8) delta_self_image [of es]
      apply_delta_unchanged [OF assms(9), of newer] to_map_in [OF assms(6,9)] assms(10)
    by (auto simp: Let_def delta_self nat_add_distrib nat_mult_distrib)
qed

theorem net_stale_ack_sends_nothing_witness:
  "\<exists>p. make_packet sample_net (sample_connection 0) (Some (replicate 1024 9)) = Some p \<and> packet_size p = 17 \<and>
     apply_delta (delta [sample_entry] [sample_entry]) [1 \<mapsto> replicate 16 7] 1 = Some (replicate 16 7) \<and>
     to_map [sample_entry] 1 = Some (replicate 16 0)"
proof -
  have "acked_snapshot sample_net (sample_connection 0) = current_snapshot sample_net"
    by (simp add: acked_snapshot_def current_snapshot_def sample_connection_def sample_net_facts(2))
  then show ?thesis
    using net_stale_ack_sends_nothing [of sample_net "[sample_entry]" "sample_connection 0"
        "replicate 1024 9" sample_entry "[1 \<mapsto> replicate 16 7]" "replicate 16 7"] sample_net_facts
    by (auto simp: sample_connection_def sample_entry_def)
qed

end
