(* ===== verification/Net_Connections.thy ===== *)
theory Net_Connections
  imports Net_Protocol
begin

text \<open>
  The connections of \<^verbatim>\<open>net.c\<close>: the table of three, looked up by address, with its time-outs;
  and what arriving packets can do to a connection.
\<close>

section \<open>The table\<close>

definition used :: "('s, 't) connection_t \<Rightarrow> bool" where
  "used c \<longleftrightarrow> port (address c) \<noteq> 0"

text \<open>Free slots are cleared, used ones have different addresses and both queues.\<close>

definition conns_ok :: "('s, 't) connection_t list \<Rightarrow> bool" where
  "conns_ok cs \<longleftrightarrow> length cs = 3 \<and>
     (\<forall>c \<in> set cs. if used c then send_queue c \<noteq> None \<and> recv_queue c \<noteq> None
                  else c = zero_connection) \<and>
     (\<forall>i < 3. \<forall>j < 3. i \<noteq> j \<longrightarrow> used (cs ! i) \<longrightarrow> address (cs ! i) \<noteq> address (cs ! j))"

lemma conns_ok_create: "conns_ok (connections (net_create ecs))"
  by (auto simp: conns_ok_def net_create_def used_def zero_connection_def)

lemma find_or_create_cases:
  obtains
    (found) i where "find_or_create_connection queues thread now addr net = (Some i, net)"
      and "i < length (connections net)" and "address (connections net ! i) = addr"
  | (new) i where "i < length (connections net)" and "port (address (connections net ! i)) = 0"
      and "\<And>j. j < length (connections net) \<Longrightarrow> address (connections net ! j) \<noteq> addr"
      and "find_or_create_connection queues thread now addr net =
        (Some i, net\<lparr>connections := (connections net)[i := (connections net ! i)
           \<lparr>address := addr, incoming_sequence := -1, ack_sequence := -1, last_recv_ms := now,
            send_queue := fst queues, recv_queue := snd queues, send_thread := thread\<rparr>]\<rparr>)"
  | (full) "find_or_create_connection queues thread now addr net = (None, net)"
      and "\<And>j. j < length (connections net) \<Longrightarrow>
        address (connections net ! j) \<noteq> addr \<and> port (address (connections net ! j)) \<noteq> 0"
proof (cases "scan (\<lambda>i. address (connections net ! i) = addr) 0 (length (connections net))")
  case (Some i)
  then have "find_or_create_connection queues thread now addr net = (Some i, net)"
    by (simp add: find_or_create_connection_def Let_def)
  with found show ?thesis using scan_SomeD [OF Some] by auto
next
  case None
  note no = None [unfolded scan_None_iff, rule_format, OF le0]
  show ?thesis
  proof (cases "scan (\<lambda>i. port (address (connections net ! i)) = 0) 0 (length (connections net))")
    case (Some i)
    have "find_or_create_connection queues thread now addr net =
        (Some i, net\<lparr>connections := (connections net)[i := (connections net ! i)
           \<lparr>address := addr, incoming_sequence := -1, ack_sequence := -1, last_recv_ms := now,
            send_queue := fst queues, recv_queue := snd queues, send_thread := thread\<rparr>]\<rparr>)"
      by (simp add: find_or_create_connection_def Let_def None Some)
    with scan_SomeD [OF Some] no show ?thesis by (intro new [of i]) auto
  next
    case full': None
    have "find_or_create_connection queues thread now addr net = (None, net)"
      by (simp add: find_or_create_connection_def Let_def None full')
    moreover have "port (address (connections net ! j)) \<noteq> 0" if "j < length (connections net)" for j
      using full' that by (simp add: scan_None_iff)
    ultimately show ?thesis using no by (intro full) auto
  qed
qed

lemma conns_ok_add:
  assumes ok: "conns_ok cs" and i: "i < length cs" and new: "used c" "send_queue c \<noteq> None" "recv_queue c \<noteq> None"
    and fresh: "\<And>j. j < length cs \<Longrightarrow> address (cs ! j) \<noteq> address c"
  shows "conns_ok (cs[i := c])"
proof -
  have len: "length cs = 3" using ok by (simp add: conns_ok_def)
  have "\<forall>x \<in> set (cs[i := c]). if used x then send_queue x \<noteq> None \<and> recv_queue x \<noteq> None
      else x = zero_connection"
  proof
    fix x
    assume "x \<in> set (cs[i := c])"
    then have "x = c \<or> x \<in> set cs" using set_update_subset_insert [of cs i c] by auto
    with ok new show "if used x then send_queue x \<noteq> None \<and> recv_queue x \<noteq> None else x = zero_connection"
      unfolding conns_ok_def by metis
  qed
  moreover have "\<forall>j < 3. \<forall>k < 3. j \<noteq> k \<longrightarrow> used (cs[i := c] ! j) \<longrightarrow>
      address (cs[i := c] ! j) \<noteq> address (cs[i := c] ! k)"
    using ok fresh i len unfolding conns_ok_def by (auto simp: nth_list_update) metis
  ultimately show ?thesis using len by (simp add: conns_ok_def)
qed

section \<open>Closing connections\<close>

lemma close_where_Returns:
  "close_where P K cs = Returns cs' \<Longrightarrow> cs' = map (\<lambda>c. if P c then zero_connection else c) cs"
  by (induction cs arbitrary: cs')
    (auto simp: close_connection_def split: if_splits outcome.splits option.splits)

lemma close_where_none:
  "\<forall>c \<in> set cs. \<not> P c \<Longrightarrow> close_where P K cs = Returns cs"
  by (induction cs) auto

lemma timeout_iff:
  assumes "unat (last_recv_ms c) + 5000 < 2 ^ 32"
  shows "timed_out now c \<longleftrightarrow> used c \<and> unat (last_recv_ms c) + 5000 < unat now"
  using assms unat_add_lem [of "last_recv_ms c" 5000]
  by (simp add: timed_out_def used_def word_less_nat_alt)

section \<open>Receiving\<close>

lemma packet_accept_seq:
  assumes "packet_accept net c p = Some (freed, net', c')"
  shows "if freed then sint (incoming_sequence c) < sint (incoming_sequence c') else net' = net \<and> c' = c"
  using assms by (auto simp: packet_accept_def bind_eq_Some_conv split: if_splits)

text \<open>One step of the receive loop.\<close>

lemma packet_recv_step:
  assumes "packet_recv (Suc fuel) K net c = Some r"
  obtains (stop) q' where "r = (net, c\<lparr>recv_queue := Some q'\<rparr>)"
  | (packet) q' p freed net1 c1 where
      "packet_accept net (c\<lparr>recv_queue := Some q'\<rparr>) p = Some (freed, net1, c1)"
      and "packet_recv fuel K net1 c1 = Some r"
proof -
  obtain q where q: "recv_queue c = Some q"
    using assms by (cases "recv_queue c") auto
  obtain pk q' where pop: "queue_try_pop K q = Returns (pk, q')"
    using assms q by (cases "queue_try_pop K q") auto
  show ?thesis
  proof (cases "\<exists>p. pk = Some p \<and> packet_size p \<noteq> 0")
    case False
    with assms q pop have "r = (net, c\<lparr>recv_queue := Some q'\<rparr>)"
      by (cases pk) auto
    with stop show ?thesis .
  next
    case True
    then obtain p where p: "pk = Some p" "packet_size p \<noteq> 0" by blast
    with assms q pop obtain freed net1 c1 where
      "packet_accept net (c\<lparr>recv_queue := Some q'\<rparr>) p = Some (freed, net1, c1)"
      "packet_recv fuel K net1 c1 = Some r"
      by (cases "packet_accept net (c\<lparr>recv_queue := Some q'\<rparr>) p") auto
    with packet show ?thesis by blast
  qed
qed

lemma packet_recv_seq:
  "packet_recv fuel K net c = Some (net', c') \<Longrightarrow>
   sint (incoming_sequence c) \<le> sint (incoming_sequence c')"
proof (induction fuel arbitrary: net c)
  case 0
  then show ?case by simp
next
  case (Suc fuel)
  from Suc.prems show ?case
  proof (cases rule: packet_recv_step)
    case (stop q')
    then show ?thesis by simp
  next
    case (packet q' p freed net1 c1)
    have "sint (incoming_sequence c) \<le> sint (incoming_sequence c1)"
      using packet_accept_seq [OF packet(1)] by (auto split: if_splits)
    with Suc.IH [OF packet(2)] show ?thesis by simp
  qed
qed

lemma spawn_remote_bad_type:
  "\<not> (0 \<le> sint type \<and> nat (sint type) < length types) \<Longrightarrow>
   spawn_remote types now type seq ecs es = None"
  by (auto simp: spawn_remote_def arr_at_def)

section \<open>A sample queue\<close>

definition race_queue0 :: "(nat \<times> nat, packet_t) queue" where
  "race_queue0 = the (queue_create counting_api True [None, None, None] 3)"

lemma race_queue0_push: "\<exists>q'. queue_push counting_api race_queue0 None = Returns q'"
  by (simp add: race_queue0_def queue_create_def queue_push_def queue_action_defs counting_api_def
      semaphore_create_def semaphore_acquire_def slot_index_def slot_store_def c_rem_def)

lemma race_queue0_empty: "queue_try_pop counting_api race_queue0 = Returns (None, race_queue0)"
  by (simp add: race_queue0_def queue_create_def queue_try_pop_def counting_api_def
      semaphore_create_def semaphore_try_acquire_def)

section \<open>Properties\<close>

text \<open>C13. Looking up a connection returns a slot with the address whenever it returns one, gives
  none exactly when the address is unknown and all three slots are used, leaves every other slot
  alone, keeps the table well-formed, and finds the same slot again.\<close>

theorem net_find_or_create:
  assumes ok: "conns_ok (connections net)" and port: "port addr \<noteq> 0"
    and queues: "fst queues \<noteq> None" "snd queues \<noteq> None"
    and r: "find_or_create_connection queues thread now addr net = (r, net')"
  shows "conns_ok (connections net') \<and>
    (r = None \<longleftrightarrow> (\<forall>c \<in> set (connections net). used c \<and> address c \<noteq> addr)) \<and>
    (\<forall>i. r = Some i \<longrightarrow> i < 3 \<and> address (connections net' ! i) = addr) \<and>
    (\<forall>j. r \<noteq> Some j \<longrightarrow> connections net' ! j = connections net ! j) \<and>
    find_or_create_connection queues2 thread2 now2 addr net' = (r, net')"
proof -
  have len: "length (connections net) = 3" using ok by (simp add: conns_ok_def)
  show ?thesis
  proof (cases rule: find_or_create_cases [of queues thread now addr net])
    case (found i)
    then have scan: "scan (\<lambda>i. address (connections net ! i) = addr) 0 (length (connections net)) = Some i"
      by (cases "scan (\<lambda>i. address (connections net ! i) = addr) 0 (length (connections net))")
        (auto simp: find_or_create_connection_def Let_def scan_None_iff split: option.splits)
    then have "find_or_create_connection queues2 thread2 now2 addr net = (Some i, net)"
      by (simp add: find_or_create_connection_def)
    moreover have "connections net ! i \<in> set (connections net)" using found(2) by simp
    ultimately show ?thesis
      using found r ok len by auto
  next
    case (new i)
    let ?c = "(connections net ! i)\<lparr>address := addr, incoming_sequence := -1, ack_sequence := -1,
      last_recv_ms := now, send_queue := fst queues, recv_queue := snd queues, send_thread := thread\<rparr>"
    have net': "net' = net\<lparr>connections := (connections net)[i := ?c]\<rparr>" and ri: "r = Some i"
      using new(4) r by auto
    have "conns_ok ((connections net)[i := ?c])"
      using new port queues by (intro conns_ok_add [OF ok]) (auto simp: used_def)
    moreover have "scan (\<lambda>j. address (connections net' ! j) = addr) 0 (length (connections net')) = Some i"
      using new by (auto simp: scan_Some_iff net')
    then have "find_or_create_connection queues2 thread2 now2 addr net' = (Some i, net')"
      by (simp add: find_or_create_connection_def)
    moreover have "\<not> (\<forall>c \<in> set (connections net). used c \<and> address c \<noteq> addr)"
      using new(1,2) by (auto simp: used_def)
    ultimately show ?thesis
      using new(1) len by (auto simp: net' ri)
  next
    case full
    then have "find_or_create_connection queues2 thread2 now2 addr net = (None, net)"
      by (cases rule: find_or_create_cases [of queues2 thread2 now2 addr net]) auto
    moreover have "\<forall>c \<in> set (connections net). used c \<and> address c \<noteq> addr"
      using full(2) by (force simp: in_set_conv_nth used_def)
    ultimately show ?thesis using full(1) r ok by auto
  qed
qed

theorem net_find_or_create_witness:
  "\<exists>r net'. find_or_create_connection (Some race_queue0, Some race_queue0) (Some 1) 7
       \<lparr>ip = [127, 0, 0, 1], port = 99\<rparr> sample_net = (r, net') \<and> r \<noteq> None \<and> conns_ok (connections net')"
proof -
  obtain r net' where run: "find_or_create_connection (Some race_queue0, Some race_queue0) (Some 1) 7
      \<lparr>ip = [127, 0, 0, 1], port = 99\<rparr> sample_net = (r, net')" by fastforce
  have conns: "connections sample_net = replicate 3 zero_connection"
    by (simp add: sample_net_def net_create_def)
  then have "conns_ok (connections sample_net)"
    using conns_ok_create [of new_world, where 'a = "nat \<times> nat" and 'b = nat and 'c = nat]
    by (simp add: net_create_def)
  from net_find_or_create [OF this _ _ _ run] run conns show ?thesis
    by (auto simp: used_def zero_connection_def)
qed

text \<open>The time-out clears exactly the used connections from which nothing has arrived for more
  than 5000 ms, as long as the millisecond clock plus the time-out stays below \<open>2 ^ 32\<close>; past
  that the sum wraps, and a connection that was just heard from is dropped.\<close>

theorem net_timeout:
  fixes net :: "('s, 't, 'u) net_t"
  assumes "timeout_old_connections K now net = Returns net'"
  shows "connections net' = map (\<lambda>c. if timed_out now c then zero_connection else c) (connections net) \<and>
    (\<forall>c :: ('s, 't) connection_t. unat (last_recv_ms c) + 5000 < 2 ^ 32 \<longrightarrow>
       timed_out now c = (used c \<and> unat (last_recv_ms c) + 5000 < unat now)) \<and>
    (\<forall>c :: ('s, 't) connection_t. used c \<longrightarrow> last_recv_ms c = now \<longrightarrow> 2 ^ 32 - 5000 \<le> unat now \<longrightarrow> timed_out now c)"
proof -
  have "connections net' = map (\<lambda>c. if timed_out now c then zero_connection else c) (connections net)"
    using assms by (auto simp: timeout_old_connections_def split: outcome.splits dest: close_where_Returns)
  moreover have "timed_out now c"
    if "used c" "last_recv_ms c = now" "2 ^ 32 - 5000 \<le> unat now" for c :: "('s, 't) connection_t"
  proof -
    have "unat now < 2 ^ 32" using unsigned_less [of now] by simp
    then have "unat (now + 5000) = unat now + 5000 - 2 ^ 32"
      using that(3) by (simp add: unat_word_ariths mod_if)
    with that show ?thesis
      by (simp add: timed_out_def used_def word_less_nat_alt)
  qed
  ultimately show ?thesis using timeout_iff by blast
qed

definition quiet_connection :: "(nat \<times> nat, nat) connection_t" where
  "quiet_connection = zero_connection\<lparr>address := \<lparr>ip = [1, 2, 3, 4], port = 5\<rparr>, last_recv_ms := 4294967000,
     send_queue := Some race_queue0\<rparr>"

theorem net_timeout_witness:
  "\<exists>net'. timeout_old_connections counting_api 4294967000
       (sample_net\<lparr>connections := [quiet_connection]\<rparr>) = Returns net' \<and>
     connections net' = [zero_connection]"
proof -
  obtain net' where run: "timeout_old_connections counting_api 4294967000
      (sample_net\<lparr>connections := [quiet_connection]\<rparr>) = Returns net'"
    using race_queue0_push
    by (auto simp: timeout_old_connections_def close_connection_def quiet_connection_def timed_out_def)
  have "timed_out 4294967000 quiet_connection"
    using net_timeout [OF run] by (simp add: quiet_connection_def used_def)
  with net_timeout [OF run] run show ?thesis by auto
qed

text \<open>Whatever arrives, the incoming sequence number of a connection never goes back; a packet
  that is not newer changes nothing and is not given back to the heap.\<close>

theorem net_incoming_monotone:
  assumes "packet_recv fuel K net c = Some (net', c')"
  shows "sint (incoming_sequence c) \<le> sint (incoming_sequence c') \<and>
    (\<forall>p seq ack. rd_pair (packet_data p) 0 = Some (seq, ack) \<longrightarrow> sint seq \<le> sint (incoming_sequence c) \<longrightarrow>
       packet_accept net c p = Some (False, net, c))"
  using packet_recv_seq [OF assms] by (simp add: packet_accept_def)

theorem net_incoming_monotone_witness:
  "\<exists>net' c'. packet_recv 1 counting_api sample_net (zero_connection\<lparr>recv_queue := Some race_queue0\<rparr>) =
       Some (net', c') \<and> 0 \<le> sint (incoming_sequence c')"
proof -
  obtain net' c' where run: "packet_recv 1 counting_api sample_net
      (zero_connection\<lparr>recv_queue := Some race_queue0\<rparr>) = Some (net', c')"
    using race_queue0_empty by (auto simp: zero_connection_def)
  from net_incoming_monotone [OF run] run show ?thesis by (auto simp: zero_connection_def)
qed

text \<open>The receiver trusts the type in a packet: a newer packet whose first entity is unknown and
  has a type outside the 32 registered ones makes it read outside the type table.\<close>

theorem net_unchecked_type:
  assumes "length (entity_types net) = 32" and "conn_entities c = replicate 32 zero_entity"
    and "packet_data p = pair_bytes seq ack @ pair_bytes type ent @ rest"
    and "sint (incoming_sequence c) < sint seq" and "16 < packet_size p"
    and "ent \<noteq> 0" and "sint type < 0 \<or> 32 \<le> sint type"
  shows "packet_accept net c p = None"
proof -
  have hdr: "rd_pair (packet_data p) 0 = Some (seq, ack)"
    using rd_pair_append [of 0 "[]" seq ack] assms(3) by simp
  have pair: "rd_pair (packet_data p) 8 = Some (type, ent)"
    using rd_pair_append [of 8 "pair_bytes seq ack" type ent rest] assms(3) by simp
  have "scan (\<lambda>i. remote_sequence (replicate 32 zero_entity ! i) = ent) 0 32 = None"
    using assms(6) by (auto simp: scan_None_iff zero_entity_def)
  then have none: "find_remote (net_sequence net) ent (conn_entities c) =
      (\<lparr>entity = -1, sequence = 0\<rparr>, replicate 32 zero_entity)"
    by (simp add: find_remote_def assms(2))
  have "spawn_remote (entity_types net) (net_sequence net) type ent (net_ecs net) (replicate 32 zero_entity) = None"
    using assms(1,7) by (intro spawn_remote_bad_type) auto
  then have "read_entity (entity_types net) (net_sequence net) (packet_data p) 8 (net_ecs net, conn_entities c) = None"
    by (simp add: read_entity_def pair none ecs_is_entity_ref_valid_def)
  then have "read_entities (entity_types net) (net_sequence net) (packet_data p) 8 (nat (packet_size p))
      (net_ecs net, conn_entities c) = None"
    using assms(5) by (simp add: read_entities.simps)
  with hdr assms(4) show ?thesis
    by (simp add: packet_accept_def packet_read_entities_def)
qed

theorem net_unchecked_type_witness:
  "packet_accept sample_net (sample_connection 0)
     \<lparr>packet_size = 17, packet_data = pair_bytes 5 0 @ pair_bytes 40 1 @ replicate 1008 0\<rparr> = None"
  by (rule net_unchecked_type [of _ _ _ 5 0 40 1 "replicate 1008 0"])
    (simp_all add: sample_net_def sample_connection_def zero_connection_def)

end
