(* ===== verification/Trace.thy ===== *)
theory Trace
  imports Queue
begin

text \<open>
  The CPU tracer of \<^verbatim>\<open>trace.c\<close>.  Events are written to a buffer of \<open>2 * event_capacity\<close>
  slots; the open durations are in a queue of pointers into it (here indices), pushed with
  \<open>queue_push\<close> and taken back with \<open>dequeue\<close>, and a capture is rendered as JSON text.  Process
  id, thread id and time are arguments; the mutex is taken and released as in the code, by the
  thread \<open>me\<close>.  \<open>event_buff_count\<close> stays far below \<open>2 ^ 31\<close> and is a natural number.
\<close>

section \<open>State and recording\<close>

record trace_event_t =
  ev_name :: string
  ph :: char
  pid :: c_int
  tid :: c_int
  ts :: u64

record ('s, 'm) trace_t =
  event_queue :: "('s, nat) queue"
  trace_mutex :: 'm
  event_buff :: "trace_event_t list"
  file_path :: "string ptr"
  event_buff_count :: nat
  capturing :: bool

text \<open>\<open>buff\<close> and \<open>mem\<close> are the uninitialised event buffer and queue items; \<open>file_path\<close> is not set.\<close>

definition trace_create ::
  "'s semaphore_api \<Rightarrow> 'm mutex_api \<Rightarrow> trace_event_t list \<Rightarrow> nat ptr list \<Rightarrow> c_int \<Rightarrow> string ptr \<Rightarrow>
   ('s, 'm) trace_t option" where
  "trace_create K M buff mem cap garbage =
     map_option (\<lambda>q. \<lparr>event_queue = q, trace_mutex = mutex_create M, event_buff = buff,
         file_path = garbage, event_buff_count = 0, capturing = False\<rparr>)
       (queue_create K True mem cap)"

definition trace_unlock :: "'m mutex_api \<Rightarrow> tid \<Rightarrow> ('s, 'm) trace_t \<Rightarrow> ('s, 'm) trace_t" where
  "trace_unlock M me t = t\<lparr>trace_mutex := mutex_unlock M me (trace_mutex t)\<rparr>"

definition trace_duration_push ::
  "'s semaphore_api \<Rightarrow> 'm mutex_api \<Rightarrow> tid \<Rightarrow> c_int \<Rightarrow> c_int \<Rightarrow> u64 \<Rightarrow> string \<Rightarrow> ('s, 'm) trace_t \<Rightarrow>
   ('s, 'm) trace_t outcome" where
  "trace_duration_push K M me p th ticks name t =
     (case mutex_lock M me (trace_mutex t) of
        None \<Rightarrow> Blocks
      | Some m \<Rightarrow>
          let t = t\<lparr>trace_mutex := m\<rparr> in
          if capturing t then
            (case arr_set (event_buff t) (event_buff_count t)
                    \<lparr>ev_name = name, ph = CHR ''B'', pid = p, tid = th, ts = ticks\<rparr> of
               None \<Rightarrow> Undefined
             | Some buff \<Rightarrow>
                 (case queue_push K (event_queue t) (Some (event_buff_count t)) of
                    Returns q \<Rightarrow> Returns (trace_unlock M me
                      (t\<lparr>event_buff := buff, event_buff_count := event_buff_count t + 1, event_queue := q\<rparr>))
                  | Blocks \<Rightarrow> Blocks
                  | Undefined \<Rightarrow> Undefined))
          else Returns (trace_unlock M me t))"

definition trace_duration_pop ::
  "'s semaphore_api \<Rightarrow> 'm mutex_api \<Rightarrow> tid \<Rightarrow> u64 \<Rightarrow> ('s, 'm) trace_t \<Rightarrow> ('s, 'm) trace_t outcome" where
  "trace_duration_pop K M me ticks t =
     (case mutex_lock M me (trace_mutex t) of
        None \<Rightarrow> Blocks
      | Some m \<Rightarrow>
          let t = t\<lparr>trace_mutex := m\<rparr> in
          if capturing t then
            (case dequeue K (event_queue t) of
               Returns (popped_ev, q) \<Rightarrow>
                 (case popped_ev of
                    None \<Rightarrow> Undefined
                  | Some i \<Rightarrow>
                      (case arr_get (event_buff t) i of
                         None \<Rightarrow> Undefined
                       | Some e \<Rightarrow>
                           (case arr_set (event_buff t) (event_buff_count t)
                                   (e\<lparr>ph := CHR ''E'', ts := ticks\<rparr>) of
                              None \<Rightarrow> Undefined
                            | Some buff \<Rightarrow> Returns (trace_unlock M me
                                (t\<lparr>event_buff := buff, event_buff_count := event_buff_count t + 1,
                                   event_queue := q\<rparr>)))))
             | Blocks \<Rightarrow> Blocks
             | Undefined \<Rightarrow> Undefined)
          else Returns (trace_unlock M me t))"

definition trace_capture_start :: "string \<Rightarrow> ('s, 'm) trace_t \<Rightarrow> ('s, 'm) trace_t" where
  "trace_capture_start path t =
     (if capturing t then t else t\<lparr>capturing := True, file_path := Some path\<rparr>)"

section \<open>Rendering\<close>

text \<open>\<^verbatim>\<open>%d\<close>.\<close>

fun digits :: "nat \<Rightarrow> string" where
  "digits n = (if n < 10 then [char_of (48 + n)] else digits (n div 10) @ [char_of (48 + n mod 10)])"

declare digits.simps [simp del]

definition show_int :: "c_int \<Rightarrow> string" where
  "show_int i = (if sint i < 0 then CHR ''-'' # digits (nat (- sint i)) else digits (nat (sint i)))"

definition json_head :: string where
  "json_head = ''{'' @ [CHR 0x0A, CHR 0x09] @ [CHR 0x22] @ ''displayTimeUnit'' @ [CHR 0x22] @ '': '' @
     [CHR 0x22] @ ''ns'' @ [CHR 0x22] @ '', '' @ [CHR 0x22] @ ''traceEvents'' @ [CHR 0x22] @ '' : ['' @ [CHR 0x0A]"

definition json_tail :: string where
  "json_tail = [CHR 0x09] @ '']'' @ [CHR 0x0A] @ ''}''"

definition quoted :: "string \<Rightarrow> string" where
  "quoted s = [CHR 0x22] @ s @ [CHR 0x22]"

text \<open>The time is cast to int, so only its low 32 bits are printed.\<close>

definition json_event :: "trace_event_t \<Rightarrow> string" where
  "json_event e = [CHR 0x09, CHR 0x09] @ ''{'' @ quoted ''name'' @ '':'' @ quoted (ev_name e) @ '','' @
     quoted ''ph'' @ '':'' @ quoted [ph e] @ '','' @ quoted ''pid'' @ '':'' @ show_int (pid e) @ '','' @
     quoted ''tid'' @ '':'' @ quoted (show_int (tid e)) @ '','' @ quoted ''ts'' @ '':'' @
     quoted (show_int (ucast (ts e)))"

text \<open>The line of the event with index \<open>i\<close> of \<open>n\<close>: the last one has no comma.\<close>

definition json_line :: "nat \<Rightarrow> nat \<Rightarrow> trace_event_t \<Rightarrow> string" where
  "json_line n i e = json_event e @ (if i + 1 = n then ''}'' else ''},'') @ [CHR 0x0A]"

text \<open>\<^verbatim>\<open>snprintf(buffer + pos, size, ...)\<close>: at most \<open>size - 1\<close> characters and a NUL.\<close>

definition snprintf_at :: "char list \<Rightarrow> nat \<Rightarrow> nat \<Rightarrow> string \<Rightarrow> char list option" where
  "snprintf_at buf pos sz text =
     (let out = take (sz - 1) text @ [CHR 0x00] in
      if pos + length out \<le> length buf then Some (take pos buf @ out @ drop (pos + length out) buf) else None)"

definition json_size :: "trace_event_t list \<Rightarrow> nat" where
  "json_size es =
     fold (\<lambda>i sz. sz + length (json_line (length es) i (es ! i))) [0..<length es] (length json_head)
     + length json_tail"

primrec write_lines ::
  "trace_event_t list \<Rightarrow> nat list \<Rightarrow> char list \<Rightarrow> nat \<Rightarrow> (char list \<times> nat) option" where
  "write_lines es [] buf pos = Some (buf, pos)"
| "write_lines es (j # js) buf pos =
     (let line = json_line (length es) j (es ! j); line_size = length line in
      case snprintf_at buf pos (line_size + 1) line of
        None \<Rightarrow> None
      | Some buf \<Rightarrow> write_lines es js buf (pos + line_size))"

definition render_json :: "trace_event_t list \<Rightarrow> char list \<Rightarrow> char list option" where
  "render_json es buf = do {
     let first_line = length json_head;
     buf \<leftarrow> snprintf_at buf 0 (first_line + 1) json_head;
     (buf, pos) \<leftarrow> write_lines es [0..<length es] buf first_line;
     snprintf_at buf pos (length json_tail + 1) json_tail
   }"

text \<open>
  Stopping a capture: the text handed to \<open>fs_write\<close> and the path, for a heap that returns
  \<open>alloc n\<close> for a request of \<open>n\<close> bytes.  The event count is not reset.
\<close>

definition trace_capture_stop ::
  "(nat \<Rightarrow> char list) \<Rightarrow> ('s, 'm) trace_t \<Rightarrow> ((string ptr \<times> string) option \<times> ('s, 'm) trace_t) option" where
  "trace_capture_stop alloc t =
     (if capturing t then
        (let es = take (event_buff_count t) (event_buff t); size = json_size es in
         if event_buff_count t \<le> length (event_buff t) then
           map_option (\<lambda>buf. (Some (file_path t, take size buf), t\<lparr>capturing := False\<rparr>))
             (render_json es (alloc size))
         else None)
      else Some (None, t))"

end
