(* ===== verification/Net_Threads.thy ===== *)
theory Net_Threads
  imports Net_Connections Trace
begin

text \<open>
  The edges of \<^verbatim>\<open>net.c\<close>: the address parser and the two threads between the queues of a connection and the
  socket.  What the network does is an argument: the addresses a name resolves to, the result of
  \<^verbatim>\<open>sendto\<close>, what \<^verbatim>\<open>recvfrom\<close> received.
\<close>

section \<open>Addresses\<close>

text \<open>\<^verbatim>\<open>atoi\<close> of the C library: space, a sign, digits; out of range it saturates.\<close>

definition is_digit :: "char \<Rightarrow> bool" where
  "is_digit c \<longleftrightarrow> 48 \<le> (of_char c :: nat) \<and> (of_char c :: nat) \<le> 57"

definition is_space :: "char \<Rightarrow> bool" where
  "is_space c \<longleftrightarrow> (of_char c :: nat) \<in> {9, 10, 11, 12, 13, 32}"

definition digits_value :: "string \<Rightarrow> int" where
  "digits_value s = foldl (\<lambda>n c. 10 * n + (of_char c - 48)) 0 (takeWhile is_digit s)"

definition atoi :: "string \<Rightarrow> int" where
  "atoi s =
     (let s = dropWhile is_space s;
          n = (case s of
                 [] \<Rightarrow> 0
               | c # r \<Rightarrow> if c = CHR ''-'' then - digits_value r
                         else if c = CHR ''+'' then digits_value r else digits_value s)
      in max (- (2 ^ 31)) (min (2 ^ 31 - 1) n))"

text \<open>
  \<open>resolve\<close> is \<^verbatim>\<open>getaddrinfo\<close>: the addresses of a name, \<open>None\<close> for a failure.  The name is copied into 256
  bytes; a longer one aborts the program.  \<open>old\<close> is what the address holds before.
\<close>

definition net_string_to_address ::
  "(string \<Rightarrow> u8 list list option) \<Rightarrow> string \<Rightarrow> net_address_t \<Rightarrow> (bool \<times> net_address_t) option" where
  "net_string_to_address resolve str old =
     (if 256 \<le> length str then None
      else (let host = takeWhile (\<lambda>c. c \<noteq> CHR '':'') str;
                port_str = (case dropWhile (\<lambda>c. c \<noteq> CHR '':'') str of [] \<Rightarrow> None | c # p \<Rightarrow> Some p)
            in case resolve host of
                 None \<Rightarrow> Some (False, old)
               | Some info \<Rightarrow>
                   let addr = \<lparr>ip = [0, 0, 0, 0], port = 0\<rparr>;
                       addr = (case info of [] \<Rightarrow> addr | a # rest \<Rightarrow> addr\<lparr>ip := a\<rparr>);
                       addr = (case port_str of None \<Rightarrow> addr | Some p \<Rightarrow> addr\<lparr>port := word_of_int (atoi p)\<rparr>)
                   in Some (True, addr)))"

section \<open>The threads\<close>

text \<open>
  One iteration of the send thread: the datagram it sends, if any, and whether the thread goes on.
  The size of a packet must lie in its data.
\<close>

definition send_thread_step ::
  "'s semaphore_api \<Rightarrow> (u8 list \<Rightarrow> c_int) \<Rightarrow> ('s, 't) connection_t \<Rightarrow>
   (u8 list ptr \<times> bool \<times> ('s, 't) connection_t) outcome" where
  "send_thread_step K sendto c =
     (case send_queue c of
        None \<Rightarrow> Undefined
      | Some q \<Rightarrow>
          (case queue_pop K q of
             Returns (packet, q') \<Rightarrow>
               let c = c\<lparr>send_queue := Some q'\<rparr> in
               (case packet of
                  None \<Rightarrow> Returns (None, False, c)
                | Some p \<Rightarrow>
                    (case rd_bytes (packet_data p) 0 (nat (packet_size p)) of
                       None \<Rightarrow> Undefined
                     | Some bytes \<Rightarrow> Returns (Some bytes, 0 < sint (sendto bytes), c)))
           | Blocks \<Rightarrow> Blocks
           | Undefined \<Rightarrow> Undefined))"

text \<open>
  One iteration of the receive thread: \<open>n\<close> is the result of \<^verbatim>\<open>recvfrom\<close> (the number of bytes, 0 for an empty
  datagram, negative for an error), \<open>data\<close> the buffer after it.  The result says whether the
  thread goes on.  The result of the push is not looked at.
\<close>

definition recv_thread_step ::
  "'s semaphore_api \<Rightarrow> ('s, packet_t) queue ptr \<times> ('s, packet_t) queue ptr \<Rightarrow> 't ptr \<Rightarrow> u32 \<Rightarrow> int \<Rightarrow>
   net_address_t \<Rightarrow> u8 list \<Rightarrow> ('s, 't, 'u) net_t \<Rightarrow> (bool \<times> ('s, 't, 'u) net_t) outcome" where
  "recv_thread_step K queues thread now n addr data net =
     (if n \<le> 0 then Returns (False, net)
      else (case find_or_create_connection queues thread now addr net of
          (None, net) \<Rightarrow> Returns (True, net)
        | (Some i, net) \<Rightarrow>
            let c = (connections net ! i)\<lparr>last_recv_ms := now\<rparr> in
            (case recv_queue c of
               None \<Rightarrow> Undefined
             | Some q \<Rightarrow>
                 (case queue_try_push K q (Some \<lparr>packet_size = n, packet_data = data\<rparr>) of
                    Returns (pushed, q') \<Rightarrow>
                      Returns (True, net\<lparr>connections := (connections net)[i := c\<lparr>recv_queue := Some q'\<rparr>]\<rparr>)
                  | Blocks \<Rightarrow> Blocks
                  | Undefined \<Rightarrow> Undefined))))"

text \<open>\<^verbatim>\<open>net_connect\<close>.\<close>

definition net_connect ::
  "('s, packet_t) queue ptr \<times> ('s, packet_t) queue ptr \<Rightarrow> 't ptr \<Rightarrow> u32 \<Rightarrow> net_address_t \<Rightarrow>
   ('s, 't, 'u) net_t \<Rightarrow> ('s, 't, 'u) net_t" where
  "net_connect queues thread now addr net = snd (find_or_create_connection queues thread now addr net)"

section \<open>Parsing an address\<close>

lemma digits_all: "list_all is_digit (digits n)"
proof (induction n rule: digits.induct)
  case (1 n)
  have d: "is_digit (char_of (48 + k :: nat))" if "k < 10" for k using that by (simp add: is_digit_def)
  show ?case using 1 d [of n] d [of "n mod 10"] by (subst digits.simps) simp
qed

lemma digits_foldl: "foldl (\<lambda>m c. 10 * m + (of_char c - 48)) 0 (digits n) = int n"
proof (induction n rule: digits.induct)
  case (1 n)
  have d: "(of_char (char_of (48 + k :: nat)) :: int) = 48 + int k" if "k < 10" for k
  proof -
    have "(of_char (char_of (48 + k :: nat)) :: nat) = 48 + k" using that by simp
    then have "int (of_char (char_of (48 + k :: nat)) :: nat) = 48 + int k" by simp
    then show ?thesis by (simp only: of_nat_of_char)
  qed
  show ?case
  proof (cases "n < 10")
    case True
    then show ?thesis using d [OF True] by (simp add: digits.simps [of n])
  next
    case False
    with 1 d [of "n mod 10"] have "foldl (\<lambda>m c. 10 * m + (of_char c - 48)) 0 (digits n) = 10 * int (n div 10) + int (n mod 10)"
      by (simp add: digits.simps [of n])
    then show ?thesis by (simp add: zdiv_int zmod_int)
  qed
qed

lemma digits_nonempty: "digits n \<noteq> []"
  by (subst digits.simps) simp

lemma atoi_digits:
  assumes "n < 2 ^ 31"
  shows "atoi (digits n) = int n"
proof -
  obtain c r where c: "digits n = c # r" using digits_nonempty by (cases "digits n") auto
  with digits_all [of n] have "is_digit c" by simp
  then have nd: "\<not> is_space c" "c \<noteq> CHR ''-''" "c \<noteq> CHR ''+''" by (auto simp: is_digit_def is_space_def)
  have all: "takeWhile is_digit (digits n) = digits n"
    using digits_all by (simp add: takeWhile_eq_all_conv list_all_iff)
  have "digits_value (digits n) = int n" unfolding digits_value_def all by (rule digits_foldl)
  moreover have "int n < 2 ^ 31" using assms by simp
  ultimately show ?thesis using nd by (simp add: atoi_def c Let_def)
qed


text \<open>A name with a decimal port, and a name alone.\<close>

lemma net_address_parsed:
  assumes "CHR '':'' \<notin> set host" and "length host < 200" and "n < 65536" and "resolve host = Some (a # rest)"
  shows "net_string_to_address resolve (host @ CHR '':'' # digits n) old = Some (True, \<lparr>ip = a, port = word_of_nat n\<rparr>)"
    and "net_string_to_address resolve host old = Some (True, \<lparr>ip = a, port = 0\<rparr>)"
proof -
  have "length (digits k) \<le> 5" if "k < 100000" for k
    using that by (simp add: digits.simps [of k] digits.simps [of "k div 10"] digits.simps [of "k div 10 div 10"]
        digits.simps [of "k div 10 div 10 div 10"] digits.simps [of "k div 10 div 10 div 10 div 10"])
  then have "length (digits n) \<le> 5" using assms(3) by simp
  moreover have "atoi (digits n) = int n" using assms(3) by (intro atoi_digits) simp
  moreover have "takeWhile (\<lambda>c. c \<noteq> CHR '':'') (host @ CHR '':'' # p) = host"
    "dropWhile (\<lambda>c. c \<noteq> CHR '':'') (host @ CHR '':'' # p) = CHR '':'' # p" for p
    using assms(1) by (auto simp: takeWhile_append dropWhile_append)
  ultimately show "net_string_to_address resolve (host @ CHR '':'' # digits n) old = Some (True, \<lparr>ip = a, port = word_of_nat n\<rparr>)"
    using assms(2,4) by (simp add: net_string_to_address_def)
  have alone: "takeWhile (\<lambda>c. c \<noteq> CHR '':'') host = host" "dropWhile (\<lambda>c. c \<noteq> CHR '':'') host = []"
    using assms(1) by auto
  show "net_string_to_address resolve host old = Some (True, \<lparr>ip = a, port = 0\<rparr>)"
    unfolding net_string_to_address_def alone Let_def assms(4) using assms(2) by simp
qed

section \<open>A packet on its way\<close>

definition sendable :: "packet_t \<Rightarrow> bool" where
  "sendable p \<longleftrightarrow> 0 < packet_size p \<and> nat (packet_size p) \<le> length (packet_data p)"

lemma send_thread_sends:
  assumes laws: "semaphore_laws K count limit" and q: "send_queue c = Some q" "queue_inv count limit q"
    and p: "queue_contents q = Some p # ps" "sendable p"
  shows "\<exists>q'. send_thread_step K sendto c = Returns (Some (take (nat (packet_size p)) (packet_data p)),
      0 < sint (sendto (take (nat (packet_size p)) (packet_data p))), c\<lparr>send_queue := Some q'\<rparr>) \<and>
    queue_inv count limit q' \<and> queue_contents q' = ps"
proof -
  obtain q' where "queue_pop K q = Returns (Some p, q')" "queue_inv count limit q'" "queue_contents q' = ps"
    using queue_pop_cons [OF laws q(2) p(1)] by blast
  with q(1) p(2) show ?thesis by (auto simp: send_thread_step_def sendable_def rd_bytes_def Let_def)
qed

text \<open>After a failed \<^verbatim>\<open>sendto\<close> the thread is gone and nobody empties the queue: the game thread can send as
  many packets as there is room for, then it blocks for good.\<close>

fun send_packets ::
  "'s semaphore_api \<Rightarrow> ('s, 't, 'u) net_t \<Rightarrow> nat \<Rightarrow> u8 list ptr \<Rightarrow> ('s, 't) connection_t \<Rightarrow> ('s, 't) connection_t outcome" where
  "send_packets K net 0 mem c = Returns c"
| "send_packets K net (Suc n) mem c =
     (case packet_send K net c mem of
        Returns c' \<Rightarrow> send_packets K net n mem c' | Blocks \<Rightarrow> Blocks | Undefined \<Rightarrow> Undefined)"

lemma make_packet_queue: "make_packet net (c\<lparr>send_queue := x\<rparr>) mem = make_packet net c mem"
  by (simp add: make_packet_def packet_add_entities_def Let_def)

lemma net_blocks_without_sender:
  assumes laws: "semaphore_laws K count limit" and "send_queue c = Some q" and "queue_inv count limit q"
    and "queue_room q \<le> queue_budget q" and "make_packet net c mem = Some p" and "queue_room q < n"
  shows "send_packets K net n mem c = Blocks"
  using assms(2-)
proof (induction n arbitrary: c q)
  case (Suc n)
  show ?case
  proof (cases "queue_room q = 0")
    case True
    with queue_push_full [OF laws Suc.prems(2)] Suc.prems show ?thesis by (simp add: packet_send_def)
  next
    case False
    then obtain q' where q': "queue_push K q (Some p) = Returns q'" "queue_inv count limit q'"
      "queue_room q' = queue_room q - 1" "queue_budget q' = queue_budget q - 1"
      using queue_push_room [OF laws Suc.prems(2), of "Some p"] Suc.prems(3) by auto
    have "send_packets K net n mem (c\<lparr>send_queue := Some q'\<rparr>) = Blocks"
      by (rule Suc.IH [OF _ q'(2)]) (use q' Suc.prems False in \<open>simp_all add: make_packet_queue\<close>)
    with q'(1) Suc.prems show ?thesis by (simp add: packet_send_def)
  qed
qed simp


section \<open>Properties\<close>



definition sample_address :: net_address_t where
  "sample_address = \<lparr>ip = [127, 0, 0, 1], port = 5000\<rparr>"

definition sample_packet :: packet_t where
  "sample_packet = \<lparr>packet_size = 2, packet_data = [7, 8, 9]\<rparr>"

lemma find_in_empty:
  fixes queues :: "('s, packet_t) queue ptr \<times> ('s, packet_t) queue ptr" and thread :: "nat ptr"
  obtains i and net1 :: "('s, nat, nat) net_t"
  where "find_or_create_connection queues thread 0 sample_address (net_create ecs) = (Some i, net1)"
    and "i < length (connections net1)" and "recv_queue (connections net1 ! i) = snd queues"
proof (cases rule: find_or_create_cases [of queues thread 0 sample_address "net_create ecs :: ('s, nat, nat) net_t"])
  case (found i)
  then have "i < 3" by (simp add: net_create_def)
  with found(3) show ?thesis by (simp add: net_create_def zero_connection_def sample_address_def)
next
  case (new i)
  show ?thesis by (rule that [OF new(4)]) (use new(1) in simp_all)
next
  case full
  from full(2) [of 0] show ?thesis by (simp add: net_create_def zero_connection_def)
qed


end
