(* ===== verification/Render.thy ===== *)
theory Render
  imports Ecs "HOL-Library.Multiset"
begin

text \<open>
  The render thread of \<^verbatim>\<open>render.c\<close>: three caches (draw instances, meshes, shaders) of at most 512
  entries each, filled while models are drawn and emptied of the entries that have not been used
  for as many frames as the GPU may still be working on.

  The GPU interface is outside: the state records the calls made to it, and \<open>gpu calls\<close> is the
  pointer a create function returns after the calls \<open>calls\<close> (newest first).  Infos and GPU
  objects are addresses.  The array slots behind the counts keep their old contents.
\<close>

section \<open>State\<close>

abbreviation (input) k_render_max_drawables :: nat where
  "k_render_max_drawables \<equiv> 512"

datatype gpu_call =
    Frame_begin
  | Frame_end
  | Shader_create nat
  | Shader_destroy "nat ptr"
  | Pipeline_create "nat ptr" nat
  | Pipeline_destroy "nat ptr"
  | Mesh_create nat
  | Mesh_destroy "nat ptr"
  | Uniform_create "u8 list"
  | Uniform_update "nat ptr" "u8 list"
  | Uniform_destroy "nat ptr"
  | Descriptor_create "nat ptr" "nat ptr"
  | Descriptor_destroy "nat ptr"
  | Pipeline_bind "nat ptr"
  | Mesh_bind "nat ptr"
  | Descriptor_bind "nat ptr"
  | Draw
  | Wait_until_idle

type_synonym gpu = "gpu_call list \<Rightarrow> nat ptr"

record model_command_t =
  mc_entity :: ecs_entity_ref_t
  mc_mesh :: nat
  mc_mesh_layout :: nat
  mc_shader :: nat
  mc_uniform :: "u8 list"

datatype command = Frame_done | Model model_command_t

record draw_instance_t =
  in_entity :: ecs_entity_ref_t
  uniform_buffers :: "nat ptr list"
  descriptors :: "nat ptr list"
  in_frame :: c_int

record draw_mesh_t =
  me_info :: nat
  me_mesh :: "nat ptr"
  me_frame :: c_int

record draw_shader_t =
  sh_info :: nat
  sh_shader :: "nat ptr"
  sh_pipeline :: "nat ptr"
  sh_frame :: c_int

record render_t =
  calls :: "gpu_call list"
  frame_counter :: c_int
  gpu_frame_count :: nat
  instance_count :: nat
  mesh_count :: nat
  shader_count :: nat
  instances :: "draw_instance_t list"
  meshes :: "draw_mesh_t list"
  shaders :: "draw_shader_t list"

definition log_call :: "gpu_call \<Rightarrow> render_t \<Rightarrow> render_t" where
  "log_call c r = r\<lparr>calls := c # calls r\<rparr>"

text \<open>A create function: the call is recorded and the GPU answers.\<close>

definition create_call :: "gpu \<Rightarrow> gpu_call \<Rightarrow> render_t \<Rightarrow> nat ptr \<times> render_t" where
  "create_call gpu c r = (gpu (c # calls r), log_call c r)"

text \<open>The heap does not clear memory: the arrays of a new render struct are arbitrary.\<close>

definition render_create ::
  "draw_instance_t list \<Rightarrow> draw_mesh_t list \<Rightarrow> draw_shader_t list \<Rightarrow> nat \<Rightarrow> render_t" where
  "render_create is ms ss frames =
     \<lparr>calls = [], frame_counter = 0, gpu_frame_count = frames, instance_count = 0, mesh_count = 0,
      shader_count = 0, instances = is, meshes = ms, shaders = ss\<rparr>"

section \<open>The caches\<close>

text \<open>Each function returns the index of the entry; \<open>None\<close> is the failed assertion.\<close>

definition get_shader_slot :: "nat \<Rightarrow> render_t \<Rightarrow> (nat \<times> render_t) option" where
  "get_shader_slot info r =
     (case scan (\<lambda>i. sh_info (shaders r ! i) = info) 0 (shader_count r) of
        Some i \<Rightarrow> Some (i, r)
      | None \<Rightarrow>
          if shader_count r < k_render_max_drawables then
            let i = shader_count r in
            Some (i, r\<lparr>shader_count := i + 1, shaders := (shaders r)[i := (shaders r ! i)\<lparr>sh_info := info\<rparr>]\<rparr>)
          else None)"

text \<open>The GPU objects of an entry are created when their pointers are NULL.\<close>

definition ensure_shader :: "gpu \<Rightarrow> nat \<Rightarrow> render_t \<Rightarrow> render_t" where
  "ensure_shader gpu i r =
     (if sh_shader (shaders r ! i) = None then
        let (h, r) = create_call gpu (Shader_create (sh_info (shaders r ! i))) r
        in r\<lparr>shaders := (shaders r)[i := (shaders r ! i)\<lparr>sh_shader := h\<rparr>]\<rparr>
      else r)"

definition ensure_pipeline :: "gpu \<Rightarrow> nat \<Rightarrow> nat \<Rightarrow> render_t \<Rightarrow> render_t" where
  "ensure_pipeline gpu layout i r =
     (if sh_pipeline (shaders r ! i) = None then
        let (h, r) = create_call gpu (Pipeline_create (sh_shader (shaders r ! i)) layout) r
        in r\<lparr>shaders := (shaders r)[i := (shaders r ! i)\<lparr>sh_pipeline := h\<rparr>]\<rparr>
      else r)"

definition create_or_get_shader_for_model_command ::
  "gpu \<Rightarrow> render_t \<Rightarrow> model_command_t \<Rightarrow> (nat \<times> render_t) option" where
  "create_or_get_shader_for_model_command gpu r cmd = do {
     (i, r) \<leftarrow> get_shader_slot (mc_shader cmd) r;
     let r = ensure_pipeline gpu (mc_mesh_layout cmd) i (ensure_shader gpu i r);
     Some (i, r\<lparr>shaders := (shaders r)[i := (shaders r ! i)\<lparr>sh_frame := frame_counter r\<rparr>]\<rparr>)
   }"

definition get_mesh_slot :: "nat \<Rightarrow> render_t \<Rightarrow> (nat \<times> render_t) option" where
  "get_mesh_slot info r =
     (case scan (\<lambda>i. me_info (meshes r ! i) = info) 0 (mesh_count r) of
        Some i \<Rightarrow> Some (i, r)
      | None \<Rightarrow>
          if mesh_count r < k_render_max_drawables then
            let i = mesh_count r in
            Some (i, r\<lparr>mesh_count := i + 1, meshes := (meshes r)[i := (meshes r ! i)\<lparr>me_info := info\<rparr>]\<rparr>)
          else None)"

definition ensure_mesh :: "gpu \<Rightarrow> nat \<Rightarrow> nat \<Rightarrow> render_t \<Rightarrow> render_t" where
  "ensure_mesh gpu info i r =
     (if me_mesh (meshes r ! i) = None then
        let (h, r) = create_call gpu (Mesh_create info) r
        in r\<lparr>meshes := (meshes r)[i := (meshes r ! i)\<lparr>me_mesh := h\<rparr>]\<rparr>
      else r)"

definition create_or_get_mesh_for_model_command ::
  "gpu \<Rightarrow> render_t \<Rightarrow> model_command_t \<Rightarrow> (nat \<times> render_t) option" where
  "create_or_get_mesh_for_model_command gpu r cmd = do {
     (i, r) \<leftarrow> get_mesh_slot (mc_mesh cmd) r;
     let r = ensure_mesh gpu (mc_mesh cmd) i r;
     Some (i, r\<lparr>meshes := (meshes r)[i := (meshes r ! i)\<lparr>me_frame := frame_counter r\<rparr>]\<rparr>)
   }"

text \<open>The uniform buffer and descriptor of each GPU frame of a new instance.\<close>

fun create_frames ::
  "gpu \<Rightarrow> nat ptr \<Rightarrow> u8 list \<Rightarrow> nat \<Rightarrow> render_t \<Rightarrow> nat ptr list \<times> nat ptr list \<times> render_t" where
  "create_frames gpu shader uniform 0 r = ([], [], r)"
| "create_frames gpu shader uniform (Suc n) r =
     (let (u, r) = create_call gpu (Uniform_create uniform) r;
          (d, r) = create_call gpu (Descriptor_create shader u) r;
          (us, ds, r) = create_frames gpu shader uniform n r
      in (u # us, d # ds, r))"

definition get_instance_slot ::
  "gpu \<Rightarrow> model_command_t \<Rightarrow> nat ptr \<Rightarrow> render_t \<Rightarrow> (nat \<times> render_t) option" where
  "get_instance_slot gpu cmd shader r =
     (case scan (\<lambda>i. in_entity (instances r ! i) = mc_entity cmd) 0 (instance_count r) of
        Some i \<Rightarrow> Some (i, r)
      | None \<Rightarrow>
          if instance_count r < k_render_max_drawables then
            let i = instance_count r;
                (us, ds, r) = create_frames gpu shader (mc_uniform cmd) (gpu_frame_count r) r
            in Some (i, r\<lparr>instance_count := i + 1, instances := (instances r)[i := (instances r ! i)
                 \<lparr>in_entity := mc_entity cmd, uniform_buffers := us, descriptors := ds\<rparr>]\<rparr>)
          else None)"

text \<open>\<^verbatim>\<open>frame_counter % gpu_frame_count\<close>, a division by zero without frames.\<close>

definition frame_index :: "render_t \<Rightarrow> int option" where
  "frame_index r =
     (if gpu_frame_count r = 0 then None
      else Some (c_rem (sint (frame_counter r)) (int (gpu_frame_count r))))"

definition create_or_get_instance_for_model_command ::
  "gpu \<Rightarrow> render_t \<Rightarrow> model_command_t \<Rightarrow> nat ptr \<Rightarrow> (nat \<times> render_t) option" where
  "create_or_get_instance_for_model_command gpu r cmd shader = do {
     (i, r) \<leftarrow> get_instance_slot gpu cmd shader r;
     f \<leftarrow> frame_index r;
     u \<leftarrow> arr_at (uniform_buffers (instances r ! i)) f;
     let r = log_call (Uniform_update u (mc_uniform cmd)) r;
     Some (i, r\<lparr>instances := (instances r)[i := (instances r ! i)\<lparr>in_frame := frame_counter r\<rparr>]\<rparr>)
   }"

section \<open>Stale entries\<close>

definition stale :: "render_t \<Rightarrow> c_int \<Rightarrow> bool" where
  "stale r frame \<longleftrightarrow> sint (frame + word_of_nat (gpu_frame_count r)) \<le> sint (frame_counter r)"

text \<open>The loop \<^verbatim>\<open>for (i = count - 1; i >= 0; --i)\<close>, here from \<open>i + 1\<close> on down, that replaces a
  stale entry by the last one.  \<open>destroy\<close> are the calls made for it.\<close>

fun sweep ::
  "('e \<Rightarrow> bool) \<Rightarrow> ('e \<Rightarrow> gpu_call list) \<Rightarrow> nat \<Rightarrow> 'e list \<Rightarrow> nat \<Rightarrow> gpu_call list \<Rightarrow>
   'e list \<times> nat \<times> gpu_call list" where
  "sweep old destroy 0 xs n log = (xs, n, log)"
| "sweep old destroy (Suc i) xs n log =
     (if old (xs ! i)
      then sweep old destroy i (xs[i := xs ! (n - 1)]) (n - 1) (rev (destroy (xs ! i)) @ log)
      else sweep old destroy i xs n log)"

definition destroy_stale_data :: "render_t \<Rightarrow> render_t" where
  "destroy_stale_data r =
     (let (is, ic, log) = sweep (\<lambda>e. stale r (in_frame e))
            (\<lambda>e. concat (map (\<lambda>(d, u). [Descriptor_destroy d, Uniform_destroy u])
                   (zip (descriptors e) (uniform_buffers e))))
            (instance_count r) (instances r) (instance_count r) (calls r);
          (ms, mc, log) = sweep (\<lambda>e. stale r (me_frame e)) (\<lambda>e. [Mesh_destroy (me_mesh e)])
            (mesh_count r) (meshes r) (mesh_count r) log;
          (ss, sc, log) = sweep (\<lambda>e. stale r (sh_frame e))
            (\<lambda>e. [Pipeline_destroy (sh_pipeline e), Shader_destroy (sh_shader e)])
            (shader_count r) (shaders r) (shader_count r) log
      in r\<lparr>calls := log, instances := is, instance_count := ic, meshes := ms, mesh_count := mc,
           shaders := ss, shader_count := sc\<rparr>)"

section \<open>The thread\<close>

record render_thread =
  rt :: render_t
  cmdbuf :: bool
  last_pipeline :: "nat ptr"
  last_mesh :: "nat ptr"
  frame_slot :: int

definition begin_frame :: "render_thread \<Rightarrow> render_thread" where
  "begin_frame t = (if cmdbuf t then t else t\<lparr>rt := log_call Frame_begin (rt t), cmdbuf := True\<rparr>)"

definition draw_model :: "gpu \<Rightarrow> model_command_t \<Rightarrow> render_thread \<Rightarrow> render_thread option" where
  "draw_model gpu cmd t = do {
     (si, r) \<leftarrow> create_or_get_shader_for_model_command gpu (rt t) cmd;
     (mi, r) \<leftarrow> create_or_get_mesh_for_model_command gpu r cmd;
     (ii, r) \<leftarrow> create_or_get_instance_for_model_command gpu r cmd (sh_shader (shaders r ! si));
     let pipeline = sh_pipeline (shaders r ! si);
     let mesh = me_mesh (meshes r ! mi);
     let r = (if last_pipeline t \<noteq> pipeline then log_call (Pipeline_bind pipeline) r else r);
     let r = (if last_mesh t \<noteq> mesh then log_call (Mesh_bind mesh) r else r);
     d \<leftarrow> arr_at (descriptors (instances r ! ii)) (frame_slot t);
     Some (t\<lparr>rt := log_call Draw (log_call (Descriptor_bind d) r),
             last_pipeline := pipeline, last_mesh := mesh\<rparr>)
   }"

definition end_frame :: "render_thread \<Rightarrow> render_thread option" where
  "end_frame t =
     (let r = destroy_stale_data (log_call Frame_end (rt t));
          r = r\<lparr>frame_counter := frame_counter r + 1\<rparr>
      in map_option (\<lambda>f. t\<lparr>rt := r, cmdbuf := False, last_pipeline := None, last_mesh := None,
           frame_slot := f\<rparr>) (frame_index r))"

definition render_command :: "gpu \<Rightarrow> command \<Rightarrow> render_thread \<Rightarrow> render_thread option" where
  "render_command gpu c t =
     (let t = begin_frame t in
      case c of Frame_done \<Rightarrow> end_frame t | Model cmd \<Rightarrow> draw_model gpu cmd t)"

text \<open>The whole thread: the commands up to the NULL that ends it, and the clean-up.\<close>

fun render_commands :: "gpu \<Rightarrow> command list \<Rightarrow> render_thread \<Rightarrow> render_thread option" where
  "render_commands gpu [] t = Some t"
| "render_commands gpu (c # cs) t =
     (case render_command gpu c t of None \<Rightarrow> None | Some t' \<Rightarrow> render_commands gpu cs t')"

definition render_start :: "render_t \<Rightarrow> render_thread" where
  "render_start r = \<lparr>rt = r, cmdbuf = False, last_pipeline = None, last_mesh = None, frame_slot = 0\<rparr>"

definition render_finish :: "render_thread \<Rightarrow> render_t" where
  "render_finish t =
     (let r = log_call Wait_until_idle (rt t)
      in destroy_stale_data (r\<lparr>frame_counter := frame_counter r + word_of_nat (gpu_frame_count r) + 1\<rparr>))"

definition render_thread_func :: "gpu \<Rightarrow> command list \<Rightarrow> render_t \<Rightarrow> render_t option" where
  "render_thread_func gpu cs r = map_option render_finish (render_commands gpu cs (render_start r))"

end
