(* ===== verification/Render_Cache.thy ===== *)
theory Render_Cache
  imports Render
begin

text \<open>
  Properties of the render thread: the caches stay well-formed under every sequence of commands,
  the backwards loop that overwrites stale entries with the last one is a filter, every draw call
  is made with the right pipeline and mesh bound, and an entry that is appended can inherit the
  destroyed GPU object of the one that was last in its slot.
\<close>

section \<open>Removing by overwriting\<close>

lemma mset_overwrite_last:
  assumes "i < n" and "n \<le> length xs"
  shows "add_mset (xs ! i) (mset (take (n - 1) (xs[i := xs ! (n - 1)]))) = mset (take n xs)"
proof -
  obtain k where n: "n = Suc k" using assms(1) by (cases n) auto
  have split: "mset (take (Suc k) xs) = add_mset (xs ! k) (mset (take k xs))"
    using assms(2) by (simp add: n take_Suc_conv_app_nth)
  show ?thesis
  proof (cases "i = k")
    case True
    then show ?thesis using split by (simp add: n)
  next
    case False
    with assms n have i: "i < length (take k xs)" by simp
    have "take k (xs[i := xs ! k]) = (take k xs)[i := xs ! k]"
      by (rule take_update_swap)
    moreover have "take k xs ! i \<in># mset (take k xs)"
      using i by (metis nth_mem set_mset_mset)
    ultimately show ?thesis
      using i False split by (simp add: n mset_update add_mset_commute)
  qed
qed

lemma sweep_filter:
  assumes "sweep old destroy i xs n log = (ys, m, log')" and "i \<le> n" and "n \<le> length xs"
    and "\<And>j. i \<le> j \<Longrightarrow> j < n \<Longrightarrow> \<not> old (xs ! j)"
  shows "m \<le> n \<and> length ys = length xs \<and>
    mset (take m ys) = {#e \<in># mset (take n xs). \<not> old e#} \<and>
    mset log' = mset log + (\<Sum>e \<in># {#e \<in># mset (take n xs). old e#}. mset (destroy e))"
  using assms
proof (induction i arbitrary: xs n log)
  case 0
  have fresh: "e \<in># mset (take n xs) \<Longrightarrow> \<not> old e" for e
    using "0.prems"(3,4) by (auto simp: in_set_conv_nth)
  have "{#e \<in># mset (take n xs). \<not> old e#} = mset (take n xs)"
    using fresh by (simp add: filter_mset_eq_conv)
  moreover have "{#e \<in># mset (take n xs). old e#} = {#}"
    using fresh by (auto simp: multiset_eq_iff count_eq_zero_iff)
  ultimately show ?case using "0.prems"(1) by auto
next
  case (Suc i)
  show ?case
  proof (cases "old (xs ! i)")
    case False
    have "\<not> old (xs ! j)" if "i \<le> j" "j < n" for j
      using that Suc.prems(4) False by (cases "j = i") auto
    with Suc.IH [of xs n log] Suc.prems False show ?thesis by simp
  next
    case True
    let ?xs = "xs[i := xs ! (n - 1)]"
    have "\<not> old (?xs ! j)" if "i \<le> j" "j < n - 1" for j
      using that Suc.prems by (cases "j = i") auto
    then have IH: "m \<le> n - 1 \<and> length ys = length ?xs \<and>
        mset (take m ys) = {#e \<in># mset (take (n - 1) ?xs). \<not> old e#} \<and>
        mset log' = mset (rev (destroy (xs ! i)) @ log) +
          (\<Sum>e \<in># {#e \<in># mset (take (n - 1) ?xs). old e#}. mset (destroy e))"
      using Suc.prems True by (intro Suc.IH) auto
    have "mset (take n xs) = add_mset (xs ! i) (mset (take (n - 1) ?xs))"
      using Suc.prems(2,3) by (intro mset_overwrite_last [symmetric]) auto
    with IH True show ?thesis by (auto simp: add.assoc)
  qed
qed

lemma sweep_all:
  assumes "n \<le> length xs"
  obtains ys m log' where "sweep old destroy n xs n log = (ys, m, log')" and "m \<le> n"
    and "length ys = length xs" and "mset (take m ys) = {#e \<in># mset (take n xs). \<not> old e#}"
    and "mset log' = mset log + (\<Sum>e \<in># {#e \<in># mset (take n xs). old e#}. mset (destroy e))"
proof -
  obtain ys m log' where "sweep old destroy n xs n log = (ys, m, log')" by (metis prod_cases3)
  with sweep_filter [OF this] assms that show ?thesis by auto
qed

lemma distinct_map_filter_mset:
  assumes "mset ys = {#e \<in># mset xs. P e#}" and "distinct (map f xs)"
  shows "distinct (map f ys)"
proof -
  have "mset (map f ys) = mset (map f (filter P xs))" using assms(1) by simp
  moreover have "distinct (map f (filter P xs))" by (rule distinct_map_filter [OF assms(2)])
  ultimately show ?thesis by (metis mset_eq_imp_distinct_iff)
qed

section \<open>Well-formed caches\<close>

definition cache_ok :: "render_t \<Rightarrow> bool" where
  "cache_ok r \<longleftrightarrow>
     length (instances r) = 512 \<and> length (meshes r) = 512 \<and> length (shaders r) = 512 \<and>
     instance_count r \<le> 512 \<and> mesh_count r \<le> 512 \<and> shader_count r \<le> 512 \<and>
     distinct (map in_entity (take (instance_count r) (instances r))) \<and>
     distinct (map me_info (take (mesh_count r) (meshes r))) \<and>
     distinct (map sh_info (take (shader_count r) (shaders r)))"

lemma cache_ok_create:
  "length is = 512 \<Longrightarrow> length ms = 512 \<Longrightarrow> length ss = 512 \<Longrightarrow>
   cache_ok (render_create is ms ss frames)"
  by (simp add: cache_ok_def render_create_def)

lemma cache_ok_log [simp]: "cache_ok (log_call c r) = cache_ok r"
  by (simp add: cache_ok_def log_call_def)

text \<open>Appending a key that no entry has, and changing an entry without its key.\<close>

lemma distinct_append_key:
  assumes "distinct (map f (take n xs))" and "n < length xs" and "f y = k"
    and "\<And>i. i < n \<Longrightarrow> f (xs ! i) \<noteq> k"
  shows "distinct (map f (take (Suc n) (xs[n := y])))"
proof -
  have "take (Suc n) (xs[n := y]) = take n xs @ [y]"
    using assms(2) by (simp add: take_Suc_conv_app_nth)
  moreover have "k \<notin> set (map f (take n xs))"
    using assms(2,4) by (force simp: in_set_conv_nth)
  ultimately show ?thesis using assms(1,3) by simp
qed

lemma map_take_update_key:
  "f y = f (xs ! i) \<Longrightarrow> map f (take n (xs[i := y])) = map f (take n xs)"
  by (cases "i < length xs") (auto intro!: nth_equalityI simp: nth_list_update)

text \<open>What a step of the caches may do to everything but its own cache.\<close>

fun is_create :: "gpu_call \<Rightarrow> bool" where
  "is_create (Shader_create i) = True"
| "is_create (Pipeline_create s l) = True"
| "is_create (Mesh_create i) = True"
| "is_create (Uniform_create u) = True"
| "is_create (Uniform_update u d) = True"
| "is_create (Descriptor_create s u) = True"
| "is_create _ = False"

definition creates :: "render_t \<Rightarrow> render_t \<Rightarrow> bool" where
  "creates r r' \<longleftrightarrow> frame_counter r' = frame_counter r \<and> gpu_frame_count r' = gpu_frame_count r \<and>
     (\<exists>ds. calls r' = ds @ calls r \<and> (\<forall>d \<in> set ds. is_create d))"

lemma creates_refl [simp]: "creates r r"
  by (simp add: creates_def)

lemma creates_trans: "creates r1 r2 \<Longrightarrow> creates r2 r3 \<Longrightarrow> creates r1 r3"
  unfolding creates_def by (metis Un_iff append_assoc set_append)

lemma creates_log: "is_create c \<Longrightarrow> creates r (log_call c r)"
  by (simp add: creates_def log_call_def)

lemma create_call_simps [simp]:
  "fst (create_call gpu c r) = gpu (c # calls r)"
  "snd (create_call gpu c r) = log_call c r"
  by (simp_all add: create_call_def)

lemma log_call_simps [simp]:
  "frame_counter (log_call c r) = frame_counter r" "gpu_frame_count (log_call c r) = gpu_frame_count r"
  "instance_count (log_call c r) = instance_count r" "mesh_count (log_call c r) = mesh_count r"
  "shader_count (log_call c r) = shader_count r" "instances (log_call c r) = instances r"
  "meshes (log_call c r) = meshes r" "shaders (log_call c r) = shaders r"
  "calls (log_call c r) = c # calls r"
  by (simp_all add: log_call_def)

lemma cache_ok_update [simp]:
  "me_info m = me_info (meshes r ! i) \<Longrightarrow> cache_ok (r\<lparr>meshes := (meshes r)[i := m]\<rparr>) = cache_ok r"
  "sh_info s = sh_info (shaders r ! i) \<Longrightarrow> cache_ok (r\<lparr>shaders := (shaders r)[i := s]\<rparr>) = cache_ok r"
  "in_entity e = in_entity (instances r ! i) \<Longrightarrow>
     cache_ok (r\<lparr>instances := (instances r)[i := e]\<rparr>) = cache_ok r"
  by (simp_all add: cache_ok_def map_take_update_key)

section \<open>Looking up an entry\<close>

text \<open>\<open>same_but\<close> relations: what each lookup leaves alone.\<close>

definition other_than_meshes :: "render_t \<Rightarrow> render_t \<Rightarrow> bool" where
  "other_than_meshes r r' \<longleftrightarrow> shaders r' = shaders r \<and> shader_count r' = shader_count r \<and>
     instances r' = instances r \<and> instance_count r' = instance_count r"

definition other_than_shaders :: "render_t \<Rightarrow> render_t \<Rightarrow> bool" where
  "other_than_shaders r r' \<longleftrightarrow> meshes r' = meshes r \<and> mesh_count r' = mesh_count r \<and>
     instances r' = instances r \<and> instance_count r' = instance_count r"

definition other_than_instances :: "render_t \<Rightarrow> render_t \<Rightarrow> bool" where
  "other_than_instances r r' \<longleftrightarrow> meshes r' = meshes r \<and> mesh_count r' = mesh_count r \<and>
     shaders r' = shaders r \<and> shader_count r' = shader_count r"

lemma mesh_slot:
  assumes ok: "cache_ok r" and get: "get_mesh_slot info r = Some (i, r')"
  shows "cache_ok r' \<and> creates r r' \<and> other_than_meshes r r' \<and> i < mesh_count r' \<and>
    me_info (meshes r' ! i) = info \<and> calls r' = calls r"
proof (cases "scan (\<lambda>i. me_info (meshes r ! i) = info) 0 (mesh_count r)")
  case (Some j)
  with get ok scan_SomeD [OF Some] show ?thesis
    by (simp add: get_mesh_slot_def other_than_meshes_def)
next
  case None
  then have new: "\<And>j. j < mesh_count r \<Longrightarrow> me_info (meshes r ! j) \<noteq> info"
    by (simp add: scan_None_iff)
  let ?n = "mesh_count r"
  let ?m = "(meshes r ! ?n)\<lparr>me_info := info\<rparr>"
  from get None have n: "?n < 512" "i = ?n"
    and r': "r' = r\<lparr>mesh_count := ?n + 1, meshes := (meshes r)[?n := ?m]\<rparr>"
    by (auto simp: get_mesh_slot_def Let_def split: if_splits)
  have "distinct (map me_info (take (Suc ?n) ((meshes r)[?n := ?m])))"
    using ok n new by (intro distinct_append_key) (auto simp: cache_ok_def)
  with ok n show ?thesis
    by (simp add: r' cache_ok_def other_than_meshes_def creates_def)
qed

lemma ensure_mesh_facts:
  assumes ok: "cache_ok r" and i: "i < length (meshes r)"
  shows "cache_ok (ensure_mesh gpu info i r) \<and> creates r (ensure_mesh gpu info i r) \<and>
    other_than_meshes r (ensure_mesh gpu info i r) \<and> mesh_count (ensure_mesh gpu info i r) = mesh_count r \<and>
    length (meshes (ensure_mesh gpu info i r)) = length (meshes r) \<and>
    me_info (meshes (ensure_mesh gpu info i r) ! i) = me_info (meshes r ! i)"
  using assms cache_ok_update(1) [of _ "log_call (Mesh_create info) r" i]
  by (auto simp: ensure_mesh_def create_call_def other_than_meshes_def creates_def)

lemma mesh_lookup:
  assumes ok: "cache_ok r" and get: "create_or_get_mesh_for_model_command gpu r cmd = Some (i, r')"
  shows "cache_ok r' \<and> creates r r' \<and> other_than_meshes r r' \<and> i < mesh_count r' \<and>
    me_info (meshes r' ! i) = mc_mesh cmd \<and> me_frame (meshes r' ! i) = frame_counter r"
proof -
  from get obtain r1 where slot: "get_mesh_slot (mc_mesh cmd) r = Some (i, r1)"
    by (auto simp: create_or_get_mesh_for_model_command_def Let_def bind_eq_Some_conv)
  note s = mesh_slot [OF ok slot]
  then have len: "i < length (meshes r1)" by (simp add: cache_ok_def)
  define r2 where "r2 = ensure_mesh gpu (mc_mesh cmd) i r1"
  have r2: "cache_ok r2" "creates r1 r2" "other_than_meshes r1 r2" "mesh_count r2 = mesh_count r1"
    "length (meshes r2) = length (meshes r1)" "me_info (meshes r2 ! i) = me_info (meshes r1 ! i)"
    using ensure_mesh_facts [of r1 i gpu "mc_mesh cmd"] s len by (auto simp: r2_def)
  have r': "r' = r2\<lparr>meshes := (meshes r2)[i := (meshes r2 ! i)\<lparr>me_frame := frame_counter r2\<rparr>]\<rparr>"
    using get slot by (auto simp: create_or_get_mesh_for_model_command_def r2_def Let_def)
  have "creates r r2" using s r2(2) creates_trans by blast
  then show ?thesis
    using s r2 len by (auto simp: r' other_than_meshes_def creates_def)
qed

lemma shader_slot:
  assumes ok: "cache_ok r" and get: "get_shader_slot info r = Some (i, r')"
  shows "cache_ok r' \<and> creates r r' \<and> other_than_shaders r r' \<and> i < shader_count r' \<and>
    sh_info (shaders r' ! i) = info"
proof (cases "scan (\<lambda>i. sh_info (shaders r ! i) = info) 0 (shader_count r)")
  case (Some j)
  with get ok scan_SomeD [OF Some] show ?thesis
    by (simp add: get_shader_slot_def other_than_shaders_def)
next
  case None
  then have new: "\<And>j. j < shader_count r \<Longrightarrow> sh_info (shaders r ! j) \<noteq> info"
    by (simp add: scan_None_iff)
  let ?n = "shader_count r"
  let ?m = "(shaders r ! ?n)\<lparr>sh_info := info\<rparr>"
  from get None have n: "?n < 512" "i = ?n"
    and r': "r' = r\<lparr>shader_count := ?n + 1, shaders := (shaders r)[?n := ?m]\<rparr>"
    by (auto simp: get_shader_slot_def Let_def split: if_splits)
  have "distinct (map sh_info (take (Suc ?n) ((shaders r)[?n := ?m])))"
    using ok n new by (intro distinct_append_key) (auto simp: cache_ok_def)
  with ok n show ?thesis
    by (simp add: r' cache_ok_def other_than_shaders_def creates_def)
qed

lemma ensure_shader_facts:
  assumes ok: "cache_ok r" and i: "i < length (shaders r)"
    and r': "r' = ensure_shader gpu i r \<or> r' = ensure_pipeline gpu layout i r"
  shows "cache_ok r' \<and> creates r r' \<and> other_than_shaders r r' \<and> shader_count r' = shader_count r \<and>
    length (shaders r') = length (shaders r) \<and> sh_info (shaders r' ! i) = sh_info (shaders r ! i)"
  using assms cache_ok_update(2) [of _ "log_call (Shader_create (sh_info (shaders r ! i))) r" i]
    cache_ok_update(2) [of _ "log_call (Pipeline_create (sh_shader (shaders r ! i)) layout) r" i]
  by (auto simp: ensure_shader_def ensure_pipeline_def create_call_def other_than_shaders_def creates_def)

lemma shader_lookup:
  assumes ok: "cache_ok r" and get: "create_or_get_shader_for_model_command gpu r cmd = Some (i, r')"
  shows "cache_ok r' \<and> creates r r' \<and> other_than_shaders r r' \<and> i < shader_count r' \<and>
    sh_info (shaders r' ! i) = mc_shader cmd \<and> sh_frame (shaders r' ! i) = frame_counter r"
proof -
  from get obtain r1 where slot: "get_shader_slot (mc_shader cmd) r = Some (i, r1)"
    by (auto simp: create_or_get_shader_for_model_command_def Let_def bind_eq_Some_conv)
  note s = shader_slot [OF ok slot]
  then have len: "i < length (shaders r1)" by (simp add: cache_ok_def)
  define r2 where "r2 = ensure_shader gpu i r1"
  have r2: "cache_ok r2" "creates r1 r2" "other_than_shaders r1 r2" "shader_count r2 = shader_count r1"
    "length (shaders r2) = length (shaders r1)" "sh_info (shaders r2 ! i) = sh_info (shaders r1 ! i)"
    using ensure_shader_facts [of r1 i r2 gpu] s len by (auto simp: r2_def)
  define r3 where "r3 = ensure_pipeline gpu (mc_mesh_layout cmd) i r2"
  have r3: "cache_ok r3" "creates r2 r3" "other_than_shaders r2 r3" "shader_count r3 = shader_count r2"
    "length (shaders r3) = length (shaders r2)" "sh_info (shaders r3 ! i) = sh_info (shaders r2 ! i)"
    using ensure_shader_facts [of r2 i r3 gpu "mc_mesh_layout cmd"] r2 len by (auto simp: r3_def)
  have r': "r' = r3\<lparr>shaders := (shaders r3)[i := (shaders r3 ! i)\<lparr>sh_frame := frame_counter r3\<rparr>]\<rparr>"
    using get slot
    by (auto simp: create_or_get_shader_for_model_command_def r3_def r2_def Let_def)
  have "creates r r3" using s r2(2) r3(2) creates_trans by blast
  then show ?thesis
    using s r2 r3 len by (auto simp: r' other_than_shaders_def creates_def)
qed

lemma create_frames_facts:
  "create_frames gpu shader uniform n r = (us, ds, r') \<Longrightarrow>
   creates r r' \<and> other_than_instances r r' \<and> instances r' = instances r \<and>
   instance_count r' = instance_count r \<and> length us = n \<and> length ds = n"
proof (induction n arbitrary: r us ds r')
  case 0
  then show ?case by (simp add: other_than_instances_def)
next
  case (Suc n)
  let ?r1 = "log_call (Uniform_create uniform) r"
  let ?r2 = "log_call (Descriptor_create shader (gpu (Uniform_create uniform # calls r))) ?r1"
  obtain us' ds' where rest: "create_frames gpu shader uniform n ?r2 = (us', ds', r')"
    and u: "length us = Suc (length us')" "length ds = Suc (length ds')"
    using Suc.prems by (auto simp: create_call_def Let_def split: prod.splits)
  have "creates r ?r2" by (simp add: creates_def)
  with Suc.IH [OF rest] u show ?case
    by (auto simp: other_than_instances_def dest: creates_trans)
qed

lemma cache_ok_cong:
  assumes "cache_ok r" and "other_than_instances r r'" and "instances r' = instances r"
    and "instance_count r' = instance_count r"
  shows "cache_ok r'"
  using assms by (simp add: cache_ok_def other_than_instances_def)

lemma instance_slot:
  assumes ok: "cache_ok r" and get: "get_instance_slot gpu cmd shader r = Some (i, r')"
  shows "cache_ok r' \<and> creates r r' \<and> other_than_instances r r' \<and> i < instance_count r' \<and>
    in_entity (instances r' ! i) = mc_entity cmd"
proof (cases "scan (\<lambda>i. in_entity (instances r ! i) = mc_entity cmd) 0 (instance_count r)")
  case (Some j)
  with get ok scan_SomeD [OF Some] show ?thesis
    by (simp add: get_instance_slot_def other_than_instances_def)
next
  case None
  then have new: "\<And>j. j < instance_count r \<Longrightarrow> in_entity (instances r ! j) \<noteq> mc_entity cmd"
    by (simp add: scan_None_iff)
  let ?n = "instance_count r"
  obtain us ds r1 where frames: "create_frames gpu shader (mc_uniform cmd) (gpu_frame_count r) r = (us, ds, r1)"
    by (metis prod_cases3)
  note f = create_frames_facts [OF frames]
  let ?m = "(instances r1 ! ?n)\<lparr>in_entity := mc_entity cmd, uniform_buffers := us, descriptors := ds\<rparr>"
  from get None frames have n: "?n < 512" "i = ?n"
    and r': "r' = r1\<lparr>instance_count := ?n + 1, instances := (instances r1)[?n := ?m]\<rparr>"
    by (auto simp: get_instance_slot_def Let_def split: if_splits)
  have ok1: "cache_ok r1" using cache_ok_cong [OF ok] f by blast
  have "distinct (map in_entity (take (Suc ?n) ((instances r1)[?n := ?m])))"
    using ok1 n new f by (intro distinct_append_key) (auto simp: cache_ok_def)
  with ok1 n f show ?thesis
    by (simp add: r' cache_ok_def other_than_instances_def creates_def)
qed

lemma instance_lookup:
  assumes ok: "cache_ok r"
    and get: "create_or_get_instance_for_model_command gpu r cmd shader = Some (i, r')"
  shows "cache_ok r' \<and> creates r r' \<and> other_than_instances r r' \<and> i < instance_count r' \<and>
    in_entity (instances r' ! i) = mc_entity cmd \<and> in_frame (instances r' ! i) = frame_counter r"
proof -
  from get obtain r1 u where slot: "get_instance_slot gpu cmd shader r = Some (i, r1)"
    and r': "r' = (log_call (Uniform_update u (mc_uniform cmd)) r1)
      \<lparr>instances := (instances r1)[i := (instances r1 ! i)\<lparr>in_frame := frame_counter r1\<rparr>]\<rparr>"
    by (auto simp: create_or_get_instance_for_model_command_def bind_eq_Some_conv Let_def)
  note s = instance_slot [OF ok slot]
  then have len: "i < length (instances r1)" by (simp add: cache_ok_def)
  have "cache_ok r'"
    using s cache_ok_update(3) [of _ "log_call (Uniform_update u (mc_uniform cmd)) r1" i] by (simp add: r')
  moreover have "creates r r'"
    using s by (auto simp: r' creates_def)
  ultimately show ?thesis
    using s len by (simp add: r' other_than_instances_def creates_def)
qed

section \<open>Destroying stale entries\<close>

text \<open>The entries in use, as multisets.\<close>

abbreviation "live_instances r \<equiv> mset (take (instance_count r) (instances r))"
abbreviation "live_meshes r \<equiv> mset (take (mesh_count r) (meshes r))"
abbreviation "live_shaders r \<equiv> mset (take (shader_count r) (shaders r))"

definition instance_destroys :: "draw_instance_t \<Rightarrow> gpu_call list" where
  "instance_destroys e = concat (map (\<lambda>(d, u). [Descriptor_destroy d, Uniform_destroy u])
     (zip (descriptors e) (uniform_buffers e)))"

lemma destroy_stale_eq:
  assumes "cache_ok r"
  shows "cache_ok (destroy_stale_data r) \<and>
    live_instances (destroy_stale_data r) = {#e \<in># live_instances r. \<not> stale r (in_frame e)#} \<and>
    live_meshes (destroy_stale_data r) = {#e \<in># live_meshes r. \<not> stale r (me_frame e)#} \<and>
    live_shaders (destroy_stale_data r) = {#e \<in># live_shaders r. \<not> stale r (sh_frame e)#} \<and>
    mset (calls (destroy_stale_data r)) = mset (calls r)
      + (\<Sum>e \<in># {#e \<in># live_instances r. stale r (in_frame e)#}. mset (instance_destroys e))
      + (\<Sum>e \<in># {#e \<in># live_meshes r. stale r (me_frame e)#}. {#Mesh_destroy (me_mesh e)#})
      + (\<Sum>e \<in># {#e \<in># live_shaders r. stale r (sh_frame e)#}.
          {#Pipeline_destroy (sh_pipeline e), Shader_destroy (sh_shader e)#})"
proof -
  obtain ins ic l1 where i: "sweep (\<lambda>e. stale r (in_frame e)) instance_destroys (instance_count r)
      (instances r) (instance_count r) (calls r) = (ins, ic, l1)" "ic \<le> instance_count r"
      "length ins = length (instances r)" "mset (take ic ins) = {#e \<in># live_instances r. \<not> stale r (in_frame e)#}"
      "mset l1 = mset (calls r) + (\<Sum>e \<in># {#e \<in># live_instances r. stale r (in_frame e)#}. mset (instance_destroys e))"
    using assms by (elim sweep_all [rotated]) (simp add: cache_ok_def)
  obtain ms mc l2 where m: "sweep (\<lambda>e. stale r (me_frame e)) (\<lambda>e. [Mesh_destroy (me_mesh e)]) (mesh_count r)
      (meshes r) (mesh_count r) l1 = (ms, mc, l2)" "mc \<le> mesh_count r"
      "length ms = length (meshes r)" "mset (take mc ms) = {#e \<in># live_meshes r. \<not> stale r (me_frame e)#}"
      "mset l2 = mset l1 + (\<Sum>e \<in># {#e \<in># live_meshes r. stale r (me_frame e)#}. mset [Mesh_destroy (me_mesh e)])"
    using assms by (elim sweep_all [rotated]) (simp add: cache_ok_def)
  obtain ss sc l3 where s: "sweep (\<lambda>e. stale r (sh_frame e))
      (\<lambda>e. [Pipeline_destroy (sh_pipeline e), Shader_destroy (sh_shader e)]) (shader_count r)
      (shaders r) (shader_count r) l2 = (ss, sc, l3)" "sc \<le> shader_count r"
      "length ss = length (shaders r)" "mset (take sc ss) = {#e \<in># live_shaders r. \<not> stale r (sh_frame e)#}"
      "mset l3 = mset l2 + (\<Sum>e \<in># {#e \<in># live_shaders r. stale r (sh_frame e)#}.
        mset [Pipeline_destroy (sh_pipeline e), Shader_destroy (sh_shader e)])"
    using assms by (elim sweep_all [rotated]) (simp add: cache_ok_def)
  have r': "destroy_stale_data r = r\<lparr>calls := l3, instances := ins, instance_count := ic, meshes := ms,
      mesh_count := mc, shaders := ss, shader_count := sc\<rparr>"
    using i(1) m(1) s(1) by (simp add: destroy_stale_data_def instance_destroys_def [abs_def])
  have "distinct (map in_entity (take ic ins))" "distinct (map me_info (take mc ms))"
    "distinct (map sh_info (take sc ss))"
    using assms distinct_map_filter_mset [OF i(4)] distinct_map_filter_mset [OF m(4)]
      distinct_map_filter_mset [OF s(4)] by (auto simp: cache_ok_def)
  then show ?thesis
    using assms i m s by (simp add: r' cache_ok_def)
qed

lemma destroy_stale_counters [simp]:
  "frame_counter (destroy_stale_data r) = frame_counter r"
  "gpu_frame_count (destroy_stale_data r) = gpu_frame_count r"
  by (simp_all add: destroy_stale_data_def split: prod.splits)

end
