(* ===== verification/Render_Thread.thy ===== *)
theory Render_Thread
  imports Render_Cache
begin

text \<open>
  The render thread over sequences of commands: its invariant, what is bound at each draw call,
  and the properties of the caches.
\<close>

section \<open>What is bound\<close>

text \<open>The pipeline and mesh bound by the calls of the current frame, newest call first.\<close>

primrec bound_pipeline :: "gpu_call list \<Rightarrow> nat ptr" where
  "bound_pipeline [] = None"
| "bound_pipeline (c # cs) =
     (case c of Pipeline_bind p \<Rightarrow> p | Frame_begin \<Rightarrow> None | _ \<Rightarrow> bound_pipeline cs)"

primrec bound_mesh :: "gpu_call list \<Rightarrow> nat ptr" where
  "bound_mesh [] = None"
| "bound_mesh (c # cs) =
     (case c of Mesh_bind m \<Rightarrow> m | Frame_begin \<Rightarrow> None | _ \<Rightarrow> bound_mesh cs)"

lemma bound_create:
  "\<forall>d \<in> set ds. is_create d \<Longrightarrow> bound_pipeline (ds @ cs) = bound_pipeline cs"
  "\<forall>d \<in> set ds. is_create d \<Longrightarrow> bound_mesh (ds @ cs) = bound_mesh cs"
  by (induction ds) (auto split: gpu_call.splits)

lemma creates_bound:
  assumes "creates r r'"
  shows "bound_pipeline (calls r') = bound_pipeline (calls r)" and "bound_mesh (calls r') = bound_mesh (calls r)"
  using assms bound_create by (auto simp: creates_def)

definition thread_inv :: "render_thread \<Rightarrow> bool" where
  "thread_inv t \<longleftrightarrow> cache_ok (rt t) \<and>
     (if cmdbuf t then last_pipeline t = bound_pipeline (calls (rt t)) \<and> last_mesh t = bound_mesh (calls (rt t))
      else last_pipeline t = None \<and> last_mesh t = None)"

lemma begin_frame_inv: "thread_inv t \<Longrightarrow> thread_inv (begin_frame t) \<and> cmdbuf (begin_frame t)"
  by (auto simp: thread_inv_def begin_frame_def)

lemma end_frame_inv:
  assumes "thread_inv t" and "end_frame t = Some t'"
  shows "thread_inv t'"
proof -
  from assms(2) have t': "\<not> cmdbuf t'" "last_pipeline t' = None" "last_mesh t' = None"
    "rt t' = (destroy_stale_data (log_call Frame_end (rt t)))
       \<lparr>frame_counter := frame_counter (destroy_stale_data (log_call Frame_end (rt t))) + 1\<rparr>"
    by (auto simp: end_frame_def Let_def)
  have "cache_ok (destroy_stale_data (log_call Frame_end (rt t)))"
    using assms(1) destroy_stale_eq by (simp add: thread_inv_def)
  then show ?thesis by (simp add: thread_inv_def t') (simp add: cache_ok_def)
qed

text \<open>The draw call of a model: what is bound when it is made.\<close>

definition drawn :: "model_command_t \<Rightarrow> render_t \<Rightarrow> bool" where
  "drawn cmd r \<longleftrightarrow>
     (\<exists>si < shader_count r. sh_info (shaders r ! si) = mc_shader cmd \<and>
        bound_pipeline (calls r) = sh_pipeline (shaders r ! si)) \<and>
     (\<exists>mi < mesh_count r. me_info (meshes r ! mi) = mc_mesh cmd \<and>
        bound_mesh (calls r) = me_mesh (meshes r ! mi)) \<and>
     (\<exists>ii < instance_count r. \<exists>d cs. in_entity (instances r ! ii) = mc_entity cmd \<and>
        d \<in> set (descriptors (instances r ! ii)) \<and> calls r = Draw # Descriptor_bind d # cs)"

lemma draw_model_inv:
  assumes inv: "thread_inv t" "cmdbuf t" and draw: "draw_model gpu cmd t = Some t'"
  shows "thread_inv t' \<and> cmdbuf t' \<and> drawn cmd (rt t')"
proof -
  from draw obtain si r1 mi r2 ii r3 d where
    sh: "create_or_get_shader_for_model_command gpu (rt t) cmd = Some (si, r1)" and
    me: "create_or_get_mesh_for_model_command gpu r1 cmd = Some (mi, r2)" and
    ins: "create_or_get_instance_for_model_command gpu r2 cmd (sh_shader (shaders r2 ! si)) = Some (ii, r3)"
    by (auto simp: draw_model_def Let_def bind_eq_Some_conv)
  define r4 where "r4 = (if last_pipeline t \<noteq> sh_pipeline (shaders r3 ! si)
    then log_call (Pipeline_bind (sh_pipeline (shaders r3 ! si))) r3 else r3)"
  define r5 where "r5 = (if last_mesh t \<noteq> me_mesh (meshes r3 ! mi)
    then log_call (Mesh_bind (me_mesh (meshes r3 ! mi))) r4 else r4)"
  have r45: "meshes r4 = meshes r3" "shaders r4 = shaders r3" "instances r4 = instances r3"
      "meshes r5 = meshes r3" "shaders r5 = shaders r3" "instances r5 = instances r3"
      "mesh_count r5 = mesh_count r3" "shader_count r5 = shader_count r3" "instance_count r5 = instance_count r3"
      "cache_ok r5 = cache_ok r3"
    by (simp_all add: r4_def r5_def)
  from draw sh me ins obtain d where d: "arr_at (descriptors (instances r3 ! ii)) (frame_slot t) = Some d"
    and t': "t' = t\<lparr>rt := log_call Draw (log_call (Descriptor_bind d) r5),
      last_pipeline := sh_pipeline (shaders r3 ! si), last_mesh := me_mesh (meshes r3 ! mi)\<rparr>"
    by (auto simp: draw_model_def Let_def bind_eq_Some_conv r4_def r5_def split: if_splits)
  have ok: "cache_ok (rt t)" using inv(1) by (simp add: thread_inv_def)
  note s = shader_lookup [OF ok sh]
  then have ok1: "cache_ok r1" by simp
  note m = mesh_lookup [OF ok1 me]
  then have ok2: "cache_ok r2" by simp
  note i = instance_lookup [OF ok2 ins]
  have cr: "creates (rt t) r3" using s m i creates_trans by blast
  have last: "last_pipeline t = bound_pipeline (calls r3)" "last_mesh t = bound_mesh (calls r3)"
    using inv creates_bound [OF cr] by (simp_all add: thread_inv_def)
  then have bound: "bound_pipeline (calls r5) = sh_pipeline (shaders r3 ! si)"
      "bound_mesh (calls r5) = me_mesh (meshes r3 ! mi)"
    by (auto simp: r5_def r4_def)
  have "shaders r3 = shaders r1" "shader_count r3 = shader_count r1" "meshes r3 = meshes r2"
      "mesh_count r3 = mesh_count r2"
    using m i by (auto simp: other_than_meshes_def other_than_instances_def)
  then have entries: "si < shader_count r3" "sh_info (shaders r3 ! si) = mc_shader cmd" "mi < mesh_count r3"
      "me_info (meshes r3 ! mi) = mc_mesh cmd" "ii < instance_count r3" "in_entity (instances r3 ! ii) = mc_entity cmd"
    using s m i by auto
  have "d \<in> set (descriptors (instances r3 ! ii))"
    using d by (auto simp: arr_at_Some_iff)
  with entries bound have "drawn cmd (rt t')"
    unfolding drawn_def by (intro conjI exI [of _ si] exI [of _ mi] exI [of _ ii]) (auto simp: t' r45)
  moreover have "thread_inv t'"
    using i bound inv(2) by (simp add: thread_inv_def t' r45)
  ultimately show ?thesis using inv(2) by (simp add: t')
qed

lemma render_command_inv:
  assumes "thread_inv t" and "render_command gpu c t = Some t'"
  shows "thread_inv t'"
proof (cases c)
  case Frame_done
  with assms begin_frame_inv end_frame_inv show ?thesis
    by (auto simp: render_command_def Let_def)
next
  case (Model cmd)
  with assms begin_frame_inv [OF assms(1)] draw_model_inv [of "begin_frame t" gpu cmd t'] show ?thesis
    by (auto simp: render_command_def Let_def)
qed

lemma render_commands_inv:
  "thread_inv t \<Longrightarrow> render_commands gpu cs t = Some t' \<Longrightarrow> thread_inv t'"
  by (induction cs arbitrary: t) (auto split: option.splits dest: render_command_inv)

lemma render_start_inv: "cache_ok r \<Longrightarrow> thread_inv (render_start r)"
  by (simp add: thread_inv_def render_start_def)

section \<open>A sample run\<close>

definition counting_gpu :: gpu where
  "counting_gpu cs = Some (length cs)"

definition blank_render :: render_t where
  "blank_render = render_create
     (replicate 512 \<lparr>in_entity = \<lparr>entity = 0, sequence = 0\<rparr>, uniform_buffers = [], descriptors = [], in_frame = 0\<rparr>)
     (replicate 512 \<lparr>me_info = 0, me_mesh = None, me_frame = 0\<rparr>)
     (replicate 512 \<lparr>sh_info = 0, sh_shader = None, sh_pipeline = None, sh_frame = 0\<rparr>) 1"

definition cube :: model_command_t where
  "cube = \<lparr>mc_entity = \<lparr>entity = 3, sequence = 7\<rparr>, mc_mesh = 100, mc_mesh_layout = 1, mc_shader = 200,
     mc_uniform = [1, 2]\<rparr>"

lemma blank_render_ok: "cache_ok blank_render"
  by (simp add: blank_render_def cache_ok_create)

lemma cube_drawn: "\<exists>t. render_commands counting_gpu [Model cube] (render_start blank_render) = Some t"
  by (simp add: render_start_def render_command_def begin_frame_def draw_model_def blank_render_def render_create_def
      create_or_get_shader_for_model_command_def create_or_get_mesh_for_model_command_def get_shader_slot_def get_mesh_slot_def
      create_or_get_instance_for_model_command_def get_instance_slot_def scan.simps cube_def
      ensure_mesh_def ensure_shader_def ensure_pipeline_def create_call_def log_call_def counting_gpu_def
      frame_index_def c_rem_def arr_at_def Let_def)

section \<open>Properties\<close>

text \<open>C15. After any commands, drawing a model makes the draw call with the pipeline of the model's
  shader, its mesh and its entity's descriptor bound, although binding is skipped when the
  pointer is the one bound last; and the caches stay well-formed (no key twice, at most 512).\<close>

theorem render_draws_bound:
  assumes "cache_ok r" and "render_commands gpu cs (render_start r) = Some t"
    and "render_command gpu (Model cmd) t = Some t'"
  shows "drawn cmd (rt t') \<and> cache_ok (rt t')"
proof -
  have "thread_inv t"
    by (rule render_commands_inv [OF render_start_inv [OF assms(1)] assms(2)])
  with begin_frame_inv [OF this] draw_model_inv [of "begin_frame t" gpu cmd t'] assms(3) show ?thesis
    by (auto simp: render_command_def Let_def thread_inv_def)
qed

theorem render_draws_bound_witness:
  "\<exists>t. render_command counting_gpu (Model cube) (render_start blank_render) = Some t \<and> drawn cube (rt t)"
proof -
  obtain t where t: "render_command counting_gpu (Model cube) (render_start blank_render) = Some t"
    using cube_drawn by (auto split: option.splits)
  have "render_commands counting_gpu [] (render_start blank_render) = Some (render_start blank_render)" by simp
  from render_draws_bound [OF blank_render_ok this t] t show ?thesis by blast
qed

text \<open>C16. Clearing out keeps exactly the entries that were used within the last \<open>gpu_frame_count\<close>
  frames, destroys each GPU object of the others exactly once, and nothing else: an object is
  alive at least as long as the GPU may use it.\<close>

theorem render_destroy_stale:
  assumes "cache_ok r"
  shows "cache_ok (destroy_stale_data r) \<and>
    live_instances (destroy_stale_data r) = {#e \<in># live_instances r. \<not> stale r (in_frame e)#} \<and>
    live_meshes (destroy_stale_data r) = {#e \<in># live_meshes r. \<not> stale r (me_frame e)#} \<and>
    live_shaders (destroy_stale_data r) = {#e \<in># live_shaders r. \<not> stale r (sh_frame e)#} \<and>
    mset (calls (destroy_stale_data r)) = mset (calls r)
      + (\<Sum>e \<in># {#e \<in># live_instances r. stale r (in_frame e)#}. mset (instance_destroys e))
      + (\<Sum>e \<in># {#e \<in># live_meshes r. stale r (me_frame e)#}. {#Mesh_destroy (me_mesh e)#})
      + (\<Sum>e \<in># {#e \<in># live_shaders r. stale r (sh_frame e)#}.
          {#Pipeline_destroy (sh_pipeline e), Shader_destroy (sh_shader e)#})"
  by (rule destroy_stale_eq [OF assms])

definition old_mesh :: render_t where
  "old_mesh = blank_render\<lparr>mesh_count := 1, frame_counter := 1,
     meshes := (meshes blank_render)[0 := \<lparr>me_info = 100, me_mesh = Some 5, me_frame = 0\<rparr>]\<rparr>"

lemma old_mesh_ok: "cache_ok old_mesh"
  by (simp add: old_mesh_def blank_render_def render_create_def cache_ok_def take_Suc_conv_app_nth)

lemma old_mesh_stale: "stale old_mesh 0" "gpu_frame_count old_mesh = 1"
  by (simp_all add: stale_def old_mesh_def blank_render_def render_create_def)

theorem render_destroy_stale_witness:
  "live_meshes (destroy_stale_data old_mesh) = {#} \<and>
   mset (calls (destroy_stale_data old_mesh)) = {#Mesh_destroy (Some 5)#}"
proof -
  have "live_meshes old_mesh = {#\<lparr>me_info = 100, me_mesh = Some 5, me_frame = 0\<rparr>#}"
    "live_instances old_mesh = {#}" "live_shaders old_mesh = {#}" "calls old_mesh = []"
    by (simp_all add: old_mesh_def blank_render_def render_create_def take_Suc_conv_app_nth)
  with render_destroy_stale [OF old_mesh_ok] old_mesh_stale show ?thesis by simp
qed

text \<open>When the only mesh goes stale its GPU mesh is destroyed, but the slot keeps the pointer,
  and the next model with a new mesh is drawn with the destroyed one: nothing is created.\<close>

theorem render_reuses_destroyed_mesh:
  assumes "cache_ok r" and "mesh_count r = 1" and "stale r (me_frame (meshes r ! 0))"
    and "me_mesh (meshes r ! 0) = Some h"
  shows "Mesh_destroy (Some h) \<in> set (calls (destroy_stale_data r)) \<and>
    (\<exists>r'. create_or_get_mesh_for_model_command gpu (destroy_stale_data r) cmd = Some (0, r') \<and>
       me_mesh (meshes r' ! 0) = Some h \<and> calls r' = calls (destroy_stale_data r))"
proof -
  let ?r = "destroy_stale_data r"
  have len: "0 < length (meshes r)" using assms(1) by (simp add: cache_ok_def)
  have r: "mesh_count ?r = 0" "meshes ?r = meshes r"
    using assms(2,3) by (simp_all add: destroy_stale_data_def split: prod.splits)
  have "take 1 (meshes r) = [meshes r ! 0]"
    using len by (cases "meshes r") auto
  then have "live_meshes r = {#meshes r ! 0#}" by (simp add: assms(2))
  with destroy_stale_eq [OF assms(1)] assms(3,4)
  have "Mesh_destroy (Some h) \<in># mset (calls ?r)" by simp
  moreover have "\<exists>r'. create_or_get_mesh_for_model_command gpu ?r cmd = Some (0, r') \<and>
       me_mesh (meshes r' ! 0) = Some h \<and> calls r' = calls ?r"
    using r len assms(4)
    by (simp add: create_or_get_mesh_for_model_command_def get_mesh_slot_def scan.simps ensure_mesh_def)
  ultimately show ?thesis by simp
qed

theorem render_reuses_destroyed_mesh_witness:
  "Mesh_destroy (Some 5) \<in> set (calls (destroy_stale_data old_mesh)) \<and>
   (\<exists>r'. create_or_get_mesh_for_model_command counting_gpu (destroy_stale_data old_mesh) (cube\<lparr>mc_mesh := 101\<rparr>)
       = Some (0, r') \<and> me_mesh (meshes r' ! 0) = Some 5)"
  using render_reuses_destroyed_mesh [OF old_mesh_ok, of 5 counting_gpu "cube\<lparr>mc_mesh := 101\<rparr>"] old_mesh_stale
  by (auto simp: old_mesh_def blank_render_def render_create_def)

end
