(* ===== verification/Render_Queue.thy ===== *)
theory Render_Queue
  imports Render_Thread Queue
begin

text \<open>
  The game thread and the render thread of \<^verbatim>\<open>render.c\<close> together: the game pushes commands into the queue, the
  render thread pops and executes them until the NULL.  The operations of the queue are single
  steps here; \<^verbatim>\<open>Queue_Conc\<close> shows that with one producer and one consumer their parts interleave as
  if they were.
\<close>

section \<open>Pushing commands\<close>

text \<open>The bytes of the uniforms are copied into a block of their own.\<close>

definition render_push_model ::
  "'s semaphore_api \<Rightarrow> ecs_entity_ref_t \<Rightarrow> nat \<Rightarrow> nat \<Rightarrow> nat \<Rightarrow> u8 list \<Rightarrow> ('s, command) queue \<Rightarrow>
   ('s, command) queue outcome" where
  "render_push_model K ent mesh layout shader uniform q =
     queue_push K q (Some (Model \<lparr>mc_entity = ent, mc_mesh = mesh, mc_mesh_layout = layout, mc_shader = shader,
       mc_uniform = uniform\<rparr>))"

definition render_push_done :: "'s semaphore_api \<Rightarrow> ('s, command) queue \<Rightarrow> ('s, command) queue outcome" where
  "render_push_done K q = queue_push K q (Some Frame_done)"

text \<open>\<^verbatim>\<open>render_destroy\<close> pushes the NULL and joins the thread.\<close>

definition render_stop :: "'s semaphore_api \<Rightarrow> ('s, command) queue \<Rightarrow> ('s, command) queue outcome" where
  "render_stop K q = queue_push K q None"

text \<open>What the game wants to push.\<close>

fun push_command :: "'s semaphore_api \<Rightarrow> command ptr \<Rightarrow> ('s, command) queue \<Rightarrow> ('s, command) queue outcome" where
  "push_command K None q = render_stop K q"
| "push_command K (Some Frame_done) q = render_push_done K q"
| "push_command K (Some (Model m)) q =
     render_push_model K (mc_entity m) (mc_mesh m) (mc_mesh_layout m) (mc_shader m) (mc_uniform m) q"

lemma push_command_queue: "push_command K c q = queue_push K q c"
proof (cases "(K, c, q)" rule: push_command.cases)
  case (3 K m q)
  then show ?thesis by (cases m) (simp add: render_push_model_def)
qed (simp_all add: render_stop_def render_push_done_def)

section \<open>The two threads\<close>

record 's render_system =
  still_to_push :: "command ptr list"
  command_queue :: "('s, command) queue"
  render_state :: render_thread
  render_result :: "render_t option"

inductive render_step :: "gpu \<Rightarrow> 's semaphore_api \<Rightarrow> 's render_system \<Rightarrow> 's render_system \<Rightarrow> bool" for gpu K where
  game: "still_to_push s = c # cs \<Longrightarrow> push_command K c (command_queue s) = Returns q \<Longrightarrow>
     render_step gpu K s (s\<lparr>still_to_push := cs, command_queue := q\<rparr>)"
| render: "render_result s = None \<Longrightarrow> queue_pop K (command_queue s) = Returns (Some c, q) \<Longrightarrow>
     render_command gpu c (render_state s) = Some t \<Longrightarrow>
     render_step gpu K s (s\<lparr>command_queue := q, render_state := t\<rparr>)"
| stop: "render_result s = None \<Longrightarrow> queue_pop K (command_queue s) = Returns (None, q) \<Longrightarrow>
     render_step gpu K s (s\<lparr>command_queue := q, render_result := Some (render_finish (render_state s))\<rparr>)"

text \<open>The game pushes the commands \<open>cs\<close> and stops the renderer.\<close>

definition render_begin :: "command list \<Rightarrow> ('s, command) queue \<Rightarrow> render_t \<Rightarrow> 's render_system" where
  "render_begin cs q r =
     \<lparr>still_to_push = map Some cs @ [None], command_queue = q, render_state = render_start r, render_result = None\<rparr>"

inductive render_reach :: "gpu \<Rightarrow> 's semaphore_api \<Rightarrow> 's render_system \<Rightarrow> 's render_system \<Rightarrow> bool" for gpu K s0 where
  start: "render_reach gpu K s0 s0"
| step: "render_reach gpu K s0 s \<Longrightarrow> render_step gpu K s s' \<Longrightarrow> render_reach gpu K s0 s'"

inductive_cases render_stepE: "render_step gpu K s s'"

section \<open>The commands are executed in order\<close>

lemma render_commands_append:
  "render_commands gpu (as @ bs) t = render_commands gpu as t \<bind> render_commands gpu bs"
  by (induction as arbitrary: t) (simp_all split: option.splits)

text \<open>What was executed, what waits and what is still to be pushed make up the whole.\<close>

definition render_sys_ok ::
  "('s \<Rightarrow> nat) \<Rightarrow> ('s \<Rightarrow> nat) \<Rightarrow> gpu \<Rightarrow> command list \<Rightarrow> render_t \<Rightarrow> 's render_system \<Rightarrow> bool" where
  "render_sys_ok cnt lim gpu cs r s \<longleftrightarrow>
     queue_inv cnt lim (command_queue s) \<and> length (still_to_push s) \<le> queue_budget (command_queue s) \<and>
     (case render_result s of
        None \<Rightarrow> \<exists>ds. render_commands gpu ds (render_start r) = Some (render_state s) \<and>
          map Some ds @ queue_contents (command_queue s) @ still_to_push s = map Some cs @ [None]
      | Some r' \<Rightarrow> render_thread_func gpu cs r = Some r' \<and> queue_contents (command_queue s) = [] \<and> still_to_push s = [])"

definition render_work :: "'s render_system \<Rightarrow> nat" where
  "render_work s = 2 * length (still_to_push s) + length (queue_contents (command_queue s))"

lemma none_at_end:
  assumes "map Some ds @ None # xs = map Some cs @ [None]"
  shows "xs = [] \<and> ds = cs"
proof -
  have "ds = cs \<and> xs = []" using assms
  proof (induction ds arbitrary: cs)
    case Nil
    then show ?case by (cases cs) auto
  next
    case (Cons d ds)
    then show ?case by (cases cs) auto
  qed
  then show ?thesis by simp
qed

lemma some_inside:
  assumes "map Some ds @ Some c # xs = map Some cs @ [None]"
  shows "\<exists>cs'. cs = ds @ c # cs'"
  using assms
proof (induction ds arbitrary: cs)
  case Nil
  then show ?case by (cases cs) auto
next
  case (Cons d ds)
  then show ?case by (cases cs) auto
qed

lemma render_sys_step:
  assumes laws: "semaphore_laws K cnt lim" and ok: "render_sys_ok cnt lim gpu cs r s"
    and st: "render_step gpu K s s'"
  shows "render_sys_ok cnt lim gpu cs r s' \<and> render_work s' < render_work s"
  using st
proof cases
  case (game c cs' q)
  have q: "queue_inv cnt lim (command_queue s)" "0 < queue_budget (command_queue s)"
    using ok game(2) by (auto simp: render_sys_ok_def)
  have push: "queue_push K (command_queue s) c = Returns q" using game(3) by (simp add: push_command_queue)
  have "queue_room (command_queue s) \<noteq> 0" using queue_push_full [OF laws q(1), of c] push by auto
  with queue_push_room [OF laws q(1) _ q(2), of c] push have
    "queue_inv cnt lim q" "queue_contents q = queue_contents (command_queue s) @ [c]"
    "queue_budget q = queue_budget (command_queue s) - 1" by auto
  with ok game(1,2) show ?thesis
    by (auto simp: render_sys_ok_def render_work_def split: option.splits)
next
  case (render c q t)
  have q: "queue_inv cnt lim (command_queue s)" using ok by (simp add: render_sys_ok_def)
  obtain x xs where x: "queue_contents (command_queue s) = x # xs"
    using queue_pop_empty(1) [OF laws q] render(3) by (cases "queue_contents (command_queue s)") auto
  with queue_pop_cons [OF laws q x] render(3) have
    p: "x = Some c" "queue_inv cnt lim q" "queue_contents q = xs" "queue_budget q = queue_budget (command_queue s)"
    by auto
  obtain ds where "render_commands gpu ds (render_start r) = Some (render_state s)"
    "map Some ds @ (x # xs) @ still_to_push s = map Some cs @ [None]"
    using ok render(2) by (auto simp: render_sys_ok_def x)
  then have "render_commands gpu (ds @ [c]) (render_start r) = Some t \<and>
      map Some (ds @ [c]) @ xs @ still_to_push s = map Some cs @ [None]"
    using p(1) render(4) by (simp add: render_commands_append)
  with ok render(1,2) p x show ?thesis
    by (auto simp: render_sys_ok_def render_work_def intro!: exI [of _ "ds @ [c]"])
next
  case (stop q)
  have q: "queue_inv cnt lim (command_queue s)" using ok by (simp add: render_sys_ok_def)
  obtain x xs where x: "queue_contents (command_queue s) = x # xs"
    using queue_pop_empty(1) [OF laws q] stop(3) by (cases "queue_contents (command_queue s)") auto
  with queue_pop_cons [OF laws q x] stop(3) have
    p: "x = None" "queue_inv cnt lim q" "queue_contents q = xs" "queue_budget q = queue_budget (command_queue s)"
    by auto
  obtain ds where ds: "render_commands gpu ds (render_start r) = Some (render_state s)"
    "map Some ds @ (x # xs) @ still_to_push s = map Some cs @ [None]"
    using ok stop(2) by (auto simp: render_sys_ok_def x)
  then have "xs @ still_to_push s = [] \<and> ds = cs" using none_at_end [of ds "xs @ still_to_push s" cs] p(1) by simp
  with ok stop(1) p x ds(1) show ?thesis
    by (auto simp: render_sys_ok_def render_work_def render_thread_func_def)
qed

lemma render_can_step:
  assumes laws: "semaphore_laws K cnt lim" and ok: "render_sys_ok cnt lim gpu cs r s"
    and run: "render_result s = None" and defined: "render_thread_func gpu cs r \<noteq> None"
  shows "\<exists>s'. render_step gpu K s s'"
proof -
  let ?q = "command_queue s"
  have q: "queue_inv cnt lim ?q" and b: "length (still_to_push s) \<le> queue_budget ?q"
    using ok by (simp_all add: render_sys_ok_def)
  obtain ds where ds: "render_commands gpu ds (render_start r) = Some (render_state s)"
    "map Some ds @ queue_contents ?q @ still_to_push s = map Some cs @ [None]"
    using ok run by (auto simp: render_sys_ok_def)
  show ?thesis
  proof (cases "queue_contents ?q")
    case Nil
    with ds(2) obtain c cs' where c: "still_to_push s = c # cs'"
      by (cases "still_to_push s") (auto simp: map_eq_append_conv)
    have "0 < queue_room ?q" using Nil q by (simp add: queue_room_def queue_inv_def flip: queue_contents_length)
    with queue_push_room [OF laws q, of c] b c obtain q' where "queue_push K ?q c = Returns q'" by auto
    with render_step.game [of s c cs' K q' gpu] c show ?thesis by (auto simp: push_command_queue)
  next
    case (Cons x xs)
    with queue_pop_cons [OF laws q Cons] obtain q' where pop: "queue_pop K ?q = Returns (x, q')" by blast
    show ?thesis
    proof (cases x)
      case None
      with render_step.stop [OF run] pop show ?thesis by blast
    next
      case (Some c)
      with ds(2) Cons obtain cs' where "cs = ds @ c # cs'"
        using some_inside [of ds c "xs @ still_to_push s" cs] by auto
      with defined ds(1) obtain t where "render_command gpu c (render_state s) = Some t"
        by (auto simp: render_thread_func_def render_commands_append split: option.splits)
      with render_step.render [OF run] pop Some show ?thesis by blast
    qed
  qed
qed

lemma render_reach_ok:
  assumes laws: "semaphore_laws K cnt lim" and q: "queue_inv cnt lim q" "queue_contents q = []"
    and b: "length cs < queue_budget q"
  shows "render_reach gpu K (render_begin cs q r) s \<Longrightarrow> render_sys_ok cnt lim gpu cs r s"
proof (induction rule: render_reach.induct)
  case start
  have "\<exists>ds. render_commands gpu ds (render_start r) = Some (render_start r) \<and>
      map Some ds @ [] @ map Some cs @ [None] = map Some cs @ [None]"
    by (rule exI [of _ "[]"]) simp
  with q b show ?case by (simp add: render_sys_ok_def render_begin_def)
next
  case (step s s')
  then show ?case using render_sys_step [OF laws] by blast
qed

section \<open>Properties\<close>

text \<open>C14. The render thread executes exactly the commands the game pushes, in order, however the two threads
  interleave: the result is the one of the list of commands; the threads cannot deadlock (as long
  as the execution of the commands is defined), and every step reduces the work that is left.\<close>

theorem render_executes_pushed:
  assumes "semaphore_laws K cnt lim" and "queue_inv cnt lim q" and "queue_contents q = []"
    and "length cs < queue_budget q" and "render_thread_func gpu cs r = Some r'"
    and "render_reach gpu K (render_begin cs q r) s"
  shows "(case render_result s of
      None \<Rightarrow> \<exists>s'. render_step gpu K s s'
    | Some x \<Rightarrow> x = r' \<and> queue_contents (command_queue s) = [] \<and> still_to_push s = []) \<and>
    (\<forall>s'. render_step gpu K s s' \<longrightarrow> render_work s' < render_work s)"
proof
  have ok: "render_sys_ok cnt lim gpu cs r s" by (rule render_reach_ok [OF assms(1-4,6)])
  show "case render_result s of
      None \<Rightarrow> \<exists>s'. render_step gpu K s s'
    | Some x \<Rightarrow> x = r' \<and> queue_contents (command_queue s) = [] \<and> still_to_push s = []"
  proof (cases "render_result s")
    case None
    with render_can_step [OF assms(1) ok None] assms(5) show ?thesis by simp
  next
    case (Some x)
    with ok assms(5) show ?thesis by (simp add: render_sys_ok_def)
  qed
  show "\<forall>s'. render_step gpu K s s' \<longrightarrow> render_work s' < render_work s"
    using render_sys_step [OF assms(1) ok] by blast
qed

text \<open>Three commands fit into the queue of \<^verbatim>\<open>render_create\<close>.\<close>

theorem render_executes_pushed_witness:
  "\<exists>(q :: (nat \<times> nat, command) queue) s. queue_create counting_api True [None, None, None] (word_of_nat 3) = Some q \<and>
     render_step counting_gpu counting_api (render_begin [Model cube] q blank_render) s \<and> render_work s < 4"
proof -
  define q :: "(nat \<times> nat, command) queue" where
    "q = the (queue_create counting_api True [None, None, None] (word_of_nat 3))"
  have create: "queue_create counting_api True [None, None, None] (word_of_nat 3) = Some q"
    by (simp add: q_def queue_create_def)
  from queue_create_inv [OF counting_api_laws _ _ _ create]
  have q: "queue_inv fst snd q" "queue_contents q = []" "queue_budget q = 2 ^ 31 - 1" by auto
  then have b: "length [Model cube] < queue_budget q" by simp
  obtain r' where "render_thread_func counting_gpu [Model cube] blank_render = Some r'"
    using cube_drawn by (auto simp: render_thread_func_def simp del: render_commands.simps)
  from render_executes_pushed [OF counting_api_laws q(1,2) b this render_reach.start]
  obtain s where s: "render_step counting_gpu counting_api (render_begin [Model cube] q blank_render) s"
    and "render_work s < render_work (render_begin [Model cube] q blank_render)"
    by (auto simp: render_begin_def)
  then have "render_work s < 4" using q(2) by (simp add: render_work_def render_begin_def)
  with create s show ?thesis by blast
qed

end
