(* ===== verification/Trace_Nesting.thy ===== *)
theory Trace_Nesting
  imports Trace
begin

text \<open>
  What \<^verbatim>\<open>trace.c\<close> records: over any sequence of begins and ends that fits its two buffers the
  event buffer grows as a stack machine says, whatever threads the calls come from.  Then the
  size and the text of the JSON capture.
\<close>

section \<open>Specification\<close>

text \<open>A call with the thread that makes it: its handle for the mutex, process and thread id, time.\<close>

datatype trace_op =
    Begin tid c_int c_int u64 string
  | End tid u64

text \<open>The stack of open durations, innermost first, and the events to be recorded.\<close>

fun spec_step :: "trace_op \<Rightarrow> trace_event_t list \<Rightarrow> (trace_event_t \<times> trace_event_t list) option" where
  "spec_step (Begin me p th ticks name) open_evs =
     (let e = \<lparr>ev_name = name, ph = CHR ''B'', pid = p, tid = th, ts = ticks\<rparr> in Some (e, e # open_evs))"
| "spec_step (End me ticks) [] = None"
| "spec_step (End me ticks) (e # open_evs) = Some (e\<lparr>ph := CHR ''E'', ts := ticks\<rparr>, open_evs)"

text \<open>Runs that never nest deeper than \<open>cap\<close>.\<close>

fun spec_run :: "nat \<Rightarrow> trace_op list \<Rightarrow> trace_event_t list \<Rightarrow> (trace_event_t list \<times> trace_event_t list) option" where
  "spec_run cap [] open_evs = Some ([], open_evs)"
| "spec_run cap (c # cs) open_evs =
     (case spec_step c open_evs of
        None \<Rightarrow> None
      | Some (e, open') \<Rightarrow>
          if length open' \<le> cap
          then map_option (\<lambda>(es, rest). (e # es, rest)) (spec_run cap cs open') else None)"

fun trace_op_run ::
  "'s semaphore_api \<Rightarrow> 'm mutex_api \<Rightarrow> trace_op \<Rightarrow> ('s, 'm) trace_t \<Rightarrow> ('s, 'm) trace_t outcome" where
  "trace_op_run K M (Begin me p th ticks name) t = trace_duration_push K M me p th ticks name t"
| "trace_op_run K M (End me ticks) t = trace_duration_pop K M me ticks t"

fun trace_run ::
  "'s semaphore_api \<Rightarrow> 'm mutex_api \<Rightarrow> trace_op list \<Rightarrow> ('s, 'm) trace_t \<Rightarrow> ('s, 'm) trace_t outcome" where
  "trace_run K M [] t = Returns t"
| "trace_run K M (c # cs) t =
     (case trace_op_run K M c t of
        Returns t' \<Rightarrow> trace_run K M cs t' | Blocks \<Rightarrow> Blocks | Undefined \<Rightarrow> Undefined)"

section \<open>The representation\<close>

text \<open>The queue holds the indices of the open durations, outermost first.\<close>

definition trace_inv ::
  "('s \<Rightarrow> nat) \<Rightarrow> ('s \<Rightarrow> nat) \<Rightarrow> ('m \<Rightarrow> (tid \<times> nat) option) \<Rightarrow> trace_event_t list \<Rightarrow> ('s, 'm) trace_t \<Rightarrow> bool" where
  "trace_inv count limit holder open_evs t \<longleftrightarrow>
     capturing t \<and> holder (trace_mutex t) = None \<and> queue_inv count limit (event_queue t) \<and>
     event_buff_count t \<le> length (event_buff t) \<and>
     (\<exists>idxs. queue_contents (event_queue t) = map Some (rev idxs) \<and>
        (\<forall>i \<in> set idxs. i < event_buff_count t) \<and> map ((!) (event_buff t)) idxs = open_evs)"

definition recorded :: "('s, 'm) trace_t \<Rightarrow> trace_event_t list" where
  "recorded t = take (event_buff_count t) (event_buff t)"

text \<open>How many more pushes the queue and events the buffer can take.\<close>

definition trace_room :: "('s, 'm) trace_t \<Rightarrow> nat" where
  "trace_room t = min (queue_budget (event_queue t)) (length (event_buff t) - event_buff_count t)"

lemma map_nth_update_other:
  "\<forall>i \<in> set idxs. i < n \<Longrightarrow> map ((!) (xs[n := x])) idxs = map ((!) xs) idxs"
  by (intro map_cong) auto

lemma room_capacity:
  assumes "queue_inv count limit q"
  shows "queue_room q + length (queue_contents q) = q_cap q"
  using assms by (simp add: queue_room_def queue_inv_def)

lemma push_records:
  assumes sems: "semaphore_laws K count limit" and muts: "mutex_laws M holder"
    and inv: "trace_inv count limit holder open_evs t" and room: "0 < trace_room t"
    and cap: "length open_evs < q_cap (event_queue t)"
  shows "\<exists>t'. trace_duration_push K M me p th ticks name t = Returns t' \<and>
    trace_inv count limit holder (\<lparr>ev_name = name, ph = CHR ''B'', pid = p, tid = th, ts = ticks\<rparr> # open_evs) t' \<and>
    recorded t' = recorded t @ [\<lparr>ev_name = name, ph = CHR ''B'', pid = p, tid = th, ts = ticks\<rparr>] \<and>
    trace_room t - 1 \<le> trace_room t' \<and> q_cap (event_queue t') = q_cap (event_queue t)"
proof -
  let ?e = "\<lparr>ev_name = name, ph = CHR ''B'', pid = p, tid = th, ts = ticks\<rparr>"
  let ?n = "event_buff_count t"
  from inv obtain idxs where idxs: "queue_contents (event_queue t) = map Some (rev idxs)"
      "\<forall>i \<in> set idxs. i < ?n" "map ((!) (event_buff t)) idxs = open_evs"
    and q: "queue_inv count limit (event_queue t)" and t: "capturing t" "holder (trace_mutex t) = None"
    by (auto simp: trace_inv_def)
  have n: "?n < length (event_buff t)" "0 < queue_budget (event_queue t)"
    using room by (auto simp: trace_room_def)
  obtain m where m: "mutex_lock M me (trace_mutex t) = Some m" "holder m = Some (me, 1)"
    using mutex_lock_free [OF muts t(2)] by blast
  have "length open_evs = length (queue_contents (event_queue t))"
    unfolding idxs(1) idxs(3) [symmetric] by simp
  then have "0 < queue_room (event_queue t)"
    using room_capacity [OF q] cap by linarith
  from queue_push_room [OF sems q this n(2), of "Some ?n"] obtain q' where
    push: "queue_push K (event_queue t) (Some ?n) = Returns q'" and q': "queue_inv count limit q'"
      "queue_contents q' = queue_contents (event_queue t) @ [Some ?n]"
      "queue_room q' = queue_room (event_queue t) - 1" "queue_budget q' = queue_budget (event_queue t) - 1"
    by blast
  have caps: "q_cap q' = q_cap (event_queue t)"
    using room_capacity [OF q] room_capacity [OF q'(1)] q'(2,3) \<open>0 < queue_room (event_queue t)\<close> by simp
  let ?t' = "trace_unlock M me (t\<lparr>trace_mutex := m, event_buff := (event_buff t)[?n := ?e],
    event_buff_count := ?n + 1, event_queue := q'\<rparr>)"
  have "trace_duration_push K M me p th ticks name t = Returns ?t'"
    using m(1) t(1) n(1) push by (simp add: trace_duration_push_def Let_def)
  moreover have "trace_inv count limit holder (?e # open_evs) ?t'"
    unfolding trace_inv_def
    using t q' n idxs mutex_unlock_last [OF muts m(2)]
    by (auto simp: trace_unlock_def map_nth_update_other less_SucI intro!: exI [of _ "?n # idxs"])
  moreover have "recorded ?t' = recorded t @ [?e]"
    using n by (simp add: recorded_def trace_unlock_def take_Suc_conv_app_nth)
  moreover have "trace_room t - 1 \<le> trace_room ?t'"
    using n q' by (auto simp: trace_room_def trace_unlock_def)
  ultimately show ?thesis using caps by (auto simp: trace_unlock_def)
qed

lemma pop_records:
  assumes sems: "semaphore_laws K count limit" and muts: "mutex_laws M holder"
    and inv: "trace_inv count limit holder (e # open_evs) t" and room: "0 < trace_room t"
  shows "\<exists>t'. trace_duration_pop K M me ticks t = Returns t' \<and>
    trace_inv count limit holder open_evs t' \<and>
    recorded t' = recorded t @ [e\<lparr>ph := CHR ''E'', ts := ticks\<rparr>] \<and>
    trace_room t - 1 \<le> trace_room t' \<and> q_cap (event_queue t') = q_cap (event_queue t)"
proof -
  let ?e = "e\<lparr>ph := CHR ''E'', ts := ticks\<rparr>"
  let ?n = "event_buff_count t"
  from inv obtain i idxs where idxs: "queue_contents (event_queue t) = map Some (rev idxs) @ [Some i]"
      "\<forall>i \<in> set idxs. i < ?n" "i < ?n" "map ((!) (event_buff t)) idxs = open_evs" "event_buff t ! i = e"
    and q: "queue_inv count limit (event_queue t)" and t: "capturing t" "holder (trace_mutex t) = None"
    by (auto simp: trace_inv_def Cons_eq_map_conv)
  have n: "?n < length (event_buff t)" using room by (auto simp: trace_room_def)
  obtain m where m: "mutex_lock M me (trace_mutex t) = Some m" "holder m = Some (me, 1)"
    using mutex_lock_free [OF muts t(2)] by blast
  from dequeue_snoc [OF sems q idxs(1)] obtain q' where
    pop: "dequeue K (event_queue t) = Returns (Some i, q')" and q': "queue_inv count limit q'"
      "queue_contents q' = map Some (rev idxs)" "queue_room q' = queue_room (event_queue t) + 1"
      "queue_budget q' = queue_budget (event_queue t) + 1" by blast
  have caps: "q_cap q' = q_cap (event_queue t)"
    using room_capacity [OF q] room_capacity [OF q'(1)] q'(2,3) idxs(1)
    by (simp del: queue_contents_length)
  let ?t' = "trace_unlock M me (t\<lparr>trace_mutex := m, event_buff := (event_buff t)[?n := ?e],
    event_buff_count := ?n + 1, event_queue := q'\<rparr>)"
  have "trace_duration_pop K M me ticks t = Returns ?t'"
    using m(1) t(1) n idxs pop by (simp add: trace_duration_pop_def Let_def)
  moreover have "trace_inv count limit holder open_evs ?t'"
    unfolding trace_inv_def
    using t q' n idxs mutex_unlock_last [OF muts m(2)]
    by (auto simp: trace_unlock_def map_nth_update_other less_SucI intro!: exI [of _ idxs])
  moreover have "recorded ?t' = recorded t @ [?e]"
    using n by (simp add: recorded_def trace_unlock_def take_Suc_conv_app_nth)
  moreover have "trace_room t - 1 \<le> trace_room ?t'"
    using n q' by (auto simp: trace_room_def trace_unlock_def)
  ultimately show ?thesis using caps by (auto simp: trace_unlock_def)
qed

lemma trace_run_records:
  assumes sems: "semaphore_laws K count limit" and muts: "mutex_laws M holder"
    and "trace_inv count limit holder open_evs t" and "length cs \<le> trace_room t"
    and "spec_run (q_cap (event_queue t)) cs open_evs = Some (es, rest)"
  shows "\<exists>t'. trace_run K M cs t = Returns t' \<and> trace_inv count limit holder rest t' \<and>
    recorded t' = recorded t @ es"
  using assms(3-)
proof (induction cs arbitrary: open_evs t es)
  case Nil
  then show ?case by simp
next
  case (Cons c cs)
  then obtain e open' es' where step: "spec_step c open_evs = Some (e, open')"
    and deep: "length open' \<le> q_cap (event_queue t)"
    and rest: "spec_run (q_cap (event_queue t)) cs open' = Some (es', rest)" and es: "es = e # es'"
    by (auto split: option.splits if_splits)
  have room: "0 < trace_room t" using Cons.prems(2) by auto
  obtain t1 where t1: "trace_op_run K M c t = Returns t1" "trace_inv count limit holder open' t1"
    "recorded t1 = recorded t @ [e]" "trace_room t - 1 \<le> trace_room t1"
    "q_cap (event_queue t1) = q_cap (event_queue t)"
  proof (cases c)
    case (Begin me p th ticks name)
    with step deep push_records [OF sems muts Cons.prems(1) room, of me p th ticks name] that show ?thesis
      by (auto simp: Let_def)
  next
    case (End me ticks)
    with step obtain e0 where "open_evs = e0 # open'" "e = e0\<lparr>ph := CHR ''E'', ts := ticks\<rparr>"
      by (cases open_evs) auto
    with End pop_records [OF sems muts, of e0 open' t me ticks] Cons.prems(1) room that show ?thesis by auto
  qed
  have "length cs \<le> trace_room t1" using Cons.prems(2) t1(4) by simp
  with Cons.IH [OF t1(2) this] rest t1 es show ?case by auto
qed

section \<open>Where it stops\<close>

lemma push_blocks:
  assumes sems: "semaphore_laws K count limit" and muts: "mutex_laws M holder"
    and inv: "trace_inv count limit holder open_evs t" and "event_buff_count t < length (event_buff t)"
    and "length open_evs = q_cap (event_queue t)"
  shows "trace_duration_push K M me p th ticks name t = Blocks"
proof -
  from inv have q: "queue_inv count limit (event_queue t)" and t: "capturing t" "holder (trace_mutex t) = None"
    and len: "length (queue_contents (event_queue t)) = length open_evs"
    by (auto simp: trace_inv_def simp del: queue_contents_length)
  obtain m where "mutex_lock M me (trace_mutex t) = Some m"
    using mutex_lock_free [OF muts t(2)] by blast
  moreover have "queue_room (event_queue t) = 0"
    using room_capacity [OF q] assms(5) len by simp
  ultimately show ?thesis
    using queue_push_full [OF sems q] t(1) assms(4) by (simp add: trace_duration_push_def Let_def)
qed

lemma pop_blocks:
  assumes sems: "semaphore_laws K count limit" and muts: "mutex_laws M holder"
    and inv: "trace_inv count limit holder [] t"
  shows "trace_duration_pop K M me ticks t = Blocks"
proof -
  from inv have q: "queue_inv count limit (event_queue t)" "queue_contents (event_queue t) = []"
    and t: "capturing t" "holder (trace_mutex t) = None" by (auto simp: trace_inv_def)
  obtain m where "mutex_lock M me (trace_mutex t) = Some m"
    using mutex_lock_free [OF muts t(2)] by blast
  with queue_pop_empty(2) [OF sems q] t(1) show ?thesis
    by (simp add: trace_duration_pop_def Let_def)
qed

text \<open>A call that waits in the queue has the mutex, so every other thread waits for it.\<close>

lemma others_block:
  assumes muts: "mutex_laws M holder" and "holder (trace_mutex t) = Some (me, 1)" and "other \<noteq> me"
  shows "trace_duration_push K M other p th ticks name t = Blocks"
    and "trace_duration_pop K M other ticks t = Blocks"
  using mutex_lock_held [OF muts assms(2), of other] assms(3)
  by (auto simp: trace_duration_push_def trace_duration_pop_def)

section \<open>The JSON text\<close>

definition json_lines :: "trace_event_t list \<Rightarrow> nat list \<Rightarrow> string" where
  "json_lines es is = concat (map (\<lambda>i. json_line (length es) i (es ! i)) is)"

definition json_text :: "trace_event_t list \<Rightarrow> string" where
  "json_text es = json_head @ json_lines es [0..<length es] @ json_tail"

lemma json_size_eq: "json_size es = length (json_text es)"
proof -
  have "fold (\<lambda>i sz. sz + length (json_line (length es) i (es ! i))) is n =
      n + length (json_lines es is)" for "is" n
    by (induction "is" arbitrary: n) (auto simp: json_lines_def)
  then show ?thesis by (simp add: json_size_def json_text_def)
qed

text \<open>A write that fits appends its text to what is already there.\<close>

lemma snprintf_at_fits:
  "snprintf_at buf pos (length text + 1) text =
     (if pos + length text < length buf
      then Some (take pos buf @ text @ [CHR 0x00] @ drop (pos + length text + 1) buf) else None)"
  by (auto simp: snprintf_at_def Let_def)

lemma write_lines_eq:
  assumes "pos + length (json_lines es js) < length buf"
  shows "\<exists>buf'. write_lines es js buf pos = Some (buf', pos + length (json_lines es js)) \<and>
    length buf' = length buf \<and> take (pos + length (json_lines es js)) buf' = take pos buf @ json_lines es js"
  using assms
proof (induction js arbitrary: buf pos)
  case Nil
  then show ?case by (simp add: json_lines_def)
next
  case (Cons j js)
  let ?l = "json_line (length es) j (es ! j)"
  let ?buf = "take pos buf @ ?l @ [CHR 0x00] @ drop (pos + length ?l + 1) buf"
  have lines: "json_lines es (j # js) = ?l @ json_lines es js" by (simp add: json_lines_def)
  have fits: "pos + length ?l + length (json_lines es js) < length buf"
    using Cons.prems by (simp add: lines)
  then have buf: "length ?buf = length buf" "take (pos + length ?l) ?buf = take pos buf @ ?l"
    by auto
  from Cons.IH [of "pos + length ?l" ?buf] fits buf obtain buf' where
    "write_lines es js ?buf (pos + length ?l) = Some (buf', pos + length ?l + length (json_lines es js))"
    "length buf' = length buf"
    "take (pos + length ?l + length (json_lines es js)) buf' = take pos buf @ ?l @ json_lines es js"
    by auto
  then show ?case
    using fits snprintf_at_fits [of buf pos ?l] by (auto simp: lines Let_def add.assoc)
qed

lemma render_json_eq:
  assumes "json_size es \<le> length buf"
  shows "if json_size es < length buf
    then \<exists>buf'. render_json es buf = Some buf' \<and> length buf' = length buf \<and>
      take (json_size es) buf' = json_text es \<and> buf' ! json_size es = CHR 0x00
    else render_json es buf = None"
proof -
  let ?h = "length json_head" and ?n = "length (json_lines es [0..<length es])"
  have sz: "json_size es = ?h + ?n + length json_tail" by (simp add: json_size_eq json_text_def)
  have tail: "length json_tail = 4" by (simp add: json_tail_def)
  let ?b1 = "take 0 buf @ json_head @ [CHR 0x00] @ drop (?h + 1) buf"
  have b1: "snprintf_at buf 0 (?h + 1) json_head = Some ?b1"
    using snprintf_at_fits [of buf 0 json_head] assms sz tail by simp
  have len1: "length ?b1 = length buf" using assms sz tail by auto
  obtain b2 where b2: "write_lines es [0..<length es] ?b1 ?h = Some (b2, ?h + ?n)" "length b2 = length buf"
    "take (?h + ?n) b2 = json_head @ json_lines es [0..<length es]"
    using write_lines_eq [of ?h es "[0..<length es]" ?b1] len1 assms sz tail by auto
  have "render_json es buf = snprintf_at b2 (?h + ?n) (length json_tail + 1) json_tail"
    using b1 b2(1) by (simp add: render_json_def Let_def)
  then have r: "render_json es buf = (if json_size es < length buf
      then Some (take (?h + ?n) b2 @ json_tail @ [CHR 0x00] @ drop (json_size es + 1) b2) else None)"
    using snprintf_at_fits [of b2 "?h + ?n" json_tail] b2(2) sz by simp
  show ?thesis
  proof (cases "json_size es < length buf")
    case True
    let ?t = "json_text es"
    have whole: "take (?h + ?n) b2 @ json_tail @ [CHR 0x00] @ drop (json_size es + 1) b2 =
        ?t @ [CHR 0x00] @ drop (json_size es + 1) b2"
      by (simp add: b2(3) json_text_def)
    show ?thesis
      using True b2(2) unfolding r whole by (simp add: json_size_eq nth_append)
  next
    case False
    then show ?thesis by (simp add: r)
  qed
qed

section \<open>Properties\<close>

definition sample_events :: "trace_event_t list" where
  "sample_events = replicate 6 \<lparr>ev_name = [], ph = CHR 0x00, pid = 0, tid = 0, ts = 0\<rparr>"

definition sample_trace :: "(nat \<times> nat, (tid \<times> nat) option) trace_t" where
  "sample_trace = trace_capture_start ''t.json''
     (the (trace_create counting_api owner_api sample_events [None, None, None] 3 None))"

lemma sample_trace_inv:
  "trace_inv fst snd id [] sample_trace" "trace_room sample_trace = 6" "recorded sample_trace = []"
  "q_cap (event_queue sample_trace) = 3"
  by (simp_all add: sample_trace_def trace_capture_start_def trace_create_def queue_create_def trace_inv_def
      queue_inv_def queue_contents_def q_cap_def q_head_def q_tail_def semaphore_create_def counting_api_def
      mutex_create_def owner_api_def sample_events_def trace_room_def queue_budget_def recorded_def)


definition two_threads :: "trace_op list" where
  "two_threads = [Begin 1 7 11 100 ''update'', Begin 2 7 22 101 ''render'', End 1 102]"


text \<open>An end closes the duration that was begun last by any thread: when two threads have begun
  one each, the end of the first is recorded as the end of the second, under its thread id.\<close>

theorem trace_end_closes_other_thread:
  assumes "semaphore_laws K count limit" and "mutex_laws M holder"
    and "trace_inv count limit holder [] t" and "3 \<le> trace_room t" and "2 \<le> q_cap (event_queue t)"
  shows "\<exists>t'. trace_run K M [Begin me p th1 t1 n1, Begin other p th2 t2 n2, End me t3] t = Returns t' \<and>
    last (recorded t') = \<lparr>ev_name = n2, ph = CHR ''E'', pid = p, tid = th2, ts = t3\<rparr>"
  using trace_run_records [OF assms(1-3), of "[Begin me p th1 t1 n1, Begin other p th2 t2 n2, End me t3]"] assms(4,5)
  by (auto simp: Let_def)

theorem trace_end_closes_other_thread_witness:
  "\<exists>t'. trace_run counting_api owner_api two_threads sample_trace = Returns t' \<and>
     tid (last (recorded t')) = 22"
  using trace_end_closes_other_thread [OF counting_api_laws owner_api_laws sample_trace_inv(1)] sample_trace_inv(2-)
  by (force simp: two_threads_def)

text \<open>A begin deeper than the capacity, and an end without a begin, wait in the queue for ever:
  they hold the mutex meanwhile, and every begin or end of another thread waits for it.\<close>

theorem trace_deadlocks:
  assumes "semaphore_laws K count limit" and "mutex_laws M holder"
    and "trace_inv count limit holder open_evs t"
  shows "(event_buff_count t < length (event_buff t) \<longrightarrow> length open_evs = q_cap (event_queue t) \<longrightarrow>
      trace_duration_push K M me p th ticks name t = Blocks) \<and>
    (open_evs = [] \<longrightarrow> trace_duration_pop K M me ticks t = Blocks) \<and>
    (\<forall>m other. mutex_lock M me (trace_mutex t) = Some m \<longrightarrow> other \<noteq> me \<longrightarrow>
      trace_duration_push K M other p th ticks name (t\<lparr>trace_mutex := m\<rparr>) = Blocks \<and>
      trace_duration_pop K M other ticks (t\<lparr>trace_mutex := m\<rparr>) = Blocks)"
proof -
  from assms(3) have "holder (trace_mutex t) = None" by (simp add: trace_inv_def)
  from mutex_lock_free [OF assms(2) this] obtain m where
    "mutex_lock M me (trace_mutex t) = Some m" "holder m = Some (me, 1)" by blast
  with others_block [OF assms(2), of "t\<lparr>trace_mutex := m\<rparr>" me] push_blocks [OF assms] pop_blocks [OF assms(1,2)] assms(3)
  show ?thesis by auto
qed

theorem trace_deadlocks_witness:
  "trace_duration_pop counting_api owner_api 1 5 sample_trace = Blocks \<and>
   trace_duration_push counting_api owner_api 2 7 22 5 ''x'' (sample_trace\<lparr>trace_mutex := Some (1, 1)\<rparr>) = Blocks"
proof -
  have "mutex_lock owner_api 1 (trace_mutex sample_trace) = Some (Some (1, 1))"
    using sample_trace_inv(1) by (simp add: trace_inv_def mutex_lock_def owner_api_def)
  with trace_deadlocks [OF counting_api_laws owner_api_laws sample_trace_inv(1), of 1] show ?thesis by auto
qed

text \<open>The capture: the size computed first is the length of the JSON text, and with one more
  byte the text is what is handed to the file system.  The buffer is allocated with exactly the
  computed size, so the NUL of the last line is written one byte behind it.\<close>

theorem trace_capture_text:
  assumes "capturing t" and "event_buff_count t \<le> length (event_buff t)"
    and size: "\<And>n. length (alloc n) = n + slack"
  shows "if slack = 0 then trace_capture_stop alloc t = None
    else trace_capture_stop alloc t =
      Some (Some (file_path t, json_text (recorded t)), t\<lparr>capturing := False\<rparr>)"
proof -
  let ?es = "recorded t"
  have "json_size ?es \<le> length (alloc (json_size ?es))" by (simp add: size)
  from render_json_eq [OF this] show ?thesis
    using assms(1,2) by (auto simp: trace_capture_stop_def recorded_def size Let_def)
qed

theorem trace_capture_text_witness:
  "trace_capture_stop (\<lambda>n. replicate n CHR ''x'') sample_trace = None \<and>
   trace_capture_stop (\<lambda>n. replicate (n + 1) CHR ''x'') sample_trace =
     Some (Some (Some ''t.json'', json_head @ json_tail), sample_trace\<lparr>capturing := False\<rparr>)"
proof -
  have t: "capturing sample_trace" "event_buff_count sample_trace \<le> length (event_buff sample_trace)"
    "file_path sample_trace = Some ''t.json''"
    by (simp_all add: sample_trace_def trace_capture_start_def trace_create_def queue_create_def)
  from trace_capture_text [OF t(1,2), of "\<lambda>n. replicate n CHR ''x''" 0]
    trace_capture_text [OF t(1,2), of "\<lambda>n. replicate (n + 1) CHR ''x''" 1] t(3)
  show ?thesis by (simp add: sample_trace_inv(3) json_text_def json_lines_def)
qed

end
