(* ===== verification/Fs.thy ===== *)
theory Fs
  imports Queue
begin

text \<open>
  The asynchronous file system of \<^verbatim>\<open>fs.c\<close>.  A client queues work items; a file thread reads
  and writes files, a compression thread compresses before writes and decompresses after reads,
  and the two hand work to each other through their queues.

  Addresses are natural numbers.  The memory is split into the work items (\<open>works\<close>) and raw
  blocks (\<open>blocks\<close>, each with the heap it came from): an access outside a block, or
  freeing a block to a heap it does not come from, is \<open>None\<close>.  The functions of Windows and
  LZ4 are parameters (\<open>fs_env\<close>).  A thread runs to the next queue operation in one step
  (\<open>file_thread_step\<close>, \<open>comp_thread_step\<close>), so the interleavings of client and threads are the
  sequences of these steps; the queue operations themselves are taken as atomic here, and
  \<^verbatim>\<open>Queue_Conc\<close> says when they are.
\<close>

section \<open>State\<close>

type_synonym addr = nat
type_synonym heap_id = nat
type_synonym blocks = "addr \<Rightarrow> (heap_id \<times> u8 list) option"

datatype fs_work_op_t = k_fs_work_op_read | k_fs_work_op_write

record 'e fs_work_t =
  w_heap :: heap_id
  w_op :: fs_work_op_t
  w_path :: string
  w_null_terminate :: bool
  w_use_compression :: bool
  w_buffer :: "addr ptr"
  w_size :: u64
  w_done :: 'e
  w_result :: c_int

text \<open>Where a worker thread stands: before its \<^verbatim>\<open>queue_pop\<close>, at a \<^verbatim>\<open>queue_push\<close>, or at its end.\<close>

datatype worker = Popping | Handing addr | Exited

record ('s, 'e, 'd) fs_t =
  fs_heap :: heap_id
  file_queue :: "('s, addr) queue"
  file_thread :: worker
  comp_queue :: "('s, addr) queue"
  comp_thread :: worker
  works :: "addr \<Rightarrow> 'e fs_work_t option"
  blocks :: blocks
  disk :: 'd

text \<open>
  The code outside the repository (and the vendored LZ4).  \<open>Allocate\<close> is the address and the
  uninitialised contents of a new block, \<open>New_work\<close> the address of a new work item.  A failed call
  returns the error code that \<^verbatim>\<open>GetLastError\<close> reports.  \<^verbatim>\<open>LZ4_compress_default\<close> yields the
  compressed bytes (none when it fails), \<^verbatim>\<open>LZ4_decompress_safe\<close> its result and the bytes it wrote.
\<close>

record ('s, 'e, 'h, 'w, 'd) fs_env =
  Sem :: "'s semaphore_api"
  Ev :: "'e event_api"
  Allocate :: "blocks \<Rightarrow> heap_id \<Rightarrow> u64 \<Rightarrow> (addr \<times> u8 list) option"
  New_work :: "(addr \<Rightarrow> 'e fs_work_t option) \<Rightarrow> addr"
  MultiByteToWideChar :: "string \<Rightarrow> 'w option"
  CreateFile_open :: "'w \<Rightarrow> 'd \<Rightarrow> (c_int + 'h) \<times> 'd"
  CreateFile_create :: "'w \<Rightarrow> 'd \<Rightarrow> (c_int + 'h) \<times> 'd"
  GetFileSizeEx :: "'h \<Rightarrow> 'd \<Rightarrow> c_int + u64"
  ReadFile :: "'h \<Rightarrow> u32 \<Rightarrow> 'd \<Rightarrow> (c_int + u8 list) \<times> 'd"
  WriteFile :: "'h \<Rightarrow> u8 list \<Rightarrow> 'd \<Rightarrow> (c_int + u32) \<times> 'd"
  CloseHandle :: "'h \<Rightarrow> 'd \<Rightarrow> 'd"
  LZ4_compressBound :: "c_int \<Rightarrow> c_int"
  LZ4_compress_default :: "u8 list \<Rightarrow> c_int \<Rightarrow> c_int \<Rightarrow> u8 list"
  LZ4_decompress_safe :: "u8 list \<Rightarrow> c_int \<Rightarrow> c_int \<Rightarrow> c_int \<times> u8 list"

section \<open>Memory\<close>

definition fs_alloc ::
  "('s, 'e, 'h, 'w, 'd) fs_env \<Rightarrow> heap_id \<Rightarrow> u64 \<Rightarrow> ('s, 'e, 'd) fs_t \<Rightarrow> addr ptr \<times> ('s, 'e, 'd) fs_t" where
  "fs_alloc E h n fs =
     (case Allocate E (blocks fs) h n of
        None \<Rightarrow> (None, fs)
      | Some (p, bytes) \<Rightarrow> (Some p, fs\<lparr>blocks := (blocks fs)(p \<mapsto> (h, bytes))\<rparr>))"

definition fs_free :: "heap_id \<Rightarrow> addr ptr \<Rightarrow> ('s, 'e, 'd) fs_t \<Rightarrow> ('s, 'e, 'd) fs_t option" where
  "fs_free h p fs =
     (case p of
        None \<Rightarrow> Some fs
      | Some a \<Rightarrow>
          (case blocks fs a of
             Some (h', _) \<Rightarrow> if h' = h then Some (fs\<lparr>blocks := (blocks fs)(a := None)\<rparr>) else None
           | None \<Rightarrow> None))"

definition load :: "addr ptr \<Rightarrow> nat \<Rightarrow> nat \<Rightarrow> ('s, 'e, 'd) fs_t \<Rightarrow> u8 list option" where
  "load p off n fs =
     (if n = 0 then Some []
      else do { a \<leftarrow> p; (h, bytes) \<leftarrow> blocks fs a; rd_bytes bytes off n })"

definition store :: "addr ptr \<Rightarrow> nat \<Rightarrow> u8 list \<Rightarrow> ('s, 'e, 'd) fs_t \<Rightarrow> ('s, 'e, 'd) fs_t option" where
  "store p off bs fs =
     (if bs = [] then Some fs
      else do {
        a \<leftarrow> p;
        (h, bytes) \<leftarrow> blocks fs a;
        bytes \<leftarrow> wr_bytes bytes off bs;
        Some (fs\<lparr>blocks := (blocks fs)(a \<mapsto> (h, bytes))\<rparr>)
      })"

definition put_work :: "addr \<Rightarrow> 'e fs_work_t \<Rightarrow> ('s, 'e, 'd) fs_t \<Rightarrow> ('s, 'e, 'd) fs_t" where
  "put_work p work fs = fs\<lparr>works := (works fs)(p \<mapsto> work)\<rparr>"

text \<open>\<^verbatim>\<open>work->result = r; event_signal(work->done)\<close>.\<close>

definition finish ::
  "('s, 'e, 'h, 'w, 'd) fs_env \<Rightarrow> addr \<Rightarrow> 'e fs_work_t \<Rightarrow> c_int \<Rightarrow> ('s, 'e, 'd) fs_t \<Rightarrow> ('s, 'e, 'd) fs_t" where
  "finish E p work r fs =
     put_work p (work\<lparr>w_result := r, w_done := event_signal (Ev E) (w_done work)\<rparr>) fs"

section \<open>The client\<close>

definition fs_create ::
  "('s, 'e, 'h, 'w, 'd) fs_env \<Rightarrow> heap_id \<Rightarrow> addr ptr list \<Rightarrow> addr ptr list \<Rightarrow> c_int \<Rightarrow> blocks \<Rightarrow> 'd \<Rightarrow>
   ('s, 'e, 'd) fs_t option" where
  "fs_create E heap mem1 mem2 queue_capacity bl d =
     do {
       fq \<leftarrow> queue_create (Sem E) True mem1 queue_capacity;
       cq \<leftarrow> queue_create (Sem E) True mem2 queue_capacity;
       Some \<lparr>fs_heap = heap, file_queue = fq, file_thread = Popping, comp_queue = cq,
             comp_thread = Popping, works = Map.empty, blocks = bl, disk = d\<rparr>
     }"

definition push_file ::
  "('s, 'e, 'h, 'w, 'd) fs_env \<Rightarrow> addr ptr \<Rightarrow> ('s, 'e, 'd) fs_t \<Rightarrow> ('s, 'e, 'd) fs_t outcome" where
  "push_file E p fs =
     (case queue_push (Sem E) (file_queue fs) p of
        Returns q \<Rightarrow> Returns (fs\<lparr>file_queue := q\<rparr>) | Blocks \<Rightarrow> Blocks | Undefined \<Rightarrow> Undefined)"

definition push_comp ::
  "('s, 'e, 'h, 'w, 'd) fs_env \<Rightarrow> addr ptr \<Rightarrow> ('s, 'e, 'd) fs_t \<Rightarrow> ('s, 'e, 'd) fs_t outcome" where
  "push_comp E p fs =
     (case queue_push (Sem E) (comp_queue fs) p of
        Returns q \<Rightarrow> Returns (fs\<lparr>comp_queue := q\<rparr>) | Blocks \<Rightarrow> Blocks | Undefined \<Rightarrow> Undefined)"

text \<open>\<^verbatim>\<open>strcpy_s\<close> into \<^verbatim>\<open>char path[1024]\<close> aborts the program when the path does not fit.\<close>

definition fs_read ::
  "('s, 'e, 'h, 'w, 'd) fs_env \<Rightarrow> string \<Rightarrow> heap_id \<Rightarrow> bool \<Rightarrow> bool \<Rightarrow> ('s, 'e, 'd) fs_t \<Rightarrow>
   (addr \<times> ('s, 'e, 'd) fs_t) outcome" where
  "fs_read E path heap null_terminate use_compression fs =
     (if 1024 \<le> length path then Undefined else
      let p = New_work E (works fs);
          work = \<lparr>w_heap = heap, w_op = k_fs_work_op_read, w_path = path,
                  w_null_terminate = null_terminate, w_use_compression = use_compression,
                  w_buffer = None, w_size = 0, w_done = event_create (Ev E), w_result = 0\<rparr> in
      (case push_file E (Some p) (put_work p work fs) of
         Returns fs \<Rightarrow> Returns (p, fs) | Blocks \<Rightarrow> Blocks | Undefined \<Rightarrow> Undefined))"

definition fs_write ::
  "('s, 'e, 'h, 'w, 'd) fs_env \<Rightarrow> string \<Rightarrow> addr ptr \<Rightarrow> u64 \<Rightarrow> bool \<Rightarrow> ('s, 'e, 'd) fs_t \<Rightarrow>
   (addr \<times> ('s, 'e, 'd) fs_t) outcome" where
  "fs_write E path buffer sz use_compression fs =
     (if 1024 \<le> length path then Undefined else
      let p = New_work E (works fs);
          work = \<lparr>w_heap = fs_heap fs, w_op = k_fs_work_op_write, w_path = path,
                  w_null_terminate = False, w_use_compression = use_compression,
                  w_buffer = buffer, w_size = sz, w_done = event_create (Ev E), w_result = 0\<rparr>;
          fs = put_work p work fs in
      (case (if use_compression then push_comp E (Some p) fs else push_file E (Some p) fs) of
         Returns fs \<Rightarrow> Returns (p, fs) | Blocks \<Rightarrow> Blocks | Undefined \<Rightarrow> Undefined))"

definition fs_work_is_done ::
  "('s, 'e, 'h, 'w, 'd) fs_env \<Rightarrow> addr ptr \<Rightarrow> ('s, 'e, 'd) fs_t \<Rightarrow> bool option" where
  "fs_work_is_done E p fs =
     (case p of None \<Rightarrow> Some True
      | Some a \<Rightarrow> map_option (\<lambda>work. fst (event_is_raised (Ev E) (w_done work))) (works fs a))"

text \<open>Waiting: \<open>f\<close> is applied to the finished work; for \<open>NULL\<close> the result is \<open>dflt\<close> at once.\<close>

definition fs_work_wait ::
  "('s, 'e, 'h, 'w, 'd) fs_env \<Rightarrow> addr ptr \<Rightarrow> 'b \<Rightarrow> ('e fs_work_t \<Rightarrow> 'b) \<Rightarrow> ('s, 'e, 'd) fs_t \<Rightarrow> 'b outcome" where
  "fs_work_wait E p dflt f fs =
     (case p of
        None \<Rightarrow> Returns dflt
      | Some a \<Rightarrow>
          (case works fs a of
             None \<Rightarrow> Undefined
           | Some work \<Rightarrow>
               (case event_wait (Ev E) (w_done work) of
                  None \<Rightarrow> Blocks | Some _ \<Rightarrow> Returns (f work))))"

definition fs_work_get_result ::
  "('s, 'e, 'h, 'w, 'd) fs_env \<Rightarrow> addr ptr \<Rightarrow> ('s, 'e, 'd) fs_t \<Rightarrow> c_int outcome" where
  "fs_work_get_result E p fs = fs_work_wait E p (-1) w_result fs"

definition fs_work_get_buffer ::
  "('s, 'e, 'h, 'w, 'd) fs_env \<Rightarrow> addr ptr \<Rightarrow> ('s, 'e, 'd) fs_t \<Rightarrow> addr ptr outcome" where
  "fs_work_get_buffer E p fs = fs_work_wait E p None w_buffer fs"

definition fs_work_get_size ::
  "('s, 'e, 'h, 'w, 'd) fs_env \<Rightarrow> addr ptr \<Rightarrow> ('s, 'e, 'd) fs_t \<Rightarrow> u64 outcome" where
  "fs_work_get_size E p fs = fs_work_wait E p 0 w_size fs"

definition fs_work_destroy ::
  "('s, 'e, 'h, 'w, 'd) fs_env \<Rightarrow> addr ptr \<Rightarrow> ('s, 'e, 'd) fs_t \<Rightarrow> ('s, 'e, 'd) fs_t outcome" where
  "fs_work_destroy E p fs =
     (case p of
        None \<Rightarrow> Returns fs
      | Some a \<Rightarrow>
          (case fs_work_wait E p None Some fs of
             Returns (Some work) \<Rightarrow>
               (case (if w_use_compression work \<and> w_op work = k_fs_work_op_write
                      then fs_free (w_heap work) (w_buffer work) fs else Some fs) of
                  None \<Rightarrow> Undefined
                | Some fs \<Rightarrow> Returns (fs\<lparr>works := (works fs)(a := None)\<rparr>))
           | Returns None \<Rightarrow> Undefined
           | Blocks \<Rightarrow> Blocks
           | Undefined \<Rightarrow> Undefined))"

text \<open>The two pushes with which \<^verbatim>\<open>fs_destroy\<close> asks the threads to end.\<close>

definition fs_destroy ::
  "('s, 'e, 'h, 'w, 'd) fs_env \<Rightarrow> ('s, 'e, 'd) fs_t \<Rightarrow> ('s, 'e, 'd) fs_t outcome" where
  "fs_destroy E fs =
     (case push_file E None fs of
        Returns fs \<Rightarrow> push_comp E None fs | Blocks \<Rightarrow> Blocks | Undefined \<Rightarrow> Undefined)"

section \<open>The file thread\<close>

text \<open>
  \<open>file_read\<close> returns whether the work still has to be pushed to the compression queue.  The
  size passed to \<^verbatim>\<open>ReadFile\<close> and \<^verbatim>\<open>WriteFile\<close> is cut to 32 bits.
\<close>

definition file_read ::
  "('s, 'e, 'h, 'w, 'd) fs_env \<Rightarrow> addr \<Rightarrow> ('s, 'e, 'd) fs_t \<Rightarrow> (bool \<times> ('s, 'e, 'd) fs_t) option" where
  "file_read E p fs =
     do {
       work \<leftarrow> works fs p;
       (case MultiByteToWideChar E (w_path work) of
          None \<Rightarrow> Some (False, finish E p work (-1) fs)
        | Some wide_path \<Rightarrow>
            (case CreateFile_open E wide_path (disk fs) of
               (Inl err, d) \<Rightarrow> Some (False, finish E p work err (fs\<lparr>disk := d\<rparr>))
             | (Inr handle, d) \<Rightarrow>
                 (case GetFileSizeEx E handle d of
                    Inl err \<Rightarrow>
                      Some (False, finish E p work err (fs\<lparr>disk := CloseHandle E handle d\<rparr>))
                  | Inr sz \<Rightarrow>
                      let (buffer, fs) = fs_alloc E (w_heap work)
                            (if w_null_terminate work then sz + 1 else sz) (fs\<lparr>disk := d\<rparr>);
                          work = work\<lparr>w_size := sz, w_buffer := buffer\<rparr> in
                      (case ReadFile E handle (ucast sz) (disk fs) of
                         (Inl err, d) \<Rightarrow>
                           Some (False, finish E p work err (fs\<lparr>disk := CloseHandle E handle d\<rparr>))
                       | (Inr bytes, d) \<Rightarrow>
                           do {
                             fs \<leftarrow> store buffer 0 bytes fs;
                             let work = work\<lparr>w_size := word_of_nat (length bytes)\<rparr>;
                             fs \<leftarrow> (if w_null_terminate work then store buffer (length bytes) [0] fs
                                   else Some fs);
                             let fs = fs\<lparr>disk := CloseHandle E handle d\<rparr>;
                             (if w_use_compression work then Some (True, put_work p work fs)
                              else Some (False, finish E p work (w_result work) fs))
                           }))))
     }"

definition file_write ::
  "('s, 'e, 'h, 'w, 'd) fs_env \<Rightarrow> addr \<Rightarrow> ('s, 'e, 'd) fs_t \<Rightarrow> ('s, 'e, 'd) fs_t option" where
  "file_write E p fs =
     do {
       work \<leftarrow> works fs p;
       (case MultiByteToWideChar E (w_path work) of
          None \<Rightarrow> Some (finish E p work (-1) fs)
        | Some wide_path \<Rightarrow>
            (case CreateFile_create E wide_path (disk fs) of
               (Inl err, d) \<Rightarrow> Some (finish E p work err (fs\<lparr>disk := d\<rparr>))
             | (Inr handle, d) \<Rightarrow>
                 do {
                   bytes \<leftarrow> load (w_buffer work) 0 (unat (ucast (w_size work) :: u32)) fs;
                   (case WriteFile E handle bytes d of
                      (Inl err, d) \<Rightarrow>
                        Some (finish E p work err (fs\<lparr>disk := CloseHandle E handle d\<rparr>))
                    | (Inr bytes_written, d) \<Rightarrow>
                        Some (finish E p (work\<lparr>w_size := ucast bytes_written\<rparr>) (w_result work)
                                (fs\<lparr>disk := CloseHandle E handle d\<rparr>)))
                 }))
     }"

text \<open>One iteration of \<^verbatim>\<open>file_thread_func\<close>, up to or from its push on the other queue.\<close>

definition file_thread_step ::
  "('s, 'e, 'h, 'w, 'd) fs_env \<Rightarrow> ('s, 'e, 'd) fs_t \<Rightarrow> ('s, 'e, 'd) fs_t outcome" where
  "file_thread_step E fs =
     (case file_thread fs of
        Exited \<Rightarrow> Blocks
      | Handing p \<Rightarrow>
          (case push_comp E (Some p) fs of
             Returns fs \<Rightarrow> Returns (fs\<lparr>file_thread := Popping\<rparr>)
           | Blocks \<Rightarrow> Blocks | Undefined \<Rightarrow> Undefined)
      | Popping \<Rightarrow>
          (case queue_pop (Sem E) (file_queue fs) of
             Blocks \<Rightarrow> Blocks
           | Undefined \<Rightarrow> Undefined
           | Returns (None, q) \<Rightarrow> Returns (fs\<lparr>file_queue := q, file_thread := Exited\<rparr>)
           | Returns (Some p, q) \<Rightarrow>
               let fs = fs\<lparr>file_queue := q\<rparr> in
               (case works fs p of
                  None \<Rightarrow> Undefined
                | Some work \<Rightarrow>
                    (case w_op work of
                       k_fs_work_op_read \<Rightarrow>
                         (case file_read E p fs of
                            None \<Rightarrow> Undefined
                          | Some (hand, fs) \<Rightarrow>
                              Returns (if hand then fs\<lparr>file_thread := Handing p\<rparr> else fs))
                     | k_fs_work_op_write \<Rightarrow>
                         (case file_write E p fs of
                            None \<Rightarrow> Undefined
                          | Some fs \<Rightarrow> Returns fs)))))"

section \<open>The compression thread\<close>

text \<open>
  \<^verbatim>\<open>dst_buff_size\<close> is not initialised and only its lowest byte is copied from the buffer:
  the other three are \<open>junk\<close>, whatever the stack held.
\<close>

definition comp_read ::
  "('s, 'e, 'h, 'w, 'd) fs_env \<Rightarrow> c_int \<Rightarrow> addr \<Rightarrow> ('s, 'e, 'd) fs_t \<Rightarrow> ('s, 'e, 'd) fs_t option" where
  "comp_read E junk p fs =
     do {
       work \<leftarrow> works fs p;
       front \<leftarrow> load (w_buffer work) 0 1 fs;
       let dst_buff_size = (junk AND NOT 0xFF) OR ucast (front ! 0);
       let (dst_buff, fs) = fs_alloc E (fs_heap fs) (scast dst_buff_size) fs;
       let src_size = (ucast (w_size work) - 4 :: c_int);
       src \<leftarrow> (if sint src_size < 0 then Some [] else load (w_buffer work) 4 (nat (sint src_size)) fs);
       let (decomp_size, out) = LZ4_decompress_safe E src src_size dst_buff_size;
       fs \<leftarrow> store dst_buff 0 out fs;
       let sz = (scast decomp_size :: u64);
       fs \<leftarrow> fs_free (fs_heap fs) (w_buffer work) fs;
       fs \<leftarrow> (if w_null_terminate work then store dst_buff (unat sz) [0] fs else Some fs);
       Some (finish E p (work\<lparr>w_size := sz, w_buffer := dst_buff\<rparr>) (w_result work) fs)
     }"

definition le64_bytes :: "u64 \<Rightarrow> u8 list" where
  "le64_bytes w = le32_bytes (ucast w) @ le32_bytes (ucast (drop_bit 32 w))"

text \<open>
  \<^verbatim>\<open>((size_t*)dst_buff)[0] = (char)work->size\<close> stores eight bytes, of which the compressed data
  overwrites the last four.
\<close>

definition comp_write ::
  "('s, 'e, 'h, 'w, 'd) fs_env \<Rightarrow> addr \<Rightarrow> ('s, 'e, 'd) fs_t \<Rightarrow> ('s, 'e, 'd) fs_t option" where
  "comp_write E p fs =
     do {
       work \<leftarrow> works fs p;
       let src_size = (ucast (w_size work) :: c_int);
       let dst_buff_size = LZ4_compressBound E src_size;
       let (dst_buff, fs) = fs_alloc E (fs_heap fs) (scast dst_buff_size + 4) fs;
       fs \<leftarrow> store dst_buff 0 (le64_bytes (scast (ucast (w_size work) :: u8))) fs;
       src \<leftarrow> (if sint src_size < 0 then Some [] else load (w_buffer work) 0 (nat (sint src_size)) fs);
       let out = LZ4_compress_default E src src_size dst_buff_size;
       fs \<leftarrow> store dst_buff 4 out fs;
       let comp_size = (word_of_nat (length out) + 4 :: c_int);
       Some (put_work p (work\<lparr>w_size := scast comp_size, w_buffer := dst_buff\<rparr>) fs)
     }"

definition comp_thread_step ::
  "('s, 'e, 'h, 'w, 'd) fs_env \<Rightarrow> c_int \<Rightarrow> ('s, 'e, 'd) fs_t \<Rightarrow> ('s, 'e, 'd) fs_t outcome" where
  "comp_thread_step E junk fs =
     (case comp_thread fs of
        Exited \<Rightarrow> Blocks
      | Handing p \<Rightarrow>
          (case push_file E (Some p) fs of
             Returns fs \<Rightarrow> Returns (fs\<lparr>comp_thread := Popping\<rparr>)
           | Blocks \<Rightarrow> Blocks | Undefined \<Rightarrow> Undefined)
      | Popping \<Rightarrow>
          (case queue_pop (Sem E) (comp_queue fs) of
             Blocks \<Rightarrow> Blocks
           | Undefined \<Rightarrow> Undefined
           | Returns (None, q) \<Rightarrow> Returns (fs\<lparr>comp_queue := q, comp_thread := Exited\<rparr>)
           | Returns (Some p, q) \<Rightarrow>
               let fs = fs\<lparr>comp_queue := q\<rparr> in
               (case works fs p of
                  None \<Rightarrow> Undefined
                | Some work \<Rightarrow>
                    (case w_op work of
                       k_fs_work_op_read \<Rightarrow>
                         (case comp_read E junk p fs of
                            None \<Rightarrow> Undefined
                          | Some fs \<Rightarrow> Returns fs)
                     | k_fs_work_op_write \<Rightarrow>
                         (case comp_write E p fs of
                            None \<Rightarrow> Undefined
                          | Some fs \<Rightarrow> Returns (fs\<lparr>comp_thread := Handing p\<rparr>))))))"

text \<open>The worker threads, in any order.\<close>

inductive fs_step ::
  "('s, 'e, 'h, 'w, 'd) fs_env \<Rightarrow> ('s, 'e, 'd) fs_t \<Rightarrow> ('s, 'e, 'd) fs_t \<Rightarrow> bool" for E where
  file_step: "file_thread_step E fs = Returns fs' \<Longrightarrow> fs_step E fs fs'"
| comp_step: "comp_thread_step E junk fs = Returns fs' \<Longrightarrow> fs_step E fs fs'"

inductive_cases fs_stepE: "fs_step E fs fs'"

end
