(* ===== verification/Fs_Work.thy ===== *)
theory Fs_Work
  imports Fs "HOL-Library.Multiset"
begin

text \<open>
  The flow of work through the two threads of \<^verbatim>\<open>fs.c\<close>: what the workers change, the
  well-formedness \<open>fs_inv\<close>, the measure that every worker step decreases, and from these
  that all work is finished when no more of it is in flight than a queue holds; and a run with
  more work in flight that ends with both threads waiting for each other.
\<close>

section \<open>What the workers change\<close>

text \<open>The worker of \<open>p\<close> changes that work item, the memory and the disk, but not what kind of work it is.\<close>

definition worked_on :: "addr \<Rightarrow> ('s, 'e, 'd) fs_t \<Rightarrow> 'e fs_work_t \<Rightarrow> ('s, 'e, 'd) fs_t \<Rightarrow> bool" where
  "worked_on p fs work' fs' \<longleftrightarrow>
     (\<exists>work bl d. works fs p = Some work \<and> w_op work' = w_op work \<and>
        w_use_compression work' = w_use_compression work \<and>
        fs' = fs\<lparr>works := (works fs)(p \<mapsto> work'), blocks := bl, disk := d\<rparr>)"

definition same_but_memory :: "('s, 'e, 'd) fs_t \<Rightarrow> ('s, 'e, 'd) fs_t \<Rightarrow> bool" where
  "same_but_memory fs fs' \<longleftrightarrow> (\<exists>bl d. fs' = fs\<lparr>blocks := bl, disk := d\<rparr>)"

lemma same_but_memory_refl: "same_but_memory fs fs"
  unfolding same_but_memory_def by (intro exI [of _ "blocks fs"] exI [of _ "disk fs"]) simp

lemma same_but_memory_trans:
  "same_but_memory fs fs' \<Longrightarrow> same_but_memory fs' fs'' \<Longrightarrow> same_but_memory fs fs''"
proof (unfold same_but_memory_def, elim exE)
  fix bl d bl' d'
  assume "fs' = fs\<lparr>blocks := bl, disk := d\<rparr>" and "fs'' = fs'\<lparr>blocks := bl', disk := d'\<rparr>"
  then have "fs'' = fs\<lparr>blocks := bl', disk := d'\<rparr>" by simp
  then show "\<exists>bl d. fs'' = fs\<lparr>blocks := bl, disk := d\<rparr>" by blast
qed

lemma same_but_memory_disk: "same_but_memory fs (fs\<lparr>disk := d\<rparr>)"
  unfolding same_but_memory_def by (intro exI [of _ "blocks fs"] exI [of _ d]) simp

lemma same_but_memory_blocks: "same_but_memory fs (fs\<lparr>blocks := bl\<rparr>)"
  unfolding same_but_memory_def by (intro exI [of _ bl] exI [of _ "disk fs"]) simp

lemma fs_alloc_frame: "fs_alloc E h n fs = (p, fs') \<Longrightarrow> same_but_memory fs fs'"
  by (auto simp: fs_alloc_def same_but_memory_refl same_but_memory_blocks
      split: option.splits prod.splits)

lemma fs_free_frame: "fs_free h p fs = Some fs' \<Longrightarrow> same_but_memory fs fs'"
  by (auto simp: fs_free_def same_but_memory_refl same_but_memory_blocks
      split: option.splits prod.splits if_splits)

lemma store_frame: "store p off bs fs = Some fs' \<Longrightarrow> same_but_memory fs fs'"
  by (auto simp: store_def same_but_memory_refl same_but_memory_blocks bind_eq_Some_conv
      split: if_splits)

lemma worked_on_put:
  assumes "works fs p = Some work" and "same_but_memory fs fs'"
    and "w_op work' = w_op work" and "w_use_compression work' = w_use_compression work"
  shows "worked_on p fs work' (put_work p work' fs')"
proof -
  from assms(2) obtain bl d where "fs' = fs\<lparr>blocks := bl, disk := d\<rparr>"
    by (auto simp: same_but_memory_def)
  with assms show ?thesis
    unfolding worked_on_def put_work_def
    by (intro exI [of _ work] exI [of _ bl] exI [of _ d]) simp
qed

lemma worked_on_finish:
  assumes "works fs p = Some work" and "same_but_memory fs fs'"
    and "w_op work' = w_op work" and "w_use_compression work' = w_use_compression work"
    and "event_laws (Ev E) signalled"
  shows "\<exists>w. worked_on p fs w (finish E p work' r fs') \<and> signalled (w_done w)"
  using worked_on_put [OF assms(1,2), of "work'\<lparr>w_result := r, w_done := event_signal (Ev E) (w_done work')\<rparr>"]
    assms(3,4) event_laws_signal [OF assms(5)]
  by (fastforce simp: finish_def)

lemma file_read_frame:
  assumes ev: "event_laws (Ev E) signalled" and read: "file_read E p fs = Some (hand, fs')"
  shows "\<exists>w. worked_on p fs w fs' \<and>
    (if hand then w_op w = w_op (the (works fs p)) \<and> w_use_compression w else signalled (w_done w))"
proof -
  from read obtain work where work: "works fs p = Some work"
    by (auto simp: file_read_def bind_eq_Some_conv)
  have early: "\<exists>w. worked_on p fs w fs' \<and> (if hand then w_op w = w_op (the (works fs p)) \<and> w_use_compression w else signalled (w_done w))"
    if "hand = False" "fs' = finish E p work' r g" "same_but_memory fs g"
      "w_op work' = w_op work" "w_use_compression work' = w_use_compression work" for work' r g
    using worked_on_finish [OF work that(3-5) ev] that(1,2) by auto
  show ?thesis
  proof (cases "MultiByteToWideChar E (w_path work)")
    case None
    with read work show ?thesis
      by (intro early [of work "-1" fs]) (auto simp: file_read_def same_but_memory_refl)
  next
    case (Some wide)
    note wide = Some
    obtain h d where open_eq: "CreateFile_open E wide (disk fs) = (h, d)" by force
    show ?thesis
    proof (cases h)
      case (Inl err)
      with read work wide open_eq show ?thesis
        by (intro early [of work err "fs\<lparr>disk := d\<rparr>"]) (auto simp: file_read_def same_but_memory_disk)
    next
      case (Inr handle)
      note opened = this
      show ?thesis
      proof (cases "GetFileSizeEx E handle d")
        case (Inl err)
        with read work wide open_eq opened show ?thesis
          by (intro early [of work err "fs\<lparr>disk := CloseHandle E handle d\<rparr>"])
            (auto simp: file_read_def same_but_memory_disk)
      next
        case (Inr sz)
        obtain buf g where alloc: "fs_alloc E (w_heap work)
            (if w_null_terminate work then sz + 1 else sz) (fs\<lparr>disk := d\<rparr>) = (buf, g)" by force
        have g: "same_but_memory fs g"
          using same_but_memory_trans [OF same_but_memory_disk fs_alloc_frame [OF alloc]] .
        obtain r d2 where rd: "ReadFile E handle (ucast sz) (disk g) = (r, d2)" by force
        show ?thesis
        proof (cases r)
          case (Inl err)
          with read work wide open_eq opened Inr alloc rd show ?thesis
            by (intro early [of "work\<lparr>w_size := sz, w_buffer := buf\<rparr>" err "g\<lparr>disk := CloseHandle E handle d2\<rparr>"])
              (auto simp: file_read_def intro: same_but_memory_trans [OF g same_but_memory_disk])
        next
          case (Inr bytes)
          let ?w = "work\<lparr>w_buffer := buf, w_size := word_of_nat (length bytes)\<rparr>"
          from read work wide open_eq opened \<open>GetFileSizeEx E handle d = Inr sz\<close> alloc rd Inr
          obtain g1 g2 where st: "store buf 0 bytes g = Some g1"
            "(if w_null_terminate work then store buf (length bytes) [0] g1 else Some g1) = Some g2"
            and res: "(hand, fs') = (if w_use_compression work
              then (True, put_work p ?w (g2\<lparr>disk := CloseHandle E handle d2\<rparr>))
              else (False, finish E p ?w (w_result work) (g2\<lparr>disk := CloseHandle E handle d2\<rparr>)))"
            by (auto simp: file_read_def bind_eq_Some_conv Let_def split: if_splits)
          have g2: "same_but_memory fs (g2\<lparr>disk := CloseHandle E handle d2\<rparr>)"
            using st g
            by (metis option.inject same_but_memory_trans store_frame same_but_memory_disk)
          show ?thesis
          proof (cases "w_use_compression work")
            case True
            with res worked_on_put [OF work g2, of ?w] work show ?thesis by auto
          next
            case False
            with res show ?thesis by (intro early [OF _ _ g2, of ?w]) auto
          qed
        qed
      qed
    qed
  qed
qed

lemma file_write_frame:
  assumes ev: "event_laws (Ev E) signalled" and wr: "file_write E p fs = Some fs'"
  shows "\<exists>w. worked_on p fs w fs' \<and> signalled (w_done w)"
proof -
  from wr obtain work where work: "works fs p = Some work"
    by (auto simp: file_write_def bind_eq_Some_conv)
  have early: "\<exists>w. worked_on p fs w fs' \<and> signalled (w_done w)"
    if "fs' = finish E p work' r g" "same_but_memory fs g"
      "w_op work' = w_op work" "w_use_compression work' = w_use_compression work" for work' r g
    using worked_on_finish [OF work that(2-4) ev] that(1) by auto
  show ?thesis
  proof (cases "MultiByteToWideChar E (w_path work)")
    case None
    with wr work show ?thesis
      by (intro early [of work "-1" fs]) (auto simp: file_write_def same_but_memory_refl)
  next
    case (Some wide)
    obtain h d where open_eq: "CreateFile_create E wide (disk fs) = (h, d)" by force
    show ?thesis
    proof (cases h)
      case (Inl err)
      with wr work Some open_eq show ?thesis
        by (intro early [of work err "fs\<lparr>disk := d\<rparr>"]) (auto simp: file_write_def same_but_memory_disk)
    next
      case (Inr handle)
      with wr work Some open_eq obtain bytes where
        "load (w_buffer work) 0 (unat (ucast (w_size work) :: u32)) fs = Some bytes"
        by (auto simp: file_write_def bind_eq_Some_conv)
      moreover obtain r d2 where "WriteFile E handle bytes d = (r, d2)" by force
      ultimately obtain work' r' where
        "fs' = finish E p work' r' (fs\<lparr>disk := CloseHandle E handle d2\<rparr>)"
        "w_op work' = w_op work" "w_use_compression work' = w_use_compression work"
        using wr work Some open_eq Inr
        by (cases r) (auto simp: file_write_def)
      then show ?thesis by (rule early [OF _ same_but_memory_disk])
    qed
  qed
qed

lemma comp_read_frame:
  assumes ev: "event_laws (Ev E) signalled" and rd: "comp_read E junk p fs = Some fs'"
  shows "\<exists>w. worked_on p fs w fs' \<and> signalled (w_done w)"
proof -
  from rd obtain work front where work: "works fs p = Some work"
    and front: "load (w_buffer work) 0 1 fs = Some front"
    by (auto simp: comp_read_def bind_eq_Some_conv)
  let ?n = "(junk AND NOT 0xFF) OR ucast (front ! 0) :: c_int"
  obtain dst g where alloc: "fs_alloc E (fs_heap fs) (scast ?n) fs = (dst, g)" by force
  from rd work front alloc obtain src where
    src: "(if sint (ucast (w_size work) - 4 :: c_int) < 0 then Some []
           else load (w_buffer work) 4 (nat (sint (ucast (w_size work) - 4 :: c_int))) g) = Some src"
    by (auto simp: comp_read_def bind_eq_Some_conv Let_def simp del: One_nat_def)
  obtain dec out where lz: "LZ4_decompress_safe E src (ucast (w_size work) - 4) ?n = (dec, out)" by force
  from rd work front alloc src lz obtain g1 g2 g3 where
    st: "store dst 0 out g = Some g1" "fs_free (fs_heap g1) (w_buffer work) g1 = Some g2"
      "(if w_null_terminate work then store dst (unat (scast dec :: u64)) [0] g2 else Some g2) = Some g3"
    and res: "fs' = finish E p (work\<lparr>w_size := scast dec, w_buffer := dst\<rparr>) (w_result work) g3"
    by (auto simp: comp_read_def bind_eq_Some_conv Let_def simp del: One_nat_def)
  have "same_but_memory fs g3"
    using st fs_alloc_frame [OF alloc]
    by (metis option.inject same_but_memory_trans store_frame fs_free_frame)
  with worked_on_finish [OF work this _ _ ev] res show ?thesis by auto
qed

lemma comp_write_frame:
  assumes wr: "comp_write E p fs = Some fs'"
  shows "\<exists>w. worked_on p fs w fs'"
proof -
  from wr obtain work where work: "works fs p = Some work"
    by (auto simp: comp_write_def bind_eq_Some_conv)
  let ?n = "LZ4_compressBound E (ucast (w_size work))"
  obtain dst g where alloc: "fs_alloc E (fs_heap fs) (scast ?n + 4) fs = (dst, g)" by force
  from wr work alloc obtain g1 src g2 where
    st: "store dst 0 (le64_bytes (scast (ucast (w_size work) :: u8))) g = Some g1"
      "store dst 4 (LZ4_compress_default E src (ucast (w_size work)) ?n) g1 = Some g2"
    and res: "fs' = put_work p (work\<lparr>w_size := scast
        (word_of_nat (length (LZ4_compress_default E src (ucast (w_size work)) ?n)) + 4 :: c_int),
        w_buffer := dst\<rparr>) g2"
    by (auto simp: comp_write_def bind_eq_Some_conv Let_def split: if_splits)
  have "same_but_memory fs g2"
    using st fs_alloc_frame [OF alloc] by (metis same_but_memory_trans store_frame)
  then show ?thesis
    unfolding res by (intro exI, rule worked_on_put [OF work]) simp_all
qed

section \<open>Work in flight\<close>

definition held :: "worker \<Rightarrow> addr list" where
  "held w = (case w of Handing p \<Rightarrow> [p] | _ \<Rightarrow> [])"

definition queued :: "('s, addr) queue \<Rightarrow> addr list" where
  "queued q = [p. Some p \<leftarrow> queue_contents q]"

definition in_flight :: "('s, 'e, 'd) fs_t \<Rightarrow> addr list" where
  "in_flight fs = held (file_thread fs) @ held (comp_thread fs) @
     queued (file_queue fs) @ queued (comp_queue fs)"

text \<open>How many worker steps a work item still needs at most, by where it is.\<close>

definition op_of :: "('s, 'e, 'd) fs_t \<Rightarrow> addr \<Rightarrow> fs_work_op_t" where
  "op_of fs p = w_op (the (works fs p))"

definition file_effort :: "('s, 'e, 'd) fs_t \<Rightarrow> addr \<Rightarrow> nat" where
  "file_effort fs p = (if op_of fs p = k_fs_work_op_read then 3 else 1)"

definition comp_effort :: "('s, 'e, 'd) fs_t \<Rightarrow> addr \<Rightarrow> nat" where
  "comp_effort fs p = (if op_of fs p = k_fs_work_op_write then 3 else 1)"

definition effort :: "('s, 'e, 'd) fs_t \<Rightarrow> nat" where
  "effort fs = 2 * length (held (file_thread fs)) + 2 * length (held (comp_thread fs)) +
     sum_list (map (file_effort fs) (queued (file_queue fs))) +
     sum_list (map (comp_effort fs) (queued (comp_queue fs)))"

text \<open>
  Neither thread has been asked to end; every item in flight exists and is in one place; a
  thread only hands over what it has to; every other item is finished.
\<close>

definition fs_inv ::
  "('s \<Rightarrow> nat) \<Rightarrow> ('s \<Rightarrow> nat) \<Rightarrow> ('e \<Rightarrow> bool) \<Rightarrow> ('s, 'e, 'd) fs_t \<Rightarrow> bool" where
  "fs_inv cnt limit signalled fs \<longleftrightarrow>
     queue_inv cnt limit (file_queue fs) \<and> queue_inv cnt limit (comp_queue fs) \<and>
     None \<notin> set (queue_contents (file_queue fs)) \<and> None \<notin> set (queue_contents (comp_queue fs)) \<and>
     file_thread fs \<noteq> Exited \<and> comp_thread fs \<noteq> Exited \<and>
     distinct (in_flight fs) \<and> (\<forall>p \<in> set (in_flight fs). works fs p \<noteq> None) \<and>
     (\<forall>p \<in> set (held (file_thread fs)). op_of fs p = k_fs_work_op_read) \<and>
     (\<forall>p \<in> set (held (comp_thread fs)). op_of fs p = k_fs_work_op_write) \<and>
     (\<forall>p work. works fs p = Some work \<longrightarrow> p \<notin> set (in_flight fs) \<longrightarrow> signalled (w_done work)) \<and>
     effort fs \<le> queue_budget (file_queue fs) \<and> effort fs \<le> queue_budget (comp_queue fs)"

lemma worker_held [simp]: "held Popping = []" "held (Handing p) = [p]" "held Exited = []"
  by (simp_all add: held_def)

lemma queued_Cons: "queue_contents q = Some p # queue_contents q' \<Longrightarrow> queued q = p # queued q'"
  by (simp add: queued_def)

lemma queued_snoc: "queue_contents q' = queue_contents q @ [Some p] \<Longrightarrow> queued q' = queued q @ [p]"
  by (simp add: queued_def)

lemma queued_length:
  assumes "None \<notin> set (queue_contents q)"
  shows "length (queued q) = length (queue_contents q)"
proof -
  have "None \<notin> set xs \<Longrightarrow> length [p. Some p \<leftarrow> xs] = length xs" for xs :: "addr ptr list"
    by (induction xs) (auto split: option.splits, metis option.exhaust)
  with assms show ?thesis by (simp add: queued_def)
qed

lemma effort_bound: "effort fs \<le> 3 * length (in_flight fs)"
proof -
  have "sum_list (map (file_effort fs) xs) \<le> 3 * length xs" for xs
    by (induction xs) (auto simp: file_effort_def)
  note f_part = this [of "queued (file_queue fs)"]
  have "sum_list (map (comp_effort fs) xs) \<le> 3 * length xs" for xs
    by (induction xs) (auto simp: comp_effort_def)
  note c_part = this [of "queued (comp_queue fs)"]
  have "A \<le> 3 * a \<Longrightarrow> B \<le> 3 * b \<Longrightarrow> 2 * x + 2 * y + A + B \<le> 3 * (x + (y + (a + b)))"
    for A B a b x y :: nat
    by (simp add: algebra_simps)
  from this [OF f_part c_part] show ?thesis
    unfolding effort_def in_flight_def length_append .
qed

section \<open>Queue operations that return or block\<close>

definition q_size :: "('s, 'a) queue \<Rightarrow> nat" where
  "q_size q = queue_room q + length (queue_contents q)"

lemma pop_returned:
  assumes "semaphore_laws K cnt limit" and "queue_inv cnt limit q"
    and "queue_pop K q = Returns (x, q')"
  shows "queue_inv cnt limit q' \<and> queue_contents q = x # queue_contents q' \<and>
    q_size q' = q_size q \<and> queue_budget q' = queue_budget q"
proof (cases "queue_contents q")
  case Nil
  with queue_pop_empty(1) [OF assms(1,2) Nil] assms(3) show ?thesis by simp
next
  case (Cons y ys)
  with queue_pop_cons [OF assms(1,2) Cons] assms(3) show ?thesis by (auto simp: q_size_def)
qed

lemma push_returned:
  assumes "semaphore_laws K cnt limit" and "queue_inv cnt limit q" and "0 < queue_budget q"
    and "queue_push K q x = Returns q'"
  shows "queue_inv cnt limit q' \<and> queue_contents q' = queue_contents q @ [x] \<and>
    q_size q' = q_size q \<and> queue_budget q' = queue_budget q - 1"
proof (cases "queue_room q = 0")
  case True
  with queue_push_full [OF assms(1,2)] assms(4) show ?thesis by simp
next
  case False
  with queue_push_room [OF assms(1,2) _ assms(3), of x] assms(4) show ?thesis
    by (fastforce simp: q_size_def simp del: queue_contents_length)
qed

lemma pop_blocked:
  assumes "semaphore_laws K cnt limit" and "queue_inv cnt limit q" and "queue_pop K q = Blocks"
  shows "queue_contents q = []"
  using queue_pop_cons [OF assms(1,2)] assms(3) by (cases "queue_contents q") fastforce+

lemma push_blocked:
  assumes "semaphore_laws K cnt limit" and "queue_inv cnt limit q" and "0 < queue_budget q"
    and "queue_push K q x = Blocks"
  shows "length (queue_contents q) = q_size q"
  using queue_push_room [OF assms(1,2) _ assms(3), of x] assms(4)
  by (cases "queue_room q = 0") (fastforce simp: q_size_def simp del: queue_contents_length)+

section \<open>Worker steps\<close>

lemma worked_on_effort:
  assumes "worked_on p fs work' fs'"
  shows "op_of fs' q = op_of fs q" and "effort fs' = effort fs" and "in_flight fs' = in_flight fs"
proof -
  from assms have op: "op_of fs' = op_of fs"
    by (auto simp: worked_on_def op_of_def fun_eq_iff)
  then show "op_of fs' q = op_of fs q" by simp
  from op have "file_effort fs' = file_effort fs" "comp_effort fs' = comp_effort fs"
    by (auto simp: file_effort_def comp_effort_def fun_eq_iff)
  with assms show "effort fs' = effort fs" by (auto simp: worked_on_def effort_def)
  from assms show "in_flight fs' = in_flight fs" by (auto simp: worked_on_def in_flight_def)
qed

text \<open>
  The three ways a step changes what is in flight: an item is taken out and finished, it moves to
  a thread, or it moves from a thread to a queue.
\<close>

lemma fs_inv_finished:
  assumes inv: "fs_inv cnt limit signalled fs"
    and flight: "mset (in_flight fs) = mset (p # in_flight fs')"
    and works: "works fs' = (works fs)(p \<mapsto> w)" and op: "w_op w = op_of fs p"
    and sig: "signalled (w_done w)"
  shows "distinct (in_flight fs')" and "\<forall>q \<in> set (in_flight fs'). works fs' q \<noteq> None"
    and "\<forall>q work. works fs' q = Some work \<longrightarrow> q \<notin> set (in_flight fs') \<longrightarrow> signalled (w_done work)"
    and "op_of fs' = op_of fs"
proof -
  have sets: "set (in_flight fs) = insert p (set (in_flight fs'))"
    using mset_eq_setD [OF flight] by simp
  have "distinct (p # in_flight fs')"
    using mset_eq_imp_distinct_iff [OF flight] inv by (simp add: fs_inv_def)
  then show "distinct (in_flight fs')" by simp
  show "\<forall>q \<in> set (in_flight fs'). works fs' q \<noteq> None"
    using inv sets works by (auto simp: fs_inv_def)
  show "\<forall>q work. works fs' q = Some work \<longrightarrow> q \<notin> set (in_flight fs') \<longrightarrow> signalled (w_done work)"
    using inv sets works sig by (auto simp: fs_inv_def)
  show "op_of fs' = op_of fs"
    using works op by (auto simp: op_of_def fun_eq_iff)
qed

lemma fs_inv_moved:
  assumes inv: "fs_inv cnt limit signalled fs"
    and flight: "mset (in_flight fs) = mset (in_flight fs')"
    and works: "works fs' = works fs \<or> (\<exists>w p. works fs' = (works fs)(p \<mapsto> w) \<and> w_op w = op_of fs p \<and> p \<in> set (in_flight fs))"
  shows "distinct (in_flight fs')" and "\<forall>q \<in> set (in_flight fs'). works fs' q \<noteq> None"
    and "\<forall>q work. works fs' q = Some work \<longrightarrow> q \<notin> set (in_flight fs') \<longrightarrow> signalled (w_done work)"
    and "op_of fs' = op_of fs"
proof -
  have sets: "set (in_flight fs) = set (in_flight fs')"
    using mset_eq_setD [OF flight] .
  show "distinct (in_flight fs')"
    using mset_eq_imp_distinct_iff [OF flight] inv by (simp add: fs_inv_def)
  show "\<forall>q \<in> set (in_flight fs'). works fs' q \<noteq> None"
    using inv sets works by (auto simp: fs_inv_def)
  show "\<forall>q work. works fs' q = Some work \<longrightarrow> q \<notin> set (in_flight fs') \<longrightarrow> signalled (w_done work)"
    using inv sets works by (auto simp: fs_inv_def split: if_splits)
  show "op_of fs' = op_of fs"
    using works by (auto simp: op_of_def fun_eq_iff)
qed

lemma effort_fields:
  assumes "op_of fs' = op_of fs"
  shows "effort fs' = 2 * length (held (file_thread fs')) + 2 * length (held (comp_thread fs')) +
     sum_list (map (file_effort fs) (queued (file_queue fs'))) +
     sum_list (map (comp_effort fs) (queued (comp_queue fs')))"
proof -
  from assms have "file_effort fs' = file_effort fs" "comp_effort fs' = comp_effort fs"
    by (auto simp: file_effort_def comp_effort_def fun_eq_iff)
  then show ?thesis by (simp add: effort_def)
qed

text \<open>What a step keeps: the invariant, the queue sizes, and the amount of work; and it makes progress.\<close>

definition progress ::
  "('s \<Rightarrow> nat) \<Rightarrow> ('s \<Rightarrow> nat) \<Rightarrow> ('e \<Rightarrow> bool) \<Rightarrow> ('s, 'e, 'd) fs_t \<Rightarrow> ('s, 'e, 'd) fs_t \<Rightarrow> bool" where
  "progress cnt limit signalled fs fs' \<longleftrightarrow>
     fs_inv cnt limit signalled fs' \<and> effort fs' < effort fs \<and>
     length (in_flight fs') \<le> length (in_flight fs) \<and>
     q_size (file_queue fs') = q_size (file_queue fs) \<and>
     q_size (comp_queue fs') = q_size (comp_queue fs)"

lemma in_flight_pop_file:
  assumes inv: "fs_inv cnt limit signalled fs" and laws: "semaphore_laws K cnt limit"
    and pop: "queue_pop K (file_queue fs) = Returns (x, q)" and idle: "file_thread fs = Popping"
  obtains p work where "x = Some p" and "works fs p = Some work"
    and "mset (in_flight fs) = mset (p # in_flight (fs\<lparr>file_queue := q\<rparr>))"
    and "queue_inv cnt limit q" and "None \<notin> set (queue_contents q)"
    and "queued (file_queue fs) = p # queued q"
    and "q_size q = q_size (file_queue fs)" and "queue_budget q = queue_budget (file_queue fs)"
proof -
  have qinv: "queue_inv cnt limit (file_queue fs)" using inv by (simp add: fs_inv_def)
  note popped = pop_returned [OF laws qinv pop]
  moreover have no: "None \<notin> set (queue_contents (file_queue fs))" using inv by (simp add: fs_inv_def)
  ultimately obtain p where x: "x = Some p" by (cases x) auto
  with popped have queued: "queued (file_queue fs) = p # queued q"
    by (simp add: queued_Cons)
  then have "p \<in> set (in_flight fs)" by (simp add: in_flight_def)
  then obtain work where "works fs p = Some work" using inv by (auto simp: fs_inv_def)
  moreover have "mset (in_flight fs) = mset (p # in_flight (fs\<lparr>file_queue := q\<rparr>))"
    using queued by (simp add: in_flight_def)
  ultimately show thesis using that [OF x] popped no queued by simp
qed

lemma in_flight_pop_comp:
  assumes inv: "fs_inv cnt limit signalled fs" and laws: "semaphore_laws K cnt limit"
    and pop: "queue_pop K (comp_queue fs) = Returns (x, q)" and idle: "comp_thread fs = Popping"
  obtains p work where "x = Some p" and "works fs p = Some work"
    and "mset (in_flight fs) = mset (p # in_flight (fs\<lparr>comp_queue := q\<rparr>))"
    and "queue_inv cnt limit q" and "None \<notin> set (queue_contents q)"
    and "queued (comp_queue fs) = p # queued q"
    and "q_size q = q_size (comp_queue fs)" and "queue_budget q = queue_budget (comp_queue fs)"
proof -
  have qinv: "queue_inv cnt limit (comp_queue fs)" using inv by (simp add: fs_inv_def)
  note popped = pop_returned [OF laws qinv pop]
  moreover have no: "None \<notin> set (queue_contents (comp_queue fs))" using inv by (simp add: fs_inv_def)
  ultimately obtain p where x: "x = Some p" by (cases x) auto
  with popped have queued: "queued (comp_queue fs) = p # queued q"
    by (simp add: queued_Cons)
  then have "p \<in> set (in_flight fs)" by (simp add: in_flight_def)
  then obtain work where "works fs p = Some work" using inv by (auto simp: fs_inv_def)
  moreover have "mset (in_flight fs) = mset (p # in_flight (fs\<lparr>comp_queue := q\<rparr>))"
    using queued by (simp add: in_flight_def)
  ultimately show thesis using that [OF x] popped no queued by simp
qed

lemma file_step_progress:
  assumes laws: "semaphore_laws (Sem E) cnt limit" and ev: "event_laws (Ev E) signalled"
    and inv: "fs_inv cnt limit signalled fs" and run: "file_thread_step E fs = Returns fs'"
  shows "progress cnt limit signalled fs fs'"
proof (cases "file_thread fs")
  case Exited
  with inv show ?thesis by (simp add: fs_inv_def)
next
  case (Handing p)
  then have budget: "0 < queue_budget (comp_queue fs)"
    using inv by (simp add: fs_inv_def effort_def)
  have qinv: "queue_inv cnt limit (comp_queue fs)" using inv by (simp add: fs_inv_def)
  from run Handing obtain q where push: "queue_push (Sem E) (comp_queue fs) (Some p) = Returns q"
    and fs': "fs' = fs\<lparr>comp_queue := q, file_thread := Popping\<rparr>"
    by (auto simp: file_thread_step_def push_comp_def split: outcome.splits)
  note pushed = push_returned [OF laws qinv budget push]
  then have queued: "queued q = queued (comp_queue fs) @ [p]"
    by (simp add: queued_snoc)
  have flight: "mset (in_flight fs) = mset (in_flight fs')"
    using queued Handing fs' by (simp add: in_flight_def)
  note moved = fs_inv_moved [OF inv flight]
  have op: "op_of fs p = k_fs_work_op_read" using inv Handing by (simp add: fs_inv_def)
  have effort: "effort fs' + 1 = effort fs"
    using queued Handing fs' op effort_fields [OF moved(4)]
    by (simp add: effort_def comp_effort_def)
  have "fs_inv cnt limit signalled fs'"
    unfolding fs_inv_def using moved inv pushed effort fs' Handing
    by (auto simp: fs_inv_def)
  with effort mset_eq_length [OF flight] pushed fs' show ?thesis
    by (simp add: progress_def)
next
  case Popping
  with run inv obtain x q where pop: "queue_pop (Sem E) (file_queue fs) = Returns (x, q)"
    by (auto simp: file_thread_step_def split: outcome.splits)
  from in_flight_pop_file [OF inv laws pop Popping] obtain p work where
    x: "x = Some p" and work: "works fs p = Some work"
    and flight: "mset (in_flight fs) = mset (p # in_flight (fs\<lparr>file_queue := q\<rparr>))"
    and q: "queue_inv cnt limit q" "None \<notin> set (queue_contents q)"
      "queued (file_queue fs) = p # queued q"
      "q_size q = q_size (file_queue fs)" "queue_budget q = queue_budget (file_queue fs)"
    by blast
  let ?fs = "fs\<lparr>file_queue := q\<rparr>"
  have opwork: "op_of fs p = w_op work" using work by (simp add: op_of_def)
  show ?thesis
  proof (cases "\<exists>w. worked_on p ?fs w fs' \<and> signalled (w_done w)")
    case True
    then obtain w bl d where sig: "signalled (w_done w)" and op: "w_op w = op_of fs p"
      and fs': "fs' = ?fs\<lparr>works := (works fs)(p \<mapsto> w), blocks := bl, disk := d\<rparr>"
      using work by (auto simp: worked_on_def op_of_def)
    then have flight': "mset (in_flight fs) = mset (p # in_flight fs')"
      using flight by (simp add: in_flight_def)
    have w': "works fs' = (works fs)(p \<mapsto> w)" using fs' by simp
    note fin = fs_inv_finished [OF inv flight' w' op sig]
    have effort: "effort fs' < effort fs"
      using q(3) Popping fs' effort_fields [OF fin(4)] by (simp add: effort_def file_effort_def)
    have "fs_inv cnt limit signalled fs'"
      unfolding fs_inv_def using fin(1,2,3) inv q effort fs' Popping fin(4)
      by (auto simp: fs_inv_def)
    with effort mset_eq_length [OF flight'] q fs' show ?thesis
      by (simp add: progress_def)
  next
    case False
    with run Popping pop x work obtain fs2 where read: "file_read E p ?fs = Some (True, fs2)"
      and fs'2: "fs' = fs2\<lparr>file_thread := Handing p\<rparr>" and isread: "w_op work = k_fs_work_op_read"
      using file_write_frame [OF ev, of p ?fs] file_read_frame [OF ev, of p ?fs False]
      by (auto simp: file_thread_step_def Let_def split: option.splits fs_work_op_t.splits if_splits)
    from file_read_frame [OF ev read] obtain w bl d where
      op: "w_op w = op_of fs p" and fs2: "fs2 = ?fs\<lparr>works := (works fs)(p \<mapsto> w), blocks := bl, disk := d\<rparr>"
      using work by (auto simp: worked_on_def op_of_def)
    have fs': "fs' = ?fs\<lparr>works := (works fs)(p \<mapsto> w), blocks := bl, disk := d, file_thread := Handing p\<rparr>"
      using fs2 fs'2 by simp
    have flight': "mset (in_flight fs) = mset (in_flight fs')"
      using flight Popping fs' by (simp add: in_flight_def)
    have "p \<in> set (in_flight fs)" using mset_eq_setD [OF flight] by simp
    then have "works fs' = works fs \<or> (\<exists>w p. works fs' = (works fs)(p \<mapsto> w) \<and> w_op w = op_of fs p \<and> p \<in> set (in_flight fs))"
      using op fs' by auto
    note moved = fs_inv_moved [OF inv flight' this]
    have effort: "effort fs' < effort fs"
      using q(3) Popping fs' effort_fields [OF moved(4)] isread opwork
      by (simp add: effort_def file_effort_def)
    have "fs_inv cnt limit signalled fs'"
      unfolding fs_inv_def using moved(1,2,3) inv q effort fs' Popping moved(4) isread opwork
      by (auto simp: fs_inv_def)
    with effort mset_eq_length [OF flight'] q fs' show ?thesis
      by (simp add: progress_def)
  qed
qed

lemma comp_step_progress:
  assumes laws: "semaphore_laws (Sem E) cnt limit" and ev: "event_laws (Ev E) signalled"
    and inv: "fs_inv cnt limit signalled fs" and run: "comp_thread_step E junk fs = Returns fs'"
  shows "progress cnt limit signalled fs fs'"
proof (cases "comp_thread fs")
  case Exited
  with inv show ?thesis by (simp add: fs_inv_def)
next
  case (Handing p)
  then have budget: "0 < queue_budget (file_queue fs)"
    using inv by (simp add: fs_inv_def effort_def)
  have qinv: "queue_inv cnt limit (file_queue fs)" using inv by (simp add: fs_inv_def)
  from run Handing obtain q where push: "queue_push (Sem E) (file_queue fs) (Some p) = Returns q"
    and fs': "fs' = fs\<lparr>file_queue := q, comp_thread := Popping\<rparr>"
    by (auto simp: comp_thread_step_def push_file_def split: outcome.splits)
  note pushed = push_returned [OF laws qinv budget push]
  then have queued: "queued q = queued (file_queue fs) @ [p]"
    by (simp add: queued_snoc)
  have flight: "mset (in_flight fs) = mset (in_flight fs')"
    using queued Handing fs' by (simp add: in_flight_def)
  note moved = fs_inv_moved [OF inv flight]
  have op: "op_of fs p = k_fs_work_op_write" using inv Handing by (simp add: fs_inv_def)
  have effort: "effort fs' + 1 = effort fs"
    using queued Handing fs' op effort_fields [OF moved(4)]
    by (simp add: effort_def file_effort_def)
  have "fs_inv cnt limit signalled fs'"
    unfolding fs_inv_def using moved inv pushed effort fs' Handing
    by (auto simp: fs_inv_def)
  with effort mset_eq_length [OF flight] pushed fs' show ?thesis
    by (simp add: progress_def)
next
  case Popping
  with run inv obtain x q where pop: "queue_pop (Sem E) (comp_queue fs) = Returns (x, q)"
    by (auto simp: comp_thread_step_def split: outcome.splits)
  from in_flight_pop_comp [OF inv laws pop Popping] obtain p work where
    x: "x = Some p" and work: "works fs p = Some work"
    and flight: "mset (in_flight fs) = mset (p # in_flight (fs\<lparr>comp_queue := q\<rparr>))"
    and q: "queue_inv cnt limit q" "None \<notin> set (queue_contents q)"
      "queued (comp_queue fs) = p # queued q"
      "q_size q = q_size (comp_queue fs)" "queue_budget q = queue_budget (comp_queue fs)"
    by blast
  let ?fs = "fs\<lparr>comp_queue := q\<rparr>"
  have opwork: "op_of fs p = w_op work" using work by (simp add: op_of_def)
  show ?thesis
  proof (cases "\<exists>w. worked_on p ?fs w fs' \<and> signalled (w_done w)")
    case True
    then obtain w bl d where sig: "signalled (w_done w)" and op: "w_op w = op_of fs p"
      and fs': "fs' = ?fs\<lparr>works := (works fs)(p \<mapsto> w), blocks := bl, disk := d\<rparr>"
      using work by (auto simp: worked_on_def op_of_def)
    then have flight': "mset (in_flight fs) = mset (p # in_flight fs')"
      using flight by (simp add: in_flight_def)
    have w': "works fs' = (works fs)(p \<mapsto> w)" using fs' by simp
    note fin = fs_inv_finished [OF inv flight' w' op sig]
    have effort: "effort fs' < effort fs"
      using q(3) Popping fs' effort_fields [OF fin(4)] by (simp add: effort_def comp_effort_def)
    have "fs_inv cnt limit signalled fs'"
      unfolding fs_inv_def using fin(1,2,3) inv q effort fs' Popping fin(4)
      by (auto simp: fs_inv_def)
    with effort mset_eq_length [OF flight'] q fs' show ?thesis
      by (simp add: progress_def)
  next
    case False
    with run Popping pop x work obtain fs2 where wr: "comp_write E p ?fs = Some fs2"
      and fs'2: "fs' = fs2\<lparr>comp_thread := Handing p\<rparr>" and iswrite: "w_op work = k_fs_work_op_write"
      using comp_read_frame [OF ev, of junk p ?fs]
      by (auto simp: comp_thread_step_def Let_def split: option.splits fs_work_op_t.splits if_splits)
    from comp_write_frame [OF wr] obtain w bl d where
      op: "w_op w = op_of fs p" and fs2: "fs2 = ?fs\<lparr>works := (works fs)(p \<mapsto> w), blocks := bl, disk := d\<rparr>"
      using work by (auto simp: worked_on_def op_of_def)
    have fs': "fs' = ?fs\<lparr>works := (works fs)(p \<mapsto> w), blocks := bl, disk := d, comp_thread := Handing p\<rparr>"
      using fs2 fs'2 by simp
    have flight': "mset (in_flight fs) = mset (in_flight fs')"
      using flight Popping fs' by (simp add: in_flight_def)
    have "p \<in> set (in_flight fs)" using mset_eq_setD [OF flight] by simp
    then have "works fs' = works fs \<or> (\<exists>w p. works fs' = (works fs)(p \<mapsto> w) \<and> w_op w = op_of fs p \<and> p \<in> set (in_flight fs))"
      using op fs' by auto
    note moved = fs_inv_moved [OF inv flight' this]
    have effort: "effort fs' < effort fs"
      using q(3) Popping fs' effort_fields [OF moved(4)] iswrite opwork
      by (simp add: effort_def comp_effort_def)
    have "fs_inv cnt limit signalled fs'"
      unfolding fs_inv_def using moved(1,2,3) inv q effort fs' Popping moved(4) iswrite opwork
      by (auto simp: fs_inv_def)
    with effort mset_eq_length [OF flight'] q fs' show ?thesis
      by (simp add: progress_def)
  qed
qed


lemma fs_step_progress:
  assumes "semaphore_laws (Sem E) cnt limit" and "event_laws (Ev E) signalled"
    and "fs_inv cnt limit signalled fs" and "fs_step E fs fs'"
  shows "progress cnt limit signalled fs fs'"
  using assms(4) file_step_progress [OF assms(1-3)] comp_step_progress [OF assms(1-3)]
  by (auto elim: fs_stepE)

lemma fs_steps_progress:
  assumes "semaphore_laws (Sem E) cnt limit" and "event_laws (Ev E) signalled"
    and "(fs_step E ^^ n) fs fs'" and "fs_inv cnt limit signalled fs"
  shows "fs_inv cnt limit signalled fs' \<and> effort fs' + n \<le> effort fs \<and>
    length (in_flight fs') \<le> length (in_flight fs) \<and>
    q_size (file_queue fs') = q_size (file_queue fs) \<and> q_size (comp_queue fs') = q_size (comp_queue fs)"
  using assms(3,4)
proof (induction n arbitrary: fs')
  case 0
  then show ?case by simp
next
  case (Suc n)
  then obtain g where g: "(fs_step E ^^ n) fs g" "fs_step E g fs'" by auto
  from Suc.IH [OF g(1) Suc.prems(2)] fs_step_progress [OF assms(1,2) _ g(2)]
  show ?case by (auto simp: progress_def)
qed

text \<open>With room in the queues only an empty system waits.\<close>

lemma all_blocked_idle:
  assumes laws: "semaphore_laws (Sem E) cnt limit" and inv: "fs_inv cnt limit signalled fs"
    and room: "length (in_flight fs) \<le> q_size (file_queue fs)" "length (in_flight fs) \<le> q_size (comp_queue fs)"
    and blocked: "file_thread_step E fs = Blocks" "comp_thread_step E junk fs = Blocks"
  shows "in_flight fs = []"
proof -
  have q: "queue_inv cnt limit (file_queue fs)" "queue_inv cnt limit (comp_queue fs)"
    and no: "None \<notin> set (queue_contents (file_queue fs))" "None \<notin> set (queue_contents (comp_queue fs))"
    using inv by (simp_all add: fs_inv_def)
  have f: "file_thread fs = Popping"
  proof (cases "file_thread fs")
    case (Handing p)
    with inv have "0 < queue_budget (comp_queue fs)" by (simp add: fs_inv_def effort_def)
    with Handing blocked(1) have "length (queue_contents (comp_queue fs)) = q_size (comp_queue fs)"
      by (intro push_blocked [OF laws q(2)])
        (auto simp: file_thread_step_def push_comp_def split: outcome.splits)
    with Handing room(2) queued_length [OF no(2)] show ?thesis by (simp add: in_flight_def)
  qed (use inv in \<open>auto simp: fs_inv_def\<close>)
  have c: "comp_thread fs = Popping"
  proof (cases "comp_thread fs")
    case (Handing p)
    with inv have "0 < queue_budget (file_queue fs)" by (simp add: fs_inv_def effort_def)
    with Handing blocked(2) have "length (queue_contents (file_queue fs)) = q_size (file_queue fs)"
      by (intro push_blocked [OF laws q(1)])
        (auto simp: comp_thread_step_def push_file_def split: outcome.splits)
    with Handing room(1) queued_length [OF no(1)] show ?thesis by (simp add: in_flight_def)
  qed (use inv in \<open>auto simp: fs_inv_def\<close>)
  have "queue_contents (file_queue fs) = []"
    using f blocked(1)
    by (intro pop_blocked [OF laws q(1)])
      (auto simp: file_thread_step_def Let_def
        split: outcome.splits option.splits fs_work_op_t.splits prod.splits)
  moreover have "queue_contents (comp_queue fs) = []"
    using c blocked(2)
    by (intro pop_blocked [OF laws q(2)])
      (auto simp: comp_thread_step_def Let_def
        split: outcome.splits option.splits fs_work_op_t.splits prod.splits)
  ultimately show ?thesis using f c by (simp add: in_flight_def queued_def)
qed

section \<open>Requests of the client\<close>

lemma fs_create_inv:
  assumes laws: "semaphore_laws (Sem E) cnt limit"
    and create: "fs_create E heap mem1 mem2 (word_of_nat n) bl d = Some fs"
    and n: "0 < n" "n < 2 ^ 31" "length mem1 = n" "length mem2 = n"
  shows "fs_inv cnt limit signalled fs \<and> in_flight fs = [] \<and>
    q_size (file_queue fs) = n \<and> q_size (comp_queue fs) = n"
proof -
  from create obtain fq cq where q: "queue_create (Sem E) True mem1 (word_of_nat n) = Some fq"
    "queue_create (Sem E) True mem2 (word_of_nat n) = Some cq"
    and fs: "fs = \<lparr>fs_heap = heap, file_queue = fq, file_thread = Popping, comp_queue = cq,
             comp_thread = Popping, works = Map.empty, blocks = bl, disk = d\<rparr>"
    by (auto simp: fs_create_def bind_eq_Some_conv)
  from queue_create_inv [OF laws n(1,2,3) q(1)] queue_create_inv [OF laws n(1,2,4) q(2)]
  show ?thesis
    unfolding fs by (simp add: fs_inv_def in_flight_def effort_def q_size_def queued_def
        del: queue_contents_length)
qed

text \<open>A new item in one of the queues, of either kind.\<close>

lemma fs_inv_request:
  assumes laws: "semaphore_laws (Sem E) cnt limit" and inv: "fs_inv cnt limit signalled fs"
    and new: "works fs p = None"
    and budget: "effort fs + 4 \<le> queue_budget (file_queue fs)" "effort fs + 4 \<le> queue_budget (comp_queue fs)"
    and push: "push_file E (Some p) (put_work p work fs) = Returns fs' \<or>
      push_comp E (Some p) (put_work p work fs) = Returns fs'"
  shows "fs_inv cnt limit signalled fs' \<and> mset (in_flight fs') = mset (p # in_flight fs) \<and>
    q_size (file_queue fs') = q_size (file_queue fs) \<and> q_size (comp_queue fs') = q_size (comp_queue fs)"
proof -
  let ?fs = "put_work p work fs"
  have fields: "file_queue ?fs = file_queue fs" "comp_queue ?fs = comp_queue fs" "file_thread ?fs = file_thread fs"
    "comp_thread ?fs = comp_thread fs" "works ?fs = (works fs)(p \<mapsto> work)" by (simp_all add: put_work_def)
  have out: "p \<notin> set (in_flight fs)" using inv new by (auto simp: fs_inv_def)
  then have ops: "q \<in> set (in_flight fs) \<Longrightarrow> op_of ?fs q = op_of fs q" for q
    by (auto simp: op_of_def put_work_def)
  then have "map (file_effort ?fs) (queued (file_queue fs)) = map (file_effort fs) (queued (file_queue fs))"
    and "map (comp_effort ?fs) (queued (comp_queue fs)) = map (comp_effort fs) (queued (comp_queue fs))"
    by (auto simp: file_effort_def comp_effort_def in_flight_def)
  then have eff: "effort ?fs = effort fs" by (simp only: effort_def fields)
  have heldops: "\<forall>q \<in> set (held (file_thread fs)). op_of ?fs q = k_fs_work_op_read"
    "\<forall>q \<in> set (held (comp_thread fs)). op_of ?fs q = k_fs_work_op_write"
    using inv ops by (auto simp: fs_inv_def in_flight_def)
  have small: "file_effort ?fs p \<le> 3" "comp_effort ?fs p \<le> 3"
    by (simp_all add: file_effort_def comp_effort_def)
  from push show ?thesis
  proof
    assume "push_file E (Some p) ?fs = Returns fs'"
    then obtain q where q: "queue_push (Sem E) (file_queue fs) (Some p) = Returns q"
      and fs': "fs' = ?fs\<lparr>file_queue := q\<rparr>"
      by (auto simp: push_file_def fields split: outcome.splits)
    have "queue_inv cnt limit (file_queue fs)" "0 < queue_budget (file_queue fs)"
      using inv budget by (auto simp: fs_inv_def)
    note pushed = push_returned [OF laws this q]
    then have queued: "queued q = queued (file_queue fs) @ [p]" by (simp add: queued_snoc)
    have op: "op_of fs' = op_of ?fs" using fs' by (simp add: op_of_def fun_eq_iff)
    have flight: "mset (in_flight fs') = mset (p # in_flight fs)"
      using fs' queued by (simp add: in_flight_def fields)
    have "effort fs' \<le> effort fs + 3"
      using fs' effort_fields [OF op] eff queued small by (simp add: fields effort_def)
    moreover have "distinct (in_flight fs')"
      using mset_eq_imp_distinct_iff [OF flight] inv out by (simp add: fs_inv_def)
    ultimately have "fs_inv cnt limit signalled fs'"
      unfolding fs_inv_def using inv pushed budget heldops mset_eq_setD [OF flight] fs' op fields
      by (auto simp: fs_inv_def)
    with flight pushed fs' show ?thesis by (simp add: fields)
  next
    assume "push_comp E (Some p) ?fs = Returns fs'"
    then obtain q where q: "queue_push (Sem E) (comp_queue fs) (Some p) = Returns q"
      and fs': "fs' = ?fs\<lparr>comp_queue := q\<rparr>"
      by (auto simp: push_comp_def fields split: outcome.splits)
    have "queue_inv cnt limit (comp_queue fs)" "0 < queue_budget (comp_queue fs)"
      using inv budget by (auto simp: fs_inv_def)
    note pushed = push_returned [OF laws this q]
    then have queued: "queued q = queued (comp_queue fs) @ [p]" by (simp add: queued_snoc)
    have op: "op_of fs' = op_of ?fs" using fs' by (simp add: op_of_def fun_eq_iff)
    have flight: "mset (in_flight fs') = mset (p # in_flight fs)"
      using fs' queued by (simp add: in_flight_def fields)
    have "effort fs' \<le> effort fs + 3"
      using fs' effort_fields [OF op] eff queued small by (simp add: fields effort_def)
    moreover have "distinct (in_flight fs')"
      using mset_eq_imp_distinct_iff [OF flight] inv out by (simp add: fs_inv_def)
    ultimately have "fs_inv cnt limit signalled fs'"
      unfolding fs_inv_def using inv pushed budget heldops mset_eq_setD [OF flight] fs' op fields
      by (auto simp: fs_inv_def)
    with flight pushed fs' show ?thesis by (simp add: fields)
  qed
qed

lemma fs_read_inv:
  assumes "semaphore_laws (Sem E) cnt limit" and "fs_inv cnt limit signalled fs"
    and "works fs (New_work E (works fs)) = None"
    and "effort fs + 4 \<le> queue_budget (file_queue fs)" "effort fs + 4 \<le> queue_budget (comp_queue fs)"
    and "fs_read E path heap nt compr fs = Returns (p, fs')"
  shows "fs_inv cnt limit signalled fs' \<and> mset (in_flight fs') = mset (p # in_flight fs) \<and>
    q_size (file_queue fs') = q_size (file_queue fs) \<and> q_size (comp_queue fs') = q_size (comp_queue fs)"
  using assms(6) fs_inv_request [OF assms(1-5)]
  by (fastforce simp: fs_read_def Let_def split: if_splits outcome.splits)

lemma fs_write_inv:
  assumes "semaphore_laws (Sem E) cnt limit" and "fs_inv cnt limit signalled fs"
    and "works fs (New_work E (works fs)) = None"
    and "effort fs + 4 \<le> queue_budget (file_queue fs)" "effort fs + 4 \<le> queue_budget (comp_queue fs)"
    and "fs_write E path buffer sz compr fs = Returns (p, fs')"
  shows "fs_inv cnt limit signalled fs' \<and> mset (in_flight fs') = mset (p # in_flight fs) \<and>
    q_size (file_queue fs') = q_size (file_queue fs) \<and> q_size (comp_queue fs') = q_size (comp_queue fs)"
  using assms(6) fs_inv_request [OF assms(1-5)]
  by (fastforce simp: fs_write_def Let_def split: if_splits outcome.splits)

end
