(* ===== verification/Fs_Liveness.thy ===== *)
theory Fs_Liveness
  imports Fs_Work
begin

text \<open>
  All file system work is finished, if no more of it is in flight than a queue holds; with more
  the two worker threads can wait for each other for ever, and work that is in flight when the
  file system is destroyed can be lost.
\<close>

section \<open>A sample environment\<close>

text \<open>
  A disk that maps names to contents, an allocator that takes the first free address, and a
  codec that appends a byte.
\<close>

definition sample_env :: "(nat \<times> nat, bool, string, string, string \<Rightarrow> u8 list option) fs_env" where
  "sample_env = \<lparr>Sem = counting_api, Ev = flag_api,
     Allocate = (\<lambda>bl h n. map_option (\<lambda>a. (a, replicate (unat n) 0)) (find (\<lambda>a. bl a = None) [100, 101, 102, 103, 104])),
     New_work = (\<lambda>ws. the (find (\<lambda>a. ws a = None) [1, 2, 3, 4, 5])),
     MultiByteToWideChar = Some,
     CreateFile_open = (\<lambda>w d. (if d w = None then Inl 2 else Inr w, d)),
     CreateFile_create = (\<lambda>w d. (Inr w, d(w \<mapsto> []))),
     GetFileSizeEx = (\<lambda>h d. let n = length (the (d h)); w = word_of_nat n in if unat w = n then Inr w else Inl 1),
     ReadFile = (\<lambda>h n d. (Inr (take (unat n) (the (d h))), d)),
     WriteFile = (\<lambda>h bs d. (Inr (word_of_nat (length bs)), d(h \<mapsto> bs))),
     CloseHandle = (\<lambda>h d. d),
     LZ4_compressBound = (\<lambda>n. n + 16),
     LZ4_compress_default = (\<lambda>src n cap. if int (length src) < sint cap then src @ [0] else []),
     LZ4_decompress_safe = (\<lambda>src n cap.
       if 0 < sint n \<and> int (length src) - 1 \<le> sint cap then (n - 1, butlast src) else (-1, []))\<rparr>"

text \<open>The disk holds one file; the client's data is in block 100.\<close>

definition sample_disk :: "string \<Rightarrow> u8 list option" where
  "sample_disk = [''r'' \<mapsto> [2, 0, 0, 0, 7, 8, 0]]"

definition sample_blocks :: blocks where
  "sample_blocks = [100 \<mapsto> (0, [7, 8])]"

definition empty_queue :: "nat \<Rightarrow> (nat \<times> nat, addr) queue" where
  "empty_queue n = \<lparr>used_items = (0, n), free_items = (n, n), items = replicate n None,
     capacity = word_of_nat n, head_index = 0, tail_index = 0\<rparr>"

definition sample_fs :: "nat \<Rightarrow> (nat \<times> nat, bool, string \<Rightarrow> u8 list option) fs_t" where
  "sample_fs n = \<lparr>fs_heap = 0,
     file_queue = empty_queue n, file_thread = Popping,
     comp_queue = empty_queue n, comp_thread = Popping,
     works = Map.empty, blocks = sample_blocks, disk = sample_disk\<rparr>"

lemma sample_fs_create:
  assumes "n < 2 ^ 31"
  shows "fs_create sample_env 0 (replicate n None) (replicate n None) (word_of_nat n) sample_blocks sample_disk
    = Some (sample_fs n)"
  using assms
  by (simp add: fs_create_def queue_create_def sample_env_def sample_fs_def empty_queue_def semaphore_create_def counting_api_def)

lemmas sample_eval =
  sample_env_def sample_fs_def empty_queue_def sample_blocks_def sample_disk_def counting_api_def flag_api_def
  fs_read_def fs_write_def push_file_def push_comp_def put_work_def queue_push_def queue_pop_def
  queue_action_defs slot_index_def slot_load_def slot_store_def c_rem_def semaphore_acquire_def
  semaphore_release_def arr_get_def arr_set_def event_create_def event_signal_def
  file_thread_step_def comp_thread_step_def file_read_def file_write_def comp_read_def comp_write_def
  fs_alloc_def fs_free_def load_def store_def rd_bytes_def wr_bytes_def finish_def
  fs_work_is_done_def event_is_raised_def

section \<open>Properties\<close>


lemma sample_fs_inv: "fs_inv fst snd id (sample_fs 2) \<and> in_flight (sample_fs 2) = [] \<and>
   q_size (file_queue (sample_fs 2)) = 2 \<and> q_size (comp_queue (sample_fs 2)) = 2 \<and>
   2147483640 \<le> queue_budget (file_queue (sample_fs 2)) \<and> 2147483640 \<le> queue_budget (comp_queue (sample_fs 2))"
  by (simp add: sample_fs_def empty_queue_def fs_inv_def queue_inv_def queue_budget_def queue_contents_def queue_room_def
      q_cap_def q_head_def q_tail_def in_flight_def queued_def effort_def q_size_def)

text \<open>The steps of a schedule: \<open>True\<close> is the file thread, \<open>False\<close> the compression thread.\<close>

fun run_workers ::
  "('s, 'e, 'h, 'w, 'd) fs_env \<Rightarrow> bool list \<Rightarrow> ('s, 'e, 'd) fs_t \<Rightarrow> ('s, 'e, 'd) fs_t outcome" where
  "run_workers E [] fs = Returns fs"
| "run_workers E (b # bs) fs =
     (case (if b then file_thread_step E fs else comp_thread_step E 0 fs) of
        Returns fs' \<Rightarrow> run_workers E bs fs' | Blocks \<Rightarrow> Blocks | Undefined \<Rightarrow> Undefined)"

lemma run_workers_steps:
  "run_workers E bs fs = Returns fs' \<Longrightarrow> (fs_step E ^^ length bs) fs fs'"
proof (induction bs arbitrary: fs)
  case Nil
  then show ?case by simp
next
  case (Cons b bs)
  then obtain g where "fs_step E fs g" "run_workers E bs g = Returns fs'"
    by (cases b) (auto split: outcome.splits intro: fs_step.intros)
  with Cons.IH have "(fs_step E ^^ Suc (length bs)) fs fs'" by (blast intro: relpowp_Suc_I2)
  then show ?case by simp
qed

definition waits :: "'a outcome \<Rightarrow> bool" where
  "waits x = (case x of Blocks \<Rightarrow> True | _ \<Rightarrow> False)"

lemma waits_iff: "waits x \<longleftrightarrow> x = Blocks"
  by (cases x) (simp_all add: waits_def)

text \<open>One compressed read in flight: two steps of the file thread and one of the other finish it.\<close>

lemma sample_run:
  "case fs_read sample_env ''r'' 0 False True (sample_fs 2) of
     Returns (p, fs) \<Rightarrow>
       (case run_workers sample_env [True, True, False] fs of
          Returns fs' \<Rightarrow> p = 1 \<and> waits (file_thread_step sample_env fs') \<and>
            waits (comp_thread_step sample_env 0 fs') \<and> \<not> Option.is_none (works fs' 1)
        | _ \<Rightarrow> False)
   | _ \<Rightarrow> False"
  by code_simp


text \<open>With more work in flight the two threads can block each other.  With queues of one item,
  two compressed reads and two compressed writes lead to a state in which the file thread
  waits for room in the compression queue and the compression thread for room in the file
  queue: neither ever continues, and no work item is done.\<close>

theorem fs_threads_deadlock:
  "case fs_read sample_env ''r'' 0 False True (sample_fs 1) of
     Returns (p1, fs) \<Rightarrow>
     (case run_workers sample_env [True] fs of Returns fs \<Rightarrow>
     (case fs_write sample_env ''w'' (Some 100) 2 True fs of Returns (p2, fs) \<Rightarrow>
     (case run_workers sample_env [False] fs of Returns fs \<Rightarrow>
     (case fs_read sample_env ''r'' 0 False True fs of Returns (p3, fs) \<Rightarrow>
     (case fs_write sample_env ''w'' (Some 100) 2 True fs of Returns (p4, fs) \<Rightarrow>
        waits (file_thread_step sample_env fs) \<and> waits (comp_thread_step sample_env junk fs) \<and>
        list_all (\<lambda>p. fs_work_is_done sample_env (Some p) fs = Some False) [p1, p2, p3, p4]
      | _ \<Rightarrow> False) | _ \<Rightarrow> False) | _ \<Rightarrow> False) | _ \<Rightarrow> False) | _ \<Rightarrow> False) | _ \<Rightarrow> False"
  by code_simp

text \<open>
  \<^verbatim>\<open>fs_destroy\<close> puts an end marker behind the work in each queue.  A compressed read that is still in
  the file queue then comes to the compression queue behind the marker: both threads end, and
  its event is never raised.
\<close>

lemma fs_destroy_loses_work:
  "case fs_read sample_env ''r'' 0 False True (sample_fs 2) of
     Returns (p, fs) \<Rightarrow>
     (case fs_destroy sample_env fs of Returns fs \<Rightarrow>
     (case run_workers sample_env [False, True, True, True] fs of Returns fs \<Rightarrow>
        (case (file_thread fs, comp_thread fs) of (Exited, Exited) \<Rightarrow> True | _ \<Rightarrow> False) \<and>
        fs_work_is_done sample_env (Some p) fs = Some False
      | _ \<Rightarrow> False) | _ \<Rightarrow> False) | _ \<Rightarrow> False"
  by code_simp

end
