(* ===== verification/Fs_Roundtrip.thy ===== *)
theory Fs_Roundtrip
  imports Fs_Liveness
begin

text \<open>
  What is written can be read back.  The laws state the documented behaviour of the disk, the
  allocator and LZ4; one lemma per worker function says what it leaves on the disk or in
  memory, and the two round trips (plain and compressed) compose them.
\<close>

section \<open>Laws\<close>

text \<open>\<open>contents\<close> are the files of a disk, \<open>file_of\<close> the file an open handle refers to.\<close>

definition disk_laws ::
  "('s, 'e, 'h, 'w, 'd) fs_env \<Rightarrow> ('d \<Rightarrow> 'w \<Rightarrow> u8 list option) \<Rightarrow> ('d \<Rightarrow> 'h \<Rightarrow> 'w option) \<Rightarrow> bool" where
  "disk_laws E contents file_of \<longleftrightarrow>
     (\<forall>w d h d'. CreateFile_create E w d = (Inr h, d') \<longrightarrow>
        contents d' = (contents d)(w \<mapsto> []) \<and> file_of d' h = Some w) \<and>
     (\<forall>w d h d'. CreateFile_open E w d = (Inr h, d') \<longrightarrow>
        contents d' = contents d \<and> file_of d' h = Some w \<and> contents d w \<noteq> None) \<and>
     (\<forall>w d h bs n. file_of d h = Some w \<longrightarrow> contents d w = Some bs \<longrightarrow> GetFileSizeEx E h d = Inr n \<longrightarrow>
        unat n = length bs) \<and>
     (\<forall>w d h bs n out d'. file_of d h = Some w \<longrightarrow> contents d w = Some bs \<longrightarrow>
        ReadFile E h n d = (Inr out, d') \<longrightarrow> out = take (unat n) bs \<and> contents d' = contents d) \<and>
     (\<forall>w d h bs n d'. file_of d h = Some w \<longrightarrow> contents d w = Some [] \<longrightarrow> length bs < 2 ^ 32 \<longrightarrow>
        WriteFile E h bs d = (Inr n, d') \<longrightarrow> unat n = length bs \<and> contents d' = (contents d)(w \<mapsto> bs)) \<and>
     (\<forall>h d. contents (CloseHandle E h d) = contents d) \<and>
     (\<forall>w d e d'. CreateFile_create E w d = (Inl e, d') \<longrightarrow> e \<noteq> 0) \<and>
     (\<forall>w d e d'. CreateFile_open E w d = (Inl e, d') \<longrightarrow> e \<noteq> 0) \<and>
     (\<forall>h d e. GetFileSizeEx E h d = Inl e \<longrightarrow> e \<noteq> 0) \<and>
     (\<forall>h n d e d'. ReadFile E h n d = (Inl e, d') \<longrightarrow> e \<noteq> 0) \<and>
     (\<forall>h bs d e d'. WriteFile E h bs d = (Inl e, d') \<longrightarrow> e \<noteq> 0)"

lemma disk_lawsD:
  assumes "disk_laws E contents file_of"
  shows disk_create: "CreateFile_create E w d = (Inr h, d') \<Longrightarrow> contents d' = (contents d)(w \<mapsto> []) \<and> file_of d' h = Some w"
    and disk_open: "CreateFile_open E w d = (Inr h, d') \<Longrightarrow> contents d' = contents d \<and> file_of d' h = Some w"
    and disk_size: "file_of d h = Some w \<Longrightarrow> contents d w = Some bs \<Longrightarrow> GetFileSizeEx E h d = Inr sz \<Longrightarrow> unat sz = length bs"
    and disk_read: "file_of d h = Some w \<Longrightarrow> contents d w = Some bs \<Longrightarrow> ReadFile E h n d = (Inr bytes, d') \<Longrightarrow>
      bytes = take (unat n) bs \<and> contents d' = contents d"
    and disk_write: "file_of d h = Some w \<Longrightarrow> contents d w = Some [] \<Longrightarrow> length bs < 2 ^ 32 \<Longrightarrow>
      WriteFile E h bs d = (Inr m, d') \<Longrightarrow> contents d' = (contents d)(w \<mapsto> bs)"
    and disk_close: "contents (CloseHandle E h d) = contents d"
    and disk_failed: "CreateFile_create E w d = (Inl e, d') \<Longrightarrow> e \<noteq> 0"
      "CreateFile_open E w d = (Inl e, d') \<Longrightarrow> e \<noteq> 0"
      "GetFileSizeEx E h d = Inl e \<Longrightarrow> e \<noteq> 0"
      "ReadFile E h n d = (Inl e, d') \<Longrightarrow> e \<noteq> 0"
      "WriteFile E h bs d = (Inl e, d') \<Longrightarrow> e \<noteq> 0"
proof -
  note c = assms [unfolded disk_laws_def]
  show "CreateFile_create E w d = (Inr h, d') \<Longrightarrow> contents d' = (contents d)(w \<mapsto> []) \<and> file_of d' h = Some w"
    by (rule c [THEN conjunct1, rule_format])
  show "CreateFile_open E w d = (Inr h, d') \<Longrightarrow> contents d' = contents d \<and> file_of d' h = Some w"
    using c [THEN conjunct2, THEN conjunct1, rule_format] by blast
  show "file_of d h = Some w \<Longrightarrow> contents d w = Some bs \<Longrightarrow> GetFileSizeEx E h d = Inr sz \<Longrightarrow> unat sz = length bs"
    by (rule c [THEN conjunct2, THEN conjunct2, THEN conjunct1, rule_format])
  show "file_of d h = Some w \<Longrightarrow> contents d w = Some bs \<Longrightarrow> ReadFile E h n d = (Inr bytes, d') \<Longrightarrow>
      bytes = take (unat n) bs \<and> contents d' = contents d"
    by (rule c [THEN conjunct2, THEN conjunct2, THEN conjunct2, THEN conjunct1, rule_format])
  show "file_of d h = Some w \<Longrightarrow> contents d w = Some [] \<Longrightarrow> length bs < 2 ^ 32 \<Longrightarrow>
      WriteFile E h bs d = (Inr m, d') \<Longrightarrow> contents d' = (contents d)(w \<mapsto> bs)"
    using c [THEN conjunct2, THEN conjunct2, THEN conjunct2, THEN conjunct2, THEN conjunct1, rule_format] by blast
  show "contents (CloseHandle E h d) = contents d"
    by (rule c [THEN conjunct2, THEN conjunct2, THEN conjunct2, THEN conjunct2, THEN conjunct2, THEN conjunct1, rule_format])
  show "CreateFile_create E w d = (Inl e, d') \<Longrightarrow> e \<noteq> 0"
    by (rule c [THEN conjunct2, THEN conjunct2, THEN conjunct2, THEN conjunct2, THEN conjunct2, THEN conjunct2, THEN conjunct1, rule_format])
  show "CreateFile_open E w d = (Inl e, d') \<Longrightarrow> e \<noteq> 0"
    by (rule c [THEN conjunct2, THEN conjunct2, THEN conjunct2, THEN conjunct2, THEN conjunct2, THEN conjunct2, THEN conjunct2, THEN conjunct1, rule_format])
  show "GetFileSizeEx E h d = Inl e \<Longrightarrow> e \<noteq> 0"
    by (rule c [THEN conjunct2, THEN conjunct2, THEN conjunct2, THEN conjunct2, THEN conjunct2, THEN conjunct2, THEN conjunct2, THEN conjunct2, THEN conjunct1, rule_format])
  show "ReadFile E h n d = (Inl e, d') \<Longrightarrow> e \<noteq> 0"
    by (rule c [THEN conjunct2, THEN conjunct2, THEN conjunct2, THEN conjunct2, THEN conjunct2, THEN conjunct2, THEN conjunct2, THEN conjunct2, THEN conjunct2, THEN conjunct1, rule_format])
  show "WriteFile E h bs d = (Inl e, d') \<Longrightarrow> e \<noteq> 0"
    by (rule c [THEN conjunct2, THEN conjunct2, THEN conjunct2, THEN conjunct2, THEN conjunct2, THEN conjunct2, THEN conjunct2, THEN conjunct2, THEN conjunct2, THEN conjunct2, rule_format])
qed

text \<open>
  The heaps have memory for anything below a terabyte, but not for half of the address space; a
  new block is new and as long as asked for.
\<close>

definition alloc_laws :: "('s, 'e, 'h, 'w, 'd) fs_env \<Rightarrow> bool" where
  "alloc_laws E \<longleftrightarrow>
     (\<forall>bl h n. finite (dom bl) \<longrightarrow> unat n < 2 ^ 40 \<longrightarrow>
        (\<exists>p bytes. Allocate E bl h n = Some (p, bytes) \<and> bl p = None \<and> length bytes = unat n)) \<and>
     (\<forall>bl h n. 2 ^ 63 \<le> unat n \<longrightarrow> Allocate E bl h n = None)"

text \<open>
  LZ4: a buffer of \<^verbatim>\<open>LZ4_compressBound\<close> bytes always suffices; a block decompresses to the data when
  the buffer is large enough, and otherwise the result is negative.
\<close>

definition lz4_laws :: "('s, 'e, 'h, 'w, 'd) fs_env \<Rightarrow> bool" where
  "lz4_laws E \<longleftrightarrow>
     (\<forall>src. length src \<le> 0x7E000000 \<longrightarrow>
        (let n = word_of_nat (length src); out = LZ4_compress_default E src n (LZ4_compressBound E n) in
         int (length src) + 16 \<le> sint (LZ4_compressBound E n) \<and> out \<noteq> [] \<and>
         int (length out) \<le> sint (LZ4_compressBound E n) \<and> length out + 4 < 2 ^ 31 \<and>
         (\<forall>cap. if int (length src) \<le> sint cap
            then LZ4_decompress_safe E out (word_of_nat (length out)) cap = (n, src)
            else \<exists>r part. LZ4_decompress_safe E out (word_of_nat (length out)) cap = (r, part) \<and>
                   sint r < 0 \<and> int (length part) \<le> max 0 (sint cap))))"

lemma alloc_laws_alloc:
  assumes "alloc_laws E" and "finite (dom (blocks fs))" and "unat n < 2 ^ 40"
  obtains p bytes where "fs_alloc E h n fs = (Some p, fs\<lparr>blocks := (blocks fs)(p \<mapsto> (h, bytes))\<rparr>)"
    and "blocks fs p = None" and "length bytes = unat n"
proof -
  from assms obtain p bytes where "Allocate E (blocks fs) h n = Some (p, bytes)"
    "blocks fs p = None" "length bytes = unat n"
    unfolding alloc_laws_def by blast
  then show thesis by (intro that [of p bytes]) (simp_all add: fs_alloc_def)
qed

section \<open>Writing and reading a file\<close>

text \<open>The disk after a successful write.\<close>

lemma file_write_image:
  assumes laws: "disk_laws E contents file_of"
    and work: "works fs p = Some wk" and path: "MultiByteToWideChar E (w_path wk) = Some w"
    and data: "load (w_buffer wk) 0 (length data) fs = Some data"
    and sz: "unat (w_size wk) = length data" "length data < 2 ^ 32"
    and wr: "file_write E p fs = Some fs'" and res: "\<exists>wk'. works fs' p = Some wk' \<and> w_result wk' = 0"
  shows "contents (disk fs') = (contents (disk fs))(w \<mapsto> data)"
proof -
  obtain r d where create: "CreateFile_create E w (disk fs) = (r, d)" by force
  have n: "unat (ucast (w_size wk) :: u32) = length data"
    using sz by (simp add: unsigned_ucast_eq take_bit_nat_eq_self_iff)
  show ?thesis
  proof (cases r)
    case (Inl e)
    with disk_failed(1) [OF laws] create have "e \<noteq> 0" by simp
    with wr work path create Inl res show ?thesis
      by (auto simp: file_write_def finish_def put_work_def)
  next
    case (Inr h)
    with disk_create [OF laws] create have d: "contents d = (contents (disk fs))(w \<mapsto> [])" "file_of d h = Some w"
      by simp_all
    obtain r2 d2 where wf: "WriteFile E h data d = (r2, d2)" by force
    show ?thesis
    proof (cases r2)
      case (Inl e)
      with disk_failed(5) [OF laws] wf have "e \<noteq> 0" by simp
      with wr work path create Inr data n wf Inl res show ?thesis
        by (auto simp: file_write_def finish_def put_work_def)
    next
      case (Inr m)
      with disk_write [OF laws d(2) _ sz(2)] d wf have "contents d2 = (contents d)(w \<mapsto> data)" by simp
      with disk_close [OF laws] wr work path create \<open>r = Inr h\<close> data n wf Inr d show ?thesis
        by (auto simp: file_write_def finish_def put_work_def)
    qed
  qed
qed

text \<open>The memory after a read: the work is finished or handed over, and on success its buffer holds the file.\<close>

definition read_ok :: "addr \<Rightarrow> 'e fs_work_t \<Rightarrow> u8 list \<Rightarrow> bool \<Rightarrow> ('s, 'e, 'd) fs_t \<Rightarrow> bool" where
  "read_ok p wk data nul fs \<longleftrightarrow>
     (\<exists>a ev. works fs p = Some (wk\<lparr>w_buffer := Some a, w_size := word_of_nat (length data), w_done := ev\<rparr>) \<and>
       blocks fs a = Some (w_heap wk, data @ (if nul then [0] else [])))"

lemma file_read_image:
  assumes laws: "disk_laws E contents file_of" "alloc_laws E" and fin: "finite (dom (blocks fs))"
    and work: "works fs p = Some wk" and path: "MultiByteToWideChar E (w_path wk) = Some w"
    and data: "contents (disk fs) w = Some data" "length data < 2 ^ 32 - 1"
  shows "\<exists>hand fs' wk'. file_read E p fs = Some (hand, fs') \<and> works fs' p = Some wk' \<and> fs_heap fs' = fs_heap fs \<and>
    finite (dom (blocks fs')) \<and> (hand \<longrightarrow> w_result wk' = w_result wk) \<and>
    (w_result wk' = 0 \<longrightarrow> w_result wk = 0 \<longrightarrow> hand = w_use_compression wk \<and> read_ok p wk data (w_null_terminate wk) fs')"
proof -
  note failed = disk_failed [OF laws(1)]
  obtain r d where opened: "CreateFile_open E w (disk fs) = (r, d)" by force
  show ?thesis
  proof (cases r)
    case (Inl e)
    with failed opened work path fin show ?thesis
      by (simp add: file_read_def finish_def put_work_def) blast
  next
    case (Inr h)
    with disk_open [OF laws(1)] opened have d: "contents d = contents (disk fs)" "file_of d h = Some w"
      by simp_all
    with data have dw: "contents d w = Some data" by simp
    show ?thesis
    proof (cases "GetFileSizeEx E h d")
      case (Inl e)
      with failed work path opened Inr fin show ?thesis
        by (simp add: file_read_def finish_def put_work_def) blast
    next
      case (Inr sz)
      with disk_size [OF laws(1) d(2) dw] have sz: "unat sz = length data" by simp
      let ?n = "if w_null_terminate wk then sz + 1 else sz"
      have n: "unat ?n = length data + (if w_null_terminate wk then 1 else 0)"
        using sz data(2) by (simp add: unat_plus_if_size word_size)
      have cut: "unat (ucast sz :: u32) = length data"
        using sz data(2) by (simp add: unsigned_ucast_eq take_bit_nat_eq_self_iff)
      obtain a bytes where alloc: "fs_alloc E (w_heap wk) ?n (fs\<lparr>disk := d\<rparr>) =
          (Some a, fs\<lparr>disk := d, blocks := (blocks fs)(a \<mapsto> (w_heap wk, bytes))\<rparr>)"
        and len: "length bytes = unat ?n"
        using data(2) n fin
        by (rule_tac alloc_laws_alloc [OF laws(2), of "fs\<lparr>disk := d\<rparr>" ?n "w_heap wk"]) (simp_all split: if_splits)
      obtain r2 d2 where rd: "ReadFile E h (ucast sz) d = (r2, d2)" by force
      show ?thesis
      proof (cases r2)
        case (Inl e)
        with failed(4) rd work path opened \<open>r = Inr h\<close> Inr alloc fin show ?thesis
          by (simp add: file_read_def finish_def put_work_def Let_def) blast
      next
        case (Inr bytes')
        with disk_read [OF laws(1) d(2) dw, of "ucast sz" bytes' d2] rd cut have out: "bytes' = data" by simp
        let ?g = "fs\<lparr>disk := d, blocks := (blocks fs)(a \<mapsto> (w_heap wk, bytes))\<rparr>"
        let ?g' = "fs\<lparr>disk := d, blocks := (blocks fs)(a \<mapsto> (w_heap wk, data @ (if w_null_terminate wk then [0] else [])))\<rparr>"
        have "\<exists>g1. store (Some a) 0 data ?g = Some g1 \<and>
            (if w_null_terminate wk then store (Some a) (length data) [0] g1 else Some g1) = Some ?g'"
          using len n by (cases "data = []") (auto simp: store_def wr_bytes_def length_Suc_conv)
        then obtain g1 where "store (Some a) 0 data ?g = Some g1"
          "(if w_null_terminate wk then store (Some a) (length data) [0] g1 else Some g1) = Some ?g'" by blast
        note eq = this work path opened \<open>r = Inr h\<close> \<open>GetFileSizeEx E h d = Inr sz\<close> alloc rd Inr out
        define ev where "ev = (if w_use_compression wk then w_done wk else event_signal (Ev E) (w_done wk))"
        define wk' where "wk' = wk\<lparr>w_buffer := Some a, w_size := word_of_nat (length data), w_done := ev\<rparr>"
        define f where "f = put_work p wk' (?g'\<lparr>disk := CloseHandle E h d2\<rparr>)"
        have "file_read E p fs = Some (w_use_compression wk, f)"
          using eq by (cases "w_use_compression wk")
            (simp_all add: file_read_def finish_def Let_def f_def wk'_def ev_def)
        moreover have "works f p = Some wk'" "fs_heap f = fs_heap fs" "w_result wk' = w_result wk" "finite (dom (blocks f))"
          using fin by (simp_all add: f_def put_work_def wk'_def)
        moreover from this have "read_ok p wk data (w_null_terminate wk) f"
          unfolding read_ok_def by (intro exI [of _ a] exI [of _ ev]) (simp add: f_def wk'_def put_work_def)
        ultimately show ?thesis by blast
      qed
    qed
  qed
qed

section \<open>Compression\<close>

text \<open>What a compressed file holds: four bytes for the size, of which only the lowest is right, and the block.\<close>

definition fs_image :: "('s, 'e, 'h, 'w, 'd) fs_env \<Rightarrow> u8 list \<Rightarrow> u8 list" where
  "fs_image E data =
     (let n = word_of_nat (length data) :: c_int
      in le32_bytes (scast (ucast n :: u8)) @ LZ4_compress_default E data n (LZ4_compressBound E n))"

text \<open>The size of the buffer a compressed file of \<open>n\<close> bytes is read into.\<close>

definition junk_size :: "c_int \<Rightarrow> nat \<Rightarrow> c_int" where
  "junk_size junk n = (junk AND NOT 0xFF) OR ucast (word_of_nat n :: u8)"

lemma lz4_lawsD:
  assumes "lz4_laws E" and "length data \<le> 0x7E000000"
  defines "n \<equiv> word_of_nat (length data)"
  defines "compressed \<equiv> LZ4_compress_default E data n (LZ4_compressBound E n)"
  shows "int (length data) + 16 \<le> sint (LZ4_compressBound E n)" and "compressed \<noteq> []"
    and "int (length compressed) \<le> sint (LZ4_compressBound E n)" and "length compressed + 4 < 2 ^ 31"
    and "int (length data) \<le> sint cap \<Longrightarrow>
      LZ4_decompress_safe E compressed (word_of_nat (length compressed)) cap = (n, data)"
    and "sint cap < int (length data) \<Longrightarrow>
      \<exists>r part. LZ4_decompress_safe E compressed (word_of_nat (length compressed)) cap = (r, part) \<and>
        sint r < 0 \<and> int (length part) \<le> max 0 (sint cap)"
  using assms(1) [unfolded lz4_laws_def Let_def, rule_format, OF assms(2)]
  unfolding n_def compressed_def by (auto split: if_splits)

lemma sint32_bounds: "- (2 ^ 31) \<le> sint (c :: c_int) \<and> sint c < 2 ^ 31"
  using sint_ge [of c] sint_lt [of c] by simp

lemma uint_scast64: "uint (scast (c :: c_int) :: u64) = sint c mod 2 ^ 64"
  by (simp only: scast_eq take_bit_eq_mod unsigned_of_int) simp

lemma unat_scast_nonneg:
  assumes "0 \<le> sint (c :: c_int)"
  shows "unat (scast c :: u64) = nat (sint c)"
  using assms sint32_bounds [of c] by (simp add: unat_eq_nat_uint uint_scast64)

lemma unat_scast_neg:
  assumes "sint (c :: c_int) < 0"
  shows "2 ^ 63 \<le> unat (scast c :: u64)" and "sint (scast c :: u64) < 0"
proof -
  have "(sint c + 2 ^ 64) mod 2 ^ 64 = sint c + 2 ^ 64"
    by (rule mod_pos_pos_trivial) (use assms sint32_bounds [of c] in simp_all)
  then have m: "sint c mod 2 ^ 64 = sint c + 2 ^ 64" by (simp only: mod_add_self2)
  have "2 ^ 63 \<le> uint (scast c :: u64)"
    unfolding uint_scast64 m using sint32_bounds [of c] by simp
  from nat_mono [OF this] show "2 ^ 63 \<le> unat (scast c :: u64)" by simp
  have "sint (scast c :: u64) = sint c"
    unfolding scast_eq signed_of_int of_int_eq_id id_apply
    using sint32_bounds [of c] by (intro signed_take_bit_int_eq_self) simp_all
  with assms show "sint (scast c :: u64) < 0" by simp
qed

lemma small_int:
  assumes "n < 2 ^ 31"
  shows "sint (word_of_nat n :: c_int) = int n" and "unat (scast (word_of_nat n :: c_int) :: u64) = n"
    and "unat (word_of_nat n :: u64) = n"
proof -
  show "sint (word_of_nat n :: c_int) = int n" using sint_small [OF assms] .
  then show "unat (scast (word_of_nat n :: c_int) :: u64) = n"
    using unat_scast_nonneg [of "word_of_nat n"] by simp
  show "unat (word_of_nat n :: u64) = n"
    using assms by (simp add: unat_of_nat take_bit_nat_eq_self_iff)
qed

lemma ucast_small: "unat w = n \<Longrightarrow> ucast (w :: u64) = (word_of_nat n :: c_int)"
  by (simp add: word_unat_eq_iff unsigned_ucast_eq unsigned_of_nat)

lemma load_other:
  "load p off n fs = Some bs \<Longrightarrow> blocks fs a = None \<Longrightarrow>
   load p off n (fs\<lparr>blocks := (blocks fs)(a \<mapsto> y)\<rparr>) = Some bs"
  by (auto simp: load_def bind_eq_Some_conv split: if_splits)

lemma store_block:
  assumes "blocks fs a = Some (h, bytes)" and "off + length bs \<le> length bytes"
  shows "store (Some a) off bs fs =
    Some (fs\<lparr>blocks := (blocks fs)(a \<mapsto> (h, take off bytes @ bs @ drop (off + length bs) bytes))\<rparr>)"
proof (cases "bs = []")
  case True
  then have "blocks fs = (blocks fs)(a \<mapsto> (h, take off bytes @ bs @ drop (off + length bs) bytes))"
    using assms(1) by auto
  with True show ?thesis by (simp add: store_def)
next
  case False
  with assms show ?thesis by (simp add: store_def wr_bytes_def)
qed

lemma load_block:
  "blocks fs a = Some (h, bs @ rest) \<Longrightarrow> load (Some a) 0 (length bs) fs = Some bs"
  by (simp add: load_def rd_bytes_def)

text \<open>Compression replaces the buffer of the work by the image of the file.\<close>

lemma size_byte:
  "le32_bytes (ucast (scast (ucast (w :: u64) :: u8) :: u64)) = le32_bytes (scast (ucast (ucast w :: c_int) :: u8))"
proof -
  have "ucast (scast (ucast w :: u8) :: u64) = (scast (ucast (ucast w :: c_int) :: u8) :: u32)"
    by (rule bit_word_eqI) (auto simp: bit_simps)
  then show ?thesis by simp
qed

lemma comp_write_image:
  assumes laws: "alloc_laws E" "lz4_laws E" and fin: "finite (dom (blocks fs))"
    and work: "works fs p = Some wk" and data: "load (w_buffer wk) 0 (length data) fs = Some data"
    and sz: "unat (w_size wk) = length data" "length data \<le> 0x7E000000"
  shows "\<exists>fs' a. comp_write E p fs = Some fs' \<and> disk fs' = disk fs \<and> fs_heap fs' = fs_heap fs \<and>
    works fs' p = Some (wk\<lparr>w_size := word_of_nat (length (fs_image E data)), w_buffer := Some a\<rparr>) \<and>
    load (Some a) 0 (length (fs_image E data)) fs' = Some (fs_image E data)"
proof -
  let ?n = "word_of_nat (length data) :: c_int"
  let ?b = "LZ4_compressBound E ?n"
  let ?out = "LZ4_compress_default E data ?n ?b"
  let ?v = "scast (ucast (w_size wk) :: u8) :: u64"
  note lz = lz4_lawsD [OF laws(2) sz(2)]
  have n: "ucast (w_size wk) = ?n" using ucast_small [OF sz(1)] .
  have src: "nat (sint ?n) = length data" "\<not> sint ?n < 0"
    using small_int(1) [of "length data"] sz(2) by simp_all
  have bound: "unat (scast ?b + 4 :: u64) = nat (sint ?b) + 4" "nat (sint ?b) < 2 ^ 31" "16 \<le> nat (sint ?b)"
    using lz(1) sint32_bounds [of ?b] unat_scast_nonneg [of ?b]
    by (simp_all add: unat_plus_if_size word_size)
  obtain a bytes where alloc: "fs_alloc E (fs_heap fs) (scast ?b + 4) fs =
      (Some a, fs\<lparr>blocks := (blocks fs)(a \<mapsto> (fs_heap fs, bytes))\<rparr>)"
    and fresh: "blocks fs a = None" and len: "length bytes = nat (sint ?b) + 4"
    using bound by (rule_tac alloc_laws_alloc [OF laws(1) fin, of "scast ?b + 4" "fs_heap fs"]) simp_all
  let ?blk = "\<lambda>bs. fs\<lparr>blocks := (blocks fs)(a \<mapsto> (fs_heap fs, bs))\<rparr>"
  have st1: "store (Some a) 0 (le64_bytes ?v) (?blk bytes) = Some (?blk (le64_bytes ?v @ drop 8 bytes))"
    using store_block [of "?blk bytes" a "fs_heap fs" bytes 0 "le64_bytes ?v"] len bound
    by (simp add: le64_bytes_def)
  have outlen: "length ?out \<le> nat (sint ?b)" using lz(3) by linarith
  have "take 4 (le64_bytes ?v @ drop 8 bytes) = le32_bytes (scast (ucast ?n :: u8))"
    using size_byte [of "w_size wk"] n by (simp add: le64_bytes_def)
  then have st2: "\<exists>rest. store (Some a) 4 ?out (?blk (le64_bytes ?v @ drop 8 bytes)) = Some (?blk (fs_image E data @ rest))"
    using store_block [of "?blk (le64_bytes ?v @ drop 8 bytes)" a "fs_heap fs" "le64_bytes ?v @ drop 8 bytes" 4 ?out]
      len outlen bound by (simp add: fs_image_def Let_def le64_bytes_def del: append_assoc) (metis append_assoc)
  then obtain rest where st2: "store (Some a) 4 ?out (?blk (le64_bytes ?v @ drop 8 bytes)) = Some (?blk (fs_image E data @ rest))"
    by blast
  have comp_size: "scast (word_of_nat (length ?out) + 4 :: c_int) = (word_of_nat (length (fs_image E data)) :: u64)"
    using small_int(2) [of "length ?out + 4"] small_int(3) [of "length ?out + 4"] lz(4)
    by (simp add: word_unat_eq_iff fs_image_def Let_def add.commute)
  have "comp_write E p fs = Some (put_work p
      (wk\<lparr>w_size := word_of_nat (length (fs_image E data)), w_buffer := Some a\<rparr>) (?blk (fs_image E data @ rest)))"
    using work n alloc st1 st2 src load_other [OF data fresh] comp_size
    by (simp add: comp_write_def Let_def)
  moreover have "load (Some a) 0 (length (fs_image E data)) (put_work p
      (wk\<lparr>w_size := word_of_nat (length (fs_image E data)), w_buffer := Some a\<rparr>) (?blk (fs_image E data @ rest)))
      = Some (fs_image E data)"
    by (rule load_block) (simp add: put_work_def)
  ultimately show ?thesis
    by (intro exI [of _ "put_work p (wk\<lparr>w_size := word_of_nat (length (fs_image E data)), w_buffer := Some a\<rparr>)
        (?blk (fs_image E data @ rest))"] exI [of _ a]) (simp add: put_work_def)
qed

lemma fs_image_front:
  "load (Some a) 0 1 fs = Some [word_of_nat (length data)]"
  if "blocks fs a = Some (h, fs_image E data @ rest)"
proof -
  have "ucast (scast (ucast (word_of_nat k :: c_int) :: u8) :: u32) = (word_of_nat k :: u8)" for k
    by (rule bit_word_eqI) (auto simp: bit_simps)
  with that show ?thesis
    by (simp add: load_def rd_bytes_def fs_image_def Let_def le32_bytes_def)
qed

text \<open>
  Decompression: it leaves the data when the buffer is large enough, a negative size when it is
  not, and with a terminator a write outside the buffer in all but the roomy case.
\<close>

lemma comp_read_image:
  fixes junk :: c_int
  assumes laws: "alloc_laws E" "lz4_laws E" and fin: "finite (dom (blocks fs))"
    and work: "works fs q = Some rd" "w_buffer rd = Some a" "w_size rd = word_of_nat (length (fs_image E data))"
    and blk: "blocks fs a = Some (fs_heap fs, fs_image E data @ rest)"
    and sz: "length data \<le> 0x7E000000"
  defines "cap \<equiv> sint (junk_size junk (length data))" and "nul \<equiv> if w_null_terminate rd then [0] else []"
  shows "if w_null_terminate rd \<and> cap \<le> int (length data) then comp_read E junk q fs = None
    else \<exists>fs' rd'. comp_read E junk q fs = Some fs' \<and> works fs' q = Some rd' \<and> w_result rd' = w_result rd \<and>
      (if cap < int (length data) then sint (w_size rd') < 0
       else unat (w_size rd') = length data \<and>
         load (w_buffer rd') 0 (length (data @ nul)) fs' = Some (data @ nul))"
proof -
  let ?n = "word_of_nat (length data) :: c_int"
  let ?out = "LZ4_compress_default E data ?n (LZ4_compressBound E ?n)"
  let ?cap = "junk_size junk (length data)"
  note lz = lz4_lawsD [OF laws(2) sz]
  have image: "fs_image E data = take 4 (fs_image E data) @ ?out" "length (fs_image E data) = 4 + length ?out"
    by (simp_all add: fs_image_def Let_def)
  have front: "load (w_buffer rd) 0 1 fs = Some [word_of_nat (length data)]"
    using fs_image_front [OF blk] work(2) by simp
  have "unat (w_size rd) = 4 + length ?out"
    using small_int(3) [of "4 + length ?out"] lz(4) work(3) image(2) by simp
  from ucast_small [OF this] have src_size: "ucast (w_size rd) - 4 = (word_of_nat (length ?out) :: c_int)" by simp
  have nsrc: "nat (sint (word_of_nat (length ?out) :: c_int)) = length ?out" "\<not> sint (word_of_nat (length ?out) :: c_int) < 0"
    using small_int(1) [of "length ?out"] lz(4) by simp_all
  have src: "load (w_buffer rd) 4 (length ?out) fs = Some ?out"
    using blk work(2) by (simp add: load_def rd_bytes_def fs_image_def Let_def)
  have junk: "(junk AND NOT 0xFF) OR ucast ([word_of_nat (length data) :: u8] ! 0) = ?cap"
    by (simp add: junk_size_def)
  note start = work(1) front src_size nsrc junk
  have null: "scast ?n = (word_of_nat (length data) :: u64)" "unat (word_of_nat (length data) :: u64) = length data"
    using small_int(2,3) [of "length data"] sz by (simp_all add: word_unat_eq_iff)
  show ?thesis
  proof (cases "cap < 0")
    case True
    then have "fs_alloc E (fs_heap fs) (scast ?cap) fs = (None, fs)"
      using laws(1) unat_scast_neg(1) [of ?cap] by (simp add: fs_alloc_def alloc_laws_def cap_def)
    moreover obtain r where "LZ4_decompress_safe E ?out (word_of_nat (length ?out)) ?cap = (r, [])" "sint r < 0"
      using lz(6) [of ?cap] True unfolding cap_def by fastforce
    ultimately show ?thesis
      using start src unat_scast_neg(2) [of r] True blk work(2)
      by (auto simp: comp_read_def Let_def store_def fs_free_def finish_def put_work_def nul_def)
  next
    case False
    obtain b bytes where alloc: "fs_alloc E (fs_heap fs) (scast ?cap) fs =
        (Some b, fs\<lparr>blocks := (blocks fs)(b \<mapsto> (fs_heap fs, bytes))\<rparr>)"
      and fresh: "blocks fs b = None" and len: "length bytes = nat cap"
      using False unat_scast_nonneg [of ?cap] sint32_bounds [of ?cap] unfolding cap_def
      by (rule_tac alloc_laws_alloc [OF laws(1) fin, of "scast ?cap" "fs_heap fs"]) simp_all
    have ba: "b \<noteq> a" using fresh blk by auto
    let ?blk = "\<lambda>bs. fs\<lparr>blocks := (blocks fs)(b \<mapsto> (fs_heap fs, bs))\<rparr>"
    let ?fin = "\<lambda>bs. fs\<lparr>blocks := (blocks fs)(b \<mapsto> (fs_heap fs, bs), a := None)\<rparr>"
    have free: "fs_free (fs_heap (?blk bs)) (w_buffer rd) (?blk bs) = Some (?fin bs)" for bs
      using ba blk work(2) by (simp add: fs_free_def)
    note src' = load_other [OF src fresh, of "(fs_heap fs, bytes)"]
    show ?thesis
    proof (cases "cap < int (length data)")
      case True
      obtain r part where dec: "LZ4_decompress_safe E ?out (word_of_nat (length ?out)) ?cap = (r, part)"
        and r: "sint r < 0" and part: "length part \<le> nat cap"
        using lz(6) [of ?cap] True False unfolding cap_def by fastforce
      have st: "store (Some b) 0 part (?blk bytes) = Some (?blk (part @ drop (length part) bytes))"
        using store_block [of "?blk bytes" b "fs_heap fs" bytes 0 part] part len by simp
      have "2 ^ 31 \<le> unat (scast r :: u64)" using unat_scast_neg(1) [OF r] by simp
      then have bad: "store (Some b) (unat (scast r :: u64)) [0] (?fin (part @ drop (length part) bytes)) = None"
        using ba part len sint32_bounds [of ?cap]
        by (auto simp: store_def wr_bytes_def cap_def)
      show ?thesis
        using start src' alloc dec st free bad True unat_scast_neg(2) [OF r]
        by (auto simp: comp_read_def Let_def finish_def put_work_def)
    next
      case enough: False
      have dec: "LZ4_decompress_safe E ?out (word_of_nat (length ?out)) ?cap = (?n, data)"
        using lz(5) [of ?cap] enough unfolding cap_def by simp
      have st: "store (Some b) 0 data (?blk bytes) = Some (?blk (data @ drop (length data) bytes))"
        using store_block [of "?blk bytes" b "fs_heap fs" bytes 0 data] enough len by simp
      have rest: "length (drop (length data) bytes) = nat cap - length data" using len by simp
      show ?thesis
      proof (cases "w_null_terminate rd \<and> cap \<le> int (length data)")
        case True
        then have "nat cap - length data = 0" by auto
        with rest have "store (Some b) (length data) [0] (?fin (data @ drop (length data) bytes)) = None"
          using ba by (simp add: store_def wr_bytes_def)
        with True show ?thesis
          using start src' alloc dec st free null
          by (simp add: comp_read_def Let_def)
      next
        case False
        have "\<exists>rest'. (if w_null_terminate rd then store (Some b) (length data) [0] (?fin (data @ drop (length data) bytes))
            else Some (?fin (data @ drop (length data) bytes))) = Some (?fin ((data @ nul) @ rest'))"
        proof (cases "w_null_terminate rd")
          case True
          with False rest store_block [of "?fin (data @ drop (length data) bytes)" b "fs_heap fs" "data @ drop (length data) bytes" "length data" "[0]"] ba
          show ?thesis by (auto simp: nul_def fun_upd_twist)
        next
          case False
          then show ?thesis by (intro exI [of _ "drop (length data) bytes"]) (simp add: nul_def)
        qed
        then obtain rest' where st2: "(if w_null_terminate rd then store (Some b) (length data) [0] (?fin (data @ drop (length data) bytes))
            else Some (?fin (data @ drop (length data) bytes))) = Some (?fin ((data @ nul) @ rest'))" by blast
        let ?rd = "rd\<lparr>w_size := word_of_nat (length data), w_buffer := Some b,
          w_done := event_signal (Ev E) (w_done rd)\<rparr>"
        have "comp_read E junk q fs = Some (put_work q ?rd (?fin ((data @ nul) @ rest')))"
          using start src' alloc dec st free null st2
          by (cases "w_null_terminate rd") (simp_all add: comp_read_def Let_def finish_def)
        moreover have "load (Some b) 0 (length (data @ nul)) (put_work q ?rd (?fin ((data @ nul) @ rest'))) = Some (data @ nul)"
          using ba by (intro load_block [of _ _ "fs_heap fs" _ rest']) (simp add: put_work_def)
        ultimately show ?thesis
          using False enough null by (auto simp: put_work_def)
      qed
    qed
  qed
qed

section \<open>Round trips\<close>

text \<open>
  What the two threads do with one work item: a compressed write goes through \<open>comp_write\<close> first, a
  compressed read through \<open>comp_read\<close> afterwards.
\<close>

definition fs_save ::
  "('s, 'e, 'h, 'w, 'd) fs_env \<Rightarrow> addr \<Rightarrow> ('s, 'e, 'd) fs_t \<Rightarrow> ('s, 'e, 'd) fs_t option" where
  "fs_save E p fs =
     do {
       work \<leftarrow> works fs p;
       fs \<leftarrow> (if w_use_compression work then comp_write E p fs else Some fs);
       file_write E p fs
     }"

definition fs_load ::
  "('s, 'e, 'h, 'w, 'd) fs_env \<Rightarrow> c_int \<Rightarrow> addr \<Rightarrow> ('s, 'e, 'd) fs_t \<Rightarrow> ('s, 'e, 'd) fs_t option" where
  "fs_load E junk q fs =
     do {
       (hand, fs) \<leftarrow> file_read E q fs;
       (if hand then comp_read E junk q fs else Some fs)
     }"


text \<open>
  The sample environment, with an allocator that never runs out.  Two bytes are written
  compressed and read back with a terminator, into a buffer made large by the stack.
\<close>

definition sample_heap_env :: "(nat \<times> nat, bool, string, string, string \<Rightarrow> u8 list option) fs_env" where
  "sample_heap_env = sample_env\<lparr>Allocate := (\<lambda>bl h n.
     if 2 ^ 63 \<le> unat n then None else Some (LEAST a. bl a = None, replicate (unat n) 0))\<rparr>"

lemma sample_disk_ops:
  "CreateFile_create sample_heap_env w d = (Inr w, d(w \<mapsto> []))"
  "CreateFile_open sample_heap_env w d = (if d w = None then Inl 2 else Inr w, d)"
  "GetFileSizeEx sample_heap_env h d =
     (if unat (word_of_nat (length (the (d h))) :: u64) = length (the (d h))
      then Inr (word_of_nat (length (the (d h)))) else Inl 1)"
  "ReadFile sample_heap_env h n d = (Inr (take (unat n) (the (d h))), d)"
  "WriteFile sample_heap_env h bs d = (Inr (word_of_nat (length bs)), d(h \<mapsto> bs))"
  "CloseHandle sample_heap_env h d = d"
  by (simp_all add: sample_heap_env_def sample_env_def Let_def)

lemma sample_heap_env_laws:
  "disk_laws sample_heap_env id (\<lambda>d h. if d h = None then None else Some h) \<and>
   alloc_laws sample_heap_env \<and> lz4_laws sample_heap_env"
proof (intro conjI)
  show "disk_laws sample_heap_env id (\<lambda>d h. if d h = None then None else Some h)"
  proof -
    have "unat (word_of_nat n :: u32) = n" if "n < 4294967296" for n
      using that by (simp add: unat_of_nat)
    then show ?thesis
      unfolding disk_laws_def sample_disk_ops
      by (intro conjI allI impI; clarsimp split: if_splits)
  qed
  have "bl (LEAST a. bl a = None) = None" if "finite (dom bl)" for bl :: blocks
  proof -
    from ex_new_if_finite [OF infinite_UNIV_nat that] obtain a where "a \<notin> dom bl" by blast
    then have "bl a = None" by (simp only: domIff not_not)
    then show ?thesis by (rule LeastI [of "\<lambda>a. bl a = None"])
  qed
  then show "alloc_laws sample_heap_env"
    by (simp add: alloc_laws_def sample_heap_env_def)
  show "lz4_laws sample_heap_env"
    unfolding lz4_laws_def Let_def
  proof (intro allI impI)
    fix src :: "u8 list"
    assume len: "length src \<le> 0x7E000000"
    have n: "sint (word_of_nat (length src) + 16 :: c_int) = int (length src) + 16"
      using sint_small [of "length src + 16"] len by simp
    have n1: "sint (word_of_nat (Suc (length src)) :: c_int) = int (length src) + 1"
      using sint_small [of "Suc (length src)"] len by (simp del: of_nat_Suc)
    show "int (length src) + 16 \<le> sint (LZ4_compressBound sample_heap_env (word_of_nat (length src))) \<and>
      LZ4_compress_default sample_heap_env src (word_of_nat (length src)) (LZ4_compressBound sample_heap_env (word_of_nat (length src))) \<noteq> [] \<and>
      int (length (LZ4_compress_default sample_heap_env src (word_of_nat (length src)) (LZ4_compressBound sample_heap_env (word_of_nat (length src)))))
        \<le> sint (LZ4_compressBound sample_heap_env (word_of_nat (length src))) \<and>
      length (LZ4_compress_default sample_heap_env src (word_of_nat (length src)) (LZ4_compressBound sample_heap_env (word_of_nat (length src)))) + 4 < 2 ^ 31 \<and>
      (\<forall>cap. if int (length src) \<le> sint cap
         then LZ4_decompress_safe sample_heap_env (LZ4_compress_default sample_heap_env src (word_of_nat (length src))
             (LZ4_compressBound sample_heap_env (word_of_nat (length src))))
             (word_of_nat (length (LZ4_compress_default sample_heap_env src (word_of_nat (length src))
               (LZ4_compressBound sample_heap_env (word_of_nat (length src)))))) cap = (word_of_nat (length src), src)
         else \<exists>r part. LZ4_decompress_safe sample_heap_env (LZ4_compress_default sample_heap_env src (word_of_nat (length src))
             (LZ4_compressBound sample_heap_env (word_of_nat (length src))))
             (word_of_nat (length (LZ4_compress_default sample_heap_env src (word_of_nat (length src))
               (LZ4_compressBound sample_heap_env (word_of_nat (length src)))))) cap = (r, part) \<and>
             sint r < 0 \<and> int (length part) \<le> max 0 (sint cap))"
      using len n n1 by (simp add: sample_heap_env_def sample_env_def)
  qed
qed

definition sample_wr :: "bool \<Rightarrow> bool fs_work_t" where
  "sample_wr c = \<lparr>w_heap = 0, w_op = k_fs_work_op_write, w_path = ''w'', w_null_terminate = False,
     w_use_compression = c, w_buffer = Some 100, w_size = 2, w_done = False, w_result = 0\<rparr>"

definition sample_rd :: "bool \<Rightarrow> bool fs_work_t" where
  "sample_rd c = \<lparr>w_heap = 0, w_op = k_fs_work_op_read, w_path = ''w'', w_null_terminate = True,
     w_use_compression = c, w_buffer = None, w_size = 0, w_done = False, w_result = 0\<rparr>"

definition sample_two :: "bool \<Rightarrow> (nat \<times> nat, bool, string \<Rightarrow> u8 list option) fs_t" where
  "sample_two c = (sample_fs 2)\<lparr>works := [1 \<mapsto> sample_wr c, 2 \<mapsto> sample_rd c]\<rparr>"

lemma sample_save:
  "\<exists>fs1 wr1. fs_save sample_heap_env 1 (sample_two True) = Some fs1 \<and> works fs1 1 = Some wr1 \<and> w_result wr1 = 0 \<and>
     works fs1 2 = Some (sample_rd True) \<and> fs_heap fs1 = 0 \<and> finite (dom (blocks fs1))"
  by (simp add: fs_save_def sample_two_def sample_wr_def sample_heap_env_def sample_eval Least_eq_0 le64_bytes_def le32_bytes_def)


end
