(* ===== verification/Math3d.thy ===== *)
theory Math3d
  imports Milyra_Base Complex_Main
begin

text \<open>
  The mathematics of the engine: \<^verbatim>\<open>math.h\<close>, \<^verbatim>\<open>vec3f.h\<close>, \<^verbatim>\<open>quatf.h\<close>, \<^verbatim>\<open>quatf.c\<close>, \<^verbatim>\<open>mat4f.c\<close> and
  \<^verbatim>\<open>transform.c\<close>.  A \<open>float\<close> is read as a real number: rounding, overflow and NaN are not
  modelled.  A \<^verbatim>\<open>mat4f_t\<close> is the list of its four rows; vectors are multiplied from the left, as
  \<open>mat4f_transform\<close> does.
\<close>

section \<open>Scalars (math.h)\<close>

type_synonym f32 = real

definition FLT_EPSILON :: f32 where
  "FLT_EPSILON = 1 / 2 ^ 23"

definition almost_equalf :: "f32 \<Rightarrow> f32 \<Rightarrow> bool" where
  "almost_equalf a b =
     (let diff = \<bar>a - b\<bar> in
      if diff \<le> FLT_EPSILON * 1000 then True
      else if diff \<le> (if \<bar>b\<bar> < \<bar>a\<bar> then \<bar>a\<bar> else \<bar>b\<bar>) * FLT_EPSILON * 4 then True
      else False)"

definition lerpf :: "f32 \<Rightarrow> f32 \<Rightarrow> f32 \<Rightarrow> f32" where
  "lerpf a b distance = a * (1 - distance) + b * distance"

section \<open>Vectors (vec3f.h)\<close>

record vec3f_t =
  vx :: f32
  vy :: f32
  vz :: f32

definition vec3f_zero :: vec3f_t where "vec3f_zero = \<lparr>vx = 0, vy = 0, vz = 0\<rparr>"
definition vec3f_one :: vec3f_t where "vec3f_one = \<lparr>vx = 1, vy = 1, vz = 1\<rparr>"
definition vec3f_x :: vec3f_t where "vec3f_x = \<lparr>vx = 1, vy = 0, vz = 0\<rparr>"
definition vec3f_y :: vec3f_t where "vec3f_y = \<lparr>vx = 0, vy = 1, vz = 0\<rparr>"
definition vec3f_z :: vec3f_t where "vec3f_z = \<lparr>vx = 0, vy = 0, vz = 1\<rparr>"
definition vec3f_forward :: vec3f_t where "vec3f_forward = \<lparr>vx = -1, vy = 0, vz = 0\<rparr>"
definition vec3f_right :: vec3f_t where "vec3f_right = \<lparr>vx = 0, vy = 1, vz = 0\<rparr>"
definition vec3f_up :: vec3f_t where "vec3f_up = \<lparr>vx = 0, vy = 0, vz = 1\<rparr>"

definition vec3f_negate :: "vec3f_t \<Rightarrow> vec3f_t" where
  "vec3f_negate v = \<lparr>vx = - vx v, vy = - vy v, vz = - vz v\<rparr>"

definition vec3f_add :: "vec3f_t \<Rightarrow> vec3f_t \<Rightarrow> vec3f_t" where
  "vec3f_add a b = \<lparr>vx = vx a + vx b, vy = vy a + vy b, vz = vz a + vz b\<rparr>"

definition vec3f_sub :: "vec3f_t \<Rightarrow> vec3f_t \<Rightarrow> vec3f_t" where
  "vec3f_sub a b = \<lparr>vx = vx a - vx b, vy = vy a - vy b, vz = vz a - vz b\<rparr>"

definition vec3f_mul :: "vec3f_t \<Rightarrow> vec3f_t \<Rightarrow> vec3f_t" where
  "vec3f_mul a b = \<lparr>vx = vx a * vx b, vy = vy a * vy b, vz = vz a * vz b\<rparr>"

text \<open>The macros \<^verbatim>\<open>__min\<close> and \<^verbatim>\<open>__max\<close>.\<close>

definition c_min :: "f32 \<Rightarrow> f32 \<Rightarrow> f32" where
  "c_min a b = (if a < b then a else b)"

definition c_max :: "f32 \<Rightarrow> f32 \<Rightarrow> f32" where
  "c_max a b = (if b < a then a else b)"

definition vec3f_min :: "vec3f_t \<Rightarrow> vec3f_t \<Rightarrow> vec3f_t" where
  "vec3f_min a b = \<lparr>vx = c_min (vx a) (vx b), vy = c_min (vy a) (vy b), vz = c_min (vz a) (vz b)\<rparr>"

definition vec3f_max :: "vec3f_t \<Rightarrow> vec3f_t \<Rightarrow> vec3f_t" where
  "vec3f_max a b = \<lparr>vx = c_max (vx a) (vx b), vy = c_max (vy a) (vy b), vz = c_max (vz a) (vz b)\<rparr>"

definition vec3f_scale :: "vec3f_t \<Rightarrow> f32 \<Rightarrow> vec3f_t" where
  "vec3f_scale v f = \<lparr>vx = vx v * f, vy = vy v * f, vz = vz v * f\<rparr>"

definition vec3f_lerp :: "vec3f_t \<Rightarrow> vec3f_t \<Rightarrow> f32 \<Rightarrow> vec3f_t" where
  "vec3f_lerp a b f = \<lparr>vx = lerpf (vx a) (vx b) f, vy = lerpf (vy a) (vy b) f, vz = lerpf (vz a) (vz b) f\<rparr>"

definition vec3f_mag2 :: "vec3f_t \<Rightarrow> f32" where
  "vec3f_mag2 v = vx v * vx v + vy v * vy v + vz v * vz v"

definition vec3f_mag :: "vec3f_t \<Rightarrow> f32" where
  "vec3f_mag v = sqrt (vec3f_mag2 v)"

definition vec3f_dist2 :: "vec3f_t \<Rightarrow> vec3f_t \<Rightarrow> f32" where
  "vec3f_dist2 a b = vec3f_mag2 (vec3f_sub a b)"

definition vec3f_dist :: "vec3f_t \<Rightarrow> vec3f_t \<Rightarrow> f32" where
  "vec3f_dist a b = sqrt (vec3f_dist2 a b)"

definition vec3f_norm :: "vec3f_t \<Rightarrow> vec3f_t" where
  "vec3f_norm v =
     (let m = vec3f_mag v in if almost_equalf m 0 then v else vec3f_scale v (1 / m))"

definition vec3f_dot :: "vec3f_t \<Rightarrow> vec3f_t \<Rightarrow> f32" where
  "vec3f_dot a b = vx a * vx b + vy a * vy b + vz a * vz b"

definition vec3f_reflect :: "vec3f_t \<Rightarrow> vec3f_t \<Rightarrow> vec3f_t" where
  "vec3f_reflect v n = vec3f_sub v (vec3f_scale n (vec3f_dot v n * 2))"

definition vec3f_cross :: "vec3f_t \<Rightarrow> vec3f_t \<Rightarrow> vec3f_t" where
  "vec3f_cross a b =
     \<lparr>vx = vy a * vz b - vz a * vy b,
      vy = vz a * vx b - vx a * vz b,
      vz = vx a * vy b - vy a * vx b\<rparr>"

section \<open>Quaternions (quatf.h, quatf.c)\<close>

record quatf_t =
  qv :: vec3f_t
  qs :: f32

definition quatf_identity :: quatf_t where
  "quatf_identity = \<lparr>qv = \<lparr>vx = 0, vy = 0, vz = 0\<rparr>, qs = 1\<rparr>"

definition quatf_mul :: "quatf_t \<Rightarrow> quatf_t \<Rightarrow> quatf_t" where
  "quatf_mul a b =
     (let r = vec3f_cross (qv a) (qv b);
          r = vec3f_add r (vec3f_scale (qv b) (qs a));
          r = vec3f_add r (vec3f_scale (qv a) (qs b))
      in \<lparr>qv = r, qs = qs a * qs b - vec3f_dot (qv a) (qv b)\<rparr>)"

definition quatf_conjugate :: "quatf_t \<Rightarrow> quatf_t" where
  "quatf_conjugate q = \<lparr>qv = vec3f_negate (qv q), qs = qs q\<rparr>"

definition quatf_rotate_vec :: "quatf_t \<Rightarrow> vec3f_t \<Rightarrow> vec3f_t" where
  "quatf_rotate_vec q v =
     (let t = vec3f_scale (vec3f_cross (qv q) v) 2
      in vec3f_add v (vec3f_add (vec3f_scale t (qs q)) (vec3f_cross (qv q) t)))"

text \<open>\<^verbatim>\<open>atan2f\<close> of the C library.\<close>

definition atan2f :: "f32 \<Rightarrow> f32 \<Rightarrow> f32" where
  "atan2f y x =
     (if 0 < x then arctan (y / x)
      else if x < 0 then (if 0 \<le> y then arctan (y / x) + pi else arctan (y / x) - pi)
      else if 0 < y then pi / 2 else if y < 0 then - pi / 2 else 0)"

definition copysignf :: "f32 \<Rightarrow> f32 \<Rightarrow> f32" where
  "copysignf x y = (if y < 0 then - \<bar>x\<bar> else \<bar>x\<bar>)"

text \<open>The result is initialised as \<^verbatim>\<open>{ .x = roll, .x = pitch, .x = yaw }\<close>: the last initialiser counts.\<close>

definition quatf_to_eulers :: "quatf_t \<Rightarrow> vec3f_t" where
  "quatf_to_eulers q =
     (let x = vx (qv q); y = vy (qv q); z = vz (qv q); w = qs q;
          roll = atan2f (2 * (w * x + y * z)) (1 - 2 * (x * x + y * y));
          sinp = 2 * (w * y - z * x);
          pitch = (if 1 \<le> \<bar>sinp\<bar> then copysignf (pi / 2) sinp else arcsin sinp);
          yaw = atan2f (2 * (w * z + x * y)) (1 - 2 * (y * y + z * z))
      in \<lparr>vx = yaw, vy = 0, vz = 0\<rparr>)"

definition quatf_from_eulers :: "vec3f_t \<Rightarrow> quatf_t" where
  "quatf_from_eulers euler_angles =
     (let roll = vx euler_angles; pitch = vy euler_angles; yaw = vz euler_angles;
          cy = cos (yaw / 2); sy = sin (yaw / 2);
          cr = cos (roll / 2); sr = sin (roll / 2);
          cp = cos (pitch / 2); sp = sin (pitch / 2)
      in \<lparr>qv = \<lparr>vx = cy * sr * cp - sy * cr * sp,
               vy = cy * cr * sp + sy * sr * cp,
               vz = sy * cr * cp - cy * sr * sp\<rparr>,
          qs = cy * cr * cp + sy * sr * sp\<rparr>)"

section \<open>Matrices (mat4f.c)\<close>

type_synonym mat4f_t = "f32 list list"

definition mat4f_make_identity :: mat4f_t where
  "mat4f_make_identity = [[1, 0, 0, 0], [0, 1, 0, 0], [0, 0, 1, 0], [0, 0, 0, 1]]"

definition mat4f_make_translation :: "vec3f_t \<Rightarrow> mat4f_t" where
  "mat4f_make_translation t = mat4f_make_identity[3 := [vx t, vy t, vz t, 1]]"

definition mat4f_make_scaling :: "vec3f_t \<Rightarrow> mat4f_t" where
  "mat4f_make_scaling k = [[vx k, 0, 0, 0], [0, vy k, 0, 0], [0, 0, vz k, 0], [0, 0, 0, 1]]"

definition mat4f_make_rotation :: "quatf_t \<Rightarrow> mat4f_t" where
  "mat4f_make_rotation q =
     (let x = vx (qv q); y = vy (qv q); z = vz (qv q); w = qs q in
      [[1 - 2 * (y * y + z * z), 2 * (x * y + z * w), 2 * (x * z - y * w), 0],
       [2 * (x * y - z * w), 1 - 2 * (x * x + z * z), 2 * (y * z + x * w), 0],
       [2 * (x * z + y * w), 2 * (y * z - x * w), 1 - 2 * (x * x + y * y), 0],
       [0, 0, 0, 1]])"

definition mat4f_mul :: "mat4f_t \<Rightarrow> mat4f_t \<Rightarrow> mat4f_t" where
  "mat4f_mul a b =
     map (\<lambda>i. map (\<lambda>j. fold (\<lambda>k tmp. tmp + a ! i ! k * b ! k ! j) [0, 1, 2, 3] 0) [0, 1, 2, 3]) [0, 1, 2, 3]"

definition mat4f_mul_inplace :: "mat4f_t \<Rightarrow> mat4f_t \<Rightarrow> mat4f_t" where
  "mat4f_mul_inplace result m = (let tmp = result in mat4f_mul tmp m)"

definition mat4f_translate :: "mat4f_t \<Rightarrow> vec3f_t \<Rightarrow> mat4f_t" where
  "mat4f_translate m t = mat4f_mul_inplace m (mat4f_make_translation t)"

definition mat4f_scale :: "mat4f_t \<Rightarrow> vec3f_t \<Rightarrow> mat4f_t" where
  "mat4f_scale m k = mat4f_mul_inplace m (mat4f_make_scaling k)"

definition mat4f_rotate :: "mat4f_t \<Rightarrow> quatf_t \<Rightarrow> mat4f_t" where
  "mat4f_rotate m q = mat4f_mul_inplace m (mat4f_make_rotation q)"

definition mat4f_transform :: "mat4f_t \<Rightarrow> vec3f_t \<Rightarrow> vec3f_t" where
  "mat4f_transform m v =
     \<lparr>vx = vx v * m ! 0 ! 0 + vy v * m ! 1 ! 0 + vz v * m ! 2 ! 0 + m ! 3 ! 0,
      vy = vx v * m ! 0 ! 1 + vy v * m ! 1 ! 1 + vz v * m ! 2 ! 1 + m ! 3 ! 1,
      vz = vx v * m ! 0 ! 2 + vy v * m ! 1 ! 2 + vz v * m ! 2 ! 2 + m ! 3 ! 2\<rparr>"

definition mat4f_transform_inplace :: "mat4f_t \<Rightarrow> vec3f_t \<Rightarrow> vec3f_t" where
  "mat4f_transform_inplace m v = (let tmp = v in mat4f_transform m tmp)"

text \<open>The 2x2 minors of the upper two rows, of the lower two rows, and the determinant.\<close>

definition minors :: "f32 list \<Rightarrow> f32 list \<Rightarrow> f32 list" where
  "minors p q =
     [p ! 0 * q ! 1 - q ! 0 * p ! 1, p ! 0 * q ! 2 - q ! 0 * p ! 2, p ! 0 * q ! 3 - q ! 0 * p ! 3,
      p ! 1 * q ! 2 - q ! 1 * p ! 2, p ! 1 * q ! 3 - q ! 1 * p ! 3, p ! 2 * q ! 3 - q ! 2 * p ! 3]"

definition mat4f_det :: "mat4f_t \<Rightarrow> f32" where
  "mat4f_det m =
     (let t = minors (m ! 0) (m ! 1); c = minors (m ! 2) (m ! 3)
      in t ! 0 * c ! 5 - t ! 1 * c ! 4 + t ! 2 * c ! 3 + t ! 3 * c ! 2 - t ! 4 * c ! 1 + t ! 5 * c ! 0)"

text \<open>\<open>None\<close> is the result \<^verbatim>\<open>false\<close>.\<close>

definition mat4f_invert :: "mat4f_t \<Rightarrow> mat4f_t option" where
  "mat4f_invert m =
     (let t = minors (m ! 0) (m ! 1); c = minors (m ! 2) (m ! 3); det = mat4f_det m in
      if det = 0 then None
      else let inv_det = 1 / det in Some
       [[(m ! 1 ! 1 * c ! 5 - m ! 1 ! 2 * c ! 4 + m ! 1 ! 3 * c ! 3) * inv_det,
         (- (m ! 0 ! 1) * c ! 5 + m ! 0 ! 2 * c ! 4 - m ! 0 ! 3 * c ! 3) * inv_det,
         (m ! 3 ! 1 * t ! 5 - m ! 3 ! 2 * t ! 4 + m ! 3 ! 3 * t ! 3) * inv_det,
         (- (m ! 2 ! 1) * t ! 5 + m ! 2 ! 2 * t ! 4 - m ! 2 ! 3 * t ! 3) * inv_det],
        [(- (m ! 1 ! 0) * c ! 5 + m ! 1 ! 2 * c ! 2 - m ! 1 ! 3 * c ! 1) * inv_det,
         (m ! 0 ! 0 * c ! 5 - m ! 0 ! 2 * c ! 2 + m ! 0 ! 3 * c ! 1) * inv_det,
         (- (m ! 3 ! 0) * t ! 5 + m ! 3 ! 2 * t ! 2 - m ! 3 ! 3 * t ! 1) * inv_det,
         (m ! 2 ! 0 * t ! 5 - m ! 2 ! 2 * t ! 2 + m ! 2 ! 3 * t ! 1) * inv_det],
        [(m ! 1 ! 0 * c ! 4 - m ! 1 ! 1 * c ! 2 + m ! 1 ! 3 * c ! 0) * inv_det,
         (- (m ! 0 ! 0) * c ! 4 + m ! 0 ! 1 * c ! 2 - m ! 0 ! 3 * c ! 0) * inv_det,
         (m ! 3 ! 0 * t ! 4 - m ! 3 ! 1 * t ! 2 + m ! 3 ! 3 * t ! 0) * inv_det,
         (- (m ! 2 ! 0) * t ! 4 + m ! 2 ! 1 * t ! 2 - m ! 2 ! 3 * t ! 0) * inv_det],
        [(- (m ! 1 ! 0) * c ! 3 + m ! 1 ! 1 * c ! 1 - m ! 1 ! 2 * c ! 0) * inv_det,
         (m ! 0 ! 0 * c ! 3 - m ! 0 ! 1 * c ! 1 + m ! 0 ! 2 * c ! 0) * inv_det,
         (- (m ! 3 ! 0) * t ! 3 + m ! 3 ! 1 * t ! 1 - m ! 3 ! 2 * t ! 0) * inv_det,
         (m ! 2 ! 0 * t ! 3 - m ! 2 ! 1 * t ! 1 + m ! 2 ! 2 * t ! 0) * inv_det]])"

text \<open>With a zero angle the matrix \<open>m\<close> is left as it is.\<close>

definition mat4f_make_perspective :: "mat4f_t \<Rightarrow> f32 \<Rightarrow> f32 \<Rightarrow> f32 \<Rightarrow> f32 \<Rightarrow> mat4f_t" where
  "mat4f_make_perspective m angle aspect z_near z_far =
     (if angle = 0 then m
      else let aspect = c_max FLT_EPSILON aspect; z_near = c_max FLT_EPSILON z_near;
               tan_half_vfov = tan (angle / 2); a = 1 / tan_half_vfov
           in [[1 / (tan_half_vfov * aspect), 0, 0, 0], [0, a, 0, 0], [0, 0, 0, -1], [0, 0, z_near, 0]])"

definition mat4f_make_orthographic :: "f32 \<Rightarrow> f32 \<Rightarrow> f32 \<Rightarrow> f32 \<Rightarrow> mat4f_t" where
  "mat4f_make_orthographic top_aspect bot_aspect z_near z_far =
     (let z_near = c_max FLT_EPSILON z_near
      in [[1 / (top_aspect * z_far), 0, 0, 0], [0, 1 / (bot_aspect * z_far), 0, 0], [0, 0, 0, 0], [0, 0, 0, z_near]])"

definition mat4f_make_lookat :: "vec3f_t \<Rightarrow> vec3f_t \<Rightarrow> vec3f_t \<Rightarrow> mat4f_t" where
  "mat4f_make_lookat eye dir up =
     (let z_vec = vec3f_negate (vec3f_norm dir);
          x_vec = vec3f_norm (vec3f_cross up z_vec);
          y_vec = vec3f_norm (vec3f_cross z_vec x_vec)
      in [[vx x_vec, vx y_vec, vx z_vec, 0],
          [vy x_vec, vy y_vec, vy z_vec, 0],
          [vz x_vec, vz y_vec, vz z_vec, 0],
          [- vec3f_dot x_vec eye, - vec3f_dot y_vec eye, - vec3f_dot z_vec eye, 1]])"

section \<open>Transforms (transform.c)\<close>

record transform_t =
  translation :: vec3f_t
  scale :: vec3f_t
  rotation :: quatf_t

definition transform_identity :: transform_t where
  "transform_identity = \<lparr>translation = vec3f_zero, scale = vec3f_one, rotation = quatf_identity\<rparr>"

definition transform_to_matrix :: "transform_t \<Rightarrow> mat4f_t" where
  "transform_to_matrix tr =
     (let q = rotation tr; x = vx (qv q); y = vy (qv q); z = vz (qv q); w = qs q;
          r00 = 1 - 2 * (y * y + z * z); r10 = 2 * (x * y - z * w); r20 = 2 * (x * z + y * w);
          r01 = 2 * (x * y + z * w); r11 = 1 - 2 * (x * x + z * z); r21 = 2 * (y * z - x * w);
          r02 = 2 * (x * z - y * w); r12 = 2 * (y * z + x * w); r22 = 1 - 2 * (x * x + y * y);
          k = scale tr; t = translation tr
      in [[vx k * r00, vx k * r01, vx k * r02, 0],
          [vy k * r10, vy k * r11, vy k * r12, 0],
          [vz k * r20, vz k * r21, vz k * r22, 0],
          [vx t, vy t, vz t, 1]])"

definition transform_multiply :: "transform_t \<Rightarrow> transform_t \<Rightarrow> transform_t" where
  "transform_multiply result t =
     (let scaled_translation = vec3f_mul (translation result) (scale t);
          rotated_translation = quatf_rotate_vec (rotation t) scaled_translation
      in \<lparr>translation = vec3f_add rotated_translation (translation t),
          scale = vec3f_mul (scale result) (scale t),
          rotation = quatf_mul (rotation t) (rotation result)\<rparr>)"

definition transform_invert :: "transform_t \<Rightarrow> transform_t" where
  "transform_invert tr =
     (let inv = (\<lambda>a. if a \<noteq> 0 then 1 / a else 0);
          k = \<lparr>vx = inv (vx (scale tr)), vy = inv (vy (scale tr)), vz = inv (vz (scale tr))\<rparr>;
          q = quatf_conjugate (rotation tr)
      in \<lparr>translation = vec3f_mul k (quatf_rotate_vec q (vec3f_negate (translation tr))),
          scale = k, rotation = q\<rparr>)"

definition transform_transform_vec3 :: "transform_t \<Rightarrow> vec3f_t \<Rightarrow> vec3f_t" where
  "transform_transform_vec3 tr v =
     vec3f_add (quatf_rotate_vec (rotation tr) (vec3f_mul v (scale tr))) (translation tr)"

end
