(* ===== verification/Transforms.thy ===== *)
theory Transforms
  imports Math3d
begin

text \<open>
  Correctness of the transforms and matrices: unit quaternions rotate (they keep distances and
  compose), the matrix of a transform does what the transform does, transforms compose and
  invert where scaling commutes with the rotation, and the matrix inverse is one.
\<close>

named_theorems vec_defs

lemmas vector_definitions [vec_defs] =
  vec3f_zero_def vec3f_one_def vec3f_negate_def vec3f_add_def vec3f_sub_def vec3f_mul_def vec3f_scale_def
  vec3f_cross_def vec3f_dot_def vec3f_mag2_def vec3f_dist2_def

lemmas quaternion_definitions [vec_defs] =
  quatf_mul_def quatf_conjugate_def quatf_rotate_vec_def quatf_identity_def Let_def

section \<open>Rotation\<close>

definition quatf_norm2 :: "quatf_t \<Rightarrow> f32" where
  "quatf_norm2 q = vec3f_mag2 (qv q) + qs q * qs q"

text \<open>The rotation by an arbitrary quaternion, scaled by its squared norm.\<close>

definition sandwich :: "quatf_t \<Rightarrow> vec3f_t \<Rightarrow> vec3f_t" where
  "sandwich q v =
     vec3f_add (vec3f_scale v (qs q * qs q - vec3f_mag2 (qv q)))
       (vec3f_add (vec3f_scale (qv q) (2 * vec3f_dot (qv q) v)) (vec3f_scale (vec3f_cross (qv q) v) (2 * qs q)))"

lemma quatf_norm2_mul: "quatf_norm2 (quatf_mul a b) = quatf_norm2 a * quatf_norm2 b"
  by (simp add: quatf_norm2_def vec_defs) algebra

lemma quatf_norm2_conjugate [simp]: "quatf_norm2 (quatf_conjugate q) = quatf_norm2 q"
  by (simp add: quatf_norm2_def vec_defs)

lemma rotate_sandwich:
  "quatf_rotate_vec q v = vec3f_add (sandwich q v) (vec3f_scale v (1 - quatf_norm2 q))"
  by (simp add: sandwich_def quatf_norm2_def vec_defs algebra_simps)

lemma rotate_unit: "quatf_norm2 q = 1 \<Longrightarrow> quatf_rotate_vec q v = sandwich q v"
  by (simp add: rotate_sandwich) (simp add: vec_defs)

lemma sandwich_mul: "sandwich (quatf_mul a b) v = sandwich a (sandwich b v)"
  by (simp add: sandwich_def vec_defs) (intro conjI; algebra)

lemma sandwich_conjugate: "sandwich (quatf_conjugate q) (sandwich q v) = vec3f_scale v (quatf_norm2 q * quatf_norm2 q)"
  by (simp add: sandwich_def quatf_norm2_def vec_defs) (intro conjI; algebra)

lemma sandwich_mag2: "vec3f_mag2 (sandwich q v) = quatf_norm2 q * quatf_norm2 q * vec3f_mag2 v"
  by (simp add: sandwich_def quatf_norm2_def vec_defs) algebra

lemma sandwich_linear:
  "sandwich q (vec3f_add a b) = vec3f_add (sandwich q a) (sandwich q b)"
  "sandwich q (vec3f_sub a b) = vec3f_sub (sandwich q a) (sandwich q b)"
  "sandwich q (vec3f_scale a k) = vec3f_scale (sandwich q a) k"
  "sandwich q (vec3f_negate a) = vec3f_negate (sandwich q a)"
  by (simp_all add: sandwich_def vec_defs algebra_simps)

lemma mul_uniform [simp]: "vec3f_mul a \<lparr>vx = k, vy = k, vz = k\<rparr> = vec3f_scale a k"
  by (simp add: vec_defs)

section \<open>Transforms\<close>

lemma transform_matrix: "mat4f_transform (transform_to_matrix tr) v = transform_transform_vec3 tr v"
  by (simp add: mat4f_transform_def transform_to_matrix_def transform_transform_vec3_def vec_defs algebra_simps)

lemma rotation_matrix: "mat4f_transform (mat4f_make_rotation q) v = quatf_rotate_vec q v"
  by (simp add: mat4f_transform_def mat4f_make_rotation_def vec_defs algebra_simps)

lemma transform_compose:
  assumes "quatf_norm2 (rotation a) = 1" and "quatf_norm2 (rotation b) = 1"
    and "scale b = \<lparr>vx = k, vy = k, vz = k\<rparr>"
  shows "transform_transform_vec3 (transform_multiply a b) v =
    transform_transform_vec3 b (transform_transform_vec3 a v)"
proof -
  have "quatf_norm2 (quatf_mul (rotation b) (rotation a)) = 1"
    using assms by (simp add: quatf_norm2_mul)
  then show ?thesis
    using assms
    by (simp add: transform_transform_vec3_def transform_multiply_def Let_def rotate_unit sandwich_mul
        sandwich_linear) (simp add: vec_defs sandwich_def algebra_simps)
qed

lemma transform_inverse:
  assumes "quatf_norm2 (rotation a) = 1" and "scale a = \<lparr>vx = k, vy = k, vz = k\<rparr>" and "k \<noteq> 0"
  shows "transform_transform_vec3 (transform_invert a) (transform_transform_vec3 a v) = v"
proof -
  let ?q = "quatf_conjugate (rotation a)"
  have q: "quatf_norm2 ?q = 1" using assms by simp
  have undo: "sandwich ?q (sandwich (rotation a) w) = w" for w
    using assms(1) by (simp add: sandwich_conjugate) (simp add: vec_defs)
  have inv: "scale (transform_invert a) = \<lparr>vx = 1 / k, vy = 1 / k, vz = 1 / k\<rparr>"
    "rotation (transform_invert a) = ?q"
    "translation (transform_invert a) = vec3f_scale (vec3f_negate (sandwich ?q (translation a))) (1 / k)"
    using assms q by (simp_all add: transform_invert_def Let_def rotate_unit sandwich_linear) (simp add: vec_defs)
  have "transform_transform_vec3 (transform_invert a) (transform_transform_vec3 a v) =
      vec3f_add (vec3f_scale (vec3f_add (vec3f_scale v k) (sandwich ?q (translation a))) (1 / k))
        (vec3f_scale (vec3f_negate (sandwich ?q (translation a))) (1 / k))"
    using assms q
    by (simp add: transform_transform_vec3_def inv rotate_unit sandwich_linear undo)
  also have "\<dots> = v"
    using assms(3) by (simp add: vec_defs field_simps)
  finally show ?thesis .
qed

section \<open>Matrices\<close>

definition is_mat4f :: "mat4f_t \<Rightarrow> bool" where
  "is_mat4f m \<longleftrightarrow> length m = 4 \<and> (\<forall>r \<in> set m. length r = 4)"

lemma is_mat4f_cases:
  assumes "is_mat4f m"
  obtains a b c d e f g h i j k l p q r t where
    "m = [[a, b, c, d], [e, f, g, h], [i, j, k, l], [p, q, r, t]]"
  using assms unfolding is_mat4f_def by (auto simp: length_Suc_conv eval_nat_numeral)

lemma mat4f_mul_transform:
  assumes "is_mat4f a" and "is_mat4f b"
    and "a ! 0 ! 3 = 0" "a ! 1 ! 3 = 0" "a ! 2 ! 3 = 0" "a ! 3 ! 3 = 1"
  shows "mat4f_transform (mat4f_mul a b) v = mat4f_transform b (mat4f_transform a v)"
proof -
  from assms(3-6) show ?thesis
    by (simp add: mat4f_transform_def mat4f_mul_def algebra_simps)
qed

lemma mat4f_mul_inverse:
  assumes "is_mat4f m" and "mat4f_invert m = Some n"
  shows "mat4f_mul m n = mat4f_make_identity \<and> mat4f_mul n m = mat4f_make_identity"
proof -
  from assms(1) obtain a b c d e f g h i j k l p q r t where
    m: "m = [[a, b, c, d], [e, f, g, h], [i, j, k, l], [p, q, r, t]]"
    by (rule is_mat4f_cases)
  define det where "det = mat4f_det m"
  have "det \<noteq> 0" using assms(2) by (simp add: mat4f_invert_def Let_def det_def split: if_splits)
  have det: "det = (a * f - e * b) * (k * t - r * l) - (a * g - e * c) * (j * t - q * l) + (a * h - e * d) * (j * r - q * k)
      + (b * g - f * c) * (i * t - p * l) - (b * h - f * d) * (i * r - p * k) + (c * h - g * d) * (i * q - p * j)"
    by (simp add: det_def mat4f_det_def minors_def m)
  define iv where "iv = 1 / det"
  with \<open>det \<noteq> 0\<close> have iv: "det * iv = 1" by simp
  from assms(2) \<open>det \<noteq> 0\<close> have n: "n = [[(f * (k * t - r * l) - g * (j * t - q * l) + h * (j * r - q * k)) * iv,
       (- b * (k * t - r * l) + c * (j * t - q * l) - d * (j * r - q * k)) * iv,
       (q * (c * h - g * d) - r * (b * h - f * d) + t * (b * g - f * c)) * iv,
       (- j * (c * h - g * d) + k * (b * h - f * d) - l * (b * g - f * c)) * iv],
      [(- e * (k * t - r * l) + g * (i * t - p * l) - h * (i * r - p * k)) * iv,
       (a * (k * t - r * l) - c * (i * t - p * l) + d * (i * r - p * k)) * iv,
       (- p * (c * h - g * d) + r * (a * h - e * d) - t * (a * g - e * c)) * iv,
       (i * (c * h - g * d) - k * (a * h - e * d) + l * (a * g - e * c)) * iv],
      [(e * (j * t - q * l) - f * (i * t - p * l) + h * (i * q - p * j)) * iv,
       (- a * (j * t - q * l) + b * (i * t - p * l) - d * (i * q - p * j)) * iv,
       (p * (b * h - f * d) - q * (a * h - e * d) + t * (a * f - e * b)) * iv,
       (- i * (b * h - f * d) + j * (a * h - e * d) - l * (a * f - e * b)) * iv],
      [(- e * (j * r - q * k) + f * (i * r - p * k) - g * (i * q - p * j)) * iv,
       (a * (j * r - q * k) - b * (i * r - p * k) + c * (i * q - p * j)) * iv,
       (- p * (b * g - f * c) + q * (a * g - e * c) - r * (a * f - e * b)) * iv,
       (i * (b * g - f * c) - j * (a * g - e * c) + k * (a * f - e * b)) * iv]]"
    unfolding mat4f_invert_def Let_def det_def [symmetric] iv_def
    by (simp add: m minors_def)
  show ?thesis
    unfolding m n mat4f_mul_def mat4f_make_identity_def
    by (simp add: eval_nat_numeral, intro conjI; (simp add: algebra_simps; fail)?)
      (use iv [unfolded det] in algebra)+
qed

section \<open>Angles\<close>

lemma quatf_from_eulers_unit: "quatf_norm2 (quatf_from_eulers e) = 1"
proof -
  have euler: "(cy * sr * cp - sy * cr * sp) * (cy * sr * cp - sy * cr * sp) +
      (cy * cr * sp + sy * sr * cp) * (cy * cr * sp + sy * sr * cp) +
      (sy * cr * cp - cy * sr * sp) * (sy * cr * cp - cy * sr * sp) +
      (cy * cr * cp + sy * sr * sp) * (cy * cr * cp + sy * sr * sp) =
      (cy * cy + sy * sy) * (cr * cr + sr * sr) * (cp * cp + sp * sp)" for cy sy cr sr cp sp :: real
    by algebra
  have unit: "cos x * cos x + sin x * sin x = 1" for x :: real
    using sin_cos_squared_add2 [of x] by (simp add: power2_eq_square)
  show ?thesis
    by (simp add: quatf_norm2_def quatf_from_eulers_def Let_def vec3f_mag2_def euler unit)
qed

text \<open>The way back drops two of the three angles: only the first field of the result is set.\<close>

lemma quatf_to_eulers_drops: "vy (quatf_to_eulers q) = 0 \<and> vz (quatf_to_eulers q) = 0"
  by (simp add: quatf_to_eulers_def Let_def)

section \<open>Properties\<close>

text \<open>C20. The transforms form a group action where they can: the matrix of a transform maps a point as
  the transform does; for unit rotations (which \<open>quatf_from_eulers\<close> yields) distances are kept up to the
  scale, the product with a uniformly scaled transform applies one after the other, and the
  inverse of a uniformly scaled transform takes every point back.\<close>

theorem transform_laws:
  assumes "quatf_norm2 (rotation a) = 1" and "quatf_norm2 (rotation b) = 1"
    and "scale b = \<lparr>vx = k, vy = k, vz = k\<rparr>" and "k \<noteq> 0"
  shows "mat4f_transform (transform_to_matrix a) v = transform_transform_vec3 a v \<and>
    transform_transform_vec3 (transform_multiply a b) v = transform_transform_vec3 b (transform_transform_vec3 a v) \<and>
    transform_transform_vec3 (transform_invert b) (transform_transform_vec3 b v) = v \<and>
    vec3f_dist (transform_transform_vec3 b v) (transform_transform_vec3 b w) = \<bar>k\<bar> * vec3f_dist v w \<and>
    quatf_norm2 (rotation (transform_multiply a b)) = 1 \<and> quatf_norm2 (quatf_from_eulers e) = 1"
proof -
  have "vec3f_sub (transform_transform_vec3 b v) (transform_transform_vec3 b w) =
      sandwich (rotation b) (vec3f_scale (vec3f_sub v w) k)"
    using assms(2,3) by (simp add: transform_transform_vec3_def rotate_unit sandwich_linear)
      (simp add: vec_defs algebra_simps)
  then have "vec3f_dist2 (transform_transform_vec3 b v) (transform_transform_vec3 b w) = k\<^sup>2 * vec3f_dist2 v w"
    using assms(2) sandwich_mag2 [of "rotation b" "vec3f_scale (vec3f_sub v w) k"]
    by (simp add: vec3f_dist2_def) (simp add: vec_defs power2_eq_square algebra_simps)
  then have "vec3f_dist (transform_transform_vec3 b v) (transform_transform_vec3 b w) = \<bar>k\<bar> * vec3f_dist v w"
    by (simp add: vec3f_dist_def real_sqrt_mult)
  with transform_matrix transform_compose [OF assms(1-3)] transform_inverse [OF assms(2-4)] quatf_from_eulers_unit
    assms(1,2)
  show ?thesis by (simp add: transform_multiply_def Let_def quatf_norm2_mul)
qed

text \<open>A quarter turn about the z axis with a scale of 2, after a move along x.\<close>

definition turned :: transform_t where
  "turned = \<lparr>translation = vec3f_x, scale = \<lparr>vx = 2, vy = 2, vz = 2\<rparr>,
     rotation = \<lparr>qv = \<lparr>vx = 0, vy = 0, vz = 3 / 5\<rparr>, qs = 4 / 5\<rparr>\<rparr>"

theorem transform_laws_witness:
  "transform_transform_vec3 (transform_invert turned) (transform_transform_vec3 turned vec3f_one) = vec3f_one"
  using transform_laws [of turned turned 2 vec3f_one vec3f_one vec3f_one]
  by (simp add: turned_def quatf_norm2_def vec3f_mag2_def)

text \<open>With different scales along the axes the inverse of a rotated transform is not its inverse.\<close>

lemma transform_invert_not_inverse:
  "transform_transform_vec3 (transform_invert (turned\<lparr>scale := \<lparr>vx = 1, vy = 2, vz = 1\<rparr>\<rparr>))
     (transform_transform_vec3 (turned\<lparr>scale := \<lparr>vx = 1, vy = 2, vz = 1\<rparr>\<rparr>) vec3f_one) \<noteq> vec3f_one"
  by (simp add: turned_def transform_transform_vec3_def transform_invert_def vec_defs vec3f_x_def)

text \<open>C21. \<open>mat4f_invert\<close> fails exactly when the determinant is zero, and otherwise returns the inverse on both
  sides.\<close>

theorem mat4f_invert_correct:
  assumes "is_mat4f m"
  shows "case mat4f_invert m of
      None \<Rightarrow> mat4f_det m = 0
    | Some n \<Rightarrow> mat4f_det m \<noteq> 0 \<and> mat4f_mul m n = mat4f_make_identity \<and> mat4f_mul n m = mat4f_make_identity"
proof (cases "mat4f_invert m")
  case None
  then show ?thesis by (simp add: mat4f_invert_def Let_def split: if_splits)
next
  case (Some n)
  with mat4f_mul_inverse [OF assms Some] show ?thesis
    by (simp add: mat4f_invert_def Let_def split: if_splits)
qed

theorem mat4f_invert_correct_witness:
  "\<exists>n. mat4f_invert (mat4f_make_translation vec3f_one) = Some n \<and>
     mat4f_mul (mat4f_make_translation vec3f_one) n = mat4f_make_identity"
  using mat4f_invert_correct [of "mat4f_make_translation vec3f_one"]
  by (simp add: is_mat4f_def mat4f_make_translation_def mat4f_make_identity_def mat4f_det_def minors_def
      vec3f_one_def eval_nat_numeral split: option.splits)

end
