(* ===== verification/Tlsf.thy ===== *)
theory Tlsf
  imports Milyra_Base
begin

text \<open>
  The allocator \<^verbatim>\<open>tlsf/tlsf.c\<close> below the heap: blocks that tile a pool, segregated free lists and
  two levels of bitmaps.

  Memory is a partial map from addresses to 64 bit cells.  The fields of a \<^verbatim>\<open>block_header_t\<close> are the cells at
  the offsets 0 (\<^verbatim>\<open>prev_phys_block\<close>), 8 (\<open>size\<close>), 16 (\<open>next_free\<close>) and 24 (\<open>prev_free\<close>); an access to a
  cell that is not mapped, and an assertion that fails, is \<open>None\<close>.  Of the \<open>control_t\<close> the fields
  of \<open>block_null\<close> are cells too, since list operations write to them; its bitmaps and list heads are a
  record.  The configuration is the one of the build: 64 bit, Visual C++.
\<close>

section \<open>Bit manipulation\<close>

text \<open>\<^verbatim>\<open>_BitScanReverse\<close> and \<^verbatim>\<open>_BitScanForward\<close> give the index of the highest and of the lowest set bit.\<close>

definition tlsf_fls :: "u32 \<Rightarrow> int" where
  "tlsf_fls w = (case filter (bit w) (rev [0..<32]) of [] \<Rightarrow> - 1 | i # _ \<Rightarrow> int i)"

definition tlsf_ffs :: "u32 \<Rightarrow> int" where
  "tlsf_ffs w = (case filter (bit w) [0..<32] of [] \<Rightarrow> - 1 | i # _ \<Rightarrow> int i)"

text \<open>The generic versions for compilers without such an instruction.\<close>

definition fls_step :: "u32 \<Rightarrow> nat \<Rightarrow> u32 \<times> int \<Rightarrow> u32 \<times> int" where
  "fls_step msk n wb = (if fst wb AND msk = 0 then (push_bit n (fst wb), snd wb - int n) else wb)"

definition tlsf_fls_generic :: "u32 \<Rightarrow> int" where
  "tlsf_fls_generic w =
     (let b = (if w = 0 then 32 - 1 else 32);
          wb = fls_step 0xffff0000 16 (w, b);
          wb = fls_step 0xff000000 8 wb;
          wb = fls_step 0xf0000000 4 wb;
          wb = fls_step 0xc0000000 2 wb;
          wb = fls_step 0x80000000 1 wb
      in snd wb)"

definition generic_ffs :: "u32 \<Rightarrow> int" where
  "generic_ffs w = tlsf_fls_generic (w AND (NOT w + 1)) - 1"

definition generic_fls :: "u32 \<Rightarrow> int" where
  "generic_fls w = tlsf_fls_generic w - 1"

definition tlsf_fls_sizet :: "u64 \<Rightarrow> int" where
  "tlsf_fls_sizet n =
     (let high = ucast (drop_bit 32 n) in if high \<noteq> 0 then 32 + tlsf_fls high else tlsf_fls (ucast n))"

definition test_ffs_fls :: int where
  "test_ffs_fls =
     (if tlsf_ffs 0 = - 1 then 0 else 0x1) +
     (if tlsf_fls 0 = - 1 then 0 else 0x2) +
     (if tlsf_ffs 1 = 0 then 0 else 0x4) +
     (if tlsf_fls 1 = 0 then 0 else 0x8) +
     (if tlsf_ffs 0x80000000 = 31 then 0 else 0x10) +
     (if tlsf_ffs 0x80008000 = 15 then 0 else 0x20) +
     (if tlsf_fls 0x80000008 = 31 then 0 else 0x40) +
     (if tlsf_fls 0x7FFFFFFF = 30 then 0 else 0x80) +
     (if tlsf_fls_sizet 0x80000000 = 31 then 0 else 0x100) +
     (if tlsf_fls_sizet 0x100000000 = 32 then 0 else 0x200) +
     (if tlsf_fls_sizet 0xffffffffffffffff = 63 then 0 else 0x400)"

section \<open>Constants and data\<close>

definition SL_INDEX_COUNT_LOG2 :: nat where "SL_INDEX_COUNT_LOG2 = 5"
definition ALIGN_SIZE_LOG2 :: nat where "ALIGN_SIZE_LOG2 = 3"
definition ALIGN_SIZE :: u64 where "ALIGN_SIZE = push_bit ALIGN_SIZE_LOG2 1"
definition FL_INDEX_MAX :: nat where "FL_INDEX_MAX = 32"
definition SL_INDEX_COUNT :: nat where "SL_INDEX_COUNT = 2 ^ SL_INDEX_COUNT_LOG2"
definition FL_INDEX_SHIFT :: nat where "FL_INDEX_SHIFT = SL_INDEX_COUNT_LOG2 + ALIGN_SIZE_LOG2"
definition FL_INDEX_COUNT :: nat where "FL_INDEX_COUNT = FL_INDEX_MAX - FL_INDEX_SHIFT + 1"
definition SMALL_BLOCK_SIZE :: u64 where "SMALL_BLOCK_SIZE = push_bit FL_INDEX_SHIFT 1"
definition block_header_free_bit :: u64 where "block_header_free_bit = 1"
definition block_header_prev_free_bit :: u64 where "block_header_prev_free_bit = 2"
definition block_header_overhead :: u64 where "block_header_overhead = 8"
definition block_start_offset :: u64 where "block_start_offset = 8 + 8"
definition sizeof_block_header :: u64 where "sizeof_block_header = 32"
definition block_size_min :: u64 where "block_size_min = sizeof_block_header - 8"
definition block_size_max :: u64 where "block_size_max = push_bit FL_INDEX_MAX 1"

type_synonym mem_t = "u64 \<rightharpoonup> u64"

record control_t =
  block_null :: u64
  fl_bitmap :: u32
  sl_bitmap :: "u32 list"
  blocks :: "u64 list list"

record tlsf_t =
  ctl :: control_t
  cells :: mem_t

definition rd64 :: "mem_t \<Rightarrow> u64 \<Rightarrow> u64 option" where
  "rd64 m a = m a"

definition wr64 :: "mem_t \<Rightarrow> u64 \<Rightarrow> u64 \<Rightarrow> mem_t option" where
  "wr64 m a x = (case m a of None \<Rightarrow> None | Some _ \<Rightarrow> Some (m(a \<mapsto> x)))"

definition tlsf_assert :: "bool \<Rightarrow> unit option" where
  "tlsf_assert b = (if b then Some () else None)"

text \<open>The addresses of the four fields of a header.\<close>

definition prev_phys_block :: "u64 \<Rightarrow> u64" where [simp]: "prev_phys_block b = b"
abbreviation size_of :: "u64 \<Rightarrow> u64" where "size_of b \<equiv> b + 8"
abbreviation next_free :: "u64 \<Rightarrow> u64" where "next_free b \<equiv> b + 16"
abbreviation prev_free :: "u64 \<Rightarrow> u64" where "prev_free b \<equiv> b + 24"

section \<open>Block headers\<close>

definition block_flags :: u64 where
  "block_flags = block_header_free_bit OR block_header_prev_free_bit"

definition block_size :: "mem_t \<Rightarrow> u64 \<Rightarrow> u64 option" where
  "block_size m b = do { z \<leftarrow> rd64 m (size_of b); Some (z AND NOT block_flags) }"

definition block_set_size :: "mem_t \<Rightarrow> u64 \<Rightarrow> u64 \<Rightarrow> mem_t option" where
  "block_set_size m b n = do {
     oldsize \<leftarrow> rd64 m (size_of b);
     wr64 m (size_of b) (n OR (oldsize AND block_flags)) }"

definition block_is_last :: "mem_t \<Rightarrow> u64 \<Rightarrow> bool option" where
  "block_is_last m b = do { n \<leftarrow> block_size m b; Some (n = 0) }"

definition block_is_free :: "mem_t \<Rightarrow> u64 \<Rightarrow> bool option" where
  "block_is_free m b = do { z \<leftarrow> rd64 m (size_of b); Some (z AND block_header_free_bit \<noteq> 0) }"

definition block_set_free :: "mem_t \<Rightarrow> u64 \<Rightarrow> mem_t option" where
  "block_set_free m b = do { z \<leftarrow> rd64 m (size_of b); wr64 m (size_of b) (z OR block_header_free_bit) }"

definition block_set_used :: "mem_t \<Rightarrow> u64 \<Rightarrow> mem_t option" where
  "block_set_used m b = do { z \<leftarrow> rd64 m (size_of b); wr64 m (size_of b) (z AND NOT block_header_free_bit) }"

definition block_is_prev_free :: "mem_t \<Rightarrow> u64 \<Rightarrow> bool option" where
  "block_is_prev_free m b = do { z \<leftarrow> rd64 m (size_of b); Some (z AND block_header_prev_free_bit \<noteq> 0) }"

definition block_set_prev_free :: "mem_t \<Rightarrow> u64 \<Rightarrow> mem_t option" where
  "block_set_prev_free m b = do { z \<leftarrow> rd64 m (size_of b); wr64 m (size_of b) (z OR block_header_prev_free_bit) }"

definition block_set_prev_used :: "mem_t \<Rightarrow> u64 \<Rightarrow> mem_t option" where
  "block_set_prev_used m b = do { z \<leftarrow> rd64 m (size_of b); wr64 m (size_of b) (z AND NOT block_header_prev_free_bit) }"

definition block_from_ptr :: "u64 \<Rightarrow> u64" where
  "block_from_ptr p = p - block_start_offset"

definition block_to_ptr :: "u64 \<Rightarrow> u64" where
  "block_to_ptr b = b + block_start_offset"

definition offset_to_block :: "u64 \<Rightarrow> u64 \<Rightarrow> u64" where
  "offset_to_block p n = p + n"

definition block_prev :: "mem_t \<Rightarrow> u64 \<Rightarrow> u64 option" where
  "block_prev m b = do {
     p \<leftarrow> block_is_prev_free m b;
     tlsf_assert p;
     rd64 m (prev_phys_block b) }"

definition block_next :: "mem_t \<Rightarrow> u64 \<Rightarrow> u64 option" where
  "block_next m b = do {
     n \<leftarrow> block_size m b;
     let next = offset_to_block (block_to_ptr b) (n - block_header_overhead);
     l \<leftarrow> block_is_last m b;
     tlsf_assert (\<not> l);
     Some next }"

definition block_link_next :: "mem_t \<Rightarrow> u64 \<Rightarrow> (u64 \<times> mem_t) option" where
  "block_link_next m b = do {
     next \<leftarrow> block_next m b;
     m \<leftarrow> wr64 m (prev_phys_block next) b;
     Some (next, m) }"

definition block_mark_as_free :: "mem_t \<Rightarrow> u64 \<Rightarrow> mem_t option" where
  "block_mark_as_free m b = do {
     (next, m) \<leftarrow> block_link_next m b;
     m \<leftarrow> block_set_prev_free m next;
     block_set_free m b }"

definition block_mark_as_used :: "mem_t \<Rightarrow> u64 \<Rightarrow> mem_t option" where
  "block_mark_as_used m b = do {
     next \<leftarrow> block_next m b;
     m \<leftarrow> block_set_prev_used m next;
     block_set_used m b }"

section \<open>Sizes\<close>

definition align_up :: "u64 \<Rightarrow> u64 \<Rightarrow> u64 option" where
  "align_up x a = do {
     tlsf_assert (0 = (a AND (a - 1)));
     Some ((x + (a - 1)) AND NOT (a - 1)) }"

definition align_down :: "u64 \<Rightarrow> u64 \<Rightarrow> u64 option" where
  "align_down x a = do {
     tlsf_assert (0 = (a AND (a - 1)));
     Some (x - (x AND (a - 1))) }"

definition align_ptr :: "u64 \<Rightarrow> u64 \<Rightarrow> u64 option" where
  "align_ptr p a = do {
     let aligned = (p + (a - 1)) AND NOT (a - 1);
     tlsf_assert (0 = (a AND (a - 1)));
     Some aligned }"

definition adjust_request_size :: "u64 \<Rightarrow> u64 \<Rightarrow> u64 option" where
  "adjust_request_size n a =
     (if n \<noteq> 0 then do {
        aligned \<leftarrow> align_up n a;
        Some (if aligned < block_size_max then max aligned block_size_min else 0) }
      else Some 0)"

definition mapping_insert :: "u64 \<Rightarrow> int \<times> int" where
  "mapping_insert n =
     (if n < SMALL_BLOCK_SIZE
      then (0, sint (ucast n :: c_int) div (int (unat SMALL_BLOCK_SIZE) div int SL_INDEX_COUNT))
      else let fl = tlsf_fls_sizet n;
               sl = ucast (drop_bit (nat (fl - int SL_INDEX_COUNT_LOG2)) n) XOR push_bit SL_INDEX_COUNT_LOG2 (1 :: c_int)
           in (fl - (int FL_INDEX_SHIFT - 1), sint sl))"

text \<open>The shift is computed as an \<open>int\<close>; sizes that get here are below \<open>block_size_max\<close>.\<close>

definition mapping_search :: "u64 \<Rightarrow> int \<times> int" where
  "mapping_search n =
     (if SMALL_BLOCK_SIZE \<le> n
      then let rnd = push_bit (nat (tlsf_fls_sizet n - int SL_INDEX_COUNT_LOG2)) (1 :: c_int) - 1
           in mapping_insert (n + scast rnd)
      else mapping_insert n)"

section \<open>Free lists\<close>

text \<open>The address 0 is \<open>NULL\<close>.  The result holds the block and the final values of \<open>*fli\<close> and \<open>*sli\<close>.\<close>

definition first_block :: "control_t \<Rightarrow> int \<Rightarrow> u32 \<Rightarrow> (u64 \<times> int \<times> int) option" where
  "first_block control fl sl_map = do {
     tlsf_assert (sl_map \<noteq> 0);
     let sl = tlsf_ffs sl_map;
     row \<leftarrow> arr_at (blocks control) fl;
     b \<leftarrow> arr_at row sl;
     Some (b, fl, sl) }"

definition search_suitable_block :: "control_t \<Rightarrow> int \<Rightarrow> int \<Rightarrow> (u64 \<times> int \<times> int) option" where
  "search_suitable_block control fl sl = do {
     row \<leftarrow> arr_at (sl_bitmap control) fl;
     let sl_map = row AND push_bit (nat sl) (NOT 0);
     if sl_map = 0
     then let fl_map = fl_bitmap control AND push_bit (nat (fl + 1)) (NOT 0) in
       if fl_map = 0 then Some (0, fl, sl)
       else do {
         let fl = tlsf_ffs fl_map;
         sl_map \<leftarrow> arr_at (sl_bitmap control) fl;
         first_block control fl sl_map }
     else first_block control fl sl_map }"

definition set_head :: "control_t \<Rightarrow> int \<Rightarrow> int \<Rightarrow> u64 \<Rightarrow> control_t option" where
  "set_head control fl sl b = do {
     row \<leftarrow> arr_at (blocks control) fl;
     row \<leftarrow> arr_set row (nat sl) b;
     rows \<leftarrow> arr_set (blocks control) (nat fl) row;
     Some (control\<lparr>blocks := rows\<rparr>) }"

definition set_sl_bitmap :: "control_t \<Rightarrow> int \<Rightarrow> u32 \<Rightarrow> control_t option" where
  "set_sl_bitmap control fl w = do {
     rows \<leftarrow> arr_set (sl_bitmap control) (nat fl) w;
     Some (control\<lparr>sl_bitmap := rows\<rparr>) }"

definition remove_head :: "control_t \<Rightarrow> u64 \<Rightarrow> int \<Rightarrow> int \<Rightarrow> control_t option" where
  "remove_head control next fl sl = do {
     control \<leftarrow> set_head control fl sl next;
     if next = block_null control
     then do {
       row \<leftarrow> arr_at (sl_bitmap control) fl;
       let row = row AND NOT (push_bit (nat sl) 1);
       control \<leftarrow> set_sl_bitmap control fl row;
       Some (if row = 0 then control\<lparr>fl_bitmap := fl_bitmap control AND NOT (push_bit (nat fl) 1)\<rparr> else control) }
     else Some control }"

definition remove_free_block :: "tlsf_t \<Rightarrow> u64 \<Rightarrow> int \<Rightarrow> int \<Rightarrow> tlsf_t option" where
  "remove_free_block t b fl sl = do {
     prev \<leftarrow> rd64 (cells t) (prev_free b);
     next \<leftarrow> rd64 (cells t) (next_free b);
     tlsf_assert (prev \<noteq> 0);
     tlsf_assert (next \<noteq> 0);
     m \<leftarrow> wr64 (cells t) (prev_free next) prev;
     m \<leftarrow> wr64 m (next_free prev) next;
     row \<leftarrow> arr_at (blocks (ctl t)) fl;
     hd \<leftarrow> arr_at row sl;
     control \<leftarrow> (if hd = b then remove_head (ctl t) next fl sl else Some (ctl t));
     Some \<lparr>ctl = control, cells = m\<rparr> }"

definition insert_free_block :: "tlsf_t \<Rightarrow> u64 \<Rightarrow> int \<Rightarrow> int \<Rightarrow> tlsf_t option" where
  "insert_free_block t b fl sl = do {
     let control = ctl t;
     row \<leftarrow> arr_at (blocks control) fl;
     current \<leftarrow> arr_at row sl;
     tlsf_assert (current \<noteq> 0);
     tlsf_assert (b \<noteq> 0);
     m \<leftarrow> wr64 (cells t) (next_free b) current;
     m \<leftarrow> wr64 m (prev_free b) (block_null control);
     m \<leftarrow> wr64 m (prev_free current) b;
     aligned \<leftarrow> align_ptr (block_to_ptr b) ALIGN_SIZE;
     tlsf_assert (block_to_ptr b = aligned);
     control \<leftarrow> set_head control fl sl b;
     let control = control\<lparr>fl_bitmap := fl_bitmap control OR push_bit (nat fl) 1\<rparr>;
     row \<leftarrow> arr_at (sl_bitmap control) fl;
     control \<leftarrow> set_sl_bitmap control fl (row OR push_bit (nat sl) 1);
     Some \<lparr>ctl = control, cells = m\<rparr> }"

definition block_remove :: "tlsf_t \<Rightarrow> u64 \<Rightarrow> tlsf_t option" where
  "block_remove t b = do {
     n \<leftarrow> block_size (cells t) b;
     let (fl, sl) = mapping_insert n;
     remove_free_block t b fl sl }"

definition block_insert :: "tlsf_t \<Rightarrow> u64 \<Rightarrow> tlsf_t option" where
  "block_insert t b = do {
     n \<leftarrow> block_size (cells t) b;
     let (fl, sl) = mapping_insert n;
     insert_free_block t b fl sl }"

section \<open>Splitting and merging\<close>

definition block_can_split :: "mem_t \<Rightarrow> u64 \<Rightarrow> u64 \<Rightarrow> bool option" where
  "block_can_split m b n = do { z \<leftarrow> block_size m b; Some (sizeof_block_header + n \<le> z) }"

definition block_split :: "mem_t \<Rightarrow> u64 \<Rightarrow> u64 \<Rightarrow> (u64 \<times> mem_t) option" where
  "block_split m b n = do {
     let remaining = offset_to_block (block_to_ptr b) (n - block_header_overhead);
     z \<leftarrow> block_size m b;
     let remain_size = z - (n + block_header_overhead);
     aligned \<leftarrow> align_ptr (block_to_ptr remaining) ALIGN_SIZE;
     tlsf_assert (block_to_ptr remaining = aligned);
     tlsf_assert (z = remain_size + n + block_header_overhead);
     m \<leftarrow> block_set_size m remaining remain_size;
     z \<leftarrow> block_size m remaining;
     tlsf_assert (block_size_min \<le> z);
     m \<leftarrow> block_set_size m b n;
     m \<leftarrow> block_mark_as_free m remaining;
     Some (remaining, m) }"

definition block_absorb :: "mem_t \<Rightarrow> u64 \<Rightarrow> u64 \<Rightarrow> mem_t option" where
  "block_absorb m prev b = do {
     l \<leftarrow> block_is_last m prev;
     tlsf_assert (\<not> l);
     z \<leftarrow> rd64 m (size_of prev);
     n \<leftarrow> block_size m b;
     m \<leftarrow> wr64 m (size_of prev) (z + (n + block_header_overhead));
     (_, m) \<leftarrow> block_link_next m prev;
     Some m }"

definition block_merge_prev :: "tlsf_t \<Rightarrow> u64 \<Rightarrow> (u64 \<times> tlsf_t) option" where
  "block_merge_prev t b = do {
     p \<leftarrow> block_is_prev_free (cells t) b;
     if p then do {
       prev \<leftarrow> block_prev (cells t) b;
       tlsf_assert (prev \<noteq> 0);
       f \<leftarrow> block_is_free (cells t) prev;
       tlsf_assert f;
       t \<leftarrow> block_remove t prev;
       m \<leftarrow> block_absorb (cells t) prev b;
       Some (prev, t\<lparr>cells := m\<rparr>) }
     else Some (b, t) }"

definition block_merge_next :: "tlsf_t \<Rightarrow> u64 \<Rightarrow> (u64 \<times> tlsf_t) option" where
  "block_merge_next t b = do {
     next \<leftarrow> block_next (cells t) b;
     tlsf_assert (next \<noteq> 0);
     f \<leftarrow> block_is_free (cells t) next;
     if f then do {
       l \<leftarrow> block_is_last (cells t) b;
       tlsf_assert (\<not> l);
       t \<leftarrow> block_remove t next;
       m \<leftarrow> block_absorb (cells t) b next;
       Some (b, t\<lparr>cells := m\<rparr>) }
     else Some (b, t) }"

definition block_trim_free :: "tlsf_t \<Rightarrow> u64 \<Rightarrow> u64 \<Rightarrow> tlsf_t option" where
  "block_trim_free t b n = do {
     f \<leftarrow> block_is_free (cells t) b;
     tlsf_assert f;
     c \<leftarrow> block_can_split (cells t) b n;
     if c then do {
       (remaining, m) \<leftarrow> block_split (cells t) b n;
       (_, m) \<leftarrow> block_link_next m b;
       m \<leftarrow> block_set_prev_free m remaining;
       block_insert (t\<lparr>cells := m\<rparr>) remaining }
     else Some t }"

definition block_trim_used :: "tlsf_t \<Rightarrow> u64 \<Rightarrow> u64 \<Rightarrow> tlsf_t option" where
  "block_trim_used t b n = do {
     f \<leftarrow> block_is_free (cells t) b;
     tlsf_assert (\<not> f);
     c \<leftarrow> block_can_split (cells t) b n;
     if c then do {
       (remaining, m) \<leftarrow> block_split (cells t) b n;
       m \<leftarrow> block_set_prev_used m remaining;
       (remaining, t) \<leftarrow> block_merge_next (t\<lparr>cells := m\<rparr>) remaining;
       block_insert t remaining }
     else Some t }"

definition block_trim_free_leading :: "tlsf_t \<Rightarrow> u64 \<Rightarrow> u64 \<Rightarrow> (u64 \<times> tlsf_t) option" where
  "block_trim_free_leading t b n = do {
     c \<leftarrow> block_can_split (cells t) b n;
     if c then do {
       (remaining, m) \<leftarrow> block_split (cells t) b (n - block_header_overhead);
       m \<leftarrow> block_set_prev_free m remaining;
       (_, m) \<leftarrow> block_link_next m b;
       t \<leftarrow> block_insert (t\<lparr>cells := m\<rparr>) b;
       Some (remaining, t) }
     else Some (b, t) }"

definition block_locate_free :: "tlsf_t \<Rightarrow> u64 \<Rightarrow> (u64 \<times> tlsf_t) option" where
  "block_locate_free t n =
     (if n = 0 then Some (0, t)
      else let (fl, sl) = mapping_search n in
        if fl < int FL_INDEX_COUNT then do {
          (b, fl, sl) \<leftarrow> search_suitable_block (ctl t) fl sl;
          if b \<noteq> 0 then do {
            z \<leftarrow> block_size (cells t) b;
            tlsf_assert (n \<le> z);
            t \<leftarrow> remove_free_block t b fl sl;
            Some (b, t) }
          else Some (0, t) }
        else Some (0, t))"

definition block_prepare_used :: "tlsf_t \<Rightarrow> u64 \<Rightarrow> u64 \<Rightarrow> (u64 \<times> tlsf_t) option" where
  "block_prepare_used t b n =
     (if b \<noteq> 0 then do {
        tlsf_assert (n \<noteq> 0);
        t \<leftarrow> block_trim_free t b n;
        m \<leftarrow> block_mark_as_used (cells t) b;
        Some (block_to_ptr b, t\<lparr>cells := m\<rparr>) }
      else Some (0, t))"

definition control_construct :: "mem_t \<Rightarrow> u64 \<Rightarrow> tlsf_t option" where
  "control_construct m control = do {
     m \<leftarrow> wr64 m (next_free control) control;
     m \<leftarrow> wr64 m (prev_free control) control;
     Some \<lparr>ctl = \<lparr>block_null = control, fl_bitmap = 0, sl_bitmap = replicate FL_INDEX_COUNT 0,
                 blocks = replicate FL_INDEX_COUNT (replicate SL_INDEX_COUNT control)\<rparr>,
           cells = m\<rparr> }"

section \<open>Interface\<close>

definition tlsf_block_size :: "mem_t \<Rightarrow> u64 \<Rightarrow> u64 option" where
  "tlsf_block_size m p = (if p \<noteq> 0 then block_size m (block_from_ptr p) else Some 0)"

definition tlsf_align_size :: u64 where "tlsf_align_size = ALIGN_SIZE"
definition tlsf_block_size_min :: u64 where "tlsf_block_size_min = block_size_min"
definition tlsf_block_size_max :: u64 where "tlsf_block_size_max = block_size_max"
definition tlsf_pool_overhead :: u64 where "tlsf_pool_overhead = 2 * block_header_overhead"
definition tlsf_alloc_overhead :: u64 where "tlsf_alloc_overhead = block_header_overhead"

text \<open>\<open>sizeof(control_t)\<close>: the null block, 26 words of bitmaps, the table of list heads.\<close>

definition tlsf_size :: u64 where
  "tlsf_size = sizeof_block_header + 4 * (1 + of_nat FL_INDEX_COUNT) + 8 * of_nat (FL_INDEX_COUNT * SL_INDEX_COUNT)"

definition tlsf_add_pool :: "tlsf_t \<Rightarrow> u64 \<Rightarrow> u64 \<Rightarrow> (u64 \<times> tlsf_t) option" where
  "tlsf_add_pool t p bytes = do {
     pool_bytes \<leftarrow> align_down (bytes - tlsf_pool_overhead) ALIGN_SIZE;
     if p mod ALIGN_SIZE \<noteq> 0 then Some (0, t)
     else if pool_bytes < block_size_min \<or> block_size_max < pool_bytes then Some (0, t)
     else do {
       let b = offset_to_block p (- block_header_overhead);
       m \<leftarrow> block_set_size (cells t) b pool_bytes;
       m \<leftarrow> block_set_free m b;
       m \<leftarrow> block_set_prev_used m b;
       t \<leftarrow> block_insert (t\<lparr>cells := m\<rparr>) b;
       (next, m) \<leftarrow> block_link_next (cells t) b;
       m \<leftarrow> block_set_size m next 0;
       m \<leftarrow> block_set_used m next;
       m \<leftarrow> block_set_prev_free m next;
       Some (p, t\<lparr>cells := m\<rparr>) } }"

definition tlsf_remove_pool :: "tlsf_t \<Rightarrow> u64 \<Rightarrow> tlsf_t option" where
  "tlsf_remove_pool t p = do {
     let b = offset_to_block p (- block_header_overhead);
     f \<leftarrow> block_is_free (cells t) b;
     tlsf_assert f;
     next \<leftarrow> block_next (cells t) b;
     g \<leftarrow> block_is_free (cells t) next;
     tlsf_assert (\<not> g);
     z \<leftarrow> block_size (cells t) next;
     tlsf_assert (z = 0);
     n \<leftarrow> block_size (cells t) b;
     let (fl, sl) = mapping_insert n;
     remove_free_block t b fl sl }"

text \<open>\<open>None\<close> in the first component is the result \<open>NULL\<close>.\<close>

definition tlsf_create :: "mem_t \<Rightarrow> u64 \<Rightarrow> tlsf_t ptr option" where
  "tlsf_create m p =
     (if test_ffs_fls \<noteq> 0 then Some None
      else if p mod ALIGN_SIZE \<noteq> 0 then Some None
      else do { t \<leftarrow> control_construct m p; Some (Some t) })"

definition tlsf_create_with_pool :: "mem_t \<Rightarrow> u64 \<Rightarrow> u64 \<Rightarrow> tlsf_t option" where
  "tlsf_create_with_pool m p bytes = do {
     t \<leftarrow> tlsf_create m p;
     t \<leftarrow> t;
     (_, t) \<leftarrow> tlsf_add_pool t (p + tlsf_size) (bytes - tlsf_size);
     Some t }"

definition tlsf_get_pool :: "tlsf_t \<Rightarrow> u64" where
  "tlsf_get_pool t = block_null (ctl t) + tlsf_size"

definition tlsf_malloc :: "tlsf_t \<Rightarrow> u64 \<Rightarrow> (u64 \<times> tlsf_t) option" where
  "tlsf_malloc t n = do {
     adjust \<leftarrow> adjust_request_size n ALIGN_SIZE;
     (b, t) \<leftarrow> block_locate_free t adjust;
     block_prepare_used t b adjust }"

text \<open>The aligned address in a free block and the gap before it.\<close>

definition aligned_gap :: "u64 \<Rightarrow> u64 \<Rightarrow> u64 option" where
  "aligned_gap p a = do {
     let gap_minimum = sizeof_block_header;
     aligned \<leftarrow> align_ptr p a;
     let gap = aligned - p;
     if gap \<noteq> 0 \<and> gap < gap_minimum
     then do {
       let gap_remain = gap_minimum - gap;
       let offset = max gap_remain a;
       aligned \<leftarrow> align_ptr (aligned + offset) a;
       Some (aligned - p) }
     else Some gap }"

definition tlsf_memalign :: "tlsf_t \<Rightarrow> u64 \<Rightarrow> u64 \<Rightarrow> (u64 \<times> tlsf_t) option" where
  "tlsf_memalign t a n = do {
     adjust \<leftarrow> adjust_request_size n ALIGN_SIZE;
     let gap_minimum = sizeof_block_header;
     size_with_gap \<leftarrow> adjust_request_size (adjust + a + gap_minimum) a;
     let aligned_size = (if adjust \<noteq> 0 \<and> ALIGN_SIZE < a then size_with_gap else adjust);
     (b, t) \<leftarrow> block_locate_free t aligned_size;
     tlsf_assert (sizeof_block_header = block_size_min + block_header_overhead);
     (b, t) \<leftarrow> (if b \<noteq> 0
       then do {
         gap \<leftarrow> aligned_gap (block_to_ptr b) a;
         if gap \<noteq> 0
         then do {
           tlsf_assert (gap_minimum \<le> gap);
           block_trim_free_leading t b gap }
         else Some (b, t) }
       else Some (b, t));
     block_prepare_used t b adjust }"

definition tlsf_free :: "tlsf_t \<Rightarrow> u64 \<Rightarrow> tlsf_t option" where
  "tlsf_free t p =
     (if p \<noteq> 0 then do {
        let b = block_from_ptr p;
        f \<leftarrow> block_is_free (cells t) b;
        tlsf_assert (\<not> f);
        m \<leftarrow> block_mark_as_free (cells t) b;
        (b, t) \<leftarrow> block_merge_prev (t\<lparr>cells := m\<rparr>) b;
        (b, t) \<leftarrow> block_merge_next t b;
        block_insert t b }
      else Some t)"

text \<open>\<^verbatim>\<open>memcpy\<close> on cells; of the last cell only the low bytes are copied (little endian).\<close>

function memcpy_cells :: "mem_t \<Rightarrow> u64 \<Rightarrow> u64 \<Rightarrow> nat \<Rightarrow> mem_t option" where
  "memcpy_cells m dst src n =
     (if n = 0 then Some m
      else do {
        x \<leftarrow> rd64 m src;
        if 8 \<le> n then do {
          m \<leftarrow> wr64 m dst x;
          memcpy_cells m (dst + 8) (src + 8) (n - 8) }
        else do {
          y \<leftarrow> rd64 m dst;
          wr64 m dst (take_bit (8 * n) x OR (y AND NOT (Bit_Operations.mask (8 * n)))) } })"
  by pat_completeness auto
termination
  by (relation "measure (\<lambda>(m, dst, src, n). n)") auto

declare memcpy_cells.simps [simp del]

definition tlsf_realloc :: "tlsf_t \<Rightarrow> u64 \<Rightarrow> u64 \<Rightarrow> (u64 \<times> tlsf_t) option" where
  "tlsf_realloc t p n =
     (if p \<noteq> 0 \<and> n = 0 then do { t \<leftarrow> tlsf_free t p; Some (0, t) }
      else if p = 0 then tlsf_malloc t n
      else do {
        let b = block_from_ptr p;
        next \<leftarrow> block_next (cells t) b;
        cursize \<leftarrow> block_size (cells t) b;
        z \<leftarrow> block_size (cells t) next;
        let combined = cursize + z + block_header_overhead;
        adjust \<leftarrow> adjust_request_size n ALIGN_SIZE;
        f \<leftarrow> block_is_free (cells t) b;
        tlsf_assert (\<not> f);
        g \<leftarrow> block_is_free (cells t) next;
        if cursize < adjust \<and> (\<not> g \<or> combined < adjust)
        then do {
          (q, t) \<leftarrow> tlsf_malloc t n;
          if q \<noteq> 0 then do {
            m \<leftarrow> memcpy_cells (cells t) q p (unat (min cursize n));
            t \<leftarrow> tlsf_free (t\<lparr>cells := m\<rparr>) p;
            Some (q, t) }
          else Some (0, t) }
        else do {
          t \<leftarrow> (if cursize < adjust
            then do {
              (_, t) \<leftarrow> block_merge_next t b;
              m \<leftarrow> block_mark_as_used (cells t) b;
              Some (t\<lparr>cells := m\<rparr>) }
            else Some t);
          t \<leftarrow> block_trim_used t b adjust;
          Some (p, t) } })"

section \<open>Walking and checking\<close>

type_synonym 'u walker = "u64 \<Rightarrow> u64 \<Rightarrow> bool \<Rightarrow> 'u \<Rightarrow> 'u option"

text \<open>A walker reads memory and updates what \<^verbatim>\<open>user\<close> points to.\<close>

partial_function (option) walk_from :: "mem_t \<Rightarrow> u64 \<Rightarrow> 'u walker \<Rightarrow> 'u \<Rightarrow> 'u option" where
  "walk_from m b walker user =
     (if b = 0 then Some user
      else Option.bind (block_is_last m b) (\<lambda>l.
        if l then Some user
        else Option.bind (block_size m b) (\<lambda>n.
          Option.bind (block_is_free m b) (\<lambda>f.
          Option.bind (walker (block_to_ptr b) n (\<not> f) user) (\<lambda>user.
          Option.bind (block_next m b) (\<lambda>next. walk_from m next walker user))))))"

definition tlsf_walk_pool :: "mem_t \<Rightarrow> u64 \<Rightarrow> 'u walker \<Rightarrow> 'u \<Rightarrow> 'u option" where
  "tlsf_walk_pool m pool walker user = walk_from m (offset_to_block pool (- block_header_overhead)) walker user"

record integrity_t =
  prev_status :: int
  integ_status :: int

definition tlsf_insist :: "bool \<Rightarrow> int \<Rightarrow> int option" where
  "tlsf_insist x status = do { tlsf_assert x; Some (if \<not> x then status - 1 else status) }"

definition integrity_walker :: "mem_t \<Rightarrow> integrity_t walker" where
  "integrity_walker m p n used integ = do {
     let b = block_from_ptr p;
     pf \<leftarrow> block_is_prev_free m b;
     f \<leftarrow> block_is_free m b;
     this_block_size \<leftarrow> block_size m b;
     let this_prev_status = (if pf then 1 else 0);
     let this_status = (if f then 1 else 0);
     status \<leftarrow> tlsf_insist (prev_status integ = this_prev_status) 0;
     status \<leftarrow> tlsf_insist (n = this_block_size) status;
     Some \<lparr>prev_status = this_status, integ_status = integ_status integ + status\<rparr> }"

definition tlsf_check_pool :: "mem_t \<Rightarrow> u64 \<Rightarrow> int option" where
  "tlsf_check_pool m pool = do {
     integ \<leftarrow> tlsf_walk_pool m pool (integrity_walker m) \<lparr>prev_status = 0, integ_status = 0\<rparr>;
     Some (integ_status integ) }"

definition check_block :: "mem_t \<Rightarrow> u64 \<Rightarrow> int \<Rightarrow> int \<Rightarrow> int \<Rightarrow> int option" where
  "check_block m b i j status = do {
     f \<leftarrow> block_is_free m b;
     status \<leftarrow> tlsf_insist f status;
     pf \<leftarrow> block_is_prev_free m b;
     status \<leftarrow> tlsf_insist (\<not> pf) status;
     next \<leftarrow> block_next m b;
     g \<leftarrow> block_is_free m next;
     status \<leftarrow> tlsf_insist (\<not> g) status;
     npf \<leftarrow> block_is_prev_free m next;
     status \<leftarrow> tlsf_insist npf status;
     n \<leftarrow> block_size m b;
     status \<leftarrow> tlsf_insist (block_size_min \<le> n) status;
     tlsf_insist (mapping_insert n = (i, j)) status }"

partial_function (option) check_chain :: "mem_t \<Rightarrow> u64 \<Rightarrow> u64 \<Rightarrow> int \<Rightarrow> int \<Rightarrow> int \<Rightarrow> int option" where
  "check_chain m null b i j status =
     (if b = null then Some status
      else Option.bind (check_block m b i j status) (\<lambda>status.
        Option.bind (rd64 m (next_free b)) (\<lambda>next. check_chain m null next i j status)))"

definition check_list :: "tlsf_t \<Rightarrow> nat \<Rightarrow> nat \<Rightarrow> int \<Rightarrow> int option" where
  "check_list t i j status = do {
     let control = ctl t;
     let fl_map = fl_bitmap control AND push_bit i 1;
     sl_list \<leftarrow> arr_get (sl_bitmap control) i;
     let sl_map = sl_list AND push_bit j 1;
     row \<leftarrow> arr_get (blocks control) i;
     b \<leftarrow> arr_get row j;
     status \<leftarrow> (if fl_map = 0 then tlsf_insist (sl_map = 0) status else Some status);
     if sl_map = 0 then tlsf_insist (b = block_null control) status
     else do {
       status \<leftarrow> tlsf_insist (sl_list \<noteq> 0) status;
       status \<leftarrow> tlsf_insist (b \<noteq> block_null control) status;
       check_chain (cells t) (block_null control) b (int i) (int j) status } }"

fun check_lists :: "tlsf_t \<Rightarrow> (nat \<times> nat) list \<Rightarrow> int \<Rightarrow> int option" where
  "check_lists t [] status = Some status"
| "check_lists t ((i, j) # ijs) status = do { status \<leftarrow> check_list t i j status; check_lists t ijs status }"

declare walk_from.simps [code] check_chain.simps [code]

definition tlsf_check :: "tlsf_t \<Rightarrow> int option" where
  "tlsf_check t = check_lists t (List.product [0..<FL_INDEX_COUNT] [0..<SL_INDEX_COUNT]) 0"

end
