(* ===== verification/Heap.thy ===== *)
theory Heap
  imports Tlsf Sync
begin

text \<open>
  The heap of \<^verbatim>\<open>heap.c\<close>: a growing set of arenas from the operating system under one TLSF allocator, a mutex
  around every operation, and a callstack behind every allocation for the leak report at the end.  The functions
  of Windows that hand out and take back pages and that name the symbols of a stack are parameters; a
  callstack is what \<^verbatim>\<open>CaptureStackBackTrace\<close> returned to the caller.  The structs \<^verbatim>\<open>heap_t\<close> and \<^verbatim>\<open>arena_t\<close> are
  records, the rest of the memory is the memory of the allocator.
\<close>

section \<open>Bytes in memory\<close>

definition get_byte :: "mem_t \<Rightarrow> u64 \<Rightarrow> u64 option" where
  "get_byte m a = do {
     w \<leftarrow> rd64 m (a AND NOT (Bit_Operations.mask 3));
     Some (take_bit 8 (drop_bit (8 * unat (take_bit 3 a)) w)) }"

definition put_byte :: "mem_t \<Rightarrow> u64 \<Rightarrow> u64 \<Rightarrow> mem_t option" where
  "put_byte m a x = do {
     let c = a AND NOT (Bit_Operations.mask 3);
     let s = 8 * unat (take_bit 3 a);
     w \<leftarrow> rd64 m c;
     wr64 m c ((w AND NOT (push_bit s 0xFF)) OR push_bit s (take_bit 8 x)) }"

fun put_bytes :: "mem_t \<Rightarrow> u64 \<Rightarrow> u64 list \<Rightarrow> mem_t option" where
  "put_bytes m a [] = Some m"
| "put_bytes m a (x # xs) = do { m \<leftarrow> put_byte m a x; put_bytes m (a + 1) xs }"

fun get_bytes :: "mem_t \<Rightarrow> u64 \<Rightarrow> nat \<Rightarrow> u64 option" where
  "get_bytes m a 0 = Some 0"
| "get_bytes m a (Suc n) = do { x \<leftarrow> get_byte m a; w \<leftarrow> get_bytes m (a + 1) n; Some (x OR push_bit 8 w) }"

definition bytes_of :: "nat \<Rightarrow> u64 \<Rightarrow> u64 list" where
  "bytes_of n w = map (\<lambda>i. take_bit 8 (drop_bit (8 * i) w)) [0..<n]"

section \<open>Callstacks\<close>

text \<open>\<^verbatim>\<open>sizeof(callstack_t)\<close>: a count, four bytes of padding, ten addresses.\<close>

definition sizeof_callstack :: u64 where "sizeof_callstack = 4 + 4 + 10 * 8"

definition debug_backtrace :: "u64 list \<Rightarrow> nat \<Rightarrow> u64 list" where
  "debug_backtrace stack capacity = take capacity stack"

definition put_callstack :: "mem_t \<Rightarrow> u64 \<Rightarrow> u64 list \<Rightarrow> mem_t option" where
  "put_callstack m a stack = do {
     let frames = debug_backtrace stack 10;
     m \<leftarrow> put_bytes m (a + 8) (concat (map (bytes_of 8) frames));
     put_bytes m a (bytes_of 4 (of_nat (length frames))) }"

text \<open>The lines that \<^verbatim>\<open>bt_print\<close> prints, from the frame \<open>i\<close> on, with \<open>n\<close> frames left.\<close>

fun bt_print :: "(u64 \<Rightarrow> string) \<Rightarrow> mem_t \<Rightarrow> u64 \<Rightarrow> nat \<Rightarrow> nat \<Rightarrow> (nat \<times> string) list option" where
  "bt_print syms m stack i 0 = Some []"
| "bt_print syms m stack i (Suc n) = do {
     a \<leftarrow> get_bytes m (stack + 8 * of_nat i) 8;
     let name = syms a;
     if name = ''main'' then Some [(i, name)]
     else do { rest \<leftarrow> bt_print syms m stack (i + 1) n; Some ((i, name) # rest) } }"

section \<open>The heap\<close>

text \<open>\<open>VirtualAlloc\<close> returns the address of new pages, or 0; \<open>VirtualFree\<close> takes pages back.\<close>

record os_api =
  VirtualAlloc :: "mem_t \<Rightarrow> u64 \<Rightarrow> u64"
  VirtualFree :: "mem_t \<Rightarrow> u64 \<Rightarrow> mem_t"
  SymFromAddr :: "u64 \<Rightarrow> string"

record arena_t =
  arena_address :: u64
  arena_pool :: u64

record 'm heap_t =
  heap_tlsf :: tlsf_t
  grow_increment :: u64
  heap_arenas :: "arena_t list"
  heap_mutex :: 'm

definition sizeof_heap :: u64 where "sizeof_heap = 4 * 8"
definition sizeof_arena :: u64 where "sizeof_arena = 2 * 8"

text \<open>Memory after pages of \<open>n\<close> bytes at \<open>p\<close> were committed: they are zero.\<close>

definition commit_pages :: "mem_t \<Rightarrow> u64 \<Rightarrow> u64 \<Rightarrow> mem_t" where
  "commit_pages m p n = (\<lambda>a. if p \<le> a \<and> a < p + n \<and> take_bit 3 a = 0 then Some 0 else m a)"

text \<open>
  \<open>None\<close> in the first component is the result \<open>NULL\<close>; a control block that \<^verbatim>\<open>tlsf_create\<close> refuses would be
  dereferenced by every other operation.
\<close>

definition heap_create :: "os_api \<Rightarrow> 'm mutex_api \<Rightarrow> mem_t \<Rightarrow> u64 \<Rightarrow> 'm heap_t ptr option" where
  "heap_create E M m grow = do {
     let bytes = sizeof_heap + tlsf_size;
     let heap = VirtualAlloc E m bytes;
     if heap = 0 then Some None
     else do {
       t \<leftarrow> tlsf_create (commit_pages m heap bytes) (heap + sizeof_heap);
       t \<leftarrow> t;
       Some (Some \<lparr>heap_tlsf = t, grow_increment = grow, heap_arenas = [], heap_mutex = mutex_create M\<rparr>) } }"

text \<open>Growing: \<open>False\<close> when the system is out of memory.\<close>

definition heap_grow :: "os_api \<Rightarrow> 'm heap_t \<Rightarrow> u64 \<Rightarrow> (bool \<times> 'm heap_t) option" where
  "heap_grow E heap bytes = do {
     let arena_size = max (grow_increment heap) (bytes * 2) + sizeof_arena;
     let t = heap_tlsf heap;
     let arena = VirtualAlloc E (cells t) (arena_size + tlsf_pool_overhead);
     if arena = 0 then Some (False, heap)
     else do {
       let t = t\<lparr>cells := commit_pages (cells t) arena (arena_size + tlsf_pool_overhead)\<rparr>;
       (pool, t) \<leftarrow> tlsf_add_pool t (arena + sizeof_arena) arena_size;
       Some (True, heap\<lparr>heap_tlsf := t,
         heap_arenas := \<lparr>arena_address = arena, arena_pool = pool\<rparr> # heap_arenas heap\<rparr>) } }"

definition heap_memalign :: "'m heap_t \<Rightarrow> u64 \<Rightarrow> u64 \<Rightarrow> (u64 \<times> 'm heap_t) option" where
  "heap_memalign heap bytes alignment = do {
     (address, t) \<leftarrow> tlsf_memalign (heap_tlsf heap) alignment (bytes + sizeof_callstack);
     Some (address, heap\<lparr>heap_tlsf := t\<rparr>) }"

text \<open>The first component is \<open>False\<close> after the early return, which leaves the mutex locked.\<close>

definition heap_find :: "os_api \<Rightarrow> 'm heap_t \<Rightarrow> u64 \<Rightarrow> u64 \<Rightarrow> (bool \<times> u64 \<times> 'm heap_t) option" where
  "heap_find E heap bytes alignment = do {
     (address, heap) \<leftarrow> heap_memalign heap bytes alignment;
     if address = 0 then do {
       (ok, heap) \<leftarrow> heap_grow E heap bytes;
       if \<not> ok then Some (False, 0, heap)
       else do {
         (address, heap) \<leftarrow> heap_memalign heap bytes alignment;
         Some (True, address, heap) } }
     else Some (True, address, heap) }"

definition heap_alloc ::
  "os_api \<Rightarrow> 'm mutex_api \<Rightarrow> tid \<Rightarrow> u64 list \<Rightarrow> 'm heap_t \<Rightarrow> u64 \<Rightarrow> u64 \<Rightarrow> (u64 \<times> 'm heap_t) outcome" where
  "heap_alloc E M me stack heap bytes alignment =
     (case mutex_lock M me (heap_mutex heap) of
        None \<Rightarrow> Blocks
      | Some mutex \<Rightarrow>
          (case heap_find E (heap\<lparr>heap_mutex := mutex\<rparr>) bytes alignment of
             None \<Rightarrow> Undefined
           | Some (ok, address, heap) \<Rightarrow>
               if \<not> ok then Returns (0, heap)
               else (case (if address \<noteq> 0 then put_callstack (cells (heap_tlsf heap)) (address + bytes) stack
                           else Some (cells (heap_tlsf heap))) of
                       None \<Rightarrow> Undefined
                     | Some m \<Rightarrow> Returns (address,
                         heap\<lparr>heap_tlsf := (heap_tlsf heap)\<lparr>cells := m\<rparr>, heap_mutex := mutex_unlock M me (heap_mutex heap)\<rparr>))))"

definition heap_free :: "'m mutex_api \<Rightarrow> tid \<Rightarrow> 'm heap_t \<Rightarrow> u64 \<Rightarrow> 'm heap_t outcome" where
  "heap_free M me heap address =
     (case mutex_lock M me (heap_mutex heap) of
        None \<Rightarrow> Blocks
      | Some mutex \<Rightarrow>
          (case tlsf_free (heap_tlsf heap) address of
             None \<Rightarrow> Undefined
           | Some t \<Rightarrow> Returns (heap\<lparr>heap_tlsf := t, heap_mutex := mutex_unlock M me mutex\<rparr>)))"

section \<open>The leak report\<close>

text \<open>The size and the callstack that are printed for a block in use.\<close>

type_synonym leak_t = "c_int \<times> (nat \<times> string) list"

definition check_pool :: "os_api \<Rightarrow> mem_t \<Rightarrow> leak_t list walker" where
  "check_pool E m p n used leaks =
     (if used then do {
        let cs = p + n - sizeof_callstack;
        frames \<leftarrow> get_bytes m cs 4;
        lines \<leftarrow> bt_print (SymFromAddr E) m (cs + 8) 0 (nat (sint (ucast frames :: c_int)));
        Some (leaks @ [(ucast n - ucast sizeof_callstack, lines)]) }
      else Some leaks)"

fun destroy_arenas :: "os_api \<Rightarrow> mem_t \<Rightarrow> arena_t list \<Rightarrow> leak_t list \<Rightarrow> (leak_t list \<times> mem_t) option" where
  "destroy_arenas E m [] leaks = Some (leaks, m)"
| "destroy_arenas E m (arena # arenas) leaks = do {
     leaks \<leftarrow> tlsf_walk_pool m (arena_pool arena) (check_pool E m) leaks;
     destroy_arenas E (VirtualFree E m (arena_address arena)) arenas leaks }"

text \<open>The heap itself lies before the control block; closing the mutex has no effect on the memory.\<close>

definition heap_destroy :: "os_api \<Rightarrow> 'm heap_t \<Rightarrow> (leak_t list \<times> mem_t) option" where
  "heap_destroy E heap = do {
     (leaks, m) \<leftarrow> destroy_arenas E (cells (heap_tlsf heap)) (heap_arenas heap) [];
     Some (leaks, VirtualFree E m (block_null (ctl (heap_tlsf heap)) - sizeof_heap)) }"

end
