(* ===== verification/Tlsf_Phys.thy ===== *)
theory Tlsf_Phys
  imports Tlsf
begin

text \<open>
  The physical side of the allocator: blocks tile the pools, headers and back pointers describe
  them.  The blocks are described by a map from addresses to sizes and free flags; marking,
  splitting and absorbing blocks are operations on this map.
\<close>

section \<open>Addresses and headers\<close>

definition adr :: "nat \<Rightarrow> u64" where
  "adr n = word_of_nat n"

lemma adr_simps [simp]:
  "adr a + adr b = adr (a + b)" "adr a + numeral k = adr (a + numeral k)" "numeral k + adr a = adr (numeral k + a)"
  "b \<le> a \<Longrightarrow> adr a - adr b = adr (a - b)" "numeral k \<le> a \<Longrightarrow> adr a - numeral k = adr (a - numeral k)"
  "unat (adr a) = a mod 2 ^ 64"
  by (simp_all add: adr_def of_nat_diff unat_of_nat)

lemma adr_eq_iff: "a < 2 ^ 64 \<Longrightarrow> b < 2 ^ 64 \<Longrightarrow> adr a = adr b \<longleftrightarrow> a = b"
  by (simp add: word_unat_eq_iff)

lemma adr_le_iff: "a < 2 ^ 64 \<Longrightarrow> b < 2 ^ 64 \<Longrightarrow> adr a \<le> adr b \<longleftrightarrow> a \<le> b"
  by (simp add: word_le_nat_alt)

lemma adr_numeral: "numeral k = adr (numeral k)" "0 = adr 0" "1 = adr 1"
  by (simp_all add: adr_def)

lemma adr_low_bit:
  assumes "8 dvd n" and "j < 3"
  shows "\<not> bit (adr n) j"
proof -
  from assms(1) obtain q where "n = push_bit 3 q" by (auto simp: push_bit_eq_mult)
  with assms(2) show ?thesis by (simp add: adr_def bit_of_nat_iff bit_push_bit_iff)
qed

lemma bit_free_bit: "bit block_header_free_bit j \<longleftrightarrow> j = 0"
  by (simp add: block_header_free_bit_def bit_1_iff)

lemma bit_prev_free_bit: "bit block_header_prev_free_bit j \<longleftrightarrow> j = 1"
  using bit_double_iff [of "1 :: u64" j] by (auto simp: block_header_prev_free_bit_def bit_1_iff)

lemma bit_block_flags: "bit block_flags j \<longleftrightarrow> j = 0 \<or> j = 1"
  by (simp only: block_flags_def bit_or_iff bit_free_bit bit_prev_free_bit)

lemmas header_bits = bit_or_iff bit_and_iff bit_not_iff bit_free_bit bit_prev_free_bit bit_block_flags

definition flag_bits :: "bool \<Rightarrow> bool \<Rightarrow> u64" where
  "flag_bits f p = (if f then block_header_free_bit else 0) OR (if p then block_header_prev_free_bit else 0)"

definition hdr :: "nat \<Rightarrow> bool \<Rightarrow> bool \<Rightarrow> u64" where
  "hdr n f p = adr n OR flag_bits f p"

lemma bit_flag_bits: "bit (flag_bits f p) j \<longleftrightarrow> j = 0 \<and> f \<or> j = 1 \<and> p"
  by (auto simp: flag_bits_def header_bits)

lemma bit_hdr:
  assumes "8 dvd n"
  shows "bit (hdr n f p) j \<longleftrightarrow> (if j = 0 then f else if j = 1 then p else bit (adr n) j)"
  using adr_low_bit [OF assms, of 0] adr_low_bit [OF assms, of 1] by (auto simp: hdr_def bit_or_iff bit_flag_bits)

lemma hdr_simps:
  assumes "8 dvd n"
  shows "hdr n f p AND NOT block_flags = adr n" and "hdr n f p AND block_flags = flag_bits f p"
    and "hdr n f p AND block_header_free_bit \<noteq> 0 \<longleftrightarrow> f"
    and "hdr n f p AND block_header_prev_free_bit \<noteq> 0 \<longleftrightarrow> p"
    and "hdr n f p OR block_header_free_bit = hdr n True p"
    and "hdr n f p AND NOT block_header_free_bit = hdr n False p"
    and "hdr n f p OR block_header_prev_free_bit = hdr n f True"
    and "hdr n f p AND NOT block_header_prev_free_bit = hdr n f False"
proof -
  note b = bit_hdr [OF assms]
  note low = adr_low_bit [OF assms, of 0] adr_low_bit [OF assms, of 1]
  show "hdr n f p AND NOT block_flags = adr n"
    by (rule bit_word_eqI) (use low in \<open>auto simp: b header_bits\<close>)
  show "hdr n f p AND block_flags = flag_bits f p"
    by (rule bit_word_eqI) (auto simp: b header_bits bit_flag_bits)
  show "hdr n f p OR block_header_free_bit = hdr n True p"
    and "hdr n f p AND NOT block_header_free_bit = hdr n False p"
    and "hdr n f p OR block_header_prev_free_bit = hdr n f True"
    and "hdr n f p AND NOT block_header_prev_free_bit = hdr n f False"
    by (rule bit_word_eqI; auto simp: b header_bits)+
  have "hdr n f p AND block_header_free_bit = flag_bits f False"
    and "hdr n f p AND block_header_prev_free_bit = flag_bits False p"
    by (rule bit_word_eqI; auto simp: b header_bits bit_flag_bits)+
  moreover have "bit (flag_bits f p) 0 = f" "bit (flag_bits f p) 1 = p" for f p by (simp_all add: bit_flag_bits)
  moreover have "flag_bits False False = 0" by (simp add: flag_bits_def)
  ultimately show "hdr n f p AND block_header_free_bit \<noteq> 0 \<longleftrightarrow> f"
    and "hdr n f p AND block_header_prev_free_bit \<noteq> 0 \<longleftrightarrow> p"
    by (metis bit_0_eq bot_apply bot_bool_def)+
qed

text \<open>Writing a size keeps the two flag bits of the word before.\<close>

lemma hdr_set_size: "adr n OR (w AND block_flags) = hdr n (bit w 0) (bit w 1)"
  by (rule bit_word_eqI) (auto simp: hdr_def header_bits bit_flag_bits)

lemma hdr_bits:
  assumes "8 dvd n"
  shows "bit (hdr n f p) 0 = f" and "bit (hdr n f p) 1 = p" and "bit (hdr n f p) (Suc 0) = p"
  by (simp_all add: bit_hdr [OF assms])

lemma hdr_add:
  assumes "8 dvd n" and "8 dvd k"
  shows "hdr n f p + adr k = hdr (n + k) f p"
proof -
  have h: "hdr i f p = adr i + flag_bits f p" if "8 dvd i" for i
  proof -
    have "adr i AND flag_bits f p = 0"
      using adr_low_bit [OF that, of 0] adr_low_bit [OF that, of 1]
      by (intro bit_word_eqI) (auto simp: bit_and_iff bit_flag_bits intro: gr0I)
    then show ?thesis by (simp add: hdr_def disjunctive_add_eq_or)
  qed
  have "8 dvd n + k" using assms by simp
  from h [OF assms(1)] h [OF this] show ?thesis by (simp add: ac_simps flip: adr_simps(1))
qed

section \<open>Tilings\<close>

text \<open>
  Address, size and free flag of the blocks; a block of size 0 ends a pool, and a pool is shorter than
  \<open>block_size_max\<close>.
\<close>

type_synonym blocks_t = "nat \<rightharpoonup> nat \<times> bool"

definition block_ok :: "blocks_t \<Rightarrow> nat \<Rightarrow> nat \<Rightarrow> bool \<Rightarrow> bool" where
  "block_ok H a s f \<longleftrightarrow> 8 dvd a \<and> 8 dvd s \<and> 0 < a \<and> a + 16 + s < 2 ^ 64 \<and> (s = 0 \<longrightarrow> \<not> f) \<and>
     (s \<noteq> 0 \<longrightarrow> 24 \<le> s \<and> a + 8 + s \<in> dom H \<and>
        (\<exists>e. H e = Some (0, False) \<and> a + 8 + s \<le> e \<and> e < a + 8 + 2 ^ 32))"

definition tiling :: "blocks_t \<Rightarrow> bool" where
  "tiling H \<longleftrightarrow> (\<forall>a s f. H a = Some (s, f) \<longrightarrow> block_ok H a s f) \<and>
     (\<forall>a s f b t g. H a = Some (s, f) \<longrightarrow> H b = Some (t, g) \<longrightarrow> a < b \<longrightarrow> a + 8 + s \<le> b)"

lemma tiling_block: "tiling H \<Longrightarrow> H a = Some (s, f) \<Longrightarrow> block_ok H a s f"
  by (simp add: tiling_def)

lemma tiling_apart: "tiling H \<Longrightarrow> H a = Some (s, f) \<Longrightarrow> H b = Some (t, g) \<Longrightarrow> a < b \<Longrightarrow> a + 8 + s \<le> b"
  unfolding tiling_def by metis

lemma tiling_cases:
  assumes "tiling H" and "H a = Some (s, f)" and "H b = Some (t, g)"
  obtains "b = a" "t = s" "g = f" | "a + 8 + s \<le> b" | "b + 8 + t \<le> a"
  using assms tiling_apart [OF assms] tiling_apart [OF assms(1,3,2)] by (metis Pair_inject linorder_neqE_nat option.inject)

lemma tiling_next:
  assumes "tiling H" and "H a = Some (s, f)" and "s \<noteq> 0"
  obtains t g where "H (a + 8 + s) = Some (t, g)"
  using tiling_block [OF assms(1,2)] assms(3) by (auto simp: block_ok_def)

lemma block_okD:
  assumes "block_ok H a s f"
  shows "8 dvd a" "8 dvd s" "0 < a" "a + 16 + s < 2 ^ 64" "f \<Longrightarrow> s \<noteq> 0" "s \<noteq> 0 \<Longrightarrow> 24 \<le> s" "s < 2 ^ 32"
  using assms by (auto simp: block_ok_def)

text \<open>Whether the block before \<open>b\<close> is free.\<close>

definition pf :: "blocks_t \<Rightarrow> nat \<Rightarrow> bool" where
  "pf H b \<longleftrightarrow> (\<exists>a s. H a = Some (s, True) \<and> a + 8 + s = b)"

lemma pf_next:
  assumes "tiling H" and "H a = Some (s, f)" and "s \<noteq> 0"
  shows "pf H (a + 8 + s) = f"
proof
  assume "pf H (a + 8 + s)"
  then obtain b t where b: "H b = Some (t, True)" "b + 8 + t = a + 8 + s" by (auto simp: pf_def)
  from assms(1,2) b(1) show f
    by (rule tiling_cases) (use b(2) assms(3) block_okD(5) [OF tiling_block [OF assms(1) b(1)]] in auto)
qed (use assms in \<open>auto simp: pf_def\<close>)

lemma tiling_end:
  assumes "tiling H" and "H a = Some (s, f)" and "s \<noteq> 0"
  obtains e where "H e = Some (0, False)" "a + 8 + s \<le> e" "e < a + 8 + 2 ^ 32"
  using tiling_block [OF assms(1,2)] assms(3) unfolding block_ok_def by blast

lemma block_ok_update:
  assumes "block_ok H a s f" and "dom H \<subseteq> dom H'" and "\<And>e. H e = Some (0, False) \<Longrightarrow> H' e = Some (0, False)"
  shows "block_ok H' a s f"
  using assms unfolding block_ok_def by blast

lemma tiling_update:
  assumes "tiling H" and "H a = Some (s, f)" and "s \<noteq> 0"
  shows "tiling (H(a \<mapsto> (s, g)))"
proof -
  have up: "block_ok H b t h \<Longrightarrow> block_ok (H(a \<mapsto> (s, g))) b t h" for b t h
    by (erule block_ok_update) (use assms in auto)
  have "block_ok H a s g" using tiling_block [OF assms(1,2)] assms(3) by (simp add: block_ok_def)
  then show ?thesis
    using assms up unfolding tiling_def by (auto split: if_splits)
qed

lemma tiling_split:
  assumes T: "tiling H" and a: "H a = Some (s, f)" and z: "8 dvd z" "24 \<le> z" "z + 32 \<le> s"
  shows "tiling (H(a \<mapsto> (z, g), a + 8 + z \<mapsto> (s - z - 8, True)))"
proof -
  note ok = tiling_block [OF T] and A = block_okD [OF tiling_block [OF T a]]
  have s: "s \<noteq> 0" "24 \<le> s" using z by auto
  have r: "H (a + 8 + z) = None"
  proof (rule ccontr)
    assume "H (a + 8 + z) \<noteq> None"
    then obtain t h where b: "H (a + 8 + z) = Some (t, h)" by auto
    from T a b show False by (rule tiling_cases) (use z in auto)
  qed
  obtain t h where n: "H (a + 8 + s) = Some (t, h)" using tiling_next [OF T a s(1)] by blast
  let ?H = "H(a \<mapsto> (z, g), a + 8 + z \<mapsto> (s - z - 8, True))"
  have other: "?H b = Some (t, h) \<longleftrightarrow> (b = a \<and> t = z \<and> h = g) \<or> (b = a + 8 + z \<and> t = s - z - 8 \<and> h) \<or>
      (b \<noteq> a \<and> H b = Some (t, h))" for b t h
    using r by auto
  have up: "block_ok H b u h \<Longrightarrow> block_ok ?H b u h" for b u h
    by (erule block_ok_update) (use a s r in auto)
  obtain e where e0: "H e = Some (0, False)" "a + 8 + s \<le> e" "e < a + 8 + 2 ^ 32"
    using tiling_end [OF T a s(1)] by blast
  with a s r have e: "?H e = Some (0, False)" "a + 8 + s \<le> e" "e < a + 8 + 2 ^ 32" by auto
  have "block_ok ?H b u h" if "?H b = Some (u, h)" for b u h
    using that unfolding other
  proof (elim disjE conjE)
    assume "b = a" "u = z"
    with A z s e show ?thesis unfolding block_ok_def by (intro conjI impI exI [of _ e]) auto
  next
    assume "b = a + 8 + z" "u = s - z - 8" "h"
    with A z s n e show ?thesis unfolding block_ok_def by (intro conjI impI exI [of _ e]) (auto simp: ac_simps)
  next
    assume "b \<noteq> a" "H b = Some (u, h)"
    with ok up show ?thesis by blast
  qed
  moreover have "b + 8 + u \<le> c" if "?H b = Some (u, h)" "?H c = Some (v, k)" "b < c" for b u h c v k
  proof -
    have bc: "b = a \<and> u = z \<or> b = a + 8 + z \<and> u = s - z - 8 \<or> b \<noteq> a \<and> H b = Some (u, h)"
      "c = a \<and> v = z \<or> c = a + 8 + z \<and> v = s - z - 8 \<or> c \<noteq> a \<and> H c = Some (v, k)"
      using that(1,2) unfolding other by blast+
    have "c \<noteq> a \<and> H c = Some (v, k) \<longrightarrow> c < a \<or> a + 8 + s \<le> c"
      and "b \<noteq> a \<and> H b = Some (u, h) \<longrightarrow> b + 8 + u \<le> a \<or> a + 8 + s \<le> b"
      and "H b = Some (u, h) \<and> H c = Some (v, k) \<longrightarrow> b + 8 + u \<le> c"
      using tiling_apart [OF T _ _ that(3)] tiling_apart [OF T a] tiling_apart [OF T _ a] linorder_neqE_nat by metis+
    with bc that(3) z show ?thesis by linarith
  qed
  ultimately show ?thesis unfolding tiling_def by blast
qed

lemma tiling_absorb:
  assumes T: "tiling H" and a: "H a = Some (s, f)" "s \<noteq> 0" and n: "H (a + 8 + s) = Some (t, h)" "t \<noteq> 0"
  shows "tiling (H(a + 8 + s := None, a \<mapsto> (s + 8 + t, g)))"
proof -
  let ?H = "H(a + 8 + s := None, a \<mapsto> (s + 8 + t, g))"
  note ok = tiling_block [OF T] and A = block_okD [OF tiling_block [OF T a(1)]] and N = block_okD [OF tiling_block [OF T n(1)]]
  obtain e where e: "H e = Some (0, False)" "a + 8 + s \<le> e" "e < a + 8 + 2 ^ 32" using tiling_end [OF T a] by blast
  have e': "a + 8 + s + 8 + t \<le> e"
    using T n(1) e(1) by (rule tiling_cases) (use e n in auto)
  have nxt: "a + 8 + s + 8 + t \<in> dom H" using tiling_next [OF T n] by (metis domI)
  have other: "?H b = Some (u, k) \<longleftrightarrow> (b = a \<and> u = s + 8 + t \<and> k = g) \<or> (b \<noteq> a \<and> b \<noteq> a + 8 + s \<and> H b = Some (u, k))" for b u k
    by auto
  have ends: "?H e = Some (0, False)" if "H e = Some (0, False)" for e using that a n by auto
  have "block_ok ?H b u k" if "?H b = Some (u, k)" for b u k
    using that unfolding other
  proof (elim disjE conjE)
    assume "b = a" "u = s + 8 + t" "k = g"
    with A N e e' nxt ends [OF e(1)] a(2) show ?thesis unfolding block_ok_def
      by (intro conjI impI exI [of _ e]) (auto simp: ac_simps)
  next
    assume b: "b \<noteq> a" "b \<noteq> a + 8 + s" "H b = Some (u, k)"
    show ?thesis
    proof (cases "u = 0")
      case True
      with ok [OF b(3)] show ?thesis by (simp add: block_ok_def)
    next
      case False
      then obtain c where "H c = Some (0, False)" "b + 8 + u \<le> c" "c < b + 8 + 2 ^ 32" using tiling_end [OF T b(3)] by blast
      moreover have "b + 8 + u \<noteq> a + 8 + s"
        using T a(1) b(3) by (rule tiling_cases) (use b False a in auto)
      moreover have "b + 8 + u \<in> dom H" using tiling_next [OF T b(3) False] by (metis domI)
      ultimately show ?thesis using ends [of c] ok [OF b(3)] False unfolding block_ok_def
        by (intro conjI impI exI [of _ c]) auto
    qed
  qed
  moreover have "b + 8 + u \<le> c" if "?H b = Some (u, k)" "?H c = Some (v, l)" "b < c" for b u k c v l
  proof -
    have bc: "b = a \<and> u = s + 8 + t \<or> b \<noteq> a \<and> b \<noteq> a + 8 + s \<and> H b = Some (u, k)"
      "c = a \<and> v = s + 8 + t \<or> c \<noteq> a \<and> c \<noteq> a + 8 + s \<and> H c = Some (v, l)"
      using that(1,2) unfolding other by blast+
    have "c \<noteq> a \<and> c \<noteq> a + 8 + s \<and> H c = Some (v, l) \<longrightarrow> c < a \<or> a + 8 + s \<le> c"
      and "c \<noteq> a \<and> c \<noteq> a + 8 + s \<and> H c = Some (v, l) \<longrightarrow> c < a + 8 + s \<or> a + 8 + s + 8 + t \<le> c"
      and "b \<noteq> a \<and> H b = Some (u, k) \<longrightarrow> b + 8 + u \<le> a \<or> a < b"
      and "H b = Some (u, k) \<and> H c = Some (v, l) \<longrightarrow> b + 8 + u \<le> c"
      using tiling_apart [OF T _ _ that(3)] tiling_apart [OF T a(1)] tiling_apart [OF T n(1)] tiling_apart [OF T _ a(1)]
        linorder_neqE_nat by metis+
    with bc that(3) show ?thesis by linarith
  qed
  ultimately show ?thesis unfolding tiling_def by blast
qed

end
