(* ===== verification/Tlsf_Layout.thy ===== *)
theory Tlsf_Layout
  imports Tlsf_Phys
begin

text \<open>
  Memory that holds a tiling: each block has its header and, when it is free, a back pointer at its
  end.  The operations on headers (mark, split, absorb) turn the layout of one tiling into the layout of
  another.
\<close>

section \<open>Layouts\<close>

definition agree :: "mem_t \<Rightarrow> mem_t \<Rightarrow> nat set \<Rightarrow> bool" where
  "agree m m' X \<longleftrightarrow> dom m' = dom m \<and> (\<forall>x. x < 2 ^ 64 \<longrightarrow> x \<notin> X \<longrightarrow> m' (adr x) = m (adr x))"

lemma agreeD: "agree m m' X \<Longrightarrow> x < 2 ^ 64 \<Longrightarrow> x \<notin> X \<Longrightarrow> m' (adr x) = m (adr x)"
  by (simp add: agree_def)

lemma agree_dom: "agree m m' X \<Longrightarrow> dom m' = dom m"
  by (simp add: agree_def)

lemma agree_refl [simp]: "agree m m X"
  by (simp add: agree_def)

lemma agree_trans: "agree m m1 X \<Longrightarrow> agree m1 m2 Y \<Longrightarrow> agree m m2 (X \<union> Y)"
  unfolding agree_def by auto

lemma agree_mono: "agree m m' X \<Longrightarrow> X \<subseteq> Y \<Longrightarrow> agree m m' Y"
  unfolding agree_def by auto

definition described :: "mem_t \<Rightarrow> nat \<Rightarrow> nat \<Rightarrow> bool \<Rightarrow> bool \<Rightarrow> bool" where
  "described m b t h p \<longleftrightarrow> m (adr (b + 8)) = Some (hdr t h p) \<and> (h \<longrightarrow> m (adr (b + 8 + t)) = Some (adr b))"

definition mapped :: "u64 set \<Rightarrow> nat \<Rightarrow> nat \<Rightarrow> bool" where
  "mapped D b t \<longleftrightarrow> (\<forall>x. 8 dvd x \<longrightarrow> b + 8 \<le> x \<longrightarrow> x < b + 16 + t \<longrightarrow> adr x \<in> D)"

definition layout :: "mem_t \<Rightarrow> blocks_t \<Rightarrow> bool" where
  "layout m H \<longleftrightarrow> tiling H \<and>
     (\<forall>b t h. H b = Some (t, h) \<longrightarrow> described m b t h (pf H b) \<and> mapped (dom m) b t)"

lemma layoutI:
  assumes "tiling H" and "\<And>b t h. H b = Some (t, h) \<Longrightarrow> described m b t h (pf H b) \<and> mapped (dom m) b t"
  shows "layout m H"
  using assms by (simp add: layout_def)

lemma layout_tiling: "layout m H \<Longrightarrow> tiling H"
  by (simp add: layout_def)

lemma layout_block:
  assumes "layout m H" and "H b = Some (t, h)"
  shows "m (adr (b + 8)) = Some (hdr t h (pf H b))" and "h \<Longrightarrow> m (adr (b + 8 + t)) = Some (adr b)"
    and "mapped (dom m) b t" and "block_ok H b t h"
  using assms tiling_block [of H b t h] unfolding layout_def described_def by blast+

lemma mapped_sub: "mapped D b t \<Longrightarrow> b \<le> c \<Longrightarrow> c + u \<le> b + t \<Longrightarrow> mapped D c u"
  by (auto simp: mapped_def)

text \<open>Changes inside one block, or to the header behind it, do not touch the other blocks.\<close>

lemma described_other:
  assumes L: "layout m H" and a: "H a = Some (s, f)" "s \<noteq> 0" and n: "H (a + 8 + s) = Some (t, g)"
    and ag: "agree m m' X" and X: "X \<subseteq> {a + 8..<a + 16 + s} \<union> {a + 16 + s}"
    and b: "H b = Some (u, h)" "b \<noteq> a" "b \<noteq> a + 8 + s"
  shows "described m' b u h (pf H b)"
proof -
  note T = layout_tiling [OF L] and B = block_okD [OF layout_block(4) [OF L b(1)]]
  have ab: "b + 8 + u \<le> a \<or> a + 8 + s \<le> b" using T a(1) b(1) by (rule tiling_cases) (use b in auto)
  have "b + 8 \<notin> X" using X ab b a(2) by (cases "b + 8 + u \<le> a") auto
  moreover have "b + 8 + u \<notin> X" if h
  proof -
    have "u \<noteq> 0" using B(5) that by simp
    with ab have "b + 8 + u \<notin> {a + 8..<a + 16 + s} \<union> {a + 16 + s}" using b(3) B(6) by auto
    with X show ?thesis by blast
  qed
  ultimately show ?thesis
    using agreeD [OF ag] B(4) layout_block(1,2) [OF L b(1)] unfolding described_def by simp
qed

text \<open>The block behind: only its header may change.\<close>

lemma described_behind:
  assumes L: "layout m H" and n: "H n = Some (t, g)"
    and ag: "agree m m' X" and X: "X \<subseteq> {a..<n + 8} \<union> {n + 8}"
    and hd: "m' (adr (n + 8)) = Some (hdr t g p)"
  shows "described m' n t g p"
proof -
  note N = block_okD [OF layout_block(4) [OF L n]]
  have "n + 8 + t \<notin> X" if g using X N(5,6) that by auto
  then show ?thesis
    using hd agreeD [OF ag] N(4) layout_block(2) [OF L n] unfolding described_def by simp
qed

section \<open>Marking, splitting, absorbing\<close>

lemma pf_update:
  assumes "tiling H" and "H a = Some (s, f)" and "s \<noteq> 0"
  shows "pf (H(a \<mapsto> (s, g))) b = (if b = a + 8 + s then g else pf H b)"
proof (cases "b = a + 8 + s")
  case True
  with pf_next [OF tiling_update [OF assms, of g], of a s g] assms(3) show ?thesis by simp
next
  case False
  then have "(H(a \<mapsto> (s, g))) c = Some (u, True) \<and> c + 8 + u = b \<longleftrightarrow> H c = Some (u, True) \<and> c + 8 + u = b" for c u
    using assms(2) by auto
  with False show ?thesis unfolding pf_def by simp
qed

lemma layout_set_flag:
  assumes L: "layout m H" and a: "H a = Some (s, f)" "s \<noteq> 0" and n: "H (a + 8 + s) = Some (t, g)"
    and ag: "agree m m' {a + 8, a + 8 + s, a + 16 + s}"
    and hd: "m' (adr (a + 8)) = Some (hdr s h (pf H a))" "m' (adr (a + 16 + s)) = Some (hdr t g h)"
    and bp: "h \<Longrightarrow> m' (adr (a + 8 + s)) = Some (adr a)"
  shows "layout m' (H(a \<mapsto> (s, h)))"
proof (rule layoutI)
  note T = layout_tiling [OF L]
  show "tiling (H(a \<mapsto> (s, h)))" using tiling_update [OF T a] .
  fix b u k
  assume b: "(H(a \<mapsto> (s, h))) b = Some (u, k)"
  note pf = pf_update [OF T a]
  have X: "{a + 8, a + 8 + s, a + 16 + s} \<subseteq> {a + 8..<a + 16 + s} \<union> {a + 16 + s}" using a(2) by auto
  show "described m' b u k (pf (H(a \<mapsto> (s, h))) b) \<and> mapped (dom m') b u"
  proof (cases "b = a")
    case True
    with b hd(1) bp pf a(2) layout_block(3) [OF L a(1)] agree_dom [OF ag] show ?thesis
      by (auto simp: described_def)
  next
    case False
    with b have b': "H b = Some (u, k)" by simp
    have "described m' b u k (pf (H(a \<mapsto> (s, h))) b)"
    proof (cases "b = a + 8 + s")
      case True
      with n b' have "u = t" "k = g" by auto
      with described_behind [OF L n ag, of "a + 8" h] hd(2) X True pf show ?thesis by (simp add: add.assoc)
    next
      case False
      with described_other [OF L a n ag X b' \<open>b \<noteq> a\<close>] pf show ?thesis by simp
    qed
    with layout_block(3) [OF L b'] agree_dom [OF ag] show ?thesis by simp
  qed
qed

lemma pf_split:
  assumes T: "tiling H" and a: "H a = Some (z + 8 + w, f)" and z: "8 dvd z" "24 \<le> z" "24 \<le> w"
  shows "pf (H(a \<mapsto> (z, g), a + 8 + z \<mapsto> (w, True))) b =
    (if b = a + 8 + z then g else if b = a + 16 + z + w then True else pf H b)"
proof -
  let ?H = "H(a \<mapsto> (z, g), a + 8 + z \<mapsto> (w, True))"
  have T': "tiling ?H" using tiling_split [OF T a z(1,2), of g] z by simp
  have "pf ?H (a + 8 + z) = g" using pf_next [OF T', of a z g] z by simp
  moreover have "pf ?H (a + 16 + z + w)" using pf_next [OF T', of "a + 8 + z" w True] z by (simp add: add.commute add.left_commute)
  moreover have "pf ?H b = pf H b" if "b \<noteq> a + 8 + z" "b \<noteq> a + 16 + z + w"
  proof -
    have "H (a + 8 + z) = None"
    proof (rule ccontr)
      assume "H (a + 8 + z) \<noteq> None"
      then obtain t h where b: "H (a + 8 + z) = Some (t, h)" by auto
      from T a b show False by (rule tiling_cases) (use z in auto)
    qed
    with that a have "?H c = Some (u, True) \<and> c + 8 + u = b \<longleftrightarrow> H c = Some (u, True) \<and> c + 8 + u = b" for c u
      by auto
    then show ?thesis unfolding pf_def by simp
  qed
  ultimately show ?thesis by simp
qed

lemma layout_split:
  assumes L: "layout m H" and a: "H a = Some (z + 8 + w, f)" and n: "H (a + 16 + z + w) = Some (t, g)"
    and z: "8 dvd z" "24 \<le> z" "24 \<le> w"
    and ag: "agree m m' {a + 8, a + 8 + z, a + 16 + z, a + 16 + z + w, a + 24 + z + w}"
    and hd: "m' (adr (a + 8)) = Some (hdr z h (pf H a))" "m' (adr (a + 16 + z)) = Some (hdr w True h)"
      "m' (adr (a + 24 + z + w)) = Some (hdr t g True)"
    and bp: "m' (adr (a + 16 + z + w)) = Some (adr (a + 8 + z))" "h \<Longrightarrow> m' (adr (a + 8 + z)) = Some (adr a)"
  shows "layout m' (H(a \<mapsto> (z, h), a + 8 + z \<mapsto> (w, True)))"
proof (rule layoutI)
  let ?H = "H(a \<mapsto> (z, h), a + 8 + z \<mapsto> (w, True))"
  note T = layout_tiling [OF L]
  have ar: "a + 8 + (z + 8 + w) = a + 16 + z + w" "a + 16 + (z + 8 + w) = a + 24 + z + w"
    "a + 8 + z + 8 = a + 16 + z" "a + 8 + z + 8 + w = a + 16 + z + w" "a + 16 + z + w + 8 = a + 24 + z + w" by simp_all
  have n': "H (a + 8 + (z + 8 + w)) = Some (t, g)" using n by (simp only: ar)
  show "tiling ?H" using tiling_split [OF T a z(1,2), of h] z by simp
  fix b u k
  assume b: "?H b = Some (u, k)"
  note pf = pf_split [OF T a z, of h]
  let ?X = "{a + 8, a + 8 + z, a + 16 + z, a + 16 + z + w, a + 24 + z + w}"
  have X: "?X \<subseteq> {a + 8..<a + 16 + (z + 8 + w)} \<union> {a + 16 + (z + 8 + w)}" using z by auto
  note M = layout_block(3) [OF L a] and D = agree_dom [OF ag]
  consider "b = a" "u = z" "k = h" | "b = a + 8 + z" "u = w" k | "b \<noteq> a" "b \<noteq> a + 8 + z" "H b = Some (u, k)"
    using b z by (auto split: if_splits)
  then show "described m' b u k (pf ?H b) \<and> mapped (dom m') b u"
  proof cases
    case 1
    with hd(1) bp pf z D mapped_sub [OF M, of a z] show ?thesis by (auto simp: described_def)
  next
    case 2
    with hd(2) bp pf D mapped_sub [OF M, of "a + 8 + z" w] show ?thesis by (simp add: described_def ar del: add.assoc)
  next
    case 3
    have "described m' b u k (pf ?H b)"
    proof (cases "b = a + 16 + z + w")
      case True
      with n 3 have "u = t" "k = g" by auto
      moreover have "?X \<subseteq> {a + 8..<b + 8} \<union> {b + 8}" using True by auto
      ultimately show ?thesis
        using described_behind [OF L 3(3) ag, of "a + 8" True] hd(3) True pf z by (simp add: ar)
    next
      case False
      with described_other [OF L a _ n' ag X 3(3,1)] pf 3(2) show ?thesis by (simp add: ar)
    qed
    with layout_block(3) [OF L 3(3)] D show ?thesis by simp
  qed
qed

lemma pf_absorb:
  assumes T: "tiling H" and a: "H a = Some (s, f)" "s \<noteq> 0" and n: "H (a + 8 + s) = Some (t, h)" "t \<noteq> 0"
    and b: "b \<noteq> a + 8 + s"
  shows "pf (H(a + 8 + s := None, a \<mapsto> (s + 8 + t, g))) b = (if b = a + 8 + s + 8 + t then g else pf H b)"
proof (cases "b = a + 8 + s + 8 + t")
  case True
  with pf_next [OF tiling_absorb [OF T a n, of g], of a "s + 8 + t" g] show ?thesis by (simp add: add.assoc)
next
  case False
  with a n b have "(H(a + 8 + s := None, a \<mapsto> (s + 8 + t, g))) c = Some (u, True) \<and> c + 8 + u = b \<longleftrightarrow>
      H c = Some (u, True) \<and> c + 8 + u = b" for c u
    by auto
  with False show ?thesis unfolding pf_def by simp
qed

lemma layout_absorb:
  assumes L: "layout m H" and a: "H a = Some (s, f)" "s \<noteq> 0" and n: "H (a + 8 + s) = Some (t, True)"
    and e: "H (a + 8 + s + 8 + t) = Some (u, g)"
    and ag: "agree m m' {a + 8, a + 8 + s + 8 + t, a + 8 + s + 16 + t}"
    and hd: "m' (adr (a + 8)) = Some (hdr (s + 8 + t) h (pf H a))" "m' (adr (a + 8 + s + 16 + t)) = Some (hdr u g h)"
    and bp: "h \<Longrightarrow> m' (adr (a + 8 + s + 8 + t)) = Some (adr a)"
  shows "layout m' (H(a + 8 + s := None, a \<mapsto> (s + 8 + t, h)))"
proof (rule layoutI)
  let ?H = "H(a + 8 + s := None, a \<mapsto> (s + 8 + t, h))" and ?n = "a + 8 + s"
  let ?X = "{a + 8, ?n + 8 + t, ?n + 16 + t}"
  note T = layout_tiling [OF L]
  have t: "t \<noteq> 0" using block_okD(5) [OF layout_block(4) [OF L n]] by simp
  show "tiling ?H" using tiling_absorb [OF T a n t] .
  fix b v k
  assume b: "?H b = Some (v, k)"
  then have bn: "b \<noteq> ?n" by (auto split: if_splits)
  note pf = pf_absorb [OF T a n t bn, of h]
  note M = layout_block(3) [OF L a(1)] layout_block(3) [OF L n] and D = agree_dom [OF ag]
  show "described m' b v k (pf ?H b) \<and> mapped (dom m') b v"
  proof (cases "b = a")
    case True
    moreover have "mapped (dom m) a (s + 8 + t)"
      unfolding mapped_def
    proof (intro allI impI)
      fix x :: nat
      assume x: "8 dvd x" "a + 8 \<le> x" "x < a + 16 + (s + 8 + t)"
      then show "adr x \<in> dom m"
        using M unfolding mapped_def by (cases "x < a + 16 + s") auto
    qed
    moreover have "a + 8 + (s + 8 + t) = ?n + 8 + t" by simp
    ultimately show ?thesis using b hd(1) bp pf a D by (auto simp: described_def ac_simps)
  next
    case False
    with b bn have b': "H b = Some (v, k)" by simp
    have "described m' b v k (pf ?H b)"
    proof (cases "b = ?n + 8 + t")
      case True
      with e b' have "v = u" "k = g" by auto
      moreover have "?X \<subseteq> {a + 8..<b + 8} \<union> {b + 8}" using True a(2) by auto
      ultimately show ?thesis
        using described_behind [OF L b' ag, of "a + 8" h] hd(2) True pf by (simp add: add.assoc)
    next
      case far: False
      note B = block_okD [OF layout_block(4) [OF L b']]
      have "b + 8 + v \<le> a \<or> ?n \<le> b" using T a(1) b' by (rule tiling_cases) (use False in auto)
      moreover have "b + 8 + v \<le> ?n \<or> ?n + 8 + t \<le> b" using T n b' by (rule tiling_cases) (use bn in auto)
      moreover have "b + 8 + v \<le> ?n + 8 + t \<or> ?n + 8 + t + 8 + u \<le> b" using T e b' by (rule tiling_cases) (use far in auto)
      ultimately have "b + 8 \<notin> ?X" and "k \<Longrightarrow> b + 8 + v \<notin> ?X"
        using far False bn t B(5,6) by auto
      with agreeD [OF ag] B(4) layout_block(1,2) [OF L b'] pf far show ?thesis unfolding described_def by simp
    qed
    with layout_block(3) [OF L b'] D show ?thesis by simp
  qed
qed

end
