(* ===== verification/Tlsf_Steps.thy ===== *)
theory Tlsf_Steps
  imports Tlsf_Layout
begin

text \<open>
  The header operations of \<^verbatim>\<open>tlsf.c\<close> run on a layout: they neither leave the mapped memory nor fail an
  assertion, and they lead to the layout of the changed tiling.
\<close>

section \<open>Single headers\<close>

lemma wr64_mapped: "a \<in> dom m \<Longrightarrow> wr64 m a x = Some (m(a \<mapsto> x))"
  by (auto simp: wr64_def)

lemma dom_update [simp]: "a \<in> dom m \<Longrightarrow> dom (m(a \<mapsto> x)) = dom m"
  by auto

definition header :: "mem_t \<Rightarrow> nat \<Rightarrow> nat \<Rightarrow> bool \<Rightarrow> bool \<Rightarrow> bool" where
  "header m a s f p \<longleftrightarrow> m (adr (a + 8)) = Some (hdr s f p) \<and> 8 dvd s \<and> s < 2 ^ 32"

lemma adr_8: "adr n + 8 = adr (n + 8)" "adr n + 16 = adr (n + 16)" "adr n + 24 = adr (n + 24)"
  by simp_all

lemma header_exec:
  assumes "header m a s f p"
  shows "block_size m (adr a) = Some (adr s)" and "block_is_last m (adr a) = Some (s = 0)"
    and "block_is_free m (adr a) = Some f" and "block_is_prev_free m (adr a) = Some p"
    and "block_set_free m (adr a) = Some (m(adr (a + 8) \<mapsto> hdr s True p))"
    and "block_set_used m (adr a) = Some (m(adr (a + 8) \<mapsto> hdr s False p))"
    and "block_set_prev_free m (adr a) = Some (m(adr (a + 8) \<mapsto> hdr s f True))"
    and "block_set_prev_used m (adr a) = Some (m(adr (a + 8) \<mapsto> hdr s f False))"
    and "block_set_size m (adr a) (adr t) = Some (m(adr (a + 8) \<mapsto> hdr t f p))"
    and "block_next m (adr a) = (if s = 0 then None else Some (adr (a + 8 + s)))"
proof -
  have h: "m (adr (a + 8)) = Some (hdr s f p)" "8 dvd s" "s < 2 ^ 32" using assms by (auto simp: header_def)
  note hs = hdr_simps [OF h(2)]
  have z: "adr s = 0 \<longleftrightarrow> s = 0" using adr_eq_iff [of s 0] h(3) by (simp add: adr_def)
  show size: "block_size m (adr a) = Some (adr s)" by (simp add: block_size_def rd64_def h(1) hs(1))
  then show last: "block_is_last m (adr a) = Some (s = 0)" by (simp add: block_is_last_def z)
  show "block_is_free m (adr a) = Some f" by (simp add: block_is_free_def rd64_def h(1) hs(3))
  show "block_is_prev_free m (adr a) = Some p" by (simp add: block_is_prev_free_def rd64_def h(1) hs(4))
  show "block_set_free m (adr a) = Some (m(adr (a + 8) \<mapsto> hdr s True p))"
    by (simp add: block_set_free_def rd64_def wr64_def h(1) hs)
  show "block_set_used m (adr a) = Some (m(adr (a + 8) \<mapsto> hdr s False p))"
    by (simp add: block_set_used_def rd64_def wr64_def h(1) hs)
  show "block_set_prev_free m (adr a) = Some (m(adr (a + 8) \<mapsto> hdr s f True))"
    by (simp add: block_set_prev_free_def rd64_def wr64_def h(1) hs)
  show "block_set_prev_used m (adr a) = Some (m(adr (a + 8) \<mapsto> hdr s f False))"
    by (simp add: block_set_prev_used_def rd64_def wr64_def h(1) hs)
  show "block_set_size m (adr a) (adr t) = Some (m(adr (a + 8) \<mapsto> hdr t f p))"
    by (simp add: block_set_size_def rd64_def wr64_def h(1) hs(2)) (simp add: hdr_def)
  have "block_to_ptr (adr a) + (adr s - block_header_overhead) = adr (a + 8 + s)" if "s \<noteq> 0"
    using that h(2) by (simp add: block_to_ptr_def block_start_offset_def block_header_overhead_def dvd_imp_le ac_simps)
  then show "block_next m (adr a) = (if s = 0 then None else Some (adr (a + 8 + s)))"
    by (simp add: block_next_def size last offset_to_block_def tlsf_assert_def Let_def)
qed

text \<open>A size written over arbitrary memory keeps two arbitrary bits.\<close>

lemma block_set_size_raw:
  assumes "m (adr (a + 8)) = Some w"
  shows "block_set_size m (adr a) (adr t) = Some (m(adr (a + 8) \<mapsto> hdr t (bit w 0) (bit w 1)))"
  using assms by (simp add: block_set_size_def rd64_def wr64_def hdr_set_size)

lemma layout_header:
  assumes "layout m H" and "H a = Some (s, f)"
  shows "header m a s f (pf H a)"
  using layout_block(1,4) [OF assms] block_okD(2,7) [of H a s f] by (simp add: header_def)

section \<open>Marking\<close>

lemma block_mark_as_free_layout:
  assumes L: "layout m H" and a: "H a = Some (s, False)" "s \<noteq> 0"
  obtains m' where "block_mark_as_free m (adr a) = Some m'" "layout m' (H(a \<mapsto> (s, True)))"
    "agree m m' {a + 8, a + 8 + s, a + 16 + s}"
proof -
  note T = layout_tiling [OF L] and A = block_okD [OF layout_block(4) [OF L a(1)]]
  obtain t g where n: "H (a + 8 + s) = Some (t, g)" using tiling_next [OF T a] by blast
  note N = block_okD [OF layout_block(4) [OF L n]]
  have s: "24 \<le> s" and b: "a + 24 + s < 2 ^ 64" using A(6) N(4) a(2) by auto
  have ne: "adr (a + 8 + s) \<noteq> adr (a + 8)" "adr (a + 16 + s) \<noteq> adr (a + 8)" "adr (a + 16 + s) \<noteq> adr (a + 8 + s)"
    using s b by (simp_all add: adr_eq_iff)
  have D: "adr (a + 8 + s) \<in> dom m" "adr (a + 16 + s) \<in> dom m" "adr (a + 8) \<in> dom m"
    using layout_block(3) [OF L a(1)] layout_block(3) [OF L n] A(1,2) by (auto simp: mapped_def)
  have pn: "pf H (a + 8 + s) = False" using pf_next [OF T a] .
  let ?m1 = "m(adr (a + 8 + s) \<mapsto> adr a)"
  let ?m2 = "?m1(adr (a + 16 + s) \<mapsto> hdr t g True)"
  let ?m3 = "?m2(adr (a + 8) \<mapsto> hdr s True (pf H a))"
  have 8: "a + 8 + s + 8 = a + 16 + s" by simp
  have link: "block_link_next m (adr a) = Some (adr (a + 8 + s), ?m1)"
    using a(2) D by (simp add: block_link_next_def header_exec [OF layout_header [OF L a(1)]] wr64_mapped)
  have "header ?m1 (a + 8 + s) t g False"
    using layout_header [OF L n] ne pn by (simp add: header_def 8)
  then have pv: "block_set_prev_free ?m1 (adr (a + 8 + s)) = Some ?m2" by (simp add: header_exec 8)
  have "header ?m2 a s False (pf H a)"
    using layout_header [OF L a(1)] ne by (simp add: header_def)
  then have "block_set_free ?m2 (adr a) = Some ?m3" by (simp add: header_exec)
  with link pv have run: "block_mark_as_free m (adr a) = Some ?m3" by (simp add: block_mark_as_free_def)
  have ag: "agree m ?m3 {a + 8, a + 8 + s, a + 16 + s}"
    using D A(4) b by (auto simp: agree_def adr_eq_iff)
  have "layout ?m3 (H(a \<mapsto> (s, True)))"
    by (rule layout_set_flag [OF L a n ag]) (use ne in auto)
  with run ag that show ?thesis by blast
qed

lemma block_mark_as_used_layout:
  assumes L: "layout m H" and a: "H a = Some (s, True)"
  obtains m' where "block_mark_as_used m (adr a) = Some m'" "layout m' (H(a \<mapsto> (s, False)))"
    "agree m m' {a + 8, a + 8 + s, a + 16 + s}" "m' (adr (a + 8 + s)) = m (adr (a + 8 + s))"
proof -
  note T = layout_tiling [OF L] and A = block_okD [OF layout_block(4) [OF L a(1)]]
  have a2: "s \<noteq> 0" using A(5) by simp
  obtain t g where n: "H (a + 8 + s) = Some (t, g)" using tiling_next [OF T a a2] by blast
  note N = block_okD [OF layout_block(4) [OF L n]]
  have s: "24 \<le> s" and b: "a + 24 + s < 2 ^ 64" using A(6) N(4) a2 by auto
  have ne: "adr (a + 8 + s) \<noteq> adr (a + 8)" "adr (a + 16 + s) \<noteq> adr (a + 8)" "adr (a + 16 + s) \<noteq> adr (a + 8 + s)"
    using s b by (simp_all add: adr_eq_iff)
  have D: "adr (a + 16 + s) \<in> dom m" "adr (a + 8) \<in> dom m"
    using layout_block(3) [OF L a(1)] layout_block(3) [OF L n] A(1,2) by (auto simp: mapped_def)
  let ?m1 = "m(adr (a + 16 + s) \<mapsto> hdr t g False)"
  let ?m2 = "?m1(adr (a + 8) \<mapsto> hdr s False (pf H a))"
  have 8: "a + 8 + s + 8 = a + 16 + s" by simp
  have nx: "block_next m (adr a) = Some (adr (a + 8 + s))"
    using a2 by (simp add: header_exec [OF layout_header [OF L a(1)]])
  have pv: "block_set_prev_used m (adr (a + 8 + s)) = Some ?m1" by (simp add: header_exec [OF layout_header [OF L n]] 8)
  have "header ?m1 a s True (pf H a)"
    using layout_header [OF L a(1)] ne by (simp add: header_def)
  then have "block_set_used ?m1 (adr a) = Some ?m2" by (simp add: header_exec)
  with nx pv have run: "block_mark_as_used m (adr a) = Some ?m2" by (simp add: block_mark_as_used_def)
  have ag: "agree m ?m2 {a + 8, a + 8 + s, a + 16 + s}"
    using D A(4) b by (auto simp: agree_def adr_eq_iff)
  have "layout ?m2 (H(a \<mapsto> (s, False)))"
    by (rule layout_set_flag [OF L a a2 n ag]) (use ne in auto)
  moreover have "?m2 (adr (a + 8 + s)) = m (adr (a + 8 + s))" using ne by simp
  ultimately show ?thesis using run ag that by blast
qed

section \<open>Alignment\<close>

definition round_down :: "nat \<Rightarrow> nat \<Rightarrow> nat" where
  "round_down k n = n div 2 ^ k * 2 ^ k"

definition round_up :: "nat \<Rightarrow> nat \<Rightarrow> nat" where
  "round_up k n = round_down k (n + 2 ^ k - 1)"

lemma round_up_spec: "2 ^ k dvd round_up k n" "n \<le> round_up k n" "round_up k n < n + 2 ^ k"
proof -
  define p where "p = (2 :: nat) ^ k"
  have p: "0 < p" by (simp add: p_def)
  have "(n + p - 1) div p * p + (n + p - 1) mod p = n + p - 1" by simp
  moreover have "(n + p - 1) mod p < p" using p by simp
  ultimately have "n \<le> (n + p - 1) div p * p" "(n + p - 1) div p * p < n + p" using p by linarith+
  then show "n \<le> round_up k n" "round_up k n < n + 2 ^ k" by (simp_all add: round_up_def round_down_def p_def)
  show "2 ^ k dvd round_up k n" by (simp add: round_up_def round_down_def)
qed

lemma round_up_least: "2 ^ k dvd m \<Longrightarrow> n \<le> m \<Longrightarrow> round_up k n \<le> m"
proof -
  define p where "p = (2 :: nat) ^ k"
  assume "2 ^ k dvd m" and "n \<le> m"
  then obtain q where q: "m = p * q" by (auto simp: p_def)
  have "0 < p" by (simp add: p_def)
  then have "n + p - 1 < (q + 1) * p" using \<open>n \<le> m\<close> q by (simp add: algebra_simps)
  then have "(n + p - 1) div p < q + 1" by (simp add: less_mult_imp_div_less)
  then have "(n + p - 1) div p * p \<le> q * p" by simp
  then show ?thesis using q by (simp add: round_up_def round_down_def p_def mult.commute)
qed

lemma round_up_id [simp]: "2 ^ k dvd n \<Longrightarrow> round_up k n = n"
  using round_up_least [of k n n] round_up_spec(2) [of n k] by simp

lemma power2_minus_1: "adr (2 ^ k) - 1 = Bit_Operations.mask k"
  by (simp add: adr_def mask_eq_exp_minus_1)

lemma power2_assert: "k < 64 \<Longrightarrow> adr (2 ^ k) AND (adr (2 ^ k) - 1) = 0"
proof -
  assume "k < 64"
  have p: "adr (2 ^ k) = push_bit k 1" by (simp add: adr_def push_bit_eq_mult)
  show ?thesis unfolding power2_minus_1
    by (rule bit_word_eqI) (auto simp only: p bit_and_iff bit_push_bit_iff bit_mask_iff bit_1_iff bit_0_eq bot_apply bot_bool_def)
qed

lemma and_not_mask: "adr n AND NOT (Bit_Operations.mask k) = adr (round_down k n)"
proof (rule bit_word_eqI)
  fix j
  assume "j < LENGTH(64)"
  moreover have "round_down k n = push_bit k (drop_bit k n)" by (simp add: round_down_def push_bit_eq_mult drop_bit_eq_div)
  ultimately show "bit (adr n AND NOT (Bit_Operations.mask k)) j = bit (adr (round_down k n)) j"
    by (auto simp: adr_def bit_and_iff bit_not_iff bit_mask_iff bit_of_nat_iff bit_push_bit_iff bit_drop_bit_eq)
qed

lemma align_up_round: "k < 64 \<Longrightarrow> align_up (adr n) (adr (2 ^ k)) = Some (adr (round_up k n))"
  and align_ptr_round: "k < 64 \<Longrightarrow> align_ptr (adr n) (adr (2 ^ k)) = Some (adr (round_up k n))"
proof -
  have "n + 2 ^ k - 1 = n + (2 ^ k - 1)" by (simp add: Suc_leI)
  then have "adr n + (adr (2 ^ k) - 1) = adr (n + 2 ^ k - 1)" by (simp only: adr_def of_nat_add) (simp add: of_nat_diff)
  moreover assume "k < 64"
  note power2_assert [OF this]
  ultimately show "align_up (adr n) (adr (2 ^ k)) = Some (adr (round_up k n))"
    and "align_ptr (adr n) (adr (2 ^ k)) = Some (adr (round_up k n))"
    by (simp_all add: align_up_def align_ptr_def tlsf_assert_def power2_minus_1 and_not_mask round_up_def Let_def)
qed

lemma align_down_round:
  assumes "k < 64" and "n < 2 ^ 64"
  shows "align_down (adr n) (adr (2 ^ k)) = Some (adr (round_down k n))"
proof -
  have "adr n AND Bit_Operations.mask k = adr (n mod 2 ^ k)"
    by (rule bit_word_eqI) (auto simp: adr_def bit_and_iff bit_mask_iff bit_of_nat_iff bit_take_bit_iff simp flip: take_bit_eq_mod)
  moreover have "adr n - adr (n mod 2 ^ k) = adr (n - n mod 2 ^ k)" by (rule adr_simps) simp
  moreover have "n - n mod 2 ^ k = round_down k n" by (simp add: round_down_def minus_mod_eq_div_mult)
  ultimately show ?thesis
    using power2_assert [OF assms(1)] by (simp add: align_down_def tlsf_assert_def power2_minus_1)
qed

lemma ALIGN_SIZE_adr: "ALIGN_SIZE = adr (2 ^ 3)"
  by (simp add: ALIGN_SIZE_def ALIGN_SIZE_LOG2_def adr_def)

section \<open>Splitting\<close>

lemma block_can_split_layout:
  assumes L: "layout m H" and a: "H a = Some (s, f)" and "z < 2 ^ 33"
  shows "block_can_split m (adr a) (adr z) = Some (32 + z \<le> s)"
  using header_exec(1) [OF layout_header [OF L a]] block_okD(7) [OF layout_block(4) [OF L a]] assms(3)
  by (simp add: block_can_split_def sizeof_block_header_def adr_le_iff)

lemma block_to_ptr_adr [simp]: "block_to_ptr (adr a) = adr (a + 16)"
  by (simp add: block_to_ptr_def block_start_offset_def)

lemma block_split_layout:
  assumes L: "layout m H" and a: "H a = Some (z + 8 + w, f)" and n: "H (a + 16 + z + w) = Some (t, g)"
    and z: "8 dvd z" "24 \<le> z" "24 \<le> w"
  obtains m' y where "block_split m (adr a) (adr z) = Some (adr (a + 8 + z), m')"
    and "header m' a z f (pf H a)" "header m' (a + 8 + z) w True y" "m' (adr (a + 24 + z + w)) = Some (hdr t g True)"
    and "m' (adr (a + 16 + z + w)) = Some (adr (a + 8 + z))"
    and "agree m m' {a + 8, a + 16 + z, a + 16 + z + w, a + 24 + z + w}"
proof -
  define r where "r = a + 8 + z"
  define k where "k = a + 16 + z + w"
  note A = block_okD [OF layout_block(4) [OF L a]] and N = block_okD [OF layout_block(4) [OF L n]]
  have w: "8 dvd w" using A(2) z(1) dvd_add_right_iff [of 8 "z + 8" w] by simp
  have r8: "8 dvd r" "8 dvd r + 16" using A(1) z(1) by (simp_all add: r_def)
  have lt: "z < 2 ^ 32" "w < 2 ^ 32" "k + 16 < 2 ^ 64" using A(7) N(4) by (simp_all add: k_def)
  have kr: "k = r + 8 + w" "r + 8 = a + 16 + z" "k + 8 = a + 24 + z + w" by (simp_all add: k_def r_def)
  have D: "adr (a + 8) \<in> dom m" "adr (r + 8) \<in> dom m" "adr k \<in> dom m" "adr (k + 8) \<in> dom m"
    using layout_block(3) [OF L a] layout_block(3) [OF L n] A(1) z r8 w by (auto simp: mapped_def k_def r_def)
  have ne: "adr (r + 8) \<noteq> adr (a + 8)" "adr (a + 8) \<noteq> adr (r + 8)" "adr k \<noteq> adr (a + 8)" "adr k \<noteq> adr (r + 8)"
    "adr (k + 8) \<noteq> adr (a + 8)" "adr (k + 8) \<noteq> adr (r + 8)" "adr (k + 8) \<noteq> adr k"
    using z lt by (simp_all add: adr_eq_iff kr(1) r_def)
  obtain x where x: "m (adr (r + 8)) = Some x" using D(2) by blast
  let ?y = "bit x 1"
  let ?m1 = "m(adr (r + 8) \<mapsto> hdr w (bit x 0) ?y)"
  let ?m2 = "?m1(adr (a + 8) \<mapsto> hdr z f (pf H a))"
  let ?m3 = "?m2(adr k \<mapsto> adr r)"
  let ?m4 = "?m3(adr (k + 8) \<mapsto> hdr t g True)"
  let ?m5 = "?m4(adr (r + 8) \<mapsto> hdr w True ?y)"
  have rem: "offset_to_block (block_to_ptr (adr a)) (adr z - block_header_overhead) = adr r"
    using z by (simp add: offset_to_block_def block_header_overhead_def r_def ac_simps)
  have al: "align_ptr (adr (r + 16)) ALIGN_SIZE = Some (adr (r + 16))"
    using align_ptr_round [of 3 "r + 16"] r8(2) by (simp add: ALIGN_SIZE_adr)
  have size: "block_size m (adr a) = Some (adr (z + 8 + w))" by (rule header_exec(1) [OF layout_header [OF L a]])
  have ws: "adr (z + 8 + w) - (adr z + block_header_overhead) = adr w"
    by (simp add: block_header_overhead_def)
  have s1: "block_set_size m (adr r) (adr w) = Some ?m1" by (rule block_set_size_raw) (rule x)
  have h1: "header ?m1 r w (bit x 0) ?y" using w lt by (simp add: header_def)
  have "header ?m1 a (z + 8 + w) f (pf H a)" using layout_header [OF L a] ne by (simp add: header_def)
  then have s2: "block_set_size ?m1 (adr a) (adr z) = Some ?m2" by (rule header_exec(9))
  have h2: "header ?m2 r w (bit x 0) ?y" using w lt ne by (simp add: header_def)
  have "adr k \<in> dom ?m2" using D by simp
  then have l: "block_link_next ?m2 (adr r) = Some (adr k, ?m3)"
    using header_exec(10) [OF h2] z(3) by (simp add: block_link_next_def wr64_mapped kr(1))
  have "header ?m3 k t g (pf H k)" using layout_header [OF L n] ne by (simp add: header_def k_def add.assoc)
  then have s3: "block_set_prev_free ?m3 (adr k) = Some ?m4" by (rule header_exec(7))
  have "header ?m4 r w (bit x 0) ?y" using w lt ne by (simp add: header_def)
  then have s4: "block_set_free ?m4 (adr r) = Some ?m5" by (rule header_exec(5))
  have "block_size_min \<le> adr w"
    using adr_le_iff [of 24 w] z(3) lt by (simp add: block_size_min_def sizeof_block_header_def adr_def)
  then have run: "block_split m (adr a) (adr z) = Some (adr r, ?m5)"
    using rem al size ws s1 s2 header_exec(1) [OF h1] l s3 s4
    by (simp add: block_split_def tlsf_assert_def Let_def block_mark_as_free_def block_header_overhead_def ac_simps)
  moreover have "header ?m5 a z f (pf H a)" "header ?m5 r w True ?y" using z w lt ne by (simp_all add: header_def)
  moreover have "?m5 (adr (k + 8)) = Some (hdr t g True)" "?m5 (adr k) = Some (adr r)" using ne by simp_all
  moreover have "agree m ?m5 {a + 8, r + 8, k, k + 8}"
    using D lt kr(1) r_def by (auto simp: agree_def adr_eq_iff)
  moreover have e: "a + 8 + z = r" "a + 16 + z + w = k" "a + 24 + z + w = k + 8" "a + 16 + z = r + 8"
    by (simp_all add: r_def k_def)
  ultimately show ?thesis using that [unfolded e(1-3), unfolded e(4)] by blast
qed

text \<open>The three uses of a split: at the end of a free block, of a used block, and for a gap in front.\<close>

lemma layout_bounds:
  assumes L: "layout m H" and a: "H a = Some (z + 8 + w, f)" and n: "H (a + 16 + z + w) = Some (t, g)"
    and z: "24 \<le> z" "24 \<le> w"
  shows "a + 40 + z + w < 2 ^ 64 + 8" "adr (a + 8) \<noteq> adr (a + 8 + z)" "adr (a + 16 + z) \<noteq> adr (a + 8 + z)"
    "adr (a + 16 + z) \<noteq> adr (a + 8)"
    "adr (a + 16 + z + w) \<noteq> adr (a + 8 + z)" "adr (a + 24 + z + w) \<noteq> adr (a + 8 + z)"
    "adr (a + 16 + z + w) \<noteq> adr (a + 16 + z)" "adr (a + 24 + z + w) \<noteq> adr (a + 16 + z)"
    "adr (a + 16 + z + w) \<noteq> adr (a + 8)" "adr (a + 24 + z + w) \<noteq> adr (a + 8)"
proof -
  have "a + 32 + z + w < 2 ^ 64" using block_okD(4) [OF layout_block(4) [OF L n]] by simp
  then show "a + 40 + z + w < 2 ^ 64 + 8" "adr (a + 8) \<noteq> adr (a + 8 + z)" "adr (a + 16 + z) \<noteq> adr (a + 8 + z)"
    "adr (a + 16 + z) \<noteq> adr (a + 8)"
    "adr (a + 16 + z + w) \<noteq> adr (a + 8 + z)" "adr (a + 24 + z + w) \<noteq> adr (a + 8 + z)"
    "adr (a + 16 + z + w) \<noteq> adr (a + 16 + z)" "adr (a + 24 + z + w) \<noteq> adr (a + 16 + z)"
    "adr (a + 16 + z + w) \<noteq> adr (a + 8)" "adr (a + 24 + z + w) \<noteq> adr (a + 8)"
    using z by (simp_all add: adr_eq_iff)
qed

lemma split_cell_mapped:
  assumes L: "layout m H" and a: "H a = Some (z + 8 + w, f)" and z: "8 dvd z"
  shows "adr (a + 8 + z) \<in> dom m" "adr (a + 16 + z) \<in> dom m"
  using layout_block(3) [OF L a] block_okD(1) [OF layout_block(4) [OF L a]] z by (auto simp: mapped_def)

lemma split_free_layout:
  assumes L: "layout m H" and a: "H a = Some (z + 8 + w, True)" and z: "8 dvd z" "24 \<le> z" "24 \<le> w"
  obtains m1 m2 m3 where "block_split m (adr a) (adr z) = Some (adr (a + 8 + z), m1)"
    and "block_link_next m1 (adr a) = Some (adr (a + 8 + z), m2)" "block_set_prev_free m2 (adr (a + 8 + z)) = Some m3"
    and "layout m3 (H(a \<mapsto> (z, True), a + 8 + z \<mapsto> (w, True)))"
    and "agree m m3 {a + 8, a + 8 + z, a + 16 + z, a + 16 + z + w, a + 24 + z + w}"
proof -
  obtain t g where n: "H (a + 8 + (z + 8 + w)) = Some (t, g)" using tiling_next [OF layout_tiling [OF L] a] by auto
  then have n: "H (a + 16 + z + w) = Some (t, g)" by (simp add: ac_simps)
  obtain m1 y where m1: "block_split m (adr a) (adr z) = Some (adr (a + 8 + z), m1)"
    "header m1 a z True (pf H a)" "header m1 (a + 8 + z) w True y" "m1 (adr (a + 24 + z + w)) = Some (hdr t g True)"
    "m1 (adr (a + 16 + z + w)) = Some (adr (a + 8 + z))" "agree m m1 {a + 8, a + 16 + z, a + 16 + z + w, a + 24 + z + w}"
    using block_split_layout [OF L a n z] by blast
  note b = layout_bounds [OF L a n z(2,3)] and D = split_cell_mapped [OF L a z(1)]
  note Dm = agree_dom [OF m1(6)]
  let ?m2 = "m1(adr (a + 8 + z) \<mapsto> adr a)"
  let ?m3 = "?m2(adr (a + 16 + z) \<mapsto> hdr w True True)"
  have 8: "a + 8 + z + 8 = a + 16 + z" by simp
  have l: "block_link_next m1 (adr a) = Some (adr (a + 8 + z), ?m2)"
    using header_exec(10) [OF m1(2)] z(2) D Dm by (simp add: block_link_next_def wr64_mapped)
  have "header ?m2 (a + 8 + z) w True y" using m1(3) b by (simp add: header_def 8)
  then have p: "block_set_prev_free ?m2 (adr (a + 8 + z)) = Some ?m3" using header_exec(7) by (simp add: 8)
  have "agree m1 ?m3 {a + 8 + z, a + 16 + z}"
    using D Dm b(1) z by (auto simp: agree_def adr_eq_iff)
  from agree_trans [OF m1(6) this] have ag: "agree m ?m3 {a + 8, a + 8 + z, a + 16 + z, a + 16 + z + w, a + 24 + z + w}"
    by (rule agree_mono) auto
  have "layout ?m3 (H(a \<mapsto> (z, True), a + 8 + z \<mapsto> (w, True)))"
    by (rule layout_split [OF L a n z ag]) (use b m1 in \<open>auto simp: header_def\<close>)
  with m1(1) l p ag that show ?thesis by blast
qed

lemma split_leading_layout:
  assumes L: "layout m H" and a: "H a = Some (z + 8 + w, True)" and z: "8 dvd z" "24 \<le> z" "24 \<le> w"
  obtains m1 m2 m3 where "block_split m (adr a) (adr z) = Some (adr (a + 8 + z), m1)"
    and "block_set_prev_free m1 (adr (a + 8 + z)) = Some m2" "block_link_next m2 (adr a) = Some (adr (a + 8 + z), m3)"
    and "layout m3 (H(a \<mapsto> (z, True), a + 8 + z \<mapsto> (w, True)))"
    and "agree m m3 {a + 8, a + 8 + z, a + 16 + z, a + 16 + z + w, a + 24 + z + w}"
proof -
  obtain t g where n: "H (a + 8 + (z + 8 + w)) = Some (t, g)" using tiling_next [OF layout_tiling [OF L] a] by auto
  then have n: "H (a + 16 + z + w) = Some (t, g)" by (simp add: ac_simps)
  obtain m1 y where m1: "block_split m (adr a) (adr z) = Some (adr (a + 8 + z), m1)"
    "header m1 a z True (pf H a)" "header m1 (a + 8 + z) w True y" "m1 (adr (a + 24 + z + w)) = Some (hdr t g True)"
    "m1 (adr (a + 16 + z + w)) = Some (adr (a + 8 + z))" "agree m m1 {a + 8, a + 16 + z, a + 16 + z + w, a + 24 + z + w}"
    using block_split_layout [OF L a n z] by blast
  note b = layout_bounds [OF L a n z(2,3)] and D = split_cell_mapped [OF L a z(1)]
  note Dm = agree_dom [OF m1(6)]
  have 8: "a + 8 + z + 8 = a + 16 + z" by simp
  let ?m2 = "m1(adr (a + 16 + z) \<mapsto> hdr w True True)"
  let ?m3 = "?m2(adr (a + 8 + z) \<mapsto> adr a)"
  have p: "block_set_prev_free m1 (adr (a + 8 + z)) = Some ?m2" using header_exec(7) [OF m1(3)] by (simp add: 8)
  have "header ?m2 a z True (pf H a)" using m1(2) b by (simp add: header_def)
  then have l: "block_link_next ?m2 (adr a) = Some (adr (a + 8 + z), ?m3)"
    using header_exec(10) z(2) D Dm by (simp add: block_link_next_def wr64_mapped)
  have "agree m1 ?m3 {a + 8 + z, a + 16 + z}"
    using D Dm b(1) z by (auto simp: agree_def adr_eq_iff)
  from agree_trans [OF m1(6) this] have ag: "agree m ?m3 {a + 8, a + 8 + z, a + 16 + z, a + 16 + z + w, a + 24 + z + w}"
    by (rule agree_mono) auto
  have "layout ?m3 (H(a \<mapsto> (z, True), a + 8 + z \<mapsto> (w, True)))"
    by (rule layout_split [OF L a n z ag]) (use b m1 in \<open>auto simp: header_def\<close>)
  with m1(1) l p ag that show ?thesis by blast
qed

lemma split_used_layout:
  assumes L: "layout m H" and a: "H a = Some (z + 8 + w, False)" and z: "8 dvd z" "24 \<le> z" "24 \<le> w"
  obtains m1 m2 where "block_split m (adr a) (adr z) = Some (adr (a + 8 + z), m1)"
    and "block_set_prev_used m1 (adr (a + 8 + z)) = Some m2"
    and "layout m2 (H(a \<mapsto> (z, False), a + 8 + z \<mapsto> (w, True)))"
    and "agree m m2 {a + 8, a + 16 + z, a + 16 + z + w, a + 24 + z + w}"
proof -
  obtain t g where n: "H (a + 8 + (z + 8 + w)) = Some (t, g)" using tiling_next [OF layout_tiling [OF L] a] by auto
  then have n: "H (a + 16 + z + w) = Some (t, g)" by (simp add: ac_simps)
  obtain m1 y where m1: "block_split m (adr a) (adr z) = Some (adr (a + 8 + z), m1)"
    "header m1 a z False (pf H a)" "header m1 (a + 8 + z) w True y" "m1 (adr (a + 24 + z + w)) = Some (hdr t g True)"
    "m1 (adr (a + 16 + z + w)) = Some (adr (a + 8 + z))" "agree m m1 {a + 8, a + 16 + z, a + 16 + z + w, a + 24 + z + w}"
    using block_split_layout [OF L a n z] by blast
  note b = layout_bounds [OF L a n z(2,3)] and D = split_cell_mapped [OF L a z(1)]
  note Dm = agree_dom [OF m1(6)]
  have 8: "a + 8 + z + 8 = a + 16 + z" by simp
  let ?m2 = "m1(adr (a + 16 + z) \<mapsto> hdr w True False)"
  have p: "block_set_prev_used m1 (adr (a + 8 + z)) = Some ?m2" using header_exec(8) [OF m1(3)] by (simp add: 8)
  have "agree m1 ?m2 {a + 16 + z}"
    using D Dm b(1) z by (auto simp: agree_def adr_eq_iff)
  from agree_trans [OF m1(6) this] have ag: "agree m ?m2 {a + 8, a + 16 + z, a + 16 + z + w, a + 24 + z + w}"
    by (rule agree_mono) auto
  then have ag': "agree m ?m2 {a + 8, a + 8 + z, a + 16 + z, a + 16 + z + w, a + 24 + z + w}" by (rule agree_mono) auto
  have "layout ?m2 (H(a \<mapsto> (z, False), a + 8 + z \<mapsto> (w, True)))"
    by (rule layout_split [OF L a n z ag']) (use b m1 in \<open>auto simp: header_def\<close>)
  with m1(1) p ag that show ?thesis by blast
qed

section \<open>Absorbing\<close>

lemma block_absorb_layout:
  assumes L: "layout m H" and a: "H a = Some (s, f)" "s \<noteq> 0" and n: "H (a + 8 + s) = Some (t, True)"
  obtains m' u g where "block_absorb m (adr a) (adr (a + 8 + s)) = Some m'" "H (a + 8 + s + 8 + t) = Some (u, g)"
    and "header m' a (s + 8 + t) f (pf H a)" "m' (adr (a + 8 + s + 8 + t)) = Some (adr a)"
    and "m' (adr (a + 8 + s + 16 + t)) = Some (hdr u g True)" "agree m m' {a + 8, a + 8 + s + 8 + t}"
proof -
  note T = layout_tiling [OF L] and A = block_okD [OF layout_block(4) [OF L a(1)]] and N = block_okD [OF layout_block(4) [OF L n]]
  have t: "t \<noteq> 0" using N(5) by simp
  obtain u g where e: "H (a + 8 + s + 8 + t) = Some (u, g)" using tiling_next [OF T n t] by blast
  note E = block_okD [OF layout_block(4) [OF L e]]
  have "block_ok (H(a + 8 + s := None, a \<mapsto> (s + 8 + t, f))) a (s + 8 + t) f"
    by (rule tiling_block [OF tiling_absorb [OF T a n t]]) simp
  note S = block_okD(2,7) [OF this]
  define k where "k = a + 8 + s + 8 + t"
  have k: "a + 8 + (s + 8 + t) = k" "k + 8 = a + 8 + s + 16 + t" "k + 16 < 2 ^ 64" "a + 24 < k"
    using E(4) A(6) a(2) by (simp_all add: k_def)
  have ne: "adr k \<noteq> adr (a + 8)" "adr (k + 8) \<noteq> adr (a + 8)" "adr (k + 8) \<noteq> adr k"
    using k by (simp_all add: adr_eq_iff)
  have D: "adr (a + 8) \<in> dom m" "adr k \<in> dom m"
    using layout_block(3) [OF L a(1)] layout_block(3) [OF L n] A(1,2) N(2) by (auto simp: mapped_def k_def)
  let ?m1 = "m(adr (a + 8) \<mapsto> hdr (s + 8 + t) f (pf H a))"
  let ?m2 = "?m1(adr k \<mapsto> adr a)"
  note ha = layout_header [OF L a(1)] and hn = layout_header [OF L n]
  have "8 dvd t + 8" using N(2) by simp
  with A(2) have "hdr s f (pf H a) + adr (t + 8) = hdr (s + (t + 8)) f (pf H a)" by (rule hdr_add)
  then have w: "hdr s f (pf H a) + (adr t + block_header_overhead) = hdr (s + 8 + t) f (pf H a)"
    by (simp add: block_header_overhead_def ac_simps)
  have h1: "header ?m1 a (s + 8 + t) f (pf H a)" using S by (simp add: header_def)
  have l: "block_link_next ?m1 (adr a) = Some (adr k, ?m2)"
    using header_exec(10) [OF h1] D k(1) by (simp add: block_link_next_def wr64_mapped)
  have "rd64 m (adr a + 8) = Some (hdr s f (pf H a))" using ha by (simp add: rd64_def header_def)
  then have run: "block_absorb m (adr a) (adr (a + 8 + s)) = Some ?m2"
    using header_exec(1) [OF hn] header_exec(2) [OF ha] a(2) w l D
    by (simp add: block_absorb_def tlsf_assert_def wr64_mapped)
  have "header ?m2 a (s + 8 + t) f (pf H a)" using h1 ne by (simp add: header_def)
  moreover have "pf H k = True" using pf_next [OF T n t] by (simp add: k_def)
  then have "?m2 (adr (k + 8)) = Some (hdr u g True)" using layout_header [OF L e [folded k_def]] ne by (simp add: header_def)
  moreover have "agree m ?m2 {a + 8, k}" using D k by (auto simp: agree_def adr_eq_iff)
  ultimately show ?thesis using that [OF run e] unfolding k_def k(2) [unfolded k_def] by simp
qed

lemma absorb_free_layout:
  assumes L: "layout m H" and a: "H a = Some (s, True)" and n: "H (a + 8 + s) = Some (t, True)"
  obtains m' where "block_absorb m (adr a) (adr (a + 8 + s)) = Some m'"
    "layout m' (H(a + 8 + s := None, a \<mapsto> (s + 8 + t, True)))" "agree m m' {a + 8, a + 8 + s + 8 + t}"
proof -
  have s: "s \<noteq> 0" using block_okD(5) [OF layout_block(4) [OF L a]] by simp
  obtain m' u g where m': "block_absorb m (adr a) (adr (a + 8 + s)) = Some m'" "H (a + 8 + s + 8 + t) = Some (u, g)"
    "header m' a (s + 8 + t) True (pf H a)" "m' (adr (a + 8 + s + 8 + t)) = Some (adr a)"
    "m' (adr (a + 8 + s + 16 + t)) = Some (hdr u g True)" "agree m m' {a + 8, a + 8 + s + 8 + t}"
    by (rule block_absorb_layout [OF L a s n])
  from m'(6) have "agree m m' {a + 8, a + 8 + s + 8 + t, a + 8 + s + 16 + t}" by (rule agree_mono) auto
  from layout_absorb [OF L a s n m'(2) this] m'(3-5) have "layout m' (H(a + 8 + s := None, a \<mapsto> (s + 8 + t, True)))"
    by (simp add: header_def)
  with that m'(1,6) show ?thesis by blast
qed

text \<open>Growing a used block: absorb the free block behind it, then mark the whole as used.\<close>

lemma absorb_used_layout:
  assumes L: "layout m H" and a: "H a = Some (s, False)" "s \<noteq> 0" and n: "H (a + 8 + s) = Some (t, True)"
  obtains m1 m2 where "block_absorb m (adr a) (adr (a + 8 + s)) = Some m1" "block_mark_as_used m1 (adr a) = Some m2"
    and "layout m2 (H(a + 8 + s := None, a \<mapsto> (s + 8 + t, False)))"
    and "agree m m2 {a + 8, a + 8 + s + 8 + t, a + 8 + s + 16 + t}"
proof -
  obtain m1 u g where m1: "block_absorb m (adr a) (adr (a + 8 + s)) = Some m1" "H (a + 8 + s + 8 + t) = Some (u, g)"
    "header m1 a (s + 8 + t) False (pf H a)" "m1 (adr (a + 8 + s + 8 + t)) = Some (adr a)"
    "m1 (adr (a + 8 + s + 16 + t)) = Some (hdr u g True)" "agree m m1 {a + 8, a + 8 + s + 8 + t}"
    by (rule block_absorb_layout [OF L a n])
  define k where "k = a + 8 + s + 8 + t"
  have k: "a + 8 + (s + 8 + t) = k" "a + 8 + s + 16 + t = k + 8" by (simp_all add: k_def)
  note E = block_okD [OF layout_block(4) [OF L m1(2)]]
  have hk: "header m1 k u g True" using m1(5) [unfolded k(2)] E(2,7) by (simp add: header_def)
  let ?m2 = "m1(adr (k + 8) \<mapsto> hdr u g False)"
  let ?m3 = "?m2(adr (a + 8) \<mapsto> hdr (s + 8 + t) False (pf H a))"
  have b: "k + 16 < 2 ^ 64" "a + 8 < k" using E(4) by (simp_all add: k_def)
  then have ne: "adr (k + 8) \<noteq> adr (a + 8)" by (simp add: adr_eq_iff)
  have "header ?m2 a (s + 8 + t) False (pf H a)" using m1(3) ne by (simp add: header_def)
  with header_exec(10) [OF m1(3)] header_exec(8) [OF hk] have run: "block_mark_as_used m1 (adr a) = Some ?m3"
    by (simp add: block_mark_as_used_def header_exec(6) k(1))
  have "m1 (adr (k + 8)) \<noteq> None" "m1 (adr (a + 8)) \<noteq> None" using m1(3) m1(5) [unfolded k(2)] by (simp_all add: header_def)
  then have "agree m1 ?m3 {a + 8, k + 8}" using b by (auto simp: agree_def adr_eq_iff)
  from agree_trans [OF m1(6) this] have ag: "agree m ?m3 {a + 8, a + 8 + s + 8 + t, a + 8 + s + 16 + t}"
    unfolding k(2) by (rule agree_mono) auto
  have "layout ?m3 (H(a + 8 + s := None, a \<mapsto> (s + 8 + t, False)))"
    by (rule layout_absorb [OF L a n m1(2) ag]; (unfold k(2))?) (use ne in simp_all)
  with that m1(1) run ag show ?thesis by blast
qed

end
