(* ===== verification/Tlsf_Bits.thy ===== *)
theory Tlsf_Bits
  imports Tlsf
begin

text \<open>
  The bit scans of \<^verbatim>\<open>tlsf.c\<close>: against the powers of two around a number, and the generic versions
  against the instructions.
\<close>

section \<open>Bit scans\<close>

lemma unat_less_power_iff: "unat (w :: 'a::len word) < 2 ^ n \<longleftrightarrow> (\<forall>j\<ge>n. \<not> bit w j)"
proof -
  have "unat w < 2 ^ n \<longleftrightarrow> take_bit n (unat w) = unat w"
    by (simp add: take_bit_nat_eq_self_iff)
  also have "\<dots> \<longleftrightarrow> (\<forall>j\<ge>n. \<not> bit (unat w) j)"
    by (simp only: bit_eq_iff bit_take_bit_iff possible_bit_nat simp_thms) (use not_le in blast)
  also have "\<dots> \<longleftrightarrow> (\<forall>j\<ge>n. \<not> bit w j)"
    by (simp add: bit_unsigned_iff)
  finally show ?thesis .
qed

lemma filter_upt_Cons:
  assumes "filter P [0..<n] = i # xs"
  shows "i < n \<and> P i \<and> (\<forall>j<i. \<not> P j)"
proof -
  from filter_eq_ConsD [OF assms] obtain us vs where
    us: "[0..<n] = us @ i # vs" "\<forall>u\<in>set us. \<not> P u" "P i" by blast
  from us(1) have "sorted (us @ i # vs)" and "set [0..<n] = set (us @ i # vs)" by (metis sorted_upt, simp)
  then have "\<forall>v\<in>set vs. i \<le> v" and n: "{0..<n} = insert i (set us \<union> set vs)" by (simp_all add: sorted_append)
  moreover from n have "i < n" by (metis atLeastLessThan_iff insertI1)
  moreover have "j \<in> insert i (set us \<union> set vs)" if "j < i" for j
    by (subst n [symmetric]) (use that \<open>i < n\<close> in simp)
  ultimately have "j \<in> set us" if "j < i" for j
    using that by fastforce
  with us(2,3) \<open>i < n\<close> show ?thesis by blast
qed

lemma filter_rev_upt_Cons:
  assumes "filter P (rev [0..<n]) = i # xs"
  shows "i < n \<and> P i \<and> (\<forall>j. i < j \<longrightarrow> j < n \<longrightarrow> \<not> P j)"
proof -
  from filter_eq_ConsD [OF assms] obtain us vs where
    us: "rev [0..<n] = us @ i # vs" "\<forall>u\<in>set us. \<not> P u" "P i" by blast
  from us(1) have "[0..<n] = rev (us @ i # vs)" by (metis rev_rev_ident)
  then have "sorted (rev (us @ i # vs))" and "set [0..<n] = set (us @ i # vs)" by (metis sorted_upt, metis set_rev)
  then have "\<forall>v\<in>set vs. v \<le> i" and n: "{0..<n} = insert i (set us \<union> set vs)" by (simp_all add: sorted_append)
  moreover from n have "i < n" by (metis atLeastLessThan_iff insertI1)
  moreover have "j \<in> insert i (set us \<union> set vs)" if "j < n" for j
    by (subst n [symmetric]) (use that in simp)
  ultimately have "j \<in> set us" if "i < j" "j < n" for j
    using that by fastforce
  with us(2,3) \<open>i < n\<close> show ?thesis by blast
qed

lemma tlsf_fls_bit:
  assumes "w \<noteq> 0"
  obtains i where "tlsf_fls w = int i" "i < 32" "bit w i" "\<forall>j>i. \<not> bit w j"
proof (cases "filter (bit w) (rev [0..<32])")
  case Nil
  then have "\<forall>i<32. \<not> bit w i" by (auto simp: filter_empty_conv)
  with assms bit_imp_le_length [of w] show ?thesis by (auto simp: bit_eq_iff not_le)
next
  case (Cons i xs)
  then show ?thesis
    using that [of i] filter_rev_upt_Cons [OF Cons] bit_imp_le_length [of w] not_le
    by (auto simp: tlsf_fls_def)
qed

lemma tlsf_ffs_bit:
  assumes "w \<noteq> 0"
  obtains i where "tlsf_ffs w = int i" "i < 32" "bit w i" "\<forall>j<i. \<not> bit w j"
proof (cases "filter (bit w) [0..<32]")
  case Nil
  then have "\<forall>i<32. \<not> bit w i" by (auto simp: filter_empty_conv)
  with assms bit_imp_le_length [of w] show ?thesis by (auto simp: bit_eq_iff not_le)
next
  case (Cons i xs)
  then show ?thesis
    using that [of i] filter_upt_Cons [OF Cons] by (auto simp: tlsf_ffs_def)
qed

lemma tlsf_fls_power:
  assumes "2 ^ k \<le> unat w" and "unat w < 2 ^ Suc k"
  shows "tlsf_fls w = int k"
proof -
  have "w \<noteq> 0" using assms(1) by auto
  then obtain i where i: "tlsf_fls w = int i" "bit w i" "\<forall>j>i. \<not> bit w j"
    using tlsf_fls_bit [of w] by metis
  have "\<not> unat w < 2 ^ k" using assms(1) by simp
  then obtain j where "k \<le> j" "bit w j" by (auto simp: unat_less_power_iff)
  moreover have "\<forall>j\<ge>Suc k. \<not> bit w j" using assms(2) by (simp only: unat_less_power_iff)
  ultimately have "j = k" by (metis le_antisym not_less_eq_eq)
  with \<open>bit w j\<close> i(2,3) \<open>\<forall>j\<ge>Suc k. \<not> bit w j\<close> have "i = k"
    by (metis Suc_leI linorder_neqE_nat)
  with i(1) show ?thesis by simp
qed

section \<open>The generic scans\<close>

definition top_bit :: "u32 \<Rightarrow> nat \<Rightarrow> bool" where
  "top_bit w i \<longleftrightarrow> i < 32 \<and> bit w i \<and> (\<forall>j>i. \<not> bit w j)"

lemma top_bit_unique: "top_bit w i \<Longrightarrow> top_bit w k \<Longrightarrow> i = k"
  by (metis linorder_neqE_nat top_bit_def)

lemma top_bit_fls: "top_bit w i \<Longrightarrow> tlsf_fls w = int i"
  using tlsf_fls_bit [of w] top_bit_unique [of w i] by (metis top_bit_def bit_0_eq bot_apply bot_bool_def)

lemma top_bit_push:
  assumes "top_bit w i" and "i + n < 32"
  shows "top_bit (push_bit n w) (i + n)"
  using assms by (auto simp: top_bit_def bit_push_bit_iff)

lemma top_mask_zero:
  assumes "\<And>j. bit msk j \<longleftrightarrow> 32 - n \<le> j \<and> j < 32" and "top_bit w i"
  shows "w AND msk = 0 \<longleftrightarrow> i < 32 - n"
proof
  assume "w AND msk = 0"
  then have "\<not> bit (w AND msk) i" by simp
  with assms show "i < 32 - n" by (auto simp: top_bit_def bit_and_iff)
next
  assume "i < 32 - n"
  with assms show "w AND msk = 0" by (intro bit_word_eqI) (auto simp: top_bit_def bit_and_iff)
qed

lemma fls_step:
  assumes "\<And>j. bit msk j \<longleftrightarrow> 32 - n \<le> j \<and> j < 32" and "top_bit (fst wb) i" and "32 - 2 * n \<le> i" and "n \<le> 16"
  obtains k where "top_bit (fst (fls_step msk n wb)) k" and "32 - n \<le> k"
    and "snd (fls_step msk n wb) + int k = snd wb + int i"
proof (cases "i < 32 - n")
  case True
  with top_mask_zero [OF assms(1,2)] have "fls_step msk n wb = (push_bit n (fst wb), snd wb - int n)"
    by (simp add: fls_step_def)
  moreover from True have "i + n < 32" by linarith
  then have "top_bit (push_bit n (fst wb)) (i + n)" by (rule top_bit_push [OF assms(2)])
  moreover have "32 - n \<le> i + n" using assms(3,4) by linarith
  ultimately show ?thesis using that [of "i + n"] by simp
next
  case False
  with top_mask_zero [OF assms(1,2)] have "fls_step msk n wb = wb" by (simp add: fls_step_def)
  with that [of i] False assms(2) show ?thesis by simp
qed

lemma top_masks:
  "bit (0xffff0000 :: u32) j \<longleftrightarrow> 32 - 16 \<le> j \<and> j < 32"
  "bit (0xff000000 :: u32) j \<longleftrightarrow> 32 - 8 \<le> j \<and> j < 32"
  "bit (0xf0000000 :: u32) j \<longleftrightarrow> 32 - 4 \<le> j \<and> j < 32"
  "bit (0xc0000000 :: u32) j \<longleftrightarrow> 32 - 2 \<le> j \<and> j < 32"
  "bit (0x80000000 :: u32) j \<longleftrightarrow> 32 - 1 \<le> j \<and> j < 32"
proof -
  have "\<forall>j\<in>set [0..<32]. (bit (0xffff0000 :: u32) j \<longleftrightarrow> 16 \<le> j) \<and> (bit (0xff000000 :: u32) j \<longleftrightarrow> 24 \<le> j) \<and>
      (bit (0xf0000000 :: u32) j \<longleftrightarrow> 28 \<le> j) \<and> (bit (0xc0000000 :: u32) j \<longleftrightarrow> 30 \<le> j) \<and> (bit (0x80000000 :: u32) j \<longleftrightarrow> 31 \<le> j)"
    by code_simp
  note a = bspec [OF this, of j, simplified set_upt atLeastLessThan_iff]
  have "\<not> j < 32 \<Longrightarrow> \<not> bit (w :: u32) j" for w using bit_imp_le_length [of w j] by auto
  with a show
    "bit (0xffff0000 :: u32) j \<longleftrightarrow> 32 - 16 \<le> j \<and> j < 32"
    "bit (0xff000000 :: u32) j \<longleftrightarrow> 32 - 8 \<le> j \<and> j < 32"
    "bit (0xf0000000 :: u32) j \<longleftrightarrow> 32 - 4 \<le> j \<and> j < 32"
    "bit (0xc0000000 :: u32) j \<longleftrightarrow> 32 - 2 \<le> j \<and> j < 32"
    "bit (0x80000000 :: u32) j \<longleftrightarrow> 32 - 1 \<le> j \<and> j < 32"
    by (cases "j < 32"; simp)+
qed

lemma fls_generic_top_bit:
  assumes "top_bit w i"
  shows "tlsf_fls_generic w = int i + 1"
proof -
  have w: "w \<noteq> 0" using assms by (auto simp: top_bit_def)
  let ?s1 = "fls_step 0xffff0000 16 (w, 32)"
  let ?s2 = "fls_step 0xff000000 8 ?s1"
  let ?s3 = "fls_step 0xf0000000 4 ?s2"
  let ?s4 = "fls_step 0xc0000000 2 ?s3"
  let ?s5 = "fls_step 0x80000000 1 ?s4"
  obtain a where a: "top_bit (fst ?s1) a" "32 - 16 \<le> a" "snd ?s1 + int a = 32 + int i"
    by (rule fls_step [OF top_masks(1), of "(w, 32)" i]) (use assms in auto)
  obtain b where b: "top_bit (fst ?s2) b" "32 - 8 \<le> b" "snd ?s2 + int b = snd ?s1 + int a"
    by (rule fls_step [OF top_masks(2) a(1)]) (use a(2) in auto)
  obtain c where c: "top_bit (fst ?s3) c" "32 - 4 \<le> c" "snd ?s3 + int c = snd ?s2 + int b"
    by (rule fls_step [OF top_masks(3) b(1)]) (use b(2) in auto)
  obtain d where d: "top_bit (fst ?s4) d" "32 - 2 \<le> d" "snd ?s4 + int d = snd ?s3 + int c"
    by (rule fls_step [OF top_masks(4) c(1)]) (use c(2) in auto)
  obtain e where e: "top_bit (fst ?s5) e" "32 - 1 \<le> e" "snd ?s5 + int e = snd ?s4 + int d"
    by (rule fls_step [OF top_masks(5) d(1)]) (use d(2) in auto)
  have "e = 31" using e(1,2) by (simp add: top_bit_def)
  with a(3) b(3) c(3) d(3) e(3) have "snd ?s5 = int i + 1" by simp
  then show ?thesis unfolding tlsf_fls_generic_def Let_def if_not_P [OF w] .
qed

lemma isolate_lowest_bit:
  assumes "bit w i" and "\<forall>j<i. \<not> bit w j"
  shows "w AND (NOT w + 1) = push_bit i (1 :: u32)"
proof -
  define u where "u = drop_bit i w"
  have u: "w = push_bit i u" by (rule bit_word_eqI) (use assms(2) in \<open>auto simp: u_def bit_simps not_less dest: leI\<close>, metis le_add_diff_inverse not_le)
  have odd: "odd u" using assms(1) by (simp add: u_def bit_drop_bit_eq flip: bit_0)
  then have "NOT u AND 1 = 0" by (simp add: and_one_eq mod2_eq_if)
  then have "NOT u + 1 = NOT u OR 1" by (simp add: disjunctive_add_eq_or)
  moreover have "NOT w + 1 = push_bit i (NOT u + 1)"
    unfolding minus_eq_not_plus_1 [symmetric] u by (simp add: push_bit_eq_mult)
  ultimately have "w AND (NOT w + 1) = push_bit i (u AND (NOT u OR 1))" by (simp add: u push_bit_and)
  also have "u AND (NOT u OR 1) = 1"
    using odd by (simp add: bit.conj_disj_distrib and_one_eq mod2_eq_if)
  finally show ?thesis .
qed

lemma bit_scans_zero: "generic_fls 0 = tlsf_fls 0" "generic_ffs 0 = tlsf_ffs 0"
  by code_simp+

text \<open>The generic bit scans agree with the processor's instructions on every word, zero included.\<close>

theorem tlsf_bit_scans: "generic_fls w = tlsf_fls w \<and> generic_ffs w = tlsf_ffs w"
proof (cases "w = 0")
  case False
  then obtain i where "top_bit w i" using tlsf_fls_bit [of w] unfolding top_bit_def by metis
  then have "generic_fls w = tlsf_fls w" by (simp add: generic_fls_def fls_generic_top_bit top_bit_fls)
  moreover from False obtain k where k: "tlsf_ffs w = int k" "k < 32" "bit w k" "\<forall>j<k. \<not> bit w j"
    using tlsf_ffs_bit [of w] by metis
  moreover have "top_bit (push_bit k 1) k" using k(2) by (auto simp: top_bit_def bit_simps)
  ultimately show ?thesis
    by (simp add: generic_ffs_def isolate_lowest_bit fls_generic_top_bit)
qed (simp add: bit_scans_zero)

lemma test_ffs_fls_passes: "test_ffs_fls = 0"
  by code_simp

end
