(* ===== verification/Tlsf_Mapping.thy ===== *)
theory Tlsf_Mapping
  imports Tlsf_Bits "HOL-Library.Log_Nat"
begin

text \<open>
  The size classes of \<^verbatim>\<open>tlsf.c\<close>: \<open>mapping_insert\<close> and \<open>mapping_search\<close> against classes of natural
  numbers with their smallest member.
\<close>

section \<open>Logarithms\<close>

lemma power2_split: "j \<le> k \<Longrightarrow> (2::nat) ^ k = 2 ^ j * 2 ^ (k - j)"
  by (simp flip: power_add)

definition lg :: "nat \<Rightarrow> nat" where "lg n = floorlog 2 n - 1"

lemma lg_bounds: "0 < n \<Longrightarrow> 2 ^ lg n \<le> n \<and> n < 2 ^ Suc (lg n)"
  using floorlog_bounds [of n 2] floorlog_eq_zero_iff [of 2 n] by (simp add: lg_def)

lemma lg_eqI: "2 ^ k \<le> n \<Longrightarrow> n < 2 ^ Suc k \<Longrightarrow> lg n = k"
  using floorlog_geI [of 2 "Suc k" n] floorlog_leI [of n 2 "Suc k"] by (simp add: lg_def)

lemma lg_mono: "m \<le> n \<Longrightarrow> lg m \<le> lg n"
  using floorlog_mono [of m n 2] by (simp add: lg_def)

lemma lg_less: "0 < n \<Longrightarrow> n < 2 ^ k \<Longrightarrow> lg n < k"
  using floorlog_leI [of n 2 k] floorlog_eq_zero_iff [of 2 n] by (simp add: lg_def)

lemma tlsf_fls_sizet_lg:
  assumes "0 < n" and "n < 2 ^ 64"
  shows "tlsf_fls_sizet (word_of_nat n) = int (lg n)"
proof -
  let ?w = "word_of_nat n :: u64"
  have n: "unat ?w = n" using assms(2) by (simp add: unat_of_nat)
  have high: "unat (ucast (drop_bit 32 ?w) :: u32) = n div 2 ^ 32"
    by (simp only: unsigned_ucast_eq unat_drop_bit_eq n) (use assms(2) in
      \<open>simp add: drop_bit_eq_div take_bit_nat_eq_self_iff less_mult_imp_div_less\<close>)
  have low: "unat (ucast ?w :: u32) = n mod 2 ^ 32"
    by (simp add: unsigned_ucast_eq n take_bit_eq_mod)
  note b = lg_bounds [OF assms(1)]
  show ?thesis
  proof (cases "n < 2 ^ 32")
    case True
    then have "(ucast (drop_bit 32 ?w) :: u32) = 0" using high by (simp add: unat_eq_zero)
    with True low b show ?thesis
      using tlsf_fls_power [of "lg n" "ucast ?w"] by (simp add: tlsf_fls_sizet_def)
  next
    case False
    then have h0: "(ucast (drop_bit 32 ?w) :: u32) \<noteq> 0" using high by auto
    have k: "32 \<le> lg n" using lg_mono [of "2 ^ 32" n] lg_eqI [of 32 "2 ^ 32"] False by simp
    have "2 ^ (lg n - 32) \<le> n div 2 ^ 32"
      using b k by (simp add: less_eq_div_iff_mult_less_eq power2_split [of 32 "lg n"] mult.commute)
    moreover have "n div 2 ^ 32 < 2 ^ Suc (lg n - 32)"
      using b k by (intro less_mult_imp_div_less) (simp add: power2_split [of 32 "lg n"] mult.commute)
    ultimately have "tlsf_fls (ucast (drop_bit 32 ?w)) = int (lg n - 32)"
      by (intro tlsf_fls_power) (simp_all add: high)
    with h0 k show ?thesis by (simp add: tlsf_fls_sizet_def)
  qed
qed

section \<open>Size classes\<close>

text \<open>The class of a size, and the smallest size of a class.\<close>

definition size_class :: "nat \<Rightarrow> nat \<times> nat" where
  "size_class n = (if n < 256 then (0, n div 8) else (lg n - 7, n div 2 ^ (lg n - 5) - 32))"

definition class_low :: "nat \<times> nat \<Rightarrow> nat" where
  "class_low c = (if fst c = 0 then 8 * snd c else (32 + snd c) * 2 ^ (fst c + 2))"

definition class_le :: "nat \<times> nat \<Rightarrow> nat \<times> nat \<Rightarrow> bool" where
  "class_le c d \<longleftrightarrow> fst c < fst d \<or> fst c = fst d \<and> snd c \<le> snd d"

lemma lg_ge_8: "256 \<le> n \<Longrightarrow> 8 \<le> lg n"
  using lg_mono [of 256 n] lg_eqI [of 8 256] by simp

lemma class_quotient:
  assumes "256 \<le> n"
  shows "32 \<le> n div 2 ^ (lg n - 5)" and "n div 2 ^ (lg n - 5) < 64"
proof -
  have k: "8 \<le> lg n" and b: "2 ^ lg n \<le> n" "n < 2 ^ Suc (lg n)"
    using lg_ge_8 [OF assms] lg_bounds [of n] assms by auto
  have "(2::nat) ^ lg n = 32 * 2 ^ (lg n - 5)" and "(2::nat) ^ Suc (lg n) = 64 * 2 ^ (lg n - 5)"
    using k by (simp_all add: power2_split [of 5])
  with b show "32 \<le> n div 2 ^ (lg n - 5)" and "n div 2 ^ (lg n - 5) < 64"
    by (simp_all add: less_eq_div_iff_mult_less_eq div_less_iff_less_mult)
qed

lemma size_class_bounds:
  shows size_class_snd: "snd (size_class n) < 32" and size_class_fst: "n < 2 ^ 32 \<Longrightarrow> fst (size_class n) < 25"
    and class_low_le: "class_low (size_class n) \<le> n"
    and class_low_gt: "n < class_low (size_class n) + (if n < 256 then 8 else 2 ^ (lg n - 5))"
proof -
  show "snd (size_class n) < 32" using class_quotient [of n] by (auto simp: size_class_def)
  show "fst (size_class n) < 25" if "n < 2 ^ 32"
  proof (cases "n < 256")
    case False
    with that lg_less [of n 32] show ?thesis by (simp add: size_class_def)
  qed (simp add: size_class_def)
  have low: "class_low (size_class n) = (if n < 256 then 8 * (n div 8) else n div 2 ^ (lg n - 5) * 2 ^ (lg n - 5))"
  proof (cases "n < 256")
    case False
    with class_quotient [of n] lg_ge_8 [of n] show ?thesis
      by (simp add: size_class_def class_low_def) (simp add: power2_split [of 2 "lg n - 5"])
  qed (simp add: size_class_def class_low_def)
  show "class_low (size_class n) \<le> n" by (simp add: low)
  show "n < class_low (size_class n) + (if n < 256 then 8 else 2 ^ (lg n - 5))"
  proof (cases "n < 256")
    case False
    have "n mod 2 ^ (lg n - 5) < 2 ^ (lg n - 5)" by simp
    with False div_mult_mod_eq [of n "2 ^ (lg n - 5)"] show ?thesis unfolding low if_not_P [OF False] by linarith
  next
    case True
    have "n < 8 * (n div 8) + 8" by presburger
    with True show ?thesis by (simp only: low if_True)
  qed
qed

lemma class_le_low:
  assumes "class_le c d" and "snd c < 32"
  shows "class_low c \<le> class_low d"
proof (cases "fst c = fst d")
  case True
  with assms(1) show ?thesis by (auto simp: class_le_def class_low_def)
next
  case False
  with assms(1) have f: "Suc (fst c) \<le> fst d" by (simp add: class_le_def)
  then have "(2::nat) ^ Suc (fst c + 2) \<le> 2 ^ (fst d + 2)" by (intro power_increasing) auto
  moreover have "class_low c \<le> 32 * 2 ^ Suc (fst c + 2)" if "fst c \<noteq> 0"
    using assms(2) that by (simp add: class_low_def)
  moreover have "class_low c < 256" if "fst c = 0" using assms(2) that by (simp add: class_low_def)
  moreover have "32 * 2 ^ (fst d + 2) \<le> class_low d" using f by (simp add: class_low_def)
  moreover have "(256::nat) \<le> 32 * 2 ^ (fst d + 2)" using f power_increasing [of 3 "fst d + 2" "2::nat"] by simp
  ultimately show ?thesis by linarith
qed

text \<open>Among sizes the classes are ordered as the sizes.\<close>

lemma size_class_mono:
  assumes "m \<le> n"
  shows "class_le (size_class m) (size_class n)"
proof (rule ccontr)
  assume "\<not> ?thesis"
  then have le: "class_le (size_class n) (size_class m)" and
    ne: "fst (size_class n) < fst (size_class m) \<or> fst (size_class n) = fst (size_class m) \<and> snd (size_class n) < snd (size_class m)"
    by (auto simp: class_le_def)
  let ?c = "size_class n"
  define w where "w = (if fst ?c = 0 then 8 else 2 ^ (fst ?c + 2) :: nat)"
  have "256 \<le> n \<Longrightarrow> fst ?c + 2 = lg n - 5 \<and> fst ?c \<noteq> 0" using lg_ge_8 [of n] by (simp add: size_class_def)
  moreover have "n < 256 \<Longrightarrow> fst ?c = 0" by (simp add: size_class_def)
  ultimately have n: "n < class_low ?c + w"
    using class_low_gt [of n] by (cases "n < 256") (simp_all add: w_def)
  have "class_low ?c + w \<le> class_low (size_class m)"
  proof (cases "fst ?c = fst (size_class m)")
    case True
    with ne have "Suc (snd ?c) \<le> snd (size_class m)" by simp
    then have "(32 + snd ?c + 1) * 2 ^ (fst ?c + 2) \<le> (32 + snd (size_class m)) * 2 ^ (fst ?c + 2)"
      by (intro mult_le_mono1) simp
    with True \<open>Suc _ \<le> _\<close> show ?thesis by (simp add: class_low_def w_def algebra_simps)
  next
    case False
    with ne have lt: "Suc (fst ?c) \<le> fst (size_class m)" by simp
    then have p: "(2::nat) ^ Suc (fst ?c + 2) \<le> 2 ^ (fst (size_class m) + 2)" by (intro power_increasing) auto
    have "class_low ?c + w \<le> 32 * 2 ^ Suc (fst ?c + 2)"
      using size_class_snd [of n] mult_le_mono1 [of "snd ?c + 33" 64 "2 ^ (fst ?c + 2)"]
      by (simp add: class_low_def w_def algebra_simps)
    also have "\<dots> \<le> 32 * 2 ^ (fst (size_class m) + 2)" using p by simp
    also have "\<dots> \<le> class_low (size_class m)" using lt by (simp add: class_low_def)
    finally show ?thesis .
  qed
  with n class_low_le [of m] assms show False by linarith
qed

lemma mapping_insert_class:
  assumes "n < 2 ^ 64"
  shows "mapping_insert (word_of_nat n) = map_prod int int (size_class n)"
proof -
  let ?w = "word_of_nat n :: u64"
  have n: "unat ?w = n" using assms by (simp add: unat_of_nat)
  have small: "SMALL_BLOCK_SIZE = 256"
    by (simp add: SMALL_BLOCK_SIZE_def FL_INDEX_SHIFT_def SL_INDEX_COUNT_LOG2_def ALIGN_SIZE_LOG2_def)
  show ?thesis
  proof (cases "n < 256")
    case True
    then have "(ucast ?w :: c_int) = word_of_nat n"
      by (simp add: word_unat_eq_iff unsigned_ucast_eq n unat_of_nat take_bit_eq_mod)
    with True show ?thesis
      by (simp add: mapping_insert_def small word_less_nat_alt n size_class_def SL_INDEX_COUNT_def SL_INDEX_COUNT_LOG2_def zdiv_int)
  next
    case False
    then have fls: "tlsf_fls_sizet ?w = int (lg n)" using tlsf_fls_sizet_lg [of n] assms by simp
    define q where "q = n div 2 ^ (lg n - 5)"
    have q: "32 \<le> q" "q < 64" and k: "8 \<le> lg n" using class_quotient [of n] lg_ge_8 [of n] False by (auto simp: q_def)
    have "unat (drop_bit (lg n - 5) ?w) = q" by (simp only: unat_drop_bit_eq n) (simp add: q_def drop_bit_eq_div)
    then have w: "(ucast (drop_bit (lg n - 5) ?w) :: c_int) = word_of_nat q"
      using q by (simp add: word_unat_eq_iff unsigned_ucast_eq unat_of_nat take_bit_eq_mod)
    have "\<forall>q\<in>set [32..<64]. sint (word_of_nat q XOR 32 :: c_int) = int (q - 32)" by code_simp
    then have x: "sint (word_of_nat q XOR 32 :: c_int) = int (q - 32)"
      by (rule bspec) (use q in \<open>simp only: set_upt atLeastLessThan_iff simp_thms\<close>)
    have "nat (int (lg n) - 5) = lg n - 5" by simp
    with False k w x show ?thesis
      by (simp add: mapping_insert_def small word_less_nat_alt n size_class_def fls Let_def SL_INDEX_COUNT_LOG2_def
          FL_INDEX_SHIFT_def ALIGN_SIZE_LOG2_def flip: q_def)
  qed
qed

text \<open>A search rounds the size up, so that every block of the class found is large enough.\<close>

definition search_size :: "nat \<Rightarrow> nat" where
  "search_size n = (if n < 256 then n else n + 2 ^ (lg n - 5) - 1)"

lemma search_size_le: "n \<le> search_size n" and search_size_bound: "search_size n \<le> n + n div 32"
proof -
  show "n \<le> search_size n" by (cases "(2::nat) ^ (lg n - 5)") (simp_all add: search_size_def)
  show "search_size n \<le> n + n div 32"
  proof (cases "n < 256")
    case False
    have "(2::nat) ^ (lg n - 5) * 32 \<le> n"
      using lg_bounds [of n] lg_ge_8 [of n] False power2_split [of 5 "lg n"] by simp
    then have "(2::nat) ^ (lg n - 5) \<le> n div 32" by linarith
    with False show ?thesis by (simp add: search_size_def)
  qed (simp add: search_size_def)
qed

lemma mapping_search_class:
  assumes "n < 2 ^ 32"
  shows "mapping_search (word_of_nat n) = map_prod int int (size_class (search_size n))"
proof -
  let ?w = "word_of_nat n :: u64"
  have n: "unat ?w = n" using assms by (simp add: unat_of_nat)
  have small: "SMALL_BLOCK_SIZE = 256"
    by (simp add: SMALL_BLOCK_SIZE_def FL_INDEX_SHIFT_def SL_INDEX_COUNT_LOG2_def ALIGN_SIZE_LOG2_def)
  have r: "search_size n < 2 ^ 64" using search_size_bound [of n] assms by simp
  show ?thesis
  proof (cases "n < 256")
    case True
    with n assms show ?thesis
      by (simp add: mapping_search_def small word_le_nat_alt mapping_insert_class search_size_def)
  next
    case False
    let ?k = "lg n - 5"
    have k: "?k < 31" using lg_less [of n 32] assms False by simp
    then have p: "(2::nat) ^ ?k < 2 ^ 31" using power_strict_increasing [of ?k 31 "2::nat"] by simp
    have "(push_bit ?k 1 - 1 :: c_int) = word_of_nat (2 ^ ?k - 1)" by (simp add: of_nat_diff push_bit_eq_mult)
    moreover have "sint (word_of_nat (2 ^ ?k - 1) :: c_int) = int (2 ^ ?k - 1)" using p by (intro sint_small) simp
    ultimately have "(scast (push_bit ?k 1 - 1 :: c_int) :: u64) = word_of_nat (2 ^ ?k - 1)"
      by (simp only: scast_eq of_int_of_nat_eq)
    then have "?w + scast (push_bit ?k 1 - 1 :: c_int) = word_of_nat (search_size n)"
      using False by (simp add: search_size_def of_nat_diff)
    moreover have "tlsf_fls_sizet ?w = int (lg n)" using tlsf_fls_sizet_lg [of n] assms False by simp
    moreover have "nat (int (lg n) - 5) = lg n - 5" by simp
    ultimately show ?thesis
      using False n mapping_insert_class [OF r]
      by (simp add: mapping_search_def small word_le_nat_alt Let_def SL_INDEX_COUNT_LOG2_def)
  qed
qed

lemma search_class_low:
  assumes "8 dvd n"
  shows "n \<le> class_low (size_class (search_size n))"
proof (cases "n < 256")
  case True
  with assms show ?thesis by (auto simp: search_size_def size_class_def class_low_def)
next
  case False
  let ?r = "search_size n" and ?p = "2 ^ (lg n - 5) :: nat"
  have r: "256 \<le> ?r" using False search_size_le [of n] by linarith
  have k: "8 \<le> lg n" and b: "n < 2 ^ Suc (lg n)" using lg_ge_8 [of n] lg_bounds [of n] False by auto
  show ?thesis
  proof (cases "lg ?r = lg n")
    case True
    then have "?r < class_low (size_class ?r) + ?p" using class_low_gt [of ?r] r by simp
    with True r class_quotient [of ?r] lg_ge_8 [of ?r]
    have c: "class_low (size_class ?r) = ?r div ?p * ?p" 
      by (simp add: size_class_def class_low_def) (simp add: power2_split [of 2 "lg n - 5"])
    have "?r < ?r div ?p * ?p + ?p" using \<open>?r < _\<close> by (simp only: c)
    moreover have "?r + 1 = n + ?p" using False by (simp add: search_size_def)
    ultimately show ?thesis unfolding c by linarith
  next
    case False
    with lg_mono [OF search_size_le [of n]] have "Suc (lg n) \<le> lg ?r" by linarith
    then have k: "size_class (2 ^ Suc (lg n)) = (lg n - 6, 0)" "2 ^ Suc (lg n) \<le> ?r"
      using k lg_eqI [of "Suc (lg n)" "2 ^ Suc (lg n)"] lg_bounds [of ?r] r power_increasing [of "Suc (lg n)" "lg ?r" "2::nat"]
        power_increasing [of 8 "Suc (lg n)" "2::nat"] power2_split [of "lg n - 4" "Suc (lg n)"]
      by (auto simp: size_class_def Suc_diff_le)
    have "class_low (lg n - 6, 0) = 2 ^ Suc (lg n)"
      using \<open>8 \<le> lg n\<close> power2_split [of 5 "Suc (lg n)"] power2_split [of 2 "lg n - 4"] by (simp add: class_low_def Suc_diff_le)
    with class_le_low [OF size_class_mono [OF k(2)]] k(1) b show ?thesis by simp
  qed
qed

lemma search_class_suits:
  assumes "8 dvd n" and "class_le (size_class (search_size n)) (size_class z)"
  shows "n \<le> z"
  using search_class_low [OF assms(1)] class_le_low [OF assms(2) size_class_snd] class_low_le [of z] by linarith

end
