(* ===== verification/Tlsf_Lists.thy ===== *)
theory Tlsf_Lists
  imports Tlsf_Steps Tlsf_Mapping
begin

text \<open>
  The free lists: doubly linked lists through the free blocks, one per size class, closed by the null
  block at both ends, with the two levels of bitmaps above them.
\<close>

section \<open>Doubly linked segments\<close>

definition first :: "nat \<Rightarrow> nat list \<Rightarrow> nat" where
  "first q xs = (case xs of [] \<Rightarrow> q | x # _ \<Rightarrow> x)"

definition final :: "nat \<Rightarrow> nat list \<Rightarrow> nat" where
  "final p xs = (if xs = [] then p else List.last xs)"

lemma first_simps [simp]: "first q [] = q" "first q (x # xs) = x" "first (first q ys) xs = first q (xs @ ys)"
  by (simp_all add: first_def split: list.split)

lemma final_simps [simp]: "final p [] = p" "final p (x # xs) = final x xs" "final p (xs @ [x]) = x"
  by (simp_all add: final_def)

lemma first_in: "first q xs = q \<or> first q xs \<in> set xs"
  by (simp add: first_def split: list.split)

lemma final_in: "final p xs = p \<or> final p xs \<in> set xs"
  by (simp add: final_def)

fun dseg :: "mem_t \<Rightarrow> nat \<Rightarrow> nat list \<Rightarrow> nat \<Rightarrow> bool" where
  "dseg m p [] q = True"
| "dseg m p (x # xs) q \<longleftrightarrow> m (adr (x + 24)) = Some (adr p) \<and> m (adr (x + 16)) = Some (adr (first q xs)) \<and> dseg m x xs q"

lemma dseg_append [simp]:
  "dseg m p (xs @ ys) q \<longleftrightarrow> dseg m p xs (first q ys) \<and> dseg m (final p xs) ys q"
  by (induction xs arbitrary: p) auto

lemma dseg_frame:
  assumes "dseg m p xs q" and "\<And>x. x \<in> set xs \<Longrightarrow> m' (adr (x + 16)) = m (adr (x + 16)) \<and> m' (adr (x + 24)) = m (adr (x + 24))"
  shows "dseg m' p xs q"
  using assms by (induction xs arbitrary: p) auto

lemma dseg_new_end:
  assumes "dseg m p xs q" and "distinct xs" and "xs \<noteq> [] \<Longrightarrow> m' (adr (final p xs + 16)) = Some (adr q')"
    and "\<And>x. x \<in> set xs \<Longrightarrow> m' (adr (x + 24)) = m (adr (x + 24))"
    and "\<And>x. x \<in> set xs \<Longrightarrow> x \<noteq> final p xs \<Longrightarrow> m' (adr (x + 16)) = m (adr (x + 16))"
  shows "dseg m' p xs q'"
  using assms
proof (induction xs arbitrary: p)
  case (Cons x xs)
  show ?case
  proof (cases xs)
    case Nil
    with Cons.prems show ?thesis by simp
  next
    case (Cons y ys)
    then have f: "final p (x # xs) = final x xs" "final x xs \<in> set xs" by (auto simp: final_def)
    with Cons.prems(2) have "x \<noteq> final x xs" by auto
    moreover have "dseg m' x xs q'"
      by (rule Cons.IH) (use Cons.prems f in auto)
    ultimately show ?thesis using Cons.prems f(1) Cons by simp
  qed
qed simp

lemma dseg_new_start:
  assumes "dseg m p xs q" and "distinct xs" and "xs \<noteq> [] \<Longrightarrow> m' (adr (first q xs + 24)) = Some (adr p')"
    and "\<And>x. x \<in> set xs \<Longrightarrow> m' (adr (x + 16)) = m (adr (x + 16))"
    and "\<And>x. x \<in> set xs \<Longrightarrow> x \<noteq> first q xs \<Longrightarrow> m' (adr (x + 24)) = m (adr (x + 24))"
  shows "dseg m' p' xs q"
proof (cases xs)
  case (Cons x ys)
  have "dseg m' x ys q"
  proof (rule dseg_frame)
    show "dseg m x ys q" using assms(1) Cons by simp
    show "m' (adr (y + 16)) = m (adr (y + 16)) \<and> m' (adr (y + 24)) = m (adr (y + 24))" if "y \<in> set ys" for y
    proof -
      have "y \<in> set xs" "y \<noteq> first q xs" using that Cons assms(2) by auto
      then show ?thesis using assms(4,5) by blast
    qed
  qed
  with Cons assms(1,3,4) show ?thesis by simp
qed simp

section \<open>Lists and bitmaps\<close>

type_synonym lists_t = "nat \<times> nat \<Rightarrow> nat list"

definition in_range :: "nat \<times> nat \<Rightarrow> bool" where
  "in_range c \<longleftrightarrow> fst c < FL_INDEX_COUNT \<and> snd c < SL_INDEX_COUNT"

lemma counts: "FL_INDEX_COUNT = 25" "SL_INDEX_COUNT = 32"
  by (simp_all add: FL_INDEX_COUNT_def SL_INDEX_COUNT_def FL_INDEX_MAX_def FL_INDEX_SHIFT_def SL_INDEX_COUNT_LOG2_def
      ALIGN_SIZE_LOG2_def)

lemma in_range_class: "n < 2 ^ 32 \<Longrightarrow> in_range (size_class n)"
  by (simp add: in_range_def counts size_class_snd size_class_fst)

definition lists_ok :: "mem_t \<Rightarrow> nat \<Rightarrow> blocks_t \<Rightarrow> lists_t \<Rightarrow> bool" where
  "lists_ok m nl H L \<longleftrightarrow> (\<forall>c. in_range c \<longrightarrow> dseg m nl (L c) nl \<and> distinct (L c) \<and>
     (\<forall>b\<in>set (L c). \<exists>s. H b = Some (s, True) \<and> size_class s = c))"

definition ctl_ok :: "control_t \<Rightarrow> nat \<Rightarrow> lists_t \<Rightarrow> bool" where
  "ctl_ok ct nl L \<longleftrightarrow> block_null ct = adr nl \<and>
     length (sl_bitmap ct) = 25 \<and> length (blocks ct) = 25 \<and> (\<forall>i<25. length (blocks ct ! i) = 32) \<and>
     (\<forall>i<25. \<forall>j<32. blocks ct ! i ! j = adr (first nl (L (i, j)))) \<and>
     (\<forall>i<25. \<forall>j<32. bit (sl_bitmap ct ! i) j \<longleftrightarrow> L (i, j) \<noteq> []) \<and>
     (\<forall>i<32. bit (fl_bitmap ct) i \<longleftrightarrow> i < 25 \<and> sl_bitmap ct ! i \<noteq> 0)"

lemma lists_okD:
  assumes "lists_ok m nl H L" and "in_range c"
  shows "dseg m nl (L c) nl" "distinct (L c)" "b \<in> set (L c) \<Longrightarrow> \<exists>s. H b = Some (s, True) \<and> size_class s = c"
  using assms unfolding lists_ok_def by blast+

lemma lists_okI:
  assumes "\<And>c. in_range c \<Longrightarrow> dseg m nl (L c) nl" and "\<And>c. in_range c \<Longrightarrow> distinct (L c)"
    and "\<And>c b. in_range c \<Longrightarrow> b \<in> set (L c) \<Longrightarrow> \<exists>s. H b = Some (s, True) \<and> size_class s = c"
  shows "lists_ok m nl H L"
  using assms unfolding lists_ok_def by blast

text \<open>The control block lies apart from the pools.\<close>

definition null_ok :: "mem_t \<Rightarrow> nat \<Rightarrow> blocks_t \<Rightarrow> bool" where
  "null_ok m nl H \<longleftrightarrow> 0 < nl \<and> 8 dvd nl \<and> nl + 32 \<le> 2 ^ 64 \<and>
     adr nl \<in> dom m \<and> adr (nl + 8) \<in> dom m \<and> adr (nl + 16) \<in> dom m \<and> adr (nl + 24) \<in> dom m \<and>
     (\<forall>a s f. H a = Some (s, f) \<longrightarrow> nl + 32 \<le> a \<or> a + 16 + s \<le> nl)"

definition nodes :: "nat \<Rightarrow> blocks_t \<Rightarrow> nat set" where
  "nodes nl H = insert nl {b. \<exists>s. H b = Some (s, True)}"

definition link_cells :: "nat set \<Rightarrow> nat set" where
  "link_cells X = (\<Union>x\<in>X. {x + 16, x + 24})"

lemma node_bounds:
  assumes "tiling H" and "null_ok m nl H" and "x \<in> nodes nl H"
  shows "0 < x" "x + 32 \<le> 2 ^ 64"
proof -
  have "0 < x \<and> x + 32 \<le> 2 ^ 64"
  proof (cases "x = nl")
    case False
    then obtain s where "H x = Some (s, True)" using assms(3) by (auto simp: nodes_def)
    from block_okD [OF tiling_block [OF assms(1) this]] show ?thesis by auto
  qed (use assms(2) in \<open>simp add: null_ok_def\<close>)
  then show "0 < x" "x + 32 \<le> 2 ^ 64" by auto
qed

lemma node_apart:
  assumes T: "tiling H" and N: "null_ok m nl H" and x: "x \<in> nodes nl H" and y: "y \<in> nodes nl H" and "x \<noteq> y"
  shows "x + 32 \<le> y \<or> y + 32 \<le> x"
proof -
  have free: "x + 32 \<le> y \<or> y + 32 \<le> x" if h: "H x = Some (s, True)" "y \<in> nodes nl H" "x \<noteq> y" for x y s
  proof -
    note X = block_okD [OF tiling_block [OF T h(1)]]
    show ?thesis
    proof (cases "y = nl")
      case True
      then show ?thesis using N h(1) X(5,6) unfolding null_ok_def by fastforce
    next
      case False
      then obtain t where y: "H y = Some (t, True)" using h(2) by (auto simp: nodes_def)
      from T h(1) y show ?thesis
        by (rule tiling_cases) (use X(5,6) block_okD(5,6) [OF tiling_block [OF T y]] h(3) in auto)
    qed
  qed
  show ?thesis
  proof (cases "x = nl")
    case True
    then obtain t where "H y = Some (t, True)" using y \<open>x \<noteq> y\<close> by (auto simp: nodes_def)
    from free [OF this x] \<open>x \<noteq> y\<close> show ?thesis by auto
  next
    case False
    then obtain s where "H x = Some (s, True)" using x by (auto simp: nodes_def)
    from free [OF this y \<open>x \<noteq> y\<close>] show ?thesis .
  qed
qed

lemma node_ne:
  assumes T: "tiling H" and N: "null_ok m nl H" and x: "x \<in> nodes nl H" and y: "y \<in> nodes nl H"
  shows "adr (x + 16) \<noteq> adr (y + 24)" "x \<noteq> y \<Longrightarrow> adr (x + 16) \<noteq> adr (y + 16)" "x \<noteq> y \<Longrightarrow> adr (x + 24) \<noteq> adr (y + 24)"
    "adr x = adr y \<longleftrightarrow> x = y" "adr x \<noteq> 0"
proof -
  note b = node_bounds [OF T N x] node_bounds [OF T N y] and ap = node_apart [OF T N x y]
  show "adr (x + 16) \<noteq> adr (y + 24)" using b ap by (cases "x = y") (auto simp: adr_eq_iff)
  show "x \<noteq> y \<Longrightarrow> adr (x + 16) \<noteq> adr (y + 16)" "x \<noteq> y \<Longrightarrow> adr (x + 24) \<noteq> adr (y + 24)" "adr x = adr y \<longleftrightarrow> x = y"
    using b ap by (auto simp: adr_eq_iff)
  show "adr x \<noteq> 0" using b adr_eq_iff [of x 0] by (simp add: adr_def)
qed

lemma listed_nodes:
  assumes "lists_ok m nl H L" and "in_range c" and "b \<in> set (L c)"
  shows "b \<in> nodes nl H" "\<exists>s. H b = Some (s, True) \<and> size_class s = c"
  using lists_okD(3) [OF assms] by (auto simp: nodes_def)

lemma listed_disjoint:
  assumes "lists_ok m nl H L" and "in_range c" and "in_range d" and "b \<in> set (L c)" and "b \<in> set (L d)"
  shows "c = d"
  using listed_nodes(2) [OF assms(1,2,4)] listed_nodes(2) [OF assms(1,3,5)] by auto

lemma listed_not_null:
  assumes "lists_ok m nl H L" and "null_ok m nl H" and "tiling H" and "in_range c" and "b \<in> set (L c)"
  shows "b \<noteq> nl"
proof -
  obtain s where s: "H b = Some (s, True)" using listed_nodes(2) [OF assms(1,4,5)] by blast
  with assms(2) show ?thesis unfolding null_ok_def by fastforce
qed

section \<open>Removing a block from a list\<close>

lemma lists_remove:
  assumes T: "tiling H" and N: "null_ok m nl H" and LO: "lists_ok m nl H L" and c: "in_range c"
    and Lc: "L c = ys @ b # zs"
    and m': "m' = m(adr (first nl zs + 24) \<mapsto> adr (final nl ys), adr (final nl ys + 16) \<mapsto> adr (first nl zs))"
  shows "lists_ok m' nl H (L(c := ys @ zs))"
proof -
  let ?p = "final nl ys" and ?q = "first nl zs"
  have d: "dseg m nl ys b" "dseg m b zs nl" "distinct ys" "distinct zs" "b \<notin> set ys" "b \<notin> set zs" "set ys \<inter> set zs = {}"
    using lists_okD(1,2) [OF LO c] Lc by auto
  have nod: "x \<in> nodes nl H" if "x \<in> set ys \<union> set zs" for x
    using listed_nodes(1) [OF LO c, of x] that Lc by auto
  have nl: "x \<noteq> nl" if "x \<in> set ys \<union> set zs" for x
    using listed_not_null [OF LO N T c, of x] that Lc by auto
  have pq: "?p \<in> nodes nl H" "?q \<in> nodes nl H"
    using nod first_in [of nl zs] final_in [of nl ys] by (auto simp: nodes_def)
  note ne = node_ne [OF T N]
  have far: "m' (adr (x + 16)) = m (adr (x + 16))" if "x \<in> nodes nl H" "x \<noteq> ?p" for x
    using ne(1) [OF that(1) pq(2)] ne(2) [OF that(1) pq(1)] that(2) by (simp add: m')
  have far': "m' (adr (x + 24)) = m (adr (x + 24))" if "x \<in> nodes nl H" "x \<noteq> ?q" for x
    using ne(1) [OF pq(1) that(1)] ne(3) [OF that(1) pq(2)] that(2) by (simp add: m' not_sym)
  have P: "m' (adr (?p + 16)) = Some (adr ?q)" by (simp add: m')
  have Q: "m' (adr (?q + 24)) = Some (adr ?p)" using ne(1) [OF pq] by (simp add: m' not_sym)
  have zy: "x \<noteq> ?q" if "x \<in> set ys" for x
    using that d(7) nl first_in [of nl zs] by blast
  have yz: "x \<noteq> ?p" if "x \<in> set zs" for x
    using that d(7) nl final_in [of nl ys] by blast
  have "dseg m' nl ys ?q"
    by (rule dseg_new_end [OF d(1,3)]) (use P far far' nod zy in auto)
  moreover have "dseg m' ?p zs nl"
    by (rule dseg_new_start [OF d(2,4)]) (use Q far far' nod yz in auto)
  ultimately have own: "dseg m' nl (ys @ zs) nl" by simp
  have other: "dseg m' nl (L e) nl" if "in_range e" "e \<noteq> c" for e
  proof (rule dseg_frame)
    show "dseg m nl (L e) nl" using lists_okD(1) [OF LO that(1)] .
    fix x
    assume x: "x \<in> set (L e)"
    have "x \<notin> set (L c)" using listed_disjoint [OF LO c that(1)] x that(2) by blast
    then have "x \<noteq> ?p" "x \<noteq> ?q"
      using Lc first_in [of nl zs] final_in [of nl ys] listed_not_null [OF LO N T that(1) x] by auto
    with far far' listed_nodes(1) [OF LO that(1) x]
    show "m' (adr (x + 16)) = m (adr (x + 16)) \<and> m' (adr (x + 24)) = m (adr (x + 24))" by blast
  qed
  show ?thesis
  proof (rule lists_okI)
    fix e
    assume e: "in_range e"
    show "dseg m' nl ((L(c := ys @ zs)) e) nl" using own other [OF e] by (cases "e = c") simp_all
    show "distinct ((L(c := ys @ zs)) e)" using lists_okD(2) [OF LO e] d by (cases "e = c") simp_all
    show "\<exists>s. H x = Some (s, True) \<and> size_class s = e" if "x \<in> set ((L(c := ys @ zs)) e)" for x
      using lists_okD(3) [OF LO e, of x] that Lc by (cases "e = c") auto
  qed
qed

lemma bit_clear: "bit (w AND NOT (2 ^ j) :: u32) k \<longleftrightarrow> bit w k \<and> k \<noteq> j"
  using bit_imp_le_length [of w k] by (auto simp: bit_and_iff bit_not_iff bit_exp_iff)

lemma bit_set: "j < 32 \<Longrightarrow> bit (w OR 2 ^ j :: u32) k \<longleftrightarrow> bit w k \<or> k = j"
  by (auto simp: bit_or_iff bit_exp_iff)

lemma word32_zero_iff: "(w :: u32) = 0 \<longleftrightarrow> (\<forall>j<32. \<not> bit w j)"
  by (auto simp: bit_eq_iff dest: bit_imp_le_length)

lemma arr_at_int: "arr_at xs (int i) = arr_get xs i"
  by (simp add: arr_at_def)

lemma set_head_ok:
  assumes "ctl_ok ct nl L" and "i < 25" and "j < 32"
  shows "set_head ct (int i) (int j) b = Some (ct\<lparr>blocks := (blocks ct)[i := (blocks ct ! i)[j := b]]\<rparr>)"
  using assms by (simp add: set_head_def ctl_ok_def arr_at_int)

lemma ctl_remove_head:
  assumes C: "ctl_ok ct nl L" and c: "i < 25" "j < 32" and ne: "zs \<noteq> [] \<Longrightarrow> adr (first nl zs) \<noteq> adr nl"
    and L: "L (i, j) = b # zs"
  obtains ct' where "remove_head ct (adr (first nl zs)) (int i) (int j) = Some ct'" "ctl_ok ct' nl (L((i, j) := zs))"
proof -
  let ?rows = "(blocks ct)[i := (blocks ct ! i)[j := adr (first nl zs)]]"
  have rows: "?rows ! k ! l = adr (first nl ((L((i, j) := zs)) (k, l)))" if "k < 25" "l < 32" for k l
    using C c that by (auto simp: ctl_ok_def nth_list_update)
  have len: "block_null ct = adr nl" "length (sl_bitmap ct) = 25" "length ?rows = 25" "\<forall>k<25. length (?rows ! k) = 32"
    using C c by (auto simp: ctl_ok_def nth_list_update)
  show ?thesis
  proof (cases "zs = []")
    case False
    let ?ct = "ct\<lparr>blocks := ?rows\<rparr>"
    have "remove_head ct (adr (first nl zs)) (int i) (int j) = Some ?ct"
      using set_head_ok [OF C c] ne [OF False] len by (simp add: remove_head_def)
    moreover have "ctl_ok ?ct nl (L((i, j) := zs))"
      using C c L rows len False by (auto simp: ctl_ok_def)
    ultimately show ?thesis using that by blast
  next
    case True
    let ?row = "sl_bitmap ct ! i AND NOT (2 ^ j)"
    let ?sl = "(sl_bitmap ct)[i := ?row]" and ?fl = "if ?row = 0 then fl_bitmap ct AND NOT (2 ^ i) else fl_bitmap ct"
    let ?ct = "ct\<lparr>blocks := ?rows, sl_bitmap := ?sl, fl_bitmap := ?fl\<rparr>"
    have "remove_head ct (adr (first nl zs)) (int i) (int j) = Some ?ct"
      using set_head_ok [OF C c] len True c
      by (simp add: remove_head_def set_sl_bitmap_def arr_at_int Let_def)
    moreover have "\<forall>k<25. \<forall>l<32. bit (?sl ! k) l \<longleftrightarrow> (L((i, j) := zs)) (k, l) \<noteq> []"
      using C c True by (auto simp: ctl_ok_def nth_list_update bit_clear)
    moreover have "sl_bitmap ct ! i \<noteq> 0" using C c L by (auto simp: ctl_ok_def word32_zero_iff)
    with C c have "\<forall>k<32. bit ?fl k \<longleftrightarrow> k < 25 \<and> ?sl ! k \<noteq> 0" 
      by (simp add: ctl_ok_def nth_list_update bit_clear)
    ultimately show ?thesis using that [of ?ct] rows len by (simp add: ctl_ok_def)
  qed
qed

section \<open>Inserting a block\<close>

lemma lists_insert:
  assumes T: "tiling H" and N: "null_ok m nl H" and LO: "lists_ok m nl H L" and c: "in_range c"
    and b: "H b = Some (s, True)" "size_class s = c" "b \<notin> set (L c)"
    and m': "m' = m(adr (b + 16) \<mapsto> adr (first nl (L c)), adr (b + 24) \<mapsto> adr nl, adr (first nl (L c) + 24) \<mapsto> adr b)"
  shows "lists_ok m' nl H (L(c := b # L c))"
proof -
  let ?q = "first nl (L c)"
  note ne = node_ne [OF T N]
  have bn: "b \<in> nodes nl H" "b \<noteq> nl" using b(1) N unfolding nodes_def null_ok_def by fastforce+
  have qn: "?q \<in> nodes nl H" "?q \<noteq> b"
    using first_in [of nl "L c"] listed_nodes(1) [OF LO c] bn b(3) by (auto simp: nodes_def)
  have far: "m' (adr (x + 16)) = m (adr (x + 16))" if "x \<in> nodes nl H" "x \<noteq> b" for x
    using ne(1) [OF that(1) bn(1)] ne(1) [OF that(1) qn(1)] ne(2) [OF that(1) bn(1) that(2)] by (simp add: m')
  have far': "m' (adr (x + 24)) = m (adr (x + 24))" if "x \<in> nodes nl H" "x \<noteq> b" "x \<noteq> ?q" for x
    using ne(1) [OF bn(1) that(1)] ne(3) [OF that(1) bn(1) that(2)] ne(3) [OF that(1) qn(1) that(3)] by (simp add: m' not_sym)
  have B: "m' (adr (b + 16)) = Some (adr ?q)" "m' (adr (b + 24)) = Some (adr nl)" "m' (adr (?q + 24)) = Some (adr b)"
    using ne(1) [OF bn(1) bn(1)] ne(1) [OF bn(1) qn(1)] ne(3) [OF bn(1) qn(1)] qn(2) by (simp_all add: m' not_sym)
  note d = lists_okD(1,2) [OF LO c] and nod = listed_nodes(1) [OF LO c]
  have "dseg m' b (L c) nl"
  proof (rule dseg_new_start [OF d])
    show "m' (adr (first nl (L c) + 24)) = Some (adr b)" using B by simp
    fix x
    assume x: "x \<in> set (L c)"
    then have "x \<noteq> b" using b(3) by auto
    with far far' nod [OF x] show "m' (adr (x + 16)) = m (adr (x + 16))"
      and "x \<noteq> first nl (L c) \<Longrightarrow> m' (adr (x + 24)) = m (adr (x + 24))" by blast+
  qed
  with B have own: "dseg m' nl (b # L c) nl" by simp
  have nb: "b \<notin> set (L e)" if "in_range e" "e \<noteq> c" for e
    using listed_nodes(2) [OF LO that(1), of b] b(1,2) that(2) by auto
  have other: "dseg m' nl (L e) nl" if e: "in_range e" "e \<noteq> c" for e
  proof (rule dseg_frame)
    show "dseg m nl (L e) nl" using lists_okD(1) [OF LO e(1)] .
    fix x
    assume x: "x \<in> set (L e)"
    have "x \<notin> set (L c)" using listed_disjoint [OF LO c e(1)] x e(2) by blast
    then have "x \<noteq> ?q" "x \<noteq> b"
      using first_in [of nl "L c"] listed_not_null [OF LO N T e(1) x] nb [OF e] x by auto
    with far far' listed_nodes(1) [OF LO e(1) x]
    show "m' (adr (x + 16)) = m (adr (x + 16)) \<and> m' (adr (x + 24)) = m (adr (x + 24))" by blast
  qed
  show ?thesis
  proof (rule lists_okI)
    fix e
    assume e: "in_range e"
    show "dseg m' nl ((L(c := b # L c)) e) nl" using own other [OF e] by (cases "e = c") simp_all
    show "distinct ((L(c := b # L c)) e)" using lists_okD(2) [OF LO e] b(3) by (cases "e = c") simp_all
    show "\<exists>s. H x = Some (s, True) \<and> size_class s = e" if "x \<in> set ((L(c := b # L c)) e)" for x
      using lists_okD(3) [OF LO e, of x] that b by (cases "e = c") auto
  qed
qed

lemma ctl_insert:
  assumes C: "ctl_ok ct nl L" and c: "i < 25" "j < 32"
  shows "ctl_ok (ct\<lparr>blocks := (blocks ct)[i := (blocks ct ! i)[j := adr b]], fl_bitmap := fl_bitmap ct OR 2 ^ i,
    sl_bitmap := (sl_bitmap ct)[i := sl_bitmap ct ! i OR 2 ^ j]\<rparr>) nl (L((i, j) := b # L (i, j)))"
proof -
  let ?rows = "(blocks ct)[i := (blocks ct ! i)[j := adr b]]"
  let ?sl = "(sl_bitmap ct)[i := sl_bitmap ct ! i OR 2 ^ j]" and ?fl = "fl_bitmap ct OR 2 ^ i"
  have "?rows ! k ! l = adr (first nl ((L((i, j) := b # L (i, j))) (k, l)))" if "k < 25" "l < 32" for k l
    using C c that by (auto simp: ctl_ok_def nth_list_update)
  moreover have "block_null ct = adr nl" "length ?sl = 25" "length ?rows = 25" "\<forall>k<25. length (?rows ! k) = 32"
    using C c by (auto simp: ctl_ok_def nth_list_update)
  moreover have sl: "\<forall>k<25. \<forall>l<32. bit (?sl ! k) l \<longleftrightarrow> (L((i, j) := b # L (i, j))) (k, l) \<noteq> []"
    using C c by (auto simp: ctl_ok_def nth_list_update bit_set)
  moreover have "?sl ! i \<noteq> 0" using sl c by (auto simp: word32_zero_iff)
  with C c have "\<forall>k<32. bit ?fl k \<longleftrightarrow> k < 25 \<and> ?sl ! k \<noteq> 0"
    by (auto simp: ctl_ok_def nth_list_update bit_set)
  ultimately show ?thesis by (simp add: ctl_ok_def)
qed

section \<open>The operations\<close>

definition arena :: "tlsf_t \<Rightarrow> nat \<Rightarrow> blocks_t \<Rightarrow> lists_t \<Rightarrow> bool" where
  "arena t nl H L \<longleftrightarrow> layout (cells t) H \<and> ctl_ok (ctl t) nl L \<and> lists_ok (cells t) nl H L \<and> null_ok (cells t) nl H"

lemma arenaD:
  assumes "arena t nl H L"
  shows "layout (cells t) H" "ctl_ok (ctl t) nl L" "lists_ok (cells t) nl H L" "null_ok (cells t) nl H" "tiling H"
  using assms layout_tiling unfolding arena_def by blast+

lemma link_not_header:
  assumes T: "tiling H" and N: "null_ok m nl H" and b: "H b = Some (t, h)"
  shows "b + 8 \<notin> link_cells (nodes nl H)" and "h \<Longrightarrow> b + 8 + t \<notin> link_cells (nodes nl H)"
proof -
  note B = block_okD [OF tiling_block [OF T b]]
  have "b + 8 \<noteq> x + 16 \<and> b + 8 \<noteq> x + 24 \<and> (h \<longrightarrow> b + 8 + t \<noteq> x + 16 \<and> b + 8 + t \<noteq> x + 24)" if x: "x \<in> nodes nl H" for x
  proof (cases "x = nl")
    case True
    have "nl + 32 \<le> b \<or> b + 16 + t \<le> nl" using N b unfolding null_ok_def by blast
    with True show ?thesis by auto
  next
    case False
    then obtain s where s: "H x = Some (s, True)" using x by (auto simp: nodes_def)
    note X = block_okD(5,6) [OF tiling_block [OF T s]]
    from T b s show ?thesis by (rule tiling_cases) (use X B(5,6) in auto)
  qed
  then show "b + 8 \<notin> link_cells (nodes nl H)" and "h \<Longrightarrow> b + 8 + t \<notin> link_cells (nodes nl H)"
    unfolding link_cells_def by blast+
qed

lemma layout_links:
  assumes L: "layout m H" and N: "null_ok m nl H" and ag: "agree m m' (link_cells (nodes nl H))"
  shows "layout m' H"
proof (rule layoutI)
  note T = layout_tiling [OF L]
  show "tiling H" by (rule T)
  fix b t h
  assume b: "H b = Some (t, h)"
  note lb = layout_block [OF L b]
  show "described m' b t h (pf H b) \<and> mapped (dom m') b t"
    using lb block_okD(4) [OF lb(4)] agreeD [OF ag] agree_dom [OF ag] link_not_header [OF T N b]
    by (simp add: described_def)
qed

lemma null_ok_dom: "null_ok m nl H \<Longrightarrow> dom m' = dom m \<Longrightarrow> null_ok m' nl H"
  by (simp add: null_ok_def)

lemma node_cells_mapped:
  assumes L: "layout m H" and N: "null_ok m nl H" and x: "x \<in> nodes nl H"
  shows "adr (x + 16) \<in> dom m" "adr (x + 24) \<in> dom m"
proof -
  have "adr (x + 16) \<in> dom m \<and> adr (x + 24) \<in> dom m"
  proof (cases "x = nl")
    case False
    then obtain s where s: "H x = Some (s, True)" using x by (auto simp: nodes_def)
    note lb = layout_block [OF L s]
    show ?thesis using lb(3) block_okD [OF lb(4)] by (auto simp: mapped_def)
  qed (use N in \<open>simp add: null_ok_def\<close>)
  then show "adr (x + 16) \<in> dom m" "adr (x + 24) \<in> dom m" by auto
qed

lemma agree_update:
  assumes "agree m m' X" and "x \<in> X" and "adr x \<in> dom m" and "\<And>y. y \<in> X \<Longrightarrow> y < 2 ^ 64"
  shows "agree m (m'(adr x \<mapsto> v)) X"
  using assms unfolding agree_def by (auto simp: adr_eq_iff)

lemma link_bound:
  assumes "tiling H" and "null_ok m nl H" and "y \<in> link_cells (nodes nl H)"
  shows "y < 2 ^ 64"
  using assms(3) node_bounds(2) [OF assms(1,2)] by (fastforce simp: link_cells_def)

lemma remove_free_block_ok:
  assumes A: "arena t nl H L" and c: "in_range (i, j)" and L: "L (i, j) = ys @ b # zs"
  obtains t' where "remove_free_block t (adr b) (int i) (int j) = Some t'" "arena t' nl H (L((i, j) := ys @ zs))"
    "agree (cells t) (cells t') (link_cells (nodes nl H))"
proof -
  let ?c = "(i, j)" and ?m = "cells t" and ?p = "final nl ys" and ?q = "first nl zs"
  let ?m' = "?m(adr (?q + 24) \<mapsto> adr ?p, adr (?p + 16) \<mapsto> adr ?q)"
  note D = arenaD [OF A] and ne = node_ne [OF arenaD(5,4) [OF A]]
  have c': "i < 25" "j < 32" using c by (auto simp: in_range_def counts)
  have nod: "x \<in> nodes nl H" if "x \<in> set (L ?c)" for x using listed_nodes(1) [OF D(3) c that] .
  have pq: "?p \<in> nodes nl H" "?q \<in> nodes nl H" "b \<in> nodes nl H"
    using nod first_in [of nl zs] final_in [of nl ys] L by (auto simp: nodes_def)
  have "dseg ?m nl (ys @ b # zs) nl" using lists_okD(1) [OF D(3) c] L by simp
  then have rd: "?m (adr (b + 24)) = Some (adr ?p)" "?m (adr (b + 16)) = Some (adr ?q)" by simp_all
  note cm = node_cells_mapped [OF D(1,4)]
  have head: "blocks (ctl t) ! i ! j = adr (first nl (L ?c))" and len: "length (blocks (ctl t)) = 25" "length (blocks (ctl t) ! i) = 32"
    using D(2) c' by (auto simp: ctl_ok_def)
  have hd: "first nl (L ?c) = b \<longleftrightarrow> ys = []"
    using lists_okD(2) [OF D(3) c] L by (cases ys) auto
  have fn: "first nl (L ?c) \<in> nodes nl H" using first_in [of nl "L ?c"] nod by (auto simp: nodes_def)
  have "adr ?q \<noteq> adr nl" if "zs \<noteq> []"
  proof -
    have "?q \<in> set (L ?c)" using that L by (cases zs) auto
    then have "?q \<noteq> nl" using listed_not_null [OF D(3,4,5) c] by blast
    with ne(4) [OF pq(2), of nl] show ?thesis by (simp add: nodes_def)
  qed
  moreover have "ctl_ok (ctl t) nl (L(?c := ys @ zs))" if "ys \<noteq> []"
    using D(2) L that by (cases ys) (auto simp: ctl_ok_def)
  ultimately obtain ct' where ct': "(if ys = [] then remove_head (ctl t) (adr ?q) (int i) (int j) else Some (ctl t)) = Some ct'"
    "ctl_ok ct' nl (L(?c := ys @ zs))"
    using ctl_remove_head [OF D(2) c', of zs b] L by (cases "ys = []") auto
  have run: "remove_free_block t (adr b) (int i) (int j) = Some \<lparr>ctl = ct', cells = ?m'\<rparr>"
    using rd ne(5) [OF pq(1) pq(1)] ne(5) [OF pq(2) pq(2)] cm [OF pq(1)] cm [OF pq(2)] ct'(1) head len c' hd ne(4) [OF fn pq(3)]
    by (simp add: remove_free_block_def rd64_def tlsf_assert_def wr64_mapped arr_at_int)
  have ag: "agree ?m ?m' (link_cells (nodes nl H))"
    using cm [OF pq(1)] cm [OF pq(2)] pq link_bound [OF D(5,4)]
    by (intro agree_update) (auto simp: link_cells_def)
  have "lists_ok ?m' nl H (L(?c := ys @ zs))" by (rule lists_remove [OF D(5,4,3) c L refl])
  with ct'(2) layout_links [OF D(1,4) ag] null_ok_dom [OF D(4) agree_dom [OF ag]]
  have "arena \<lparr>ctl = ct', cells = ?m'\<rparr> nl H (L(?c := ys @ zs))" by (simp add: arena_def)
  with run ag that show ?thesis by simp
qed

lemma insert_free_block_ok:
  assumes A: "arena t nl H L" and c: "in_range (i, j)" and b: "H b = Some (s, True)" "size_class s = (i, j)" "b \<notin> set (L (i, j))"
  obtains t' where "insert_free_block t (adr b) (int i) (int j) = Some t'" "arena t' nl H (L((i, j) := b # L (i, j)))"
    "agree (cells t) (cells t') (link_cells (nodes nl H))"
proof -
  let ?c = "(i, j)" and ?m = "cells t" and ?q = "first nl (L (i, j))"
  let ?m' = "?m(adr (b + 16) \<mapsto> adr ?q, adr (b + 24) \<mapsto> adr nl, adr (?q + 24) \<mapsto> adr b)"
  note D = arenaD [OF A] and ne = node_ne [OF arenaD(5,4) [OF A]]
  have c': "i < 25" "j < 32" using c by (auto simp: in_range_def counts)
  have bq: "b \<in> nodes nl H" "?q \<in> nodes nl H"
    using b(1) first_in [of nl "L ?c"] listed_nodes(1) [OF D(3) c] by (auto simp: nodes_def)
  note cm = node_cells_mapped [OF D(1,4) bq(1)] node_cells_mapped [OF D(1,4) bq(2)]
  have ct: "blocks (ctl t) ! i ! j = adr ?q" "length (blocks (ctl t)) = 25" "length (blocks (ctl t) ! i) = 32"
    "length (sl_bitmap (ctl t)) = 25" "block_null (ctl t) = adr nl"
    using D(2) c' by (auto simp: ctl_ok_def)
  have al: "align_ptr (adr (b + 16)) ALIGN_SIZE = Some (adr (b + 16))"
    using align_ptr_round [of 3 "b + 16"] block_okD(1) [OF layout_block(4) [OF D(1) b(1)]] by (simp add: ALIGN_SIZE_adr)
  let ?ct = "(ctl t)\<lparr>blocks := (blocks (ctl t))[i := (blocks (ctl t) ! i)[j := adr b]], fl_bitmap := fl_bitmap (ctl t) OR 2 ^ i,
    sl_bitmap := (sl_bitmap (ctl t))[i := sl_bitmap (ctl t) ! i OR 2 ^ j]\<rparr>"
  have run: "insert_free_block t (adr b) (int i) (int j) = Some \<lparr>ctl = ?ct, cells = ?m'\<rparr>"
    using ct c' cm ne(5) [OF bq(1) bq(1)] ne(5) [OF bq(2) bq(2)] al set_head_ok [OF D(2) c']
    by (simp add: insert_free_block_def arr_at_int tlsf_assert_def wr64_mapped set_sl_bitmap_def Let_def)
  have ag: "agree ?m ?m' (link_cells (nodes nl H))"
    using cm bq link_bound [OF D(5,4)]
    by (intro agree_update) (auto simp: link_cells_def)
  have "lists_ok ?m' nl H (L(?c := b # L ?c))" by (rule lists_insert [OF D(5,4,3) c b refl])
  with ctl_insert [OF D(2) c'] layout_links [OF D(1,4) ag] null_ok_dom [OF D(4) agree_dom [OF ag]]
  have "arena \<lparr>ctl = ?ct, cells = ?m'\<rparr> nl H (L(?c := b # L ?c))" by (simp add: arena_def)
  with run ag that show ?thesis by simp
qed

end
