(* ===== verification/Tlsf_Alloc.thy ===== *)
theory Tlsf_Alloc
  imports Tlsf_Lists
begin

text \<open>
  The operations of \<^verbatim>\<open>tlsf.c\<close> on well-formed arenas: marking, merging and trimming as changes of the
  tiling and of the free lists, with the data in used blocks untouched.
\<close>

section \<open>States between the steps of an operation\<close>

text \<open>
  \<open>pool t nl H L X\<close>: the arena is in order, and exactly the free blocks outside \<open>X\<close> are in the lists.
  \<open>coalesced H X\<close>: no two free blocks are neighbours, except at blocks of \<open>X\<close>.
\<close>

definition listing :: "blocks_t \<Rightarrow> lists_t \<Rightarrow> nat set \<Rightarrow> bool" where
  "listing H L X \<longleftrightarrow> (\<forall>b s. H b = Some (s, True) \<longrightarrow> (b \<in> set (L (size_class s)) \<longleftrightarrow> b \<notin> X))"

definition pool :: "tlsf_t \<Rightarrow> nat \<Rightarrow> blocks_t \<Rightarrow> lists_t \<Rightarrow> nat set \<Rightarrow> bool" where
  "pool t nl H L X \<longleftrightarrow> arena t nl H L \<and> listing H L X"

definition coalesced :: "blocks_t \<Rightarrow> nat set \<Rightarrow> bool" where
  "coalesced H X \<longleftrightarrow> (\<forall>a s t. H a = Some (s, True) \<longrightarrow> H (a + 8 + s) = Some (t, True) \<longrightarrow> a \<in> X \<or> a + 8 + s \<in> X)"

definition same_data :: "blocks_t \<Rightarrow> mem_t \<Rightarrow> mem_t \<Rightarrow> bool" where
  "same_data H m m' \<longleftrightarrow> (\<forall>b u x. H b = Some (u, False) \<longrightarrow> b + 16 \<le> x \<longrightarrow> x < b + 16 + u \<longrightarrow> m' (adr x) = m (adr x))"

lemma same_data_refl [simp]: "same_data H m m"
  by (simp add: same_data_def)

lemma same_data_trans: "same_data H m m1 \<Longrightarrow> same_data H m1 m2 \<Longrightarrow> same_data H m m2"
  by (simp add: same_data_def)

lemma same_data_sub:
  "same_data H m m' \<Longrightarrow> (\<And>b u. H' b = Some (u, False) \<Longrightarrow> H b = Some (u, False)) \<Longrightarrow> same_data H' m m'"
  unfolding same_data_def by blast

lemma poolD:
  assumes "pool t nl H L X"
  shows "arena t nl H L" "listing H L X" "layout (cells t) H" "lists_ok (cells t) nl H L" "null_ok (cells t) nl H" "tiling H"
  using assms arenaD unfolding pool_def by blast+

lemma free_listed:
  assumes "pool t nl H L X" and "in_range c" and "b \<in> set (L c)"
  shows "\<exists>s. H b = Some (s, True) \<and> size_class s = c" "b \<notin> X"
proof -
  note P = poolD [OF assms(1)]
  from listed_nodes(2) [OF P(4) assms(2,3)] obtain s where s: "H b = Some (s, True)" "size_class s = c" by blast
  then show "\<exists>s. H b = Some (s, True) \<and> size_class s = c" by blast
  from P(2) s assms(3) show "b \<notin> X" unfolding listing_def by blast
qed

lemma free_class:
  assumes "tiling H" and "H b = Some (s, True)"
  shows "in_range (size_class s)" "s < 2 ^ 32" "24 \<le> s"
  using block_okD [OF tiling_block [OF assms]] in_range_class [of s] by auto

text \<open>Header changes between \<open>a\<close> and the header at \<open>k\<close>.\<close>

lemma pool_step:
  assumes P: "pool t nl H L X" and L': "layout m' H'" and ag: "agree (cells t) m' Y" and Y: "Y \<subseteq> {a + 8..k + 8}"
    and out: "\<And>b u h. H b = Some (u, h) \<Longrightarrow> b \<notin> Z \<Longrightarrow> H' b = H b \<and> (b + 8 + u \<le> a \<or> k \<le> b)"
    and Z: "\<And>b u. b \<in> Z \<Longrightarrow> H b = Some (u, True) \<Longrightarrow> b \<in> X"
    and nul: "null_ok m' nl H'" and lst: "listing H' L X'"
  shows "pool (t\<lparr>cells := m'\<rparr>) nl H' L X'"
proof -
  note D = poolD [OF P]
  have listed: "H' b = H b \<and> (b + 8 + s \<le> a \<or> k \<le> b) \<and> H b = Some (s, True)"
    if c: "in_range c" "b \<in> set (L c)" "H b = Some (s, True)" for b c s
    using out [OF c(3)] Z [of b s] c(3) free_listed(2) [OF P c(1,2)] by blast
  have "lists_ok m' nl H' L"
  proof (rule lists_okI)
    fix c
    assume c: "in_range c"
    show "dseg m' nl (L c) nl"
    proof (rule dseg_frame)
      show "dseg (cells t) nl (L c) nl" using lists_okD(1) [OF D(4) c] .
      fix x
      assume x: "x \<in> set (L c)"
      then obtain s where s: "H x = Some (s, True)" using free_listed(1) [OF P c] by blast
      note B = block_okD [OF layout_block(4) [OF D(3) s]]
      have "x + 16 \<notin> Y" "x + 24 \<notin> Y" using listed [OF c x s] Y B(5,6) by auto
      with agreeD [OF ag] B(4,5,6)
      show "m' (adr (x + 16)) = cells t (adr (x + 16)) \<and> m' (adr (x + 24)) = cells t (adr (x + 24))" by simp
    qed
    show "distinct (L c)" using lists_okD(2) [OF D(4) c] .
    show "\<exists>s. H' b = Some (s, True) \<and> size_class s = c" if "b \<in> set (L c)" for b
      using free_listed(1) [OF P c that] listed [OF c that] by metis
  qed
  with arenaD(2) [OF D(1)] L' nul lst show ?thesis by (simp add: pool_def arena_def)
qed

lemma same_data_step:
  assumes T: "tiling H" and ag: "agree m m' Y" and Y: "Y \<subseteq> {a + 8..k + 8}"
    and out: "\<And>b u. H b = Some (u, False) \<Longrightarrow> u \<noteq> 0 \<Longrightarrow> b + 8 + u \<le> a \<or> k \<le> b"
  shows "same_data H m m'"
  unfolding same_data_def
proof (intro allI impI)
  fix b u x
  assume b: "H b = Some (u, False)" "b + 16 \<le> x" "x < b + 16 + u"
  note B = block_okD [OF tiling_block [OF T b(1)]]
  have "x \<notin> Y" using out [OF b(1)] b(2,3) Y by auto
  with agreeD [OF ag] B(4) b(3) show "m' (adr x) = m (adr x)" by simp
qed

lemma same_data_links:
  assumes T: "tiling H" and N: "null_ok m nl H" and ag: "agree m m' (link_cells (nodes nl H))"
  shows "same_data H m m'"
  unfolding same_data_def
proof (intro allI impI)
  fix b u x
  assume b: "H b = Some (u, False)" "b + 16 \<le> x" "x < b + 16 + u"
  note B = block_okD [OF tiling_block [OF T b(1)]]
  have "x \<noteq> y + 16 \<and> x \<noteq> y + 24" if y: "y \<in> nodes nl H" for y
  proof (cases "y = nl")
    case True
    have "nl + 32 \<le> b \<or> b + 16 + u \<le> nl" using N b(1) unfolding null_ok_def by blast
    with True b(2,3) show ?thesis by auto
  next
    case False
    then obtain s where s: "H y = Some (s, True)" using y by (auto simp: nodes_def)
    note S = block_okD(5,6) [OF tiling_block [OF T s]]
    from T b(1) s show ?thesis by (rule tiling_cases) (use b(2,3) S in auto)
  qed
  then have "x \<notin> link_cells (nodes nl H)" unfolding link_cells_def by blast
  with agreeD [OF ag] B(4) b(3) show "m' (adr x) = m (adr x)" by simp
qed

section \<open>Lists\<close>

lemma block_insert_ok:
  assumes P: "pool t nl H L X" and b: "H b = Some (s, True)" "b \<in> X"
  obtains t' L' where "block_insert t (adr b) = Some t'" "pool t' nl H L' (X - {b})" "same_data H (cells t) (cells t')"
    "\<forall>c. c \<noteq> size_class s \<longrightarrow> L' c = L c"
proof -
  note D = poolD [OF P]
  note c = free_class [OF D(6) b(1)]
  obtain i j where ij: "size_class s = (i, j)" by fastforce
  have nb: "b \<notin> set (L (i, j))" using D(2) b ij unfolding listing_def by metis
  obtain t' where t': "insert_free_block t (adr b) (int i) (int j) = Some t'" "arena t' nl H (L((i, j) := b # L (i, j)))"
    "agree (cells t) (cells t') (link_cells (nodes nl H))"
    using insert_free_block_ok [OF D(1) _ b(1) ij nb] c(1) ij by metis
  have "mapping_insert (adr s) = (int i, int j)"
    using mapping_insert_class [of s] c(2) ij by (simp add: adr_def)
  with t'(1) have run: "block_insert t (adr b) = Some t'"
    using header_exec(1) [OF layout_header [OF D(3) b(1)]] by (simp add: block_insert_def)
  have "listing H (L((i, j) := b # L (i, j))) (X - {b})"
    unfolding listing_def
  proof (intro allI impI)
    fix d u
    assume d: "H d = Some (u, True)"
    with D(2) have "d \<in> set (L (size_class u)) \<longleftrightarrow> d \<notin> X" unfolding listing_def by blast
    with b(1) d ij show "d \<in> set ((L((i, j) := b # L (i, j))) (size_class u)) \<longleftrightarrow> d \<notin> X - {b}"
      by (cases "d = b"; cases "size_class u = (i, j)") simp_all
  qed
  with t'(2) have "pool t' nl H (L((i, j) := b # L (i, j))) (X - {b})" by (simp add: pool_def)
  with that run same_data_links [OF D(6,5) t'(3)] ij show ?thesis by (metis fun_upd_other)
qed

lemma remove_listed_ok:
  assumes P: "pool t nl H L X" and b: "H b = Some (s, True)" "b \<notin> X" and ij: "size_class s = (i, j)"
  obtains t' L' where "remove_free_block t (adr b) (int i) (int j) = Some t'" "pool t' nl H L' (insert b X)"
    "same_data H (cells t) (cells t')"
proof -
  note D = poolD [OF P]
  note c = free_class [OF D(6) b(1)]
  have "b \<in> set (L (i, j))" using D(2) b ij unfolding listing_def by metis
  then obtain ys zs where L: "L (i, j) = ys @ b # zs" by (auto simp: in_set_conv_decomp)
  obtain t' where t': "remove_free_block t (adr b) (int i) (int j) = Some t'" "arena t' nl H (L((i, j) := ys @ zs))"
    "agree (cells t) (cells t') (link_cells (nodes nl H))"
    using remove_free_block_ok [OF D(1) _ L] c(1) ij by metis
  have "distinct (L (i, j))" using lists_okD(2) [OF D(4)] c(1) ij by metis
  then have "listing H (L((i, j) := ys @ zs)) (insert b X)"
    unfolding listing_def
  proof (intro allI impI)
    fix d u
    assume d: "H d = Some (u, True)"
    with D(2) have "d \<in> set (L (size_class u)) \<longleftrightarrow> d \<notin> X" unfolding listing_def by blast
    with b(1) d ij L \<open>distinct (L (i, j))\<close> show "d \<in> set ((L((i, j) := ys @ zs)) (size_class u)) \<longleftrightarrow> d \<notin> insert b X"
      by (cases "d = b"; cases "size_class u = (i, j)") simp_all
  qed
  with t'(2) have "pool t' nl H (L((i, j) := ys @ zs)) (insert b X)" by (simp add: pool_def)
  with that t'(1) same_data_links [OF D(6,5) t'(3)] show ?thesis by blast
qed

lemma block_remove_ok:
  assumes P: "pool t nl H L X" and b: "H b = Some (s, True)" "b \<notin> X"
  obtains t' L' where "block_remove t (adr b) = Some t'" "pool t' nl H L' (insert b X)" "same_data H (cells t) (cells t')"
proof -
  note D = poolD [OF P]
  obtain i j where ij: "size_class s = (i, j)" by fastforce
  have "mapping_insert (adr s) = (int i, int j)"
    using mapping_insert_class [of s] free_class(2) [OF D(6) b(1)] ij by (simp add: adr_def)
  then have "block_remove t (adr b) = remove_free_block t (adr b) (int i) (int j)"
    using header_exec(1) [OF layout_header [OF D(3) b(1)]] by (simp add: block_remove_def)
  with remove_listed_ok [OF P b ij] that show ?thesis by metis
qed

section \<open>Marking and merging\<close>

lemma null_ok_update:
  assumes "null_ok m nl H" and "dom m' = dom m"
    and "\<And>b u h. H' b = Some (u, h) \<Longrightarrow> nl + 32 \<le> b \<or> b + 16 + u \<le> nl"
  shows "null_ok m' nl H'"
  using assms unfolding null_ok_def by auto

lemma null_apart: "null_ok m nl H \<Longrightarrow> H a = Some (s, f) \<Longrightarrow> nl + 32 \<le> a \<or> a + 16 + s \<le> nl"
  unfolding null_ok_def by blast

lemma outside:
  assumes "tiling H" and "H a = Some (s, f)" and "H b = Some (u, h)" and "b \<noteq> a"
  shows "b + 8 + u \<le> a \<or> a + 8 + s \<le> b"
  using assms(1-3) by (rule tiling_cases) (use assms(4) in auto)

lemma mark_free_ok:
  assumes P: "pool t nl H L {}" and a: "H a = Some (s, False)" "s \<noteq> 0"
  obtains m' where "block_mark_as_free (cells t) (adr a) = Some m'" "pool (t\<lparr>cells := m'\<rparr>) nl (H(a \<mapsto> (s, True))) L {a}"
    "same_data (H(a := None)) (cells t) m'"
proof -
  note D = poolD [OF P]
  obtain m' where m': "block_mark_as_free (cells t) (adr a) = Some m'" "layout m' (H(a \<mapsto> (s, True)))"
    "agree (cells t) m' {a + 8, a + 8 + s, a + 16 + s}"
    by (rule block_mark_as_free_layout [OF D(3) a])
  have out: "b + 8 + u \<le> a \<or> a + 8 + s \<le> b" if "H b = Some (u, h)" "b \<noteq> a" for b u h
    using outside [OF D(6) a(1) that] .
  have Y: "{a + 8, a + 8 + s, a + 16 + s} \<subseteq> {a + 8..a + 8 + s + 8}" by auto
  have "pool (t\<lparr>cells := m'\<rparr>) nl (H(a \<mapsto> (s, True))) L {a}"
  proof (rule pool_step [OF P m'(2,3) Y, where Z = "{a}"])
    show "(H(a \<mapsto> (s, True))) b = H b \<and> (b + 8 + u \<le> a \<or> a + 8 + s \<le> b)" if "H b = Some (u, h)" "b \<notin> {a}" for b u h
      using out [OF that(1)] that(2) by simp
    show "null_ok m' nl (H(a \<mapsto> (s, True)))"
      by (rule null_ok_update [OF D(5) agree_dom [OF m'(3)]])
        (use null_apart [OF D(5)] a in \<open>auto split: if_splits\<close>)
    have "a \<notin> set (L (size_class s))"
    proof
      assume "a \<in> set (L (size_class s))"
      with free_listed(1) [OF P in_range_class] a block_okD(7) [OF tiling_block [OF D(6) a(1)]] show False by fastforce
    qed
    with D(2) a show "listing (H(a \<mapsto> (s, True))) L {a}" unfolding listing_def by auto
  qed (use a in auto)
  moreover have "same_data (H(a := None)) (cells t) m'"
    unfolding same_data_def
  proof (intro allI impI)
    fix b u x
    assume b: "(H(a := None)) b = Some (u, False)" "b + 16 \<le> x" "x < b + 16 + u"
    then have b': "H b = Some (u, False)" "b \<noteq> a" by (auto split: if_splits)
    have "x \<notin> {a + 8, a + 8 + s, a + 16 + s}" using out [OF b'] b(2,3) by auto
    with agreeD [OF m'(3)] block_okD(4) [OF tiling_block [OF D(6) b'(1)]] b(3) show "m' (adr x) = cells t (adr x)" by simp
  qed
  ultimately show ?thesis using that m'(1) by blast
qed

lemma mark_used_ok:
  assumes P: "pool t nl H L {a}" and a: "H a = Some (s, True)"
  obtains m' where "block_mark_as_used (cells t) (adr a) = Some m'" "pool (t\<lparr>cells := m'\<rparr>) nl (H(a \<mapsto> (s, False))) L {}"
    "same_data (H(a \<mapsto> (s, False))) (cells t) m'"
proof -
  note D = poolD [OF P] and A = free_class [OF poolD(6) [OF P] a]
  obtain m' where m': "block_mark_as_used (cells t) (adr a) = Some m'" "layout m' (H(a \<mapsto> (s, False)))"
    "agree (cells t) m' {a + 8, a + 8 + s, a + 16 + s}" "m' (adr (a + 8 + s)) = cells t (adr (a + 8 + s))"
    by (rule block_mark_as_used_layout [OF D(3) a])
  have out: "b + 8 + u \<le> a \<or> a + 8 + s \<le> b" if "H b = Some (u, h)" "b \<noteq> a" for b u h
    using outside [OF D(6) a(1) that] .
  have Y: "{a + 8, a + 8 + s, a + 16 + s} \<subseteq> {a + 8..a + 8 + s + 8}" by auto
  have "pool (t\<lparr>cells := m'\<rparr>) nl (H(a \<mapsto> (s, False))) L {}"
  proof (rule pool_step [OF P m'(2,3) Y, where Z = "{a}"])
    show "(H(a \<mapsto> (s, False))) b = H b \<and> (b + 8 + u \<le> a \<or> a + 8 + s \<le> b)" if "H b = Some (u, h)" "b \<notin> {a}" for b u h
      using out [OF that(1)] that(2) by simp
    show "null_ok m' nl (H(a \<mapsto> (s, False)))"
      by (rule null_ok_update [OF D(5) agree_dom [OF m'(3)]])
        (use null_apart [OF D(5)] a in \<open>auto split: if_splits\<close>)
    show "listing (H(a \<mapsto> (s, False))) L {}" using D(2) by (auto simp: listing_def)
  qed auto
  moreover have "same_data (H(a \<mapsto> (s, False))) (cells t) m'"
    unfolding same_data_def
  proof (intro allI impI)
    fix b u x
    assume b: "(H(a \<mapsto> (s, False))) b = Some (u, False)" "b + 16 \<le> x" "x < b + 16 + u"
    show "m' (adr x) = cells t (adr x)"
    proof (cases "b = a")
      case True
      with b have "x \<notin> {a + 8, a + 16 + s}" and "x < 2 ^ 64"
        using block_okD(4) [OF tiling_block [OF D(6) a]] by auto
      with agreeD [OF m'(3)] m'(4) show ?thesis by (cases "x = a + 8 + s") auto
    next
      case False
      with b(1) have b': "H b = Some (u, False)" by simp
      have "x \<notin> {a + 8, a + 8 + s, a + 16 + s}" using out [OF b' False] b(2,3) by auto
      with agreeD [OF m'(3)] block_okD(4) [OF tiling_block [OF D(6) b']] b(3) show ?thesis by simp
    qed
  qed
  ultimately show ?thesis using that m'(1) by blast
qed

text \<open>Absorbing the free block behind a free block, both out of the lists.\<close>

lemma absorb_ok:
  assumes P: "pool t nl H L X" and a: "H a = Some (s, True)" "a \<in> X" and n: "H (a + 8 + s) = Some (v, True)" "a + 8 + s \<in> X"
  obtains m' where "block_absorb (cells t) (adr a) (adr (a + 8 + s)) = Some m'"
    "pool (t\<lparr>cells := m'\<rparr>) nl (H(a + 8 + s := None, a \<mapsto> (s + 8 + v, True))) L (X - {a + 8 + s})"
    "same_data (H(a + 8 + s := None, a \<mapsto> (s + 8 + v, True))) (cells t) m'"
proof -
  let ?n = "a + 8 + s" and ?H = "H(a + 8 + s := None, a \<mapsto> (s + 8 + v, True))"
  note D = poolD [OF P]
  obtain m' where m': "block_absorb (cells t) (adr a) (adr ?n) = Some m'" "layout m' ?H" "agree (cells t) m' {a + 8, ?n + 8 + v}"
    by (rule absorb_free_layout [OF D(3) a(1) n(1)])
  have out: "b + 8 + u \<le> a \<or> ?n + 8 + v \<le> b" if "H b = Some (u, h)" "b \<noteq> a" "b \<noteq> ?n" for b u h
    using outside [OF D(6) a(1) that(1,2)] outside [OF D(6) n(1) that(1,3)] free_class(3) [OF D(6) a(1)] by auto
  have Y: "{a + 8, ?n + 8 + v} \<subseteq> {a + 8..?n + 8 + v + 8}" by auto
  have "pool (t\<lparr>cells := m'\<rparr>) nl ?H L (X - {?n})"
  proof (rule pool_step [OF P m'(2,3) Y, where Z = "{a, ?n}"])
    show "?H b = H b \<and> (b + 8 + u \<le> a \<or> ?n + 8 + v \<le> b)" if "H b = Some (u, h)" "b \<notin> {a, ?n}" for b u h
      using out [OF that(1)] that(2) by auto
    show "null_ok m' nl ?H"
      by (rule null_ok_update [OF D(5) agree_dom [OF m'(3)]])
        (use null_apart [OF D(5)] null_apart [OF D(5) a(1)] null_apart [OF D(5) n(1)] in \<open>auto split: if_splits\<close>)
    show "listing ?H L (X - {?n})"
      unfolding listing_def
    proof (intro allI impI)
      fix d u
      assume d: "?H d = Some (u, True)"
      show "d \<in> set (L (size_class u)) \<longleftrightarrow> d \<notin> X - {?n}"
      proof (cases "d = a")
        case True
        then have u: "u = s + 8 + v" using d by auto
        have "u < 2 ^ 32" using free_class(2) [OF layout_tiling [OF m'(2)] d] .
        then have "a \<notin> set (L (size_class u))" using free_listed(2) [OF P in_range_class] a(2) by blast
        with True a show ?thesis by (auto split: if_splits)
      next
        case False
        with d have "H d = Some (u, True)" "d \<noteq> ?n" by (auto split: if_splits)
        with D(2) show ?thesis unfolding listing_def by blast
      qed
    qed
  qed (use a n in auto)
  moreover have "same_data ?H (cells t) m'"
  proof (rule same_data_sub)
    show "same_data H (cells t) m'"
    proof (rule same_data_step [OF D(6) m'(3) Y])
      fix b u
      assume b: "H b = Some (u, False)"
      with a(1) n(1) have "b \<noteq> a" "b \<noteq> ?n" by auto
      with out [OF b] show "b + 8 + u \<le> a \<or> ?n + 8 + v \<le> b" .
    qed
    show "?H b = Some (u, False) \<Longrightarrow> H b = Some (u, False)" for b u by (auto split: if_splits)
  qed
  ultimately show ?thesis using that m'(1) by blast
qed

lemma merge_next_ok:
  assumes P: "pool t nl H L {a}" and a: "H a = Some (s, True)" and pa: "\<not> pf H a" and C: "coalesced H {a}"
  obtains t' H' L' u where "block_merge_next t (adr a) = Some (adr a, t')" "pool t' nl H' L' {a}" "H' a = Some (u, True)"
    "coalesced H' {}" "\<forall>b u. H' b = Some (u, False) \<longleftrightarrow> H b = Some (u, False)" "same_data H (cells t) (cells t')"
proof -
  let ?n = "a + 8 + s"
  note D = poolD [OF P]
  have s: "s \<noteq> 0" using free_class(3) [OF D(6) a] by simp
  obtain v g where n: "H ?n = Some (v, g)" using tiling_next [OF D(6) a s] by blast
  have n0: "adr ?n \<noteq> 0" using block_okD(4) [OF tiling_block [OF D(6) n]] adr_eq_iff [of ?n 0] by (simp add: adr_def)
  note ha = layout_header [OF D(3) a] and hn = layout_header [OF D(3) n]
  show ?thesis
  proof (cases g)
    case False
    have "coalesced H {}"
      unfolding coalesced_def
    proof (intro allI impI)
      fix b w x
      assume b: "H b = Some (w, True)" "H (b + 8 + w) = Some (x, True)"
      then have "b = a \<or> b + 8 + w = a" using C unfolding coalesced_def by blast
      then show "b \<in> {} \<or> b + 8 + w \<in> {}"
      proof
        assume "b = a"
        with b n a False show ?thesis by simp
      next
        assume "b + 8 + w = a"
        with b(1) have "pf H a" by (auto simp: pf_def)
        with pa show ?thesis by simp
      qed
    qed
    moreover have "block_merge_next t (adr a) = Some (adr a, t)"
      using header_exec(10) [OF ha] header_exec(3) [OF hn] s False n0 by (simp add: block_merge_next_def tlsf_assert_def)
    ultimately show ?thesis using that [OF _ P a] by simp
  next
    case True
    then have n: "H ?n = Some (v, True)" using n by simp
    have na: "?n \<notin> {a}" by simp
    obtain t1 L1 where t1: "block_remove t (adr ?n) = Some t1" "pool t1 nl H L1 (insert ?n {a})" "same_data H (cells t) (cells t1)"
      by (rule block_remove_ok [OF P n na])
    let ?H = "H(?n := None, a \<mapsto> (s + 8 + v, True))"
    obtain m' where m': "block_absorb (cells t1) (adr a) (adr ?n) = Some m'"
      "pool (t1\<lparr>cells := m'\<rparr>) nl ?H L1 ({?n, a} - {?n})" "same_data ?H (cells t1) m'"
      by (rule absorb_ok [OF t1(2) a _ n]) auto
    have run: "block_merge_next t (adr a) = Some (adr a, t1\<lparr>cells := m'\<rparr>)"
      using header_exec(10) [OF ha] header_exec(3) [OF hn] header_exec(2) [OF ha] s True n0 t1(1) m'(1)
      by (simp add: block_merge_next_def tlsf_assert_def)
    have used: "?H b = Some (u, False) \<longleftrightarrow> H b = Some (u, False)" for b u using a n by auto
    have v: "v \<noteq> 0" using free_class(3) [OF D(6) n] by simp
    have "coalesced ?H {}"
      unfolding coalesced_def
    proof (intro allI impI)
      fix b w x
      assume b: "?H b = Some (w, True)" "?H (b + 8 + w) = Some (x, True)"
      show "b \<in> {} \<or> b + 8 + w \<in> {}"
      proof (cases "b = a")
        case True
        with b have w: "w = s + 8 + v" by auto
        have "?n + 8 + v \<noteq> a" "?n + 8 + v \<noteq> ?n" by auto
        with b(2) True w have "H (?n + 8 + v) = Some (x, True)" by (auto simp: ac_simps split: if_splits)
        with C n have "?n = a \<or> ?n + 8 + v = a" unfolding coalesced_def by blast
        then show ?thesis by simp
      next
        case False
        with b(1) have b1: "H b = Some (w, True)" "b \<noteq> ?n" by (auto split: if_splits)
        have "b + 8 + w \<noteq> a" using pa b1 unfolding pf_def by blast
        with b(2) have "H (b + 8 + w) = Some (x, True)" by (auto split: if_splits)
        with C b1 False \<open>b + 8 + w \<noteq> a\<close> show ?thesis unfolding coalesced_def by blast
      qed
    qed
    moreover have "{?n, a} - {?n} = {a}" by auto
    moreover have "same_data H (cells t) m'"
      using t1(3) same_data_sub [OF m'(3), of H] used same_data_trans by blast
    ultimately show ?thesis using that [OF run, of ?H L1 "s + 8 + v"] m'(2) used by simp
  qed
qed

lemma merge_prev_ok:
  assumes P: "pool t nl H L {a}" and a: "H a = Some (s, True)" and C: "coalesced H {a}"
  obtains t' H' L' p u where "block_merge_prev t (adr a) = Some (adr p, t')" "pool t' nl H' L' {p}" "H' p = Some (u, True)"
    "\<not> pf H' p" "coalesced H' {p}" "\<forall>b u. H' b = Some (u, False) \<longleftrightarrow> H b = Some (u, False)" "same_data H (cells t) (cells t')"
proof (cases "pf H a")
  case False
  note D = poolD [OF P] and ha = layout_header [OF poolD(3) [OF P] a]
  have "block_merge_prev t (adr a) = Some (adr a, t)"
    using header_exec(4) [OF ha] False by (simp add: block_merge_prev_def)
  with that [OF _ P a False C] show ?thesis by simp
next
  case True
  note D = poolD [OF P] and ha = layout_header [OF poolD(3) [OF P] a]
  obtain p v where p: "H p = Some (v, True)" "p + 8 + v = a" using True by (auto simp: pf_def)
  note hp = layout_header [OF D(3) p(1)]
  have v: "v \<noteq> 0" using free_class(3) [OF D(6) p(1)] by simp
  have pa: "p \<notin> {a}" using p(2) by simp
  have bp: "cells t (adr a) = Some (adr p)" using layout_block(2) [OF D(3) p(1)] p(2) by simp
  have p0: "adr p \<noteq> 0"
    using block_okD(3,4) [OF tiling_block [OF D(6) p(1)]] adr_eq_iff [of p 0] by (simp add: adr_def)
  obtain t1 L1 where t1: "block_remove t (adr p) = Some t1" "pool t1 nl H L1 (insert p {a})" "same_data H (cells t) (cells t1)"
    by (rule block_remove_ok [OF P p(1) pa])
  let ?H = "H(a := None, p \<mapsto> (v + 8 + s, True))"
  obtain m' where m': "block_absorb (cells t1) (adr p) (adr a) = Some m'"
    "pool (t1\<lparr>cells := m'\<rparr>) nl ?H L1 ({p, a} - {a})" "same_data ?H (cells t1) m'"
    using absorb_ok [OF t1(2) p(1), of s] a p(2) by auto
  have run: "block_merge_prev t (adr a) = Some (adr p, t1\<lparr>cells := m'\<rparr>)"
    using header_exec(4) [OF ha] header_exec(3) [OF hp] True bp p0 t1(1) m'(1)
    by (simp add: block_merge_prev_def block_prev_def tlsf_assert_def rd64_def)
  have used: "?H b = Some (u, False) \<longleftrightarrow> H b = Some (u, False)" for b u using a p by auto
  have pred: "\<not> pf H p"
  proof
    assume "pf H p"
    then obtain q w where q: "H q = Some (w, True)" "q + 8 + w = p" by (auto simp: pf_def)
    with C p have "q = a \<or> p = a" unfolding coalesced_def by blast
    with q(2) p(2) show False by auto
  qed
  have "\<not> pf ?H p"
  proof
    assume "pf ?H p"
    then obtain q w where "?H q = Some (w, True)" "q + 8 + w = p" by (auto simp: pf_def)
    moreover from this have "q \<noteq> p" "q \<noteq> a" using p(2) by auto
    ultimately show False using pred unfolding pf_def by auto
  qed
  moreover have "coalesced ?H {p}"
    unfolding coalesced_def
  proof (intro allI impI)
    fix b w x
    assume b: "?H b = Some (w, True)" "?H (b + 8 + w) = Some (x, True)"
    show "b \<in> {p} \<or> b + 8 + w \<in> {p}"
    proof (rule ccontr)
      assume "\<not> ?thesis"
      with b have "H b = Some (w, True)" "H (b + 8 + w) = Some (x, True)" "b \<noteq> a" "b + 8 + w \<noteq> a" by (auto split: if_splits)
      with C show False unfolding coalesced_def by blast
    qed
  qed
  moreover have "{p, a} - {a} = {p}" using p(2) by auto
  moreover have "same_data H (cells t) m'"
    using t1(3) same_data_sub [OF m'(3), of H] used same_data_trans by blast
  ultimately show ?thesis using that [OF run, of ?H L1 "v + 8 + s"] m'(2) used by simp
qed

section \<open>Trimming\<close>

text \<open>The listings and frames of a split at \<open>a\<close>: the new block is not in the lists.\<close>

lemma split_ok:
  assumes P: "pool t nl H L X" and a: "H a = Some (z + 8 + w, f)" "f \<longrightarrow> a \<in> X" and z: "8 dvd z" "24 \<le> z" "24 \<le> w"
    and m': "layout m' (H(a \<mapsto> (z, f), a + 8 + z \<mapsto> (w, True)))"
    and ag: "agree (cells t) m' ({a + 8, a + 8 + z, a + 16 + z, a + 16 + z + w, a + 24 + z + w})"
  shows "pool (t\<lparr>cells := m'\<rparr>) nl (H(a \<mapsto> (z, f), a + 8 + z \<mapsto> (w, True))) L (insert (a + 8 + z) X)"
    "same_data (H(a := None)) (cells t) m'"
proof -
  let ?r = "a + 8 + z" and ?H = "H(a \<mapsto> (z, f), a + 8 + z \<mapsto> (w, True))"
  note D = poolD [OF P]
  have out: "b + 8 + u \<le> a \<or> a + 16 + z + w \<le> b" if "H b = Some (u, h)" "b \<noteq> a" for b u h
    using outside [OF D(6) a(1) that] by (simp add: ac_simps)
  have r: "H ?r = None"
  proof (rule ccontr)
    assume "H ?r \<noteq> None"
    then obtain u h where "H ?r = Some (u, h)" by auto
    from out [OF this] z show False by simp
  qed
  have Y: "{a + 8, a + 8 + z, a + 16 + z, a + 16 + z + w, a + 24 + z + w} \<subseteq> {a + 8..a + 16 + z + w + 8}" by auto
  show "pool (t\<lparr>cells := m'\<rparr>) nl ?H L (insert ?r X)"
  proof (rule pool_step [OF P m' ag Y, where Z = "{a}"])
    show "?H b = H b \<and> (b + 8 + u \<le> a \<or> a + 16 + z + w \<le> b)" if "H b = Some (u, h)" "b \<notin> {a}" for b u h
      using out [OF that(1)] that r by auto
    show "null_ok m' nl ?H"
      by (rule null_ok_update [OF D(5) agree_dom [OF ag]])
        (use null_apart [OF D(5)] null_apart [OF D(5) a(1)] in \<open>auto split: if_splits\<close>)
    show "listing ?H L (insert ?r X)"
      unfolding listing_def
    proof (intro allI impI)
      fix d u
      assume d: "?H d = Some (u, True)"
      have c: "in_range (size_class u)" using free_class(1) [OF layout_tiling [OF m'] d] .
      consider "d = ?r" | "d = a" "f" | "d \<noteq> ?r" "d \<noteq> a" "H d = Some (u, True)" using d by (auto split: if_splits)
      then show "d \<in> set (L (size_class u)) \<longleftrightarrow> d \<notin> insert ?r X"
      proof cases
        case 1
        with r free_listed(1) [OF P c, of d] show ?thesis by auto
      next
        case 2
        with a(2) free_listed(2) [OF P c, of d] show ?thesis by auto
      next
        case 3
        with D(2) show ?thesis unfolding listing_def by blast
      qed
    qed
  qed (use a in auto)
  show "same_data (H(a := None)) (cells t) m'"
    unfolding same_data_def
  proof (intro allI impI)
    fix b u x
    assume b: "(H(a := None)) b = Some (u, False)" "b + 16 \<le> x" "x < b + 16 + u"
    then have b': "H b = Some (u, False)" "b \<noteq> a" by (auto split: if_splits)
    have "x \<notin> {a + 8, a + 8 + z, a + 16 + z, a + 16 + z + w, a + 24 + z + w}" using out [OF b'] b(2,3) by auto
    with agreeD [OF ag] block_okD(4) [OF tiling_block [OF D(6) b'(1)]] b(3) show "m' (adr x) = cells t (adr x)" by simp
  qed
qed

lemma coalesced_split:
  assumes C: "coalesced H {a}" and a: "H a = Some (z + 8 + w, f)" and T: "tiling H" and z: "24 \<le> z" "24 \<le> w"
  shows "(\<And>v. H (a + 16 + z + w) \<noteq> Some (v, True)) \<Longrightarrow> coalesced (H(a \<mapsto> (z, g), a + 8 + z \<mapsto> (w, True))) {a}"
    "(g \<Longrightarrow> \<not> pf H a) \<Longrightarrow> coalesced (H(a \<mapsto> (z, g), a + 8 + z \<mapsto> (w, True))) {a + 8 + z}"
proof -
  let ?r = "a + 8 + z" and ?H = "H(a \<mapsto> (z, g), a + 8 + z \<mapsto> (w, True))"
  have out: "b + 8 + u \<le> a \<or> a + 16 + z + w \<le> b" if "H b = Some (u, h)" "b \<noteq> a" for b u h
    using outside [OF T a(1) that] by (simp add: ac_simps)
  have key: "b = a \<and> b + 8 + u = ?r \<or> b = ?r \<and> H (a + 16 + z + w) = Some (x, True) \<or> b + 8 + u = a \<and> g \<and> pf H a"
    if b: "?H b = Some (u, True)" "?H (b + 8 + u) = Some (x, True)" for b u x
  proof -
    consider "b = ?r" "u = w" | "b = a" "u = z" | "b \<noteq> ?r" "b \<noteq> a" "H b = Some (u, True)" using b(1) by (auto split: if_splits)
    then show ?thesis
    proof cases
      case 1
      then have e: "b + 8 + u = a + 16 + z + w" by simp
      have "a + 16 + z + w \<noteq> a" "a + 16 + z + w \<noteq> ?r" by simp_all
      with b(2) have "H (a + 16 + z + w) = Some (x, True)" unfolding e by simp
      with 1 show ?thesis by blast
    next
      case 2
      then show ?thesis by simp
    next
      case 3
      have ne: "b + 8 + u \<noteq> ?r" using out [OF 3(3,2)] z by auto
      show ?thesis
      proof (cases "b + 8 + u = a")
        case True
        with b(2) ne have g by (auto split: if_splits)
        with True 3(3) show ?thesis by (auto simp: pf_def)
      next
        case False
        with b(2) ne have "H (b + 8 + u) = Some (x, True)" by simp
        with C 3 False show ?thesis unfolding coalesced_def by blast
      qed
    qed
  qed
  then show "(\<And>v. H (a + 16 + z + w) \<noteq> Some (v, True)) \<Longrightarrow> coalesced ?H {a}"
    "(g \<Longrightarrow> \<not> pf H a) \<Longrightarrow> coalesced ?H {?r}" unfolding coalesced_def by blast+
qed

text \<open>After a trim the block holds the request, and what is left is too small for a block of its own.\<close>

lemma trim_free_ok:
  assumes P: "pool t nl H L {a}" and a: "H a = Some (s, True)" and C: "coalesced H {a}"
    and nx: "\<And>v. H (a + 8 + s) \<noteq> Some (v, True)" and n: "8 dvd n" "24 \<le> n" "n \<le> s"
  obtains t' H' L' u where "block_trim_free t (adr a) (adr n) = Some t'" "pool t' nl H' L' {a}" "H' a = Some (u, True)"
    "n \<le> u" "u < n + 32" "coalesced H' {a}" "\<forall>b u. H' b = Some (u, False) \<longleftrightarrow> H b = Some (u, False)"
    "same_data H (cells t) (cells t')"
proof -
  note D = poolD [OF P] and ha = layout_header [OF poolD(3) [OF P] a]
  have sl: "s < 2 ^ 32" using free_class(2) [OF D(6) a] .
  then have can: "block_can_split (cells t) (adr a) (adr n) = Some (32 + n \<le> s)"
    using block_can_split_layout [OF D(3) a, of n] n(3) by simp
  show ?thesis
  proof (cases "32 + n \<le> s")
    case False
    then have "block_trim_free t (adr a) (adr n) = Some t"
      using header_exec(3) [OF ha] can by (simp add: block_trim_free_def tlsf_assert_def)
    with that [OF _ P a n(3) _ C] False show ?thesis by simp
  next
    case True
    define w where "w = s - n - 8"
    have s: "s = n + 8 + w" and w: "24 \<le> w" using True by (simp_all add: w_def)
    let ?H = "H(a \<mapsto> (n, True), a + 8 + n \<mapsto> (w, True))"
    note a' = a [unfolded s]
    obtain m1 m2 m3 where m: "block_split (cells t) (adr a) (adr n) = Some (adr (a + 8 + n), m1)"
      "block_link_next m1 (adr a) = Some (adr (a + 8 + n), m2)" "block_set_prev_free m2 (adr (a + 8 + n)) = Some m3"
      "layout m3 ?H" "agree (cells t) m3 {a + 8, a + 8 + n, a + 16 + n, a + 16 + n + w, a + 24 + n + w}"
      by (rule split_free_layout [OF D(3) a' n(1,2) w])
    have P3: "pool (t\<lparr>cells := m3\<rparr>) nl ?H L (insert (a + 8 + n) {a})" and sd: "same_data (H(a := None)) (cells t) m3"
      using split_ok [OF P a' _ n(1,2) w m(4,5)] by auto
    let ?r = "a + 8 + n"
    have r: "?H ?r = Some (w, True)" by simp
    obtain t4 L4 where t4: "block_insert (t\<lparr>cells := m3\<rparr>) (adr ?r) = Some t4"
      "pool t4 nl ?H L4 (insert ?r {a} - {?r})" "same_data ?H (cells (t\<lparr>cells := m3\<rparr>)) (cells t4)"
      by (rule block_insert_ok [OF P3 r insertI1])
    have X: "insert (a + 8 + n) {a} - {a + 8 + n} = {a}" by auto
    have run: "block_trim_free t (adr a) (adr n) = Some t4"
      using header_exec(3) [OF ha] can True m(1-3) t4(1) by (simp add: block_trim_free_def tlsf_assert_def)
    have rn: "H (a + 8 + n) = None"
    proof (rule ccontr)
      assume "H (a + 8 + n) \<noteq> None"
      then obtain u h where h: "H (a + 8 + n) = Some (u, h)" by auto
      from outside [OF D(6) a h] n(2) True show False by auto
    qed
    have used: "?H b = Some (u, False) \<longleftrightarrow> H b = Some (u, False)" for b u using a rn by auto
    have nx': "H (a + 16 + n + w) \<noteq> Some (v, True)" for v using nx [of v] by (simp add: s ac_simps)
    have "coalesced ?H {a}" using coalesced_split(1) [OF C a' D(6) n(2) w] nx' .
    moreover have "same_data H (cells t) m3" by (rule same_data_sub [OF sd]) (use a in auto)
    moreover have "same_data H m3 (cells t4)" by (rule same_data_sub [of ?H]) (use t4(3) used in simp_all)
    ultimately show ?thesis
      using that [OF run, of ?H L4 n] t4(2) X used same_data_trans [of H "cells t" m3 "cells t4"] by simp
  qed
qed

lemma trim_used_ok:
  assumes P: "pool t nl H L {}" and a: "H a = Some (s, False)" and C: "coalesced H {}"
    and n: "8 dvd n" "24 \<le> n" "n \<le> s"
  obtains t' H' L' u where "block_trim_used t (adr a) (adr n) = Some t'" "pool t' nl H' L' {}" "H' a = Some (u, False)"
    "n \<le> u" "u < n + 32" "coalesced H' {}"
    "\<forall>b v. b \<noteq> a \<longrightarrow> (H' b = Some (v, False) \<longleftrightarrow> H b = Some (v, False))" "same_data H' (cells t) (cells t')"
proof -
  note D = poolD [OF P] and ha = layout_header [OF poolD(3) [OF P] a]
  have sl: "s < 2 ^ 32" using block_okD(7) [OF tiling_block [OF D(6) a]] .
  then have can: "block_can_split (cells t) (adr a) (adr n) = Some (32 + n \<le> s)"
    using block_can_split_layout [OF D(3) a, of n] n(3) by simp
  show ?thesis
  proof (cases "32 + n \<le> s")
    case False
    then have "block_trim_used t (adr a) (adr n) = Some t"
      using header_exec(3) [OF ha] can by (simp add: block_trim_used_def tlsf_assert_def)
    with that [OF _ P a n(3) _ C] False show ?thesis by simp
  next
    case True
    define w where "w = s - n - 8"
    have s: "s = n + 8 + w" and w: "24 \<le> w" using True by (simp_all add: w_def)
    let ?r = "a + 8 + n"
    let ?H = "H(a \<mapsto> (n, False), ?r \<mapsto> (w, True))"
    note a' = a [unfolded s]
    obtain m1 m2 where m: "block_split (cells t) (adr a) (adr n) = Some (adr ?r, m1)"
      "block_set_prev_used m1 (adr ?r) = Some m2" "layout m2 ?H" "agree (cells t) m2 {a + 8, a + 16 + n, a + 16 + n + w, a + 24 + n + w}"
      by (rule split_used_layout [OF D(3) a' n(1,2) w])
    have ag: "agree (cells t) m2 {a + 8, ?r, a + 16 + n, a + 16 + n + w, a + 24 + n + w}" by (rule agree_mono [OF m(4)]) auto
    have P2: "pool (t\<lparr>cells := m2\<rparr>) nl ?H L {?r}" and sd: "same_data (H(a := None)) (cells t) m2"
      using split_ok [OF P a' _ n(1,2) w m(3) ag] by auto
    have sd2: "same_data ?H (cells t) m2"
      unfolding same_data_def
    proof (intro allI impI)
      fix b u x
      assume b: "?H b = Some (u, False)" "b + 16 \<le> x" "x < b + 16 + u"
      show "m2 (adr x) = cells t (adr x)"
      proof (cases "b = a")
        case True
        with b have "x \<notin> {a + 8, a + 16 + n, a + 16 + n + w, a + 24 + n + w}" "x < 2 ^ 64"
          using block_okD(4) [OF tiling_block [OF D(6) a']] by (auto split: if_splits)
        with agreeD [OF m(4)] show ?thesis by blast
      next
        case False
        with b have "(H(a := None)) b = Some (u, False)" by (auto split: if_splits)
        with sd b(2,3) show ?thesis unfolding same_data_def by blast
      qed
    qed
    have r: "?H ?r = Some (w, True)" and ra: "?H a = Some (n, False)" by auto
    have np: "\<not> pf ?H ?r" using pf_next [OF layout_tiling [OF m(3)] ra] n(2) by (simp del: fun_upd_apply)
    have "coalesced H {a}" using C unfolding coalesced_def by blast
    from coalesced_split(2) [OF this a' D(6) n(2) w, of False] have C2: "coalesced ?H {?r}" by simp
    obtain t3 H3 L3 u where t3: "block_merge_next (t\<lparr>cells := m2\<rparr>) (adr ?r) = Some (adr ?r, t3)" "pool t3 nl H3 L3 {?r}"
      "H3 ?r = Some (u, True)" "coalesced H3 {}" "\<forall>b u. H3 b = Some (u, False) \<longleftrightarrow> ?H b = Some (u, False)"
      "same_data ?H (cells (t\<lparr>cells := m2\<rparr>)) (cells t3)"
      by (rule merge_next_ok [OF P2 r np C2])
    then have sd3: "same_data ?H m2 (cells t3)" by simp
    obtain t4 L4 where t4: "block_insert t3 (adr ?r) = Some t4" "pool t4 nl H3 L4 ({?r} - {?r})" "same_data H3 (cells t3) (cells t4)"
      by (rule block_insert_ok [OF t3(2,3) singletonI])
    have run: "block_trim_used t (adr a) (adr n) = Some t4"
      using header_exec(3) [OF ha] can True m(1,2) t3(1) t4(1) by (simp add: block_trim_used_def tlsf_assert_def)
    have rn: "H ?r = None"
    proof (rule ccontr)
      assume "H ?r \<noteq> None"
      then obtain u h where h: "H ?r = Some (u, h)" by auto
      from outside [OF D(6) a h] n(2) True show False by auto
    qed
    have "same_data H3 (cells t) (cells t4)"
    proof (rule same_data_trans [OF _ t4(3)])
      show "same_data H3 (cells t) (cells t3)"
        by (rule same_data_sub [OF same_data_trans [OF sd2 sd3]]) (use t3(5) in blast)
    qed
    moreover have "H3 b = Some (v, False) \<longleftrightarrow> H b = Some (v, False)" if "b \<noteq> a" for b v
      using t3(5) rn that by simp
    moreover have "H3 a = Some (n, False)" using t3(5) ra by blast
    moreover have "pool t4 nl H3 L4 {}" using t4(2) by simp
    ultimately show ?thesis using that [OF run, of H3 L4 n] t3(4) by simp
  qed
qed

lemma trim_leading_ok:
  assumes P: "pool t nl H L {a}" and a: "H a = Some (s, True)" and C: "coalesced H {}"
    and g: "8 dvd g" "32 \<le> g" "g + 24 \<le> s" and g': "g + 32 \<le> s"
  obtains t' H' L' where "block_trim_free_leading t (adr a) (adr g) = Some (adr (a + g), t')" "pool t' nl H' L' {a + g}"
    "H' (a + g) = Some (s - g, True)" "coalesced H' {a + g}" "\<forall>v. H' (a + 8 + s) \<noteq> Some (v, True)"
    "\<forall>b u. H' b = Some (u, False) \<longleftrightarrow> H b = Some (u, False)" "same_data H (cells t) (cells t')"
proof -
  note D = poolD [OF P] and ha = layout_header [OF poolD(3) [OF P] a]
  have sl: "s < 2 ^ 32" using free_class(2) [OF D(6) a] .
  then have can: "block_can_split (cells t) (adr a) (adr g) = Some True"
    using block_can_split_layout [OF D(3) a, of g] g' by simp
  define z where "z = g - 8"
  define w where "w = s - g"
  have s: "s = z + 8 + w" and w: "24 \<le> w" and z: "24 \<le> z" "8 dvd z" and gz: "a + 8 + z = a + g" "adr g - block_header_overhead = adr z"
    using g by (auto simp: z_def w_def block_header_overhead_def)
  let ?r = "a + g"
  let ?H = "H(a \<mapsto> (z, True), ?r \<mapsto> (w, True))"
  note a' = a [unfolded s]
  obtain m1 m2 m3 where m: "block_split (cells t) (adr a) (adr z) = Some (adr ?r, m1)"
    "block_set_prev_free m1 (adr ?r) = Some m2" "block_link_next m2 (adr a) = Some (adr ?r, m3)"
    "layout m3 ?H" "agree (cells t) m3 {a + 8, ?r, a + 16 + z, a + 16 + z + w, a + 24 + z + w}"
    using split_leading_layout [OF D(3) a' z(2,1) w] unfolding gz(1) by metis
  have P3: "pool (t\<lparr>cells := m3\<rparr>) nl ?H L (insert ?r {a})" and sd: "same_data (H(a := None)) (cells t) m3"
    using split_ok [OF P a' _ z(2,1) w, unfolded gz(1), OF _ m(4,5)] by auto
  have ra: "?H a = Some (z, True)" using g(2) by simp
  obtain t4 L4 where t4: "block_insert (t\<lparr>cells := m3\<rparr>) (adr a) = Some t4"
    "pool t4 nl ?H L4 (insert ?r {a} - {a})" "same_data ?H (cells (t\<lparr>cells := m3\<rparr>)) (cells t4)"
    by (rule block_insert_ok [OF P3 ra insertI2 [OF singletonI]])
  have X: "insert ?r {a} - {a} = {?r}" using g(2) by auto
  have run: "block_trim_free_leading t (adr a) (adr g) = Some (adr ?r, t4)"
    using can m(1-3) t4(1) gz(2) by (simp add: block_trim_free_leading_def)
  have rn: "H ?r = None"
  proof (rule ccontr)
    assume "H ?r \<noteq> None"
    then obtain u h where h: "H ?r = Some (u, h)" by auto
    from outside [OF D(6) a h] g show False by auto
  qed
  have used: "?H b = Some (u, False) \<longleftrightarrow> H b = Some (u, False)" for b u using a rn by auto
  have "\<not> pf H a"
  proof
    assume "pf H a"
    then obtain q v where "H q = Some (v, True)" "q + 8 + v = a" by (auto simp: pf_def)
    with C a show False unfolding coalesced_def by blast
  qed
  moreover have "coalesced H {a}" using C unfolding coalesced_def by blast
  ultimately have C2: "coalesced ?H {?r}" using coalesced_split(2) [OF _ a' D(6) z(1) w, of True] unfolding gz(1) by blast
  have nx: "?H (a + 8 + s) \<noteq> Some (v, True)" for v
  proof -
    have "a + 8 + s \<noteq> ?r" using g by simp
    moreover have "H (a + 8 + s) \<noteq> Some (v, True)" using C a unfolding coalesced_def by blast
    ultimately show ?thesis by simp
  qed
  have "same_data H (cells t) m3" by (rule same_data_sub [OF sd]) (use a in auto)
  moreover have "same_data H m3 (cells t4)" by (rule same_data_sub [of ?H]) (use t4(3) used in simp_all)
  ultimately show ?thesis
    using that [OF run, of ?H L4] t4(2) X used C2 nx same_data_trans [of H "cells t" m3 "cells t4"] by (simp add: w_def)
qed

end
