(* ===== verification/Tlsf_Correct.thy ===== *)
theory Tlsf_Correct
  imports Tlsf_Alloc
begin

text \<open>
  The interface of \<^verbatim>\<open>tlsf.c\<close>: allocation, aligned allocation, release and reallocation on well-formed
  allocators.
\<close>

section \<open>Search\<close>

lemma bits_from: "bit (w AND push_bit n (NOT 0) :: u32) k \<longleftrightarrow> bit w k \<and> n \<le> k"
  using bit_imp_le_length [of w k] by (auto simp: bit_and_iff bit_not_iff bit_mask_iff)

lemma first_hd: "xs \<noteq> [] \<Longrightarrow> first q xs = hd xs"
  by (cases xs) auto

lemma first_block_ok:
  assumes C: "ctl_ok ct nl L" and i: "i < 25" and w: "w \<noteq> 0" and sub: "\<And>k. bit w k \<Longrightarrow> bit (sl_bitmap ct ! i) k"
  obtains j where "first_block ct (int i) w = Some (adr (hd (L (i, j))), int i, int j)" "j < 32" "L (i, j) \<noteq> []" "bit w j"
proof -
  obtain j where j: "tlsf_ffs w = int j" "j < 32" "bit w j" using tlsf_ffs_bit [OF w] by metis
  have "bit (sl_bitmap ct ! i) j" using sub j(3) by blast
  moreover have "bit (sl_bitmap ct ! i) j \<longleftrightarrow> L (i, j) \<noteq> []" using C i j(2) unfolding ctl_ok_def by blast
  ultimately have "L (i, j) \<noteq> []" by simp
  moreover have "blocks ct ! i ! j = adr (first nl (L (i, j)))" "length (blocks ct) = 25" "length (blocks ct ! i) = 32"
    using C i j(2) by (auto simp: ctl_ok_def)
  ultimately show ?thesis
    using that [of j] i j w first_hd [of "L (i, j)" nl]
    by (simp add: first_block_def tlsf_assert_def arr_at_int)
qed

lemma search_suitable_block_ok:
  assumes C: "ctl_ok ct nl L" and c: "fl < 25" "sl < 32"
  obtains (none) "search_suitable_block ct (int fl) (int sl) = Some (0, int fl, int sl)"
    "\<And>i j. in_range (i, j) \<Longrightarrow> class_le (fl, sl) (i, j) \<Longrightarrow> L (i, j) = []"
  | (some) i j where "search_suitable_block ct (int fl) (int sl) = Some (adr (hd (L (i, j))), int i, int j)"
    "in_range (i, j)" "class_le (fl, sl) (i, j)" "L (i, j) \<noteq> []"
proof -
  let ?row = "sl_bitmap ct ! fl"
  let ?map = "?row AND push_bit sl (NOT 0)" and ?fmap = "fl_bitmap ct AND push_bit (fl + 1) (NOT 0)"
  have len: "length (sl_bitmap ct) = 25" using C by (simp add: ctl_ok_def)
  have sl: "bit (sl_bitmap ct ! i) j \<longleftrightarrow> L (i, j) \<noteq> []" if "i < 25" "j < 32" for i j
    using C that by (auto simp: ctl_ok_def)
  have fl: "bit (fl_bitmap ct) i \<longleftrightarrow> i < 25 \<and> sl_bitmap ct ! i \<noteq> 0" if "i < 32" for i
    using C that by (auto simp: ctl_ok_def)
  have n1: "nat (int fl + 1) = fl + 1" by simp
  show ?thesis
  proof (cases "?map = 0")
    case False
    obtain j where j: "first_block ct (int fl) ?map = Some (adr (hd (L (fl, j))), int fl, int j)" "j < 32" "L (fl, j) \<noteq> []" "bit ?map j"
      by (rule first_block_ok [OF C c(1) False]) (auto simp only: bits_from)
    have "sl \<le> j" using j(4) by (simp only: bits_from)
    moreover have "search_suitable_block ct (int fl) (int sl) = first_block ct (int fl) ?map"
      using False c len by (simp add: search_suitable_block_def arr_at_int Let_def)
    ultimately show ?thesis using some [of fl j] j c by (simp add: in_range_def counts class_le_def)
  next
    case True
    then have low: "L (fl, j) = []" if "sl \<le> j" "j < 32" for j
    proof -
      have "\<not> bit ?map j" using True by simp
      then show ?thesis using that sl [OF c(1) that(2)] unfolding bits_from by blast
    qed
    show ?thesis
    proof (cases "?fmap = 0")
      case no: True
      have "search_suitable_block ct (int fl) (int sl) = Some (0, int fl, int sl)"
        using True no c len n1 by (simp add: search_suitable_block_def arr_at_int Let_def)
      moreover have "L (i, j) = []" if r: "in_range (i, j)" "class_le (fl, sl) (i, j)" for i j
      proof (cases "i = fl")
        case True
        with r low [of j] show ?thesis by (simp add: in_range_def counts class_le_def)
      next
        case False
        with r have i: "fl + 1 \<le> i" "i < 25" "j < 32" by (auto simp: in_range_def counts class_le_def)
        have "\<not> bit ?fmap i" using no by simp
        then have "\<not> bit (fl_bitmap ct) i" using i unfolding bits_from by blast
        with fl [of i] i have "sl_bitmap ct ! i = 0" by simp
        with sl [OF i(2,3)] show ?thesis by simp
      qed
      ultimately show ?thesis using none by blast
    next
      case False
      obtain i where i: "tlsf_ffs ?fmap = int i" "i < 32" "bit ?fmap i" using tlsf_ffs_bit [OF False] by metis
      then have "bit (fl_bitmap ct) i" "fl + 1 \<le> i" by (simp_all only: bits_from)
      with fl [OF i(2)] have i': "i < 25" "sl_bitmap ct ! i \<noteq> 0" by auto
      obtain j where j: "first_block ct (int i) (sl_bitmap ct ! i) = Some (adr (hd (L (i, j))), int i, int j)" "j < 32" "L (i, j) \<noteq> []"
        by (rule first_block_ok [OF C i'(1,2)]) auto
      have "search_suitable_block ct (int fl) (int sl) = first_block ct (int i) (sl_bitmap ct ! i)"
        using True False c len i i' n1 by (simp add: search_suitable_block_def arr_at_int Let_def)
      with j i' \<open>fl + 1 \<le> i\<close> show ?thesis using some [of i j] by (simp add: in_range_def counts class_le_def)
    qed
  qed
qed

lemma block_locate_free_ok:
  assumes P: "pool t nl H L {}" and n: "8 dvd n" "n \<noteq> 0" "n < 2 ^ 32"
  obtains (none) "block_locate_free t (adr n) = Some (0, t)"
    "\<And>b s. H b = Some (s, True) \<Longrightarrow> s < n + n div 32"
  | (some) t' L' b s where "block_locate_free t (adr n) = Some (adr b, t')" "adr b \<noteq> 0" "H b = Some (s, True)" "n \<le> s"
    "pool t' nl H L' {b}" "same_data H (cells t) (cells t')"
proof -
  note D = poolD [OF P]
  let ?c = "size_class (search_size n)"
  obtain fl sl where fs: "?c = (fl, sl)" by fastforce
  have sl: "sl < 32" using size_class_snd [of "search_size n"] fs by simp
  have n0: "adr n \<noteq> 0" using adr_eq_iff [of n 0] n by (simp add: adr_def)
  have ms: "mapping_search (adr n) = (int fl, int sl)" using mapping_search_class [OF n(3)] fs by (simp add: adr_def)
  have small: "s < n + n div 32" if "\<not> class_le ?c (size_class s)" for s
  proof (rule ccontr)
    assume "\<not> ?thesis"
    then have "search_size n \<le> s" using search_size_bound [of n] by simp
    from size_class_mono [OF this] that show False by simp
  qed
  show ?thesis
  proof (cases "fl < 25")
    case False
    have "s < n + n div 32" if "H b = Some (s, True)" for b s
    proof (rule small)
      have "fst (size_class s) < 25" using free_class(1) [OF D(6) that] by (simp add: in_range_def counts)
      with False fs show "\<not> class_le ?c (size_class s)" by (simp add: class_le_def)
    qed
    moreover have "block_locate_free t (adr n) = Some (0, t)" using n0 ms False by (simp add: block_locate_free_def counts)
    ultimately show ?thesis using none by blast
  next
    case True
    from arenaD(2) [OF D(1)] True sl show ?thesis
    proof (cases rule: search_suitable_block_ok)
      case none: none
      have "s < n + n div 32" if b: "H b = Some (s, True)" for b s
      proof (rule small)
        obtain i j where ij: "size_class s = (i, j)" by fastforce
        have "b \<in> set (L (size_class s))" using D(2) b unfolding listing_def by blast
        then have "b \<in> set (L (i, j))" by (simp only: ij)
        with none(2) [of i j] free_class(1) [OF D(6) b] ij fs show "\<not> class_le ?c (size_class s)" by auto
      qed
      moreover have "block_locate_free t (adr n) = Some (0, t)" using n0 ms True none(1) by (simp add: block_locate_free_def counts)
      ultimately show ?thesis using that(1) by blast
    next
      case (some i j)
      let ?b = "hd (L (i, j))"
      have "?b \<in> set (L (i, j))" using some(4) by simp
      from free_listed(1) [OF P some(2) this] obtain s where s: "H ?b = Some (s, True)" "size_class s = (i, j)" by blast
      have ns: "n \<le> s" by (rule search_class_suits [OF n(1)]) (use some(3) s(2) fs in simp)
      obtain t' L' where t': "remove_free_block t (adr ?b) (int i) (int j) = Some t'" "pool t' nl H L' (insert ?b {})"
        "same_data H (cells t) (cells t')"
        by (rule remove_listed_ok [OF P s(1) _ s(2)]) auto
      have b0: "adr ?b \<noteq> 0"
        using block_okD(3,4) [OF tiling_block [OF D(6) s(1)]] adr_eq_iff [of ?b 0] by (simp add: adr_def)
      have sz: "block_size (cells t) (adr ?b) = Some (adr s)" by (rule header_exec(1) [OF layout_header [OF D(3) s(1)]])
      have "adr n \<le> adr s" using ns n(3) free_class(2) [OF D(6) s(1)] by (simp add: adr_le_iff)
      with n0 ms True some(1) b0 t'(1) sz have "block_locate_free t (adr n) = Some (adr ?b, t')"
        by (simp add: block_locate_free_def counts tlsf_assert_def)
      with that(2) b0 s(1) ns t'(2,3) show ?thesis by blast
    qed
  qed
qed

lemma next_not_free:
  assumes "coalesced H {}" and "H a = Some (s, True)"
  shows "H (a + 8 + s) \<noteq> Some (v, True)"
  using assms unfolding coalesced_def by blast

lemma block_prepare_used_ok:
  assumes P: "pool t nl H L {b}" and b: "H b = Some (s, True)" and C: "coalesced H {b}"
    and nx: "\<And>v. H (b + 8 + s) \<noteq> Some (v, True)" and n: "8 dvd n" "24 \<le> n" "n \<le> s"
  obtains t' H' L' u where "block_prepare_used t (adr b) (adr n) = Some (adr (b + 16), t')" "pool t' nl H' L' {}"
    "coalesced H' {}" "H' b = Some (u, False)" "n \<le> u" "u < n + 32"
    "\<forall>c v. c \<noteq> b \<longrightarrow> (H' c = Some (v, False) \<longleftrightarrow> H c = Some (v, False))" "same_data H (cells t) (cells t')"
proof -
  note D = poolD [OF P]
  have b0: "adr b \<noteq> 0"
    using block_okD(3,4) [OF tiling_block [OF D(6) b]] adr_eq_iff [of b 0] by (simp add: adr_def)
  have n0: "adr n \<noteq> 0" using adr_eq_iff [of n 0] n free_class(2) [OF D(6) b] by (simp add: adr_def)
  obtain t1 H1 L1 u where t1: "block_trim_free t (adr b) (adr n) = Some t1" "pool t1 nl H1 L1 {b}" "H1 b = Some (u, True)"
    "n \<le> u" "u < n + 32" "coalesced H1 {b}" "\<forall>c v. H1 c = Some (v, False) \<longleftrightarrow> H c = Some (v, False)"
    "same_data H (cells t) (cells t1)"
    by (rule trim_free_ok [OF P b C nx n])
  let ?H = "H1(b \<mapsto> (u, False))"
  obtain m' where m': "block_mark_as_used (cells t1) (adr b) = Some m'" "pool (t1\<lparr>cells := m'\<rparr>) nl ?H L1 {}"
    "same_data ?H (cells t1) m'"
    by (rule mark_used_ok [OF t1(2,3)])
  have run: "block_prepare_used t (adr b) (adr n) = Some (adr (b + 16), t1\<lparr>cells := m'\<rparr>)"
    using b0 n0 t1(1) m'(1) by (simp add: block_prepare_used_def tlsf_assert_def)
  have "coalesced ?H {}"
    unfolding coalesced_def
  proof (intro allI impI)
    fix a v w
    assume a: "?H a = Some (v, True)" "?H (a + 8 + v) = Some (w, True)"
    then have "a \<noteq> b" "a + 8 + v \<noteq> b" by (auto split: if_splits)
    with a t1(6) show "a \<in> {} \<or> a + 8 + v \<in> {}" unfolding coalesced_def by auto
  qed
  moreover have "same_data H (cells t) m'"
  proof (rule same_data_trans [OF t1(8) same_data_sub [OF m'(3)]])
    fix c v
    assume "H c = Some (v, False)"
    with t1(7) b show "?H c = Some (v, False)" by auto
  qed
  moreover have "\<forall>c v. c \<noteq> b \<longrightarrow> (?H c = Some (v, False) \<longleftrightarrow> H c = Some (v, False))" using t1(7) by simp
  ultimately show ?thesis using that [OF run m'(2), of u] t1(4,5) by simp
qed

section \<open>Allocation\<close>

definition tlsf_ok :: "tlsf_t \<Rightarrow> blocks_t \<Rightarrow> bool" where
  "tlsf_ok t H \<longleftrightarrow> (\<exists>nl L. pool t nl H L {} \<and> coalesced H {})"

text \<open>The used blocks, and the addresses a client may use.\<close>

definition used :: "blocks_t \<Rightarrow> (nat \<times> nat) set" where
  "used H = {(b, u). H b = Some (u, False) \<and> u \<noteq> 0}"

definition payload :: "nat \<Rightarrow> nat \<Rightarrow> nat set" where
  "payload b u = {b + 16..<b + 16 + u}"

lemma payload_disjoint:
  assumes "tiling H" and "H b = Some (u, f)" and "H c = Some (v, g)" and "b \<noteq> c"
  shows "payload b u \<inter> payload c v = {}"
  using outside [OF assms(1,2,3)] assms(4) by (auto simp: payload_def)

text \<open>The size of the block for a request; sizes near the end of the address space wrap around.\<close>

definition adjust :: "nat \<Rightarrow> nat \<Rightarrow> nat" where
  "adjust k n = (if n = 0 then 0 else let r = round_up k n mod 2 ^ 64 in if r < 2 ^ 32 then max r 24 else 0)"

lemma sizes_adr: "block_size_max = adr (2 ^ 32)" "block_size_min = adr 24" "block_header_overhead = adr 8" "sizeof_block_header = adr 32"
  by (simp_all add: block_size_max_def block_size_min_def sizeof_block_header_def block_header_overhead_def FL_INDEX_MAX_def adr_def)

lemma adr_mod: "adr (n mod 2 ^ 64) = adr n"
  by (simp add: adr_def word_unat_eq_iff unat_of_nat)

lemma adjust_request_size_adjust:
  assumes "k < 64" and "n < 2 ^ 64"
  shows "adjust_request_size (adr n) (adr (2 ^ k)) = Some (adr (adjust k n))"
proof (cases "n = 0")
  case True
  then show ?thesis by (simp add: adjust_request_size_def adjust_def adr_def)
next
  case False
  then have n0: "adr n \<noteq> 0" using adr_eq_iff [of n 0] assms by (simp add: adr_def)
  define r where "r = round_up k n mod 2 ^ 64"
  have r: "r < 2 ^ 64" "adr (round_up k n) = adr r" by (simp add: r_def) (simp only: r_def adr_mod)
  have "adr r < adr (2 ^ 32) \<longleftrightarrow> r < 2 ^ 32" using r(1) by (simp add: word_less_nat_alt)
  moreover have "max (adr r) (adr 24) = adr (max r 24)" using r(1) by (auto simp: max_def adr_le_iff)
  ultimately have "adjust_request_size (adr n) (adr (2 ^ k)) = Some (if r < 2 ^ 32 then adr (max r 24) else adr 0)"
    using n0 align_up_round [OF assms(1), of n] r(2) by (simp add: adjust_request_size_def sizes_adr(1,2)) (simp add: adr_def)
  then show ?thesis using False unfolding adjust_def r_def [symmetric] Let_def by (simp split: if_splits)
qed

lemma round_up_8: "8 dvd round_up 3 n"
  using round_up_spec(1) [of 3 n] by simp

lemma adjust_8: "8 dvd adjust 3 n" "adjust 3 n < 2 ^ 32" "adjust 3 n \<noteq> 0 \<Longrightarrow> 24 \<le> adjust 3 n"
proof -
  have "8 dvd round_up 3 n mod 2 ^ 64" using round_up_8 [of n] by (simp add: dvd_mod)
  then show "8 dvd adjust 3 n" by (auto simp: adjust_def Let_def max_def)
  show "adjust 3 n < 2 ^ 32" by (simp add: adjust_def Let_def)
  show "24 \<le> adjust 3 n" if "adjust 3 n \<noteq> 0"
    using that unfolding adjust_def Let_def by (simp split: if_splits)
qed

lemma adjust_large_enough:
  assumes "n \<le> 2 ^ 64 - 8" and "adjust 3 n \<noteq> 0"
  shows "n \<le> adjust 3 n"
proof -
  have "round_up 3 n < 2 ^ 64 \<or> round_up 3 n \<le> 2 ^ 64 - 8"
    using round_up_least [of 3 "2 ^ 64 - 8" n] assms(1) by simp
  then have "round_up 3 n mod 2 ^ 64 = round_up 3 n" by auto
  with assms(2) round_up_spec(2) [of n 3] show ?thesis by (auto simp: adjust_def Let_def split: if_splits)
qed

lemma malloc_ok:
  assumes ok: "tlsf_ok t H" and n: "n < 2 ^ 64"
  obtains (none) "tlsf_malloc t (adr n) = Some (0, t)"
    "\<And>b s. adjust 3 n \<noteq> 0 \<Longrightarrow> H b = Some (s, True) \<Longrightarrow> s < adjust 3 n + adjust 3 n div 32"
  | (some) t' H' b u where "tlsf_malloc t (adr n) = Some (adr (b + 16), t')" "tlsf_ok t' H'" "H' b = Some (u, False)"
    "adjust 3 n \<noteq> 0" "adjust 3 n \<le> u" "u < adjust 3 n + 32" "\<And>v. H b \<noteq> Some (v, False)"
    "\<forall>c v. c \<noteq> b \<longrightarrow> (H' c = Some (v, False) \<longleftrightarrow> H c = Some (v, False))" "same_data H (cells t) (cells t')"
proof -
  obtain nl L where P: "pool t nl H L {}" and C: "coalesced H {}" using ok unfolding tlsf_ok_def by blast
  let ?a = "adjust 3 n"
  have req: "adjust_request_size (adr n) ALIGN_SIZE = Some (adr ?a)"
    using adjust_request_size_adjust [of 3 n] n by (simp add: ALIGN_SIZE_adr)
  note a = adjust_8 [of n]
  show ?thesis
  proof (cases "?a = 0")
    case True
    then have "tlsf_malloc t (adr n) = Some (0, t)"
      using req by (simp add: tlsf_malloc_def block_locate_free_def block_prepare_used_def adr_def)
    with True none show ?thesis by blast
  next
    case False
    show ?thesis
      using P a(1) False a(2)
    proof (cases rule: block_locate_free_ok)
      case none': none
      then have "tlsf_malloc t (adr n) = Some (0, t)"
        using req by (simp add: tlsf_malloc_def block_prepare_used_def)
      with none'(2) none show ?thesis by blast
    next
      case (some t1 L1 b s)
      have C1: "coalesced H {b}" using C unfolding coalesced_def by blast
      obtain t' H' L' u where t': "block_prepare_used t1 (adr b) (adr ?a) = Some (adr (b + 16), t')" "pool t' nl H' L' {}"
        "coalesced H' {}" "H' b = Some (u, False)" "?a \<le> u" "u < ?a + 32"
        "\<forall>c v. c \<noteq> b \<longrightarrow> (H' c = Some (v, False) \<longleftrightarrow> H c = Some (v, False))" "same_data H (cells t1) (cells t')"
        by (rule block_prepare_used_ok [OF some(5,3) C1 next_not_free [OF C some(3)] a(1) a(3) [OF False] some(4)])
      have run: "tlsf_malloc t (adr n) = Some (adr (b + 16), t')" using req some(1) t'(1) by (simp add: tlsf_malloc_def)
      have "tlsf_ok t' H'" using t'(2,3) unfolding tlsf_ok_def by blast
      with run t' some(3) same_data_trans [OF some(6) t'(8)] False show ?thesis using that(2) [of b t' H' u] by simp
    qed
  qed
qed

section \<open>Release\<close>

lemma block_from_ptr_adr: "block_from_ptr (adr (b + 16)) = adr b"
  by (simp add: block_from_ptr_def block_start_offset_def)

lemma free_ok:
  assumes ok: "tlsf_ok t H" and b: "H b = Some (s, False)" "s \<noteq> 0"
  obtains t' H' where "tlsf_free t (adr (b + 16)) = Some t'" "tlsf_ok t' H'"
    "\<forall>c v. H' c = Some (v, False) \<longleftrightarrow> c \<noteq> b \<and> H c = Some (v, False)" "same_data H' (cells t) (cells t')"
proof -
  obtain nl L where P: "pool t nl H L {}" and C: "coalesced H {}" using ok unfolding tlsf_ok_def by blast
  note D = poolD [OF P] and hb = layout_header [OF poolD(3) [OF P] b(1)]
  have p0: "adr (b + 16) \<noteq> 0"
    using block_okD(4) [OF tiling_block [OF D(6) b(1)]] adr_eq_iff [of "b + 16" 0] by (simp add: adr_def)
  let ?H1 = "H(b \<mapsto> (s, True))"
  obtain m1 where m1: "block_mark_as_free (cells t) (adr b) = Some m1" "pool (t\<lparr>cells := m1\<rparr>) nl ?H1 L {b}"
    "same_data (H(b := None)) (cells t) m1"
    by (rule mark_free_ok [OF P b])
  have b1: "?H1 b = Some (s, True)" by simp
  have C1: "coalesced ?H1 {b}" using C unfolding coalesced_def by auto
  obtain t2 H2 L2 p u2 where t2: "block_merge_prev (t\<lparr>cells := m1\<rparr>) (adr b) = Some (adr p, t2)" "pool t2 nl H2 L2 {p}"
    "H2 p = Some (u2, True)" "\<not> pf H2 p" "coalesced H2 {p}" "\<forall>c u. H2 c = Some (u, False) \<longleftrightarrow> ?H1 c = Some (u, False)"
    "same_data ?H1 (cells (t\<lparr>cells := m1\<rparr>)) (cells t2)"
    by (rule merge_prev_ok [OF m1(2) b1 C1])
  obtain t3 H3 L3 u3 where t3: "block_merge_next t2 (adr p) = Some (adr p, t3)" "pool t3 nl H3 L3 {p}" "H3 p = Some (u3, True)"
    "coalesced H3 {}" "\<forall>c u. H3 c = Some (u, False) \<longleftrightarrow> H2 c = Some (u, False)" "same_data H2 (cells t2) (cells t3)"
    by (rule merge_next_ok [OF t2(2,3,4,5)])
  obtain t4 L4 where t4: "block_insert t3 (adr p) = Some t4" "pool t4 nl H3 L4 ({p} - {p})" "same_data H3 (cells t3) (cells t4)"
    by (rule block_insert_ok [OF t3(2,3) singletonI])
  have run: "tlsf_free t (adr (b + 16)) = Some t4"
    using p0 header_exec(3) [OF hb] m1(1) t2(1) t3(1) t4(1)
    by (simp add: tlsf_free_def block_from_ptr_adr tlsf_assert_def)
  have us: "H3 c = Some (v, False) \<longleftrightarrow> c \<noteq> b \<and> H c = Some (v, False)" for c v using t3(5) t2(6) by simp
  have "same_data H3 (cells t) m1" by (rule same_data_sub [OF m1(3)]) (simp add: us)
  moreover have "same_data H3 m1 (cells t2)" by (rule same_data_sub [of ?H1]) (use t2(7) us in auto)
  moreover have "same_data H3 (cells t2) (cells t3)" by (rule same_data_sub [OF t3(6)]) (use t3(5) in blast)
  ultimately have "same_data H3 (cells t) (cells t4)" using t4(3) same_data_trans by blast
  moreover have "tlsf_ok t4 H3" using t4(2) t3(4) unfolding tlsf_ok_def by auto
  ultimately show ?thesis using that [OF run, of H3] us by blast
qed

end
