(* ===== verification/Tlsf_Pools.thy ===== *)
theory Tlsf_Pools
  imports Tlsf_Correct
begin

text \<open>
  Setting up an allocator: \<^verbatim>\<open>tlsf_create\<close> makes the empty control block, \<^verbatim>\<open>tlsf_add_pool\<close> adds a region of
  memory as one free block between two headers.
\<close>

section \<open>Insertion and cells it does not use\<close>

lemma wr64_Some: "wr64 m a x = Some m' \<longleftrightarrow> a \<in> dom m \<and> m' = m(a \<mapsto> x)"
  by (auto simp: wr64_def split: option.splits)

lemma insert_free_block_other:
  assumes run: "insert_free_block t b fl sl = Some t'" and k: "k \<in> dom (cells t)" "k \<noteq> b + 16" "k \<noteq> b + 24"
    and cur: "\<And>row c. arr_at (blocks (ctl t)) fl = Some row \<Longrightarrow> arr_at row sl = Some c \<Longrightarrow> k \<noteq> c + 24"
  shows "insert_free_block (t\<lparr>cells := (cells t)(k \<mapsto> y)\<rparr>) b fl sl = Some (t'\<lparr>cells := (cells t')(k \<mapsto> y)\<rparr>)"
    and "cells t' k = cells t k" and "dom (cells t') = dom (cells t)"
proof -
  from run obtain row c where rc: "arr_at (blocks (ctl t)) fl = Some row" "arr_at row sl = Some c"
    by (auto simp: insert_free_block_def Let_def split: Option.bind_splits)
  let ?m = "cells t" and ?n = "block_null (ctl t)"
  have "\<exists>m1 m2. wr64 ?m (b + 16) c = Some m1 \<and> wr64 m1 (b + 24) ?n = Some m2 \<and> wr64 m2 (c + 24) b = Some (cells t')"
    using run rc by (auto simp: insert_free_block_def Let_def split: Option.bind_splits)
  then obtain m1 m2 where ws: "wr64 ?m (b + 16) c = Some m1" "wr64 m1 (b + 24) ?n = Some m2" "wr64 m2 (c + 24) b = Some (cells t')"
    by blast
  have "dom m1 = dom ?m" "dom m2 = dom ?m" using ws by (auto simp: wr64_Some)
  with ws have cells: "b + 16 \<in> dom ?m" "b + 24 \<in> dom ?m" "c + 24 \<in> dom ?m"
    "cells t' = ?m(b + 16 \<mapsto> c, b + 24 \<mapsto> ?n, c + 24 \<mapsto> b)"
    by (simp_all only: wr64_Some)
  have kc: "k \<noteq> c + 24" using cur rc by blast
  show "cells t' k = cells t k" using cells(4) k kc by simp
  show "dom (cells t') = dom (cells t)" using cells by auto
  have tw: "?m(k \<mapsto> y, b + 16 \<mapsto> c, b + 24 \<mapsto> ?n, c + 24 \<mapsto> b) = (cells t')(k \<mapsto> y)"
    using k kc cells(4) by (auto simp: fun_eq_iff)
  have w: "wr64 (?m(k \<mapsto> y)) (b + 16) c = Some (?m(k \<mapsto> y, b + 16 \<mapsto> c))"
    "wr64 (?m(k \<mapsto> y, b + 16 \<mapsto> c)) (b + 24) ?n = Some (?m(k \<mapsto> y, b + 16 \<mapsto> c, b + 24 \<mapsto> ?n))"
    "wr64 (?m(k \<mapsto> y, b + 16 \<mapsto> c, b + 24 \<mapsto> ?n)) (c + 24) b = Some ((cells t')(k \<mapsto> y))"
    using cells(1,2,3) tw by (simp_all add: wr64_Some)
  have w': "wr64 ?m (b + 16) c = Some (?m(b + 16 \<mapsto> c))"
    "wr64 (?m(b + 16 \<mapsto> c)) (b + 24) ?n = Some (?m(b + 16 \<mapsto> c, b + 24 \<mapsto> ?n))"
    "wr64 (?m(b + 16 \<mapsto> c, b + 24 \<mapsto> ?n)) (c + 24) b = Some (cells t')"
    using cells by (simp_all add: wr64_Some)
  from run show "insert_free_block (t\<lparr>cells := (cells t)(k \<mapsto> y)\<rparr>) b fl sl = Some (t'\<lparr>cells := (cells t')(k \<mapsto> y)\<rparr>)"
    by (cases t') (auto simp: insert_free_block_def Let_def rc w w' split: Option.bind_splits)
qed

section \<open>Adding a pool\<close>

text \<open>Room for one block of \<open>n\<close> bytes at \<open>b\<close> and the header behind it.\<close>

definition room :: "mem_t \<Rightarrow> nat \<Rightarrow> blocks_t \<Rightarrow> nat \<Rightarrow> nat \<Rightarrow> bool" where
  "room m nl H b n \<longleftrightarrow> 8 dvd b \<and> 0 < b \<and> 8 dvd n \<and> 24 \<le> n \<and> n < 2 ^ 32 \<and> b + n + 24 < 2 ^ 64 \<and>
     (\<forall>x. 8 dvd x \<longrightarrow> b + 8 \<le> x \<longrightarrow> x < b + 24 + n \<longrightarrow> adr x \<in> dom m) \<and> (nl + 32 \<le> b \<or> b + 24 + n \<le> nl) \<and>
     (\<forall>a s f. H a = Some (s, f) \<longrightarrow> a + 8 + s \<le> b \<or> b + 16 + n \<le> a)"

lemma roomD:
  assumes "room m nl H b n"
  shows "8 dvd b" "0 < b" "8 dvd n" "24 \<le> n" "n < 2 ^ 32" "b + n + 24 < 2 ^ 64"
    "8 dvd x \<Longrightarrow> b + 8 \<le> x \<Longrightarrow> x < b + 24 + n \<Longrightarrow> adr x \<in> dom m" "nl + 32 \<le> b \<or> b + 24 + n \<le> nl"
    "H a = Some (s, f) \<Longrightarrow> a + 8 + s \<le> b \<or> b + 16 + n \<le> a"
  using assms unfolding room_def by blast+

abbreviation added :: "blocks_t \<Rightarrow> nat \<Rightarrow> nat \<Rightarrow> blocks_t" where
  "added H b n \<equiv> H(b \<mapsto> (n, True), b + 8 + n \<mapsto> (0, False))"

lemma added_cases:
  assumes "added H b n a = Some (s, f)"
  obtains "a = b" "s = n" "f" | "a = b + 8 + n" "s = 0" "\<not> f" | "a \<noteq> b" "a \<noteq> b + 8 + n" "H a = Some (s, f)"
  using assms by (auto split: if_splits)

lemma added_tiling:
  assumes R: "room m nl H b n" and T: "tiling H"
  shows "tiling (added H b n)"
proof -
  note R' = roomD [OF R]
  have new: "b \<notin> dom H" "b + 8 + n \<notin> dom H" using R'(9) by fastforce+
  have ok: "block_ok (added H b n) a s f" if a: "added H b n a = Some (s, f)" for a s f
    using a
  proof (cases rule: added_cases)
    case 1
    have "\<exists>e. added H b n e = Some (0, False) \<and> b + 8 + n \<le> e \<and> e < b + 8 + 2 ^ 32"
      by (rule exI [of _ "b + 8 + n"]) (use R'(5) in simp)
    moreover have "b + 8 + n \<in> dom (added H b n)" by simp
    ultimately show ?thesis using 1 R'(1-6) unfolding block_ok_def by simp
  next
    case 2
    with R'(1-6) show ?thesis by (simp add: block_ok_def)
  next
    case 3
    show ?thesis by (rule block_ok_update [OF tiling_block [OF T 3(3)]]) (use new in \<open>auto simp: dom_def\<close>)
  qed
  have apart: "a + 8 + s \<le> c" if a: "added H b n a = Some (s, f)" and c: "added H b n c = Some (u, g)" and ac: "a < c" for a s f c u g
  proof -
    have cs: "c = b \<or> c = b + 8 + n \<or> H c = Some (u, g)" using c by (auto split: if_splits)
    from a show ?thesis
    proof (cases rule: added_cases)
      case 1
      with cs ac R'(9) [of c u g] show ?thesis by auto
    next
      case 2
      with cs ac R'(9) [of c u g] show ?thesis by auto
    next
      case 3
      with cs ac R'(9) [of a s f] tiling_apart [OF T 3(3) _ ac] show ?thesis by auto
    qed
  qed
  from ok apart show ?thesis unfolding tiling_def by blast
qed

lemma added_pf:
  assumes R: "room m nl H b n" and T: "tiling H"
  shows "pf (added H b n) c = (if c = b + 8 + n then True else pf H c \<and> c \<noteq> b)"
proof -
  note R' = roomD [OF R]
  have new: "b \<notin> dom H" "b + 8 + n \<notin> dom H" using R'(9) by fastforce+
  have ne: "a + 8 + s \<noteq> b" "a + 8 + s \<noteq> b + 8 + n" if a: "H a = Some (s, True)" for a s
  proof -
    have "s \<noteq> 0" using block_okD(5) [OF tiling_block [OF T a]] by simp
    then obtain t g where "H (a + 8 + s) = Some (t, g)" using tiling_next [OF T a] by blast
    then show "a + 8 + s \<noteq> b" "a + 8 + s \<noteq> b + 8 + n" using new by (metis domI)+
  qed
  have "added H b n a = Some (s, True) \<longleftrightarrow> (a = b \<and> s = n) \<or> H a = Some (s, True)" for a s
    using new by (cases "a = b"; cases "a = b + 8 + n") auto
  then have "pf (added H b n) c \<longleftrightarrow> (\<exists>a s. ((a = b \<and> s = n) \<or> H a = Some (s, True)) \<and> a + 8 + s = c)" by (simp only: pf_def)
  then have "pf (added H b n) c \<longleftrightarrow> c = b + 8 + n \<or> pf H c" by (auto simp: pf_def)
  moreover have "c \<noteq> b \<and> c \<noteq> b + 8 + n" if "pf H c" using that ne unfolding pf_def by blast
  ultimately show ?thesis by auto
qed

lemma added_layout:
  assumes R: "room m nl H b n" and L: "layout m H"
    and m': "m' = m(adr (b + 8) \<mapsto> hdr n True False, adr (b + 8 + n) \<mapsto> adr b, adr (b + 16 + n) \<mapsto> hdr 0 False True)"
  shows "layout m' (added H b n)"
proof (rule layoutI)
  note R' = roomD [OF R] and T = layout_tiling [OF L]
  have dom: "dom m' = dom m" using R'(7) [of "b + 8"] R'(7) [of "b + 8 + n"] R'(7) [of "b + 16 + n"] R'(1,3,4) by (auto simp: m')
  show "tiling (added H b n)" by (rule added_tiling [OF R T])
  fix c u h
  assume c: "added H b n c = Some (u, h)"
  note pf = added_pf [OF R T, of c]
  from c show "described m' c u h (pf (added H b n) c) \<and> mapped (dom m') c u"
  proof (cases rule: added_cases)
    case 1
    have "mapped (dom m') b n" unfolding mapped_def dom using R'(7) by simp
    moreover have "adr (b + 8) \<noteq> adr (b + 8 + n)" "adr (b + 8) \<noteq> adr (b + 16 + n)" "adr (b + 8 + n) \<noteq> adr (b + 16 + n)"
      using R'(4,6) by (simp_all add: adr_eq_iff)
    ultimately show ?thesis using 1 pf by (simp add: described_def m')
  next
    case 2
    have "mapped (dom m') (b + 8 + n) 0" unfolding mapped_def dom using R'(7) by simp
    with 2 pf show ?thesis by (simp add: described_def m' ac_simps)
  next
    case 3
    note B = layout_block [OF L 3(3)] and b4 = block_okD [OF layout_block(4) [OF L 3(3)]]
    have far: "x \<noteq> b + 8 \<and> x \<noteq> b + 8 + n \<and> x \<noteq> b + 16 + n" if "c + 8 \<le> x" "x \<le> c + 8 + u" for x
      using R'(9) [OF 3(3)] that by auto
    then have same: "m' (adr x) = m (adr x)" if "c + 8 \<le> x" "x \<le> c + 8 + u" for x
      using that b4(4) R'(6) by (simp add: m' adr_eq_iff)
    have "pf (added H b n) c = pf H c" using pf 3 by simp
    then show ?thesis using B same [of "c + 8"] same [of "c + 8 + u"] by (simp add: described_def dom)
  qed
qed

lemma added_pool:
  assumes P: "pool t nl H L {}" and R: "room (cells t) nl H b n"
    and m': "m' = (cells t)(adr (b + 8) \<mapsto> hdr n True False, adr (b + 8 + n) \<mapsto> adr b, adr (b + 16 + n) \<mapsto> hdr 0 False True)"
  shows "pool (t\<lparr>cells := m'\<rparr>) nl (added H b n) L {b}"
proof -
  note D = poolD [OF P] and R' = roomD [OF R]
  have new: "b \<notin> dom H" "b + 8 + n \<notin> dom H" using R'(9) by fastforce+
  have L': "layout m' (added H b n)" by (rule added_layout [OF R D(3) m'])
  have dom: "dom m' = dom (cells t)"
    using R'(7) [of "b + 8"] R'(7) [of "b + 8 + n"] R'(7) [of "b + 16 + n"] R'(1,3,4) by (auto simp: m')
  have old: "added H b n c = Some (s, True)" if "H c = Some (s, True)" for c s using that new by auto
  have "lists_ok m' nl (added H b n) L"
  proof (rule lists_okI)
    fix c
    assume c: "in_range c"
    show "dseg m' nl (L c) nl"
    proof (rule dseg_frame [OF lists_okD(1) [OF D(4) c]])
      fix x
      assume "x \<in> set (L c)"
      then obtain s where s: "H x = Some (s, True)" using free_listed(1) [OF P c] by blast
      note B = block_okD(4,5,6) [OF tiling_block [OF D(6) s]]
      have "y \<noteq> b + 8 \<and> y \<noteq> b + 8 + n \<and> y \<noteq> b + 16 + n" if "x + 16 \<le> y" "y \<le> x + 24" for y
        using R'(4) R'(9) [OF s] B that by auto
      then have "m' (adr y) = cells t (adr y)" if "x + 16 \<le> y" "y \<le> x + 24" for y
        using B R'(6) that by (simp add: m' adr_eq_iff)
      then show "m' (adr (x + 16)) = cells t (adr (x + 16)) \<and> m' (adr (x + 24)) = cells t (adr (x + 24))" by simp
    qed
    show "distinct (L c)" using lists_okD(2) [OF D(4) c] .
    show "\<exists>s. added H b n a = Some (s, True) \<and> size_class s = c" if "a \<in> set (L c)" for a
      using free_listed(1) [OF P c that] old by blast
  qed
  moreover have "null_ok m' nl (added H b n)"
    using D(5) R'(8) unfolding null_ok_def dom by auto
  moreover have "listing (added H b n) L {b}"
    unfolding listing_def
  proof (intro allI impI)
    fix c s
    assume c: "added H b n c = Some (s, True)"
    show "c \<in> set (L (size_class s)) \<longleftrightarrow> c \<notin> {b}"
    proof (cases "c = b")
      case True
      with c have "s = n" using R'(4) by (auto split: if_splits)
      then have "in_range (size_class s)" using in_range_class R'(5) by simp
      with free_listed(1) [OF P this, of b] new True show ?thesis by auto
    next
      case False
      with c have "H c = Some (s, True)" by (auto split: if_splits)
      with D(2) False show ?thesis unfolding listing_def by blast
    qed
  qed
  ultimately show ?thesis using arenaD(2) [OF D(1)] L' by (simp add: pool_def arena_def)
qed

lemma insert_head:
  assumes P: "pool t nl H L X" and c: "arr_at (blocks (ctl t)) (int i) = Some row" "arr_at row (int j) = Some q" "in_range (i, j)"
  obtains x where "x \<in> nodes nl H" "q = adr x"
proof -
  note D = poolD [OF P] and C = arenaD(2) [OF poolD(1) [OF P]]
  have r: "i < 25" "j < 32" using c(3) by (simp_all add: in_range_def counts)
  have "row = blocks (ctl t) ! i" "q = blocks (ctl t) ! i ! j"
    using c C r by (auto simp: ctl_ok_def arr_at_int)
  then have "q = adr (first nl (L (i, j)))" using C r unfolding ctl_ok_def by blast
  moreover have "first nl (L (i, j)) \<in> nodes nl H"
    using first_in [of nl "L (i, j)"] listed_nodes(1) [OF D(4) c(3)] by (auto simp: nodes_def)
  ultimately show ?thesis using that by blast
qed

lemma block_insert_added:
  assumes P: "pool t nl H L {b}" and b: "H b = Some (n, True)" and e: "H (b + 8 + n) = Some (0, False)"
  obtains t' L' where "block_insert t (adr b) = Some t'" "pool t' nl H L' {}" "same_data H (cells t) (cells t')"
    "\<And>y z. block_insert (t\<lparr>cells := (cells t)(adr (b + 8 + n) \<mapsto> y, adr (b + 16 + n) \<mapsto> z)\<rparr>) (adr b) =
       Some (t'\<lparr>cells := (cells t')(adr (b + 8 + n) \<mapsto> y, adr (b + 16 + n) \<mapsto> z)\<rparr>)"
    "cells t' (adr (b + 8 + n)) = cells t (adr (b + 8 + n))" "cells t' (adr (b + 16 + n)) = cells t (adr (b + 16 + n))"
    "dom (cells t') = dom (cells t)" "cells t' (adr (b + 8)) = cells t (adr (b + 8))"
proof -
  note D = poolD [OF P] and B = block_okD [OF tiling_block [OF poolD(6) [OF P] b]]
  note E = block_okD(4) [OF tiling_block [OF D(6) e]]
  obtain t' L' where t': "block_insert t (adr b) = Some t'" "pool t' nl H L' {}" "same_data H (cells t) (cells t')"
    using block_insert_ok [OF P b, of thesis] by auto
  obtain i j where ij: "size_class n = (i, j)" by fastforce
  have mi: "mapping_insert (adr n) = (int i, int j)" using mapping_insert_class [of n] B(7) ij by (simp add: adr_def)
  have r: "in_range (i, j)" using in_range_class B(7) ij by metis
  have hb: "header (cells t) b n True (pf H b)" by (rule layout_header [OF D(3) b])
  have run: "insert_free_block t (adr b) (int i) (int j) = Some t'"
    using t'(1) header_exec(1) [OF hb] mi by (simp add: block_insert_def)
  have k: "adr x \<in> dom (cells t)" "adr x \<noteq> adr b + 16" "adr x \<noteq> adr b + 24"
    "\<And>row c. arr_at (blocks (ctl t)) (int i) = Some row \<Longrightarrow> arr_at row (int j) = Some c \<Longrightarrow> adr x \<noteq> c + 24"
    if x: "x = b + 8 \<or> x = b + 8 + n \<or> x = b + 16 + n" for x
  proof -
    have "8 dvd b + 8 + n" "8 dvd b + 16 + n" using B(1,2) by auto
    moreover have "8 dvd b + 8" using B(1) by simp
    ultimately show "adr x \<in> dom (cells t)"
      using layout_block(3) [OF D(3) b] layout_block(3) [OF D(3) e] x unfolding mapped_def
      by (elim disjE) (auto simp del: domIff)
    show "adr x \<noteq> adr b + 16" "adr x \<noteq> adr b + 24"
      using x B(4,5,6) E by (auto simp: adr_8 adr_eq_iff)
    fix row c
    assume rc: "arr_at (blocks (ctl t)) (int i) = Some row" "arr_at row (int j) = Some c"
    obtain y where y: "y \<in> nodes nl H" "c = adr y" by (rule insert_head [OF P rc r])
    have "b + 8 \<notin> link_cells (nodes nl H)" "b + 8 + n \<notin> link_cells (nodes nl H)" "b + 8 + n + 8 \<notin> link_cells (nodes nl H)"
      using link_not_header [OF D(6,5) b] link_not_header(1) [OF D(6,5) e] by simp_all
    then have "x \<noteq> y + 24" using x y(1) unfolding link_cells_def by auto
    moreover have "y + 32 \<le> 2 ^ 64" using node_bounds(2) [OF D(6,5) y(1)] .
    moreover have "x < 2 ^ 64" using x B(4) E by auto
    ultimately show "adr x \<noteq> c + 24" using y(2) by (simp add: adr_8 adr_eq_iff)
  qed
  have un: "cells t' (adr x) = cells t (adr x)" and dm: "dom (cells t') = dom (cells t)"
    and up: "insert_free_block (t\<lparr>cells := (cells t)(adr x \<mapsto> y)\<rparr>) (adr b) (int i) (int j) = Some (t'\<lparr>cells := (cells t')(adr x \<mapsto> y)\<rparr>)"
    if x: "x = b + 8 \<or> x = b + 8 + n \<or> x = b + 16 + n" for x y
    by (rule insert_free_block_other [OF run k(1-3) [OF x]], rule k(4) [OF x], assumption+)+
  have other: "insert_free_block (t\<lparr>cells := (cells t)(adr (b + 8 + n) \<mapsto> y, adr (b + 16 + n) \<mapsto> z)\<rparr>) (adr b) (int i) (int j) =
      Some (t'\<lparr>cells := (cells t')(adr (b + 8 + n) \<mapsto> y, adr (b + 16 + n) \<mapsto> z)\<rparr>)" for y z
  proof -
    have x: "b + 16 + n = b + 8 \<or> b + 16 + n = b + 8 + n \<or> b + 16 + n = b + 16 + n" by simp
    have "insert_free_block (t\<lparr>cells := (cells t)(adr (b + 8 + n) \<mapsto> y)\<rparr>) (adr b) (int i) (int j) =
      Some (t'\<lparr>cells := (cells t')(adr (b + 8 + n) \<mapsto> y)\<rparr>)" by (rule up) simp
    from insert_free_block_other(1) [OF this, of "adr (b + 16 + n)" z] k [OF x] show ?thesis by simp
  qed
  have "adr (b + 8 + n) \<noteq> adr (b + 8)" "adr (b + 16 + n) \<noteq> adr (b + 8)" using B(4,5,6) E by (auto simp: adr_eq_iff)
  then have "header ((cells t)(adr (b + 8 + n) \<mapsto> y, adr (b + 16 + n) \<mapsto> z)) b n True (pf H b)" for y z
    using hb by (simp add: header_def)
  from header_exec(1) [OF this] have
    "block_insert (t\<lparr>cells := (cells t)(adr (b + 8 + n) \<mapsto> y, adr (b + 16 + n) \<mapsto> z)\<rparr>) (adr b) =
       Some (t'\<lparr>cells := (cells t')(adr (b + 8 + n) \<mapsto> y, adr (b + 16 + n) \<mapsto> z)\<rparr>)" for y z
    using mi other by (simp add: block_insert_def)
  from that [OF t' this un un dm [of "b + 8"] un] show ?thesis by simp
qed

lemma adr_0: "adr 0 = 0"
  by (simp add: adr_def)

lemma aligned_adr: "n < 2 ^ 64 \<Longrightarrow> adr n mod ALIGN_SIZE = 0 \<longleftrightarrow> 8 dvd n"
  by (simp add: ALIGN_SIZE_adr word_unat_eq_iff unat_mod_distrib dvd_eq_mod_eq_0)

lemma set_header_raw:
  assumes "m (adr (a + 8)) = Some w" and "8 dvd t" and "t < 2 ^ 32"
  shows "do { m \<leftarrow> block_set_size m (adr a) (adr t); m \<leftarrow> block_set_free m (adr a); block_set_prev_used m (adr a) } =
      Some (m(adr (a + 8) \<mapsto> hdr t True False))"
    and "do { m \<leftarrow> block_set_size m (adr a) (adr t); m \<leftarrow> block_set_used m (adr a); block_set_prev_free m (adr a) } =
      Some (m(adr (a + 8) \<mapsto> hdr t False True))"
proof -
  note raw = block_set_size_raw [of m a w t, OF assms(1)]
  have h: "header (m(adr (a + 8) \<mapsto> hdr t f p)) a t f p" for f p using assms by (simp add: header_def)
  show "do { m \<leftarrow> block_set_size m (adr a) (adr t); m \<leftarrow> block_set_free m (adr a); block_set_prev_used m (adr a) } =
      Some (m(adr (a + 8) \<mapsto> hdr t True False))"
    using header_exec(5) [OF h] header_exec(8) [OF h] by (simp add: raw)
  show "do { m \<leftarrow> block_set_size m (adr a) (adr t); m \<leftarrow> block_set_used m (adr a); block_set_prev_free m (adr a) } =
      Some (m(adr (a + 8) \<mapsto> hdr t False True))"
    using header_exec(6) [OF h] header_exec(7) [OF h] by (simp add: raw)
qed

lemma added_coalesced:
  assumes R: "room m nl H b n" and T: "tiling H" and C: "coalesced H {}"
  shows "coalesced (added H b n) {}"
  unfolding coalesced_def
proof (intro allI impI)
  note R' = roomD [OF R]
  fix a s u
  assume a: "added H b n a = Some (s, True)" "added H b n (a + 8 + s) = Some (u, True)"
  have "a + 8 + s \<noteq> b"
  proof
    assume e: "a + 8 + s = b"
    with a(1) R'(4) have "H a = Some (s, True)" by (auto split: if_splits)
    moreover from this have "s \<noteq> 0" using block_okD(5) [OF tiling_block [OF T]] by blast
    ultimately obtain v g where "H b = Some (v, g)" using tiling_next [OF T] e by metis
    with R'(9) [of b v g] show False by auto
  qed
  with a have "H a = Some (s, True)" "H (a + 8 + s) = Some (u, True)" by (auto split: if_splits)
  with C show "a \<in> {} \<or> a + 8 + s \<in> {}" unfolding coalesced_def by blast
qed

lemma add_pool_ok:
  assumes P: "pool t nl H L {}" and C: "coalesced H {}" and R: "room (cells t) nl H b n"
    and bytes: "n = round_down 3 (bytes - 16)" "16 \<le> bytes" "bytes < 2 ^ 64"
  obtains t' L' where "tlsf_add_pool t (adr (b + 8)) (adr bytes) = Some (adr (b + 8), t')" "pool t' nl (added H b n) L' {}"
    "coalesced (added H b n) {}" "same_data H (cells t) (cells t')"
proof -
  note R' = roomD [OF R] and D = poolD [OF P]
  let ?e = "b + 8 + n" and ?m = "cells t"
  let ?m3 = "?m(adr (b + 8) \<mapsto> hdr n True False)"
  define ms where "ms = ?m3(adr ?e \<mapsto> adr b, adr (b + 16 + n) \<mapsto> hdr 0 False True)"
  define t1 where "t1 = t\<lparr>cells := ms\<rparr>"
  have P1: "pool t1 nl (added H b n) L {b}" unfolding t1_def by (rule added_pool [OF P R]) (simp add: ms_def)
  have t1: "cells t1 = ms" "t1\<lparr>cells := m\<rparr> = t\<lparr>cells := m\<rparr>" for m by (simp_all add: t1_def)
  have b1: "added H b n b = Some (n, True)" and e1: "added H b n (b + 8 + n) = Some (0, False)" by simp_all
  obtain t' L' where t': "pool t' nl (added H b n) L' {}" "same_data (added H b n) (cells t1) (cells t')"
    "\<And>y z. block_insert (t1\<lparr>cells := (cells t1)(adr (b + 8 + n) \<mapsto> y, adr (b + 16 + n) \<mapsto> z)\<rparr>) (adr b) =
       Some (t'\<lparr>cells := (cells t')(adr (b + 8 + n) \<mapsto> y, adr (b + 16 + n) \<mapsto> z)\<rparr>)"
    "cells t' (adr (b + 8 + n)) = cells t1 (adr (b + 8 + n))" "cells t' (adr (b + 16 + n)) = cells t1 (adr (b + 16 + n))"
    "dom (cells t') = dom (cells t1)" "cells t' (adr (b + 8)) = cells t1 (adr (b + 8))"
    using block_insert_added [OF P1 b1 e1] by metis
  note t' = t' [unfolded t1]
  have ne: "adr (b + 8) \<noteq> adr ?e" "adr (b + 8) \<noteq> adr (b + 16 + n)" "adr ?e \<noteq> adr (b + 16 + n)"
    using R'(4,6) by (simp_all add: adr_eq_iff)
  have in_dom: "adr (b + 8) \<in> dom ?m" "adr ?e \<in> dom ?m" "adr (b + 16 + n) \<in> dom ?m"
    using R'(7) [of "b + 8"] R'(7) [of ?e] R'(7) [of "b + 16 + n"] R'(1,3,4) by auto
  then obtain w y z where wyz: "?m (adr (b + 8)) = Some w" "?m (adr ?e) = Some y" "?m (adr (b + 16 + n)) = Some z" by blast
  have bk: "ms(adr ?e \<mapsto> y, adr (b + 16 + n) \<mapsto> z) = ?m3"
    using wyz ne by (auto simp: ms_def fun_eq_iff)
  let ?m4 = "(cells t')(adr ?e \<mapsto> y, adr (b + 16 + n) \<mapsto> z)"
  have ins: "block_insert (t\<lparr>cells := ?m3\<rparr>) (adr b) = Some (t'\<lparr>cells := ?m4\<rparr>)" using t'(3) [of y z] bk by simp
  have "header ?m4 b n True False" using t'(7) ne R'(3,5) by (simp add: header_def ms_def)
  from header_exec(10) [OF this] R'(4) have nx: "block_next ?m4 (adr b) = Some (adr ?e)" by simp
  have link: "block_link_next ?m4 (adr b) = Some (adr ?e, ?m4(adr ?e \<mapsto> adr b))"
    using nx by (simp add: block_link_next_def wr64_def)
  have "(?m4(adr ?e \<mapsto> adr b)) (adr (?e + 8)) = Some z" using ne by (simp add: ac_simps)
  from set_header_raw(2) [where a = ?e and m = "?m4(adr ?e \<mapsto> adr b)", OF this, of 0] have sent:
    "do { m \<leftarrow> block_set_size (?m4(adr ?e \<mapsto> adr b)) (adr ?e) 0; m \<leftarrow> block_set_used m (adr ?e); block_set_prev_free m (adr ?e) } =
      Some (?m4(adr ?e \<mapsto> adr b, adr (?e + 8) \<mapsto> hdr 0 False True))"
    by (simp add: adr_0)
  have fin: "?m4(adr ?e \<mapsto> adr b, adr (?e + 8) \<mapsto> hdr 0 False True) = cells t'"
    using ne t'(4,5) by (auto simp: fun_eq_iff ms_def ac_simps)
  have "adr bytes - tlsf_pool_overhead = adr (bytes - 16)"
    using bytes(2) by (simp add: tlsf_pool_overhead_def block_header_overhead_def)
  then have "align_down (adr bytes - tlsf_pool_overhead) ALIGN_SIZE = Some (adr n)"
    using align_down_round [of 3 "bytes - 16"] bytes by (simp add: ALIGN_SIZE_adr)
  moreover have "\<not> adr n < block_size_min" "\<not> block_size_max < adr n"
    using R'(4,5) by (simp_all add: sizes_adr not_less adr_le_iff del: adr_simps)
  moreover have "adr (b + 8) mod ALIGN_SIZE = 0"
    using R'(1,6) by (simp add: aligned_adr)
  moreover have "offset_to_block (adr (b + 8)) (- block_header_overhead) = adr b"
    by (simp add: offset_to_block_def block_header_overhead_def adr_def)
  ultimately have "tlsf_add_pool t (adr (b + 8)) (adr bytes) = Some (adr (b + 8), t')"
    using set_header_raw(1) [of ?m b w n, OF wyz(1) R'(3,5)] ins link sent fin
    by (simp add: tlsf_add_pool_def Let_def flip: Option.bind_assoc)
  moreover have "same_data H ?m (cells t')"
  proof (rule same_data_trans)
    show "same_data H ms (cells t')"
    proof (rule same_data_sub [OF t'(2)])
      fix c u
      assume c: "H c = Some (u, False)"
      with R'(4) R'(9) [OF c] show "added H b n c = Some (u, False)" by auto
    qed
    show "same_data H ?m ms"
      unfolding same_data_def
    proof (intro allI impI)
      fix c u x
      assume c: "H c = Some (u, False)" "c + 16 \<le> x" "x < c + 16 + u"
      then have "x \<noteq> b + 8 \<and> x \<noteq> ?e \<and> x \<noteq> b + 16 + n" using R'(9) [OF c(1)] by auto
      with block_okD(4) [OF tiling_block [OF D(6) c(1)]] c(3) R'(6) show "ms (adr x) = ?m (adr x)"
        by (simp add: ms_def adr_eq_iff)
    qed
  qed
  ultimately show ?thesis using that t'(1) added_coalesced [OF R D(6) C] by blast
qed

section \<open>Creation\<close>

lemma empty_bitmaps:
  "ctl_ok \<lparr>block_null = adr p, fl_bitmap = 0, sl_bitmap = replicate FL_INDEX_COUNT 0,
     blocks = replicate FL_INDEX_COUNT (replicate SL_INDEX_COUNT (adr p))\<rparr> p (\<lambda>c. [])"
  by (simp add: ctl_ok_def counts)

lemma create_ok:
  assumes p: "8 dvd p" "0 < p" "p + 32 \<le> 2 ^ 64"
    and m: "adr p \<in> dom m" "adr (p + 8) \<in> dom m" "adr (p + 16) \<in> dom m" "adr (p + 24) \<in> dom m"
  obtains t where "tlsf_create m (adr p) = Some (Some t)" "pool t p Map.empty (\<lambda>c. []) {}" "dom (cells t) = dom m"
proof -
  let ?c = "\<lparr>block_null = adr p, fl_bitmap = 0, sl_bitmap = replicate FL_INDEX_COUNT 0,
     blocks = replicate FL_INDEX_COUNT (replicate SL_INDEX_COUNT (adr p))\<rparr>"
  let ?m = "m(adr (p + 16) \<mapsto> adr p, adr (p + 24) \<mapsto> adr p)"
  have d: "dom ?m = dom m" using m by auto
  have "p < 2 ^ 64" using p(3) by simp
  with p(1) m have "tlsf_create m (adr p) = Some (Some \<lparr>ctl = ?c, cells = ?m\<rparr>)"
    by (simp add: tlsf_create_def control_construct_def test_ffs_fls_passes aligned_adr wr64_mapped)
  moreover have "layout ?m Map.empty" by (simp add: layout_def tiling_def)
  moreover have "null_ok ?m p Map.empty" using p m unfolding null_ok_def d by simp
  ultimately show ?thesis
    using that [of "\<lparr>ctl = ?c, cells = ?m\<rparr>"] d empty_bitmaps [of p]
    by (simp add: pool_def arena_def lists_ok_def listing_def)
qed

lemma tlsf_size_adr: "tlsf_size = adr 6536"
  by (simp add: tlsf_size_def sizes_adr counts)

lemma create_with_pool_ok:
  assumes p: "8 dvd p" "0 < p" "p + bytes < 2 ^ 64" and n: "n = round_down 3 (bytes - 6552)" "6576 \<le> bytes" "n < 2 ^ 32"
    and m: "\<And>x. 8 dvd x \<Longrightarrow> p \<le> x \<Longrightarrow> x < p + bytes \<Longrightarrow> adr x \<in> dom m"
  obtains t where "tlsf_create_with_pool m (adr p) (adr bytes) = Some t"
    "tlsf_ok t [p + 6528 \<mapsto> (n, True), p + 6536 + n \<mapsto> (0, False)]"
proof -
  have "8 dvd p + 8" "8 dvd p + 16" "8 dvd p + 24" using p(1) by simp_all
  with m [of p] m [of "p + 8"] m [of "p + 16"] m [of "p + 24"] n p
  have m': "adr p \<in> dom m" "adr (p + 8) \<in> dom m" "adr (p + 16) \<in> dom m" "adr (p + 24) \<in> dom m" by simp_all
  have p32: "p + 32 \<le> 2 ^ 64" using p(3) n(2) by simp
  obtain t where t: "tlsf_create m (adr p) = Some (Some t)" "pool t p Map.empty (\<lambda>c. []) {}" "dom (cells t) = dom m"
    by (rule create_ok [OF p(1,2) p32 m'])
  have r: "8 dvd n" "n \<le> bytes - 6552" "24 \<le> n"
    using n by (auto simp: round_down_def)
  have "room (cells t) p Map.empty (p + 6528) n"
    unfolding room_def t(3) using p r n(2,3) m by auto
  moreover have "n = round_down 3 (bytes - 6536 - 16)" using n(1) by simp
  ultimately obtain t' L' where t': "tlsf_add_pool t (adr (p + 6528 + 8)) (adr (bytes - 6536)) = Some (adr (p + 6528 + 8), t')"
    "pool t' p (added Map.empty (p + 6528) n) L' {}" "coalesced (added Map.empty (p + 6528) n) {}"
    using add_pool_ok [OF t(2) _ _ _ _, of "p + 6528" n "bytes - 6536" thesis] n(2) p(3) by (auto simp: coalesced_def)
  have "tlsf_create_with_pool m (adr p) (adr bytes) = Some t'"
    using t(1) t'(1) n(2) by (simp add: tlsf_create_with_pool_def tlsf_size_adr ac_simps)
  moreover have "tlsf_ok t' (added Map.empty (p + 6528) n)" unfolding tlsf_ok_def using t'(2,3) by blast
  ultimately show ?thesis using that by (simp add: ac_simps)
qed

end
