(* ===== verification/Tlsf_Memalign.thy ===== *)
theory Tlsf_Memalign
  imports Tlsf_Correct
begin

text \<open>\<^verbatim>\<open>tlsf_memalign\<close>: the gap before the aligned address is split off as a free block of its own.\<close>

section \<open>The gap\<close>

lemma round_up_8': "3 \<le> k \<Longrightarrow> 8 dvd round_up k n"
  using round_up_spec(1) [of k n] le_imp_power_dvd [of 3 k "2::nat"] dvd_trans [of 8 "2 ^ k"] by simp

lemma aligned_gap_ok:
  assumes p: "8 dvd p" and k: "k < 62"
  obtains g where "aligned_gap (adr p) (adr (2 ^ k)) = Some (adr g)" "8 dvd g" "2 ^ k dvd p + g" "g = 0 \<or> 32 \<le> g"
    "k \<le> 3 \<longrightarrow> g = 0" "g < 32 + 2 ^ k"
proof -
  let ?a = "round_up k p"
  have big: "(2::nat) ^ k \<le> 2 ^ 61" using k by (intro power_increasing) auto
  define g0 where "g0 = ?a - p"
  note R = round_up_spec [where k = k and n = p]
  have a: "?a = p + g0" and g0: "g0 < 2 ^ k" using R by (simp_all add: g0_def)
  have k3: "g0 = 0" if "k \<le> 3"
  proof -
    have "2 ^ k dvd p" using le_imp_power_dvd [OF that, of "2::nat"] p dvd_trans by force
    then show ?thesis by (simp add: g0_def)
  qed
  have ad: "align_ptr (adr n) (adr (2 ^ k)) = Some (adr (round_up k n))" for n using align_ptr_round [of k n] k by simp
  have gz: "adr ?a - adr p = adr g0" by (simp add: a del: adr_simps(1))
  have d8: "8 dvd g0"
  proof (cases "k \<le> 3")
    case False
    with round_up_8' [of k p] p show ?thesis by (simp add: g0_def)
  qed (use k3 in simp)
  have sm: "adr g0 \<noteq> 0 \<longleftrightarrow> g0 \<noteq> 0" "adr g0 < sizeof_block_header \<longleftrightarrow> g0 < 32"
    using adr_eq_iff [of g0 0] adr_le_iff [of 32 g0] g0 big by (auto simp: sizes_adr adr_def not_less [symmetric])
  show ?thesis
  proof (cases "g0 \<noteq> 0 \<and> g0 < 32")
    case False
    then have "aligned_gap (adr p) (adr (2 ^ k)) = Some (adr g0)"
      using gz sm by (auto simp: aligned_gap_def ad Let_def)
    with that [of g0] False d8 k3 R(1) a g0 show ?thesis by auto
  next
    case True
    then have k4: "4 \<le> k" using k3 by (cases "k \<le> 3") auto
    define off where "off = max (32 - g0) (2 ^ k)"
    let ?b = "round_up k (?a + off)"
    note S = round_up_spec [where k = k and n = "?a + off"]
    have offw: "max (adr 32 - adr g0) (adr (2 ^ k)) = adr off"
      using True big by (auto simp: off_def max_def adr_le_iff not_le)
    have b_up: "?b < p + 32 + 2 ^ k"
    proof (cases "off = 2 ^ k")
      case True
      then have "2 ^ k dvd ?a + off" using R(1) by simp
      then have "?b = ?a + off" by simp
      with True a \<open>g0 \<noteq> 0 \<and> g0 < 32\<close> show ?thesis by simp
    next
      case False
      then have "off = 32 - g0" by (simp add: off_def max_def split: if_splits)
      with S(3) a True show ?thesis by simp
    qed
    have b_lo: "p + 32 \<le> ?b" using S(2) a True by (simp add: off_def)
    define g where "g = ?b - p"
    have "adr ?b - adr p = adr g" using b_lo by (simp add: g_def)
    moreover have "adr ?a \<noteq> adr p" using gz sm(1) True by auto
    ultimately have "aligned_gap (adr p) (adr (2 ^ k)) = Some (adr g)"
      using gz sm True offw by (simp add: aligned_gap_def ad Let_def sizes_adr)
    moreover have "8 dvd g" using round_up_8' [of k "?a + off"] p k4 by (simp add: g_def)
    moreover have "2 ^ k dvd p + g" using S(1) b_lo by (simp add: g_def)
    moreover have "32 \<le> g" "g < 32 + 2 ^ k" using b_lo b_up by (auto simp: g_def)
    ultimately show ?thesis using that [of g] k4 by simp
  qed
qed

section \<open>Aligned allocation\<close>

text \<open>The size that \<^verbatim>\<open>tlsf_memalign\<close> looks for.\<close>

definition gap_size :: "nat \<Rightarrow> nat \<Rightarrow> nat" where
  "gap_size k n = (let a = adjust 3 n in if a \<noteq> 0 \<and> 3 < k then adjust k (a + 2 ^ k + 32) else a)"

lemma gap_size_facts:
  assumes k: "k < 62" and n: "gap_size k n \<noteq> 0"
  shows "8 dvd gap_size k n" "gap_size k n < 2 ^ 32" "adjust 3 n \<noteq> 0" "adjust 3 n \<le> gap_size k n"
    "3 < k \<Longrightarrow> adjust 3 n + 2 ^ k + 32 \<le> gap_size k n"
proof -
  note a = adjust_8 [of n]
  let ?m = "adjust 3 n + 2 ^ k + 32"
  show a0: "adjust 3 n \<noteq> 0" using n by (cases "adjust 3 n = 0") (simp_all add: gap_size_def)
  have big: "8 dvd gap_size k n \<and> gap_size k n < 2 ^ 32 \<and> ?m \<le> gap_size k n" if "3 < k"
  proof -
    have "(2::nat) ^ k \<le> 2 ^ 61" using k by (intro power_increasing) auto
    then have m: "?m + 2 ^ k < 2 ^ 64" using a(2) by simp
    note R = round_up_spec [where k = k and n = ?m]
    have r: "round_up k ?m mod 2 ^ 64 = round_up k ?m" using R(3) m by simp
    have g: "gap_size k n = (if round_up k ?m < 2 ^ 32 then max (round_up k ?m) 24 else 0)"
      using that a0 by (simp only: gap_size_def Let_def adjust_def [of k] r) simp
    with n have "round_up k ?m < 2 ^ 32" by (auto split: if_splits)
    with g R(2) round_up_8' [of k ?m] that show ?thesis by (auto simp: max_def)
  qed
  have small: "gap_size k n = adjust 3 n" if "\<not> 3 < k" using that by (simp add: gap_size_def Let_def)
  show "8 dvd gap_size k n" "gap_size k n < 2 ^ 32" "adjust 3 n \<le> gap_size k n" using big small a by (cases "3 < k"; simp)+
  show "?m \<le> gap_size k n" if "3 < k" using big that by blast
qed

lemma memalign_ok:
  assumes ok: "tlsf_ok t H" and n: "n < 2 ^ 64" and k: "k < 62"
  obtains (none) "tlsf_memalign t (adr (2 ^ k)) (adr n) = Some (0, t)"
    "\<And>b s. gap_size k n \<noteq> 0 \<Longrightarrow> H b = Some (s, True) \<Longrightarrow> s < gap_size k n + gap_size k n div 32"
  | (some) t' H' b u where "tlsf_memalign t (adr (2 ^ k)) (adr n) = Some (adr (b + 16), t')" "tlsf_ok t' H'"
    "2 ^ k dvd b + 16" "H' b = Some (u, False)"
    "adjust 3 n \<noteq> 0" "adjust 3 n \<le> u" "u < adjust 3 n + 32" "\<And>v. H b \<noteq> Some (v, False)"
    "\<forall>c v. c \<noteq> b \<longrightarrow> (H' c = Some (v, False) \<longleftrightarrow> H c = Some (v, False))" "same_data H (cells t) (cells t')"
proof -
  obtain nl L where P: "pool t nl H L {}" and C: "coalesced H {}" using ok unfolding tlsf_ok_def by blast
  let ?a = "adjust 3 n" and ?al = "adr (2 ^ k)"
  note a = adjust_8 [of n]
  have pk: "(2::nat) ^ k \<le> 2 ^ 61" using k by (intro power_increasing) auto
  have req: "adjust_request_size (adr n) ALIGN_SIZE = Some (adr ?a)"
    using adjust_request_size_adjust [of 3 n] n by (simp add: ALIGN_SIZE_adr)
  have "adr ?a + ?al + sizeof_block_header = adr (?a + 2 ^ k + 32)" by (simp add: sizes_adr)
  then have req2: "adjust_request_size (adr ?a + ?al + sizeof_block_header) ?al = Some (adr (adjust k (?a + 2 ^ k + 32)))"
    using adjust_request_size_adjust [of k "?a + 2 ^ k + 32"] k pk a(2) by simp
  have a0: "adr ?a \<noteq> 0 \<longleftrightarrow> ?a \<noteq> 0" using adr_eq_iff [of ?a 0] a(2) by (simp add: adr_def)
  have "ALIGN_SIZE < ?al \<longleftrightarrow> 3 < k"
  proof -
    have "ALIGN_SIZE < ?al \<longleftrightarrow> (2::nat) ^ 3 < 2 ^ k" using pk adr_le_iff [of "2 ^ k" 8] by (simp add: ALIGN_SIZE_adr not_le [symmetric])
    then show ?thesis using power_strict_increasing_iff [of "2::nat" 3 k] by simp
  qed
  with a0 have size: "(if adr ?a \<noteq> 0 \<and> ALIGN_SIZE < ?al then adr (adjust k (?a + 2 ^ k + 32)) else adr ?a) = adr (gap_size k n)"
    by (simp add: gap_size_def Let_def)
  have sz: "sizeof_block_header = block_size_min + block_header_overhead"
    by (simp add: block_size_min_def sizeof_block_header_def block_header_overhead_def)
  have run0: "tlsf_memalign t ?al (adr n) = Some (0, t)" if "block_locate_free t (adr (gap_size k n)) = Some (0, t)"
    using req req2 size sz that by (simp add: tlsf_memalign_def tlsf_assert_def Let_def block_prepare_used_def)
  show ?thesis
  proof (cases "gap_size k n = 0")
    case True
    then have "tlsf_memalign t ?al (adr n) = Some (0, t)"
      by (intro run0) (simp add: block_locate_free_def adr_def)
    with True none show ?thesis by blast
  next
    case False
    note G = gap_size_facts [OF k False]
    show ?thesis
      using P G(1) False G(2)
    proof (cases rule: block_locate_free_ok)
      case none': none
      have "tlsf_memalign t ?al (adr n) = Some (0, t)" by (rule run0 [OF none'(1)])
      with none'(2) none show ?thesis by blast
    next
      case (some t1 L1 b s)
      note P1 = some(5) and bs = some(3) and T = poolD(6) [OF some(5)]
      note B = block_okD [OF tiling_block [OF T bs]]
      have b8: "8 dvd b + 16" using B(1) by simp
      obtain g where g: "aligned_gap (adr (b + 16)) ?al = Some (adr g)" "8 dvd g" "2 ^ k dvd b + 16 + g" "g = 0 \<or> 32 \<le> g"
        "k \<le> 3 \<longrightarrow> g = 0" "g < 32 + 2 ^ k"
        by (rule aligned_gap_ok [OF b8 k])
      have gs: "g + ?a \<le> s"
      proof (cases "3 < k")
        case True
        with G(5) some(4) g(6) show ?thesis by simp
      qed (use g(5) G(4) some(4) in simp)
      have gz: "adr g = 0 \<longleftrightarrow> g = 0" using adr_eq_iff [of g 0] gs B(4) by (simp add: adr_def)
      obtain t2 H2 L2 v where t2: "(if adr g \<noteq> 0 then do {
            tlsf_assert (sizeof_block_header \<le> adr g);
            block_trim_free_leading t1 (adr b) (adr g) }
          else Some (adr b, t1)) = Some (adr (b + g), t2)" "pool t2 nl H2 L2 {b + g}" "H2 (b + g) = Some (v, True)"
        "coalesced H2 {b + g}" "\<And>w. H2 (b + g + 8 + v) \<noteq> Some (w, True)" "?a \<le> v"
        "\<forall>c u. H2 c = Some (u, False) \<longleftrightarrow> H c = Some (u, False)" "same_data H (cells t1) (cells t2)"
      proof (cases "g = 0")
        case True
        have "coalesced H {b}" using C unfolding coalesced_def by blast
        with that [of t1 H L1 s] True P1 bs next_not_free [OF C bs] gs adr_def show ?thesis by simp
      next
        case False
        with g(4) have g32: "32 \<le> g" by simp
        have g24: "g + 24 \<le> s" and gg: "g + 32 \<le> s"
        proof -
          have "3 < k" using g(5) False by (cases "3 < k") auto
          then have "24 + g < s" using G(5) some(4) g(6) a(3) [OF G(3)] by simp
          moreover have "8 dvd s - g" using B(2) g(2) by simp
          ultimately show "g + 24 \<le> s" "g + 32 \<le> s" by presburger+
        qed
        obtain t2 H2 L2 where t2: "block_trim_free_leading t1 (adr b) (adr g) = Some (adr (b + g), t2)" "pool t2 nl H2 L2 {b + g}"
          "H2 (b + g) = Some (s - g, True)" "coalesced H2 {b + g}" "\<forall>v. H2 (b + 8 + s) \<noteq> Some (v, True)"
          "\<forall>b u. H2 b = Some (u, False) \<longleftrightarrow> H b = Some (u, False)" "same_data H (cells t1) (cells t2)"
          by (rule trim_leading_ok [OF P1 bs C g(2) g32 g24 gg])
        have "sizeof_block_header \<le> adr g" using g32 gs B(4) by (simp add: sizes_adr adr_le_iff)
        have "b + g + 8 + (s - g) = b + 8 + s" using gs by simp
        then have nx: "H2 (b + g + 8 + (s - g)) \<noteq> Some (w, True)" for w using t2(5) by metis
        show ?thesis
          by (rule that [OF _ t2(2,3,4) nx _ t2(6,7)])
            (use t2(1) gz False gs \<open>sizeof_block_header \<le> adr g\<close> in \<open>simp_all add: tlsf_assert_def\<close>)
      qed
      obtain t' H' L' u where t': "block_prepare_used t2 (adr (b + g)) (adr ?a) = Some (adr (b + g + 16), t')" "pool t' nl H' L' {}"
        "coalesced H' {}" "H' (b + g) = Some (u, False)" "?a \<le> u" "u < ?a + 32"
        "\<forall>c v. c \<noteq> b + g \<longrightarrow> (H' c = Some (v, False) \<longleftrightarrow> H2 c = Some (v, False))" "same_data H2 (cells t2) (cells t')"
        by (rule block_prepare_used_ok [OF t2(2,3,4,5) a(1) a(3) [OF G(3)] t2(6)])
      have run: "tlsf_memalign t ?al (adr n) = Some (adr (b + g + 16), t')"
        using req req2 size sz some(1,2) g(1) t2(1) t'(1)
        by (simp add: tlsf_memalign_def tlsf_assert_def Let_def block_to_ptr_def block_start_offset_def)
      have H: "H' c = Some (x, False) \<longleftrightarrow> H c = Some (x, False)" if "c \<noteq> b + g" for c x
        using t'(7) t2(7) that by blast
      have new: "H (b + g) \<noteq> Some (x, False)" for x
      proof -
        have "H2 (b + g) \<noteq> Some (x, False)" using t2(3) by simp
        then show ?thesis using t2(7) by blast
      qed
      have "same_data H (cells t2) (cells t')" by (rule same_data_sub [OF t'(8)]) (use t2(7) in blast)
      then have sd: "same_data H (cells t) (cells t')" using same_data_trans some(6) t2(8) by blast
      have ok': "tlsf_ok t' H'" using t'(2,3) unfolding tlsf_ok_def by blast
      have al: "2 ^ k dvd b + g + 16" using g(3) by (simp add: ac_simps)
      show ?thesis
        by (rule that(2) [where b = "b + g", OF run ok' al t'(4) G(3) t'(5,6) new _ sd]) (use H in blast)
    qed
  qed
qed

end
