(* ===== verification/Tlsf_Realloc.thy ===== *)
theory Tlsf_Realloc
  imports Tlsf_Correct
begin

text \<open>
  Writing into used blocks, and \<^verbatim>\<open>tlsf_realloc\<close>, which shrinks or grows a block in place or moves its
  contents to a new one.
\<close>

section \<open>Writes of a client\<close>

lemma payload_other:
  assumes T: "tiling H" and b: "H b = Some (u, False)" and c: "H c = Some (s, f)"
  shows "c + 8 \<notin> payload b u" "f \<Longrightarrow> c + 8 + s \<notin> payload b u" "f \<Longrightarrow> c + 16 \<notin> payload b u \<and> c + 24 \<notin> payload b u"
proof -
  have "c + 8 \<notin> payload b u \<and> (f \<longrightarrow> c + 8 + s \<notin> payload b u \<and> c + 16 \<notin> payload b u \<and> c + 24 \<notin> payload b u)"
    using T b c
  proof (cases rule: tiling_cases)
    case 3
    then show ?thesis using block_okD(5,6) [OF tiling_block [OF T c]] by (auto simp: payload_def)
  qed (auto simp: payload_def)
  then show "c + 8 \<notin> payload b u" "f \<Longrightarrow> c + 8 + s \<notin> payload b u" "f \<Longrightarrow> c + 16 \<notin> payload b u \<and> c + 24 \<notin> payload b u" by auto
qed

lemma pool_write:
  assumes P: "pool t nl H L {}" and b: "H b = Some (u, False)" and ag: "agree (cells t) m' (payload b u)"
  shows "pool (t\<lparr>cells := m'\<rparr>) nl H L {}"
proof -
  note D = poolD [OF P]
  note po = payload_other [OF D(6) b]
  have same: "m' (adr x) = cells t (adr x)" if "x \<notin> payload b u" "x < 2 ^ 64" for x
    using agreeD [OF ag that(2,1)] .
  have "layout m' H"
  proof (rule layoutI [OF D(6)])
    fix c s f
    assume c: "H c = Some (s, f)"
    note L = layout_block [OF D(3) c] and B = block_okD [OF layout_block(4) [OF D(3) c]]
    have "m' (adr (c + 8)) = cells t (adr (c + 8))" by (rule same) (use po(1) [OF c] B(4) in auto)
    moreover have "f \<longrightarrow> m' (adr (c + 8 + s)) = cells t (adr (c + 8 + s))" using same [of "c + 8 + s"] po(2) [OF c] B(4) by auto
    ultimately show "described m' c s f (pf H c) \<and> mapped (dom m') c s"
      using L agree_dom [OF ag] by (simp add: described_def)
  qed
  moreover have "lists_ok m' nl H L"
  proof (rule lists_okI)
    fix c
    assume c: "in_range c"
    show "dseg m' nl (L c) nl"
    proof (rule dseg_frame [OF lists_okD(1) [OF D(4) c]])
      fix x
      assume "x \<in> set (L c)"
      then obtain s where s: "H x = Some (s, True)" using free_listed(1) [OF P c] by blast
      note B = block_okD(4,5,6) [OF tiling_block [OF D(6) s]]
      show "m' (adr (x + 16)) = cells t (adr (x + 16)) \<and> m' (adr (x + 24)) = cells t (adr (x + 24))"
        using same [of "x + 16"] same [of "x + 24"] po(3) [OF s] B by simp
    qed
    show "distinct (L c)" using lists_okD(2) [OF D(4) c] .
    show "\<exists>s. H a = Some (s, True) \<and> size_class s = c" if "a \<in> set (L c)" for a
      using free_listed(1) [OF P c that] .
  qed
  moreover have "null_ok m' nl H" by (rule null_ok_update [OF D(5) agree_dom [OF ag]]) (use null_apart [OF D(5)] in blast)
  ultimately show ?thesis using P D(2) arenaD(2) [OF D(1)] by (simp add: pool_def arena_def)
qed

lemma write_ok:
  assumes "tlsf_ok t H" and "H b = Some (u, False)" and "agree (cells t) m' (payload b u)"
  shows "tlsf_ok (t\<lparr>cells := m'\<rparr>) H"
  using assms pool_write unfolding tlsf_ok_def by blast

section \<open>Copying\<close>

text \<open>The byte at an address, in the little endian cells.\<close>

definition byte_at :: "mem_t \<Rightarrow> nat \<Rightarrow> u64 option" where
  "byte_at m x = map_option (\<lambda>w. take_bit 8 (drop_bit (8 * (x mod 8)) w)) (m (adr (x - x mod 8)))"

lemma byte_at_cell:
  assumes "8 dvd d" and "i < 8"
  shows "byte_at m (d + i) = map_option (\<lambda>w. take_bit 8 (drop_bit (8 * i) w)) (m (adr d))"
proof -
  have "(d + i) mod 8 = i" using assms by (metis dvd_eq_mod_eq_0 mod_add_left_eq mod_less add_0)
  then show ?thesis by (simp add: byte_at_def)
qed

lemma masked_byte:
  assumes "i < n" and "n < 8"
  shows "take_bit 8 (drop_bit (8 * i) (take_bit (8 * n) x OR (y AND NOT (Bit_Operations.mask (8 * n))))) =
    (take_bit 8 (drop_bit (8 * i) x) :: u64)"
  using assms by (intro bit_word_eqI) (auto simp: bit_take_bit_iff bit_drop_bit_eq bit_or_iff bit_and_iff bit_not_iff bit_mask_iff)

lemma round_up_3_add: "round_up 3 (k + 8) = round_up 3 k + 8"
proof -
  have "k + 8 + 7 = k + 7 + 8" by simp
  then have "(k + 8 + 7) div 8 = (k + 7) div 8 + 1" using div_add_self2 [of 8 "k + 7"] by simp
  then show ?thesis by (simp add: round_up_def round_down_def del: div_add_self2)
qed

lemma memcpy_cells_ok:
  assumes "8 dvd d" "8 dvd s" and "d + round_up 3 n \<le> 2 ^ 64" "s + round_up 3 n \<le> 2 ^ 64"
    and "d + round_up 3 n \<le> s \<or> s + round_up 3 n \<le> d"
    and "\<And>x. 8 dvd x \<Longrightarrow> d \<le> x \<Longrightarrow> x < d + n \<Longrightarrow> adr x \<in> dom m" and "\<And>x. 8 dvd x \<Longrightarrow> s \<le> x \<Longrightarrow> x < s + n \<Longrightarrow> adr x \<in> dom m"
  shows "\<exists>m'. memcpy_cells m (adr d) (adr s) n = Some m' \<and> agree m m' {d..<d + n} \<and>
    (\<forall>i<n. byte_at m' (d + i) = byte_at m (s + i))"
  using assms
proof (induction n arbitrary: m d s rule: less_induct)
  case (less n)
  note R = round_up_spec [where k = 3 and n = n]
  show ?case
  proof (cases "n = 0")
    case True
    then show ?thesis by (simp add: memcpy_cells.simps)
  next
    case n0: False
    obtain x where x: "m (adr s) = Some x" using less.prems(7) [of s] less.prems(2) n0 by auto
    obtain y where y: "m (adr d) = Some y" using less.prems(6) [of d] less.prems(1) n0 by auto
    have r8: "8 \<le> round_up 3 n" using R(1,2) n0 by (simp add: dvd_imp_le)
    have ds: "d < 2 ^ 64" "s < 2 ^ 64" "d + 8 \<le> s \<or> s + 8 \<le> d" using less.prems(3-5) r8 by auto
    show ?thesis
    proof (cases "8 \<le> n")
      case True
      let ?m = "m(adr d \<mapsto> x)"
      have ru: "round_up 3 n = round_up 3 (n - 8) + 8" using round_up_3_add [of "n - 8"] True by simp
      have dm: "dom ?m = dom m" using y by auto
      have "\<exists>m'. memcpy_cells ?m (adr (d + 8)) (adr (s + 8)) (n - 8) = Some m' \<and> agree ?m m' {d + 8..<d + 8 + (n - 8)} \<and>
          (\<forall>i<n - 8. byte_at m' (d + 8 + i) = byte_at ?m (s + 8 + i))"
      proof (rule less.IH)
        show "adr z \<in> dom ?m" if "8 dvd z" "d + 8 \<le> z" "z < d + 8 + (n - 8)" for z
          using less.prems(6) [OF that(1)] that True unfolding dm by simp
        show "adr z \<in> dom ?m" if "8 dvd z" "s + 8 \<le> z" "z < s + 8 + (n - 8)" for z
          using less.prems(7) [OF that(1)] that True unfolding dm by simp
      qed (use less.prems(1-5) ru n0 True in auto)
      then obtain m' where m': "memcpy_cells ?m (adr (d + 8)) (adr (s + 8)) (n - 8) = Some m'" "agree ?m m' {d + 8..<d + n}"
        "\<And>i. i < n - 8 \<Longrightarrow> byte_at m' (d + 8 + i) = byte_at ?m (s + 8 + i)"
        using True by auto
      have run: "memcpy_cells m (adr d) (adr s) n = Some m'"
        using n0 True x y m'(1) by (simp add: memcpy_cells.simps [of m "adr d" "adr s" n] rd64_def wr64_def)
      have ag: "agree m m' {d..<d + n}"
        unfolding agree_def
      proof (intro conjI allI impI)
        show "dom m' = dom m" using agree_dom [OF m'(2)] dm by simp
        show "m' (adr z) = m (adr z)" if z: "z < 2 ^ 64" "z \<notin> {d..<d + n}" for z
        proof -
          have "z \<noteq> d" "z \<notin> {d + 8..<d + n}" using z(2) True by auto
          with agreeD [OF m'(2) z(1)] z(1) ds(1) show ?thesis by (simp add: adr_eq_iff)
        qed
      qed
      have "byte_at m' (d + i) = byte_at m (s + i)" if i: "i < n" for i
      proof (cases "i < 8")
        case True
        have "m' (adr d) = Some x" using agreeD [OF m'(2) ds(1)] by simp
        with x True less.prems(1,2) show ?thesis by (simp add: byte_at_cell)
      next
        case False
        then have j: "i - 8 < n - 8" "d + 8 + (i - 8) = d + i" "s + 8 + (i - 8) = s + i" using i by auto
        let ?z = "s + i - (s + i) mod 8"
        have "(s + i) mod 8 = i mod 8" using less.prems(2) by (metis dvd_eq_mod_eq_0 mod_add_left_eq add_0)
        moreover have "8 + i mod 8 \<le> i"
        proof -
          have "1 \<le> i div 8" using False by (simp add: div_greater_zero_iff Suc_leI)
          then show ?thesis using mult_div_mod_eq [of 8 i] by linarith
        qed
        ultimately have z: "s + 8 \<le> ?z" "?z < s + n" using i by auto
        then have "?z \<noteq> d" "?z < 2 ^ 64" using less.prems(3-5) R(2) r8 by auto
        then have "byte_at ?m (s + i) = byte_at m (s + i)" using ds(1) by (simp add: byte_at_def adr_eq_iff)
        with m'(3) [OF j(1)] j(2,3) show ?thesis by simp
      qed
      with run ag show ?thesis by blast
    next
      case False
      let ?w = "take_bit (8 * n) x OR (y AND NOT (Bit_Operations.mask (8 * n)))"
      let ?m = "m(adr d \<mapsto> ?w)"
      have run: "memcpy_cells m (adr d) (adr s) n = Some ?m"
        using n0 False x y by (simp add: memcpy_cells.simps [of m "adr d" "adr s" n] rd64_def wr64_def)
      have "agree m ?m {d..<d + n}" using y ds(1) n0 by (auto simp: agree_def adr_eq_iff)
      moreover have "byte_at ?m (d + i) = byte_at m (s + i)" if "i < n" for i
        using that False less.prems(1,2) x masked_byte [OF that, of x y] by (simp add: byte_at_cell)
      ultimately show ?thesis using run by blast
    qed
  qed
qed

text \<open>Bytes of used blocks.\<close>

lemma same_data_bytes:
  assumes "same_data H m m'" and "tiling H" and "H b = Some (u, False)" and "i < u"
  shows "byte_at m' (b + 16 + i) = byte_at m (b + 16 + i)"
proof -
  have "8 dvd b + 16" using block_okD(1) [OF tiling_block [OF assms(2,3)]] by simp
  then have "(b + 16 + i) mod 8 = i mod 8" by (metis dvd_eq_mod_eq_0 mod_add_left_eq add_0)
  then have "b + 16 \<le> b + 16 + i - (b + 16 + i) mod 8" "b + 16 + i - (b + 16 + i) mod 8 < b + 16 + u" using assms(4) by auto
  with assms(1,3) show ?thesis unfolding same_data_def byte_at_def by metis
qed

section \<open>Growing in place\<close>

lemma merge_used_ok:
  assumes P: "pool t nl H L {}" and C: "coalesced H {}" and a: "H a = Some (s, False)" "s \<noteq> 0"
    and n: "H (a + 8 + s) = Some (v, True)"
  obtains t1 m' L' where "block_merge_next t (adr a) = Some (adr a, t1)" "block_mark_as_used (cells t1) (adr a) = Some m'"
    "pool (t1\<lparr>cells := m'\<rparr>) nl (H(a + 8 + s := None, a \<mapsto> (s + 8 + v, False))) L' {}"
    "coalesced (H(a + 8 + s := None, a \<mapsto> (s + 8 + v, False))) {}" "same_data H (cells t) m'"
proof -
  let ?n = "a + 8 + s" and ?H = "H(a + 8 + s := None, a \<mapsto> (s + 8 + v, False))"
  note D = poolD [OF P]
  note ha = layout_header [OF D(3) a(1)] and hn = layout_header [OF D(3) n]
  have n0: "adr ?n \<noteq> 0" using block_okD(4) [OF tiling_block [OF D(6) n]] adr_eq_iff [of ?n 0] by (simp add: adr_def)
  obtain t1 L1 where t1: "block_remove t (adr ?n) = Some t1" "pool t1 nl H L1 (insert ?n {})" "same_data H (cells t) (cells t1)"
    by (rule block_remove_ok [OF P n]) auto
  note D1 = poolD [OF t1(2)]
  obtain m1 m2 where m: "block_absorb (cells t1) (adr a) (adr ?n) = Some m1" "block_mark_as_used m1 (adr a) = Some m2"
    "layout m2 ?H" "agree (cells t1) m2 {a + 8, ?n + 8 + v, ?n + 16 + v}"
    by (rule absorb_used_layout [OF D1(3) a n])
  have run: "block_merge_next t (adr a) = Some (adr a, t1\<lparr>cells := m1\<rparr>)"
    using header_exec(10) [OF ha] header_exec(3) [OF hn] header_exec(2) [OF ha] a(2) n0 t1(1) m(1)
    by (simp add: block_merge_next_def tlsf_assert_def)
  have out: "b + 8 + u \<le> a \<or> ?n + 8 + v \<le> b" if "H b = Some (u, h)" "b \<noteq> a" "b \<noteq> ?n" for b u h
    using outside [OF D(6) a(1) that(1,2)] outside [OF D(6) n that(1,3)] a(2) block_okD(6) [OF tiling_block [OF D(6) a(1)]] by auto
  have Y: "{a + 8, ?n + 8 + v, ?n + 16 + v} \<subseteq> {a + 8..?n + 8 + v + 8}" by auto
  have "pool (t1\<lparr>cells := m2\<rparr>) nl ?H L1 {}"
  proof (rule pool_step [OF t1(2) m(3,4) Y, where Z = "{a, ?n}"])
    show "?H b = H b \<and> (b + 8 + u \<le> a \<or> ?n + 8 + v \<le> b)" if "H b = Some (u, h)" "b \<notin> {a, ?n}" for b u h
      using out [OF that(1)] that(2) by auto
    show "null_ok m2 nl ?H"
      by (rule null_ok_update [OF D1(5) agree_dom [OF m(4)]])
        (use null_apart [OF D(5)] null_apart [OF D(5) a(1)] null_apart [OF D(5) n(1)] in \<open>auto split: if_splits\<close>)
    show "listing ?H L1 {}"
      using D1(2) unfolding listing_def by (auto split: if_splits)
  qed (use a n in auto)
  moreover have "coalesced ?H {}"
    using C unfolding coalesced_def by (auto split: if_splits)
  moreover have "same_data H (cells t1) m2"
    unfolding same_data_def
  proof (intro allI impI)
    fix b u x
    assume b: "H b = Some (u, False)" "b + 16 \<le> x" "x < b + 16 + u"
    then have "x \<noteq> a + 8 \<and> x \<noteq> ?n + 8 + v \<and> x \<noteq> ?n + 16 + v"
      using out [OF b(1)] a(1) n free_class(3) [OF D(6) n] by (cases "b = a"; cases "b = ?n") auto
    then have "x \<notin> {a + 8, ?n + 8 + v, ?n + 16 + v}" by simp
    moreover have "x < 2 ^ 64" using b(3) block_okD(4) [OF tiling_block [OF D(6) b(1)]] by simp
    ultimately show "m2 (adr x) = cells t1 (adr x)" using agreeD [OF m(4)] by blast
  qed
  then have "same_data H (cells t) m2" using t1(3) same_data_trans by blast
  ultimately show ?thesis using that [OF run] m(2) by simp
qed

section \<open>Reallocation\<close>

definition copied :: "mem_t \<Rightarrow> mem_t \<Rightarrow> nat \<Rightarrow> nat \<Rightarrow> nat \<Rightarrow> bool" where
  "copied m m' b b' k \<longleftrightarrow> (\<forall>i<k. byte_at m' (b' + 16 + i) = byte_at m (b + 16 + i))"

lemma copied_trans: "copied m m1 a b k \<Longrightarrow> copied m1 m2 b c k \<Longrightarrow> copied m m2 a c k"
  by (simp add: copied_def)

lemma same_data_copied:
  assumes "same_data H m m'" and "tiling H" and "H b = Some (u, False)" and "k \<le> u"
  shows "copied m m' b b k"
  using same_data_bytes [OF assms(1,2,3)] assms(4) unfolding copied_def by simp

text \<open>The common start of the branches that look at the next block.\<close>

lemma realloc_start:
  assumes P: "pool t nl H L {}" and b: "H b = Some (s, False)" "s \<noteq> 0" and n: "n \<noteq> 0" "n < 2 ^ 64"
  obtains v g where "H (b + 8 + s) = Some (v, g)"
    "tlsf_realloc t (adr (b + 16)) (adr n) =
      (if s < adjust 3 n \<and> (\<not> g \<or> s + v + 8 < adjust 3 n)
       then do {
         (q, t) \<leftarrow> tlsf_malloc t (adr n);
         if q \<noteq> 0 then do {
           m \<leftarrow> memcpy_cells (cells t) q (adr (b + 16)) (min s n);
           t \<leftarrow> tlsf_free (t\<lparr>cells := m\<rparr>) (adr (b + 16));
           Some (q, t) }
         else Some (0, t) }
       else do {
         t \<leftarrow> (if s < adjust 3 n
           then do {
             (_, t) \<leftarrow> block_merge_next t (adr b);
             m \<leftarrow> block_mark_as_used (cells t) (adr b);
             Some (t\<lparr>cells := m\<rparr>) }
           else Some t);
         t \<leftarrow> block_trim_used t (adr b) (adr (adjust 3 n));
         Some (adr (b + 16), t) })"
proof -
  note D = poolD [OF P] and hb = layout_header [OF poolD(3) [OF P] b(1)]
  note B = block_okD [OF tiling_block [OF D(6) b(1)]]
  obtain v g where v: "H (b + 8 + s) = Some (v, g)" using tiling_next [OF D(6) b] by blast
  note V = block_okD [OF tiling_block [OF D(6) v]] and hv = layout_header [OF D(3) v]
  have p0: "adr (b + 16) \<noteq> 0" using B(4) adr_eq_iff [of "b + 16" 0] by (simp add: adr_def)
  have n0: "adr n \<noteq> 0" using n adr_eq_iff [of n 0] by (simp add: adr_def)
  have req: "adjust_request_size (adr n) ALIGN_SIZE = Some (adr (adjust 3 n))"
    using adjust_request_size_adjust [of 3 n] n by (simp add: ALIGN_SIZE_adr)
  have lt: "adr x < adr y \<longleftrightarrow> x < y" if "x < 2 ^ 64" "y < 2 ^ 64" for x y using adr_le_iff [OF that(2,1)] by (simp add: not_le [symmetric])
  have comb: "adr s + adr v + block_header_overhead = adr (s + v + 8)" by (simp add: block_header_overhead_def)
  have a: "adjust 3 n < 2 ^ 64" "s < 2 ^ 64" "s + v + 8 < 2 ^ 64" using adjust_8(2) [of n] B(4) V(7) B(7) by auto
  have mn: "unat (min (adr s) (adr n)) = min s n" using a(2) n(2) by (auto simp: min_def adr_le_iff)
  have "tlsf_realloc t (adr (b + 16)) (adr n) =
      (if s < adjust 3 n \<and> (\<not> g \<or> s + v + 8 < adjust 3 n)
       then do {
         (q, t) \<leftarrow> tlsf_malloc t (adr n);
         if q \<noteq> 0 then do {
           m \<leftarrow> memcpy_cells (cells t) q (adr (b + 16)) (min s n);
           t \<leftarrow> tlsf_free (t\<lparr>cells := m\<rparr>) (adr (b + 16));
           Some (q, t) }
         else Some (0, t) }
       else do {
         t \<leftarrow> (if s < adjust 3 n
           then do {
             (_, t) \<leftarrow> block_merge_next t (adr b);
             m \<leftarrow> block_mark_as_used (cells t) (adr b);
             Some (t\<lparr>cells := m\<rparr>) }
           else Some t);
         t \<leftarrow> block_trim_used t (adr b) (adr (adjust 3 n));
         Some (adr (b + 16), t) })"
    unfolding tlsf_realloc_def
    using p0 n0 req header_exec(10,1,3) [OF hb] header_exec(1,3) [OF hv] b(2) comb mn lt [OF a(2,1)] lt [OF a(3,1)]
    by (simp add: block_from_ptr_adr tlsf_assert_def Let_def del: adr_simps cong: if_cong)
  with that v show ?thesis by blast
qed

lemma realloc_ok:
  assumes ok: "tlsf_ok t H" and b: "H b = Some (s, False)" "s \<noteq> 0" and n: "n \<noteq> 0" "n \<le> 2 ^ 64 - 8" and a0: "adjust 3 n \<noteq> 0"
  obtains (none) "tlsf_realloc t (adr (b + 16)) (adr n) = Some (0, t)"
    "\<And>c v. H c = Some (v, True) \<Longrightarrow> v < adjust 3 n + adjust 3 n div 32"
  | (some) t' H' b' u where "tlsf_realloc t (adr (b + 16)) (adr n) = Some (adr (b' + 16), t')" "tlsf_ok t' H'"
    "H' b' = Some (u, False)" "adjust 3 n \<le> u" "u < adjust 3 n + 32" "b' \<noteq> b \<longrightarrow> (\<forall>v. H b' \<noteq> Some (v, False))"
    "\<forall>c v. c \<noteq> b' \<longrightarrow> (H' c = Some (v, False) \<longleftrightarrow> c \<noteq> b \<and> H c = Some (v, False))"
    "same_data (H(b := None)) (cells t) (cells t')" "copied (cells t) (cells t') b b' (min s n)"
proof -
  obtain nl L where P: "pool t nl H L {}" and C: "coalesced H {}" using ok unfolding tlsf_ok_def by blast
  note D = poolD [OF P]
  note B = block_okD [OF tiling_block [OF D(6) b(1)]]
  let ?a = "adjust 3 n"
  note a = adjust_8(1) [of n] adjust_8(3) [OF a0] adjust_large_enough [OF n(2) a0]
  have n64: "n < 2 ^ 64" using n(2) by simp
  obtain v g where v: "H (b + 8 + s) = Some (v, g)" and run: "tlsf_realloc t (adr (b + 16)) (adr n) =
      (if s < ?a \<and> (\<not> g \<or> s + v + 8 < ?a)
       then do {
         (q, t) \<leftarrow> tlsf_malloc t (adr n);
         if q \<noteq> 0 then do {
           m \<leftarrow> memcpy_cells (cells t) q (adr (b + 16)) (min s n);
           t \<leftarrow> tlsf_free (t\<lparr>cells := m\<rparr>) (adr (b + 16));
           Some (q, t) }
         else Some (0, t) }
       else do {
         t \<leftarrow> (if s < ?a
           then do {
             (_, t) \<leftarrow> block_merge_next t (adr b);
             m \<leftarrow> block_mark_as_used (cells t) (adr b);
             Some (t\<lparr>cells := m\<rparr>) }
           else Some t);
         t \<leftarrow> block_trim_used t (adr b) (adr ?a);
         Some (adr (b + 16), t) })"
    by (rule realloc_start [OF P b n(1) n64])
  consider (keep) "\<not> s < ?a" | (grow) "s < ?a" "g" "\<not> s + v + 8 < ?a" | (move) "s < ?a" "\<not> g \<or> s + v + 8 < ?a" by blast
  then show ?thesis
  proof cases
    case keep
    obtain t' H' L' u where t': "block_trim_used t (adr b) (adr ?a) = Some t'" "pool t' nl H' L' {}" "H' b = Some (u, False)"
      "?a \<le> u" "u < ?a + 32" "coalesced H' {}"
      "\<forall>c v. c \<noteq> b \<longrightarrow> (H' c = Some (v, False) \<longleftrightarrow> H c = Some (v, False))" "same_data H' (cells t) (cells t')"
      by (rule trim_used_ok [OF P b(1) C a(1,2)]) (use keep in auto)
    have r: "tlsf_realloc t (adr (b + 16)) (adr n) = Some (adr (b + 16), t')" using run keep t'(1) by simp
    have ok': "tlsf_ok t' H'" using t'(2,6) unfolding tlsf_ok_def by blast
    have cp: "copied (cells t) (cells t') b b (min s n)"
      by (rule same_data_copied [OF t'(8) poolD(6) [OF t'(2)] t'(3)]) (use a(3) t'(4) in simp)
    have sd: "same_data (H(b := None)) (cells t) (cells t')"
      by (rule same_data_sub [OF t'(8)]) (use t'(7) in \<open>auto split: if_splits\<close>)
    show ?thesis by (rule some [OF r ok' t'(3,4,5) _ _ sd cp]) (use t'(7) in auto)
  next
    case grow
    let ?H = "H(b + 8 + s := None, b \<mapsto> (s + 8 + v, False))"
    obtain t1 m' L1 where t1: "block_merge_next t (adr b) = Some (adr b, t1)" "block_mark_as_used (cells t1) (adr b) = Some m'"
      "pool (t1\<lparr>cells := m'\<rparr>) nl ?H L1 {}" "coalesced ?H {}" "same_data H (cells t) m'"
      by (rule merge_used_ok [OF P C b]) (use v grow(2) in simp)
    have hb: "?H b = Some (s + 8 + v, False)" by simp
    obtain t' H' L' u where t': "block_trim_used (t1\<lparr>cells := m'\<rparr>) (adr b) (adr ?a) = Some t'" "pool t' nl H' L' {}"
      "H' b = Some (u, False)" "?a \<le> u" "u < ?a + 32" "coalesced H' {}"
      "\<forall>c v. c \<noteq> b \<longrightarrow> (H' c = Some (v, False) \<longleftrightarrow> ?H c = Some (v, False))"
      "same_data H' (cells (t1\<lparr>cells := m'\<rparr>)) (cells t')"
      by (rule trim_used_ok [OF t1(3) hb t1(4) a(1,2)]) (use grow in auto)
    have r: "tlsf_realloc t (adr (b + 16)) (adr n) = Some (adr (b + 16), t')" using run grow t1(1,2) t'(1) by simp
    have ok': "tlsf_ok t' H'" using t'(2,6) unfolding tlsf_ok_def by blast
    have us: "H' c = Some (w, False) \<longleftrightarrow> H c = Some (w, False)" if "c \<noteq> b" for c w
      using t'(7) that v grow(2) by auto
    have c1: "copied (cells t) m' b b (min s n)" by (rule same_data_copied [OF t1(5) D(6) b(1)]) simp
    have c2: "copied (cells (t1\<lparr>cells := m'\<rparr>)) (cells t') b b (min s n)"
      by (rule same_data_copied [OF t'(8) poolD(6) [OF t'(2)] t'(3)]) (use a(3) t'(4) in simp)
    have cp: "copied (cells t) (cells t') b b (min s n)" using copied_trans [OF c1] c2 by simp
    have "same_data (H(b := None)) (cells t) m'" by (rule same_data_sub [OF t1(5)]) (auto split: if_splits)
    moreover have "same_data (H(b := None)) m' (cells t')"
      by (rule same_data_sub [of H']) (use t'(8) us in \<open>auto split: if_splits\<close>)
    ultimately have sd: "same_data (H(b := None)) (cells t) (cells t')" using same_data_trans by blast
    show ?thesis by (rule some [OF r ok' t'(3,4,5) _ _ sd cp]) (use us in auto)
  next
    case move
    from ok n64 show ?thesis
    proof (cases rule: malloc_ok)
      case none': none
      have "tlsf_realloc t (adr (b + 16)) (adr n) = Some (0, t)" using run move none'(1) by auto
      with none none'(2) a0 show ?thesis by blast
    next
      case (some t1 H1 q u)
      note new = some
      have qb: "q \<noteq> b" using new(7) b(1) by auto
      have b1: "H1 b = Some (s, False)" using new(8) qb b(1) by simp
      obtain nl1 L1 where P1: "pool t1 nl1 H1 L1 {}" using new(2) unfolding tlsf_ok_def by blast
      note D1 = poolD [OF P1]
      note Q = block_okD [OF tiling_block [OF D1(6) new(3)]]
      let ?k = "min s n"
      have ru: "round_up 3 ?k \<le> u" "round_up 3 ?k \<le> s" "?k \<le> u"
        using round_up_least [of 3 u ?k] round_up_least [of 3 s ?k] Q(2) B(2) a(3) new(5) by auto
      have ap: "q + 8 + u \<le> b \<or> b + 8 + s \<le> q" using outside [OF D1(6) b1 new(3) qb] by blast
      have "\<exists>m1. memcpy_cells (cells t1) (adr (q + 16)) (adr (b + 16)) ?k = Some m1 \<and>
          agree (cells t1) m1 {q + 16..<q + 16 + ?k} \<and> (\<forall>i<?k. byte_at m1 (q + 16 + i) = byte_at (cells t1) (b + 16 + i))"
      proof (rule memcpy_cells_ok)
        show "adr x \<in> dom (cells t1)" if "8 dvd x" "q + 16 \<le> x" "x < q + 16 + ?k" for x
          using layout_block(3) [OF D1(3) new(3)] that ru(3) unfolding mapped_def by auto
        show "adr x \<in> dom (cells t1)" if "8 dvd x" "b + 16 \<le> x" "x < b + 16 + ?k" for x
          using layout_block(3) [OF D1(3) b1] that unfolding mapped_def by auto
        show "q + 16 + round_up 3 ?k \<le> 2 ^ 64" "b + 16 + round_up 3 ?k \<le> 2 ^ 64" using ru Q(4) B(4) by auto
        show "q + 16 + round_up 3 ?k \<le> b + 16 \<or> b + 16 + round_up 3 ?k \<le> q + 16" using ap ru by auto
      qed (use Q(1) B(1) in simp_all)
      then obtain m1 where m1: "memcpy_cells (cells t1) (adr (q + 16)) (adr (b + 16)) ?k = Some m1"
        "agree (cells t1) m1 {q + 16..<q + 16 + ?k}" "copied (cells t1) m1 b q ?k"
        unfolding copied_def by blast
      have ag: "agree (cells t1) m1 (payload q u)" by (rule agree_mono [OF m1(2)]) (use ru(3) in \<open>auto simp: payload_def\<close>)
      have ok1: "tlsf_ok (t1\<lparr>cells := m1\<rparr>) H1" by (rule write_ok [OF new(2,3) ag])
      obtain t' H' where t': "tlsf_free (t1\<lparr>cells := m1\<rparr>) (adr (b + 16)) = Some t'" "tlsf_ok t' H'"
        "\<forall>c v. H' c = Some (v, False) \<longleftrightarrow> c \<noteq> b \<and> H1 c = Some (v, False)" "same_data H' (cells (t1\<lparr>cells := m1\<rparr>)) (cells t')"
        by (rule free_ok [OF ok1 b1 b(2)])
      then have sd': "same_data H' m1 (cells t')" by simp
      have q0: "adr (q + 16) \<noteq> 0" using Q(4) adr_eq_iff [of "q + 16" 0] by (simp add: adr_def)
      have r: "tlsf_realloc t (adr (b + 16)) (adr n) = Some (adr (q + 16), t')" using run move new(1) m1(1) t'(1) q0 by auto
      have q': "H' q = Some (u, False)" using t'(3) qb new(3) by blast
      have us: "H' c = Some (w, False) \<longleftrightarrow> c \<noteq> b \<and> H c = Some (w, False)" if "c \<noteq> q" for c w using t'(3) new(8) that by blast
      have T': "tiling H'" using t'(2) poolD(6) unfolding tlsf_ok_def by blast
      have cp: "copied (cells t) (cells t') b q ?k"
        using copied_trans [OF copied_trans [OF same_data_copied [OF new(9) D(6) b(1)] m1(3)] same_data_copied [OF sd' T' q' ru(3)]] by simp
      have "same_data (H(b := None)) (cells t) (cells t1)" by (rule same_data_sub [OF new(9)]) (auto split: if_splits)
      moreover have "same_data (H(b := None)) (cells t1) m1"
        unfolding same_data_def
      proof (intro allI impI)
        fix c w x
        assume c: "(H(b := None)) c = Some (w, False)" "c + 16 \<le> x" "x < c + 16 + w"
        then have "H c = Some (w, False)" by (auto split: if_splits)
        moreover from this have cq: "c \<noteq> q" using new(7) by auto
        ultimately have cw: "H1 c = Some (w, False)" using new(8) by blast
        have "x \<notin> payload q u" using payload_disjoint [OF D1(6) cw new(3) cq] c(2,3) by (auto simp: payload_def)
        moreover have "x < 2 ^ 64" using block_okD(4) [OF tiling_block [OF D1(6) cw]] c(3) by simp
        ultimately show "m1 (adr x) = cells t1 (adr x)" using agreeD [OF ag] by blast
      qed
      moreover have "same_data (H(b := None)) m1 (cells t')"
      proof (rule same_data_sub [OF sd'])
        fix c w
        assume "(H(b := None)) c = Some (w, False)"
        then have c: "c \<noteq> b" "H c = Some (w, False)" by (auto split: if_splits)
        moreover from c(2) have "c \<noteq> q" using new(7) by auto
        ultimately show "H' c = Some (w, False)" using us by blast
      qed
      ultimately have sd: "same_data (H(b := None)) (cells t) (cells t')" using same_data_trans by blast
      show ?thesis by (rule that(2) [OF r t'(2) q' new(5,6) _ _ sd cp]) (use new(7) us in auto)
    qed
  qed
qed

end
