(* ===== verification/Tlsf_Check.thy ===== *)
theory Tlsf_Check
  imports Tlsf_Correct
begin

text \<open>The integrity checks \<^verbatim>\<open>tlsf_check\<close> and \<^verbatim>\<open>tlsf_check_pool\<close> find nothing wrong with a well-formed allocator.\<close>

lemma insist_True [simp]: "tlsf_insist True status = Some status"
  by (simp add: tlsf_insist_def tlsf_assert_def)

section \<open>The free lists\<close>

lemma check_block_ok:
  assumes P: "pool t nl H L {}" and C: "coalesced H {}" and b: "H b = Some (s, True)" "size_class s = (i, j)"
  shows "check_block (cells t) (adr b) (int i) (int j) status = Some status"
proof -
  note D = poolD [OF P] and F = free_class [OF poolD(6) [OF P] b(1)]
  have s0: "s \<noteq> 0" using F(3) by simp
  obtain v g where n: "H (b + 8 + s) = Some (v, g)" using tiling_next [OF D(6) b(1) s0] by blast
  have g: "\<not> g" using next_not_free [OF C b(1)] n by (cases g) auto
  have np: "\<not> pf H b"
  proof
    assume "pf H b"
    then obtain a u where "H a = Some (u, True)" "a + 8 + u = b" by (auto simp: pf_def)
    with C b(1) show False unfolding coalesced_def by blast
  qed
  note hb = header_exec [OF layout_header [OF D(3) b(1)]] and hn = header_exec [OF layout_header [OF D(3) n]]
  have pn: "pf H (b + 8 + s)" using pf_next [OF D(6) b(1) s0] by simp
  have "block_size_min \<le> adr s" using F(2,3) by (simp add: sizes_adr adr_le_iff)
  moreover have "mapping_insert (adr s) = (int i, int j)" using mapping_insert_class [of s] F(2) b(2) by (simp add: adr_def)
  ultimately show ?thesis
    unfolding check_block_def using hb(1,3,4,10) hn(3,4) s0 g np pn by simp
qed

lemma check_chain_ok:
  assumes "dseg m p xs nl" and "\<And>x st. x \<in> set xs \<Longrightarrow> check_block m (adr x) i j st = Some st \<and> adr x \<noteq> adr nl"
  shows "check_chain m (adr nl) (adr (first nl xs)) i j status = Some status"
  using assms
proof (induction xs arbitrary: p)
  case (Cons x xs)
  have "adr (x + 16) = adr x + 16" by simp
  moreover have "check_chain m (adr nl) (adr (first nl xs)) i j status = Some status"
    by (rule Cons.IH [of x]) (use Cons.prems in auto)
  ultimately show ?case
    using Cons.prems by (simp add: check_chain.simps [of m "adr nl" "adr x"] rd64_def del: adr_simps)
qed (simp add: check_chain.simps)

lemma bitmap_bit: "w AND push_bit i 1 = 0 \<longleftrightarrow> \<not> bit w i" for w :: u32
  by (simp add: and_exp_eq_0_iff_not_bit)

lemma check_list_ok:
  assumes P: "pool t nl H L {}" and C: "coalesced H {}" and r: "i < 25" "j < 32"
  shows "check_list t i j status = Some status"
proof -
  note D = poolD [OF P] and K = arenaD(2) [OF poolD(1) [OF P]]
  have c: "in_range (i, j)" using r by (simp add: in_range_def counts)
  have ct: "block_null (ctl t) = adr nl" "length (sl_bitmap (ctl t)) = 25" "length (blocks (ctl t)) = 25"
    "length (blocks (ctl t) ! i) = 32" "blocks (ctl t) ! i ! j = adr (first nl (L (i, j)))"
    "bit (sl_bitmap (ctl t) ! i) j \<longleftrightarrow> L (i, j) \<noteq> []" "bit (fl_bitmap (ctl t)) i \<longleftrightarrow> sl_bitmap (ctl t) ! i \<noteq> 0"
    using K r by (auto simp: ctl_ok_def)
  have blk: "check_block (cells t) (adr x) (int i) (int j) st = Some st \<and> adr x \<noteq> adr nl" if x: "x \<in> set (L (i, j))" for x st
  proof -
    obtain s where s: "H x = Some (s, True)" "size_class s = (i, j)" using free_listed(1) [OF P c x] by blast
    have "nl + 32 \<le> x \<or> x + 16 + s \<le> nl" using null_apart [OF D(5) s(1)] .
    then have "x \<noteq> nl" by auto
    moreover have "nl < 2 ^ 64" using D(5) by (auto simp: null_ok_def)
    moreover have "x < 2 ^ 64" using block_okD(4) [OF tiling_block [OF D(6) s(1)]] by simp
    ultimately show ?thesis using check_block_ok [OF P C s] by (simp add: adr_eq_iff)
  qed
  have chain: "check_chain (cells t) (adr nl) (adr (first nl (L (i, j)))) (int i) (int j) status = Some status"
    by (rule check_chain_ok [OF lists_okD(1) [OF D(4) c]]) (rule blk)
  have hd: "L (i, j) \<noteq> [] \<Longrightarrow> adr (first nl (L (i, j))) \<noteq> adr nl" using blk [of "hd (L (i, j))"] first_hd by force
  have z: "sl_bitmap (ctl t) ! i = 0 \<Longrightarrow> L (i, j) = []" using ct(6) by auto
  have g: "arr_get (sl_bitmap (ctl t)) i = Some (sl_bitmap (ctl t) ! i)" "arr_get (blocks (ctl t)) i = Some (blocks (ctl t) ! i)"
    "arr_get (blocks (ctl t) ! i) j = Some (blocks (ctl t) ! i ! j)"
    using ct r by (simp_all add: arr_get_def)
  show ?thesis
    using ct chain hd z by (cases "L (i, j) = []"; cases "sl_bitmap (ctl t) ! i = 0") (auto simp: check_list_def g bitmap_bit Let_def simp del: push_bit_of_1)
qed

lemma check_lists_ok:
  assumes "\<And>i j st. (i, j) \<in> set ijs \<Longrightarrow> check_list t i j st = Some st"
  shows "check_lists t ijs status = Some status"
  using assms by (induction ijs) auto

lemma check_ok: "tlsf_ok t H \<Longrightarrow> tlsf_check t = Some 0"
  unfolding tlsf_check_def tlsf_ok_def by (intro check_lists_ok) (auto simp: counts intro: check_list_ok)

section \<open>The pools\<close>

lemma walk_ok:
  assumes L: "layout m H" and b: "H b = Some (s, f)"
  shows "\<exists>st. walk_from m (adr b) (integrity_walker m) \<lparr>prev_status = (if pf H b then 1 else 0), integ_status = 0\<rparr> =
    Some \<lparr>prev_status = st, integ_status = 0\<rparr>"
proof -
  note T = layout_tiling [OF L]
  obtain e where e: "H e = Some (0, False)" "b + 8 + s \<le> e \<or> b = e"
  proof (cases "s = 0")
    case True
    with b block_okD(5) [OF tiling_block [OF T b]] have "H b = Some (0, False)" by (cases f) auto
    with that show ?thesis by blast
  next
    case False
    from tiling_end [OF T b False] that show ?thesis by blast
  qed
  from b e(2) show ?thesis
  proof (induction "e - b" arbitrary: b s f rule: less_induct)
    case less
    note hb = header_exec [OF layout_header [OF L less.prems(1)]]
    have b0: "adr b \<noteq> 0"
      using block_okD(3,4) [OF tiling_block [OF T less.prems(1)]] adr_eq_iff [of b 0] by (simp add: adr_def)
    show ?case
    proof (cases "s = 0")
      case True
      then show ?thesis using hb(2) b0 by (simp add: walk_from.simps [of m "adr b"])
    next
      case False
      obtain v g where n: "H (b + 8 + s) = Some (v, g)" using tiling_next [OF T less.prems(1) False] by blast
      have be: "b + 8 + s \<le> e" using less.prems False e(1) by auto
      have ve: "b + 8 + s + 8 + v \<le> e \<or> b + 8 + s = e"
        using be tiling_apart [OF T n e(1)] by (cases "b + 8 + s = e") auto
      have "e - (b + 8 + s) < e - b" using be by simp
      from less.hyps [OF this n ve] obtain st where
        st: "walk_from m (adr (b + 8 + s)) (integrity_walker m) \<lparr>prev_status = (if pf H (b + 8 + s) then 1 else 0), integ_status = 0\<rparr> =
          Some \<lparr>prev_status = st, integ_status = 0\<rparr>" by blast
      have p: "pf H (b + 8 + s) = f" using pf_next [OF T less.prems(1) False] .
      have "block_from_ptr (block_to_ptr (adr b)) = adr b" by (simp add: block_from_ptr_def block_to_ptr_def del: adr_simps)
      then have w: "integrity_walker m (block_to_ptr (adr b)) (adr s) (\<not> f) \<lparr>prev_status = (if pf H b then 1 else 0), integ_status = 0\<rparr> =
          Some \<lparr>prev_status = (if f then 1 else 0), integ_status = 0\<rparr>"
        using hb(1,3,4) by (simp add: integrity_walker_def Let_def)
      show ?thesis
        unfolding walk_from.simps [of m "adr b"] using b0 hb(1,2,3,10) False w st p by simp
    qed
  qed
qed

lemma check_pool_ok:
  assumes ok: "tlsf_ok t H" and b: "H b = Some (s, f)" "\<not> pf H b"
  shows "tlsf_check_pool (cells t) (adr (b + 8)) = Some 0"
proof -
  from ok have L: "layout (cells t) H" using poolD(3) unfolding tlsf_ok_def by blast
  have "offset_to_block (adr (b + 8)) (- block_header_overhead) = adr b"
    by (simp add: offset_to_block_def block_header_overhead_def adr_def)
  with walk_ok [OF L b(1)] b(2) show ?thesis by (auto simp: tlsf_check_pool_def tlsf_walk_pool_def)
qed

end
