(* ===== verification/Tlsf_Api.thy ===== *)
theory Tlsf_Api
  imports Tlsf_Pools Tlsf_Memalign Tlsf_Realloc Tlsf_Check
begin

text \<open>
  What the interface of \<^verbatim>\<open>tlsf.c\<close> promises, stated for clients: the results of the calls, the sets of used
  blocks before and after, and the contents of the used blocks.
\<close>

section \<open>A concrete allocator\<close>

text \<open>64 KiB at address 4096.\<close>

definition demo_tlsf :: tlsf_t where
  "demo_tlsf = the (tlsf_create_with_pool (\<lambda>a. Some 0) (adr 4096) (adr 65536))"

definition demo_blocks :: blocks_t where
  "demo_blocks = [10624 \<mapsto> (58984, True), 69616 \<mapsto> (0, False)]"

lemma demo_ok:
  "tlsf_create_with_pool (\<lambda>a. Some 0) (adr 4096) (adr 65536) = Some demo_tlsf" "tlsf_ok demo_tlsf demo_blocks"
proof -
  obtain t where t: "tlsf_create_with_pool (\<lambda>a. Some 0) (adr 4096) (adr 65536) = Some t"
    "tlsf_ok t [4096 + 6528 \<mapsto> (58984, True), 4096 + 6536 + 58984 \<mapsto> (0, False)]"
    by (rule create_with_pool_ok [of 4096 65536 58984 "\<lambda>a. Some 0"]) (simp_all add: round_down_def)
  then have "demo_tlsf = t" by (simp add: demo_tlsf_def)
  with t show "tlsf_create_with_pool (\<lambda>a. Some 0) (adr 4096) (adr 65536) = Some demo_tlsf" "tlsf_ok demo_tlsf demo_blocks"
    by (simp_all add: demo_blocks_def)
qed

section \<open>Size classes\<close>



section \<open>Allocation and release\<close>

lemma demo_adjust: "adjust 3 100 = 104"
  by (simp add: adjust_def round_up_def round_down_def)

lemma demo_used: "used demo_blocks = {}"
  by (auto simp: used_def demo_blocks_def split: if_splits)

lemma used_address:
  assumes "tlsf_ok t H" and "(b, u) \<in> used H"
  shows "adr (b + 16) \<noteq> 0"
proof -
  from assms have "tiling H" "H b = Some (u, False)" using poolD(6) unfolding tlsf_ok_def used_def by blast+
  from block_okD(4) [OF tiling_block [OF this]] show ?thesis using adr_eq_iff [of "b + 16" 0] by (simp add: adr_def)
qed

lemma used_new:
  assumes "\<forall>c v. c \<noteq> b \<longrightarrow> (H' c = Some (v, False) \<longleftrightarrow> H c = Some (v, False))" and "H' b = Some (u, False)" and "u \<noteq> 0"
    and "\<And>v. H b \<noteq> Some (v, False)"
  shows "used H' = insert (b, u) (used H)"
proof -
  have "(c, v) \<in> used H' \<longleftrightarrow> (c, v) \<in> insert (b, u) (used H)" for c v
    using assms by (cases "c = b") (auto simp: used_def)
  then show ?thesis by auto
qed

lemma used_apart:
  assumes "tlsf_ok t' H'" and "used H' = insert (b, u) (used H)" and "\<And>v. H b \<noteq> Some (v, False)" and "(c, v) \<in> used H"
  shows "payload b u \<inter> payload c v = {}"
proof -
  from assms(1) have T: "tiling H'" using poolD(6) unfolding tlsf_ok_def by blast
  have "(b, u) \<in> used H'" "(c, v) \<in> used H'" using assms(2,4) by auto
  then have "H' b = Some (u, False)" "H' c = Some (v, False)" by (auto simp: used_def)
  moreover have "b \<noteq> c" using assms(3,4) by (auto simp: used_def)
  ultimately show ?thesis by (rule payload_disjoint [OF T])
qed

lemma demo_malloc:
  obtains t H b u where "tlsf_malloc demo_tlsf (adr 100) = Some (adr (b + 16), t)" "tlsf_ok t H" "used H = {(b, u)}"
proof -
  have "(100::nat) < 2 ^ 64" by simp
  from demo_ok(2) this show ?thesis
  proof (cases rule: malloc_ok)
    case none
    have "demo_blocks 10624 = Some (58984, True)" by (simp add: demo_blocks_def)
    from none(2) [OF _ this] show ?thesis by (simp add: demo_adjust)
  next
    case (some t' H' b u)
    have "used H' = insert (b, u) (used demo_blocks)"
      by (rule used_new [OF some(8,3)]) (use some(4,5,7) in auto)
    with some(1,2) that show ?thesis by (simp add: demo_used)
  qed
qed

text \<open>C22. Allocation: \<^verbatim>\<open>tlsf_malloc\<close> never fails an assertion or touches unmapped memory.  It returns a new
  block, apart from all blocks in use, with at least the adjusted size and less than 32 bytes more; or
  \<open>NULL\<close>, without changes, when the size is 0 or too large or no free block is bigger than the adjusted
  size plus a 32nd.  The contents of the blocks in use are untouched and the allocator stays in order.\<close>

theorem tlsf_malloc_correct:
  assumes "tlsf_ok t H" and "n < 2 ^ 64"
  shows "(\<exists>t' H' b u. tlsf_malloc t (adr n) = Some (adr (b + 16), t') \<and> tlsf_ok t' H' \<and> used H' = insert (b, u) (used H) \<and>
      (\<forall>(c, v)\<in>used H. payload b u \<inter> payload c v = {}) \<and> 0 < adjust 3 n \<and> adjust 3 n \<le> u \<and> u < adjust 3 n + 32 \<and>
      same_data H (cells t) (cells t')) \<or>
    (tlsf_malloc t (adr n) = Some (0, t) \<and>
      (adjust 3 n = 0 \<or> (\<forall>b s. H b = Some (s, True) \<longrightarrow> s < adjust 3 n + adjust 3 n div 32)))"
  using assms
proof (cases rule: malloc_ok)
  case none
  then show ?thesis by blast
next
  case (some t' H' b u)
  have u: "used H' = insert (b, u) (used H)" by (rule used_new [OF some(8,3)]) (use some(4,5,7) in auto)
  have "\<forall>(c, v)\<in>used H. payload b u \<inter> payload c v = {}"
    using used_apart [OF some(2) u some(7)] by blast
  with some u have "tlsf_malloc t (adr n) = Some (adr (b + 16), t') \<and> tlsf_ok t' H' \<and> used H' = insert (b, u) (used H) \<and>
      (\<forall>(c, v)\<in>used H. payload b u \<inter> payload c v = {}) \<and> 0 < adjust 3 n \<and> adjust 3 n \<le> u \<and> u < adjust 3 n + 32 \<and>
      same_data H (cells t) (cells t')" by blast
  then show ?thesis by blast
qed

theorem tlsf_malloc_correct_witness:
  "\<exists>t' H' b u. tlsf_malloc demo_tlsf (adr 100) = Some (adr (b + 16), t') \<and> tlsf_ok t' H' \<and> used H' = {(b, u)} \<and> 104 \<le> u \<and> u < 136"
proof -
  have "demo_blocks 10624 = Some (58984, True)" by (simp add: demo_blocks_def)
  then have "\<not> (\<forall>b s. demo_blocks b = Some (s, True) \<longrightarrow> s < adjust 3 100 + adjust 3 100 div 32)"
    unfolding demo_adjust by (intro notI) (drule spec [of _ 10624], drule spec [of _ 58984], simp)
  then show ?thesis using tlsf_malloc_correct [OF demo_ok(2), of 100] unfolding demo_adjust demo_used by auto
qed

text \<open>C23. Release: \<^verbatim>\<open>tlsf_free\<close> of a block in use, by the address that the allocation returned, always
  succeeds.  Afterwards exactly the other blocks are in use, with their contents, and the allocator is in
  order: the released block is merged with its free neighbours and listed.\<close>

theorem tlsf_free_correct:
  assumes "tlsf_ok t H" and "(b, u) \<in> used H"
  shows "\<exists>t' H'. tlsf_free t (adr (b + 16)) = Some t' \<and> tlsf_ok t' H' \<and> used H' = used H - {(b, u)} \<and>
    same_data H' (cells t) (cells t')"
proof -
  from assms(2) have b: "H b = Some (u, False)" "u \<noteq> 0" by (auto simp: used_def)
  obtain t' H' where "tlsf_free t (adr (b + 16)) = Some t'" "tlsf_ok t' H'"
    "\<forall>c v. H' c = Some (v, False) \<longleftrightarrow> c \<noteq> b \<and> H c = Some (v, False)" "same_data H' (cells t) (cells t')"
    by (rule free_ok [OF assms(1) b])
  moreover from this(3) b have "used H' = used H - {(b, u)}" by (auto simp: used_def)
  ultimately show ?thesis by blast
qed

theorem tlsf_free_correct_witness:
  "\<exists>p t t' H'. tlsf_malloc demo_tlsf (adr 100) = Some (p, t) \<and> p \<noteq> 0 \<and> tlsf_free t p = Some t' \<and> tlsf_ok t' H' \<and> used H' = {}"
proof -
  obtain t H b u where t: "tlsf_malloc demo_tlsf (adr 100) = Some (adr (b + 16), t)" "tlsf_ok t H" "used H = {(b, u)}"
    by (rule demo_malloc)
  then have bu: "(b, u) \<in> used H" by simp
  have "adr (b + 16) \<noteq> 0" using used_address [OF t(2) bu] .
  with t tlsf_free_correct [OF t(2) bu] show ?thesis by auto
qed

section \<open>Aligned allocation\<close>

text \<open>Aligned allocation: for an alignment \<open>2 ^ k\<close>, \<^verbatim>\<open>tlsf_memalign\<close> never fails an assertion.  It
  returns a new block at a multiple of the alignment, apart from all blocks in use and of the right size, or
  \<open>NULL\<close> without changes when no free block is bigger than the adjusted size with room for the gap plus a
  32nd.  The contents of the blocks in use are untouched and the allocator stays in order: a gap before the
  aligned address is a free block of its own.\<close>

theorem tlsf_memalign_correct:
  assumes "tlsf_ok t H" and "n < 2 ^ 64" and "k < 62"
  shows "(\<exists>t' H' b u. tlsf_memalign t (adr (2 ^ k)) (adr n) = Some (adr (b + 16), t') \<and> tlsf_ok t' H' \<and> 2 ^ k dvd b + 16 \<and>
      used H' = insert (b, u) (used H) \<and> (\<forall>(c, v)\<in>used H. payload b u \<inter> payload c v = {}) \<and>
      0 < adjust 3 n \<and> adjust 3 n \<le> u \<and> u < adjust 3 n + 32 \<and> same_data H (cells t) (cells t')) \<or>
    (tlsf_memalign t (adr (2 ^ k)) (adr n) = Some (0, t) \<and>
      (gap_size k n = 0 \<or> (\<forall>b s. H b = Some (s, True) \<longrightarrow> s < gap_size k n + gap_size k n div 32)))"
  using assms
proof (cases rule: memalign_ok)
  case none
  then show ?thesis by blast
next
  case (some t' H' b u)
  have u: "used H' = insert (b, u) (used H)" by (rule used_new [OF some(9,4)]) (use some(5,6,8) in auto)
  have "\<forall>(c, v)\<in>used H. payload b u \<inter> payload c v = {}" using used_apart [OF some(2) u some(8)] by blast
  with some u have "tlsf_memalign t (adr (2 ^ k)) (adr n) = Some (adr (b + 16), t') \<and> tlsf_ok t' H' \<and> 2 ^ k dvd b + 16 \<and>
      used H' = insert (b, u) (used H) \<and> (\<forall>(c, v)\<in>used H. payload b u \<inter> payload c v = {}) \<and>
      0 < adjust 3 n \<and> adjust 3 n \<le> u \<and> u < adjust 3 n + 32 \<and> same_data H (cells t) (cells t')" by blast
  then show ?thesis by blast
qed

theorem tlsf_memalign_correct_witness:
  "\<exists>t' H' b u. tlsf_memalign demo_tlsf (adr (2 ^ 10)) (adr 100) = Some (adr (b + 16), t') \<and> tlsf_ok t' H' \<and> 1024 dvd b + 16 \<and>
    used H' = {(b, u)} \<and> 104 \<le> u \<and> u < 136"
proof -
  have g: "gap_size 10 100 = 2048" by (simp add: gap_size_def demo_adjust) (simp add: adjust_def round_up_def round_down_def)
  have "demo_blocks 10624 = Some (58984, True)" by (simp add: demo_blocks_def)
  then have "\<not> (\<forall>b s. demo_blocks b = Some (s, True) \<longrightarrow> s < gap_size 10 100 + gap_size 10 100 div 32)"
    unfolding g by (intro notI) (drule spec [of _ 10624], drule spec [of _ 58984], simp)
  then show ?thesis
    using tlsf_memalign_correct [OF demo_ok(2), of 100 10] unfolding demo_adjust demo_used g by auto
qed

section \<open>Reallocation\<close>

lemma used_moved:
  assumes "\<forall>c v. c \<noteq> b' \<longrightarrow> (H' c = Some (v, False) \<longleftrightarrow> c \<noteq> b \<and> H c = Some (v, False))" and "H' b' = Some (u, False)" "u \<noteq> 0"
    and "b' \<noteq> b \<longrightarrow> (\<forall>v. H b' \<noteq> Some (v, False))" and "H b = Some (s, False)"
  shows "used H' = insert (b', u) (used H - {(b, s)})"
proof -
  have "(c, v) \<in> used H' \<longleftrightarrow> (c, v) \<in> insert (b', u) (used H - {(b, s)})" for c v
    using assms by (cases "c = b'"; cases "c = b") (auto simp: used_def)
  then show ?thesis by auto
qed

text \<open>C24. Reallocation: for a size that can be adjusted, \<^verbatim>\<open>tlsf_realloc\<close> of a block in use returns a block, the
  same one or a new one, that replaces it: it has the right size, holds the bytes of the old block up to the
  smaller of the old size and the request, and the other blocks in use keep their contents; or it returns
  \<open>NULL\<close>, without changes, when no free block is big enough.\<close>

theorem tlsf_realloc_correct:
  assumes "tlsf_ok t H" and "(b, s) \<in> used H" and "0 < n" and "n \<le> 2 ^ 64 - 8" and "adjust 3 n \<noteq> 0"
  shows "(\<exists>t' H' b' u. tlsf_realloc t (adr (b + 16)) (adr n) = Some (adr (b' + 16), t') \<and> tlsf_ok t' H' \<and>
      used H' = insert (b', u) (used H - {(b, s)}) \<and> adjust 3 n \<le> u \<and> u < adjust 3 n + 32 \<and>
      (\<forall>i<min s n. byte_at (cells t') (b' + 16 + i) = byte_at (cells t) (b + 16 + i)) \<and>
      same_data (H(b := None)) (cells t) (cells t')) \<or>
    (tlsf_realloc t (adr (b + 16)) (adr n) = Some (0, t) \<and>
      (\<forall>c v. H c = Some (v, True) \<longrightarrow> v < adjust 3 n + adjust 3 n div 32))"
proof -
  from assms(2) have b: "H b = Some (s, False)" "s \<noteq> 0" by (auto simp: used_def)
  have n0: "n \<noteq> 0" using assms(3) by simp
  from assms(1) b n0 assms(4,5) show ?thesis
  proof (cases rule: realloc_ok)
    case none
    then show ?thesis by blast
  next
    case (some t' H' b' u)
    have "used H' = insert (b', u) (used H - {(b, s)})"
      by (rule used_moved [OF some(7,3) _ some(6) b(1)]) (use some(4) assms(5) in simp)
    with some show ?thesis unfolding copied_def by blast
  qed
qed

lemma demo_adjust_300: "adjust 3 300 = 304"
  by (simp add: adjust_def round_up_def round_down_def)

lemma demo_run:
  "case tlsf_create_with_pool (\<lambda>a. Some 0) 4096 65536 of Some t \<Rightarrow>
    (case tlsf_malloc t 100 of Some (p, t) \<Rightarrow> (case tlsf_realloc t p 300 of Some (q, t) \<Rightarrow> q \<noteq> 0))"
  by code_simp

theorem tlsf_realloc_correct_witness:
  "\<exists>p t b u t' H'. tlsf_malloc demo_tlsf (adr 100) = Some (p, t) \<and> tlsf_realloc t p (adr 300) = Some (adr (b + 16), t') \<and>
    tlsf_ok t' H' \<and> used H' = {(b, u)} \<and> 304 \<le> u \<and> u < 336"
proof -
  obtain t H b u where t: "tlsf_malloc demo_tlsf (adr 100) = Some (adr (b + 16), t)" "tlsf_ok t H" "used H = {(b, u)}"
    by (rule demo_malloc)
  then have bu: "(b, u) \<in> used H" by simp
  have a: "adjust 3 300 \<noteq> 0" "(0::nat) < 300" "(300::nat) \<le> 2 ^ 64 - 8" by (simp_all add: demo_adjust_300)
  have "tlsf_realloc t (adr (b + 16)) (adr 300) \<noteq> Some (0, t)"
    using demo_run demo_ok(1) t(1) by (auto simp: adr_def)
  with tlsf_realloc_correct [OF t(2) bu a(2,3,1)] show ?thesis
    unfolding demo_adjust_300 t(3) using t(1) by auto
qed

text \<open>Reallocation to a size beyond the largest block does not fail: after an allocation of 100 bytes, a
  request for 2 ^ 32 bytes returns the old address, and the block there now has size 0.\<close>

theorem tlsf_realloc_too_large:
  "case tlsf_create_with_pool (\<lambda>a. Some 0) 4096 65536 of Some t \<Rightarrow>
    (case tlsf_malloc t 100 of Some (p, t) \<Rightarrow>
      (case tlsf_realloc t p 0x100000000 of Some (q, t) \<Rightarrow> q = p \<and> q \<noteq> 0 \<and> tlsf_block_size (cells t) q = Some 0))"
  by code_simp

section \<open>Creation, checks and writes of clients\<close>

text \<open>Creation: on mapped and aligned memory \<^verbatim>\<open>tlsf_create_with_pool\<close> makes an allocator in order with nothing
  in use and all memory behind the control block in one free block, if that is smaller than 4 GiB.\<close>

theorem tlsf_create_correct:
  assumes "8 dvd p" and "0 < p" and "p + bytes < 2 ^ 64" and "6576 \<le> bytes" and "bytes < 2 ^ 32"
    and "\<forall>x. 8 dvd x \<longrightarrow> p \<le> x \<longrightarrow> x < p + bytes \<longrightarrow> adr x \<in> dom m"
  shows "\<exists>t H n. tlsf_create_with_pool m (adr p) (adr bytes) = Some t \<and> tlsf_ok t H \<and> used H = {} \<and>
    H = [p + 6528 \<mapsto> (n, True), p + 6536 + n \<mapsto> (0, False)] \<and> bytes - 6552 < n + 8"
proof -
  let ?n = "round_down 3 (bytes - 6552)"
  have n: "?n < 2 ^ 32" "bytes - 6552 < ?n + 8" using assms(5) unfolding round_down_def by (auto; presburger)+
  obtain t where t: "tlsf_create_with_pool m (adr p) (adr bytes) = Some t"
    "tlsf_ok t [p + 6528 \<mapsto> (?n, True), p + 6536 + ?n \<mapsto> (0, False)]"
    by (rule create_with_pool_ok [where m = m, OF assms(1,2,3) refl assms(4) n(1)]) (use assms(6) in auto)
  have "used [p + 6528 \<mapsto> (?n, True), p + 6536 + ?n \<mapsto> (0, False)] = {}" by (auto simp: used_def split: if_splits)
  with t n(2) show ?thesis by blast
qed

theorem tlsf_create_correct_witness:
  "\<exists>t H. tlsf_create_with_pool (\<lambda>a. Some 0) (adr 4096) (adr 65536) = Some t \<and> tlsf_ok t H \<and> used H = {}"
  using tlsf_create_correct [of 4096 65536 "\<lambda>a. Some 0"] by auto

text \<open>Clients may write: whatever is written into a block in use, the allocator stays in order, and the
  checks \<^verbatim>\<open>tlsf_check\<close> and, for each first block of a pool, \<^verbatim>\<open>tlsf_check_pool\<close> report no errors.\<close>

theorem tlsf_writes_and_checks:
  assumes "tlsf_ok t H" and "(b, u) \<in> used H" and "agree (cells t) m' (payload b u)"
  shows "tlsf_ok (t\<lparr>cells := m'\<rparr>) H \<and> tlsf_check (t\<lparr>cells := m'\<rparr>) = Some 0 \<and>
    (\<forall>c s f. H c = Some (s, f) \<longrightarrow> \<not> pf H c \<longrightarrow> tlsf_check_pool m' (adr (c + 8)) = Some 0)"
proof -
  have "H b = Some (u, False)" using assms(2) by (simp add: used_def)
  from write_ok [OF assms(1) this assms(3)] have "tlsf_ok (t\<lparr>cells := m'\<rparr>) H" .
  with check_ok check_pool_ok [OF this] show ?thesis by auto
qed

theorem tlsf_writes_and_checks_witness:
  "\<exists>p t. tlsf_malloc demo_tlsf (adr 100) = Some (p, t) \<and> p \<noteq> 0 \<and> tlsf_check (t\<lparr>cells := (cells t)(p \<mapsto> 7)\<rparr>) = Some 0"
proof -
  obtain t H b u where t: "tlsf_malloc demo_tlsf (adr 100) = Some (adr (b + 16), t)" "tlsf_ok t H" "used H = {(b, u)}"
    by (rule demo_malloc)
  then have bu: "(b, u) \<in> used H" by simp
  then have H: "H b = Some (u, False)" "u \<noteq> 0" by (auto simp: used_def)
  from t(2) have L: "layout (cells t) H" using poolD(3) unfolding tlsf_ok_def by blast
  note B = block_okD [OF layout_block(4) [OF L H(1)]]
  have "8 dvd b + 16" using B(1) by simp
  then have "adr (b + 16) \<in> dom (cells t)" using layout_block(3) [OF L H(1)] H(2) unfolding mapped_def by auto
  then have "agree (cells t) ((cells t)(adr (b + 16) \<mapsto> 7)) (payload b u)"
    using B(4) H(2) by (auto simp: agree_def payload_def adr_eq_iff)
  from tlsf_writes_and_checks [OF t(2) bu this] t(1) used_address [OF t(2) bu] show ?thesis by blast
qed

end
