(* ===== verification/Heap_Safety.thy ===== *)
theory Heap_Safety
  imports Heap Tlsf_Api
begin

text \<open>
  What \<^verbatim>\<open>heap_alloc\<close> and \<^verbatim>\<open>heap_free\<close> promise on a well-formed heap, and where the heap misbehaves: the mutex
  that stays locked when memory runs out, and the leak report that looks for callstacks in the wrong place.
\<close>

section \<open>Bytes\<close>

lemma round_down_8: "round_down 3 x = x - x mod 8" "8 dvd round_down 3 x" "round_down 3 x \<le> x" "x < round_down 3 x + 8"
  by (simp_all add: round_down_def minus_mod_eq_div_mult [symmetric] less_diff_conv2)

lemma put_byte_ok:
  assumes "adr (round_down 3 x) \<in> dom m" and "x < 2 ^ 64"
  shows "\<exists>m'. put_byte m (adr x) v = Some m' \<and> agree m m' {round_down 3 x}"
proof -
  obtain w where w: "m (adr (round_down 3 x)) = Some w" using assms(1) by blast
  have lt: "round_down 3 x < 2 ^ 64" using round_down_8(3) [of x] assms(2) by simp
  let ?w = "\<lambda>s. (w AND NOT (push_bit s 0xFF)) OR push_bit s (take_bit 8 v)"
  have "put_byte m (adr x) v = Some (m(adr (round_down 3 x) \<mapsto> ?w (8 * unat (take_bit 3 (adr x)))))"
    using w by (simp only: put_byte_def and_not_mask Let_def rd64_def wr64_def) simp
  moreover have "agree m (m(adr (round_down 3 x) \<mapsto> y)) {round_down 3 x}" for y
    using w lt by (auto simp: agree_def adr_eq_iff)
  ultimately show ?thesis by blast
qed

lemma put_bytes_ok:
  assumes "\<And>c. 8 dvd c \<Longrightarrow> lo \<le> c \<Longrightarrow> c < hi \<Longrightarrow> adr c \<in> dom m" and "8 dvd lo" and "lo \<le> x" and "x + length vs \<le> hi" and "hi < 2 ^ 64"
  shows "\<exists>m'. put_bytes m (adr x) vs = Some m' \<and> agree m m' {lo..<hi}"
  using assms(1,3,4)
proof (induction vs arbitrary: m x)
  case Nil
  then show ?case by simp
next
  case (Cons v vs)
  note R = round_down_8 [of x]
  have lo: "lo \<le> round_down 3 x"
  proof -
    obtain i j where ij: "lo = 8 * i" "round_down 3 x = 8 * j" using assms(2) R(2) by (auto elim!: dvdE)
    with Cons.prems(2) R(4) show ?thesis by simp
  qed
  have hi: "round_down 3 x < hi" "x < 2 ^ 64" using R(3) Cons.prems(3) assms(5) by auto
  obtain m1 where m1: "put_byte m (adr x) v = Some m1" "agree m m1 {round_down 3 x}"
    using put_byte_ok [OF Cons.prems(1) [OF R(2) lo hi(1)] hi(2)] by blast
  have "\<exists>m'. put_bytes m1 (adr (x + 1)) vs = Some m' \<and> agree m1 m' {lo..<hi}"
    by (rule Cons.IH) (use Cons.prems agree_dom [OF m1(2)] in auto)
  then obtain m' where m': "put_bytes m1 (adr (x + 1)) vs = Some m'" "agree m1 m' {lo..<hi}" by blast
  have "agree m m' ({round_down 3 x} \<union> {lo..<hi})" by (rule agree_trans [OF m1(2) m'(2)])
  then have "agree m m' {lo..<hi}" by (rule agree_mono) (use lo hi in auto)
  moreover have "adr (x + 1) = adr x + 1" by (simp add: adr_def)
  ultimately show ?case using m1(1) m'(1) by simp
qed

section \<open>Growing\<close>

text \<open>
  What the heap relies on: pages are aligned, lie below the end of the address space and were not mapped
  before.
\<close>

definition valloc_laws :: "os_api \<Rightarrow> bool" where
  "valloc_laws E \<longleftrightarrow> (\<forall>m n. VirtualAlloc E m n \<noteq> 0 \<longrightarrow>
     (let p = unat (VirtualAlloc E m n) in 8 dvd p \<and> p + unat n < 2 ^ 64 \<and> (\<forall>x. p \<le> x \<longrightarrow> x < p + unat n \<longrightarrow> adr x \<notin> dom m)))"

lemma adr_unat: "adr (unat w) = w"
  by (simp add: adr_def)

lemma take_bit_3: "take_bit 3 (adr x) = 0 \<longleftrightarrow> 8 dvd x"
proof -
  have "take_bit 3 (adr x) = adr (take_bit 3 x)"
    by (rule bit_word_eqI) (auto simp: adr_def bit_take_bit_iff bit_of_nat_iff)
  moreover have "take_bit 3 x < 2 ^ 3" by (rule take_bit_nat_less_exp)
  then have "take_bit 3 x < 2 ^ 64" by simp
  ultimately have "take_bit 3 (adr x) = 0 \<longleftrightarrow> take_bit 3 x = 0" using adr_eq_iff [of "take_bit 3 x" 0] by (simp add: adr_def)
  then show ?thesis by (simp add: take_bit_eq_mod dvd_eq_mod_eq_0)
qed

lemma commit_pages_ok:
  assumes fresh: "\<forall>x. p \<le> x \<longrightarrow> x < p + n \<longrightarrow> adr x \<notin> dom m" and p: "p + n < 2 ^ 64"
  defines "m' \<equiv> commit_pages m (adr p) (adr n)"
  shows "8 dvd x \<Longrightarrow> p \<le> x \<Longrightarrow> x < p + n \<Longrightarrow> adr x \<in> dom m'" and "m \<subseteq>\<^sub>m m'" and "m (adr x) \<noteq> None \<Longrightarrow> m' (adr x) = m (adr x)"
proof -
  have le: "adr p \<le> adr x \<and> adr x < adr p + adr n \<longleftrightarrow> p \<le> x \<and> x < p + n" if "x < 2 ^ 64" for x
    using adr_le_iff [of p x] adr_le_iff [of "p + n" x] p that by (auto simp: not_le [symmetric])
  show "8 dvd x \<Longrightarrow> p \<le> x \<Longrightarrow> x < p + n \<Longrightarrow> adr x \<in> dom m'"
    using le [of x] p take_bit_3 [of x] by (simp add: m'_def commit_pages_def domIff)
  have same: "m' a = m a" if a: "a \<in> dom m" for a
  proof -
    have "\<not> (p \<le> unat a \<and> unat a < p + n)" using fresh a by (metis adr_unat)
    moreover have "unat a < 2 ^ 64" using unsigned_less [of a] by simp
    ultimately show ?thesis using le [of "unat a"] by (auto simp: m'_def commit_pages_def adr_unat)
  qed
  then show "m \<subseteq>\<^sub>m m'" by (simp add: map_le_def)
  show "m (adr x) \<noteq> None \<Longrightarrow> m' (adr x) = m (adr x)" using same by blast
qed

lemma map_leD: "m \<subseteq>\<^sub>m m' \<Longrightarrow> m a = Some v \<Longrightarrow> m' a = Some v"
  by (metis domI map_le_def)

lemma dseg_map_le: "dseg m p xs q \<Longrightarrow> m \<subseteq>\<^sub>m m' \<Longrightarrow> dseg m' p xs q"
  by (induction xs arbitrary: p) (auto intro: map_leD)

lemma pool_map_le:
  assumes P: "pool t nl H L {}" and le: "cells t \<subseteq>\<^sub>m m'"
  shows "pool (t\<lparr>cells := m'\<rparr>) nl H L {}"
proof -
  note D = poolD [OF P]
  have some: "cells t a = Some v \<Longrightarrow> m' a = Some v" for a v using map_leD [OF le] .
  have dm: "dom (cells t) \<subseteq> dom m'" using le by (rule map_le_implies_dom_le)
  have "layout m' H"
  proof (rule layoutI [OF D(6)])
    fix b s f
    assume "H b = Some (s, f)"
    from layout_block [OF D(3) this] show "described m' b s f (pf H b) \<and> mapped (dom m') b s"
      using some dm by (auto simp: described_def mapped_def)
  qed
  moreover have "lists_ok m' nl H L"
    by (rule lists_okI) (use lists_okD [OF D(4)] dseg_map_le [OF _ le] in blast)+
  moreover have "null_ok m' nl H" using D(5) dm unfolding null_ok_def by blast
  ultimately show ?thesis using D(2) arenaD(2) [OF D(1)] by (simp add: pool_def arena_def)
qed

lemma grow_ok:
  assumes ok: "tlsf_ok (heap_tlsf h) H" and E: "valloc_laws E" and g: "24 \<le> max grow (2 * sz)" "max grow (2 * sz) < 2 ^ 32"
    and hg: "grow_increment h = adr grow"
  obtains (oom) "heap_grow E h (adr sz) = Some (False, h)"
    "VirtualAlloc E (cells (heap_tlsf h)) (adr (max grow (2 * sz) + 32)) = 0"
  | (grown) t' b arenas where "heap_grow E h (adr sz) = Some (True, h\<lparr>heap_tlsf := t', heap_arenas := arenas\<rparr>)"
    "tlsf_ok t' (added H b (round_down 3 (max grow (2 * sz))))" "H b = None" "H (b + 8 + round_down 3 (max grow (2 * sz))) = None"
    "same_data H (cells (heap_tlsf h)) (cells t')"
proof -
  let ?mx = "max grow (2 * sz)" and ?t = "heap_tlsf h"
  let ?m = "cells ?t" and ?n = "round_down 3 (max grow (2 * sz))"
  obtain nl L where P: "pool ?t nl H L {}" and C: "coalesced H {}" using ok unfolding tlsf_ok_def by blast
  note D = poolD [OF P]
  let ?p = "VirtualAlloc E ?m (adr (?mx + 32))"
  have mx: "max (adr grow) (adr sz * 2) = adr ?mx"
  proof -
    have "grow < 2 ^ 64" "2 * sz < 2 ^ 64" using g(2) by auto
    moreover have "adr sz * 2 = adr (2 * sz)" by (simp add: adr_def)
    ultimately show ?thesis by (auto simp: max_def adr_le_iff)
  qed
  have sizes: "adr ?mx + sizeof_arena = adr (?mx + 16)" "adr (?mx + 16) + tlsf_pool_overhead = adr (?mx + 32)"
    by (simp_all add: sizeof_arena_def tlsf_pool_overhead_def block_header_overhead_def add.commute)
  show ?thesis
  proof (cases "?p = 0")
    case True
    then have "heap_grow E h (adr sz) = Some (False, h)" by (simp add: heap_grow_def hg mx sizes Let_def)
    with True oom show ?thesis by blast
  next
    case False
    define p where "p = unat ?p"
    have pa: "?p = adr p" by (simp add: p_def adr_unat)
    have "unat (adr (?mx + 32)) = ?mx + 32" using g(2) by simp
    then have p: "8 dvd p" "p + (?mx + 32) < 2 ^ 64" "\<forall>x. p \<le> x \<longrightarrow> x < p + (?mx + 32) \<longrightarrow> adr x \<notin> dom ?m"
      using E False unfolding valloc_laws_def Let_def p_def by metis+
    define m1 where "m1 = commit_pages ?m (adr p) (adr (?mx + 32))"
    note K = commit_pages_ok [OF p(3,2), folded m1_def]
    define t1 where "t1 = ?t\<lparr>cells := m1\<rparr>"
    have P1: "pool t1 nl H L {}" unfolding t1_def by (rule pool_map_le [OF P K(2)])
    have rd: "?n \<le> ?mx" "?mx < ?n + 8" "8 dvd ?n" using round_down_8 [of ?mx] by auto
    have n24: "24 \<le> ?n"
    proof -
      obtain i where i: "?n = 8 * i" using rd(3) by (auto elim: dvdE)
      with rd(2) g(1) have "2 < i" by linarith
      with i show ?thesis by simp
    qed
    let ?b = "p + 8"
    have away: "y < p \<or> p + (?mx + 32) \<le> y" if "adr y \<in> dom ?m" for y using p(3) that not_le by blast
    have R: "room (cells t1) nl H ?b ?n"
      unfolding room_def
    proof (intro conjI allI impI)
      show "8 dvd ?b" "0 < ?b" "8 dvd ?n" "24 \<le> ?n" "?n < 2 ^ 32" "?b + ?n + 24 < 2 ^ 64"
        using p(1,2) rd n24 g(2) by auto
      show "adr x \<in> dom (cells t1)" if "8 dvd x" "?b + 8 \<le> x" "x < ?b + 24 + ?n" for x
        using K(1) [OF that(1)] that(2,3) rd(1) by (simp add: t1_def)
      have nl: "adr nl \<in> dom ?m" "adr (nl + 8) \<in> dom ?m" "adr (nl + 16) \<in> dom ?m" "adr (nl + 24) \<in> dom ?m"
        using D(5) unfolding null_ok_def by blast+
      show "nl + 32 \<le> ?b \<or> ?b + 24 + ?n \<le> nl" using away [OF nl(1)] away [OF nl(2)] away [OF nl(3)] away [OF nl(4)] rd(1) by linarith
      fix a s f
      assume a: "H a = Some (s, f)"
      note B = block_okD(1,2) [OF layout_block(4) [OF D(3) a]]
      have cells: "adr x \<in> dom ?m" if "8 dvd x" "a + 8 \<le> x" "x < a + 16 + s" for x
        using layout_block(3) [OF D(3) a] that unfolding mapped_def by blast
      have a8: "adr (a + 8) \<in> dom ?m" by (rule cells) (use B in auto)
      show "a + 8 + s \<le> ?b \<or> ?b + 16 + ?n \<le> a"
      proof (rule ccontr)
        assume c: "\<not> ?thesis"
        with away [OF a8] rd(1) have lo: "a + 8 < p" "p < a + s" by linarith+
        then have "adr p \<in> dom ?m" using cells [OF p(1)] by simp
        with away [of p] g(1) show False by simp
      qed
    qed
    have bt: "?n = round_down 3 (?mx + 16 - 16)" "16 \<le> ?mx + 16" "?mx + 16 < 2 ^ 64" using g(2) by auto
    obtain t' L' where t': "tlsf_add_pool t1 (adr (?b + 8)) (adr (?mx + 16)) = Some (adr (?b + 8), t')" "pool t' nl (added H ?b ?n) L' {}"
      "coalesced (added H ?b ?n) {}" "same_data H (cells t1) (cells t')"
      by (rule add_pool_ok [OF P1 C R bt])
    have "adr p + sizeof_arena = adr (?b + 8)" by (simp add: sizeof_arena_def ac_simps)
    with False t'(1) have run: "heap_grow E h (adr sz) = Some (True, h\<lparr>heap_tlsf := t',
        heap_arenas := \<lparr>arena_address = adr p, arena_pool = adr (?b + 8)\<rparr> # heap_arenas h\<rparr>)"
      by (simp add: heap_grow_def hg mx sizes Let_def pa t1_def m1_def del: adr_simps)
    have fr: "H c = None" if "c = ?b \<or> c = ?b + 8 + ?n" for c
    proof (rule ccontr)
      assume "H c \<noteq> None"
      then obtain s f where "H c = Some (s, f)" by auto
      from roomD(9) [OF R this] that show False by auto
    qed
    have "same_data H ?m (cells t1)"
      unfolding same_data_def
    proof (intro allI impI)
      fix c u x
      assume c: "H c = Some (u, False)" "c + 16 \<le> x" "x < c + 16 + u"
      show "cells t1 (adr x) = ?m (adr x)"
      proof (cases "?m (adr x) = None")
        case True
        have "adr x \<in> dom ?m" if "8 dvd x" using layout_block(3) [OF D(3) c(1)] that c(2,3) unfolding mapped_def by auto
        with True have "\<not> 8 dvd x" by auto
        then show ?thesis by (simp add: t1_def m1_def commit_pages_def take_bit_3)
      next
        case False
        then show ?thesis using K(3) by (simp add: t1_def)
      qed
    qed
    from same_data_trans [OF this t'(4)] have sd: "same_data H ?m (cells t')" .
    have ok': "tlsf_ok t' (added H ?b ?n)" using t'(2,3) unfolding tlsf_ok_def by blast
    have f1: "H ?b = None" and f2: "H (?b + 8 + ?n) = None" using fr by simp_all
    show ?thesis by (rule grown [OF run ok' f1 f2 sd])
  qed
qed

section \<open>Allocation\<close>

lemma adjust_3:
  assumes "n < 2 ^ 32 - 8" and "24 \<le> n"
  shows "n \<le> adjust 3 n" "adjust 3 n < n + 8"
proof -
  note R = round_up_spec [where k = 3 and n = n]
  have "round_up 3 n mod 2 ^ 64 = round_up 3 n" "round_up 3 n < 2 ^ 32" using R(3) assms(1) by simp_all
  then have "adjust 3 n = round_up 3 n" using R(2) assms(2) by (simp add: adjust_def Let_def)
  with R show "n \<le> adjust 3 n" "adjust 3 n < n + 8" by simp_all
qed

lemma grown_enough:
  assumes "4096 \<le> grow" and "sz < 2 ^ 31" and "mx = max grow (2 * sz)"
  shows "adjust 3 (sz + 88) + adjust 3 (sz + 88) div 32 \<le> round_down 3 mx"
proof -
  have a: "adjust 3 (sz + 88) < sz + 96" using adjust_3(2) [of "sz + 88"] assms(2) by simp
  have "mx < round_down 3 mx + 8" using round_down_8(4) .
  moreover have "4096 \<le> mx" "2 * sz \<le> mx" using assms(1,3) by auto
  moreover have "32 * (adjust 3 (sz + 88) div 32) \<le> adjust 3 (sz + 88)" by simp
  ultimately show ?thesis using a by linarith
qed

lemma used_added: "H b = None \<Longrightarrow> H (b + 8 + n) = None \<Longrightarrow> used (added H b n) = used H"
  by (auto simp: used_def split: if_splits)

lemma heap_find_ok:
  assumes ok: "tlsf_ok (heap_tlsf h) H" and E: "valloc_laws E" and g: "4096 \<le> grow" "grow < 2 ^ 32" "grow_increment h = adr grow"
    and sz: "sz < 2 ^ 31" and k: "k \<le> 3"
  obtains (oom) "heap_find E h (adr sz) (adr (2 ^ k)) = Some (False, 0, h)"
    "VirtualAlloc E (cells (heap_tlsf h)) (adr (max grow (2 * sz) + 32)) = 0"
  | (found) t' H' b u arenas where
    "heap_find E h (adr sz) (adr (2 ^ k)) = Some (True, adr (b + 16), h\<lparr>heap_tlsf := t', heap_arenas := arenas\<rparr>)"
    "tlsf_ok t' H'" "used H' = insert (b, u) (used H)" "\<forall>v. H b \<noteq> Some (v, False)" "sz + 88 \<le> u" "2 ^ k dvd b + 16"
    "same_data H (cells (heap_tlsf h)) (cells t')"
proof -
  let ?t = "heap_tlsf h" and ?mx = "max grow (2 * sz)" and ?a = "adjust 3 (sz + 88)"
  have n: "sz + 88 < 2 ^ 64" and k62: "k < 62" using sz k by auto
  have a: "sz + 88 \<le> ?a" using adjust_3(1) [of "sz + 88"] sz by simp
  have gs: "gap_size k (sz + 88) = ?a" using k by (simp add: gap_size_def Let_def)
  have req: "adr sz + sizeof_callstack = adr (sz + 88)" by (simp add: sizeof_callstack_def)
  have mem: "heap_memalign x (adr sz) (adr (2 ^ k)) =
      do { (address, t) \<leftarrow> tlsf_memalign (heap_tlsf x) (adr (2 ^ k)) (adr (sz + 88)); Some (address, x\<lparr>heap_tlsf := t\<rparr>) }" for x :: "'a heap_t"
    by (simp add: heap_memalign_def req)
  have hh: "h\<lparr>heap_tlsf := ?t\<rparr> = h" by (cases h) simp
  from ok n k62 show ?thesis
  proof (cases rule: memalign_ok)
    case (some t' H' b u)
    have u: "used H' = insert (b, u) (used H)" by (rule used_new [OF some(9,4)]) (use some(5,6,8) in auto)
    then have "(b, u) \<in> used H'" by simp
    then have "adr (b + 16) \<noteq> 0" using used_address [OF some(2)] by blast
    then have "heap_find E h (adr sz) (adr (2 ^ k)) = Some (True, adr (b + 16), h\<lparr>heap_tlsf := t', heap_arenas := heap_arenas h\<rparr>)"
      using some(1) by (cases h) (simp add: heap_find_def mem)
    with found some(2,3,8,10) u a some(6) show ?thesis by (meson order_trans)
  next
    case none
    have full: "heap_memalign h (adr sz) (adr (2 ^ k)) = Some (0, h)" using none(1) hh by (simp add: mem)
    have g24: "24 \<le> ?mx" "?mx < 2 ^ 32" using g sz by auto
    from ok E g24 g(3) show ?thesis
    proof (cases rule: grow_ok)
      case oom': oom
      have "heap_find E h (adr sz) (adr (2 ^ k)) = Some (False, 0, h)" using full oom'(1) by (simp add: heap_find_def)
      with oom oom'(2) show ?thesis by blast
    next
      case (grown t1 c arenas)
      let ?n = "round_down 3 ?mx"
      let ?H = "added H c ?n"
      have c: "?H c = Some (?n, True)" by simp
      from grown(2) n k62 show ?thesis
      proof (cases rule: memalign_ok)
        case none': none
        have "?a \<noteq> 0" using a by simp
        with none'(2) [OF _ c] grown_enough [OF g(1) sz refl] show ?thesis unfolding gs by simp
      next
        case (some t' H' b u)
        have u: "used H' = insert (b, u) (used ?H)" by (rule used_new [OF some(9,4)]) (use some(5,6,8) in auto)
        then have bu: "(b, u) \<in> used H'" by simp
        have b0: "adr (b + 16) \<noteq> 0" using used_address [OF some(2) bu] .
        have keep: "?H d = Some (v, False)" if "H d = Some (v, False)" for d v using that grown(3,4) by auto
        have new: "\<forall>v. H b \<noteq> Some (v, False)" using keep some(8) by blast
        have sd: "same_data H (cells ?t) (cells t')"
          using same_data_trans [OF grown(5) same_data_sub [OF some(10) keep]] .
        have run: "heap_find E h (adr sz) (adr (2 ^ k)) = Some (True, adr (b + 16), h\<lparr>heap_tlsf := t', heap_arenas := arenas\<rparr>)"
          using full grown(1) some(1) by (simp add: heap_find_def mem)
        have "used H' = insert (b, u) (used H)" using u used_added [OF grown(3,4)] by simp
        then show ?thesis by (rule found [OF run some(2) _ new _ some(3) sd]) (use a some(6) in simp)
      qed
    qed
  qed
qed

lemma bytes_of_length [simp]: "length (bytes_of n w) = n"
  by (simp add: bytes_of_def)

lemma put_callstack_ok:
  assumes L: "layout m H" and b: "H b = Some (u, False)" and x: "b + 16 \<le> x" "x + 88 \<le> b + 16 + u"
  shows "\<exists>m'. put_callstack m (adr x) stack = Some m' \<and> agree m m' (payload b u)"
proof -
  note B = block_okD [OF layout_block(4) [OF L b]]
  let ?fs = "debug_backtrace stack 10"
  have cells: "adr c \<in> dom m" if "8 dvd c" "b + 16 \<le> c" "c < b + 16 + u" for c
    using layout_block(3) [OF L b] that unfolding mapped_def by auto
  have b16: "8 dvd b + 16" using B(1) by simp
  have hi: "b + 16 + u < 2 ^ 64" using B(4) by simp
  have n: "length ?fs \<le> 10" by (simp add: debug_backtrace_def)
  have len: "length (concat (map (bytes_of 8) ?fs)) = 8 * length ?fs"
    by (simp add: length_concat o_def sum_list_triv)
  obtain m1 where m1: "put_bytes m (adr (x + 8)) (concat (map (bytes_of 8) ?fs)) = Some m1" "agree m m1 {b + 16..<b + 16 + u}"
    using put_bytes_ok [OF cells b16 _ _ hi, of "x + 8" "concat (map (bytes_of 8) ?fs)"] x n len by auto
  have cells1: "adr c \<in> dom m1" if "8 dvd c" "b + 16 \<le> c" "c < b + 16 + u" for c
    using cells [OF that] agree_dom [OF m1(2)] by simp
  obtain m2 where m2: "put_bytes m1 (adr x) (bytes_of 4 (of_nat (length ?fs))) = Some m2" "agree m1 m2 {b + 16..<b + 16 + u}"
    using put_bytes_ok [OF cells1 b16 _ _ hi, of x "bytes_of 4 (of_nat (length ?fs))"] x by auto
  have "agree m m2 (payload b u)" using agree_trans [OF m1(2) m2(2)] by (simp add: payload_def)
  with m1(1) m2(1) show ?thesis by (simp add: put_callstack_def Let_def)
qed

lemma same_data_write:
  assumes ok: "tlsf_ok t H'" and H': "used H' = insert (b, u) (used H)" and b: "\<forall>v. H b \<noteq> Some (v, False)"
    and ag: "agree (cells t) m' (payload b u)"
  shows "same_data H (cells t) m'"
  unfolding same_data_def
proof (intro allI impI)
  fix c v x
  assume c: "H c = Some (v, False)" "c + 16 \<le> x" "x < c + 16 + v"
  then have cv: "(c, v) \<in> used H" by (auto simp: used_def)
  have T: "tiling H'" using ok poolD(6) unfolding tlsf_ok_def by blast
  have "(c, v) \<in> used H'" using cv H' by simp
  then have "c + 16 + v < 2 ^ 64" using block_okD(4) [OF tiling_block [OF T]] by (auto simp: used_def)
  moreover have "x \<notin> payload b u" using used_apart [OF ok H' _ cv] b c(2,3) by (auto simp: payload_def)
  ultimately show "m' (adr x) = cells t (adr x)" using agreeD [OF ag] c(3) by simp
qed

text \<open>C26. Allocation from the heap: with sane sizes \<^verbatim>\<open>heap_alloc\<close> returns, and the only undefined behaviour it could
  have does not happen.  It gives a new block, apart from all blocks in use and aligned, with room for the
  request and the callstack behind it, and leaves the mutex free, the heap well-formed and the contents of the
  other blocks alone; growing the heap always makes enough room.  Or the system is out of memory: then it
  returns \<open>NULL\<close> with the mutex still locked, and every other thread that uses the heap waits for ever.\<close>

theorem heap_alloc_correct:
  assumes ok: "tlsf_ok (heap_tlsf h) H" and E: "valloc_laws E" and M: "mutex_laws M holder" "holder (heap_mutex h) = None"
    and g: "4096 \<le> grow" "grow < 2 ^ 32" "grow_increment h = adr grow" and sz: "sz < 2 ^ 31" and k: "k \<le> 3"
  shows "\<exists>a h'. heap_alloc E M me stack h (adr sz) (adr (2 ^ k)) = Returns (a, h') \<and>
    ((\<exists>H' b u. a = adr (b + 16) \<and> a \<noteq> 0 \<and> 2 ^ k dvd b + 16 \<and> sz + 88 \<le> u \<and> tlsf_ok (heap_tlsf h') H' \<and>
        used H' = insert (b, u) (used H) \<and> (\<forall>(c, v)\<in>used H. payload b u \<inter> payload c v = {}) \<and>
        same_data H (cells (heap_tlsf h)) (cells (heap_tlsf h')) \<and> holder (heap_mutex h') = None) \<or>
     (a = 0 \<and> VirtualAlloc E (cells (heap_tlsf h)) (adr (max grow (2 * sz) + 32)) = 0 \<and> heap_tlsf h' = heap_tlsf h \<and>
        (\<forall>you p. you \<noteq> me \<longrightarrow> heap_free M you h' p = Blocks)))"
proof -
  obtain mu where mu: "mutex_lock M me (heap_mutex h) = Some mu" "holder mu = Some (me, 1)"
    using mutex_lock_free [OF M] by blast
  have un: "holder (mutex_unlock M me mu) = None" using mutex_unlock_last [OF M(1) mu(2)] .
  have blk: "heap_free M you x p = Blocks" if "you \<noteq> me" "heap_mutex x = mu" for you x p
    using mutex_lock_held [OF M(1) mu(2), of you] that by (simp add: heap_free_def)
  let ?h = "h\<lparr>heap_mutex := mu\<rparr>"
  have hs: "tlsf_ok (heap_tlsf ?h) H" "grow_increment ?h = adr grow" using ok g(3) by simp_all
  from hs(1) E g(1,2) hs(2) sz k show ?thesis
  proof (cases rule: heap_find_ok)
    case oom
    then have "heap_alloc E M me stack h (adr sz) (adr (2 ^ k)) = Returns (0, ?h)" using mu(1) by (simp add: heap_alloc_def)
    with oom(2) blk show ?thesis by auto
  next
    case (found t' H' b u arenas)
    have bu: "(b, u) \<in> used H'" using found(3) by simp
    then have H'b: "H' b = Some (u, False)" by (simp add: used_def)
    have b0: "adr (b + 16) \<noteq> 0" using used_address [OF found(2) bu] .
    have L: "layout (cells t') H'" using found(2) poolD(3) unfolding tlsf_ok_def by blast
    obtain m' where m': "put_callstack (cells t') (adr (b + 16 + sz)) stack = Some m'" "agree (cells t') m' (payload b u)"
      using put_callstack_ok [OF L H'b, of "b + 16 + sz"] found(5) by auto
    let ?h' = "h\<lparr>heap_tlsf := t'\<lparr>cells := m'\<rparr>, heap_arenas := arenas, heap_mutex := mutex_unlock M me mu\<rparr>"
    have run: "heap_alloc E M me stack h (adr sz) (adr (2 ^ k)) = Returns (adr (b + 16), ?h')"
      using mu(1) found(1) b0 m'(1) by (cases h) (simp add: heap_alloc_def)
    have ok': "tlsf_ok (t'\<lparr>cells := m'\<rparr>) H'" by (rule write_ok [OF found(2) H'b m'(2)])
    have sd: "same_data H (cells (heap_tlsf h)) m'"
      using same_data_trans [OF found(7) same_data_write [OF found(2,3,4) m'(2)]] by simp
    have apart: "\<forall>(c, v)\<in>used H. payload b u \<inter> payload c v = {}" using used_apart [OF found(2,3)] found(4) by blast
    show ?thesis
      by (rule exI [of _ "adr (b + 16)"], rule exI [of _ ?h'], rule conjI [OF run], rule disjI1, rule exI [of _ H'],
          rule exI [of _ b], rule exI [of _ u]) (use b0 found(3,5,6) apart sd ok' un in simp)
  qed
qed

text \<open>A system that hands out pages at 1 MiB as long as they are free.\<close>

definition demo_os :: os_api where
  "demo_os = \<lparr>VirtualAlloc = (\<lambda>m n. if (\<forall>x. 2 ^ 20 \<le> x \<longrightarrow> x < 2 ^ 20 + unat n \<longrightarrow> adr x \<notin> dom m) \<and> 2 ^ 20 + unat n < 2 ^ 64
      then adr (2 ^ 20) else 0), VirtualFree = (\<lambda>m p. m), SymFromAddr = (\<lambda>a. ''f'')\<rparr>"

lemma demo_os_laws: "valloc_laws demo_os"
  by (auto simp: valloc_laws_def demo_os_def Let_def)

lemma demo_heap:
  obtains h :: "(tid \<times> nat) option heap_t" where "tlsf_ok (heap_tlsf h) Map.empty" "id (heap_mutex h) = None" "grow_increment h = adr 65536"
    "VirtualAlloc demo_os (cells (heap_tlsf h)) (adr (max 65536 (2 * 100) + 32)) \<noteq> 0"
proof -
  let ?m = "\<lambda>a. if a < adr (2 ^ 20) then Some (0 :: u64) else None"
  have small: "adr x \<in> dom ?m \<longleftrightarrow> x < 2 ^ 20" if "x < 2 ^ 64" for x
    using adr_le_iff [of "2 ^ 20" x] that by (simp add: not_le [symmetric] dom_def)
  have m: "adr 4096 \<in> dom ?m" "adr (4096 + 8) \<in> dom ?m" "adr (4096 + 16) \<in> dom ?m" "adr (4096 + 24) \<in> dom ?m"
    by (rule small [THEN iffD2]; simp)+
  have p: "(8::nat) dvd 4096" "(0::nat) < 4096" "(4096::nat) + 32 \<le> 2 ^ 64" by simp_all
  obtain t where t: "tlsf_create ?m (adr 4096) = Some (Some t)" "pool t 4096 Map.empty (\<lambda>c. []) {}" "dom (cells t) = dom ?m"
    by (rule create_ok [OF p m])
  define h :: "(tid \<times> nat) option heap_t" where
    "h = \<lparr>heap_tlsf = t, grow_increment = adr 65536, heap_arenas = [], heap_mutex = None\<rparr>"
  have "tlsf_ok t Map.empty" unfolding tlsf_ok_def using t(2) by (auto simp: coalesced_def)
  moreover have "VirtualAlloc demo_os (cells t) (adr (max 65536 (2 * 100) + 32)) \<noteq> 0"
  proof -
    have "adr x \<notin> dom (cells t)" if "2 ^ 20 \<le> x" "x < 2 ^ 20 + unat (adr (max 65536 (2 * 100) + 32))" for x
      unfolding t(3) using small [of x] that by simp
    moreover have "adr (2 ^ 20) \<noteq> 0" using adr_eq_iff [of "2 ^ 20" 0] by (simp add: adr_def)
    ultimately show ?thesis by (simp add: demo_os_def)
  qed
  ultimately show ?thesis using that [of h] by (simp add: h_def)
qed

theorem heap_alloc_correct_witness:
  "\<exists>h a h'. heap_alloc demo_os owner_api 1 [5, 6] h (adr 100) (adr (2 ^ 3)) = Returns (a, h') \<and> a \<noteq> 0 \<and> id (heap_mutex h') = None"
proof -
  obtain h :: "(tid \<times> nat) option heap_t" where h: "tlsf_ok (heap_tlsf h) Map.empty" "id (heap_mutex h) = None" "grow_increment h = adr 65536"
    "VirtualAlloc demo_os (cells (heap_tlsf h)) (adr (max 65536 (2 * 100) + 32)) \<noteq> 0"
    by (rule demo_heap)
  have n: "(4096::nat) \<le> 65536" "(65536::nat) < 2 ^ 32" "(100::nat) < 2 ^ 31" "(3::nat) \<le> 3" by simp_all
  from heap_alloc_correct [OF h(1) demo_os_laws owner_api_laws h(2) n(1,2) h(3) n(3,4), of 1 "[5, 6]"] h(4)
  show ?thesis by blast
qed

section \<open>Release\<close>

text \<open>C27. Release to the heap: \<^verbatim>\<open>heap_free\<close> of a block in use returns with exactly that block released, the others
  untouched, the heap well-formed and the mutex free, so that an allocation and its release leave the blocks
  in use as they were.\<close>

theorem heap_free_correct:
  assumes ok: "tlsf_ok (heap_tlsf h) H" and M: "mutex_laws M holder" "holder (heap_mutex h) = None" and b: "(b, u) \<in> used H"
  shows "\<exists>h' H'. heap_free M me h (adr (b + 16)) = Returns h' \<and> tlsf_ok (heap_tlsf h') H' \<and> used H' = used H - {(b, u)} \<and>
    same_data H' (cells (heap_tlsf h)) (cells (heap_tlsf h')) \<and> holder (heap_mutex h') = None"
proof -
  obtain mu where mu: "mutex_lock M me (heap_mutex h) = Some mu" "holder mu = Some (me, 1)"
    using mutex_lock_free [OF M] by blast
  from b have b': "H b = Some (u, False)" "u \<noteq> 0" by (auto simp: used_def)
  obtain t' H' where t': "tlsf_free (heap_tlsf h) (adr (b + 16)) = Some t'" "tlsf_ok t' H'"
    "\<forall>c v. H' c = Some (v, False) \<longleftrightarrow> c \<noteq> b \<and> H c = Some (v, False)" "same_data H' (cells (heap_tlsf h)) (cells t')"
    by (rule free_ok [OF ok b'])
  moreover from t'(3) b' have "used H' = used H - {(b, u)}" by (auto simp: used_def)
  ultimately show ?thesis using mu mutex_unlock_last [OF M(1) mu(2)] by (auto simp: heap_free_def)
qed

theorem heap_free_correct_witness:
  "\<exists>h t b u h' H'. h = \<lparr>heap_tlsf = t, grow_increment = 0, heap_arenas = [], heap_mutex = None\<rparr> \<and>
    tlsf_malloc demo_tlsf (adr 100) = Some (adr (b + 16), t) \<and> heap_free owner_api 1 h (adr (b + 16)) = Returns h' \<and>
    tlsf_ok (heap_tlsf h') H' \<and> used H' = {}"
proof -
  obtain t H b u where t: "tlsf_malloc demo_tlsf (adr 100) = Some (adr (b + 16), t)" "tlsf_ok t H" "used H = {(b, u)}"
    by (rule demo_malloc)
  let ?h = "\<lparr>heap_tlsf = t, grow_increment = 0, heap_arenas = [], heap_mutex = None\<rparr>"
  have ok: "tlsf_ok (heap_tlsf ?h) H" and fr: "id (heap_mutex ?h) = None" and bu: "(b, u) \<in> used H" using t(2,3) by simp_all
  from heap_free_correct [OF ok owner_api_laws fr bu, of 1] t(1,3) show ?thesis by auto
qed

end
