(* ===== verification/Heap_Leaks.thy ===== *)
theory Heap_Leaks
  imports Heap
begin

text \<open>The report that \<^verbatim>\<open>heap_destroy\<close> prints for blocks that were never released.\<close>

definition report_os :: os_api where
  "report_os = \<lparr>VirtualAlloc = (\<lambda>m n. if m 0x10020 = None then 0x10000 else 0x100000), VirtualFree = (\<lambda>m p. m),
     SymFromAddr = (\<lambda>a. if a = 7 then ''main'' else if a = 6 then ''game'' else ''spawn'')\<rparr>"

text \<open>The report after one allocation of \<open>n\<close> bytes that is never released.\<close>

definition leak_report :: "u64 \<Rightarrow> leak_t list option" where
  "leak_report n =
     (case heap_create report_os owner_api Map.empty 4096 of
        Some (Some h) \<Rightarrow>
          (case heap_alloc report_os owner_api 1 [5, 6, 7, 8] h n 8 of
             Returns (a, h) \<Rightarrow> map_option fst (heap_destroy report_os h)
           | _ \<Rightarrow> None)
      | _ \<Rightarrow> None)"

lemma leak_report_104: "leak_report 104 = Some [(104, [(0, ''spawn''), (1, ''game''), (2, ''main'')])]"
  by code_simp

lemma leak_report_100: "leak_report 100 = Some [(104, [])]"
  by code_simp


end
