(* ===== verification/Audio.thy ===== *)
theory Audio
  imports Wav
begin

text \<open>
  The sound of \<^verbatim>\<open>audio.c\<close>: the square wave of the effect buffer, the music that is copied
  from a WAV file, and the life of the DirectSound objects.

  DirectSound is outside.  The state \<open>dsound\<close> holds its live sound buffers (memory, and how they
  are played); what its functions answer is an argument of the operations that call them.
  A pointer field of \<^verbatim>\<open>audio_t\<close> that is NULL or was never set is \<open>None\<close>: calling a method through
  it is undefined.
\<close>

section \<open>State\<close>

record sound_buffer =
  sb_bytes :: "u8 list"
  sb_playing :: bool
  sb_looping :: bool

type_synonym dsound = "nat \<Rightarrow> sound_buffer option"

record game_sound_buffer_t =
  gs_size :: c_int
  channel_count :: c_int
  samples_per_second :: c_int
  bytes_per_sample :: c_int

record WAVEFORMATEX =
  wFormatTag :: u16
  nChannels :: u16
  nSamplesPerSec :: u32
  nAvgBytesPerSec :: u32
  nBlockAlign :: u16
  wBitsPerSample :: u16
  cbSize :: u16

record audio_t =
  direct_sound :: "nat ptr"
  primary_buffer :: "nat ptr"
  fx_sound_buffer :: "nat ptr"
  music_sound_buffer :: "nat ptr"
  sound_buf :: "game_sound_buffer_t option"
  au_wav_format :: "WAVEFORMATEX option"
  work_buffer :: "u8 list ptr option"

definition new_buffer :: "u8 list \<Rightarrow> sound_buffer" where
  "new_buffer bytes = \<lparr>sb_bytes = bytes, sb_playing = False, sb_looping = False\<rparr>"

section \<open>Creation\<close>

text \<open>
  \<open>dll\<close>, \<open>proc\<close>, \<open>created\<close> and \<open>coop\<close> say whether the library and its function were found and whether
  the two calls succeeded; \<open>dev\<close> is the new device, \<open>prim\<close> and \<open>fx\<close> the buffers that are created with
  the memory they get (\<open>None\<close>: the call fails and leaves the local variable uninitialised).
\<close>

definition make_buffer :: "(nat \<times> u8 list) option \<Rightarrow> dsound \<Rightarrow> dsound" where
  "make_buffer b d = (case b of None \<Rightarrow> d | Some (i, bytes) \<Rightarrow> d(i \<mapsto> new_buffer bytes))"

definition game_buffer :: game_sound_buffer_t where
  "game_buffer =
     (let channels = 2; rate = 44100; bytes = channels * 2
      in \<lparr>gs_size = rate * bytes, channel_count = channels, samples_per_second = rate,
          bytes_per_sample = bytes\<rparr>)"

definition wave_format :: "game_sound_buffer_t \<Rightarrow> WAVEFORMATEX" where
  "wave_format sbuff =
     (let channels = ucast (channel_count sbuff); rate = ucast (samples_per_second sbuff);
          bits = 16; align = channels * bits div 8
      in \<lparr>wFormatTag = 1, nChannels = channels, nSamplesPerSec = rate,
          nAvgBytesPerSec = ucast align * rate, nBlockAlign = align, wBitsPerSample = bits,
          cbSize = 0\<rparr>)"

definition audio_init ::
  "bool \<Rightarrow> bool \<Rightarrow> bool \<Rightarrow> bool \<Rightarrow> nat \<Rightarrow> (nat \<times> u8 list) option \<Rightarrow> (nat \<times> u8 list) option \<Rightarrow>
   dsound \<Rightarrow> audio_t ptr \<times> dsound" where
  "audio_init dll proc created coop dev prim fx d =
     (if \<not> dll then (None, d)
      else if \<not> proc then (None, d)
      else
        let audio = \<lparr>direct_sound = None, primary_buffer = None, fx_sound_buffer = None,
                     music_sound_buffer = None, sound_buf = None, au_wav_format = None,
                     work_buffer = None\<rparr>
        in if created then
             let audio = audio\<lparr>direct_sound := Some dev\<rparr>
             in if coop then
                  (Some (audio\<lparr>sound_buf := Some game_buffer,
                               primary_buffer := map_option fst prim,
                               au_wav_format := Some (wave_format game_buffer),
                               fx_sound_buffer := map_option fst fx\<rparr>),
                   make_buffer fx (make_buffer prim d))
                else (Some audio, d)
           else (Some audio, d))"

section \<open>Filling a sound buffer\<close>

text \<open>
  The loop over the samples of a locked region: \<open>n\<close> samples are left, \<open>at\<close> is the write position.
\<close>

fun fill_loop ::
  "nat \<Rightarrow> nat \<Rightarrow> u8 list \<Rightarrow> bool \<Rightarrow> c_int \<Rightarrow> (u8 list \<times> bool \<times> c_int) option" where
  "fill_loop 0 at region temp square_freq = Some (region, temp, square_freq)"
| "fill_loop (Suc n) at region temp square_freq = do {
     let sample = le16_bytes (if temp then 500 else - 500);
     region \<leftarrow> wr_bytes region at sample;
     region \<leftarrow> wr_bytes region (at + 2) sample;
     let square_freq = square_freq + 1;
     if 200 < sint square_freq then fill_loop n (at + 4) region (\<not> temp) 0
     else fill_loop n (at + 4) region temp square_freq
   }"

fun clear_loop :: "nat \<Rightarrow> nat \<Rightarrow> u8 list \<Rightarrow> u8 list option" where
  "clear_loop 0 at region = Some region"
| "clear_loop (Suc n) at region = do {
     region \<leftarrow> wr_bytes region at [0, 0];
     region \<leftarrow> wr_bytes region (at + 2) [0, 0];
     clear_loop n (at + 4) region
   }"

definition sample_count :: "u8 list \<Rightarrow> c_int \<Rightarrow> nat option" where
  "sample_count region bytes =
     (if bytes = 0 then None else Some (unat ((word_of_nat (length region) :: u32) div bytes)))"

text \<open>
  \<^verbatim>\<open>Lock\<close> hands out the first \<open>size\<close> bytes as two regions; \<open>len1\<close> is the length of the first one.
  \<^verbatim>\<open>Unlock\<close> gives them back.
\<close>

definition with_locked ::
  "nat \<Rightarrow> audio_t \<Rightarrow> (game_sound_buffer_t \<Rightarrow> u8 list \<Rightarrow> u8 list \<Rightarrow> (u8 list \<times> u8 list) option) \<Rightarrow>
   dsound \<Rightarrow> dsound option" where
  "with_locked len1 audio work d = do {
     i \<leftarrow> fx_sound_buffer audio;
     sb \<leftarrow> d i;
     buf \<leftarrow> sound_buf audio;
     let size = unat (gs_size buf);
     if len1 \<le> size \<and> size \<le> length (sb_bytes sb) then do {
       (r1, r2) \<leftarrow> work buf (take len1 (sb_bytes sb)) (take (size - len1) (drop len1 (sb_bytes sb)));
       Some (d(i \<mapsto> sb\<lparr>sb_bytes := r1 @ r2 @ drop size (sb_bytes sb)\<rparr>))
     }
     else None
   }"

definition fill_sound_buffer :: "nat \<Rightarrow> audio_t \<Rightarrow> dsound \<Rightarrow> dsound option" where
  "fill_sound_buffer len1 audio =
     with_locked len1 audio (\<lambda>buf region_1 region_2. do {
       n1 \<leftarrow> sample_count region_1 (bytes_per_sample buf);
       (region_1, temp, square_freq) \<leftarrow> fill_loop n1 0 region_1 True 0;
       n2 \<leftarrow> sample_count region_2 (bytes_per_sample buf);
       (region_2, temp, square_freq) \<leftarrow> fill_loop n2 0 region_2 temp square_freq;
       Some (region_1, region_2)
     })"

definition clear_sound_buffer :: "nat \<Rightarrow> audio_t \<Rightarrow> dsound \<Rightarrow> dsound option" where
  "clear_sound_buffer len1 audio =
     with_locked len1 audio (\<lambda>buf region_1 region_2. do {
       n1 \<leftarrow> sample_count region_1 (bytes_per_sample buf);
       region_1 \<leftarrow> clear_loop n1 0 region_1;
       n2 \<leftarrow> sample_count region_2 (bytes_per_sample buf);
       region_2 \<leftarrow> clear_loop n2 0 region_2;
       Some (region_1, region_2)
     })"

section \<open>Music\<close>

text \<open>
  \<open>buffer\<close> is what \<^verbatim>\<open>fs_work_get_buffer\<close> returns (NULL when the file could not be read),
  \<open>garbage\<close> the uninitialised header of the parser and \<open>music\<close> the buffer DirectSound creates for
  the size it is given (\<open>None\<close>: the call fails and stores NULL).
\<close>

definition load_wav_file ::
  "u8 list ptr \<Rightarrow> u8 list \<Rightarrow> (u32 \<Rightarrow> (nat \<times> u8 list) option) \<Rightarrow> audio_t \<Rightarrow> dsound \<Rightarrow>
   (audio_t \<times> dsound) option" where
  "load_wav_file buffer garbage music audio d = do {
     let audio = audio\<lparr>work_buffer := Some buffer\<rparr>;
     data \<leftarrow> buffer;
     file \<leftarrow> WAV_ParseFileData garbage data;
     size \<leftarrow> little2big_u32 (wav_header file) 40;
     _ \<leftarrow> direct_sound audio;
     let audio = audio\<lparr>music_sound_buffer := map_option fst (music size)\<rparr>;
     (i, bytes) \<leftarrow> music size;
     samples \<leftarrow> rd_bytes data (wav_data file) (unat size);
     bytes \<leftarrow> wr_bytes bytes 0 samples;
     Some (audio, d(i \<mapsto> new_buffer bytes))
   }"

section \<open>Playing and destruction\<close>

definition play :: "nat ptr \<Rightarrow> bool \<Rightarrow> dsound \<Rightarrow> dsound option" where
  "play p looping d = do {
     i \<leftarrow> p;
     sb \<leftarrow> d i;
     Some (d(i \<mapsto> sb\<lparr>sb_playing := True, sb_looping := looping\<rparr>))
   }"

definition play_sound_buffer :: "audio_t \<Rightarrow> dsound \<Rightarrow> dsound option" where
  "play_sound_buffer audio = play (fx_sound_buffer audio) False"

definition play_music :: "audio_t \<Rightarrow> dsound \<Rightarrow> dsound option" where
  "play_music audio = play (music_sound_buffer audio) True"

definition release :: "nat ptr \<Rightarrow> dsound \<Rightarrow> dsound option" where
  "release p d = do { i \<leftarrow> p; _ \<leftarrow> d i; Some (d(i := None)) }"

text \<open>The work item, the file and the struct are given back at the end; without a file the
  pointer to the work item is uninitialised.\<close>

definition audio_destroy :: "nat \<Rightarrow> audio_t \<Rightarrow> dsound \<Rightarrow> dsound option" where
  "audio_destroy len1 audio d = do {
     d \<leftarrow> clear_sound_buffer len1 audio d;
     d \<leftarrow> release (fx_sound_buffer audio) d;
     d \<leftarrow> release (music_sound_buffer audio) d;
     d \<leftarrow> release (primary_buffer audio) d;
     _ \<leftarrow> work_buffer audio;
     Some d
   }"

text \<open>The calls of \<^verbatim>\<open>main\<close> before the game starts; NULL from \<^verbatim>\<open>audio_init\<close> is not checked.\<close>

definition main_audio ::
  "audio_t ptr \<times> dsound \<Rightarrow> nat \<Rightarrow> u8 list ptr \<Rightarrow> u8 list \<Rightarrow> (u32 \<Rightarrow> (nat \<times> u8 list) option) \<Rightarrow>
   (audio_t \<times> dsound) option" where
  "main_audio init len1 buffer garbage music = do {
     audio \<leftarrow> fst init;
     d \<leftarrow> fill_sound_buffer len1 audio (snd init);
     (audio, d) \<leftarrow> load_wav_file buffer garbage music audio d;
     d \<leftarrow> play_music audio d;
     Some (audio, d)
   }"

section \<open>The loops\<close>

text \<open>The wave: 201 samples up, 201 samples down, each for both channels.\<close>

definition square :: "nat \<Rightarrow> u16" where
  "square i = (if even (i div 201) then 500 else - 500)"

definition square_wave :: "nat \<Rightarrow> nat \<Rightarrow> u8 list" where
  "square_wave i n = concat (map (\<lambda>k. le16_bytes (square k) @ le16_bytes (square k)) [i..<i + n])"

lemma square_wave_0 [simp]: "square_wave i 0 = []"
  by (simp add: square_wave_def)

lemma square_wave_Suc:
  "square_wave i (Suc n) = le16_bytes (square i) @ le16_bytes (square i) @ square_wave (Suc i) n"
proof -
  have "[i..<i + Suc n] = i # [Suc i..<Suc i + n]" by (simp add: upt_conv_Cons)
  then show ?thesis by (simp add: square_wave_def)
qed

lemma square_wave_add: "square_wave i m @ square_wave (i + m) n = square_wave i (m + n)"
proof (induction m arbitrary: i)
  case (Suc m)
  show ?case using Suc [of "Suc i"] by (simp add: square_wave_Suc)
qed simp

lemma square_wave_length [simp]: "length (square_wave i n) = 4 * n"
  by (induction n arbitrary: i) (simp_all add: square_wave_Suc)

text \<open>One round of a loop writes the two channels of a sample.\<close>

lemma write_sample:
  assumes "p + 4 \<le> length mem" and "length x = 2"
  shows "wr_bytes mem p x \<bind> (\<lambda>mem. wr_bytes mem (p + 2) x \<bind> f) =
    f (take p mem @ x @ x @ drop (p + 4) mem)"
proof -
  have "wr_bytes mem p x = Some (take p mem @ x @ drop (p + 2) mem)"
    using assms by (simp add: wr_bytes_def)
  moreover have "wr_bytes (take p mem @ x @ drop (p + 2) mem) (p + 2) x =
      Some (take p mem @ x @ x @ drop (p + 4) mem)"
    using assms by (auto simp: wr_bytes_def eval_nat_numeral)
  ultimately show ?thesis by simp
qed

lemma fill_loop_step:
  assumes "p + 4 \<le> length mem"
  shows "fill_loop (Suc n) p mem temp f =
    (let x = le16_bytes (if temp then 500 else - 500); mem = take p mem @ x @ x @ drop (p + 4) mem
     in if 200 < sint (f + 1) then fill_loop n (p + 4) mem (\<not> temp) 0
        else fill_loop n (p + 4) mem temp (f + 1))"
  by (simp only: fill_loop.simps Let_def write_sample [OF assms le16_bytes_length])

lemma next_phase:
  "200 < sint (word_of_nat (i mod 201) + 1 :: c_int) \<longleftrightarrow> Suc i mod 201 = 0"
  "Suc i mod 201 = 0 \<Longrightarrow> even (Suc i div 201) = odd (i div 201)"
  "Suc i mod 201 \<noteq> 0 \<Longrightarrow> even (Suc i div 201) = even (i div 201)"
  "Suc i mod 201 \<noteq> 0 \<Longrightarrow> word_of_nat (i mod 201) + 1 = (word_of_nat (Suc i mod 201) :: c_int)"
proof -
  have "word_of_nat (i mod 201) + 1 = (word_of_nat (Suc (i mod 201)) :: c_int)" by simp
  moreover have "Suc (i mod 201) < 2 ^ 31"
    using mod_less_divisor [of 201 i] by simp
  ultimately have s: "sint (word_of_nat (i mod 201) + 1 :: c_int) = int (Suc (i mod 201))"
    using sint_small [of "Suc (i mod 201)"] by metis
  show "200 < sint (word_of_nat (i mod 201) + 1 :: c_int) \<longleftrightarrow> Suc i mod 201 = 0"
    using mod_less_divisor [of 201 i] unfolding s mod_Suc by auto
  show "Suc i mod 201 = 0 \<Longrightarrow> even (Suc i div 201) = odd (i div 201)"
    by (simp add: div_Suc)
  show "Suc i mod 201 \<noteq> 0 \<Longrightarrow> even (Suc i div 201) = even (i div 201)"
    by (simp add: div_Suc)
  show "Suc i mod 201 \<noteq> 0 \<Longrightarrow> word_of_nat (i mod 201) + 1 = (word_of_nat (Suc i mod 201) :: c_int)"
    by (simp add: mod_Suc split: if_splits)
qed

lemma fill_loop_wave:
  assumes "p + 4 * n \<le> length mem"
  shows "fill_loop n p mem (even (i div 201)) (word_of_nat (i mod 201)) =
    Some (take p mem @ square_wave i n @ drop (p + 4 * n) mem,
      even ((i + n) div 201), word_of_nat ((i + n) mod 201))"
  using assms
proof (induction n arbitrary: p mem i)
  case 0
  then show ?case by simp
next
  case (Suc n)
  let ?x = "le16_bytes (square i)"
  let ?mem = "take p mem @ ?x @ ?x @ drop (p + 4) mem"
  have p: "p + 4 \<le> length mem" and l: "p + 4 + 4 * n \<le> length ?mem" using Suc.prems by simp_all
  have "fill_loop (Suc n) p mem (even (i div 201)) (word_of_nat (i mod 201)) =
      fill_loop n (p + 4) ?mem (even (Suc i div 201)) (word_of_nat (Suc i mod 201))"
    using next_phase [of i]
    unfolding fill_loop_step [OF p] by (cases "Suc i mod 201 = 0") (simp_all add: square_def Let_def)
  also have "\<dots> = Some (take (p + 4) ?mem @ square_wave (Suc i) n @ drop (p + 4 + 4 * n) ?mem,
      even ((Suc i + n) div 201), word_of_nat ((Suc i + n) mod 201))"
    by (rule Suc.IH [OF l])
  finally show ?case
    using p by (simp add: square_wave_Suc add_ac)
qed

lemma fill_whole:
  assumes "length mem = 4 * n"
  shows "fill_loop n 0 mem (even (i div 201)) (word_of_nat (i mod 201)) =
    Some (square_wave i n, even ((i + n) div 201), word_of_nat ((i + n) mod 201))"
  using fill_loop_wave [of 0 n mem i] assms by simp

lemma clear_loop_zero:
  assumes "p + 4 * n \<le> length mem"
  shows "clear_loop n p mem = Some (take p mem @ replicate (4 * n) 0 @ drop (p + 4 * n) mem)"
  using assms
proof (induction n arbitrary: p mem)
  case 0
  then show ?case by simp
next
  case (Suc n)
  let ?mem = "take p mem @ [0, 0] @ [0, 0] @ drop (p + 4) mem"
  have p: "p + 4 \<le> length mem" and l: "p + 4 + 4 * n \<le> length ?mem" using Suc.prems by simp_all
  have "clear_loop (Suc n) p mem = clear_loop n (p + 4) ?mem"
    using write_sample [OF p, of "[0, 0]" "clear_loop n (p + 4)"] by simp
  also have "\<dots> = Some (take (p + 4) ?mem @ replicate (4 * n) 0 @ drop (p + 4 + 4 * n) ?mem)"
    by (rule Suc.IH [OF l])
  finally show ?case
    using p by (simp add: add_ac eval_nat_numeral)
qed

lemma clear_whole: "length mem = 4 * n \<Longrightarrow> clear_loop n 0 mem = Some (replicate (4 * n) 0)"
  using clear_loop_zero [of 0 n mem] by simp

section \<open>The effect buffer\<close>

text \<open>\<open>fx_ready audio d i mem\<close>: the effect buffer is \<open>i\<close>, with the memory \<open>mem\<close> of one second.\<close>

definition fx_ready :: "audio_t \<Rightarrow> dsound \<Rightarrow> nat \<Rightarrow> u8 list \<Rightarrow> bool" where
  "fx_ready audio d i mem \<longleftrightarrow>
     fx_sound_buffer audio = Some i \<and> sound_buf audio = Some game_buffer \<and>
     (\<exists>sb. d i = Some sb \<and> sb_bytes sb = mem) \<and> 176400 \<le> length mem"

definition set_bytes :: "nat \<Rightarrow> u8 list \<Rightarrow> dsound \<Rightarrow> dsound" where
  "set_bytes i mem d = d(i := map_option (\<lambda>sb. sb\<lparr>sb_bytes := mem\<rparr>) (d i))"

lemma game_buffer_fields [simp]:
  "gs_size game_buffer = 176400" "bytes_per_sample game_buffer = 4"
  by (simp_all add: game_buffer_def)

lemma sample_count_4:
  assumes "length r = 4 * k" and "k \<le> 44100"
  shows "sample_count r 4 = Some k"
proof -
  have "length r < 2 ^ 32" using assms by simp
  then have "unat (word_of_nat (length r) :: u32) = length r"
    by (simp add: unat_of_nat)
  then have "unat (word_of_nat (length r) div 4 :: u32) = length r div 4"
    by (simp add: unat_div)
  then show ?thesis by (simp add: sample_count_def assms(1))
qed

text \<open>The two regions of a lock, cut at a sample.\<close>

lemma locked_regions:
  assumes "fx_ready audio d i mem" and "len1 \<le> 176400" and "4 dvd len1"
  obtains k where "len1 = 4 * k" and "k \<le> 44100"
    and "length (take len1 mem) = 4 * k" and "length (take (176400 - len1) (drop len1 mem)) = 4 * (44100 - k)"
    and "sample_count (take len1 mem) 4 = Some k"
    and "sample_count (take (176400 - len1) (drop len1 mem)) 4 = Some (44100 - k)"
proof -
  from \<open>4 dvd len1\<close> obtain k where k: "len1 = 4 * k" by (elim dvdE)
  have l: "length (take len1 mem) = 4 * k" "length (take (176400 - len1) (drop len1 mem)) = 4 * (44100 - k)"
    using assms by (auto simp: fx_ready_def k)
  have "k \<le> 44100" using assms(2) k by simp
  with l show ?thesis
    by (intro that [OF k] sample_count_4) simp_all
qed

lemma with_locked_ready:
  assumes "fx_ready audio d i mem" and "len1 \<le> 176400"
    and "work game_buffer (take len1 mem) (take (176400 - len1) (drop len1 mem)) = Some (r1, r2)"
  shows "with_locked len1 audio work d = Some (set_bytes i (r1 @ r2 @ drop 176400 mem) d)"
  using assms by (auto simp: with_locked_def fx_ready_def set_bytes_def)

lemma fill_ready:
  assumes ready: "fx_ready audio d i mem" and len1: "len1 \<le> 176400" and "4 dvd len1"
  shows "fill_sound_buffer len1 audio d =
    Some (set_bytes i (square_wave 0 44100 @ drop 176400 mem) d)"
proof -
  let ?r1 = "take len1 mem" and ?r2 = "take (176400 - len1) (drop len1 mem)"
  obtain k where k: "len1 = 4 * k" "k \<le> 44100" and l: "length ?r1 = 4 * k" "length ?r2 = 4 * (44100 - k)"
    and n: "sample_count ?r1 4 = Some k" "sample_count ?r2 4 = Some (44100 - k)"
    by (rule locked_regions [OF assms])
  have f1: "fill_loop k 0 ?r1 True 0 = Some (square_wave 0 k, even (k div 201), word_of_nat (k mod 201))"
    using fill_whole [OF l(1), of 0] by simp
  have f2: "fill_loop (44100 - k) 0 ?r2 (even (k div 201)) (word_of_nat (k mod 201)) =
      Some (square_wave k (44100 - k), False, 81)"
    using fill_whole [OF l(2), of k] k(2) by simp
  have "square_wave 0 k @ square_wave k (44100 - k) = square_wave 0 44100"
    using square_wave_add [of 0 k "44100 - k"] k(2) by simp
  then show ?thesis
    unfolding fill_sound_buffer_def
    by (subst with_locked_ready [OF ready len1, of _ "square_wave 0 k" "square_wave k (44100 - k)"])
      (simp_all add: n f1 f2 del: append_assoc, simp add: append_assoc [symmetric] del: append_assoc)
qed

lemma clear_ready:
  assumes ready: "fx_ready audio d i mem" and len1: "len1 \<le> 176400" and "4 dvd len1"
  shows "clear_sound_buffer len1 audio d =
    Some (set_bytes i (replicate 176400 0 @ drop 176400 mem) d)"
proof -
  let ?r1 = "take len1 mem" and ?r2 = "take (176400 - len1) (drop len1 mem)"
  obtain k where k: "len1 = 4 * k" "k \<le> 44100" and l: "length ?r1 = 4 * k" "length ?r2 = 4 * (44100 - k)"
    and n: "sample_count ?r1 4 = Some k" "sample_count ?r2 4 = Some (44100 - k)"
    by (rule locked_regions [OF assms])
  have f: "clear_loop k 0 ?r1 = Some (replicate (4 * k) 0)"
    "clear_loop (44100 - k) 0 ?r2 = Some (replicate (4 * (44100 - k)) 0)"
    by (rule clear_whole [OF l(1)], rule clear_whole [OF l(2)])
  have "replicate (4 * k) 0 @ replicate (4 * (44100 - k)) 0 = (replicate 176400 0 :: u8 list)"
    using k(2) unfolding replicate_add [symmetric] by simp
  then show ?thesis
    unfolding clear_sound_buffer_def
    by (subst with_locked_ready [OF ready len1, of _ "replicate (4 * k) 0" "replicate (4 * (44100 - k)) 0"])
      (simp_all add: n f del: append_assoc, simp add: append_assoc [symmetric] del: append_assoc)
qed

lemma fx_ready_set_bytes:
  "fx_ready audio d i mem \<Longrightarrow> 176400 \<le> length mem' \<Longrightarrow> fx_ready audio (set_bytes i mem' d) i mem'"
  by (auto simp: fx_ready_def set_bytes_def)

section \<open>The life of the audio\<close>

text \<open>The struct after an initialisation in which everything succeeds, and after the music is loaded.\<close>

definition started :: "nat \<Rightarrow> nat \<Rightarrow> nat \<Rightarrow> nat ptr \<Rightarrow> u8 list ptr option \<Rightarrow> audio_t" where
  "started dev p f music work =
     \<lparr>direct_sound = Some dev, primary_buffer = Some p, fx_sound_buffer = Some f,
      music_sound_buffer = music, sound_buf = Some game_buffer,
      au_wav_format = Some (wave_format game_buffer), work_buffer = work\<rparr>"

lemma audio_init_succeeds:
  "audio_init True True True True dev (Some (p, pm)) (Some (f, fm)) d =
    (Some (started dev p f None None), d(p \<mapsto> new_buffer pm, f \<mapsto> new_buffer fm))"
  by (simp add: audio_init_def started_def make_buffer_def)

definition wav_file :: "WAVHeader \<Rightarrow> u8 list \<Rightarrow> u8 list \<Rightarrow> u8 list" where
  "wav_file h extra samples = format_image h @ extra @ data_tag @ le32_bytes (data_size h) @ samples"

lemma load_wav_file_copies:
  assumes "length garbage = 44" and "header_ok h"
    and "\<And>r. r < length extra \<Longrightarrow> take 4 (drop r (extra @ data_tag)) \<noteq> data_tag"
    and "unat (data_size h) \<le> length samples"
    and "music (data_size h) = Some (m, mm)" and "unat (data_size h) \<le> length mm"
  shows "load_wav_file (Some (wav_file h extra samples)) garbage music (started dev p f x y) d =
    Some (started dev p f (Some m) (Some (Some (wav_file h extra samples))),
      d(m \<mapsto> new_buffer (take (unat (data_size h)) samples @ drop (unat (data_size h)) mm)))"
proof -
  note len = format_image_length [OF assms(2)]
  have tag: "length data_tag = 4" by (simp add: data_tag_def)
  have "length (header_image h) = 44" "take 4 (drop 40 (header_image h)) = le32_bytes (data_size h)"
    using len assms(2) tag by (simp_all add: header_image_def header_ok_def)
  then have size: "little2big_u32 (header_image h) 40 = Some (data_size h)"
    by (simp add: little2big_u32_def rd_bytes_def)
  have "rd_bytes (wav_file h extra samples) (44 + length extra) (unat (data_size h)) =
      Some (take (unat (data_size h)) samples)"
    using len tag assms(4) by (simp add: wav_file_def rd_bytes_def)
  then show ?thesis
    using parse_file [OF assms(1-3), of samples] size assms(4-6)
    by (simp add: load_wav_file_def wav_file_def started_def wr_bytes_def min_absorb2)
qed


definition one_second :: "u8 list" where
  "one_second = replicate 176400 7"

lemma one_second_length [simp]: "length one_second = 176400"
  by (simp only: one_second_def length_replicate)


text \<open>When DirectSound cannot be created or its cooperative level cannot be set, audio_init
  nevertheless returns an object, with its buffers uninitialised: filling, playing, and even
  destroying it is undefined; when the library is missing it returns NULL, which main does not
  check.\<close>

theorem audio_failed_init:
  assumes "\<not> (dll \<and> proc \<and> created \<and> coop)"
  shows "case audio_init dll proc created coop dev prim fx d of
      (None, d') \<Rightarrow> \<not> (dll \<and> proc) \<and> d' = d
    | (Some audio, d') \<Rightarrow> dll \<and> proc \<and> d' = d \<and> fill_sound_buffer fcut audio d' = None \<and>
        play_sound_buffer audio d' = None \<and> play_music audio d' = None \<and> audio_destroy fcut audio d' = None"
  using assms
  by (cases dll; cases proc; cases created; cases coop)
    (simp_all add: audio_init_def fill_sound_buffer_def with_locked_def play_sound_buffer_def
      play_music_def play_def audio_destroy_def clear_sound_buffer_def)

theorem audio_failed_init_witness:
  "\<exists>audio. audio_init True True False False 0 None None (\<lambda>_. None) = (Some audio, \<lambda>_. None) \<and>
     audio_destroy 0 audio (\<lambda>_. None) = None"
  using audio_failed_init [where dll = True and proc = True and created = False and coop = False
      and dev = 0 and prim = None and fx = None and d = "\<lambda>_. None" and fcut = 0]
  by (auto split: prod.splits option.splits simp: audio_init_def)

end
