(* ===== verification/Timer.thy ===== *)
theory Timer
  imports Math3d
begin

text \<open>
  The clock of \<^verbatim>\<open>timer.c\<close> and the timer objects of \<^verbatim>\<open>timer_object.c\<close>.

  The two operating system calls are outside: an operation that reads the performance counter
  takes its value as an argument.  A \<open>double\<close> is read as a real number, as a \<open>float\<close> is in
  \<^verbatim>\<open>Math3d\<close>; the conversion of a \<open>double\<close> that does not fit into the integer type is undefined.
  Timer objects live in a store, because a child reads the state of its parent.
\<close>

section \<open>Conversions\<close>

definition c_trunc :: "f32 \<Rightarrow> int" where
  "c_trunc x = (if 0 \<le> x then \<lfloor>x\<rfloor> else \<lceil>x\<rceil>)"

definition c_u64 :: "f32 \<Rightarrow> u64 option" where
  "c_u64 x = (let n = c_trunc x in if 0 \<le> n \<and> n < 2 ^ 64 then Some (word_of_int n) else None)"

definition c_u32 :: "f32 \<Rightarrow> u32 option" where
  "c_u32 x = (let n = c_trunc x in if 0 \<le> n \<and> n < 2 ^ 32 then Some (word_of_int n) else None)"

section \<open>The clock (timer.c)\<close>

record clock =
  s_ticks_start :: u64
  s_us_per_tick :: f32
  s_ms_per_tick :: f32

definition clock0 :: clock where
  "clock0 = \<lparr>s_ticks_start = 0, s_us_per_tick = 1 / 1000, s_ms_per_tick = 1 / 1000000\<rparr>"

text \<open>\<open>counter\<close> is what \<^verbatim>\<open>QueryPerformanceCounter\<close> stores, \<open>freq\<close> what
  \<^verbatim>\<open>QueryPerformanceFrequency\<close> does.\<close>

definition timer_get_ticks :: "clock \<Rightarrow> u64 \<Rightarrow> u64" where
  "timer_get_ticks c counter = counter - s_ticks_start c"

definition timer_get_ticks_per_second :: "u64 \<Rightarrow> u64" where
  "timer_get_ticks_per_second freq = freq"

definition timer_startup :: "clock \<Rightarrow> u64 \<Rightarrow> u64 \<Rightarrow> clock" where
  "timer_startup c counter freq =
     (let start = timer_get_ticks c counter;
          ticks_per_second = timer_get_ticks_per_second freq
      in c\<lparr>s_ticks_start := start,
           s_us_per_tick := 1000000 / real (unat ticks_per_second),
           s_ms_per_tick := 1000 / real (unat ticks_per_second)\<rparr>)"

definition timer_ticks_to_us :: "clock \<Rightarrow> u64 \<Rightarrow> u64 option" where
  "timer_ticks_to_us c t = c_u64 (real (unat t) * s_us_per_tick c)"

definition timer_ticks_to_ms :: "clock \<Rightarrow> u64 \<Rightarrow> u32 option" where
  "timer_ticks_to_ms c t = c_u32 (real (unat t) * s_ms_per_tick c)"

section \<open>Timer objects (timer_object.c)\<close>

record timer_object_t =
  current_ticks :: u64
  delta_ticks :: u64
  tm_parent :: "nat ptr"
  bias_ticks :: u64
  tm_scale :: f32
  tm_paused :: bool

type_synonym timers = "nat \<Rightarrow> timer_object_t option"

text \<open>The time base of a timer: \<^verbatim>\<open>parent ? parent->current_ticks : timer_get_ticks()\<close>.\<close>

definition base_ticks :: "timers \<Rightarrow> u64 \<Rightarrow> nat ptr \<Rightarrow> u64 option" where
  "base_ticks ts ticks parent =
     (case parent of None \<Rightarrow> Some ticks | Some p \<Rightarrow> map_option current_ticks (ts p))"

text \<open>\<open>a\<close> is the address the heap returns.\<close>

definition timer_object_create :: "timers \<Rightarrow> nat \<Rightarrow> nat ptr \<Rightarrow> u64 \<Rightarrow> timers option" where
  "timer_object_create ts a parent ticks = do {
     base \<leftarrow> base_ticks ts ticks parent;
     Some (ts(a \<mapsto> \<lparr>current_ticks = 0, delta_ticks = 0, tm_parent = parent, bias_ticks = base,
                    tm_scale = 1, tm_paused = False\<rparr>))
   }"

definition timer_object_destroy :: "timers \<Rightarrow> nat \<Rightarrow> timers option" where
  "timer_object_destroy ts a = map_option (\<lambda>_. ts(a := None)) (ts a)"

definition timer_object_update :: "timers \<Rightarrow> nat \<Rightarrow> u64 \<Rightarrow> timers option" where
  "timer_object_update ts a ticks = do {
     t \<leftarrow> ts a;
     if \<not> tm_paused t then do {
       parent_ticks \<leftarrow> base_ticks ts ticks (tm_parent t);
       delta \<leftarrow> c_u64 (real (unat (parent_ticks - bias_ticks t)) * tm_scale t);
       Some (ts(a \<mapsto> t\<lparr>delta_ticks := delta, current_ticks := current_ticks t + delta,
                      bias_ticks := parent_ticks\<rparr>))
     }
     else Some ts
   }"

definition timer_object_get_us :: "clock \<Rightarrow> timers \<Rightarrow> nat \<Rightarrow> u64 option" where
  "timer_object_get_us c ts a = do { t \<leftarrow> ts a; timer_ticks_to_us c (current_ticks t) }"

definition timer_object_get_ms :: "clock \<Rightarrow> timers \<Rightarrow> nat \<Rightarrow> u32 option" where
  "timer_object_get_ms c ts a = do { t \<leftarrow> ts a; timer_ticks_to_ms c (current_ticks t) }"

definition timer_object_get_delta_us :: "clock \<Rightarrow> timers \<Rightarrow> nat \<Rightarrow> u64 option" where
  "timer_object_get_delta_us c ts a = do { t \<leftarrow> ts a; timer_ticks_to_us c (delta_ticks t) }"

definition timer_object_get_delta_ms :: "clock \<Rightarrow> timers \<Rightarrow> nat \<Rightarrow> u32 option" where
  "timer_object_get_delta_ms c ts a = do { t \<leftarrow> ts a; timer_ticks_to_ms c (delta_ticks t) }"

definition timer_object_set_scale :: "timers \<Rightarrow> nat \<Rightarrow> f32 \<Rightarrow> timers option" where
  "timer_object_set_scale ts a s = do { t \<leftarrow> ts a; Some (ts(a \<mapsto> t\<lparr>tm_scale := s\<rparr>)) }"

definition timer_object_pause :: "timers \<Rightarrow> nat \<Rightarrow> timers option" where
  "timer_object_pause ts a = do { t \<leftarrow> ts a; Some (ts(a \<mapsto> t\<lparr>tm_paused := True\<rparr>)) }"

definition timer_object_resume :: "timers \<Rightarrow> nat \<Rightarrow> u64 \<Rightarrow> timers option" where
  "timer_object_resume ts a ticks = do {
     t \<leftarrow> ts a;
     if tm_paused t then do {
       base \<leftarrow> base_ticks ts ticks (tm_parent t);
       Some (ts(a \<mapsto> t\<lparr>bias_ticks := base, tm_paused := False\<rparr>))
     }
     else Some ts
   }"

lemmas timer_ops = timer_object_update_def timer_object_pause_def timer_object_resume_def

section \<open>Units\<close>

lemma c_trunc_of_nat_mult: "0 \<le> x \<Longrightarrow> c_trunc (real n * x) = \<lfloor>real n * x\<rfloor>"
  by (simp add: c_trunc_def)

lemma floor_ratio: "0 < f \<Longrightarrow> \<lfloor>real n * (real k / real f)\<rfloor> = int (n * k div f)"
  by (metis floor_divide_of_nat_eq of_nat_mult times_divide_eq_right)

lemma startup_units:
  "s_us_per_tick (timer_startup c counter freq) = 1000000 / real (unat freq)"
  "s_ms_per_tick (timer_startup c counter freq) = 1000 / real (unat freq)"
  by (simp_all add: timer_startup_def timer_get_ticks_per_second_def del: of_nat_unat)

lemma c_u64_nat: "c_trunc x = int n \<Longrightarrow> c_u64 x = (if n < 2 ^ 64 then Some (word_of_nat n) else None)"
  by (simp add: c_u64_def)

lemma c_u32_nat: "c_trunc x = int n \<Longrightarrow> c_u32 x = (if n < 2 ^ 32 then Some (word_of_nat n) else None)"
  by (simp add: c_u32_def)

lemma ticks_to_unit:
  assumes "0 < freq"
  shows "timer_ticks_to_us (timer_startup c counter freq) t =
      (if unat t * 1000000 div unat freq < 2 ^ 64
       then Some (word_of_nat (unat t * 1000000 div unat freq)) else None)"
    and "timer_ticks_to_ms (timer_startup c counter freq) t =
      (if unat t * 1000 div unat freq < 2 ^ 32
       then Some (word_of_nat (unat t * 1000 div unat freq)) else None)"
proof -
  have f: "0 < unat freq" using assms by (simp add: word_gt_0_no word_less_nat_alt)
  let ?us = "unat t * 1000000 div unat freq" and ?ms = "unat t * 1000 div unat freq"
  have us: "c_trunc (real (unat t) * (1000000 / real (unat freq))) = int ?us"
    using floor_ratio [OF f, of "unat t" 1000000]
    by (subst c_trunc_of_nat_mult) (simp_all only: of_nat_numeral divide_nonneg_nonneg of_nat_0_le_iff zero_le_numeral)
  have ms: "c_trunc (real (unat t) * (1000 / real (unat freq))) = int ?ms"
    using floor_ratio [OF f, of "unat t" 1000]
    by (subst c_trunc_of_nat_mult) (simp_all only: of_nat_numeral divide_nonneg_nonneg of_nat_0_le_iff zero_le_numeral)
  show "timer_ticks_to_us (timer_startup c counter freq) t = (if ?us < 2 ^ 64 then Some (word_of_nat ?us) else None)"
    by (simp only: timer_ticks_to_us_def startup_units c_u64_nat [OF us])
  show "timer_ticks_to_ms (timer_startup c counter freq) t = (if ?ms < 2 ^ 32 then Some (word_of_nat ?ms) else None)"
    by (simp only: timer_ticks_to_ms_def startup_units c_u32_nat [OF ms])
qed

section \<open>Events\<close>

datatype timer_event = Tick u64 | Pause | Resume u64

fun timer_do :: "nat \<Rightarrow> timer_event \<Rightarrow> timers \<Rightarrow> timers option" where
  "timer_do a (Tick n) ts = timer_object_update ts a n"
| "timer_do a Pause ts = timer_object_pause ts a"
| "timer_do a (Resume n) ts = timer_object_resume ts a n"

fun timer_run :: "nat \<Rightarrow> timer_event list \<Rightarrow> timers \<Rightarrow> timers option" where
  "timer_run a [] ts = Some ts"
| "timer_run a (e # es) ts = timer_do a e ts \<bind> timer_run a es"

lemma timer_run_append: "timer_run a (es @ fs) ts = timer_run a es ts \<bind> timer_run a fs"
  by (induction es arbitrary: ts) (simp_all add: bind_assoc split: Option.bind_splits)

text \<open>At normal speed the conversion through \<^verbatim>\<open>double\<close> is the identity.\<close>

lemma c_u64_unat [simp]: "c_u64 (real (unat w) * 1) = Some w"
proof -
  have "c_trunc (real (unat w) * 1) = int (unat w)"
    by (simp add: c_trunc_def del: of_nat_unat)
  moreover have "unat w < 2 ^ 64" using unsigned_less [of w] by simp
  ultimately show ?thesis by (simp only: c_u64_nat) simp
qed

text \<open>A running timer at normal speed: however often it is updated, the time it counts is the
  difference of the first and the newest reading.\<close>

lemma tick_normal:
  assumes "ts a = Some t" and "tm_scale t = 1" and "tm_parent t = None" and "\<not> tm_paused t"
  shows "timer_object_update ts a n =
    Some (ts(a \<mapsto> t\<lparr>delta_ticks := n - bias_ticks t,
      current_ticks := current_ticks t + (n - bias_ticks t), bias_ticks := n\<rparr>))"
  using assms c_u64_unat [of "n - bias_ticks t"]
  by (simp add: timer_object_update_def base_ticks_def del: of_nat_unat)

lemma ticks_normal:
  assumes "ts a = Some t" and "tm_scale t = 1" and "tm_parent t = None" and "\<not> tm_paused t"
  shows "\<exists>d. timer_run a (map Tick ns) ts = Some (ts(a \<mapsto> t\<lparr>delta_ticks := d,
    current_ticks := current_ticks t + (last (bias_ticks t # ns) - bias_ticks t),
    bias_ticks := last (bias_ticks t # ns)\<rparr>))"
  using assms
proof (induction ns arbitrary: ts t)
  case Nil
  then show ?case
    by (intro exI [of _ "delta_ticks t"]) (cases t, auto)
next
  case (Cons n ns)
  let ?t = "t\<lparr>delta_ticks := n - bias_ticks t,
      current_ticks := current_ticks t + (n - bias_ticks t), bias_ticks := n\<rparr>"
  let ?l = "last (n # ns)"
  have t: "(ts(a \<mapsto> ?t)) a = Some ?t" "tm_scale ?t = 1" "tm_parent ?t = None" "\<not> tm_paused ?t"
    using Cons.prems by simp_all
  obtain d where d: "timer_run a (map Tick ns) (ts(a \<mapsto> ?t)) = Some ((ts(a \<mapsto> ?t))(a \<mapsto> ?t\<lparr>delta_ticks := d,
      current_ticks := current_ticks ?t + (last (bias_ticks ?t # ns) - bias_ticks ?t),
      bias_ticks := last (bias_ticks ?t # ns)\<rparr>))"
    using Cons.IH [of "ts(a \<mapsto> ?t)" ?t, OF t] by blast
  have "current_ticks t + (n - bias_ticks t) + (?l - n) = current_ticks t + (?l - bias_ticks t)"
    by simp
  then have "timer_run a (map Tick (n # ns)) ts = Some (ts(a \<mapsto> t\<lparr>delta_ticks := d,
      current_ticks := current_ticks t + (?l - bias_ticks t), bias_ticks := ?l\<rparr>))"
    using d by (simp add: tick_normal [of ts a t, OF Cons.prems] del: last.simps)
  moreover have "last (bias_ticks t # n # ns) = ?l" by simp
  ultimately show ?case by (metis (no_types))
qed

text \<open>While the timer is paused an update does nothing: not even the last delta is reset.\<close>

lemma ticks_paused:
  assumes "ts a = Some t" and "tm_paused t"
  shows "timer_run a (map Tick ns) ts = Some ts"
  using assms by (induction ns) (simp_all add: timer_object_update_def)

section \<open>What a timer counts\<close>

text \<open>A session: the readings at which the timer is resumed, at which it is updated until the
  next pause, and at which it is updated in vain before the next resume.\<close>

type_synonym session = "u64 \<times> u64 list \<times> u64 list"

fun session_events :: "session \<Rightarrow> timer_event list" where
  "session_events (r, ns, ms) = Resume r # map Tick ns @ Pause # map Tick ms"

fun session_time :: "session \<Rightarrow> u64" where
  "session_time (r, ns, ms) = last (r # ns) - r"

lemma session_run:
  assumes "ts a = Some t" and "tm_scale t = 1" and "tm_parent t = None" and "tm_paused t"
  shows "\<exists>t'. timer_run a (session_events s) ts = Some (ts(a \<mapsto> t')) \<and> tm_scale t' = 1 \<and>
    tm_parent t' = None \<and> tm_paused t' \<and> current_ticks t' = current_ticks t + session_time s"
proof -
  obtain r ns ms where s: "s = (r, ns, ms)" by (cases s)
  let ?t = "t\<lparr>bias_ticks := r, tm_paused := False\<rparr>"
  have r: "timer_object_resume ts a r = Some (ts(a \<mapsto> ?t))"
    using assms by (simp add: timer_object_resume_def base_ticks_def)
  define l where "l = last (r # ns)"
  obtain d where n: "timer_run a (map Tick ns) (ts(a \<mapsto> ?t)) = Some ((ts(a \<mapsto> ?t))(a \<mapsto> ?t\<lparr>delta_ticks := d,
      current_ticks := current_ticks t + (l - r), bias_ticks := l\<rparr>))"
    using ticks_normal [of "ts(a \<mapsto> ?t)" a ?t ns] assms unfolding l_def by auto
  let ?u = "?t\<lparr>delta_ticks := d, current_ticks := current_ticks t + (l - r),
      bias_ticks := l, tm_paused := True\<rparr>"
  have m: "timer_run a (map Tick ms) (ts(a \<mapsto> ?u)) = Some (ts(a \<mapsto> ?u))"
    by (rule ticks_paused [of _ a ?u]) simp_all
  have "timer_run a (session_events s) ts = Some (ts(a \<mapsto> ?u))"
    using r n m by (simp add: s timer_run_append timer_object_pause_def)
  moreover have "session_time s = l - r" by (simp only: s session_time.simps l_def)
  ultimately show ?thesis
    using assms by (intro exI [of _ ?u] conjI) simp_all
qed

lemma sessions_run:
  assumes "ts a = Some t" and "tm_scale t = 1" and "tm_parent t = None" and "tm_paused t"
  shows "\<exists>t'. timer_run a (concat (map session_events ss)) ts = Some (ts(a \<mapsto> t')) \<and>
    current_ticks t' = current_ticks t + sum_list (map session_time ss)"
  using assms
proof (induction ss arbitrary: ts t)
  case Nil
  then show ?case by (intro exI [of _ t]) auto
next
  case (Cons s ss)
  obtain t1 where t1: "timer_run a (session_events s) ts = Some (ts(a \<mapsto> t1))" "tm_scale t1 = 1"
    "tm_parent t1 = None" "tm_paused t1" "current_ticks t1 = current_ticks t + session_time s"
    using session_run [of ts a t, OF Cons.prems] by blast
  obtain t2 where "timer_run a (concat (map session_events ss)) (ts(a \<mapsto> t1)) = Some ((ts(a \<mapsto> t1))(a \<mapsto> t2))"
    "current_ticks t2 = current_ticks t1 + sum_list (map session_time ss)"
    using Cons.IH [of "ts(a \<mapsto> t1)" t1, OF fun_upd_same t1(2-4)] by blast
  with t1 have "timer_run a (concat (map session_events (s # ss))) ts = Some (ts(a \<mapsto> t2))"
    "current_ticks t2 = current_ticks t + sum_list (map session_time (s # ss))"
    by (simp_all add: timer_run_append add.assoc)
  then show ?case by blast
qed

text \<open>Creating a timer is resuming one that was never run.\<close>

definition never_run :: timer_object_t where
  "never_run = \<lparr>current_ticks = 0, delta_ticks = 0, tm_parent = None, bias_ticks = 0,
     tm_scale = 1, tm_paused = True\<rparr>"

lemma create_is_resume:
  "timer_object_create ts a None r = timer_do a (Resume r) (ts(a \<mapsto> never_run))"
  by (simp add: timer_object_create_def timer_object_resume_def base_ticks_def never_run_def)



text \<open>A child that is updated in the same frame as its parent counts the parent's time, pauses and
  scaling of the parent included.\<close>

lemma child_counts_parent_time:
  assumes "ts p = Some tp" and "ts ch = Some tc" and "tm_parent tc = Some p"
    and "tm_scale tc = 1" and "\<not> tm_paused tc"
  shows "timer_object_update ts ch n = Some (ts(ch \<mapsto> tc\<lparr>delta_ticks := current_ticks tp - bias_ticks tc,
    current_ticks := current_ticks tc + (current_ticks tp - bias_ticks tc), bias_ticks := current_ticks tp\<rparr>))"
  using assms c_u64_unat [of "current_ticks tp - bias_ticks tc"]
  by (simp add: timer_object_update_def base_ticks_def del: of_nat_unat)

text \<open>A paused timer goes on reporting the delta of its last update, so a client that moves by
  the delta of every frame does not stop.\<close>

lemma paused_delta_stale:
  assumes "ts a = Some t" and "tm_paused t"
  shows "timer_run a (map Tick ns) ts \<bind> (\<lambda>ts'. timer_object_get_delta_ms c ts' a) =
    timer_ticks_to_ms c (delta_ticks t)"
  using assms by (simp add: ticks_paused timer_object_get_delta_ms_def)

end
