(* ===== verification/Game_World.thy ===== *)
theory Game_World
  imports Ecs_World Math3d
begin

text \<open>
  What the two games share: the component types, the loop over a query, and the drawing of the
  models.

  The memory of a component type is read as the array of its 512 values: the pointer to the
  component of slot \<open>i\<close> is the index \<open>i\<close>, and an access outside the array is undefined.  That the
  pointers the entity system returns are such elements is shown in \<^verbatim>\<open>Ecs_World\<close>.
\<close>

section \<open>Components\<close>

record camera_component_t =
  cam_projection :: mat4f_t
  cam_view :: mat4f_t

datatype resource = cube | enemy

record model_component_t =
  mesh_info :: "resource option"
  shader_info :: "resource option"

text \<open>A model that was pushed to the renderer: the entity, the model, and the uniforms.\<close>

record drawn_model =
  dr_entity :: ecs_entity_ref_t
  dr_model :: model_component_t
  dr_projection :: mat4f_t
  dr_matrix :: mat4f_t
  dr_view :: mat4f_t

record game_world =
  game_ecs :: ecs_t
  transform_type :: int
  camera_type :: int
  model_type :: int
  player_type :: int
  name_type :: int
  transforms :: "transform_t list"
  cameras :: "camera_component_t list"
  models :: "model_component_t list"
  players :: "c_int list"
  names :: "string list"
  pushed :: "drawn_model list"

text \<open>\<^verbatim>\<open>1ULL << type\<close>.\<close>

definition type_bit :: "int \<Rightarrow> u64" where
  "type_bit t = push_bit (nat t) 1"

text \<open>The element the pointer to a component of an entity points to; \<open>None\<close> for NULL.\<close>

definition comp_slot :: "ecs_t \<Rightarrow> ecs_entity_ref_t \<Rightarrow> int \<Rightarrow> nat option" where
  "comp_slot ecs ref ct = do {
     p \<leftarrow> ecs_entity_get_component ecs ref ct True;
     _ \<leftarrow> p;
     Some (nat (entity ref))
   }"

text \<open>The pointer a query returns is not checked: for an invalid query it is the element -1.\<close>

definition query_slot :: "ecs_t \<Rightarrow> ecs_query_t \<Rightarrow> int \<Rightarrow> int option" where
  "query_slot ecs q ct = map_option (\<lambda>_. query_entity q) (ecs_query_get_component ecs q ct)"

definition put_transform :: "nat \<Rightarrow> transform_t \<Rightarrow> 'a game_world_scheme \<Rightarrow> 'a game_world_scheme option" where
  "put_transform i t g = map_option (\<lambda>ts. g\<lparr>transforms := ts\<rparr>) (arr_set (transforms g) i t)"

definition put_name :: "nat \<Rightarrow> string \<Rightarrow> 'a game_world_scheme \<Rightarrow> 'a game_world_scheme option" where
  "put_name i s g = map_option (\<lambda>ns. g\<lparr>names := ns\<rparr>) (arr_set (names g) i s)"

definition put_player :: "nat \<Rightarrow> c_int \<Rightarrow> 'a game_world_scheme \<Rightarrow> 'a game_world_scheme option" where
  "put_player i n g = map_option (\<lambda>ps. g\<lparr>players := ps\<rparr>) (arr_set (players g) i n)"

definition put_model :: "nat \<Rightarrow> resource \<Rightarrow> 'a game_world_scheme \<Rightarrow> 'a game_world_scheme option" where
  "put_model i r g =
     map_option (\<lambda>ms. g\<lparr>models := ms\<rparr>)
       (arr_set (models g) i \<lparr>mesh_info = Some r, shader_info = Some r\<rparr>)"

definition put_camera :: "nat \<Rightarrow> camera_component_t \<Rightarrow> 'a game_world_scheme \<Rightarrow> 'a game_world_scheme option" where
  "put_camera i c g = map_option (\<lambda>cs. g\<lparr>cameras := cs\<rparr>) (arr_set (cameras g) i c)"

lemmas put_defs = put_transform_def put_name_def put_player_def put_model_def put_camera_def

section \<open>The loop over a query\<close>

lemma query_next_decreases:
  assumes "ecs_query_is_valid q"
  shows "(if query_entity (ecs_query_next e q) < 0 then 0 else 1 + nat (512 - query_entity (ecs_query_next e q)))
    < (if query_entity q < 0 then 0 else 1 + nat (512 - query_entity q))"
  using assms by (auto simp: ecs_query_is_valid_def ecs_query_next_def scan_Some_iff split: option.splits)

text \<open>\<^verbatim>\<open>for (q = create(..); is_valid(q); next(q)) body\<close>, where the body may change the entities.\<close>

function for_query ::
  "('g \<Rightarrow> ecs_t) \<Rightarrow> (ecs_query_t \<Rightarrow> 'g \<Rightarrow> 'g option) \<Rightarrow> ecs_query_t \<Rightarrow> 'g \<Rightarrow> 'g option" where
  "for_query ecs_of body q g =
     (if ecs_query_is_valid q then
        (case body q g of
           None \<Rightarrow> None
         | Some g' \<Rightarrow> for_query ecs_of body (ecs_query_next (ecs_of g') q) g')
      else Some g)"
  by pat_completeness auto
termination
  by (relation "measure (\<lambda>(ecs_of, body, q, g).
      if query_entity q < 0 then 0 else 1 + nat (512 - query_entity q))")
    (simp_all only: in_measure prod.case query_next_decreases wf_measure)

declare for_query.simps [simp del]

definition query_loop ::
  "u64 \<Rightarrow> (ecs_query_t \<Rightarrow> 'a game_world_scheme \<Rightarrow> 'a game_world_scheme option) \<Rightarrow>
   'a game_world_scheme \<Rightarrow> 'a game_world_scheme option" where
  "query_loop m body g = for_query game_ecs body (ecs_query_create (game_ecs g) m) g"

text \<open>The reference: the body for a list of slots, one after the other.\<close>

fun for_slots :: "(nat \<Rightarrow> 'g \<Rightarrow> 'g option) \<Rightarrow> nat list \<Rightarrow> 'g \<Rightarrow> 'g option" where
  "for_slots body [] g = Some g"
| "for_slots body (i # is) g = body i g \<bind> for_slots body is"

definition query_at :: "u64 \<Rightarrow> nat \<Rightarrow> ecs_query_t" where
  "query_at m i = \<lparr>component_mask = m, query_entity = int i\<rparr>"

lemma scan_filter:
  "scan P i n = Some j \<Longrightarrow> filter P [i..<n] = j # filter P [Suc j..<n]"
  "scan P i n = None \<Longrightarrow> filter P [i..<n] = []"
proof -
  assume "scan P i n = Some j"
  then have j: "i \<le> j" "j < n" "P j" "\<And>k. i \<le> k \<Longrightarrow> k < j \<Longrightarrow> \<not> P k"
    by (auto simp: scan_Some_iff)
  then have "[i..<n] = [i..<j] @ j # [Suc j..<n]"
    using upt_add_eq_append [of i j "n - j"] by (simp add: upt_conv_Cons)
  with j(3,4) show "filter P [i..<n] = j # filter P [Suc j..<n]"
    by (simp add: filter_empty_conv)
qed (auto simp: scan_None_iff filter_empty_conv)

text \<open>
  A body that does not change which slots match runs once for every slot that matched at the
  start, in order.
\<close>

locale steady_loop =
  fixes inv :: "'a game_world_scheme \<Rightarrow> bool"
    and m :: u64
    and body :: "ecs_query_t \<Rightarrow> 'a game_world_scheme \<Rightarrow> 'a game_world_scheme option"
  assumes body_steady: "inv g \<Longrightarrow> i < 512 \<Longrightarrow> query_match (game_ecs g) m i \<Longrightarrow> body (query_at m i) g = Some g' \<Longrightarrow>
      inv g' \<and> (\<forall>j < 512. query_match (game_ecs g') m j = query_match (game_ecs g) m j)"
begin

lemma loop_from:
  assumes "inv g"
  shows "for_query game_ecs body (ecs_query_next (game_ecs g) \<lparr>component_mask = m, query_entity = int i - 1\<rparr>) g =
    for_slots (\<lambda>j. body (query_at m j)) (filter (query_match (game_ecs g) m) [i..<512]) g"
  using assms
proof (induction "512 - i" arbitrary: i g rule: less_induct)
  case less
  show ?case
  proof (cases "scan (query_match (game_ecs g) m) i 512")
    case None
    with scan_filter(2) [OF None] show ?thesis
      by (simp add: ecs_query_next_at for_query.simps ecs_query_is_valid_def)
  next
    case (Some j)
    then have j: "i \<le> j" "j < 512" "query_match (game_ecs g) m j"
      by (auto simp: scan_Some_iff)
    note f = scan_filter(1) [OF Some]
    have q: "ecs_query_next (game_ecs g) \<lparr>component_mask = m, query_entity = int i - 1\<rparr> = query_at m j"
      using Some by (simp add: ecs_query_next_at query_at_def)
    show ?thesis
    proof (cases "body (query_at m j) g")
      case None
      then show ?thesis
        unfolding q f by (simp add: for_query.simps ecs_query_is_valid_def query_at_def)
    next
      case (Some g')
      note keep = body_steady [OF less.prems j(2,3) Some]
      have n: "query_at m j = \<lparr>component_mask = m, query_entity = int (Suc j) - 1\<rparr>"
        by (simp add: query_at_def)
      have rest: "for_query game_ecs body (ecs_query_next (game_ecs g') (query_at m j)) g' =
          for_slots (\<lambda>j. body (query_at m j)) (filter (query_match (game_ecs g') m) [Suc j..<512]) g'"
        unfolding n using j(1,2) keep by (intro less.hyps) auto
      have same: "filter (query_match (game_ecs g') m) [Suc j..<512] =
          filter (query_match (game_ecs g) m) [Suc j..<512]"
        using keep by (intro filter_cong) auto
      have "for_query game_ecs body (query_at m j) g =
          for_query game_ecs body (ecs_query_next (game_ecs g') (query_at m j)) g'"
        using Some by (subst for_query.simps) (simp add: ecs_query_is_valid_def query_at_def)
      then show ?thesis
        by (simp only: q f for_slots.simps Some bind.bind_lunit rest same)
    qed
  qed
qed

lemma loop_slots:
  assumes "inv g"
  shows "query_loop m body g =
    for_slots (\<lambda>j. body (query_at m j)) (filter (query_match (game_ecs g) m) [0..<512]) g"
  using loop_from [OF assms, of 0] by (simp add: query_loop_def ecs_query_create_def)

end

lemma query_create_hd:
  assumes "filter (query_match e m) [0..<512] \<noteq> []"
  shows "ecs_query_create e m = query_at m (hd (filter (query_match e m) [0..<512]))"
proof (cases "scan (query_match e m) 0 512")
  case None
  with assms show ?thesis by (simp add: scan_filter(2))
next
  case (Some j)
  with ecs_query_next_at [of e m 0] show ?thesis
    by (simp add: scan_filter(1) ecs_query_create_def query_at_def)
qed

section \<open>Drawing\<close>

definition draw_model ::
  "int \<Rightarrow> ecs_query_t \<Rightarrow> 'a game_world_scheme \<Rightarrow> 'a game_world_scheme option" where
  "draw_model camera_comp q g = do {
     t \<leftarrow> query_slot (game_ecs g) q (transform_type g);
     m \<leftarrow> query_slot (game_ecs g) q (model_type g);
     ref \<leftarrow> ecs_query_get_entity (game_ecs g) q;
     camera \<leftarrow> arr_at (cameras g) camera_comp;
     transform \<leftarrow> arr_at (transforms g) t;
     model \<leftarrow> arr_at (models g) m;
     Some (g\<lparr>pushed := pushed g @ [\<lparr>dr_entity = ref, dr_model = model,
       dr_projection = cam_projection camera, dr_matrix = transform_to_matrix transform,
       dr_view = cam_view camera\<rparr>]\<rparr>)
   }"

definition draw_models :: "'a game_world_scheme \<Rightarrow> 'a game_world_scheme option" where
  "draw_models g =
     query_loop (type_bit (camera_type g)) (\<lambda>camera_query g. do {
       camera_comp \<leftarrow> query_slot (game_ecs g) camera_query (camera_type g);
       query_loop (type_bit (transform_type g) OR type_bit (model_type g)) (draw_model camera_comp) g
     }) g"

section \<open>What is drawn\<close>

definition match_slots :: "'a game_world_scheme \<Rightarrow> u64 \<Rightarrow> nat list" where
  "match_slots g m = filter (query_match (game_ecs g) m) [0..<512]"

definition drawn_at :: "'a game_world_scheme \<Rightarrow> nat \<Rightarrow> nat \<Rightarrow> drawn_model" where
  "drawn_at g c j =
     \<lparr>dr_entity = \<lparr>entity = int j, sequence = sequences (game_ecs g) ! j\<rparr>, dr_model = models g ! j,
      dr_projection = cam_projection (cameras g ! c), dr_matrix = transform_to_matrix (transforms g ! j),
      dr_view = cam_view (cameras g ! c)\<rparr>"

definition drawn :: "'a game_world_scheme \<Rightarrow> drawn_model list" where
  "drawn g = concat (map (\<lambda>c. map (drawn_at g c)
     (match_slots g (type_bit (transform_type g) OR type_bit (model_type g))))
     (match_slots g (type_bit (camera_type g))))"

lemma for_slots_push:
  assumes "\<And>x j. j \<in> set L \<Longrightarrow> body j (g\<lparr>pushed := x\<rparr>) = Some (g\<lparr>pushed := x @ f j\<rparr>)"
  shows "for_slots body L (g\<lparr>pushed := x\<rparr>) = Some (g\<lparr>pushed := x @ concat (map f L)\<rparr>)"
  using assms by (induction L arbitrary: x) simp_all

lemma draw_model_ecs: "draw_model c q g = Some g' \<Longrightarrow> game_ecs g' = game_ecs g"
  by (auto simp: draw_model_def bind_eq_Some_conv)

interpretation draws: steady_loop "\<lambda>_. True" m "draw_model c" for m c
  by unfold_locales (simp add: draw_model_ecs)

lemma for_slots_ecs:
  "(\<And>j g g'. body j g = Some g' \<Longrightarrow> game_ecs g' = game_ecs g) \<Longrightarrow> for_slots body L g = Some g' \<Longrightarrow>
   game_ecs g' = game_ecs g"
  by (induction L arbitrary: g) (force simp: bind_eq_Some_conv)+

definition draw_camera :: "ecs_query_t \<Rightarrow> 'a game_world_scheme \<Rightarrow> 'a game_world_scheme option" where
  "draw_camera camera_query g = do {
     camera_comp \<leftarrow> query_slot (game_ecs g) camera_query (camera_type g);
     query_loop (type_bit (transform_type g) OR type_bit (model_type g)) (draw_model camera_comp) g
   }"

lemma draw_camera_ecs: "draw_camera q g = Some g' \<Longrightarrow> game_ecs g' = game_ecs g"
proof -
  assume "draw_camera q g = Some g'"
  then obtain c L where "for_slots (\<lambda>j. draw_model c (query_at
      (type_bit (transform_type g) OR type_bit (model_type g)) j)) L g = Some g'"
    by (auto simp: draw_camera_def bind_eq_Some_conv draws.loop_slots)
  then show "game_ecs g' = game_ecs g"
    by (rule for_slots_ecs [rotated]) (rule draw_model_ecs)
qed

interpretation draw_cameras: steady_loop "\<lambda>_. True" m draw_camera for m
  by unfold_locales (simp add: draw_camera_ecs)

definition world_ok :: "'a game_world_scheme \<Rightarrow> bool" where
  "world_ok g \<longleftrightarrow> ecs_ok (game_ecs g) \<and> length (transforms g) = 512 \<and> length (cameras g) = 512 \<and>
     length (models g) = 512 \<and> (\<forall>t \<in> {transform_type g, camera_type g, model_type g}. 0 \<le> t \<and> t < 64)"

lemma query_slot_ok:
  "ecs_ok e \<Longrightarrow> 0 \<le> t \<Longrightarrow> t < 64 \<Longrightarrow> query_slot e q t = Some (query_entity q)"
  by (simp add: query_slot_def ecs_query_get_component_def ecs_get_component_type_size_def ecs_ok_def
      nat_less_iff)

lemma draw_models_eq:
  assumes ok: "world_ok g"
  shows "draw_models g = Some (g\<lparr>pushed := pushed g @ drawn g\<rparr>)"
proof -
  let ?ms = "match_slots g (type_bit (transform_type g) OR type_bit (model_type g))"
  let ?cs = "match_slots g (type_bit (camera_type g))"
  have ecs: "ecs_ok (game_ecs g)" using ok by (simp add: world_ok_def)
  have len: "length (sequences (game_ecs g)) = 512" using ecs by (simp add: ecs_ok_def)
  note slot = query_slot_ok [OF ecs]
  have model: "draw_model (int c) (query_at m j) (g\<lparr>pushed := x\<rparr>) = Some (g\<lparr>pushed := x @ [drawn_at g c j]\<rparr>)"
    if "c < 512" "j < 512" for m c j x
    using ok that len
    by (simp add: draw_model_def slot world_ok_def query_at_def ecs_query_get_entity_def arr_at_def drawn_at_def)
  have camera: "draw_camera (query_at m c) (g\<lparr>pushed := x\<rparr>) = Some (g\<lparr>pushed := x @ map (drawn_at g c) ?ms\<rparr>)"
    if "c < 512" for m c x
  proof -
    have "for_slots (\<lambda>j. draw_model (int c) (query_at k j)) ?ms (g\<lparr>pushed := x\<rparr>) =
        Some (g\<lparr>pushed := x @ concat (map (\<lambda>j. [drawn_at g c j]) ?ms)\<rparr>)" for k
      by (rule for_slots_push) (rule model [OF that], simp add: match_slots_def)
    then show ?thesis
      using ok by (simp add: draw_camera_def slot world_ok_def query_at_def [of m] draws.loop_slots
          match_slots_def)
  qed
  have "draw_models g = query_loop (type_bit (camera_type g)) draw_camera (g\<lparr>pushed := pushed g\<rparr>)"
    by (simp add: draw_models_def draw_camera_def [abs_def])
  also have "\<dots> = Some (g\<lparr>pushed := pushed g @ drawn g\<rparr>)"
    unfolding draw_cameras.loop_slots [OF TrueI] drawn_def
    by (subst for_slots_push [where f = "\<lambda>c. map (drawn_at g c) ?ms"])
      (simp_all add: camera match_slots_def)
  finally show ?thesis .
qed

end
