(* ===== verification/Frogger.thy ===== *)
theory Frogger
  imports Game_World Timer Wm
begin

text \<open>
  The game of \<^verbatim>\<open>frogger_game.c\<close>: a player that crosses three rows of trucks.

  The game is the shared \<open>game_world\<close> with the fields only this game has.  \<open>rnd k\<close> is the result of
  the \<open>k\<close>-th call of \<^verbatim>\<open>rand\<close>; \<open>sounds\<close> counts the calls of \<^verbatim>\<open>play_sound_buffer\<close>.  The shaders
  and meshes are the resources \<open>cube\<close> and \<open>enemy\<close>.
\<close>

section \<open>State\<close>

record frogger_game_t = game_world +
  truck1_type :: int
  truck2_type :: int
  truck3_type :: int
  player_ent :: ecs_entity_ref_t
  truck1_ent :: ecs_entity_ref_t
  truck2_ent :: ecs_entity_ref_t
  truck3_ent :: ecs_entity_ref_t
  camera_ent :: ecs_entity_ref_t
  game_timers :: timers
  game_timer :: nat
  rands :: nat
  sounds :: nat

definition float_rand :: "(nat \<Rightarrow> int) \<Rightarrow> f32 \<Rightarrow> f32 \<Rightarrow> frogger_game_t \<Rightarrow> f32 \<times> frogger_game_t" where
  "float_rand rnd lo hi g =
     (let k = of_int (rnd (rands g)) / 32767 in (lo + k * (hi - lo), g\<lparr>rands := rands g + 1\<rparr>))"

definition TestAABBCollision :: "transform_t \<Rightarrow> transform_t \<Rightarrow> bool" where
  "TestAABBCollision a b =
     (let a_max_y = vy (translation a) + vy (scale a); a_min_y = vy (translation a) - vy (scale a);
          b_max_y = vy (translation b) + vy (scale b); b_min_y = vy (translation b) - vy (scale b);
          a_max_z = vz (translation a) + vz (scale a); a_min_z = vz (translation a) - vz (scale a);
          b_max_z = vz (translation b) + vz (scale b); b_min_z = vz (translation b) - vz (scale b);
          d1x = b_min_y - a_max_y; d1y = b_min_z - a_max_z;
          d2x = a_min_y - b_max_y; d2y = a_min_z - b_max_z
      in if 0 < d1x \<or> 0 < d1y then False
         else if 0 < d2x \<or> 0 < d2y then False
         else True)"

section \<open>Spawning\<close>

definition with_y :: "f32 \<Rightarrow> transform_t \<Rightarrow> transform_t" where
  "with_y y t = t\<lparr>translation := (translation t)\<lparr>vy := y\<rparr>\<rparr>"

definition with_z :: "f32 \<Rightarrow> transform_t \<Rightarrow> transform_t" where
  "with_z z t = t\<lparr>translation := (translation t)\<lparr>vz := z\<rparr>\<rparr>"

definition with_scale_y :: "f32 \<Rightarrow> transform_t \<Rightarrow> transform_t" where
  "with_scale_y y t = t\<lparr>scale := (scale t)\<lparr>vy := y\<rparr>\<rparr>"

definition spawn_player :: "c_int \<Rightarrow> frogger_game_t \<Rightarrow> frogger_game_t option" where
  "spawn_player index g = do {
     let k_player_ent_mask = type_bit (transform_type g) OR type_bit (model_type g) OR
       type_bit (player_type g) OR type_bit (name_type g);
     let (ref, ecs) = ecs_entity_add (game_ecs g) k_player_ent_mask;
     let g = g\<lparr>game_ecs := ecs, player_ent := ref\<rparr>;
     i \<leftarrow> comp_slot (game_ecs g) (player_ent g) (transform_type g);
     g \<leftarrow> put_transform i (with_z 12 transform_identity) g;
     i \<leftarrow> comp_slot (game_ecs g) (player_ent g) (name_type g);
     g \<leftarrow> put_name i ''player'' g;
     i \<leftarrow> comp_slot (game_ecs g) (player_ent g) (player_type g);
     g \<leftarrow> put_player i index g;
     i \<leftarrow> comp_slot (game_ecs g) (player_ent g) (model_type g);
     put_model i cube g
   }"

text \<open>The part the three loops of \<^verbatim>\<open>spawn_truck\<close> share, after the entity \<open>ref\<close> is added.\<close>

definition setup_truck ::
  "ecs_entity_ref_t \<Rightarrow> transform_t \<Rightarrow> string \<Rightarrow> c_int \<Rightarrow> frogger_game_t \<Rightarrow> frogger_game_t option" where
  "setup_truck ref transform name index g = do {
     i \<leftarrow> comp_slot (game_ecs g) ref (transform_type g);
     g \<leftarrow> put_transform i transform g;
     i \<leftarrow> comp_slot (game_ecs g) ref (name_type g);
     g \<leftarrow> put_name i name g;
     i \<leftarrow> comp_slot (game_ecs g) ref (player_type g);
     g \<leftarrow> put_player i index g;
     i \<leftarrow> comp_slot (game_ecs g) ref (model_type g);
     put_model i enemy g
   }"

definition spawn_truck1 :: "(nat \<Rightarrow> int) \<Rightarrow> c_int \<Rightarrow> nat \<Rightarrow> frogger_game_t \<Rightarrow> frogger_game_t option" where
  "spawn_truck1 rnd index i g = do {
     let k_truck1_ent_mask = type_bit (transform_type g) OR type_bit (model_type g) OR
       type_bit (truck1_type g) OR type_bit (name_type g);
     let (ref, ecs) = ecs_entity_add (game_ecs g) k_truck1_ent_mask;
     let (k, g) = float_rand rnd (14 / 10) 2 (g\<lparr>game_ecs := ecs, truck1_ent := ref\<rparr>);
     setup_truck ref (with_scale_y k (with_y (8 * real i - 24) (with_z 8 transform_identity)))
       ''truck1'' index g
   }"

definition spawn_truck2 :: "(nat \<Rightarrow> int) \<Rightarrow> c_int \<Rightarrow> nat \<Rightarrow> frogger_game_t \<Rightarrow> frogger_game_t option" where
  "spawn_truck2 rnd index i g = do {
     let k_truck2_ent_mask = type_bit (transform_type g) OR type_bit (model_type g) OR
       type_bit (truck2_type g) OR type_bit (name_type g);
     let (ref, ecs) = ecs_entity_add (game_ecs g) k_truck2_ent_mask;
     let (k, g) = float_rand rnd (18 / 10) (28 / 10) (g\<lparr>game_ecs := ecs, truck2_ent := ref\<rparr>);
     setup_truck ref (with_scale_y k (with_y (12 * real i - 24) transform_identity))
       ''truck2'' index g
   }"

definition spawn_truck3 :: "(nat \<Rightarrow> int) \<Rightarrow> c_int \<Rightarrow> nat \<Rightarrow> frogger_game_t \<Rightarrow> frogger_game_t option" where
  "spawn_truck3 rnd index i g = do {
     let k_truck3_ent_mask = type_bit (transform_type g) OR type_bit (model_type g) OR
       type_bit (truck3_type g) OR type_bit (name_type g);
     let (ref, ecs) = ecs_entity_add (game_ecs g) k_truck3_ent_mask;
     let (k, g) = float_rand rnd (18 / 10) 4 (g\<lparr>game_ecs := ecs, truck3_ent := ref\<rparr>);
     setup_truck ref (with_scale_y k (with_y (16 * real i - 24) (with_z (- 8) transform_identity)))
       ''truck3'' index g
   }"

definition spawn_truck :: "(nat \<Rightarrow> int) \<Rightarrow> c_int \<Rightarrow> frogger_game_t \<Rightarrow> frogger_game_t option" where
  "spawn_truck rnd index g = do {
     g \<leftarrow> for_slots (spawn_truck1 rnd index) [0..<6] g;
     g \<leftarrow> for_slots (spawn_truck2 rnd index) [0..<4] g;
     for_slots (spawn_truck3 rnd index) [0..<3] g
   }"

definition spawn_camera :: "frogger_game_t \<Rightarrow> frogger_game_t option" where
  "spawn_camera g = do {
     let k_camera_ent_mask = type_bit (camera_type g) OR type_bit (name_type g);
     let (ref, ecs) = ecs_entity_add (game_ecs g) k_camera_ent_mask;
     let g = g\<lparr>game_ecs := ecs, camera_ent := ref\<rparr>;
     i \<leftarrow> comp_slot (game_ecs g) (camera_ent g) (name_type g);
     g \<leftarrow> put_name i ''camera'' g;
     i \<leftarrow> comp_slot (game_ecs g) (camera_ent g) (camera_type g);
     let eye_pos = vec3f_scale vec3f_forward (- 5);
     put_camera i \<lparr>cam_projection = mat4f_make_orthographic 16 9 (1 / 10) 15,
       cam_view = mat4f_make_lookat eye_pos vec3f_forward vec3f_up\<rparr> g
   }"

section \<open>Creation\<close>

text \<open>
  The component types, with the sizes and alignments of their structs; \<open>alloc\<close> is the heap, as in
  \<^verbatim>\<open>Ecs\<close>.  A new block is cleared, so every component starts as zeros and a model as two NULL
  pointers.
\<close>

definition register_types ::
  "(u64 \<Rightarrow> u64 \<Rightarrow> u8 list ptr) \<Rightarrow> frogger_game_t \<Rightarrow> frogger_game_t option" where
  "register_types alloc g = do {
     (t, e) \<leftarrow> ecs_register_component_type (game_ecs g) ''transform'' 40 4 alloc;
     let g = g\<lparr>transform_type := t\<rparr>;
     (t, e) \<leftarrow> ecs_register_component_type e ''camera'' 128 4 alloc;
     let g = g\<lparr>camera_type := t\<rparr>;
     (t, e) \<leftarrow> ecs_register_component_type e ''model'' 16 8 alloc;
     let g = g\<lparr>model_type := t\<rparr>;
     (t, e) \<leftarrow> ecs_register_component_type e ''player'' 4 4 alloc;
     let g = g\<lparr>player_type := t\<rparr>;
     (t, e) \<leftarrow> ecs_register_component_type e ''truck1'' 4 4 alloc;
     let g = g\<lparr>truck1_type := t\<rparr>;
     (t, e) \<leftarrow> ecs_register_component_type e ''truck2'' 4 4 alloc;
     let g = g\<lparr>truck2_type := t\<rparr>;
     (t, e) \<leftarrow> ecs_register_component_type e ''truck3'' 4 4 alloc;
     let g = g\<lparr>truck3_type := t\<rparr>;
     (t, e) \<leftarrow> ecs_register_component_type e ''name'' 32 1 alloc;
     Some (g\<lparr>name_type := t, game_ecs := e\<rparr>)
   }"

definition zero_transform :: transform_t where
  "zero_transform = \<lparr>translation = vec3f_zero, scale = vec3f_zero, rotation = \<lparr>qv = vec3f_zero, qs = 0\<rparr>\<rparr>"

definition zero_camera :: camera_component_t where
  "zero_camera = \<lparr>cam_projection = replicate 4 (replicate 4 0), cam_view = replicate 4 (replicate 4 0)\<rparr>"

text \<open>\<open>a\<close> is the address of the new timer and \<open>ticks\<close> the reading of the clock; \<open>mem\<close>: the heap returned
  memory for the entities.  The resources are in place.\<close>

definition empty_game :: "ecs_t \<Rightarrow> timers \<Rightarrow> nat \<Rightarrow> frogger_game_t" where
  "empty_game e ts a =
     (let none = \<lparr>entity = 0, sequence = 0\<rparr> in
      \<lparr>game_ecs = e, transform_type = 0, camera_type = 0, model_type = 0, player_type = 0, name_type = 0,
       transforms = replicate 512 zero_transform, cameras = replicate 512 zero_camera,
       models = replicate 512 \<lparr>mesh_info = None, shader_info = None\<rparr>,
       players = replicate 512 0, names = replicate 512 [], pushed = [],
       truck1_type = 0, truck2_type = 0, truck3_type = 0,
       player_ent = none, truck1_ent = none, truck2_ent = none, truck3_ent = none, camera_ent = none,
       game_timers = ts, game_timer = a, rands = 0, sounds = 0\<rparr>)"

definition frogger_game_create ::
  "(nat \<Rightarrow> int) \<Rightarrow> (u64 \<Rightarrow> u64 \<Rightarrow> u8 list ptr) \<Rightarrow> bool \<Rightarrow> timers \<Rightarrow> nat \<Rightarrow> u64 \<Rightarrow>
   frogger_game_t option" where
  "frogger_game_create rnd alloc mem ts a ticks = do {
     ts \<leftarrow> timer_object_create ts a None ticks;
     e \<leftarrow> ecs_create mem;
     g \<leftarrow> register_types alloc (empty_game e ts a);
     g \<leftarrow> spawn_player 0 g;
     g \<leftarrow> spawn_truck rnd 1 g;
     spawn_camera g
   }"

section \<open>The frame\<close>

text \<open>The movement the held keys ask for.\<close>

definition player_move :: "u32 \<Rightarrow> f32 \<Rightarrow> transform_t" where
  "player_move kmask dt =
     (let t = vec3f_zero;
          t = (if kmask AND k_key_up \<noteq> 0 then vec3f_add t (vec3f_scale vec3f_up (- dt)) else t);
          t = (if kmask AND k_key_down \<noteq> 0 then vec3f_add t (vec3f_scale vec3f_up dt) else t);
          t = (if kmask AND k_key_left \<noteq> 0 then vec3f_add t (vec3f_scale vec3f_right (- dt)) else t);
          t = (if kmask AND k_key_right \<noteq> 0 then vec3f_add t (vec3f_scale vec3f_right dt) else t)
      in transform_identity\<lparr>translation := t\<rparr>)"

definition remove_queried :: "ecs_query_t \<Rightarrow> frogger_game_t \<Rightarrow> frogger_game_t option" where
  "remove_queried q g = do {
     ref \<leftarrow> ecs_query_get_entity (game_ecs g) q;
     ecs \<leftarrow> ecs_entity_remove (game_ecs g) ref False;
     Some (g\<lparr>game_ecs := ecs\<rparr>)
   }"

definition update_player ::
  "u32 \<Rightarrow> f32 \<Rightarrow> ecs_query_t \<Rightarrow> frogger_game_t \<Rightarrow> frogger_game_t option" where
  "update_player kmask dt q g = do {
     p \<leftarrow> query_slot (game_ecs g) q (transform_type g);
     _ \<leftarrow> query_slot (game_ecs g) q (player_type g);
     t \<leftarrow> arr_at (transforms g) p;
     g \<leftarrow> (if vz (translation t) < - 12 then do {
            g \<leftarrow> remove_queried q g;
            spawn_player 0 g
          } else Some g);
     t \<leftarrow> arr_at (transforms g) p;
     put_transform (nat p) (transform_multiply t (player_move kmask dt)) g
   }"

definition update_players :: "u32 \<Rightarrow> u32 \<Rightarrow> frogger_game_t \<Rightarrow> frogger_game_t option" where
  "update_players delta_ms kmask g =
     (let dt = real (unat delta_ms) * (5 / 1000)
      in query_loop (type_bit (transform_type g) OR type_bit (player_type g))
           (update_player kmask dt) g)"

text \<open>The body of the three truck loops; \<open>player_query\<close> and the element \<open>player\<close> are fixed before
  the loops, \<open>step\<close> is the distance of the row.\<close>

definition update_truck ::
  "ecs_query_t \<Rightarrow> int \<Rightarrow> f32 \<Rightarrow> ecs_query_t \<Rightarrow> frogger_game_t \<Rightarrow> frogger_game_t option" where
  "update_truck player_query player step q g = do {
     p \<leftarrow> query_slot (game_ecs g) q (transform_type g);
     t \<leftarrow> arr_at (transforms g) p;
     let t = with_y (vy (translation t) + step) t;
     let t = (if 24 < vy (translation t) then with_y (vy (translation t) * - 1) t else t);
     g \<leftarrow> put_transform (nat p) t g;
     t' \<leftarrow> arr_at (transforms g) player;
     if TestAABBCollision t t' then do {
       g \<leftarrow> remove_queried player_query g;
       spawn_player 0 (g\<lparr>sounds := sounds g + 1\<rparr>)
     }
     else Some g
   }"

definition update_trucks :: "u32 \<Rightarrow> frogger_game_t \<Rightarrow> frogger_game_t option" where
  "update_trucks delta_ms g = do {
     let dt = real (unat delta_ms) * (2 / 1000);
     let player_query = ecs_query_create (game_ecs g) (type_bit (transform_type g) OR type_bit (player_type g));
     player \<leftarrow> query_slot (game_ecs g) player_query (transform_type g);
     g \<leftarrow> query_loop (type_bit (transform_type g) OR type_bit (truck1_type g))
       (update_truck player_query player dt) g;
     g \<leftarrow> query_loop (type_bit (transform_type g) OR type_bit (truck2_type g))
       (update_truck player_query player (dt * 2)) g;
     query_loop (type_bit (transform_type g) OR type_bit (truck3_type g))
       (update_truck player_query player (dt * 4)) g
   }"

text \<open>\<open>ticks\<close> is the reading of the clock; \<^verbatim>\<open>render_push_done\<close> has no effect on the game.\<close>

definition frogger_game_update ::
  "clock \<Rightarrow> u64 \<Rightarrow> wm_window_t \<Rightarrow> frogger_game_t \<Rightarrow> frogger_game_t option" where
  "frogger_game_update c ticks win g = do {
     ts \<leftarrow> timer_object_update (game_timers g) (game_timer g) ticks;
     let g = g\<lparr>game_timers := ts, game_ecs := ecs_update (game_ecs g)\<rparr>;
     delta_ms \<leftarrow> timer_object_get_delta_ms c (game_timers g) (game_timer g);
     g \<leftarrow> update_players delta_ms (wm_get_key_mask win) g;
     g \<leftarrow> update_trucks delta_ms g;
     draw_models g
   }"

end
