(* ===== verification/Frogger_Steps.thy ===== *)
theory Frogger_Steps
  imports Frogger
begin

text \<open>
  The invariant of the frogger game, and what one spawn, one removal, one player and one truck do
  to it.
\<close>

section \<open>The invariant\<close>

definition player_mask :: u64 where "player_mask = 141"
definition truck1_mask :: u64 where "truck1_mask = 149"
definition truck2_mask :: u64 where "truck2_mask = 165"
definition truck3_mask :: u64 where "truck3_mask = 197"
definition camera_mask :: u64 where "camera_mask = 130"

lemmas mask_defs' = player_mask_def truck1_mask_def truck2_mask_def truck3_mask_def camera_mask_def

abbreviation slot_state :: "frogger_game_t \<Rightarrow> nat \<Rightarrow> entity_state_t" where
  "slot_state g j \<equiv> entity_states (game_ecs g) ! j"

abbreviation slot_mask :: "frogger_game_t \<Rightarrow> nat \<Rightarrow> u64" where
  "slot_mask g j \<equiv> component_masks (game_ecs g) ! j"

definition used_slot :: "frogger_game_t \<Rightarrow> nat \<Rightarrow> bool" where
  "used_slot g j \<longleftrightarrow> j < 512 \<and> slot_state g j \<noteq> k_entity_unused"

definition seen_slot :: "frogger_game_t \<Rightarrow> nat \<Rightarrow> bool" where
  "seen_slot g j \<longleftrightarrow> j < 512 \<and> slot_state g j \<in> {k_entity_active, k_entity_pending_remove}"

definition free_slots :: "frogger_game_t \<Rightarrow> nat" where
  "free_slots g = card {j. j < 512 \<and> slot_state g j = k_entity_unused}"

text \<open>The component types are registered in the order of \<^verbatim>\<open>frogger_game_create\<close>.\<close>

definition types_ok :: "frogger_game_t \<Rightarrow> bool" where
  "types_ok g \<longleftrightarrow> transform_type g = 0 \<and> camera_type g = 1 \<and> model_type g = 2 \<and> player_type g = 3 \<and>
     truck1_type g = 4 \<and> truck2_type g = 5 \<and> truck3_type g = 6 \<and> name_type g = 7 \<and>
     (\<forall>ct < 8. components (game_ecs g) ! ct \<noteq> None)"

definition memory_ok :: "'a game_world_scheme \<Rightarrow> bool" where
  "memory_ok g \<longleftrightarrow> length (transforms g) = 512 \<and> length (cameras g) = 512 \<and> length (models g) = 512 \<and>
     length (players g) = 512 \<and> length (names g) = 512"

definition kinds_ok :: "frogger_game_t \<Rightarrow> bool" where
  "kinds_ok g \<longleftrightarrow> (\<forall>j. used_slot g j \<longrightarrow>
     slot_mask g j \<in> {player_mask, truck1_mask, truck2_mask, truck3_mask, camera_mask})"

definition game_ok :: "frogger_game_t \<Rightarrow> bool" where
  "game_ok g \<longleftrightarrow> ecs_ok (game_ecs g) \<and> types_ok g \<and> memory_ok g \<and> kinds_ok g"

lemma game_ok_lengths:
  "game_ok g \<Longrightarrow> length (entity_states (game_ecs g)) = 512"
  "game_ok g \<Longrightarrow> length (sequences (game_ecs g)) = 512"
  "game_ok g \<Longrightarrow> length (component_masks (game_ecs g)) = 512"
  "game_ok g \<Longrightarrow> length (components (game_ecs g)) = 64"
  "game_ok g \<Longrightarrow> length (component_type_sizes (game_ecs g)) = 64"
  "game_ok g \<Longrightarrow> length (transforms g) = 512"
  "game_ok g \<Longrightarrow> length (models g) = 512"
  "game_ok g \<Longrightarrow> length (players g) = 512"
  "game_ok g \<Longrightarrow> length (names g) = 512"
  "game_ok g \<Longrightarrow> length (cameras g) = 512"
  by (simp_all add: game_ok_def ecs_ok_def memory_ok_def)

lemma type_bits [simp]:
  "type_bit 0 = 1" "type_bit 1 = 2" "type_bit 2 = 4" "type_bit 3 = 8"
  "type_bit 4 = 16" "type_bit 5 = 32" "type_bit 6 = 64" "type_bit 7 = 128"
  by (simp_all add: type_bit_def)

section \<open>Spawning\<close>

definition spawned_ecs :: "ecs_t \<Rightarrow> nat \<Rightarrow> u64 \<Rightarrow> ecs_t" where
  "spawned_ecs e i m =
     e\<lparr>entity_states := (entity_states e)[i := k_entity_pending_add],
       sequences := (sequences e)[i := global_sequence e],
       global_sequence := global_sequence e + 1,
       component_masks := (component_masks e)[i := m]\<rparr>"

abbreviation spawned_ref :: "ecs_t \<Rightarrow> nat \<Rightarrow> ecs_entity_ref_t" where
  "spawned_ref e i \<equiv> \<lparr>entity = int i, sequence = global_sequence e\<rparr>"

lemma spawned_ecs_fields [simp]:
  "entity_states (spawned_ecs e i m) = (entity_states e)[i := k_entity_pending_add]"
  "component_masks (spawned_ecs e i m) = (component_masks e)[i := m]"
  "sequences (spawned_ecs e i m) = (sequences e)[i := global_sequence e]"
  "components (spawned_ecs e i m) = components e"
  "component_type_sizes (spawned_ecs e i m) = component_type_sizes e"
  by (simp_all add: spawned_ecs_def)

lemma spawned_ecs_ok: "ecs_ok e \<Longrightarrow> ecs_ok (spawned_ecs e i m)"
  by (simp add: ecs_ok_def spawned_ecs_def)

lemma free_slot_exists:
  assumes "0 < free_slots g"
  obtains i where "i < 512" and "slot_state g i = k_entity_unused"
proof -
  have "{j. j < 512 \<and> slot_state g j = k_entity_unused} \<noteq> {}"
    using assms by (metis free_slots_def card.empty less_irrefl)
  then show ?thesis using that by blast
qed

lemma add_entity:
  assumes "0 < free_slots g"
  obtains i where "i < 512" and "slot_state g i = k_entity_unused"
    and "\<And>j. j < i \<Longrightarrow> slot_state g j \<noteq> k_entity_unused"
    and "\<And>m. ecs_entity_add (game_ecs g) m = (spawned_ref (game_ecs g) i, spawned_ecs (game_ecs g) i m)"
proof (cases "scan (\<lambda>i. entity_states (game_ecs g) ! i = k_entity_unused) 0 k_max_entities")
  case None
  with free_slot_exists [OF assms] show ?thesis by (auto simp: scan_None_iff)
next
  case (Some i)
  then have "i < 512" "slot_state g i = k_entity_unused" "\<And>j. j < i \<Longrightarrow> slot_state g j \<noteq> k_entity_unused"
    by (auto simp: scan_Some_iff)
  then show ?thesis
    by (rule that) (simp_all add: Some ecs_entity_add_def spawned_ecs_def)
qed

lemma comp_slot_spawned:
  assumes "ecs_ok e" and "i < 512" and "ct < 64" and "components e ! nat ct \<noteq> None" and "0 \<le> ct"
  shows "comp_slot (spawned_ecs e i m) (spawned_ref e i) ct = Some i"
proof -
  have "length (entity_states e) = 512" "length (sequences e) = 512" "length (components e) = 64"
    "length (component_type_sizes e) = 64"
    using assms(1) by (simp_all add: ecs_ok_def)
  with assms show ?thesis
    by (simp add: comp_slot_def ecs_entity_get_component_def ecs_is_entity_ref_valid_def nat_less_iff)
qed

lemma comp_slot_game:
  assumes "game_ok g" and "i < 512" and "0 \<le> ct" and "ct < 8"
  shows "comp_slot (spawned_ecs (game_ecs g) i m) (spawned_ref (game_ecs g) i) ct = Some i"
  using assms by (intro comp_slot_spawned) (auto simp: game_ok_def types_ok_def nat_less_iff)

text \<open>The new transform of a player.\<close>

definition start :: transform_t where
  "start = with_z 12 transform_identity"

definition with_new ::
  "nat \<Rightarrow> u64 \<Rightarrow> transform_t \<Rightarrow> string \<Rightarrow> c_int \<Rightarrow> resource \<Rightarrow> frogger_game_t \<Rightarrow> frogger_game_t" where
  "with_new i m t name index r g =
     g\<lparr>game_ecs := spawned_ecs (game_ecs g) i m,
       transforms := (transforms g)[i := t], names := (names g)[i := name],
       players := (players g)[i := index],
       models := (models g)[i := \<lparr>mesh_info = Some r, shader_info = Some r\<rparr>]\<rparr>"

lemma spawn_player_eq:
  assumes ok: "game_ok g" and i: "i < 512"
    and add: "\<And>m. ecs_entity_add (game_ecs g) m = (spawned_ref (game_ecs g) i, spawned_ecs (game_ecs g) i m)"
  shows "spawn_player n g = Some
    (with_new i player_mask start ''player'' n cube g\<lparr>player_ent := spawned_ref (game_ecs g) i\<rparr>)"
proof -
  have t: "transform_type g = 0" "model_type g = 2" "player_type g = 3" "name_type g = 7"
    using ok by (simp_all add: game_ok_def types_ok_def)
  note slot = comp_slot_game [OF ok i]
  show ?thesis
    using i by (simp add: spawn_player_def Let_def add t slot put_defs game_ok_lengths [OF ok]
        with_new_def start_def player_mask_def)
qed

lemma setup_truck_eq:
  assumes ok: "game_ok g" and i: "i < 512" and m: "slot_state g i = k_entity_unused"
  shows "setup_truck (spawned_ref (game_ecs g) i) t name n (g\<lparr>game_ecs := spawned_ecs (game_ecs g) i m,
      truck1_ent := r1, truck2_ent := r2, truck3_ent := r3, rands := k\<rparr>) =
    Some (with_new i m t name n enemy g\<lparr>truck1_ent := r1, truck2_ent := r2, truck3_ent := r3, rands := k\<rparr>)"
proof -
  have t: "transform_type g = 0" "model_type g = 2" "player_type g = 3" "name_type g = 7"
    using ok by (simp_all add: game_ok_def types_ok_def)
  note slot = comp_slot_game [OF ok i]
  show ?thesis
    using i by (simp add: setup_truck_def t slot put_defs game_ok_lengths [OF ok] with_new_def)
qed

lemma with_new_ok:
  assumes "game_ok g" and "m \<in> {player_mask, truck1_mask, truck2_mask, truck3_mask, camera_mask}"
  shows "game_ok (with_new i m t name n r g)"
proof -
  have old: "kinds_ok g" using assms(1) by (simp add: game_ok_def)
  have "kinds_ok (with_new i m t name n r g)"
    unfolding kinds_ok_def
  proof (intro allI impI)
    fix j
    assume j: "used_slot (with_new i m t name n r g) j"
    show "slot_mask (with_new i m t name n r g) j \<in> {player_mask, truck1_mask, truck2_mask, truck3_mask, camera_mask}"
    proof (cases "j = i")
      case True
      with j assms(2) show ?thesis by (simp add: with_new_def used_slot_def game_ok_lengths [OF assms(1)])
    next
      case False
      with j have "used_slot g j" by (simp add: with_new_def used_slot_def)
      with old have "slot_mask g j \<in> {player_mask, truck1_mask, truck2_mask, truck3_mask, camera_mask}"
        unfolding kinds_ok_def by blast
      with False show ?thesis by (simp add: with_new_def)
    qed
  qed
  then show ?thesis
    using assms(1) by (simp add: game_ok_def spawned_ecs_ok with_new_def types_ok_def memory_ok_def)
qed

section \<open>How the game evolves\<close>

text \<open>
  \<open>evolves g T S n k g'\<close>: every entity of \<open>g\<close> is still there, with the transform \<open>T\<close> and the state
  \<open>S\<close> of its slot, \<open>n\<close> new players are pending at the start, and \<open>k\<close> sounds were played.
\<close>

definition newborn :: "frogger_game_t \<Rightarrow> nat \<Rightarrow> bool" where
  "newborn g j \<longleftrightarrow> slot_state g j = k_entity_pending_add \<and> slot_mask g j = player_mask \<and>
     transforms g ! j = start \<and> models g ! j = \<lparr>mesh_info = Some cube, shader_info = Some cube\<rparr>"

definition same_rest :: "frogger_game_t \<Rightarrow> frogger_game_t \<Rightarrow> bool" where
  "same_rest g g' \<longleftrightarrow> cameras g' = cameras g \<and> pushed g' = pushed g \<and> game_timers g' = game_timers g \<and>
     game_timer g' = game_timer g \<and> rands g' = rands g"

definition evolves ::
  "frogger_game_t \<Rightarrow> (nat \<Rightarrow> transform_t) \<Rightarrow> (nat \<Rightarrow> entity_state_t) \<Rightarrow> nat \<Rightarrow> nat \<Rightarrow> frogger_game_t \<Rightarrow> bool" where
  "evolves g T S n k g' \<longleftrightarrow> game_ok g' \<and>
     (\<forall>j. used_slot g j \<longrightarrow> used_slot g' j \<and> slot_mask g' j = slot_mask g j \<and>
        transforms g' ! j = T j \<and> slot_state g' j = S j \<and> models g' ! j = models g ! j \<and>
        sequences (game_ecs g') ! j = sequences (game_ecs g) ! j) \<and>
     (\<forall>j. used_slot g' j \<and> \<not> used_slot g j \<longrightarrow> newborn g' j) \<and>
     free_slots g = free_slots g' + n \<and> sounds g' = sounds g + k \<and> same_rest g g'"

lemma evolves_cong:
  assumes "evolves g T S n k g'" and "\<And>j. used_slot g j \<Longrightarrow> T j = T' j \<and> S j = S' j"
  shows "evolves g T' S' n k g'"
  using assms by (simp add: evolves_def)

lemma evolves_trans:
  assumes "evolves g T S n k g1" and "evolves g1 T' S' n' k' g2"
    and "\<And>j. used_slot g1 j \<Longrightarrow> \<not> used_slot g j \<Longrightarrow> T' j = transforms g1 ! j \<and> S' j = slot_state g1 j"
  shows "evolves g T' S' (n + n') (k + k') g2"
proof -
  have "newborn g2 j" if "used_slot g2 j" "\<not> used_slot g j" for j
  proof (cases "used_slot g1 j")
    case True
    with assms that(2) have "newborn g1 j" "slot_mask g2 j = slot_mask g1 j" "models g2 ! j = models g1 ! j"
      "transforms g2 ! j = transforms g1 ! j" "slot_state g2 j = slot_state g1 j"
      by (simp_all add: evolves_def)
    then show ?thesis by (simp add: newborn_def)
  next
    case False
    with assms(2) that show ?thesis by (simp add: evolves_def)
  qed
  with assms show ?thesis by (simp add: evolves_def same_rest_def)
qed

lemma used_slot_cong:
  "entity_states (game_ecs g') = entity_states (game_ecs g) \<Longrightarrow> used_slot g' j = used_slot g j"
  by (simp add: used_slot_def)

lemma evolves_same_ecs:
  assumes "game_ok g" and "game_ecs g' = game_ecs g" and "types_ok g'" and "memory_ok g'"
    and "models g' = models g" and "sounds g' = sounds g + k" and "same_rest g g'"
  shows "evolves g (\<lambda>j. transforms g' ! j) (\<lambda>j. slot_state g j) 0 k g'"
proof -
  have "free_slots g' = free_slots g" by (simp add: free_slots_def assms(2))
  with assms show ?thesis
    by (auto simp: evolves_def game_ok_def kinds_ok_def used_slot_def)
qed

lemma evolves_refl:
  "game_ok g \<Longrightarrow> evolves g (\<lambda>j. transforms g ! j) (\<lambda>j. slot_state g j) 0 0 g"
  by (rule evolves_same_ecs) (auto simp: game_ok_def same_rest_def)

lemma evolves_sound:
  "game_ok g \<Longrightarrow> evolves g (\<lambda>j. transforms g ! j) (\<lambda>j. slot_state g j) 0 1 (g\<lparr>sounds := sounds g + 1\<rparr>)"
  using evolves_same_ecs [of g "g\<lparr>sounds := sounds g + 1\<rparr>" 1]
  by (simp add: game_ok_def same_rest_def types_ok_def memory_ok_def)

lemma evolves_put:
  assumes ok: "game_ok g" and i: "i < 512"
  shows "\<exists>g'. put_transform i t g = Some g' \<and>
    evolves g (\<lambda>j. if j = i then t else transforms g ! j) (\<lambda>j. slot_state g j) 0 0 g'"
proof -
  let ?g = "g\<lparr>transforms := (transforms g)[i := t]\<rparr>"
  have "evolves g (\<lambda>j. transforms ?g ! j) (\<lambda>j. slot_state g j) 0 0 ?g"
    using ok by (intro evolves_same_ecs) (auto simp: game_ok_def same_rest_def types_ok_def memory_ok_def)
  then have "evolves g (\<lambda>j. if j = i then t else transforms g ! j) (\<lambda>j. slot_state g j) 0 0 ?g"
    by (rule evolves_cong) (use i game_ok_lengths [OF ok] in auto)
  then show ?thesis using i game_ok_lengths [OF ok] by (intro exI [of _ ?g]) (simp add: put_transform_def)
qed

lemma evolves_remove:
  assumes ok: "game_ok g" and i: "seen_slot g i"
  shows "\<exists>g'. remove_queried (query_at m i) g = Some g' \<and>
    evolves g (\<lambda>j. transforms g ! j) (\<lambda>j. if j = i then k_entity_pending_remove else slot_state g j) 0 0 g'"
proof -
  let ?e = "(game_ecs g)\<lparr>entity_states := (entity_states (game_ecs g))[i := k_entity_pending_remove]\<rparr>"
  let ?g = "g\<lparr>game_ecs := ?e\<rparr>"
  have lt: "i < 512" and state: "slot_state g i \<noteq> k_entity_unused" using i by (auto simp: seen_slot_def)
  note len = game_ok_lengths [OF ok]
  have rem: "remove_queried (query_at m i) g = Some ?g"
    using i lt len by (auto simp: remove_queried_def query_at_def ecs_query_get_entity_def
        ecs_entity_remove_def ecs_is_entity_ref_valid_def seen_slot_def)
  have used: "used_slot ?g j = used_slot g j" for j
    using len lt state by (auto simp: used_slot_def nth_list_update)
  have "{j. j < 512 \<and> slot_state ?g j = k_entity_unused} = {j. j < 512 \<and> slot_state g j = k_entity_unused}"
    using used unfolding used_slot_def by blast
  then have "free_slots ?g = free_slots g" by (simp only: free_slots_def)
  moreover have "game_ok ?g"
    using ok used by (simp add: game_ok_def types_ok_def memory_ok_def kinds_ok_def ecs_ok_def)
  ultimately have "evolves g (\<lambda>j. transforms g ! j)
      (\<lambda>j. if j = i then k_entity_pending_remove else slot_state g j) 0 0 ?g"
    using used len lt by (auto simp: evolves_def same_rest_def)
  with rem show ?thesis by blast
qed

lemma evolves_spawn:
  assumes ok: "game_ok g" and room: "0 < free_slots g"
  shows "\<exists>g'. spawn_player n g = Some g' \<and>
    evolves g (\<lambda>j. transforms g ! j) (\<lambda>j. slot_state g j) 1 0 g'"
proof -
  obtain i where i: "i < 512" "slot_state g i = k_entity_unused"
    and add: "\<And>m. ecs_entity_add (game_ecs g) m = (spawned_ref (game_ecs g) i, spawned_ecs (game_ecs g) i m)"
    using add_entity [OF room] by metis
  let ?g = "with_new i player_mask start ''player'' n cube g\<lparr>player_ent := spawned_ref (game_ecs g) i\<rparr>"
  note len = game_ok_lengths [OF ok]
  have used: "used_slot ?g j \<longleftrightarrow> used_slot g j \<or> j = i" for j
    using len i by (auto simp: used_slot_def with_new_def nth_list_update)
  have "{j. j < 512 \<and> slot_state g j = k_entity_unused} =
      insert i {j. j < 512 \<and> slot_state ?g j = k_entity_unused}"
    using used i unfolding used_slot_def by blast
  moreover have "i \<notin> {j. j < 512 \<and> slot_state ?g j = k_entity_unused}"
    using i len by (simp add: with_new_def)
  ultimately have "free_slots g = free_slots ?g + 1"
    by (simp add: free_slots_def)
  moreover have "game_ok ?g"
    using with_new_ok [OF ok, of player_mask i start "''player''" n cube]
    by (simp add: game_ok_def types_ok_def memory_ok_def kinds_ok_def used_slot_def)
  moreover have "newborn ?g i"
    using i len by (simp add: newborn_def with_new_def)
  moreover have "slot_mask ?g j = slot_mask g j \<and> transforms ?g ! j = transforms g ! j \<and>
      slot_state ?g j = slot_state g j \<and> models ?g ! j = models g ! j \<and>
      sequences (game_ecs ?g) ! j = sequences (game_ecs g) ! j" if "used_slot g j" for j
    using that i by (cases "j = i") (simp_all add: used_slot_def with_new_def)
  moreover have "sounds ?g = sounds g" "same_rest g ?g"
    by (simp_all add: with_new_def same_rest_def)
  ultimately have "evolves g (\<lambda>j. transforms g ! j) (\<lambda>j. slot_state g j) 1 0 ?g"
    using used unfolding evolves_def by auto
  with spawn_player_eq [OF ok i(1) add] show ?thesis by blast
qed

text \<open>Without a free slot the new reference is invalid, its components are NULL, and the game
  writes through NULL.\<close>

lemma spawn_player_full:
  assumes "game_ok g" and "free_slots g = 0"
  shows "spawn_player n g = None"
proof -
  have "finite {j. j < 512 \<and> slot_state g j = k_entity_unused}" by simp
  with assms(2) have "\<And>j. j < 512 \<Longrightarrow> slot_state g j \<noteq> k_entity_unused"
    unfolding free_slots_def by (auto simp: card_eq_0_iff)
  then have "scan (\<lambda>i. slot_state g i = k_entity_unused) 0 512 = None"
    by (simp add: scan_None_iff)
  then have "ecs_entity_add (game_ecs g) m = (\<lparr>entity = -1, sequence = -1\<rparr>, game_ecs g)" for m
    by (simp add: ecs_entity_add_def)
  then show ?thesis
    by (simp add: spawn_player_def Let_def comp_slot_def ecs_entity_get_component_def
        ecs_is_entity_ref_valid_def)
qed

section \<open>One truck, one player\<close>

lemma query_slot_game:
  assumes "game_ok g" and "0 \<le> ct" and "ct < 64"
  shows "query_slot (game_ecs g) q ct = Some (query_entity q)"
  using assms game_ok_lengths(5) [OF assms(1)]
  by (simp add: query_slot_def ecs_query_get_component_def ecs_get_component_type_size_def nat_less_iff)

lemma transform_at: "game_ok g \<Longrightarrow> i < 512 \<Longrightarrow> arr_at (transforms g) (int i) = Some (transforms g ! i)"
  using game_ok_lengths(6) [of g] by (simp add: arr_at_def)

lemma query_at_entity [simp]: "query_entity (query_at m i) = int i"
  by (simp add: query_at_def)

definition truck_step :: "f32 \<Rightarrow> transform_t \<Rightarrow> transform_t" where
  "truck_step step t =
     (let y = vy (translation t) + step in with_y (if 24 < y then - y else y) t)"

lemma truck_step_eq:
  "(let t = with_y (vy (translation t) + step) t
    in if 24 < vy (translation t) then with_y (vy (translation t) * - 1) t else t) = truck_step step t"
  by (simp add: truck_step_def with_y_def Let_def)

lemma truck_once:
  assumes ok: "game_ok g" and p: "seen_slot g p" and i: "i < 512" "i \<noteq> p"
    and hit: "hit \<longleftrightarrow> TestAABBCollision (truck_step step (transforms g ! i)) (transforms g ! p)"
    and room: "hit \<Longrightarrow> 0 < free_slots g"
  shows "\<exists>g'. update_truck (query_at mp p) (int p) step (query_at m i) g = Some g' \<and>
    evolves g (\<lambda>j. if j = i then truck_step step (transforms g ! i) else transforms g ! j)
      (\<lambda>j. if j = p \<and> hit then k_entity_pending_remove else slot_state g j) (of_bool hit) (of_bool hit) g'"
proof -
  have p512: "p < 512" and pu: "used_slot g p" using p by (auto simp: seen_slot_def used_slot_def)
  have ty: "transform_type g = 0" using ok by (simp add: game_ok_def types_ok_def)
  let ?t = "truck_step step (transforms g ! i)"
  obtain g1 where g1: "put_transform i ?t g = Some g1"
    and e1: "evolves g (\<lambda>j. if j = i then ?t else transforms g ! j) (\<lambda>j. slot_state g j) 0 0 g1"
    using evolves_put [OF ok i(1)] by blast
  have ok1: "game_ok g1" and tp: "transforms g1 ! p = transforms g ! p" and p1: "seen_slot g1 p"
    and free1: "free_slots g1 = free_slots g"
    using e1 pu p i(2) by (auto simp: evolves_def seen_slot_def)
  have step: "update_truck (query_at mp p) (int p) step (query_at m i) g =
      (if hit then do {
         g \<leftarrow> remove_queried (query_at mp p) g1;
         spawn_player 0 (g\<lparr>sounds := sounds g + 1\<rparr>)
       } else Some g1)"
    using g1 transform_at [OF ok1 p512]
    by (simp add: update_truck_def ty query_slot_game [OF ok] transform_at [OF ok i(1)] Let_def
        truck_step_eq [unfolded Let_def] tp hit del: query_at_def)
  show ?thesis
  proof (cases hit)
    case False
    have "evolves g (\<lambda>j. if j = i then ?t else transforms g ! j)
        (\<lambda>j. if j = p \<and> hit then k_entity_pending_remove else slot_state g j) 0 0 g1"
      by (rule evolves_cong [OF e1]) (simp add: False)
    with False step show ?thesis by auto
  next
    case True
    obtain g2 where g2: "remove_queried (query_at mp p) g1 = Some g2"
      and e2: "evolves g1 (\<lambda>j. transforms g1 ! j)
        (\<lambda>j. if j = p then k_entity_pending_remove else slot_state g1 j) 0 0 g2"
      using evolves_remove [OF ok1 p1] by blast
    let ?g3 = "g2\<lparr>sounds := sounds g2 + 1\<rparr>"
    have ok2: "game_ok g2" and free2: "free_slots g2 = free_slots g" using e2 free1 by (auto simp: evolves_def)
    note e3 = evolves_sound [OF ok2]
    have ok3: "game_ok ?g3" and free3: "0 < free_slots ?g3"
      using e3 free2 room [OF True] by (auto simp: evolves_def)
    obtain g4 where g4: "spawn_player 0 ?g3 = Some g4"
      and e4: "evolves ?g3 (\<lambda>j. transforms ?g3 ! j) (\<lambda>j. slot_state ?g3 j) 1 0 g4"
      using evolves_spawn [OF ok3 free3] by blast
    have e12: "evolves g (\<lambda>j. transforms g1 ! j)
        (\<lambda>j. if j = p then k_entity_pending_remove else slot_state g1 j) (0 + 0) (0 + 0) g2"
      by (rule evolves_trans [OF e1 e2]) (use pu in auto)
    have e123: "evolves g (\<lambda>j. transforms g2 ! j) (\<lambda>j. slot_state g2 j) (0 + 0 + 0) (0 + 0 + 1) ?g3"
      by (rule evolves_trans [OF e12 e3]) auto
    have "evolves g (\<lambda>j. transforms ?g3 ! j) (\<lambda>j. slot_state ?g3 j) (0 + 0 + 0 + 1) (0 + 0 + 1 + 0) g4"
      by (rule evolves_trans [OF e123 e4]) auto
    then have "evolves g (\<lambda>j. if j = i then ?t else transforms g ! j)
        (\<lambda>j. if j = p \<and> hit then k_entity_pending_remove else slot_state g j) 1 1 g4"
      using e1 e12 True by (auto simp: evolves_def)
    with True step g2 g4 show ?thesis by auto
  qed
qed

text \<open>What the player loop does with slot \<open>i\<close>.\<close>

definition fallen :: "transform_t \<Rightarrow> bool" where
  "fallen t \<longleftrightarrow> vz (translation t) < - 12"

lemma player_once:
  assumes ok: "game_ok g" and i: "seen_slot g i"
    and room: "fallen (transforms g ! i) \<Longrightarrow> 0 < free_slots g"
  shows "\<exists>g'. update_player kmask dt (query_at m i) g = Some g' \<and>
    evolves g (\<lambda>j. if j = i then transform_multiply (transforms g ! i) (player_move kmask dt) else transforms g ! j)
      (\<lambda>j. if j = i \<and> fallen (transforms g ! i) then k_entity_pending_remove else slot_state g j)
      (of_bool (fallen (transforms g ! i))) 0 g'"
proof -
  have lt: "i < 512" and iu: "used_slot g i" using i by (auto simp: seen_slot_def used_slot_def)
  have ty: "transform_type g = 0" "player_type g = 3" using ok by (auto simp: game_ok_def types_ok_def)
  let ?f = "fallen (transforms g ! i)"
  let ?m = "transform_multiply (transforms g ! i) (player_move kmask dt)"
  have "\<exists>g1. (if ?f then remove_queried (query_at m i) g \<bind> spawn_player 0 else Some g) = Some g1 \<and>
    evolves g (\<lambda>j. transforms g ! j)
      (\<lambda>j. if j = i \<and> ?f then k_entity_pending_remove else slot_state g j) (of_bool ?f) 0 g1"
  proof (cases ?f)
    case False
    have "evolves g (\<lambda>j. transforms g ! j)
        (\<lambda>j. if j = i \<and> ?f then k_entity_pending_remove else slot_state g j) 0 0 g"
      by (rule evolves_cong [OF evolves_refl [OF ok]]) (simp add: False)
    with False show ?thesis by simp
  next
    case True
    obtain g1 where g1: "remove_queried (query_at m i) g = Some g1"
      and e1: "evolves g (\<lambda>j. transforms g ! j)
        (\<lambda>j. if j = i then k_entity_pending_remove else slot_state g j) 0 0 g1"
      using evolves_remove [OF ok i] by blast
    have ok1: "game_ok g1" and free1: "0 < free_slots g1"
      using e1 room [OF True] by (auto simp: evolves_def)
    obtain g2 where g2: "spawn_player 0 g1 = Some g2"
      and e2: "evolves g1 (\<lambda>j. transforms g1 ! j) (\<lambda>j. slot_state g1 j) 1 0 g2"
      using evolves_spawn [OF ok1 free1] by blast
    have "evolves g (\<lambda>j. transforms g1 ! j) (\<lambda>j. slot_state g1 j) (0 + 1) (0 + 0) g2"
      by (rule evolves_trans [OF e1 e2]) auto
    then have "evolves g (\<lambda>j. transforms g ! j)
        (\<lambda>j. if j = i \<and> ?f then k_entity_pending_remove else slot_state g j) 1 0 g2"
      using e1 True by (auto simp: evolves_def)
    with True g1 g2 show ?thesis by auto
  qed
  then obtain g1 where g1: "(if ?f then remove_queried (query_at m i) g \<bind> spawn_player 0 else Some g) = Some g1"
    and e1: "evolves g (\<lambda>j. transforms g ! j)
      (\<lambda>j. if j = i \<and> ?f then k_entity_pending_remove else slot_state g j) (of_bool ?f) 0 g1" by blast
  have ok1: "game_ok g1" and ti: "transforms g1 ! i = transforms g ! i"
    using e1 iu by (auto simp: evolves_def)
  obtain g2 where g2: "put_transform i ?m g1 = Some g2"
    and e2: "evolves g1 (\<lambda>j. if j = i then ?m else transforms g1 ! j) (\<lambda>j. slot_state g1 j) 0 0 g2"
    using evolves_put [OF ok1 lt] by blast
  have "evolves g (\<lambda>j. if j = i then ?m else transforms g1 ! j) (\<lambda>j. slot_state g1 j) (of_bool ?f + 0) (0 + 0) g2"
    by (rule evolves_trans [OF e1 e2]) (use iu in auto)
  then have "evolves g (\<lambda>j. if j = i then ?m else transforms g ! j)
      (\<lambda>j. if j = i \<and> ?f then k_entity_pending_remove else slot_state g j) (of_bool ?f) 0 g2"
    using e1 by (auto simp: evolves_def)
  moreover have "update_player kmask dt (query_at m i) g =
      (if ?f then remove_queried (query_at m i) g \<bind> spawn_player 0 else Some g) \<bind>
      (\<lambda>g. arr_at (transforms g) (int i) \<bind>
        (\<lambda>t. put_transform i (transform_multiply t (player_move kmask dt)) g))"
    by (simp only: update_player_def ty query_slot_game [OF ok] transform_at [OF ok lt] fallen_def
        query_at_entity bind.bind_lunit nat_int)
  then have "update_player kmask dt (query_at m i) g = Some g2"
    by (simp only: g1 bind.bind_lunit transform_at [OF ok1 lt] ti g2)
  ultimately show ?thesis by blast
qed

end
