(* ===== verification/Frogger_Frames.thy ===== *)
theory Frogger_Frames
  imports Frogger_Steps
begin

text \<open>
  The loops of the frogger game over its players and trucks, and the whole frame.
\<close>

section \<open>The loops\<close>

lemma seen_used: "seen_slot g j \<Longrightarrow> used_slot g j"
  by (auto simp: seen_slot_def used_slot_def)

lemma query_match_game:
  "j < 512 \<Longrightarrow> query_match (game_ecs g) m j \<longleftrightarrow> slot_mask g j AND m = m \<and> seen_slot g j"
  by (auto simp: query_match_def seen_slot_def)

text \<open>A step changes no match: old entities keep their masks and stay visible or pending, and new
  ones are pending.\<close>

definition keeps_matches :: "frogger_game_t \<Rightarrow> frogger_game_t \<Rightarrow> bool" where
  "keeps_matches g g' \<longleftrightarrow> game_ok g' \<and> (\<forall>j < 512.
     (used_slot g j \<longrightarrow> slot_mask g' j = slot_mask g j) \<and> (seen_slot g' j \<longleftrightarrow> seen_slot g j))"

lemma keeps_matches_match:
  "keeps_matches g g' \<Longrightarrow> j < 512 \<Longrightarrow> query_match (game_ecs g') m j = query_match (game_ecs g) m j"
  using seen_used [of g j] by (auto simp: query_match_game keeps_matches_def)

lemma evolves_keeps_matches:
  assumes "evolves g T S n k g'"
    and "\<And>j. used_slot g j \<Longrightarrow> S j = slot_state g j \<or> (seen_slot g j \<and> S j = k_entity_pending_remove)"
  shows "keeps_matches g g'"
proof -
  have "seen_slot g' j \<longleftrightarrow> seen_slot g j" for j
  proof (cases "used_slot g j")
    case True
    with assms(1) have "slot_state g' j = S j" by (simp add: evolves_def)
    with assms(2) [OF True] show ?thesis by (auto simp: seen_slot_def)
  next
    case False
    then have "\<not> seen_slot g j" using seen_used by blast
    moreover have "\<not> seen_slot g' j"
    proof
      assume s: "seen_slot g' j"
      with assms(1) False have "newborn g' j" by (simp add: evolves_def seen_used)
      with s show False by (simp add: newborn_def seen_slot_def)
    qed
    ultimately show ?thesis by simp
  qed
  with assms(1) show ?thesis by (simp add: keeps_matches_def evolves_def)
qed

lemma keeps_matches_trans: "keeps_matches g g1 \<Longrightarrow> keeps_matches g1 g2 \<Longrightarrow>
    (\<And>j. used_slot g j \<Longrightarrow> used_slot g1 j) \<Longrightarrow> keeps_matches g g2"
  by (simp add: keeps_matches_def)

text \<open>Both bodies fail when there is no room for a new player that they need.\<close>

lemma truck_body_steady:
  assumes ok: "game_ok g" and p: "seen_slot g p" and i: "i < 512" "i \<noteq> p"
    and step: "update_truck (query_at mp p) (int p) step (query_at m i) g = Some g'"
  shows "keeps_matches g g'"
proof -
  let ?hit = "TestAABBCollision (truck_step step (transforms g ! i)) (transforms g ! p)"
  have "0 < free_slots g" if hit: "?hit"
  proof (rule ccontr)
    assume "\<not> 0 < free_slots g"
    then have full: "free_slots g = 0" by simp
    have ty: "transform_type g = 0" using ok by (simp add: game_ok_def types_ok_def)
    have p512: "p < 512" and pu: "used_slot g p" using p by (auto simp: seen_slot_def used_slot_def)
    let ?t = "truck_step step (transforms g ! i)"
    obtain g1 where g1: "put_transform i ?t g = Some g1"
      and e1: "evolves g (\<lambda>j. if j = i then ?t else transforms g ! j) (\<lambda>j. slot_state g j) 0 0 g1"
      using evolves_put [OF ok i(1)] by blast
    have ok1: "game_ok g1" and tp: "transforms g1 ! p = transforms g ! p" and p1: "seen_slot g1 p"
      and free1: "free_slots g1 = 0"
      using e1 pu p i(2) full by (auto simp: evolves_def seen_slot_def)
    obtain g2 where g2: "remove_queried (query_at mp p) g1 = Some g2"
      and e2: "evolves g1 (\<lambda>j. transforms g1 ! j)
        (\<lambda>j. if j = p then k_entity_pending_remove else slot_state g1 j) 0 0 g2"
      using evolves_remove [OF ok1 p1] by blast
    have "game_ok g2" "free_slots g2 = 0" using e2 free1 by (auto simp: evolves_def)
    then have "game_ok (g2\<lparr>sounds := sounds g2 + 1\<rparr>)" "free_slots (g2\<lparr>sounds := sounds g2 + 1\<rparr>) = 0"
      using evolves_sound [of g2] by (auto simp: evolves_def)
    from spawn_player_full [OF this] step g1 g2 hit tp show False
      by (simp add: update_truck_def ty query_slot_game [OF ok] transform_at [OF ok i(1)] Let_def
          truck_step_eq [unfolded Let_def] transform_at [OF ok1 p512])
  qed
  then obtain g'' where g: "update_truck (query_at mp p) (int p) step (query_at m i) g = Some g''"
    and e: "evolves g (\<lambda>j. if j = i then truck_step step (transforms g ! i) else transforms g ! j)
      (\<lambda>j. if j = p \<and> ?hit then k_entity_pending_remove else slot_state g j) (of_bool ?hit) (of_bool ?hit) g''"
    using truck_once [OF ok p i, of ?hit step mp m] by blast
  from g step have "g'' = g'" by simp
  moreover have "keeps_matches g g''"
    by (rule evolves_keeps_matches [OF e]) (use p in auto)
  ultimately show ?thesis by simp
qed

lemma player_body_steady:
  assumes ok: "game_ok g" and i: "seen_slot g i"
    and step: "update_player kmask dt (query_at m i) g = Some g'"
  shows "keeps_matches g g'"
proof -
  let ?f = "fallen (transforms g ! i)"
  have lt: "i < 512" using i by (simp add: seen_slot_def)
  have "0 < free_slots g" if f: "?f"
  proof (rule ccontr)
    assume "\<not> 0 < free_slots g"
    then have full: "free_slots g = 0" by simp
    have ty: "transform_type g = 0" "player_type g = 3" using ok by (auto simp: game_ok_def types_ok_def)
    obtain g1 where g1: "remove_queried (query_at m i) g = Some g1"
      and e1: "evolves g (\<lambda>j. transforms g ! j)
        (\<lambda>j. if j = i then k_entity_pending_remove else slot_state g j) 0 0 g1"
      using evolves_remove [OF ok i] by blast
    have "game_ok g1" "free_slots g1 = 0" using e1 full by (auto simp: evolves_def)
    from spawn_player_full [OF this] step g1 f show False
      by (simp add: update_player_def ty query_slot_game [OF ok] transform_at [OF ok lt] fallen_def)
  qed
  then obtain g'' where g: "update_player kmask dt (query_at m i) g = Some g''"
    and e: "evolves g (\<lambda>j. if j = i then transform_multiply (transforms g ! i) (player_move kmask dt) else transforms g ! j)
      (\<lambda>j. if j = i \<and> ?f then k_entity_pending_remove else slot_state g j) (of_bool ?f) 0 g''"
    using player_once [OF ok i, of kmask dt m] by blast
  from g step have "g'' = g'" by simp
  moreover have "keeps_matches g g''"
    by (rule evolves_keeps_matches [OF e]) (use i in auto)
  ultimately show ?thesis by simp
qed

interpretation players: steady_loop game_ok m "update_player kmask dt" for m kmask dt
proof
  fix g i g'
  assume "game_ok g" "i < 512" "query_match (game_ecs g) m i" "update_player kmask dt (query_at m i) g = Some g'"
  then have k: "keeps_matches g g'"
    by (intro player_body_steady) (auto simp: query_match_game)
  with keeps_matches_match [OF k] show "game_ok g' \<and> (\<forall>j<512. query_match (game_ecs g') m j = query_match (game_ecs g) m j)"
    by (simp add: keeps_matches_def)
qed

text \<open>The truck loops run while the queried player is still there; it is no truck.\<close>

definition player_at :: "nat \<Rightarrow> u64 \<Rightarrow> frogger_game_t \<Rightarrow> bool" where
  "player_at p m g \<longleftrightarrow> game_ok g \<and> seen_slot g p \<and> slot_mask g p = player_mask \<and> player_mask AND m \<noteq> m"

lemma player_at_kept: "player_at p m g \<Longrightarrow> keeps_matches g g' \<Longrightarrow> player_at p m g'"
  using seen_used [of g p] by (auto simp: player_at_def keeps_matches_def seen_slot_def)

interpretation trucks: steady_loop "player_at p m" m "update_truck (query_at mp p) (int p) step" for p m mp step
proof
  fix g i g'
  assume inv: "player_at p m g" and i: "i < 512" "query_match (game_ecs g) m i"
    and step: "update_truck (query_at mp p) (int p) step (query_at m i) g = Some g'"
  from inv i have "i \<noteq> p" by (auto simp: player_at_def query_match_game)
  with inv i step have k: "keeps_matches g g'"
    by (intro truck_body_steady) (auto simp: player_at_def)
  with keeps_matches_match [OF k] player_at_kept [OF inv k]
  show "player_at p m g' \<and> (\<forall>j<512. query_match (game_ecs g') m j = query_match (game_ecs g) m j)"
    by simp
qed

section \<open>What the loops do\<close>

definition row_slots :: "u64 \<Rightarrow> frogger_game_t \<Rightarrow> nat list" where
  "row_slots m g = filter (query_match (game_ecs g) m) [0..<512]"

lemma row_slots_kept: "keeps_matches g g' \<Longrightarrow> row_slots m g' = row_slots m g"
  unfolding row_slots_def by (intro filter_cong) (simp_all add: keeps_matches_match)

lemma in_row_slots: "j \<in> set (row_slots m g) \<longleftrightarrow> slot_mask g j AND m = m \<and> seen_slot g j"
  by (auto simp: row_slots_def query_match_game seen_slot_def)

lemma row_slots_distinct [simp]: "distinct (row_slots m g)"
  by (simp add: row_slots_def)

definition hitting :: "nat \<Rightarrow> f32 \<Rightarrow> frogger_game_t \<Rightarrow> nat \<Rightarrow> bool" where
  "hitting p step g j \<longleftrightarrow> TestAABBCollision (truck_step step (transforms g ! j)) (transforms g ! p)"

lemma trucks_slots:
  assumes "game_ok g" and "seen_slot g p" and "distinct L" and "p \<notin> set L"
    and "\<And>j. j \<in> set L \<Longrightarrow> seen_slot g j"
    and "length (filter (hitting p step g) L) \<le> free_slots g"
  shows "\<exists>g'. for_slots (\<lambda>j. update_truck (query_at mp p) (int p) step (query_at m j)) L g = Some g' \<and>
    evolves g (\<lambda>j. if j \<in> set L then truck_step step (transforms g ! j) else transforms g ! j)
      (\<lambda>j. if j = p \<and> filter (hitting p step g) L \<noteq> [] then k_entity_pending_remove else slot_state g j)
      (length (filter (hitting p step g) L)) (length (filter (hitting p step g) L)) g'"
  using assms
proof (induction L arbitrary: g)
  case Nil
  then show ?case using evolves_refl [of g] by simp
next
  case (Cons i L)
  let ?hit = "hitting p step g i"
  have i: "i < 512" "i \<noteq> p" "seen_slot g i" using Cons.prems(4,5) by (auto simp: seen_slot_def)
  have room: "?hit \<Longrightarrow> 0 < free_slots g" using Cons.prems(6) by auto
  obtain g1 where g1: "update_truck (query_at mp p) (int p) step (query_at m i) g = Some g1"
    and e1: "evolves g (\<lambda>j. if j = i then truck_step step (transforms g ! i) else transforms g ! j)
      (\<lambda>j. if j = p \<and> ?hit then k_entity_pending_remove else slot_state g j) (of_bool ?hit) (of_bool ?hit) g1"
    using truck_once [OF Cons.prems(1,2) i(1,2) hitting_def room] by blast
  have k: "keeps_matches g g1"
    by (rule evolves_keeps_matches [OF e1]) (use Cons.prems(2) in auto)
  have seen: "seen_slot g1 j \<longleftrightarrow> seen_slot g j" for j
    using k by (cases "j < 512") (auto simp: keeps_matches_def seen_slot_def)
  have tr: "transforms g1 ! j = transforms g ! j" if "seen_slot g j" "j \<noteq> i" for j
    using e1 that seen_used [OF that(1)] by (simp add: evolves_def)
  have same: "hitting p step g1 j = hitting p step g j" if "j \<in> set L" for j
  proof -
    have "j \<noteq> i" "seen_slot g j" using that Cons.prems(3,5) by auto
    then show ?thesis using tr [of j] tr [OF Cons.prems(2)] i(2) by (simp add: hitting_def)
  qed
  then have hits: "filter (hitting p step g1) L = filter (hitting p step g) L"
    by (intro filter_cong) simp_all
  have ok1: "game_ok g1" and free1: "free_slots g = free_slots g1 + of_bool ?hit"
    using e1 by (auto simp: evolves_def)
  have p1: "seen_slot g1 p" using seen Cons.prems(2) by simp
  have rest: "distinct L" "p \<notin> set L" "\<And>j. j \<in> set L \<Longrightarrow> seen_slot g1 j"
      "length (filter (hitting p step g1) L) \<le> free_slots g1"
    using Cons.prems(3-6) seen hits free1 by (auto split: if_splits)
  obtain g2 where g2: "for_slots (\<lambda>j. update_truck (query_at mp p) (int p) step (query_at m j)) L g1 = Some g2"
    and e2: "evolves g1 (\<lambda>j. if j \<in> set L then truck_step step (transforms g1 ! j) else transforms g1 ! j)
      (\<lambda>j. if j = p \<and> filter (hitting p step g1) L \<noteq> [] then k_entity_pending_remove else slot_state g1 j)
      (length (filter (hitting p step g1) L)) (length (filter (hitting p step g1) L)) g2"
    using Cons.IH [OF ok1 p1 rest] by blast
  have new: "j \<notin> set L \<and> j \<noteq> p" if "\<not> used_slot g j" for j
    using that Cons.prems(2,5) seen_used [of g j] by auto
  have e12: "evolves g (\<lambda>j. if j \<in> set L then truck_step step (transforms g1 ! j) else transforms g1 ! j)
      (\<lambda>j. if j = p \<and> filter (hitting p step g1) L \<noteq> [] then k_entity_pending_remove else slot_state g1 j)
      (of_bool ?hit + length (filter (hitting p step g1) L)) (of_bool ?hit + length (filter (hitting p step g1) L)) g2"
    by (rule evolves_trans [OF e1 e2]) (simp add: new)
  have "evolves g (\<lambda>j. if j \<in> set (i # L) then truck_step step (transforms g ! j) else transforms g ! j)
      (\<lambda>j. if j = p \<and> filter (hitting p step g) (i # L) \<noteq> [] then k_entity_pending_remove else slot_state g j)
      (of_bool ?hit + length (filter (hitting p step g1) L)) (of_bool ?hit + length (filter (hitting p step g1) L)) g2"
  proof (rule evolves_cong [OF e12])
    fix j
    assume u: "used_slot g j"
    have t1: "transforms g1 ! j = (if j = i then truck_step step (transforms g ! i) else transforms g ! j)"
      and s1: "slot_state g1 j = (if j = p \<and> ?hit then k_entity_pending_remove else slot_state g j)"
      using e1 u by (simp_all add: evolves_def)
    have "i \<notin> set L" using Cons.prems(3) by simp
    then show "(if j \<in> set L then truck_step step (transforms g1 ! j) else transforms g1 ! j) =
        (if j \<in> set (i # L) then truck_step step (transforms g ! j) else transforms g ! j) \<and>
        (if j = p \<and> filter (hitting p step g1) L \<noteq> [] then k_entity_pending_remove else slot_state g1 j) =
        (if j = p \<and> filter (hitting p step g) (i # L) \<noteq> [] then k_entity_pending_remove else slot_state g j)"
      using t1 s1 hits by auto
  qed
  moreover have "of_bool ?hit + length (filter (hitting p step g1) L) = length (filter (hitting p step g) (i # L))"
    by (simp add: hits)
  ultimately show ?case using g1 g2 by auto
qed

definition falling :: "frogger_game_t \<Rightarrow> nat \<Rightarrow> bool" where
  "falling g j \<longleftrightarrow> fallen (transforms g ! j)"

lemma players_slots:
  assumes "game_ok g" and "distinct L" and "\<And>j. j \<in> set L \<Longrightarrow> seen_slot g j"
    and "length (filter (falling g) L) \<le> free_slots g"
  shows "\<exists>g'. for_slots (\<lambda>j. update_player kmask dt (query_at m j)) L g = Some g' \<and>
    evolves g (\<lambda>j. if j \<in> set L then transform_multiply (transforms g ! j) (player_move kmask dt) else transforms g ! j)
      (\<lambda>j. if j \<in> set L \<and> falling g j then k_entity_pending_remove else slot_state g j)
      (length (filter (falling g) L)) 0 g'"
  using assms
proof (induction L arbitrary: g)
  case Nil
  then show ?case using evolves_refl [of g] by simp
next
  case (Cons i L)
  let ?f = "falling g i"
  let ?m = "\<lambda>t. transform_multiply t (player_move kmask dt)"
  have i: "seen_slot g i" "i \<notin> set L" using Cons.prems(2,3) by auto
  have room: "fallen (transforms g ! i) \<Longrightarrow> 0 < free_slots g"
    using Cons.prems(4) by (auto simp: falling_def)
  obtain g1 where g1: "update_player kmask dt (query_at m i) g = Some g1"
    and e1: "evolves g (\<lambda>j. if j = i then ?m (transforms g ! i) else transforms g ! j)
      (\<lambda>j. if j = i \<and> ?f then k_entity_pending_remove else slot_state g j) (of_bool ?f) 0 g1"
    using player_once [OF Cons.prems(1) i(1) room, of kmask dt m] unfolding falling_def by blast
  have k: "keeps_matches g g1"
    by (rule evolves_keeps_matches [OF e1]) (use i in auto)
  have seen: "seen_slot g1 j \<longleftrightarrow> seen_slot g j" for j
    using k by (cases "j < 512") (auto simp: keeps_matches_def seen_slot_def)
  have tr: "transforms g1 ! j = transforms g ! j" if "j \<in> set L" for j
    using e1 that i(2) Cons.prems(3) [of j] seen_used [of g j] by (auto simp: evolves_def)
  then have same: "falling g1 j = falling g j" if "j \<in> set L" for j
    using that by (simp add: falling_def)
  then have falls: "filter (falling g1) L = filter (falling g) L"
    by (intro filter_cong) simp_all
  have ok1: "game_ok g1" and free1: "free_slots g = free_slots g1 + of_bool ?f"
    using e1 by (auto simp: evolves_def)
  have rest: "distinct L" "\<And>j. j \<in> set L \<Longrightarrow> seen_slot g1 j" "length (filter (falling g1) L) \<le> free_slots g1"
    using Cons.prems(2-4) seen falls free1 by (auto split: if_splits)
  obtain g2 where g2: "for_slots (\<lambda>j. update_player kmask dt (query_at m j)) L g1 = Some g2"
    and e2: "evolves g1 (\<lambda>j. if j \<in> set L then ?m (transforms g1 ! j) else transforms g1 ! j)
      (\<lambda>j. if j \<in> set L \<and> falling g1 j then k_entity_pending_remove else slot_state g1 j)
      (length (filter (falling g1) L)) 0 g2"
    using Cons.IH [OF ok1 rest] by blast
  have new: "j \<notin> set L" if "\<not> used_slot g j" for j
    using that Cons.prems(3) seen_used [of g j] by auto
  have e12: "evolves g (\<lambda>j. if j \<in> set L then ?m (transforms g1 ! j) else transforms g1 ! j)
      (\<lambda>j. if j \<in> set L \<and> falling g1 j then k_entity_pending_remove else slot_state g1 j)
      (of_bool ?f + length (filter (falling g1) L)) (0 + 0) g2"
    by (rule evolves_trans [OF e1 e2]) (simp add: new)
  have "evolves g (\<lambda>j. if j \<in> set (i # L) then ?m (transforms g ! j) else transforms g ! j)
      (\<lambda>j. if j \<in> set (i # L) \<and> falling g j then k_entity_pending_remove else slot_state g j)
      (of_bool ?f + length (filter (falling g1) L)) (0 + 0) g2"
  proof (rule evolves_cong [OF e12])
    fix j
    assume u: "used_slot g j"
    have t1: "transforms g1 ! j = (if j = i then ?m (transforms g ! i) else transforms g ! j)"
      and s1: "slot_state g1 j = (if j = i \<and> ?f then k_entity_pending_remove else slot_state g j)"
      using e1 u by (simp_all add: evolves_def)
    then show "(if j \<in> set L then ?m (transforms g1 ! j) else transforms g1 ! j) =
        (if j \<in> set (i # L) then ?m (transforms g ! j) else transforms g ! j) \<and>
        (if j \<in> set L \<and> falling g1 j then k_entity_pending_remove else slot_state g1 j) =
        (if j \<in> set (i # L) \<and> falling g j then k_entity_pending_remove else slot_state g j)"
      using i(2) tr same by auto
  qed
  moreover have "of_bool ?f + length (filter (falling g1) L) = length (filter (falling g) (i # L))"
    by (simp add: falls)
  ultimately show ?case using g1 g2 by auto
qed

text \<open>The same for the loops of the code.\<close>

lemma type_game:
  "game_ok g \<Longrightarrow> transform_type g = 0 \<and> camera_type g = 1 \<and> model_type g = 2 \<and> player_type g = 3 \<and>
    truck1_type g = 4 \<and> truck2_type g = 5 \<and> truck3_type g = 6"
  by (simp add: game_ok_def types_ok_def)

lemma players_loop:
  assumes ok: "game_ok g" and room: "length (filter (falling g) (row_slots m g)) \<le> free_slots g"
  shows "\<exists>g'. query_loop m (update_player kmask dt) g = Some g' \<and>
    evolves g (\<lambda>j. if j \<in> set (row_slots m g) then transform_multiply (transforms g ! j) (player_move kmask dt)
        else transforms g ! j)
      (\<lambda>j. if j \<in> set (row_slots m g) \<and> falling g j then k_entity_pending_remove else slot_state g j)
      (length (filter (falling g) (row_slots m g))) 0 g'"
  using players_slots [OF ok row_slots_distinct _ room, of kmask dt m]
  unfolding players.loop_slots [OF ok] row_slots_def [symmetric] by (simp add: in_row_slots)

lemma trucks_loop:
  assumes p: "player_at p m g"
    and room: "length (filter (hitting p step g) (row_slots m g)) \<le> free_slots g"
  shows "\<exists>g'. query_loop m (update_truck (query_at mp p) (int p) step) g = Some g' \<and>
    evolves g (\<lambda>j. if j \<in> set (row_slots m g) then truck_step step (transforms g ! j) else transforms g ! j)
      (\<lambda>j. if j = p \<and> filter (hitting p step g) (row_slots m g) \<noteq> [] then k_entity_pending_remove
        else slot_state g j)
      (length (filter (hitting p step g) (row_slots m g))) (length (filter (hitting p step g) (row_slots m g))) g'"
proof -
  have "game_ok g" "seen_slot g p" "p \<notin> set (row_slots m g)"
    using p by (auto simp: player_at_def in_row_slots)
  from trucks_slots [OF this(1,2) row_slots_distinct this(3) _ room, of mp m]
  show ?thesis
    unfolding trucks.loop_slots [OF p] row_slots_def [symmetric] by (simp add: in_row_slots)
qed

end
