(* ===== verification/Frogger_Game.thy ===== *)
theory Frogger_Game
  imports Frogger_Frames
begin

text \<open>
  A frame of the frogger game as one step: where every entity is, who is removed, what is spawned
  and what is drawn; the collision test; and the start of the game.
\<close>

section \<open>The slots of each kind\<close>

lemma kind_rows:
  assumes "game_ok g"
  shows "set (row_slots 9 g) = {j. seen_slot g j \<and> slot_mask g j = player_mask}"
    and "set (row_slots 17 g) = {j. seen_slot g j \<and> slot_mask g j = truck1_mask}"
    and "set (row_slots 33 g) = {j. seen_slot g j \<and> slot_mask g j = truck2_mask}"
    and "set (row_slots 65 g) = {j. seen_slot g j \<and> slot_mask g j = truck3_mask}"
    and "set (row_slots 2 g) = {j. seen_slot g j \<and> slot_mask g j = camera_mask}"
    and "set (row_slots 5 g) = {j. seen_slot g j \<and> slot_mask g j \<noteq> camera_mask}"
proof -
  have "(slot_mask g j AND 9 = 9 \<longleftrightarrow> slot_mask g j = player_mask) \<and>
      (slot_mask g j AND 17 = 17 \<longleftrightarrow> slot_mask g j = truck1_mask) \<and>
      (slot_mask g j AND 33 = 33 \<longleftrightarrow> slot_mask g j = truck2_mask) \<and>
      (slot_mask g j AND 65 = 65 \<longleftrightarrow> slot_mask g j = truck3_mask) \<and>
      (slot_mask g j AND 2 = 2 \<longleftrightarrow> slot_mask g j = camera_mask) \<and>
      (slot_mask g j AND 5 = 5 \<longleftrightarrow> slot_mask g j \<noteq> camera_mask)" if "seen_slot g j" for j
  proof -
    have "slot_mask g j \<in> {player_mask, truck1_mask, truck2_mask, truck3_mask, camera_mask}"
      using assms seen_used [OF that] unfolding game_ok_def kinds_ok_def by blast
    then show ?thesis by (elim insertE) (simp_all add: mask_defs')
  qed
  then show "set (row_slots 9 g) = {j. seen_slot g j \<and> slot_mask g j = player_mask}"
    "set (row_slots 17 g) = {j. seen_slot g j \<and> slot_mask g j = truck1_mask}"
    "set (row_slots 33 g) = {j. seen_slot g j \<and> slot_mask g j = truck2_mask}"
    "set (row_slots 65 g) = {j. seen_slot g j \<and> slot_mask g j = truck3_mask}"
    "set (row_slots 2 g) = {j. seen_slot g j \<and> slot_mask g j = camera_mask}"
    "set (row_slots 5 g) = {j. seen_slot g j \<and> slot_mask g j \<noteq> camera_mask}"
    by (auto simp: in_row_slots mask_defs')
qed

section \<open>The trucks\<close>

definition truck_next :: "f32 \<Rightarrow> frogger_game_t \<Rightarrow> nat \<Rightarrow> transform_t" where
  "truck_next dt g j =
     (if slot_mask g j = truck1_mask then truck_step dt (transforms g ! j)
      else if slot_mask g j = truck2_mask then truck_step (dt * 2) (transforms g ! j)
      else if slot_mask g j = truck3_mask then truck_step (dt * 4) (transforms g ! j)
      else transforms g ! j)"

definition truck_slots :: "frogger_game_t \<Rightarrow> nat list" where
  "truck_slots g = row_slots 17 g @ row_slots 33 g @ row_slots 65 g"

text \<open>The trucks that touch the player in slot \<open>p\<close> when they have moved.\<close>

definition truck_hits :: "f32 \<Rightarrow> nat \<Rightarrow> frogger_game_t \<Rightarrow> nat list" where
  "truck_hits dt p g =
     filter (\<lambda>j. TestAABBCollision (truck_next dt g j) (transforms g ! p)) (truck_slots g)"

lemma player_at_row:
  assumes "game_ok g" and "p \<in> set (row_slots 9 g)"
  shows "player_at p 17 g" and "player_at p 33 g" and "player_at p 65 g"
  using assms by (auto simp: player_at_def kind_rows mask_defs')

lemma filter_hitting:
  assumes "game_ok g"
  shows "filter (hitting p dt g) (row_slots 17 g) =
      filter (\<lambda>j. TestAABBCollision (truck_next dt g j) (transforms g ! p)) (row_slots 17 g)"
    and "filter (hitting p (dt * 2) g) (row_slots 33 g) =
      filter (\<lambda>j. TestAABBCollision (truck_next dt g j) (transforms g ! p)) (row_slots 33 g)"
    and "filter (hitting p (dt * 4) g) (row_slots 65 g) =
      filter (\<lambda>j. TestAABBCollision (truck_next dt g j) (transforms g ! p)) (row_slots 65 g)"
  using kind_rows [OF assms]
  by (auto simp: hitting_def truck_next_def mask_defs' intro!: filter_cong)

text \<open>
  A row after other loops, which have moved neither the trucks of this row nor the player.
\<close>

lemma row_after:
  assumes p: "player_at p m g" and e: "evolves g T S n k g1" and km: "keeps_matches g g1"
    and T: "\<And>j. j \<in> set (row_slots m g) \<or> j = p \<Longrightarrow> T j = transforms g ! j"
    and h: "h = filter (hitting p step g) (row_slots m g)" and room: "n + length h \<le> free_slots g"
  obtains g2 where "query_loop m (update_truck (query_at mp p) (int p) step) g1 = Some g2"
    and "evolves g (\<lambda>j. if j \<in> set (row_slots m g) then truck_step step (transforms g ! j) else T j)
      (\<lambda>j. if j = p \<and> h \<noteq> [] then k_entity_pending_remove else S j) (n + length h) (k + length h) g2"
    and "keeps_matches g g2"
proof -
  have ps: "seen_slot g p" using p by (simp add: player_at_def)
  have T1: "transforms g1 ! j = T j" and S1: "slot_state g1 j = S j" if "used_slot g j" for j
    using e that by (simp_all add: evolves_def)
  have rs: "row_slots m g1 = row_slots m g" by (rule row_slots_kept [OF km])
  have "filter (hitting p step g1) (row_slots m g) = h"
    unfolding h by (intro filter_cong) (use T T1 ps seen_used in \<open>auto simp: hitting_def in_row_slots\<close>)
  then have h1: "filter (hitting p step g1) (row_slots m g1) = h" by (simp add: rs)
  have p1: "player_at p m g1" by (rule player_at_kept [OF p km])
  have "length h \<le> free_slots g1" using e room by (simp add: evolves_def)
  then have "length (filter (hitting p step g1) (row_slots m g1)) \<le> free_slots g1" by (simp only: h1)
  from trucks_loop [OF p1 this, of mp, unfolded h1, unfolded rs] obtain g2 where
      g2: "query_loop m (update_truck (query_at mp p) (int p) step) g1 = Some g2"
    and e2: "evolves g1 (\<lambda>j. if j \<in> set (row_slots m g) then truck_step step (transforms g1 ! j) else transforms g1 ! j)
      (\<lambda>j. if j = p \<and> h \<noteq> [] then k_entity_pending_remove else slot_state g1 j) (length h) (length h) g2"
    by blast
  have "evolves g (\<lambda>j. if j \<in> set (row_slots m g) then truck_step step (transforms g1 ! j) else transforms g1 ! j)
      (\<lambda>j. if j = p \<and> h \<noteq> [] then k_entity_pending_remove else slot_state g1 j) (n + length h) (k + length h) g2"
    by (rule evolves_trans [OF e e2]) (use ps seen_used in \<open>auto simp: in_row_slots\<close>)
  then have e12: "evolves g (\<lambda>j. if j \<in> set (row_slots m g) then truck_step step (transforms g ! j) else T j)
      (\<lambda>j. if j = p \<and> h \<noteq> [] then k_entity_pending_remove else S j) (n + length h) (k + length h) g2"
    by (rule evolves_cong) (use T1 S1 T in auto)
  have "keeps_matches g1 g2"
    by (rule evolves_keeps_matches [OF e2]) (use p1 in \<open>auto simp: player_at_def\<close>)
  moreover have "used_slot g j \<Longrightarrow> used_slot g1 j" for j using e by (simp add: evolves_def)
  ultimately have "keeps_matches g g2" using keeps_matches_trans [OF km] by blast
  with g2 e12 show ?thesis by (rule that)
qed

definition truck_dt :: "u32 \<Rightarrow> f32" where
  "truck_dt ms = real (unat ms) * (2 / 1000)"

lemma update_trucks_rows:
  assumes ok: "game_ok g" and p: "row_slots 9 g \<noteq> []" "p = hd (row_slots 9 g)"
    and g1: "query_loop 17 (update_truck (query_at 9 p) (int p) (truck_dt ms)) g = Some g1" "game_ok g1"
    and g2: "query_loop 33 (update_truck (query_at 9 p) (int p) (truck_dt ms * 2)) g1 = Some g2" "game_ok g2"
    and g3: "query_loop 65 (update_truck (query_at 9 p) (int p) (truck_dt ms * 4)) g2 = Some g3"
  shows "update_trucks ms g = Some g3"
proof -
  have q: "ecs_query_create (game_ecs g) 9 = query_at 9 p"
    using query_create_hd [OF p(1) [unfolded row_slots_def]] p(2) by (simp add: row_slots_def)
  have m: "(1 :: u64) OR 8 = 9" "(1 :: u64) OR 16 = 17" "(1 :: u64) OR 32 = 33" "(1 :: u64) OR 64 = 65"
    by simp_all
  have t: "query_slot (game_ecs g) (query_at 9 p) 0 = Some (int p)"
    using query_slot_game [OF ok, of 0 "query_at 9 p"] by simp
  note types = type_game [OF ok] type_game [OF g1(2)] type_game [OF g2(2)]
  show ?thesis
    using g1(1) g2(1) g3
    by (simp only: update_trucks_def Let_def types type_bits m q t bind.bind_lunit truck_dt_def)
qed

lemma update_trucks_evolves:
  assumes ok: "game_ok g" and p: "row_slots 9 g \<noteq> []" "p = hd (row_slots 9 g)"
    and room: "length (truck_hits (truck_dt ms) p g) \<le> free_slots g"
  obtains g' where "update_trucks ms g = Some g'" and "keeps_matches g g'"
    and "evolves g (\<lambda>j. if seen_slot g j then truck_next (truck_dt ms) g j else transforms g ! j)
      (\<lambda>j. if j = p \<and> truck_hits (truck_dt ms) p g \<noteq> [] then k_entity_pending_remove else slot_state g j)
      (length (truck_hits (truck_dt ms) p g)) (length (truck_hits (truck_dt ms) p g)) g'"
proof -
  let ?dt = "truck_dt ms"
  define h1 where "h1 = filter (hitting p ?dt g) (row_slots 17 g)"
  define h2 where "h2 = filter (hitting p (?dt * 2) g) (row_slots 33 g)"
  define h3 where "h3 = filter (hitting p (?dt * 4) g) (row_slots 65 g)"
  have hits: "truck_hits ?dt p g = h1 @ h2 @ h3"
    by (simp add: truck_hits_def truck_slots_def filter_hitting [OF ok] h1_def h2_def h3_def)
  have pin: "p \<in> set (row_slots 9 g)" using p by (simp add: hd_in_set)
  then have ps: "seen_slot g p" "slot_mask g p = player_mask" using kind_rows(1) [OF ok] by auto
  note at = player_at_row [OF ok pin]
  note rows = kind_rows [OF ok]
  have k0: "keeps_matches g g" using ok by (simp add: keeps_matches_def)
  have r: "0 + length h1 \<le> free_slots g" "0 + length h1 + length h2 \<le> free_slots g"
    "0 + length h1 + length h2 + length h3 \<le> free_slots g"
    using room by (simp_all add: hits)
  obtain g1 where g1: "query_loop 17 (update_truck (query_at 9 p) (int p) ?dt) g = Some g1"
    and e1: "evolves g (\<lambda>j. if j \<in> set (row_slots 17 g) then truck_step ?dt (transforms g ! j) else transforms g ! j)
      (\<lambda>j. if j = p \<and> h1 \<noteq> [] then k_entity_pending_remove else slot_state g j) (0 + length h1) (0 + length h1) g1"
    and k1: "keeps_matches g g1"
    by (rule row_after [OF at(1) evolves_refl [OF ok] k0 refl h1_def r(1)])
  obtain g2 where g2: "query_loop 33 (update_truck (query_at 9 p) (int p) (?dt * 2)) g1 = Some g2"
    and e2: "evolves g (\<lambda>j. if j \<in> set (row_slots 33 g) then truck_step (?dt * 2) (transforms g ! j)
        else if j \<in> set (row_slots 17 g) then truck_step ?dt (transforms g ! j) else transforms g ! j)
      (\<lambda>j. if j = p \<and> h2 \<noteq> [] then k_entity_pending_remove
        else if j = p \<and> h1 \<noteq> [] then k_entity_pending_remove else slot_state g j)
      (0 + length h1 + length h2) (0 + length h1 + length h2) g2"
    and k2: "keeps_matches g g2"
    by (rule row_after [OF at(2) e1 k1 _ h2_def r(2)]) (use ps rows in \<open>auto simp: mask_defs'\<close>)
  obtain g3 where g3: "query_loop 65 (update_truck (query_at 9 p) (int p) (?dt * 4)) g2 = Some g3"
    and e3: "evolves g (\<lambda>j. if j \<in> set (row_slots 65 g) then truck_step (?dt * 4) (transforms g ! j)
        else if j \<in> set (row_slots 33 g) then truck_step (?dt * 2) (transforms g ! j)
        else if j \<in> set (row_slots 17 g) then truck_step ?dt (transforms g ! j) else transforms g ! j)
      (\<lambda>j. if j = p \<and> h3 \<noteq> [] then k_entity_pending_remove else if j = p \<and> h2 \<noteq> [] then k_entity_pending_remove
        else if j = p \<and> h1 \<noteq> [] then k_entity_pending_remove else slot_state g j)
      (0 + length h1 + length h2 + length h3) (0 + length h1 + length h2 + length h3) g3"
    and k3: "keeps_matches g g3"
    by (rule row_after [OF at(3) e2 k2 _ h3_def r(3)]) (use ps rows in \<open>auto simp: mask_defs'\<close>)
  have n: "length (truck_hits ?dt p g) = 0 + length h1 + length h2 + length h3" by (simp add: hits)
  have "game_ok g1" "game_ok g2" using k1 k2 by (simp_all add: keeps_matches_def)
  from update_trucks_rows [OF ok p g1 this(1) g2 this(2) g3] k3 show ?thesis
  proof (rule that)
    show "evolves g (\<lambda>j. if seen_slot g j then truck_next ?dt g j else transforms g ! j)
      (\<lambda>j. if j = p \<and> truck_hits ?dt p g \<noteq> [] then k_entity_pending_remove else slot_state g j)
      (length (truck_hits ?dt p g)) (length (truck_hits ?dt p g)) g3"
      unfolding n by (rule evolves_cong [OF e3]) (use rows hits in \<open>auto simp: truck_next_def mask_defs'\<close>)
  qed
qed

section \<open>The frame\<close>

text \<open>The game when the timer and the entities are updated: every entity is active.\<close>

definition frame_start :: "timers \<Rightarrow> frogger_game_t \<Rightarrow> frogger_game_t" where
  "frame_start ts g = g\<lparr>game_timers := ts, game_ecs := ecs_update (game_ecs g)\<rparr>"

lemma frame_start_states:
  assumes "game_ok g"
  shows "j < 512 \<Longrightarrow> slot_state (frame_start ts g) j = update_state (slot_state g j)"
    and "slot_mask (frame_start ts g) j = slot_mask g j"
proof -
  have ok: "ecs_ok (game_ecs g)" using assms by (simp add: game_ok_def)
  show "j < 512 \<Longrightarrow> slot_state (frame_start ts g) j = update_state (slot_state g j)"
    using game_ok_lengths(1) [OF assms] by (simp add: frame_start_def ecs_update_eq [OF ok])
  show "slot_mask (frame_start ts g) j = slot_mask g j"
    by (simp add: frame_start_def ecs_update_eq [OF ok])
qed

lemma update_state_active: "update_state s = k_entity_active \<longleftrightarrow> s \<in> {k_entity_pending_add, k_entity_active}"
  by (cases s) auto

lemma frame_start_ok:
  assumes ok: "game_ok g"
  shows "game_ok (frame_start ts g)"
    and "used_slot (frame_start ts g) j \<longleftrightarrow> seen_slot (frame_start ts g) j"
    and "seen_slot (frame_start ts g) j \<longleftrightarrow> j < 512 \<and> slot_state (frame_start ts g) j = k_entity_active"
proof -
  note st = frame_start_states [OF ok, where ts = ts]
  have "kinds_ok (frame_start ts g)"
    unfolding kinds_ok_def
  proof (intro allI impI)
    fix j
    assume "used_slot (frame_start ts g) j"
    then have "used_slot g j" using st(1) [of j] by (cases "slot_state g j") (auto simp: used_slot_def)
    with ok show "slot_mask (frame_start ts g) j \<in> {player_mask, truck1_mask, truck2_mask, truck3_mask, camera_mask}"
      unfolding st(2) game_ok_def kinds_ok_def by blast
  qed
  moreover have "ecs_ok (game_ecs g)" using ok by (simp add: game_ok_def)
  then have "ecs_ok (ecs_update (game_ecs g))" "components (ecs_update (game_ecs g)) = components (game_ecs g)"
    by (simp_all add: ecs_update_ok) (simp add: ecs_update_eq)
  ultimately show "game_ok (frame_start ts g)"
    using ok by (simp add: game_ok_def types_ok_def memory_ok_def frame_start_def)
  show "used_slot (frame_start ts g) j \<longleftrightarrow> seen_slot (frame_start ts g) j"
    and "seen_slot (frame_start ts g) j \<longleftrightarrow> j < 512 \<and> slot_state (frame_start ts g) j = k_entity_active"
    using st(1) [of j] by (cases "slot_state g j"; auto simp: used_slot_def seen_slot_def)+
qed

definition next_transform :: "u32 \<Rightarrow> u32 \<Rightarrow> frogger_game_t \<Rightarrow> nat \<Rightarrow> transform_t" where
  "next_transform kmask ms g j =
     (if slot_mask g j = player_mask
      then transform_multiply (transforms g ! j) (player_move kmask (real (unat ms) * (5 / 1000)))
      else truck_next (truck_dt ms) g j)"

definition player_slots :: "frogger_game_t \<Rightarrow> nat list" where
  "player_slots g = row_slots 9 g"

text \<open>The players that fell off, and the trucks that hit the first player.\<close>

definition fallers :: "frogger_game_t \<Rightarrow> nat list" where
  "fallers g = filter (falling g) (player_slots g)"

definition collisions :: "u32 \<Rightarrow> u32 \<Rightarrow> frogger_game_t \<Rightarrow> nat list" where
  "collisions kmask ms g =
     filter (\<lambda>j. TestAABBCollision (next_transform kmask ms g j) (next_transform kmask ms g (hd (player_slots g))))
       (truck_slots g)"

definition next_state :: "u32 \<Rightarrow> u32 \<Rightarrow> frogger_game_t \<Rightarrow> nat \<Rightarrow> entity_state_t" where
  "next_state kmask ms g j =
     (if j \<in> set (fallers g) \<or> (j = hd (player_slots g) \<and> collisions kmask ms g \<noteq> [])
      then k_entity_pending_remove else slot_state g j)"

lemma update_players_evolves:
  assumes ok: "game_ok g" and room: "length (fallers g) \<le> free_slots g"
  obtains g' where "update_players ms kmask g = Some g'" and "keeps_matches g g'"
    and "evolves g (\<lambda>j. if j \<in> set (player_slots g) then next_transform kmask ms g j else transforms g ! j)
      (\<lambda>j. if j \<in> set (fallers g) then k_entity_pending_remove else slot_state g j) (length (fallers g)) 0 g'"
proof -
  let ?dt = "real (unat ms) * (5 / 1000)"
  obtain g' where g': "query_loop 9 (update_player kmask ?dt) g = Some g'"
    and e: "evolves g (\<lambda>j. if j \<in> set (row_slots 9 g) then transform_multiply (transforms g ! j) (player_move kmask ?dt)
        else transforms g ! j)
      (\<lambda>j. if j \<in> set (row_slots 9 g) \<and> falling g j then k_entity_pending_remove else slot_state g j)
      (length (filter (falling g) (row_slots 9 g))) 0 g'"
    using players_loop [OF ok room [unfolded fallers_def player_slots_def]] by blast
  have m: "(1 :: u64) OR 8 = 9" by simp
  have "update_players ms kmask g = Some g'"
    using g' by (simp only: update_players_def Let_def type_game [OF ok] type_bits m)
  moreover have "keeps_matches g g'"
    by (rule evolves_keeps_matches [OF e]) (simp add: in_row_slots)
  moreover have "evolves g (\<lambda>j. if j \<in> set (player_slots g) then next_transform kmask ms g j else transforms g ! j)
      (\<lambda>j. if j \<in> set (fallers g) then k_entity_pending_remove else slot_state g j) (length (fallers g)) 0 g'"
    unfolding fallers_def player_slots_def
    by (rule evolves_cong [OF e]) (auto simp: next_transform_def kind_rows [OF ok])
  ultimately show ?thesis by (rule that)
qed

text \<open>Players and trucks together, from a game in which every entity is active.\<close>

lemma frame_evolves:
  assumes ok: "game_ok g" and all: "\<And>j. used_slot g j \<Longrightarrow> seen_slot g j"
    and players: "player_slots g \<noteq> []"
    and room: "length (fallers g) + length (collisions kmask ms g) \<le> free_slots g"
  obtains g1 g' where "update_players ms kmask g = Some g1" and "update_trucks ms g1 = Some g'"
    and "keeps_matches g g'"
    and "evolves g (next_transform kmask ms g) (next_state kmask ms g)
      (length (fallers g) + length (collisions kmask ms g)) (length (collisions kmask ms g)) g'"
proof -
  let ?p = "hd (player_slots g)"
  obtain g1 where g1: "update_players ms kmask g = Some g1" and k1: "keeps_matches g g1"
    and e1: "evolves g (\<lambda>j. if j \<in> set (player_slots g) then next_transform kmask ms g j else transforms g ! j)
      (\<lambda>j. if j \<in> set (fallers g) then k_entity_pending_remove else slot_state g j) (length (fallers g)) 0 g1"
    by (rule update_players_evolves [OF ok]) (use room in auto)
  have ok1: "game_ok g1" using e1 by (simp add: evolves_def)
  have rs: "row_slots m g1 = row_slots m g" for m by (rule row_slots_kept [OF k1])
  have T1: "transforms g1 ! j = (if j \<in> set (player_slots g) then next_transform kmask ms g j else transforms g ! j)"
    and S1: "slot_state g1 j = (if j \<in> set (fallers g) then k_entity_pending_remove else slot_state g j)"
    and M1: "slot_mask g1 j = slot_mask g j" if "used_slot g j" for j
    using e1 that by (simp_all add: evolves_def)
  have pin: "?p \<in> set (player_slots g)" using players by (simp add: hd_in_set)
  then have pu: "used_slot g ?p" by (auto simp: player_slots_def in_row_slots seen_used)
  have truck: "truck_next (truck_dt ms) g1 j = next_transform kmask ms g j" if "j \<in> set (truck_slots g)" for j
  proof -
    have u: "used_slot g j" "slot_mask g j \<noteq> player_mask"
      using that by (auto simp: truck_slots_def kind_rows [OF ok] seen_used mask_defs')
    then have "j \<notin> set (player_slots g)" by (simp add: player_slots_def kind_rows [OF ok])
    with u show ?thesis using T1 [OF u(1)] M1 [OF u(1)] by (simp add: truck_next_def next_transform_def)
  qed
  have hits: "truck_hits (truck_dt ms) ?p g1 = collisions kmask ms g"
    unfolding truck_hits_def collisions_def truck_slots_def rs
    using truck T1 [OF pu] pin by (intro filter_cong) (simp_all add: truck_slots_def)
  have p1: "row_slots 9 g1 \<noteq> []" "?p = hd (row_slots 9 g1)"
    using players by (simp_all add: rs player_slots_def)
  have free1: "length (truck_hits (truck_dt ms) ?p g1) \<le> free_slots g1"
    using e1 room hits by (simp add: evolves_def)
  obtain g2 where g2: "update_trucks ms g1 = Some g2" and k2: "keeps_matches g1 g2"
    and e2: "evolves g1 (\<lambda>j. if seen_slot g1 j then truck_next (truck_dt ms) g1 j else transforms g1 ! j)
      (\<lambda>j. if j = ?p \<and> collisions kmask ms g \<noteq> [] then k_entity_pending_remove else slot_state g1 j)
      (length (collisions kmask ms g)) (length (collisions kmask ms g)) g2"
    by (rule update_trucks_evolves [OF ok1 p1 free1, unfolded hits])
  have seen1: "seen_slot g1 j \<longleftrightarrow> seen_slot g j" for j
    using k1 by (cases "j < 512") (auto simp: keeps_matches_def seen_slot_def)
  have e12: "evolves g (\<lambda>j. if seen_slot g1 j then truck_next (truck_dt ms) g1 j else transforms g1 ! j)
      (\<lambda>j. if j = ?p \<and> collisions kmask ms g \<noteq> [] then k_entity_pending_remove else slot_state g1 j)
      (length (fallers g) + length (collisions kmask ms g)) (0 + length (collisions kmask ms g)) g2"
    by (rule evolves_trans [OF e1 e2]) (use pu seen1 seen_used in auto)
  have "evolves g (next_transform kmask ms g) (next_state kmask ms g)
      (length (fallers g) + length (collisions kmask ms g)) (0 + length (collisions kmask ms g)) g2"
  proof (rule evolves_cong [OF e12], intro conjI)
    fix j
    assume u: "used_slot g j"
    have s: "seen_slot g1 j" using all [OF u] seen1 by simp
    show "(if seen_slot g1 j then truck_next (truck_dt ms) g1 j else transforms g1 ! j) = next_transform kmask ms g j"
    proof (cases "slot_mask g j = player_mask")
      case True
      with all [OF u] have "j \<in> set (player_slots g)" by (simp add: player_slots_def kind_rows [OF ok])
      with True s show ?thesis using T1 [OF u] M1 [OF u] by (simp add: truck_next_def mask_defs')
    next
      case False
      then have "j \<notin> set (player_slots g)" by (simp add: player_slots_def kind_rows [OF ok])
      with False s show ?thesis using T1 [OF u] M1 [OF u] by (simp add: truck_next_def next_transform_def)
    qed
    show "(if j = ?p \<and> collisions kmask ms g \<noteq> [] then k_entity_pending_remove else slot_state g1 j) =
        next_state kmask ms g j"
      using S1 [OF u] by (auto simp: next_state_def)
  qed
  moreover have "used_slot g j \<Longrightarrow> used_slot g1 j" for j using e1 by (simp add: evolves_def)
  then have "keeps_matches g g2" by (rule keeps_matches_trans [OF k1 k2])
  ultimately show ?thesis using that [OF g1 g2] by simp
qed

text \<open>The next frame has a player if one is waiting to be added or active now.\<close>

definition has_player :: "frogger_game_t \<Rightarrow> bool" where
  "has_player g \<longleftrightarrow> (\<exists>j < 512. slot_state g j \<in> {k_entity_pending_add, k_entity_active} \<and>
     slot_mask g j = player_mask)"

lemma has_player_slots:
  assumes "game_ok g"
  shows "player_slots (frame_start ts g) \<noteq> [] \<longleftrightarrow> has_player g"
proof -
  have "set (player_slots (frame_start ts g)) =
      {j. j < 512 \<and> slot_state g j \<in> {k_entity_pending_add, k_entity_active} \<and> slot_mask g j = player_mask}"
    unfolding player_slots_def kind_rows(1) [OF frame_start_ok(1) [OF assms]] frame_start_ok(3) [OF assms]
      frame_start_states(2) [OF assms]
    using frame_start_states(1) [OF assms, where ts = ts] update_state_active by auto
  then have "player_slots (frame_start ts g) = [] \<longleftrightarrow>
      {j. j < 512 \<and> slot_state g j \<in> {k_entity_pending_add, k_entity_active} \<and> slot_mask g j = player_mask} = {}"
    by (metis set_empty)
  then show ?thesis by (auto simp: has_player_def)
qed

text \<open>A player is gone only if a new one was spawned.\<close>

lemma player_survives:
  assumes ok: "game_ok g" and all: "\<And>j. used_slot g j \<Longrightarrow> slot_state g j = k_entity_active"
    and players: "player_slots g \<noteq> []"
    and e: "evolves g T (next_state kmask ms g) (length (fallers g) + length (collisions kmask ms g)) k g'"
  shows "has_player g'"
proof (cases "fallers g = [] \<and> collisions kmask ms g = []")
  case True
  let ?p = "hd (player_slots g)"
  have "?p \<in> set (player_slots g)" using players by (simp add: hd_in_set)
  then have p: "used_slot g ?p" "slot_mask g ?p = player_mask"
    by (auto simp: player_slots_def kind_rows [OF ok] seen_used)
  with e all True have "slot_state g' ?p = k_entity_active" "slot_mask g' ?p = player_mask"
    by (simp_all add: evolves_def next_state_def)
  with p(1) show ?thesis by (auto simp: has_player_def used_slot_def)
next
  case False
  then have "0 < length (fallers g) + length (collisions kmask ms g)" by auto
  with e have less: "free_slots g' < free_slots g" by (simp add: evolves_def)
  have "\<exists>j. used_slot g' j \<and> \<not> used_slot g j"
  proof (rule ccontr)
    assume "\<not> ?thesis"
    then have "{j. j < 512 \<and> slot_state g j = k_entity_unused} \<subseteq> {j. j < 512 \<and> slot_state g' j = k_entity_unused}"
      by (auto simp: used_slot_def)
    then have "free_slots g \<le> free_slots g'" unfolding free_slots_def by (intro card_mono) auto
    with less show False by simp
  qed
  then obtain j where "used_slot g' j" "newborn g' j" using e by (auto simp: evolves_def)
  then show ?thesis by (auto simp: has_player_def newborn_def used_slot_def)
qed

section \<open>Where the trucks are\<close>

definition trucks_within :: "f32 \<Rightarrow> frogger_game_t \<Rightarrow> bool" where
  "trucks_within d g \<longleftrightarrow> (\<forall>j. used_slot g j \<longrightarrow> slot_mask g j \<in> {truck1_mask, truck2_mask, truck3_mask} \<longrightarrow>
     - (24 + d) \<le> vy (translation (transforms g ! j)) \<and> vy (translation (transforms g ! j)) \<le> 24)"

lemma truck_step_within:
  assumes "- (24 + d) \<le> vy (translation t)" and "vy (translation t) \<le> 24" and "0 \<le> step" and "step \<le> d"
  shows "- (24 + d) \<le> vy (translation (truck_step step t)) \<and> vy (translation (truck_step step t)) \<le> 24"
  using assms by (auto simp: truck_step_def with_y_def Let_def)

lemma truck_next_within:
  assumes "- (24 + d) \<le> vy (translation (transforms g ! j))" and "vy (translation (transforms g ! j)) \<le> 24"
    and "0 \<le> dt" and "dt * 4 \<le> d"
  shows "- (24 + d) \<le> vy (translation (truck_next dt g j)) \<and> vy (translation (truck_next dt g j)) \<le> 24"
  using assms truck_step_within [of d "transforms g ! j"] by (auto simp: truck_next_def)

lemma trucks_stay_within:
  assumes e: "evolves g (next_transform kmask ms g) S n k g'" and "trucks_within d g"
    and "truck_dt ms * 4 \<le> d"
  shows "trucks_within d g'"
  unfolding trucks_within_def
proof (intro allI impI)
  fix j
  assume u': "used_slot g' j" and m': "slot_mask g' j \<in> {truck1_mask, truck2_mask, truck3_mask}"
  have u: "used_slot g j"
  proof (rule ccontr)
    assume "\<not> used_slot g j"
    with e u' have "newborn g' j" by (simp add: evolves_def)
    with m' show False by (auto simp: newborn_def mask_defs')
  qed
  with e m' have m: "slot_mask g j \<in> {truck1_mask, truck2_mask, truck3_mask}"
    and t: "transforms g' ! j = next_transform kmask ms g j" by (simp_all add: evolves_def)
  have "slot_mask g j \<noteq> player_mask" using m by (auto simp: mask_defs')
  then have "transforms g' ! j = truck_next (truck_dt ms) g j" by (simp add: t next_transform_def)
  moreover have "- (24 + d) \<le> vy (translation (transforms g ! j))" "vy (translation (transforms g ! j)) \<le> 24"
    using assms(2) u m unfolding trucks_within_def by blast+
  moreover have "0 \<le> truck_dt ms" by (simp add: truck_dt_def del: of_nat_unat)
  ultimately show "- (24 + d) \<le> vy (translation (transforms g' ! j)) \<and> vy (translation (transforms g' ! j)) \<le> 24"
    using truck_next_within [of d g j "truck_dt ms"] assms(3) by simp
qed

end
