(* ===== verification/Frogger_Start.thy ===== *)
theory Frogger_Start
  imports Frogger_Game
begin

text \<open>
  The start of the frogger game: the component types, and the entities \<^verbatim>\<open>frogger_game_create\<close>
  lays out, one per slot.
\<close>

section \<open>Component types\<close>

definition types_filled :: "nat \<Rightarrow> ecs_t \<Rightarrow> bool" where
  "types_filled i e \<longleftrightarrow> ecs_ok e \<and> (\<forall>j < 64. components e ! j = None \<longleftrightarrow> i \<le> j) \<and>
     entity_states e = replicate 512 k_entity_unused"

definition good_heap :: "(u64 \<Rightarrow> u64 \<Rightarrow> u8 list ptr) \<Rightarrow> bool" where
  "good_heap alloc \<longleftrightarrow> (\<forall>n a. \<exists>block. alloc n a = Some block \<and> length block = unat n)"

lemma register_next:
  assumes e: "types_filled i e" and i: "i < 64" and k: "k < 64" and small: "(unat sz + 2 ^ k) * 512 < 2 ^ 64"
    and heap: "good_heap alloc" and name: "length name < 32" and i': "i' = Suc i"
  shows "\<exists>e'. ecs_register_component_type e name sz (2 ^ k) alloc = Some (int i, e') \<and> types_filled i' e'"
proof -
  have ok: "ecs_ok e" using e by (simp add: types_filled_def)
  have len: "length (components e) = 64" using ok by (simp add: ecs_ok_def)
  have free: "scan (\<lambda>i. components e ! i = None) 0 64 = Some i"
    using e i by (simp add: scan_Some_iff types_filled_def)
  have alloc: "alloc n a = Some block \<Longrightarrow> length block = unat n" for n a block
    using heap unfolding good_heap_def by (metis option.inject)
  obtain block where b: "alloc (align_size sz (2 ^ k) * word_of_nat 512) (2 ^ k) = Some block"
    "length block = unat (align_size sz (2 ^ k) * word_of_nat 512)"
    using heap unfolding good_heap_def by blast
  have "\<exists>e'. ecs_register_component_type e name sz (2 ^ k) alloc = Some (int i, e')"
    using free name b by (simp add: ecs_register_component_type_def Let_def memset0_def)
  then obtain e' where reg: "ecs_register_component_type e name sz (2 ^ k) alloc = Some (int i, e')" by blast
  have sum: "unat sz + (2 ^ k - 1) < 2 ^ 64" using small by simp
  have "unat (align_size sz (2 ^ k)) * 512 < 2 ^ 64"
    using align_size_bounds(3) [OF k sum] small by simp
  then have ok': "ecs_ok e'" using ecs_register_ok [OF ok alloc _ reg] by simp
  from reg have "types_filled (Suc i) e'"
  proof (cases rule: ecs_register_cases)
    case full
    then show ?thesis using free by simp
  next
    case (new j n block)
    then have "j = i" by simp
    with new e i len ok' show ?thesis
      by (auto simp: types_filled_def registered_def nth_list_update)
  qed
  with reg show ?thesis unfolding i' by blast
qed

lemma register_step:
  assumes "types_filled i e" and "good_heap alloc" and "i < 64" and "al = 2 ^ k" and "k < 64"
    and "(unat sz + 2 ^ k) * 512 < 2 ^ 64" and "length name < 32" and "i' = Suc i" and "t = int i"
  obtains e' where "ecs_register_component_type e name sz al alloc = Some (t, e')" and "types_filled i' e'"
  using register_next [OF assms(1,3,5,6,2,7,8)] assms(4,9) by blast

lemma register_types_ok:
  assumes e: "types_filled 0 (game_ecs g)" and heap: "good_heap alloc"
  shows "\<exists>e'. register_types alloc g = Some (g\<lparr>transform_type := 0, camera_type := 1, model_type := 2,
    player_type := 3, truck1_type := 4, truck2_type := 5, truck3_type := 6, name_type := 7, game_ecs := e'\<rparr>) \<and>
    types_filled 8 e'"
proof -
  obtain e1 where e1: "ecs_register_component_type (game_ecs g) ''transform'' 40 4 alloc = Some (0, e1)" "types_filled 1 e1"
    by (rule register_step [OF e heap, of 4 2 40 "''transform''" 1 0]) simp_all
  obtain e2 where e2: "ecs_register_component_type e1 ''camera'' 128 4 alloc = Some (1, e2)" "types_filled 2 e2"
    by (rule register_step [OF e1(2) heap, of 4 2 128 "''camera''" 2 1]) simp_all
  obtain e3 where e3: "ecs_register_component_type e2 ''model'' 16 8 alloc = Some (2, e3)" "types_filled 3 e3"
    by (rule register_step [OF e2(2) heap, of 8 3 16 "''model''" 3 2]) simp_all
  obtain e4 where e4: "ecs_register_component_type e3 ''player'' 4 4 alloc = Some (3, e4)" "types_filled 4 e4"
    by (rule register_step [OF e3(2) heap, of 4 2 4 "''player''" 4 3]) simp_all
  obtain e5 where e5: "ecs_register_component_type e4 ''truck1'' 4 4 alloc = Some (4, e5)" "types_filled 5 e5"
    by (rule register_step [OF e4(2) heap, of 4 2 4 "''truck1''" 5 4]) simp_all
  obtain e6 where e6: "ecs_register_component_type e5 ''truck2'' 4 4 alloc = Some (5, e6)" "types_filled 6 e6"
    by (rule register_step [OF e5(2) heap, of 4 2 4 "''truck2''" 6 5]) simp_all
  obtain e7 where e7: "ecs_register_component_type e6 ''truck3'' 4 4 alloc = Some (6, e7)" "types_filled 7 e7"
    by (rule register_step [OF e6(2) heap, of 4 2 4 "''truck3''" 7 6]) simp_all
  obtain e8 where e8: "ecs_register_component_type e7 ''name'' 32 1 alloc = Some (7, e8)" "types_filled 8 e8"
    by (rule register_step [OF e7(2) heap, of 1 0 32 "''name''" 8 7]) simp_all
  show ?thesis
    using e8(2) by (intro exI [of _ e8]) (simp add: register_types_def Let_def e1(1) e2(1) e3(1) e4(1) e5(1) e6(1) e7(1) e8(1))
qed

section \<open>Laying out entities\<close>

text \<open>
  \<open>laid L r g\<close>: the first slots hold the pending entities \<open>L\<close> (mask and transform), the others are
  unused and zero, and \<open>r\<close> random numbers were drawn.
\<close>

definition laid :: "(u64 \<times> transform_t) list \<Rightarrow> nat \<Rightarrow> frogger_game_t \<Rightarrow> bool" where
  "laid L r g \<longleftrightarrow> game_ok g \<and> rands g = r \<and> length L \<le> 512 \<and>
     (\<forall>k < length L. slot_state g k = k_entity_pending_add \<and> slot_mask g k = fst (L ! k) \<and>
        transforms g ! k = snd (L ! k)) \<and>
     (\<forall>k < 512. length L \<le> k \<longrightarrow> slot_state g k = k_entity_unused \<and> transforms g ! k = zero_transform)"

lemma laid_add:
  assumes laid: "laid L r g" and room: "length L < 512"
  shows "ecs_entity_add (game_ecs g) m = (spawned_ref (game_ecs g) (length L), spawned_ecs (game_ecs g) (length L) m)"
    and "slot_state g (length L) = k_entity_unused"
proof -
  have "scan (\<lambda>i. slot_state g i = k_entity_unused) 0 512 = Some (length L)"
    using laid room by (auto simp: scan_Some_iff laid_def)
  then show "ecs_entity_add (game_ecs g) m = (spawned_ref (game_ecs g) (length L), spawned_ecs (game_ecs g) (length L) m)"
    by (simp add: ecs_entity_add_def spawned_ecs_def)
  show "slot_state g (length L) = k_entity_unused" using laid room by (simp add: laid_def)
qed

lemma laid_with_new:
  assumes laid: "laid L r g" and room: "length L < 512"
    and m: "m \<in> {player_mask, truck1_mask, truck2_mask, truck3_mask, camera_mask}"
  shows "laid (L @ [(m, t)]) r (with_new (length L) m t name n res g)"
proof -
  have ok: "game_ok g" using laid by (simp add: laid_def)
  note len = game_ok_lengths [OF ok]
  have "game_ok (with_new (length L) m t name n res g)" by (rule with_new_ok [OF ok m])
  then show ?thesis
    using laid room len by (auto simp: laid_def with_new_def nth_list_update nth_append less_Suc_eq)
qed

lemma laid_cong:
  assumes "laid L r g" and "game_ecs g' = game_ecs g" and "transforms g' = transforms g"
    and "types_ok g'" and "memory_ok g'" and "rands g' = r'"
  shows "laid L r' g'"
  using assms by (simp add: laid_def game_ok_def kinds_ok_def used_slot_def)

definition truck_start1 :: "(nat \<Rightarrow> int) \<Rightarrow> nat \<Rightarrow> nat \<Rightarrow> transform_t" where
  "truck_start1 rnd r i = with_scale_y (14 / 10 + of_int (rnd r) / 32767 * (2 - 14 / 10))
     (with_y (8 * real i - 24) (with_z 8 transform_identity))"

definition truck_start2 :: "(nat \<Rightarrow> int) \<Rightarrow> nat \<Rightarrow> nat \<Rightarrow> transform_t" where
  "truck_start2 rnd r i = with_scale_y (18 / 10 + of_int (rnd r) / 32767 * (28 / 10 - 18 / 10))
     (with_y (12 * real i - 24) transform_identity)"

definition truck_start3 :: "(nat \<Rightarrow> int) \<Rightarrow> nat \<Rightarrow> nat \<Rightarrow> transform_t" where
  "truck_start3 rnd r i = with_scale_y (18 / 10 + of_int (rnd r) / 32767 * (4 - 18 / 10))
     (with_y (16 * real i - 24) (with_z (- 8) transform_identity))"

lemma laid_player:
  assumes laid: "laid L r g" and room: "length L < 512"
  shows "\<exists>g'. spawn_player n g = Some g' \<and> laid (L @ [(player_mask, start)]) r g'"
proof -
  have ok: "game_ok g" using laid by (simp add: laid_def)
  let ?g = "with_new (length L) player_mask start ''player'' n cube g\<lparr>player_ent := spawned_ref (game_ecs g) (length L)\<rparr>"
  have new: "laid (L @ [(player_mask, start)]) r (with_new (length L) player_mask start ''player'' n cube g)"
    by (rule laid_with_new [OF laid room]) simp
  then have "laid (L @ [(player_mask, start)]) r ?g"
    by (rule laid_cong) (use new in \<open>simp_all add: laid_def game_ok_def types_ok_def memory_ok_def\<close>)
  with spawn_player_eq [OF ok room laid_add(1) [OF laid room]] show ?thesis by blast
qed

lemma setup_truck_laid:
  assumes laid: "laid L r g" and room: "length L < 512"
    and m: "m \<in> {truck1_mask, truck2_mask, truck3_mask}"
  shows "\<exists>g'. setup_truck (spawned_ref (game_ecs g) (length L)) t name n
      (g\<lparr>game_ecs := spawned_ecs (game_ecs g) (length L) m, truck1_ent := ra, truck2_ent := rb,
        truck3_ent := rc, rands := rands g + 1\<rparr>) = Some g' \<and> laid (L @ [(m, t)]) (Suc r) g'"
proof -
  have ok: "game_ok g" and r: "rands g = r" using laid by (simp_all add: laid_def)
  let ?n = "with_new (length L) m t name n enemy g"
  let ?g = "?n\<lparr>truck1_ent := ra, truck2_ent := rb, truck3_ent := rc, rands := rands g + 1\<rparr>"
  have new: "laid (L @ [(m, t)]) r ?n"
    by (rule laid_with_new [OF laid room]) (use m in auto)
  then have "laid (L @ [(m, t)]) (Suc r) ?g"
    by (rule laid_cong) (use new r in \<open>simp_all add: laid_def game_ok_def types_ok_def memory_ok_def\<close>)
  with setup_truck_eq [OF ok room laid_add(2) [OF laid room]] show ?thesis by blast
qed

lemma laid_types:
  "laid L r g \<Longrightarrow> transform_type g = 0 \<and> model_type g = 2 \<and> truck1_type g = 4 \<and> truck2_type g = 5 \<and>
    truck3_type g = 6 \<and> name_type g = 7 \<and> camera_type g = 1"
  by (simp add: laid_def game_ok_def types_ok_def)

lemma laid_truck1:
  assumes laid: "laid L r g" and room: "length L < 512"
  shows "\<exists>g'. spawn_truck1 rnd n i g = Some g' \<and> laid (L @ [(truck1_mask, truck_start1 rnd r i)]) (Suc r) g'"
proof -
  have "rands g = r" using laid by (simp add: laid_def)
  then show ?thesis
    using setup_truck_laid [OF laid room, where m = truck1_mask and t = "truck_start1 rnd r i"
        and name = "''truck1''" and n = n and ra = "spawned_ref (game_ecs g) (length L)" and rb = "truck2_ent g" and rc = "truck3_ent g"] laid_types [OF laid]
    by (simp add: spawn_truck1_def Let_def laid_add [OF laid room] float_rand_def truck1_mask_def
        truck_start1_def)
qed

lemma laid_truck2:
  assumes laid: "laid L r g" and room: "length L < 512"
  shows "\<exists>g'. spawn_truck2 rnd n i g = Some g' \<and> laid (L @ [(truck2_mask, truck_start2 rnd r i)]) (Suc r) g'"
proof -
  have "rands g = r" using laid by (simp add: laid_def)
  then show ?thesis
    using setup_truck_laid [OF laid room, where m = truck2_mask and t = "truck_start2 rnd r i"
        and name = "''truck2''" and n = n and ra = "truck1_ent g" and rb = "spawned_ref (game_ecs g) (length L)" and rc = "truck3_ent g"] laid_types [OF laid]
    by (simp add: spawn_truck2_def Let_def laid_add [OF laid room] float_rand_def truck2_mask_def
        truck_start2_def)
qed

lemma laid_truck3:
  assumes laid: "laid L r g" and room: "length L < 512"
  shows "\<exists>g'. spawn_truck3 rnd n i g = Some g' \<and> laid (L @ [(truck3_mask, truck_start3 rnd r i)]) (Suc r) g'"
proof -
  have "rands g = r" using laid by (simp add: laid_def)
  then show ?thesis
    using setup_truck_laid [OF laid room, where m = truck3_mask and t = "truck_start3 rnd r i"
        and name = "''truck3''" and n = n and ra = "truck1_ent g" and rb = "truck2_ent g" and rc = "spawned_ref (game_ecs g) (length L)"] laid_types [OF laid]
    by (simp add: spawn_truck3_def Let_def laid_add [OF laid room] float_rand_def truck3_mask_def
        truck_start3_def)
qed

text \<open>A loop of \<open>n\<close> spawns, each drawing one random number.\<close>

lemma for_slots_append: "for_slots body (xs @ ys) g = for_slots body xs g \<bind> for_slots body ys"
proof (induction xs arbitrary: g)
  case (Cons a xs)
  then show ?case by (cases "body a g") simp_all
qed simp

lemma laid_loop:
  assumes "laid L r g" and "length L + n \<le> 512"
    and spawn: "\<And>L r i g. laid L r g \<Longrightarrow> length L < 512 \<Longrightarrow>
      \<exists>g'. body i g = Some g' \<and> laid (L @ [(m, t r i)]) (Suc r) g'"
  shows "\<exists>g'. for_slots body [0..<n] g = Some g' \<and> laid (L @ map (\<lambda>i. (m, t (r + i) i)) [0..<n]) (r + n) g'"
  using assms(2)
proof (induction n)
  case 0
  then show ?case using assms(1) by simp
next
  case (Suc n)
  then obtain g1 where "for_slots body [0..<n] g = Some g1"
    "laid (L @ map (\<lambda>i. (m, t (r + i) i)) [0..<n]) (r + n) g1" by auto
  with spawn [OF this(2), of n] Suc.prems show ?case
    by (auto simp: for_slots_append)
qed

definition frogger_layout :: "(nat \<Rightarrow> int) \<Rightarrow> (u64 \<times> transform_t) list" where
  "frogger_layout rnd =
     [(player_mask, start)] @ map (\<lambda>i. (truck1_mask, truck_start1 rnd i i)) [0..<6] @
     map (\<lambda>i. (truck2_mask, truck_start2 rnd (6 + i) i)) [0..<4] @
     map (\<lambda>i. (truck3_mask, truck_start3 rnd (10 + i) i)) [0..<3] @ [(camera_mask, zero_transform)]"

lemma laid_trucks:
  assumes laid: "laid L 0 g" and room: "length L + 13 \<le> 512"
  shows "\<exists>g'. spawn_truck rnd n g = Some g' \<and>
    laid (L @ map (\<lambda>i. (truck1_mask, truck_start1 rnd i i)) [0..<6] @
      map (\<lambda>i. (truck2_mask, truck_start2 rnd (6 + i) i)) [0..<4] @
      map (\<lambda>i. (truck3_mask, truck_start3 rnd (10 + i) i)) [0..<3]) 13 g'"
proof -
  let ?L1 = "L @ map (\<lambda>i. (truck1_mask, truck_start1 rnd (0 + i) i)) [0..<6]"
  let ?L2 = "?L1 @ map (\<lambda>i. (truck2_mask, truck_start2 rnd (0 + 6 + i) i)) [0..<4]"
  obtain g1 where g1: "for_slots (spawn_truck1 rnd n) [0..<6] g = Some g1" "laid ?L1 (0 + 6) g1"
    using laid_loop [OF laid _ laid_truck1, of 6] room by fastforce
  obtain g2 where g2: "for_slots (spawn_truck2 rnd n) [0..<4] g1 = Some g2" "laid ?L2 (0 + 6 + 4) g2"
    using laid_loop [OF g1(2) _ laid_truck2, of 4] room by fastforce
  obtain g3 where g3: "for_slots (spawn_truck3 rnd n) [0..<3] g2 = Some g3"
    "laid (?L2 @ map (\<lambda>i. (truck3_mask, truck_start3 rnd (0 + 6 + 4 + i) i)) [0..<3]) (0 + 6 + 4 + 3) g3"
    using laid_loop [OF g2(2) _ laid_truck3, of 3] room by fastforce
  have "0 + 6 + 4 + 3 = (13 :: nat)" "0 + 6 + 4 = (10 :: nat)" "0 + 6 = (6 :: nat)" by simp_all
  with g1(1) g2(1) g3 show ?thesis
    by (intro exI [of _ g3]) (simp only: spawn_truck_def bind.bind_lunit append_assoc add_0)
qed

text \<open>Spawning touches neither the timer nor the drawings nor the sounds.\<close>

definition same_clock :: "frogger_game_t \<Rightarrow> frogger_game_t \<Rightarrow> bool" where
  "same_clock g g' \<longleftrightarrow> game_timers g' = game_timers g \<and> game_timer g' = game_timer g \<and>
     pushed g' = pushed g \<and> sounds g' = sounds g"

definition frogger_camera :: camera_component_t where
  "frogger_camera = \<lparr>cam_projection = mat4f_make_orthographic 16 9 (1 / 10) 15,
     cam_view = mat4f_make_lookat \<lparr>vx = 5, vy = 0, vz = 0\<rparr> vec3f_forward vec3f_up\<rparr>"

lemma laid_camera:
  assumes laid: "laid L r g" and room: "length L < 512"
  shows "\<exists>g'. spawn_camera g = Some g' \<and> laid (L @ [(camera_mask, zero_transform)]) r g' \<and>
    cameras g' ! length L = frogger_camera \<and> same_clock g g'"
proof -
  have ok: "game_ok g" using laid by (simp add: laid_def)
  note len = game_ok_lengths [OF ok]
  note slot = comp_slot_game [OF ok room]
  let ?i = "length L"
  let ?g = "g\<lparr>game_ecs := spawned_ecs (game_ecs g) ?i camera_mask,
      camera_ent := spawned_ref (game_ecs g) ?i, names := (names g)[?i := ''camera''],
      cameras := (cameras g)[?i := frogger_camera]\<rparr>"
  have "spawn_camera g = Some ?g"
    using laid_types [OF laid] room
    by (simp add: spawn_camera_def Let_def laid_add [OF laid room] slot put_defs len camera_mask_def
        frogger_camera_def vec3f_scale_def vec3f_forward_def)
  moreover have new: "laid (L @ [(camera_mask, transforms g ! ?i)]) r
      (with_new ?i camera_mask (transforms g ! ?i) ''camera'' 0 cube g)"
    by (rule laid_with_new [OF laid room]) simp
  then have "laid (L @ [(camera_mask, transforms g ! ?i)]) r ?g"
    by (rule laid_cong) (use ok in \<open>simp_all add: with_new_def game_ok_def types_ok_def memory_ok_def laid laid_def [of L]\<close>,
      use laid in \<open>simp add: laid_def\<close>)
  moreover have "transforms g ! ?i = zero_transform" using laid room by (simp add: laid_def)
  moreover have "cameras ?g ! ?i = frogger_camera" using room len by simp
  moreover have "same_clock g ?g" by (simp add: same_clock_def)
  ultimately show ?thesis by auto
qed

end
