(* ===== verification/Frogger_Play.thy ===== *)
theory Frogger_Play
  imports Frogger_Start
begin

text \<open>
  What holds of the frogger game as it is played: how it starts, what one frame does, what every
  frame keeps, and what the collision test decides.
\<close>

section \<open>The created game\<close>

lemma put_same_clock:
  "put_transform i t g = Some g' \<Longrightarrow> same_clock g g'"
  "put_name i s g = Some g' \<Longrightarrow> same_clock g g'"
  "put_player i n g = Some g' \<Longrightarrow> same_clock g g'"
  "put_model i r g = Some g' \<Longrightarrow> same_clock g g'"
  by (auto simp: same_clock_def put_defs)

lemma spawn_player_same_clock:
  assumes "spawn_player n g = Some g'"
  shows "same_clock g g'"
proof -
  obtain ref e where e: "ecs_entity_add (game_ecs g) (type_bit (transform_type g) OR type_bit (model_type g) OR
      type_bit (player_type g) OR type_bit (name_type g)) = (ref, e)" by (rule prod.exhaust)
  from assms show ?thesis
    unfolding spawn_player_def Let_def e prod.case bind_eq_Some_conv
    by (elim exE conjE) (drule put_same_clock, simp add: same_clock_def)+
qed

lemma setup_truck_same_clock:
  assumes "setup_truck ref t s n g = Some g'"
  shows "same_clock g g'"
  using assms unfolding setup_truck_def bind_eq_Some_conv
  by (elim exE conjE) (drule put_same_clock, simp add: same_clock_def)+

lemma spawn_truck1_same_clock:
  assumes "spawn_truck1 rnd n i g = Some g'"
  shows "same_clock g g'"
proof -
  obtain ref e where e: "ecs_entity_add (game_ecs g) (type_bit (transform_type g) OR type_bit (model_type g) OR
      type_bit (truck1_type g) OR type_bit (name_type g)) = (ref, e)" by (rule prod.exhaust)
  show ?thesis
    using setup_truck_same_clock [OF assms [unfolded spawn_truck1_def Let_def float_rand_def e prod.case]]
    by (simp add: same_clock_def)
qed

lemma spawn_truck2_same_clock:
  assumes "spawn_truck2 rnd n i g = Some g'"
  shows "same_clock g g'"
proof -
  obtain ref e where e: "ecs_entity_add (game_ecs g) (type_bit (transform_type g) OR type_bit (model_type g) OR
      type_bit (truck2_type g) OR type_bit (name_type g)) = (ref, e)" by (rule prod.exhaust)
  show ?thesis
    using setup_truck_same_clock [OF assms [unfolded spawn_truck2_def Let_def float_rand_def e prod.case]]
    by (simp add: same_clock_def)
qed

lemma spawn_truck3_same_clock:
  assumes "spawn_truck3 rnd n i g = Some g'"
  shows "same_clock g g'"
proof -
  obtain ref e where e: "ecs_entity_add (game_ecs g) (type_bit (transform_type g) OR type_bit (model_type g) OR
      type_bit (truck3_type g) OR type_bit (name_type g)) = (ref, e)" by (rule prod.exhaust)
  show ?thesis
    using setup_truck_same_clock [OF assms [unfolded spawn_truck3_def Let_def float_rand_def e prod.case]]
    by (simp add: same_clock_def)
qed

lemmas spawn_same_clock = spawn_player_same_clock spawn_truck1_same_clock spawn_truck2_same_clock
  spawn_truck3_same_clock

lemma same_clock_trans: "same_clock g g1 \<Longrightarrow> same_clock g1 g2 \<Longrightarrow> same_clock g g2"
  by (simp add: same_clock_def)

lemma for_slots_same_clock:
  assumes "\<And>i g g'. body i g = Some g' \<Longrightarrow> same_clock g g'" and "for_slots body xs g = Some g'"
  shows "same_clock g g'"
  using assms(2)
proof (induction xs arbitrary: g)
  case (Cons a xs)
  then obtain g1 where g1: "body a g = Some g1" "for_slots body xs g1 = Some g'" by (auto simp: bind_eq_Some_conv)
  show ?case by (rule same_clock_trans [OF assms(1) [OF g1(1)] Cons.IH [OF g1(2)]])
qed (simp add: same_clock_def)

lemma spawn_truck_same_clock: "spawn_truck rnd n g = Some g' \<Longrightarrow> same_clock g g'"
proof -
  assume "spawn_truck rnd n g = Some g'"
  then obtain g1 g2 where "for_slots (spawn_truck1 rnd n) [0..<6] g = Some g1"
    "for_slots (spawn_truck2 rnd n) [0..<4] g1 = Some g2" "for_slots (spawn_truck3 rnd n) [0..<3] g2 = Some g'"
    unfolding spawn_truck_def bind_eq_Some_conv by blast
  note loops = this
  have "same_clock g g1" by (rule for_slots_same_clock [OF _ loops(1)]) (rule spawn_truck1_same_clock)
  moreover have "same_clock g1 g2" by (rule for_slots_same_clock [OF _ loops(2)]) (rule spawn_truck2_same_clock)
  moreover have "same_clock g2 g'" by (rule for_slots_same_clock [OF _ loops(3)]) (rule spawn_truck3_same_clock)
  ultimately show ?thesis by (simp add: same_clock_def)
qed

lemma created:
  assumes heap: "good_heap alloc"
  obtains g where "frogger_game_create rnd alloc True ts a ticks = Some g"
    and "laid (frogger_layout rnd) 13 g" and "cameras g ! 14 = frogger_camera"
    and "game_timers g = ts(a \<mapsto> \<lparr>current_ticks = 0, delta_ticks = 0, tm_parent = None, bias_ticks = ticks,
      tm_scale = 1, tm_paused = False\<rparr>)" and "game_timer g = a" and "pushed g = []" and "sounds g = 0"
proof -
  define ts1 where "ts1 = ts(a \<mapsto> \<lparr>current_ticks = 0, delta_ticks = 0, tm_parent = None, bias_ticks = ticks,
      tm_scale = 1, tm_paused = False\<rparr>)"
  have t: "timer_object_create ts a None ticks = Some ts1"
    by (simp add: timer_object_create_def base_ticks_def ts1_def)
  obtain e where e: "ecs_create True = Some e" by (simp add: ecs_create_def)
  have "types_filled 0 e"
    using ecs_create_ok [OF e] e by (auto simp: types_filled_def ecs_create_def)
  then have "types_filled 0 (game_ecs (empty_game e ts1 a))" by (simp add: empty_game_def Let_def)
  from register_types_ok [OF this heap] obtain e8 where r: "register_types alloc (empty_game e ts1 a) =
      Some ((empty_game e ts1 a)\<lparr>transform_type := 0, camera_type := 1, model_type := 2,
        player_type := 3, truck1_type := 4, truck2_type := 5, truck3_type := 6, name_type := 7, game_ecs := e8\<rparr>)"
    and e8: "types_filled 8 e8" by blast
  define g0 where "g0 = (empty_game e ts1 a)\<lparr>transform_type := 0, camera_type := 1, model_type := 2,
        player_type := 3, truck1_type := 4, truck2_type := 5, truck3_type := 6, name_type := 7, game_ecs := e8\<rparr>"
  have "laid [] 0 g0"
    using e8 by (auto simp: laid_def game_ok_def types_ok_def memory_ok_def kinds_ok_def used_slot_def
        types_filled_def g0_def empty_game_def Let_def)
  then obtain g1 where g1: "spawn_player 0 g0 = Some g1" "laid [(player_mask, start)] 0 g1"
    using laid_player [of "[]" 0 g0 0] by auto
  obtain g2 where g2: "spawn_truck rnd 1 g1 = Some g2"
    "laid ([(player_mask, start)] @ map (\<lambda>i. (truck1_mask, truck_start1 rnd i i)) [0..<6] @
      map (\<lambda>i. (truck2_mask, truck_start2 rnd (6 + i) i)) [0..<4] @
      map (\<lambda>i. (truck3_mask, truck_start3 rnd (10 + i) i)) [0..<3]) 13 g2" (is "laid ?L _ _")
    using laid_trucks [OF g1(2), of rnd 1] by auto
  have len: "length ?L = 14" by simp
  obtain g3 where g3: "spawn_camera g2 = Some g3" "laid (?L @ [(camera_mask, zero_transform)]) 13 g3"
    "cameras g3 ! 14 = frogger_camera" "same_clock g2 g3"
    using laid_camera [OF g2(2)] unfolding len by auto
  have "?L @ [(camera_mask, zero_transform)] = frogger_layout rnd"
    by (simp add: frogger_layout_def)
  with g3(2) have laid: "laid (frogger_layout rnd) 13 g3" by (simp only:)
  have "same_clock g0 g3"
    using spawn_same_clock(1) [OF g1(1)] spawn_truck_same_clock [OF g2(1)] g3(4)
    by (simp add: same_clock_def)
  then have clock: "game_timers g3 = ts1" "game_timer g3 = a" "pushed g3 = []" "sounds g3 = 0"
    by (simp_all add: same_clock_def g0_def empty_game_def Let_def)
  have "frogger_game_create rnd alloc True ts a ticks = Some g3"
    by (simp only: frogger_game_create_def t e r g0_def [symmetric] g1(1) g2(1) g3(1) bind.bind_lunit)
  then show ?thesis using laid g3(3) clock unfolding ts1_def by (rule that)
qed

lemma layout_length: "length (frogger_layout rnd) = 15"
  by (simp add: frogger_layout_def)

lemma layout_trucks:
  "(m, t) \<in> set (frogger_layout rnd) \<Longrightarrow> m \<in> {truck1_mask, truck2_mask, truck3_mask} \<Longrightarrow>
   - 24 \<le> vy (translation t) \<and> vy (translation t) \<le> 16"
  by (auto simp: frogger_layout_def mask_defs' truck_start1_def truck_start2_def truck_start3_def
      with_scale_y_def with_y_def)

lemma laid_used: "laid L r g \<Longrightarrow> used_slot g k \<longleftrightarrow> k < length L"
  by (cases "k < length L") (auto simp: laid_def used_slot_def)

lemma created_player:
  assumes "laid (frogger_layout rnd) r g"
  shows "has_player g"
proof -
  have "frogger_layout rnd ! 0 = (player_mask, start)" by (simp add: frogger_layout_def)
  with assms have "slot_state g 0 = k_entity_pending_add" "slot_mask g 0 = player_mask"
    by (simp_all add: laid_def layout_length)
  then show ?thesis unfolding has_player_def by (intro exI [of _ 0]) simp
qed

lemma created_within:
  assumes laid: "laid (frogger_layout rnd) r g" and d: "0 \<le> d"
  shows "trucks_within d g"
  unfolding trucks_within_def
proof (intro allI impI)
  fix j
  assume u: "used_slot g j" and m: "slot_mask g j \<in> {truck1_mask, truck2_mask, truck3_mask}"
  have "j < length (frogger_layout rnd)" using u laid_used [OF laid] by simp
  then have "(slot_mask g j, transforms g ! j) \<in> set (frogger_layout rnd)"
    using laid nth_mem [of j "frogger_layout rnd"] by (simp add: laid_def)
  from layout_trucks [OF this m] d
  show "- (24 + d) \<le> vy (translation (transforms g ! j)) \<and> vy (translation (transforms g ! j)) \<le> 24" by simp
qed

section \<open>Room in the entity system\<close>

text \<open>At most one new player is spawned for every player and every truck.\<close>

lemma spawns_bounded:
  assumes ok: "game_ok g"
  shows "length (fallers g) + length (collisions kmask ms g) + free_slots g \<le> 512"
proof -
  let ?s = "player_slots g @ truck_slots g"
  note rows = kind_rows [OF ok]
  have d: "distinct ?s"
    by (auto simp: player_slots_def truck_slots_def rows mask_defs')
  have "set ?s \<subseteq> {j. j < 512 \<and> slot_state g j \<noteq> k_entity_unused}"
    by (auto simp: player_slots_def truck_slots_def in_row_slots seen_slot_def)
  then have "length ?s \<le> card {j. j < 512 \<and> slot_state g j \<noteq> k_entity_unused}"
    unfolding distinct_card [OF d, symmetric] by (rule card_mono [rotated]) simp
  moreover have "length (fallers g) \<le> length (player_slots g)" by (simp add: fallers_def)
  moreover have "length (collisions kmask ms g) \<le> length (truck_slots g)" by (simp add: collisions_def)
  moreover have "card {j. j < 512 \<and> slot_state g j \<noteq> k_entity_unused} + free_slots g =
      card ({j. j < 512 \<and> slot_state g j \<noteq> k_entity_unused} \<union> {j. j < 512 \<and> slot_state g j = k_entity_unused})"
    unfolding free_slots_def by (rule card_Un_disjoint [symmetric]) auto
  moreover have "{j. j < 512 \<and> slot_state g j \<noteq> k_entity_unused} \<union> {j. j < 512 \<and> slot_state g j = k_entity_unused} =
      {..<512}" by auto
  ultimately show ?thesis by simp
qed

lemma created_room:
  assumes laid: "laid (frogger_layout rnd) r g"
  shows "length (fallers (frame_start ts g)) + length (collisions kmask ms (frame_start ts g)) \<le>
    free_slots (frame_start ts g)"
proof -
  have ok: "game_ok g" using laid by (simp add: laid_def)
  have "slot_state (frame_start ts g) j = k_entity_unused \<longleftrightarrow> 15 \<le> j" if "j < 512" for j
    using that laid frame_start_states(1) [OF ok that]
    by (cases "j < 15") (auto simp: laid_def layout_length)
  then have "{j. j < 512 \<and> slot_state (frame_start ts g) j = k_entity_unused} = {15..<512}" by auto
  then have "free_slots (frame_start ts g) = 497" by (simp add: free_slots_def)
  with spawns_bounded [OF frame_start_ok(1) [OF ok], of ts kmask ms] show ?thesis by simp
qed

section \<open>One frame\<close>

lemma world_ok_game: "game_ok g \<Longrightarrow> world_ok g"
  by (simp add: world_ok_def game_ok_def types_ok_def memory_ok_def)

lemma frame:
  assumes ok: "game_ok g" and player: "has_player g"
    and ts: "timer_object_update (game_timers g) (game_timer g) ticks = Some ts"
    and ms: "timer_object_get_delta_ms c ts (game_timer g) = Some ms"
    and room: "length (fallers (frame_start ts g)) + length (collisions (wm_get_key_mask win) ms (frame_start ts g))
      \<le> free_slots (frame_start ts g)"
  obtains g' where "frogger_game_update c ticks win g = Some (g'\<lparr>pushed := pushed g @ drawn g'\<rparr>)"
    and "evolves (frame_start ts g) (next_transform (wm_get_key_mask win) ms (frame_start ts g))
      (next_state (wm_get_key_mask win) ms (frame_start ts g))
      (length (fallers (frame_start ts g)) + length (collisions (wm_get_key_mask win) ms (frame_start ts g)))
      (length (collisions (wm_get_key_mask win) ms (frame_start ts g))) g'"
    and "has_player g'"
proof -
  let ?g = "frame_start ts g"
  note start = frame_start_ok [OF ok, where ts = ts]
  have players: "player_slots ?g \<noteq> []" using player by (simp add: has_player_slots [OF ok])
  obtain g1 g' where g1: "update_players ms (wm_get_key_mask win) ?g = Some g1"
    and g': "update_trucks ms g1 = Some g'"
    and e: "evolves ?g (next_transform (wm_get_key_mask win) ms ?g) (next_state (wm_get_key_mask win) ms ?g)
      (length (fallers ?g) + length (collisions (wm_get_key_mask win) ms ?g))
      (length (collisions (wm_get_key_mask win) ms ?g)) g'"
    by (rule frame_evolves [OF start(1) _ players room]) (simp add: start(2))
  have "game_ok g'" "pushed g' = pushed ?g" using e by (simp_all add: evolves_def same_rest_def)
  then have d: "draw_models g' = Some (g'\<lparr>pushed := pushed g @ drawn g'\<rparr>)"
    using draw_models_eq [OF world_ok_game] by (simp add: frame_start_def)
  have "timer_object_get_delta_ms c (game_timers ?g) (game_timer ?g) = Some ms"
    using ms by (simp add: frame_start_def)
  then have "frogger_game_update c ticks win g = Some (g'\<lparr>pushed := pushed g @ drawn g'\<rparr>)"
    unfolding frogger_game_update_def Let_def ts bind.bind_lunit frame_start_def [symmetric]
    by (simp only: g1 g' d bind.bind_lunit)
  moreover have "has_player g'"
    by (rule player_survives [OF start(1) _ players e]) (simp add: start(2,3))
  ultimately show ?thesis using e that by blast
qed

text \<open>A drawn game is the game.\<close>

lemma pushed_update [simp]:
  "game_ok (g\<lparr>pushed := x\<rparr>) = game_ok g" "has_player (g\<lparr>pushed := x\<rparr>) = has_player g"
  "trucks_within d (g\<lparr>pushed := x\<rparr>) = trucks_within d g"
  by (simp_all add: game_ok_def types_ok_def memory_ok_def kinds_ok_def used_slot_def has_player_def
      trucks_within_def)

lemma frame_start_within:
  assumes ok: "game_ok g" and within: "trucks_within d g"
  shows "trucks_within d (frame_start ts g)"
  unfolding trucks_within_def
proof (intro allI impI)
  fix j
  assume u: "used_slot (frame_start ts g) j" and m: "slot_mask (frame_start ts g) j \<in> {truck1_mask, truck2_mask, truck3_mask}"
  have "used_slot g j"
    using u frame_start_states(1) [OF ok, of j ts] by (cases "slot_state g j") (auto simp: used_slot_def)
  then have "- (24 + d) \<le> vy (translation (transforms g ! j)) \<and> vy (translation (transforms g ! j)) \<le> 24"
    using within m unfolding trucks_within_def frame_start_states(2) [OF ok] by blast
  then show "- (24 + d) \<le> vy (translation (transforms (frame_start ts g) ! j)) \<and>
      vy (translation (transforms (frame_start ts g) ! j)) \<le> 24"
    by (simp add: frame_start_def)
qed

section \<open>Properties\<close>

text \<open>C33. On a heap that does not run out, \<^verbatim>\<open>frogger_game_create\<close> succeeds and lays out one player at
  the bottom, six, four and three trucks in three rows, 8, 12 and 16 units apart and scaled by the
  13 random numbers it draws, and an orthographic camera: fifteen pending entities in the first
  slots, no others, all component types registered, and no truck beyond the edge of its row.\<close>

theorem frogger_start:
  assumes "good_heap alloc"
  shows "\<exists>g. frogger_game_create rnd alloc True ts a ticks = Some g \<and> laid (frogger_layout rnd) 13 g \<and>
    cameras g ! 14 = frogger_camera \<and> game_ok g \<and> has_player g \<and> trucks_within 0 g"
proof -
  obtain g where g: "frogger_game_create rnd alloc True ts a ticks = Some g"
    "laid (frogger_layout rnd) 13 g" "cameras g ! 14 = frogger_camera"
    by (rule created [OF assms])
  moreover have "game_ok g" using g(2) by (simp add: laid_def)
  ultimately show ?thesis using created_player created_within [OF g(2), of 0] by blast
qed

theorem frogger_start_witness:
  "\<exists>g. frogger_game_create (\<lambda>_. 0) (\<lambda>n a. Some (replicate (unat n) 0)) True (\<lambda>_. None) 0 100 = Some g \<and>
     laid (frogger_layout (\<lambda>_. 0)) 13 g \<and>
     cameras g ! 14 = frogger_camera \<and> game_ok g \<and> has_player g \<and> trucks_within 0 g"
  by (rule frogger_start) (simp add: good_heap_def)


text \<open>A first frame to apply the properties to: the created game, 20 milliseconds later.\<close>

definition first_timers :: timers where
  "first_timers = Map.empty(0 \<mapsto> \<lparr>current_ticks = 20000000, delta_ticks = 20000000, tm_parent = None,
     bias_ticks = 20000100, tm_scale = 1, tm_paused = False\<rparr>)"

definition first_window :: wm_window_t where
  "first_window = \<lparr>quit = False, has_focus = True, mouse_mask = 0, key_mask = k_key_up,
     mouse_x = 0, mouse_y = 0\<rparr>"

lemma first_frame:
  obtains g where "frogger_game_create (\<lambda>_. 0) (\<lambda>n a. Some (replicate (unat n) 0)) True Map.empty 0 100 = Some g"
    and "game_ok g" and "has_player g" and "trucks_within (4 / 10) g"
    and "timer_object_update (game_timers g) (game_timer g) 20000100 = Some first_timers"
    and "timer_object_get_delta_ms clock0 first_timers (game_timer g) = Some 20"
    and "\<forall>kmask ms. length (fallers (frame_start first_timers g)) + length (collisions kmask ms (frame_start first_timers g))
      \<le> free_slots (frame_start first_timers g)"
proof -
  obtain g where g: "frogger_game_create (\<lambda>_. 0) (\<lambda>n a. Some (replicate (unat n) 0)) True Map.empty 0 100 = Some g"
    "laid (frogger_layout (\<lambda>_. 0)) 13 g" and t: "game_timers g = Map.empty(0 \<mapsto> \<lparr>current_ticks = 0, delta_ticks = 0,
      tm_parent = None, bias_ticks = 100, tm_scale = 1, tm_paused = False\<rparr>)" "game_timer g = 0"
    by (rule created [of "\<lambda>n a. Some (replicate (unat n) 0)" "\<lambda>_. 0" Map.empty 0 100]) (simp_all add: good_heap_def)
  have "timer_object_update (game_timers g) (game_timer g) 20000100 = Some first_timers"
    unfolding t by (subst tick_normal [OF fun_upd_same]) (simp_all add: first_timers_def)
  moreover have "timer_object_get_delta_ms clock0 first_timers (game_timer g) = Some 20"
    by (simp add: t timer_object_get_delta_ms_def first_timers_def timer_ticks_to_ms_def c_u32_def c_trunc_def clock0_def)
  moreover have "game_ok g" using g(2) by (simp add: laid_def)
  moreover have "trucks_within (4 / 10) g" by (rule created_within [OF g(2)]) simp
  ultimately show ?thesis
    using that [OF g(1) _ created_player [OF g(2)]] created_room [OF g(2)] by blast
qed




text \<open>C34. For entities of non-negative scale the collision test, written with four separating
  distances, decides whether the two boxes have a common point; x is ignored.\<close>

theorem frogger_collision_iff_overlap:
  assumes "0 \<le> vy (scale a)" and "0 \<le> vz (scale a)" and "0 \<le> vy (scale b)" and "0 \<le> vz (scale b)"
  shows "TestAABBCollision a b \<longleftrightarrow>
    (\<exists>y z. \<bar>y - vy (translation a)\<bar> \<le> vy (scale a) \<and> \<bar>z - vz (translation a)\<bar> \<le> vz (scale a) \<and>
           \<bar>y - vy (translation b)\<bar> \<le> vy (scale b) \<and> \<bar>z - vz (translation b)\<bar> \<le> vz (scale b))"
proof -
  have overlap: "(\<exists>x. \<bar>x - p\<bar> \<le> r \<and> \<bar>x - q\<bar> \<le> s) \<longleftrightarrow> q - s - (p + r) \<le> 0 \<and> p - r - (q + s) \<le> 0"
    if "0 \<le> r" "0 \<le> s" for p q r s :: real
  proof
    assume "q - s - (p + r) \<le> 0 \<and> p - r - (q + s) \<le> 0"
    then have "\<bar>max (p - r) (q - s) - p\<bar> \<le> r \<and> \<bar>max (p - r) (q - s) - q\<bar> \<le> s"
      using that by (auto simp: max_def abs_le_iff)
    then show "\<exists>x. \<bar>x - p\<bar> \<le> r \<and> \<bar>x - q\<bar> \<le> s" by blast
  qed (auto simp: abs_le_iff)
  have "TestAABBCollision a b \<longleftrightarrow>
      (\<exists>y. \<bar>y - vy (translation a)\<bar> \<le> vy (scale a) \<and> \<bar>y - vy (translation b)\<bar> \<le> vy (scale b)) \<and>
      (\<exists>z. \<bar>z - vz (translation a)\<bar> \<le> vz (scale a) \<and> \<bar>z - vz (translation b)\<bar> \<le> vz (scale b))"
    unfolding overlap [OF assms(1,3)] overlap [OF assms(2,4)] TestAABBCollision_def Let_def by auto
  then show ?thesis by blast
qed

theorem frogger_collision_iff_overlap_witness:
  "TestAABBCollision transform_identity (with_y 2 transform_identity) \<and>
   (\<exists>y z. \<bar>y\<bar> \<le> (1 :: real) \<and> \<bar>z\<bar> \<le> (1 :: real) \<and> \<bar>y - 2\<bar> \<le> 1 \<and> \<bar>z\<bar> \<le> 1)"
proof -
  have "TestAABBCollision transform_identity (with_y 2 transform_identity)"
    by (simp add: TestAABBCollision_def transform_identity_def with_y_def vec3f_one_def vec3f_zero_def)
  then show ?thesis
    using frogger_collision_iff_overlap [of transform_identity "with_y 2 transform_identity"]
    by (simp add: transform_identity_def with_y_def vec3f_one_def vec3f_zero_def)
qed

end
