(* ===== verification/Gpu.thy ===== *)
theory Gpu
  imports Milyra_Base
begin

text \<open>
  The creation and destruction of the renderer's GPU objects in \<^verbatim>\<open>gpu.c\<close>.

  The Vulkan driver and the heap are outside: a parameter \<open>D\<close> of type \<open>driver\<close> that answers each
  call, knowing all the calls before it.  An operation threads the log of the calls it made with
  their answers.  A call is recorded with the objects it uses and the numbers the code computes for
  it; the constants of the create infos are not recorded.  A handle is a number, 0 is NULL.
\<close>

section \<open>Calls\<close>

datatype vk_kind = HeapBlock | VkInstance | VkDevice | VkSurfaceKHR | VkSwapchainKHR | VkImage
  | VkImageView | VkDeviceMemory | VkRenderPass | VkFramebuffer | VkSemaphore | VkFence
  | VkDescriptorPool | VkCommandPool | VkCommandBuffer | VkDescriptorSet | VkDescriptorSetLayout
  | VkBuffer | VkPipelineLayout | VkPipeline | VkShaderModule

datatype vk_fn = vkEnumeratePhysicalDevices | vkGetPhysicalDeviceQueueFamilyProperties
  | vkGetPhysicalDeviceMemoryProperties | vkGetDeviceQueue
  | vkGetPhysicalDeviceSurfaceCapabilitiesKHR | vkGetSwapchainImagesKHR
  | vkGetImageMemoryRequirements | vkGetBufferMemoryRequirements
  | vkBindImageMemory | vkBindBufferMemory | vkMapMemory | vkUnmapMemory | vkUpdateDescriptorSets
  | vkQueueWaitIdle | vkBeginCommandBuffer | vkEndCommandBuffer | vkAcquireNextImageKHR
  | vkWaitForFences | vkResetFences | vkQueueSubmit | vkQueuePresentKHR
  | vkCmdBeginRenderPass | vkCmdEndRenderPass | vkCmdSetViewport | vkCmdSetScissor
  | vkCmdBindPipeline | vkCmdBindDescriptorSets | vkCmdBindVertexBuffers | vkCmdBindIndexBuffer
  | vkCmdDrawIndexed | vkCmdDraw

type_synonym vk_obj = "vk_kind \<times> nat"

text \<open>
  \<open>VkCreate\<close> with the kind \<open>HeapBlock\<close> is \<^verbatim>\<open>heap_alloc\<close>, \<open>VkDestroy\<close> of it \<^verbatim>\<open>heap_free\<close>; \<open>VkWrite\<close> is a
  \<^verbatim>\<open>memcpy\<close> into mapped memory.
\<close>

datatype vk_call =
    VkCreate vk_kind "vk_obj list" "nat list"
  | VkDestroy vk_kind "vk_obj list" nat
  | VkDo vk_fn "vk_obj list" "nat list"
  | VkWrite vk_obj "u8 list"

text \<open>An answer: the \<^verbatim>\<open>VkResult\<close>, and what is written into the output parameters.\<close>

record vk_answer =
  vk_result :: int
  vk_value :: nat
  vk_handles :: "nat list"
  vk_families :: "(u32 \<times> u32) list"
  vk_memory_types :: "u32 list"
  vk_extent :: "u32 \<times> u32"
  vk_min_images :: u32
  vk_req_size :: u64
  vk_req_bits :: u32

type_synonym vk_log = "(vk_call \<times> vk_answer) list"
type_synonym driver = "vk_log \<Rightarrow> vk_call \<Rightarrow> vk_answer"

definition issue :: "driver \<Rightarrow> vk_call \<Rightarrow> vk_log \<Rightarrow> vk_answer \<times> vk_log" where
  "issue D c l = (let a = D l c in (a, l @ [(c, a)]))"

definition vk_issued :: "driver \<Rightarrow> vk_call \<Rightarrow> vk_log \<Rightarrow> vk_log" where
  "vk_issued D c l = snd (issue D c l)"

section \<open>State\<close>

record gpu_cmd_buffer_t =
  cb_addr :: nat
  cb_buffer :: nat
  cb_pipeline_layout :: nat
  cb_index_count :: int
  cb_vertex_count :: int

record gpu_frame_t =
  fr_image :: nat
  fr_view :: nat
  frame_buffer :: nat
  fence :: nat
  cmd_buffer :: "gpu_cmd_buffer_t ptr"

text \<open>What the five arrays of mesh layouts hold for one layout.\<close>

record gpu_layout_t =
  ly_binding :: nat
  ly_attributes :: nat
  ly_stride :: nat
  ly_offsets :: "nat list"
  ly_vertex_size :: nat
  ly_index_size :: nat

text \<open>\<open>frames\<close>: the address of the array and its elements; NULL is \<open>None\<close>.\<close>

record gpu_t =
  gpu_addr :: nat
  vk_instance :: nat
  physical_device :: nat
  logical_device :: nat
  memory_properties :: "u32 list"
  gpu_queue :: nat
  surface :: nat
  swap_chain :: nat
  render_pass :: nat
  depth_stencil_image :: nat
  depth_stencil_memory :: nat
  depth_stencil_view :: nat
  cmd_pool :: nat
  descriptor_pool :: nat
  present_complete_sema :: nat
  render_complete_sema :: nat
  mesh_layouts :: "gpu_layout_t list"
  frame_width :: u32
  frame_height :: u32
  frames :: "(nat \<times> gpu_frame_t list) ptr"
  frame_count :: u32
  frame_index :: u32

text \<open>The local variables of \<^verbatim>\<open>gpu_create\<close> that live through several of its sections.\<close>

record gpu_create_t = gpu_t +
  queue_family_index :: u32
  surface_min_images :: u32

definition zero_frame :: gpu_frame_t where
  "zero_frame = \<lparr>fr_image = 0, fr_view = 0, frame_buffer = 0, fence = 0, cmd_buffer = None\<rparr>"

definition zero_layout :: gpu_layout_t where
  "zero_layout = \<lparr>ly_binding = 0, ly_attributes = 0, ly_stride = 0, ly_offsets = [],
     ly_vertex_size = 0, ly_index_size = 0\<rparr>"

text \<open>The cleared struct at the address \<open>p\<close>.\<close>

definition zero_gpu :: "nat \<Rightarrow> gpu_create_t" where
  "zero_gpu p = \<lparr>gpu_addr = p, vk_instance = 0, physical_device = 0, logical_device = 0,
     memory_properties = [], gpu_queue = 0, surface = 0, swap_chain = 0, render_pass = 0,
     depth_stencil_image = 0, depth_stencil_memory = 0, depth_stencil_view = 0, cmd_pool = 0,
     descriptor_pool = 0, present_complete_sema = 0, render_complete_sema = 0,
     mesh_layouts = [zero_layout, zero_layout], frame_width = 0, frame_height = 0, frames = None,
     frame_count = 0, frame_index = 0, queue_family_index = 0, surface_min_images = 0\<rparr>"

section \<open>Destruction\<close>

abbreviation dev :: "'a gpu_t_scheme \<Rightarrow> vk_obj" where
  "dev g \<equiv> (VkDevice, logical_device g)"

text \<open>\<^verbatim>\<open>if (handle) vkDestroy...(handle)\<close>.\<close>

definition destroy_if :: "driver \<Rightarrow> vk_kind \<Rightarrow> vk_obj list \<Rightarrow> nat \<Rightarrow> vk_log \<Rightarrow> vk_log" where
  "destroy_if D k us h l = (if h \<noteq> 0 then vk_issued D (VkDestroy k us h) l else l)"

definition destroy_mesh_layouts :: "driver \<Rightarrow> 'a gpu_t_scheme \<Rightarrow> vk_log \<Rightarrow> vk_log" where
  "destroy_mesh_layouts D g l =
     fold (\<lambda>ly l. if ly_binding ly \<noteq> 0
                 then vk_issued D (VkDestroy HeapBlock [] (ly_attributes ly))
                   (vk_issued D (VkDestroy HeapBlock [] (ly_binding ly)) l)
                 else l) (mesh_layouts g) l"

definition destroy_frame :: "driver \<Rightarrow> 'a gpu_t_scheme \<Rightarrow> gpu_frame_t \<Rightarrow> vk_log \<Rightarrow> vk_log" where
  "destroy_frame D g f l =
     (let l = destroy_if D VkFence [dev g] (fence f) l;
          l = (case cmd_buffer f of None \<Rightarrow> l
               | Some cb \<Rightarrow> vk_issued D (VkDestroy HeapBlock [] (cb_addr cb))
                   (vk_issued D (VkDestroy VkCommandBuffer [dev g, (VkCommandPool, cmd_pool g)] (cb_buffer cb)) l));
          l = destroy_if D VkFramebuffer [dev g] (frame_buffer f) l
      in destroy_if D VkImageView [dev g] (fr_view f) l)"

text \<open>The loop reads \<^verbatim>\<open>frame_count\<close> elements of the array.\<close>

definition destroy_frames :: "driver \<Rightarrow> 'a gpu_t_scheme \<Rightarrow> vk_log \<Rightarrow> vk_log option" where
  "destroy_frames D g l =
     (case frames g of None \<Rightarrow> Some l
      | Some (p, fs) \<Rightarrow>
          if unat (frame_count g) \<le> length fs
          then Some (vk_issued D (VkDestroy HeapBlock [] p)
                 (fold (destroy_frame D g) (take (unat (frame_count g)) fs) l))
          else None)"

definition gpu_destroy :: "driver \<Rightarrow> 'a gpu_t_scheme \<Rightarrow> vk_log \<Rightarrow> vk_log option" where
  "gpu_destroy D g l = do {
     let l = (if gpu_queue g \<noteq> 0 then vk_issued D (VkDo vkQueueWaitIdle [] [gpu_queue g]) l else l);
     let l = destroy_mesh_layouts D g l;
     let l = destroy_if D VkSemaphore [dev g] (render_complete_sema g) l;
     let l = destroy_if D VkSemaphore [dev g] (present_complete_sema g) l;
     let l = destroy_if D VkImageView [dev g] (depth_stencil_view g) l;
     let l = destroy_if D VkImage [dev g] (depth_stencil_image g) l;
     let l = destroy_if D VkDeviceMemory [dev g] (depth_stencil_memory g) l;
     l \<leftarrow> destroy_frames D g l;
     let l = destroy_if D VkDescriptorPool [dev g] (descriptor_pool g) l;
     let l = destroy_if D VkCommandPool [dev g] (cmd_pool g) l;
     let l = destroy_if D VkRenderPass [dev g] (render_pass g) l;
     let l = destroy_if D VkSwapchainKHR [dev g] (swap_chain g) l;
     let l = destroy_if D VkSurfaceKHR [(VkInstance, vk_instance g)] (surface g) l;
     let l = destroy_if D VkDevice [] (logical_device g) l;
     let l = destroy_if D VkInstance [] (vk_instance g) l;
     Some (vk_issued D (VkDestroy HeapBlock [] (gpu_addr g)) l)
   }"

section \<open>Creation\<close>

text \<open>
  A section of \<^verbatim>\<open>gpu_create\<close>: it goes on (\<open>True\<close>) or jumps to \<^verbatim>\<open>fail\<close> (\<open>False\<close>) with what it has
  stored so far.
\<close>

type_synonym 'g vk_step = "'g \<Rightarrow> vk_log \<Rightarrow> (bool \<times> 'g \<times> vk_log) option"

definition and_then :: "'g vk_step \<Rightarrow> 'g vk_step \<Rightarrow> 'g vk_step" where
  "and_then s t g l = do { (ok, g, l) \<leftarrow> s g l; if ok then t g l else Some (False, g, l) }"

fun for_each :: "(nat \<Rightarrow> 'g vk_step) \<Rightarrow> nat list \<Rightarrow> 'g vk_step" where
  "for_each body [] g l = Some (True, g, l)"
| "for_each body (i # is) g l = and_then (body i) (for_each body is) g l"

text \<open>A call that creates one object, stores it with \<open>put\<close> and fails with the call.\<close>

definition create_into ::
  "driver \<Rightarrow> vk_kind \<Rightarrow> ('g \<Rightarrow> vk_obj list) \<Rightarrow> ('g \<Rightarrow> nat list) \<Rightarrow> (nat \<Rightarrow> 'g \<Rightarrow> 'g option) \<Rightarrow> 'g vk_step" where
  "create_into D k us ns put g l = do {
     let (a, l) = issue D (VkCreate k (us g) (ns g)) l;
     g \<leftarrow> put (vk_value a) g;
     Some (vk_result a = 0, g, l)
   }"

text \<open>A call that only fails or not.\<close>

definition check :: "driver \<Rightarrow> ('g \<Rightarrow> vk_call) \<Rightarrow> 'g vk_step" where
  "check D c g l = (let (a, l) = issue D (c g) l in Some (vk_result a = 0, g, l))"

text \<open>\<^verbatim>\<open>get_memory_type_index\<close>: the first type with the asked properties; 0 if there is none.\<close>

definition get_memory_type_index :: "'a gpu_t_scheme \<Rightarrow> u32 \<Rightarrow> u32 \<Rightarrow> nat" where
  "get_memory_type_index g bits props =
     (case scan (\<lambda>i. bits AND push_bit i 1 \<noteq> 0 \<and> (memory_properties g ! i) AND props = props) 0
             (length (memory_properties g)) of
        Some i \<Rightarrow> i | None \<Rightarrow> 0)"

definition create_instance :: "driver \<Rightarrow> bool \<Rightarrow> gpu_create_t vk_step" where
  "create_instance D use_validation =
     create_into D VkInstance (\<lambda>g. []) (\<lambda>g. [if use_validation then 1 else 0])
       (\<lambda>h g. Some (g\<lparr>vk_instance := h\<rparr>))"

definition find_physical_device :: "driver \<Rightarrow> gpu_create_t vk_step" where
  "find_physical_device D g l = do {
     let (a, l) = issue D (VkDo vkEnumeratePhysicalDevices [(VkInstance, vk_instance g)] []) l;
     if vk_result a \<noteq> 0 then Some (False, g, l)
     else if vk_value a = 0 then Some (False, g, l)
     else do {
       let (a, l) = issue D (VkDo vkEnumeratePhysicalDevices [(VkInstance, vk_instance g)] [vk_value a]) l;
       if vk_result a \<noteq> 0 then Some (False, g, l)
       else do {
         p \<leftarrow> arr_get (vk_handles a) 0;
         Some (True, g\<lparr>physical_device := p\<rparr>, l)
       }
     }
   }"

text \<open>\<^verbatim>\<open>UINT32_MAX\<close> stands for no queue family.\<close>

definition find_queue_family :: "(u32 \<times> u32) list \<Rightarrow> u32 \<times> u32" where
  "find_queue_family fs =
     (case scan (\<lambda>i. 0 < fst (fs ! i) \<and> snd (fs ! i) AND 1 \<noteq> 0) 0 (length fs) of
        Some i \<Rightarrow> (word_of_nat i, fst (fs ! i)) | None \<Rightarrow> (- 1, - 1))"

definition create_device :: "driver \<Rightarrow> gpu_create_t vk_step" where
  "create_device D g l = do {
     let (a, l) = issue D (VkDo vkGetPhysicalDeviceQueueFamilyProperties [] [physical_device g]) l;
     let (a, l) = issue D (VkDo vkGetPhysicalDeviceQueueFamilyProperties [] [physical_device g, vk_value a]) l;
     let (family, count) = find_queue_family (vk_families a);
     let g = g\<lparr>queue_family_index := family\<rparr>;
     if count = - 1 then Some (False, g, l)
     else do {
       let (a, l) = issue D (VkCreate VkDevice [] [physical_device g, unat family, unat count]) l;
       let g = g\<lparr>logical_device := vk_value a\<rparr>;
       if vk_result a \<noteq> 0 then Some (False, g, l)
       else do {
         let (a, l) = issue D (VkDo vkGetPhysicalDeviceMemoryProperties [] [physical_device g]) l;
         let g = g\<lparr>memory_properties := vk_memory_types a\<rparr>;
         let (a, l) = issue D (VkDo vkGetDeviceQueue [dev g] [unat family]) l;
         Some (True, g\<lparr>gpu_queue := vk_value a\<rparr>, l)
       }
     }
   }"

definition create_surface :: "driver \<Rightarrow> nat \<Rightarrow> gpu_create_t vk_step" where
  "create_surface D hwnd =
     and_then
       (create_into D VkSurfaceKHR (\<lambda>g. [(VkInstance, vk_instance g)]) (\<lambda>g. [hwnd])
         (\<lambda>h g. Some (g\<lparr>surface := h\<rparr>)))
       (\<lambda>g l. do {
         let (a, l) = issue D (VkDo vkGetPhysicalDeviceSurfaceCapabilitiesKHR [(VkSurfaceKHR, surface g)]
           [physical_device g]) l;
         if vk_result a \<noteq> 0 then Some (False, g, l)
         else Some (True, g\<lparr>frame_width := fst (vk_extent a), frame_height := snd (vk_extent a),
           surface_min_images := vk_min_images a\<rparr>, l)
       })"

text \<open>Element \<open>i\<close> of the array of frames.\<close>

definition get_frame :: "'a gpu_t_scheme \<Rightarrow> nat \<Rightarrow> gpu_frame_t option" where
  "get_frame g i = do { (p, fs) \<leftarrow> frames g; arr_get fs i }"

definition put_frame :: "nat \<Rightarrow> gpu_frame_t \<Rightarrow> 'a gpu_t_scheme \<Rightarrow> 'a gpu_t_scheme option" where
  "put_frame i f g = do { (p, fs) \<leftarrow> frames g; fs \<leftarrow> arr_set fs i f; Some (g\<lparr>frames := Some (p, fs)\<rparr>) }"

text \<open>A creation that is stored in frame \<open>i\<close>.\<close>

definition create_in_frame ::
  "driver \<Rightarrow> nat \<Rightarrow> vk_kind \<Rightarrow> (gpu_frame_t \<Rightarrow> gpu_create_t \<Rightarrow> vk_obj list) \<Rightarrow>
   (gpu_frame_t \<Rightarrow> gpu_create_t \<Rightarrow> nat list) \<Rightarrow> (nat \<Rightarrow> gpu_frame_t \<Rightarrow> gpu_frame_t) \<Rightarrow> gpu_create_t vk_step" where
  "create_in_frame D i k us ns upd g l = do {
     f \<leftarrow> get_frame g i;
     create_into D k (us f) (ns f) (\<lambda>h g. put_frame i (upd h f) g) g l
   }"

definition frame_loop :: "(nat \<Rightarrow> gpu_create_t vk_step) \<Rightarrow> gpu_create_t vk_step" where
  "frame_loop body g l = for_each body [0..<unat (frame_count g)] g l"

definition set_image :: "nat list \<Rightarrow> nat \<Rightarrow> gpu_create_t vk_step" where
  "set_image images i g l = do {
     image \<leftarrow> arr_get images i;
     f \<leftarrow> get_frame g i;
     g \<leftarrow> put_frame i (f\<lparr>fr_image := image\<rparr>) g;
     Some (True, g, l)
   }"

text \<open>The array of frames is allocated and cleared for the count of the first query; the second may
  write a smaller one.\<close>

definition create_swapchain_frames :: "driver \<Rightarrow> gpu_create_t vk_step" where
  "create_swapchain_frames D g l = do {
     let (a, l) = issue D (VkDo vkGetSwapchainImagesKHR [dev g, (VkSwapchainKHR, swap_chain g)] []) l;
     let g = g\<lparr>frame_count := word_of_nat (vk_value a)\<rparr>;
     if vk_result a \<noteq> 0 then Some (False, g, l)
     else do {
       let n = unat (frame_count g);
       let (a, l) = issue D (VkCreate HeapBlock [] [40 * n]) l;
       if vk_value a = 0 then None
       else do {
         let g = g\<lparr>frames := Some (vk_value a, replicate n zero_frame)\<rparr>;
         let (a, l) = issue D (VkDo vkGetSwapchainImagesKHR [dev g, (VkSwapchainKHR, swap_chain g)] [n]) l;
         let g = g\<lparr>frame_count := word_of_nat (vk_value a)\<rparr>;
         if vk_result a \<noteq> 0 then Some (False, g, l)
         else frame_loop (\<lambda>i. and_then (set_image (vk_handles a) i)
             (create_in_frame D i VkImageView (\<lambda>f g. [dev g]) (\<lambda>f g. [fr_image f])
               (\<lambda>h f. f\<lparr>fr_view := h\<rparr>))) g l
       }
     }
   }"

definition create_swapchain :: "driver \<Rightarrow> gpu_create_t vk_step" where
  "create_swapchain D =
     and_then
       (create_into D VkSwapchainKHR (\<lambda>g. [dev g, (VkSurfaceKHR, surface g)])
         (\<lambda>g. [unat (max (surface_min_images g + 1) 3), unat (frame_width g), unat (frame_height g)])
         (\<lambda>h g. Some (g\<lparr>swap_chain := h\<rparr>)))
       (create_swapchain_frames D)"

definition create_depth_buffer :: "driver \<Rightarrow> gpu_create_t vk_step" where
  "create_depth_buffer D =
     and_then
       (create_into D VkImage (\<lambda>g. [dev g]) (\<lambda>g. [unat (frame_width g), unat (frame_height g)])
         (\<lambda>h g. Some (g\<lparr>depth_stencil_image := h\<rparr>)))
     (and_then
       (\<lambda>g l. do {
         let (a, l) = issue D (VkDo vkGetImageMemoryRequirements [dev g, (VkImage, depth_stencil_image g)] []) l;
         create_into D VkDeviceMemory (\<lambda>g. [dev g])
           (\<lambda>g. [unat (vk_req_size a), get_memory_type_index g (vk_req_bits a) 1])
           (\<lambda>h g. Some (g\<lparr>depth_stencil_memory := h\<rparr>)) g l
       })
     (and_then
       (check D (\<lambda>g. VkDo vkBindImageMemory
         [dev g, (VkImage, depth_stencil_image g), (VkDeviceMemory, depth_stencil_memory g)] [0]))
       (create_into D VkImageView (\<lambda>g. [dev g, (VkImage, depth_stencil_image g)]) (\<lambda>g. [])
         (\<lambda>h g. Some (g\<lparr>depth_stencil_view := h\<rparr>)))))"

definition create_render_pass :: "driver \<Rightarrow> gpu_create_t vk_step" where
  "create_render_pass D =
     create_into D VkRenderPass (\<lambda>g. [dev g]) (\<lambda>g. []) (\<lambda>h g. Some (g\<lparr>render_pass := h\<rparr>))"

definition create_frame_buffers :: "driver \<Rightarrow> gpu_create_t vk_step" where
  "create_frame_buffers D =
     frame_loop (\<lambda>i. create_in_frame D i VkFramebuffer
       (\<lambda>f g. [dev g, (VkRenderPass, render_pass g), (VkImageView, fr_view f),
              (VkImageView, depth_stencil_view g)])
       (\<lambda>f g. [unat (frame_width g), unat (frame_height g)])
       (\<lambda>h f. f\<lparr>frame_buffer := h\<rparr>))"

definition create_sync :: "driver \<Rightarrow> gpu_create_t vk_step" where
  "create_sync D =
     and_then
       (create_into D VkSemaphore (\<lambda>g. [dev g]) (\<lambda>g. []) (\<lambda>h g. Some (g\<lparr>present_complete_sema := h\<rparr>)))
       (create_into D VkSemaphore (\<lambda>g. [dev g]) (\<lambda>g. []) (\<lambda>h g. Some (g\<lparr>render_complete_sema := h\<rparr>)))"

definition create_pools :: "driver \<Rightarrow> gpu_create_t vk_step" where
  "create_pools D =
     and_then
       (create_into D VkDescriptorPool (\<lambda>g. [dev g]) (\<lambda>g. [512, 512])
         (\<lambda>h g. Some (g\<lparr>descriptor_pool := h\<rparr>)))
       (create_into D VkCommandPool (\<lambda>g. [dev g]) (\<lambda>g. [unat (queue_family_index g)])
         (\<lambda>h g. Some (g\<lparr>cmd_pool := h\<rparr>)))"

text \<open>The command buffer struct is reachable before its Vulkan object exists.\<close>

definition alloc_cmd_buffer :: "driver \<Rightarrow> nat \<Rightarrow> gpu_create_t vk_step" where
  "alloc_cmd_buffer D i g l = do {
     f \<leftarrow> get_frame g i;
     let (a, l) = issue D (VkCreate HeapBlock [] [24]) l;
     if vk_value a = 0 then None
     else do {
       g \<leftarrow> put_frame i (f\<lparr>cmd_buffer := Some \<lparr>cb_addr = vk_value a, cb_buffer = 0, cb_pipeline_layout = 0,
         cb_index_count = 0, cb_vertex_count = 0\<rparr>\<rparr>) g;
       Some (True, g, l)
     }
   }"

definition create_cmd_buffers :: "driver \<Rightarrow> gpu_create_t vk_step" where
  "create_cmd_buffers D =
     frame_loop (\<lambda>i. and_then (alloc_cmd_buffer D i)
       (and_then
         (create_in_frame D i VkCommandBuffer (\<lambda>f g. [dev g, (VkCommandPool, cmd_pool g)]) (\<lambda>f g. [])
           (\<lambda>h f. f\<lparr>cmd_buffer := map_option (\<lambda>cb. cb\<lparr>cb_buffer := h\<rparr>) (cmd_buffer f)\<rparr>))
         (create_in_frame D i VkFence (\<lambda>f g. [dev g]) (\<lambda>f g. [1]) (\<lambda>h f. f\<lparr>fence := h\<rparr>))))"

text \<open>One block of \<^verbatim>\<open>create_mesh_layouts\<close>: layout \<open>i\<close> with vertices of \<open>stride\<close> bytes and attributes of
  three floats at the given offsets.\<close>

definition create_mesh_layout ::
  "driver \<Rightarrow> nat \<Rightarrow> nat \<Rightarrow> nat list \<Rightarrow> 'a gpu_t_scheme \<Rightarrow> vk_log \<Rightarrow> ('a gpu_t_scheme \<times> vk_log) option" where
  "create_mesh_layout D i stride offsets g l = do {
     let (b, l) = issue D (VkCreate HeapBlock [] [12]) l;
     if vk_value b = 0 then None
     else do {
       let (a, l) = issue D (VkCreate HeapBlock [] [16 * length offsets]) l;
       if vk_value a = 0 then None
       else do {
         lys \<leftarrow> arr_set (mesh_layouts g) i
           \<lparr>ly_binding = vk_value b, ly_attributes = vk_value a, ly_stride = stride,
            ly_offsets = offsets, ly_vertex_size = stride, ly_index_size = 2\<rparr>;
         Some (g\<lparr>mesh_layouts := lys\<rparr>, l)
       }
     }
   }"

definition create_mesh_layouts ::
  "driver \<Rightarrow> 'a gpu_t_scheme \<Rightarrow> vk_log \<Rightarrow> ('a gpu_t_scheme \<times> vk_log) option" where
  "create_mesh_layouts D g l = do {
     (g, l) \<leftarrow> create_mesh_layout D 0 12 [0] g l;
     create_mesh_layout D 1 24 [0, 12] g l
   }"

text \<open>The sections up to the mesh layouts.\<close>

definition create_sections :: "driver \<Rightarrow> bool \<Rightarrow> nat \<Rightarrow> gpu_create_t vk_step" where
  "create_sections D use_validation hwnd =
     and_then (create_instance D use_validation)
    (and_then (find_physical_device D)
    (and_then (create_device D)
    (and_then (create_surface D hwnd)
    (and_then (create_swapchain D)
    (and_then (create_depth_buffer D)
    (and_then (create_render_pass D)
    (and_then (create_frame_buffers D)
    (and_then (create_sync D)
    (and_then (create_pools D)
      (create_cmd_buffers D))))))))))"

definition gpu_create :: "driver \<Rightarrow> bool \<Rightarrow> nat \<Rightarrow> vk_log \<Rightarrow> (gpu_t ptr \<times> vk_log) option" where
  "gpu_create D use_validation hwnd l = do {
     let (a, l) = issue D (VkCreate HeapBlock [] [848]) l;
     if vk_value a = 0 then None
     else do {
       (ok, g, l) \<leftarrow> create_sections D use_validation hwnd (zero_gpu (vk_value a)) l;
       if ok then do {
         (g, l) \<leftarrow> create_mesh_layouts D g l;
         Some (Some (gpu_t.truncate g), l)
       }
       else do {
         l \<leftarrow> gpu_destroy D g l;
         Some (None, l)
       }
     }
   }"

definition gpu_get_frame_count :: "'a gpu_t_scheme \<Rightarrow> c_int" where
  "gpu_get_frame_count g = frame_count g"

definition gpu_wait_until_idle :: "driver \<Rightarrow> 'a gpu_t_scheme \<Rightarrow> vk_log \<Rightarrow> vk_log" where
  "gpu_wait_until_idle D g = vk_issued D (VkDo vkQueueWaitIdle [] [gpu_queue g])"

end
