(* ===== verification/Gpu_Resources.thy ===== *)
theory Gpu_Resources
  imports Gpu
begin

text \<open>
  The resources of \<^verbatim>\<open>gpu.c\<close>: descriptors, meshes, pipelines, shaders and uniform buffers.  Each has
  a creation that destroys what it has when a call fails, and a destruction.

  The data of a resource is a list of bytes, its size the length of the list.
\<close>

section \<open>Structs\<close>

datatype gpu_mesh_layout_t = k_gpu_mesh_layout_tri_p444_i2 | k_gpu_mesh_layout_tri_p444_c444_i2

fun layout_number :: "gpu_mesh_layout_t \<Rightarrow> nat" where
  "layout_number k_gpu_mesh_layout_tri_p444_i2 = 0"
| "layout_number k_gpu_mesh_layout_tri_p444_c444_i2 = 1"

record gpu_mesh_info_t =
  mi_layout :: gpu_mesh_layout_t
  mi_vertex_data :: "u8 list"
  mi_index_data :: "u8 list"

record gpu_shader_info_t =
  si_vertex_size :: nat
  si_fragment_size :: nat
  si_uniform_buffer_count :: nat

record gpu_mesh_t =
  mesh_addr :: nat
  index_buffer :: nat
  index_memory :: nat
  index_count :: int
  vertex_buffer :: nat
  vertex_memory :: nat
  vertex_count :: int

record gpu_pipeline_t =
  pipeline_addr :: nat
  pipeline_layout :: nat
  pipe :: nat

record gpu_shader_t =
  shader_addr :: nat
  vertex_module :: nat
  fragment_module :: nat
  descriptor_set_layout :: nat

record gpu_descriptor_t =
  descriptor_addr :: nat
  descriptor_set :: nat

text \<open>The descriptor of a uniform buffer is its buffer and the range.\<close>

record gpu_uniform_buffer_t =
  ub_addr :: nat
  ub_buffer :: nat
  ub_memory :: nat
  ub_descriptor :: "nat \<times> nat"

text \<open>A creation: allocate and clear the struct, run the steps, destroy it when one fails.\<close>

definition create_resource ::
  "driver \<Rightarrow> nat \<Rightarrow> (nat \<Rightarrow> 'r) \<Rightarrow> 'r vk_step \<Rightarrow> ('r \<Rightarrow> vk_log \<Rightarrow> vk_log) \<Rightarrow> vk_log \<Rightarrow> ('r ptr \<times> vk_log) option" where
  "create_resource D bytes zero steps destroy l = do {
     let (a, l) = issue D (VkCreate HeapBlock [] [bytes]) l;
     if vk_value a = 0 then None
     else do {
       (ok, r, l) \<leftarrow> steps (zero (vk_value a)) l;
       Some (if ok then (Some r, l) else (None, destroy r l))
     }
   }"

section \<open>Descriptors\<close>

definition gpu_descriptor_destroy :: "driver \<Rightarrow> 'a gpu_t_scheme \<Rightarrow> gpu_descriptor_t \<Rightarrow> vk_log \<Rightarrow> vk_log" where
  "gpu_descriptor_destroy D g d l =
     (let l = destroy_if D VkDescriptorSet [dev g, (VkDescriptorPool, descriptor_pool g)] (descriptor_set d) l
      in vk_issued D (VkDestroy HeapBlock [] (descriptor_addr d)) l)"

text \<open>The write sets point to the descriptors of the uniform buffers, one per binding.\<close>

definition gpu_descriptor_create ::
  "driver \<Rightarrow> 'a gpu_t_scheme \<Rightarrow> gpu_shader_t \<Rightarrow> gpu_uniform_buffer_t list \<Rightarrow> vk_log \<Rightarrow>
   (gpu_descriptor_t ptr \<times> vk_log) option" where
  "gpu_descriptor_create D g shader ubs =
     create_resource D 8 (\<lambda>p. \<lparr>descriptor_addr = p, descriptor_set = 0\<rparr>)
       (and_then
         (create_into D VkDescriptorSet
           (\<lambda>d. [dev g, (VkDescriptorPool, descriptor_pool g), (VkDescriptorSetLayout, descriptor_set_layout shader)])
           (\<lambda>d. []) (\<lambda>h d. Some (d\<lparr>descriptor_set := h\<rparr>)))
         (\<lambda>d l. Some (True, d, vk_issued D (VkDo vkUpdateDescriptorSets
           ([dev g, (VkDescriptorSet, descriptor_set d)] @ map (\<lambda>u. (VkBuffer, fst (ub_descriptor u))) ubs)
           (map (\<lambda>u. snd (ub_descriptor u)) ubs)) l)))
       (gpu_descriptor_destroy D g)"

section \<open>Meshes\<close>

definition gpu_mesh_destroy :: "driver \<Rightarrow> 'a gpu_t_scheme \<Rightarrow> gpu_mesh_t \<Rightarrow> vk_log \<Rightarrow> vk_log" where
  "gpu_mesh_destroy D g mesh l =
     (let l = destroy_if D VkBuffer [dev g] (index_buffer mesh) l;
          l = destroy_if D VkDeviceMemory [dev g] (index_memory mesh) l;
          l = destroy_if D VkBuffer [dev g] (vertex_buffer mesh) l;
          l = destroy_if D VkDeviceMemory [dev g] (vertex_memory mesh) l
      in vk_issued D (VkDestroy HeapBlock [] (mesh_addr mesh)) l)"

text \<open>
  Memory for the buffer: the size the driver requires, of a type the host can see and that is
  coherent (\<open>6\<close>).
\<close>

definition alloc_buffer_memory ::
  "driver \<Rightarrow> 'a gpu_t_scheme \<Rightarrow> ('r \<Rightarrow> nat) \<Rightarrow> (vk_answer \<Rightarrow> 'r vk_step) \<Rightarrow> (nat \<Rightarrow> 'r \<Rightarrow> 'r) \<Rightarrow> 'r vk_step" where
  "alloc_buffer_memory D g buffer next_step put r l = do {
     let (reqs, l) = issue D (VkDo vkGetBufferMemoryRequirements [dev g, (VkBuffer, buffer r)] []) l;
     and_then
       (create_into D VkDeviceMemory (\<lambda>r. [dev g])
         (\<lambda>r. [unat (vk_req_size reqs), get_memory_type_index g (vk_req_bits reqs) 6])
         (\<lambda>h r. Some (put h r)))
       (next_step reqs) r l
   }"

text \<open>\<^verbatim>\<open>vkMapMemory\<close>, \<^verbatim>\<open>memcpy\<close> into the mapped bytes (undefined beyond them), \<^verbatim>\<open>vkUnmapMemory\<close>.\<close>

definition upload :: "driver \<Rightarrow> 'a gpu_t_scheme \<Rightarrow> ('r \<Rightarrow> nat) \<Rightarrow> u8 list \<Rightarrow> nat \<Rightarrow> 'r vk_step" where
  "upload D g memory bytes mapped r l = do {
     let (a, l) = issue D (VkDo vkMapMemory [dev g, (VkDeviceMemory, memory r)] [0, mapped]) l;
     if vk_result a \<noteq> 0 then Some (False, r, l)
     else if mapped < length bytes then None
     else do {
       let l = vk_issued D (VkWrite (VkDeviceMemory, memory r) bytes) l;
       Some (True, r, vk_issued D (VkDo vkUnmapMemory [dev g, (VkDeviceMemory, memory r)] []) l)
     }
   }"

text \<open>One of the two sections of \<^verbatim>\<open>gpu_mesh_create\<close>; \<open>usage\<close> is the usage of the buffer.\<close>

definition create_mesh_buffer ::
  "driver \<Rightarrow> 'a gpu_t_scheme \<Rightarrow> nat \<Rightarrow> u8 list \<Rightarrow> (gpu_mesh_t \<Rightarrow> nat) \<Rightarrow> (nat \<Rightarrow> gpu_mesh_t \<Rightarrow> gpu_mesh_t) \<Rightarrow>
   (gpu_mesh_t \<Rightarrow> nat) \<Rightarrow> (nat \<Rightarrow> gpu_mesh_t \<Rightarrow> gpu_mesh_t) \<Rightarrow> gpu_mesh_t vk_step" where
  "create_mesh_buffer D g usage bytes buffer put_buffer memory put_memory =
     and_then
       (create_into D VkBuffer (\<lambda>m. [dev g]) (\<lambda>m. [length bytes, usage]) (\<lambda>h m. Some (put_buffer h m)))
       (alloc_buffer_memory D g buffer
         (\<lambda>reqs. and_then (upload D g memory bytes (unat (vk_req_size reqs)))
           (check D (\<lambda>m. VkDo vkBindBufferMemory
             [dev g, (VkBuffer, buffer m), (VkDeviceMemory, memory m)] [0])))
         put_memory)"

text \<open>The size is converted to \<^verbatim>\<open>int\<close>; the division is undefined without a layout.\<close>

definition element_count :: "u8 list \<Rightarrow> nat \<Rightarrow> int option" where
  "element_count bytes sz =
     (if sz = 0 then None
      else let n = sint (word_of_nat (length bytes) :: c_int) in Some (sgn n * (\<bar>n\<bar> div int sz)))"

definition gpu_mesh_create ::
  "driver \<Rightarrow> 'a gpu_t_scheme \<Rightarrow> gpu_mesh_info_t \<Rightarrow> vk_log \<Rightarrow> (gpu_mesh_t ptr \<times> vk_log) option" where
  "gpu_mesh_create D g info =
     create_resource D 48
       (\<lambda>p. \<lparr>mesh_addr = p, index_buffer = 0, index_memory = 0, index_count = 0, vertex_buffer = 0,
             vertex_memory = 0, vertex_count = 0\<rparr>)
       (and_then
         (\<lambda>m l. do {
           ly \<leftarrow> arr_get (mesh_layouts g) (layout_number (mi_layout info));
           n \<leftarrow> element_count (mi_index_data info) (ly_index_size ly);
           k \<leftarrow> element_count (mi_vertex_data info) (ly_vertex_size ly);
           Some (True, m\<lparr>index_count := n, vertex_count := k\<rparr>, l)
         })
       (and_then
         (create_mesh_buffer D g 128 (mi_vertex_data info) vertex_buffer (\<lambda>h m. m\<lparr>vertex_buffer := h\<rparr>)
           vertex_memory (\<lambda>h m. m\<lparr>vertex_memory := h\<rparr>))
         (create_mesh_buffer D g 64 (mi_index_data info) index_buffer (\<lambda>h m. m\<lparr>index_buffer := h\<rparr>)
           index_memory (\<lambda>h m. m\<lparr>index_memory := h\<rparr>))))
       (gpu_mesh_destroy D g)"

section \<open>Pipelines\<close>

definition gpu_pipeline_destroy :: "driver \<Rightarrow> 'a gpu_t_scheme \<Rightarrow> gpu_pipeline_t \<Rightarrow> vk_log \<Rightarrow> vk_log" where
  "gpu_pipeline_destroy D g p l =
     (let l = destroy_if D VkPipelineLayout [dev g] (pipeline_layout p) l;
          l = destroy_if D VkPipeline [dev g] (pipe p) l
      in vk_issued D (VkDestroy HeapBlock [] (pipeline_addr p)) l)"

definition gpu_pipeline_create ::
  "driver \<Rightarrow> 'a gpu_t_scheme \<Rightarrow> gpu_shader_t \<Rightarrow> gpu_mesh_layout_t \<Rightarrow> vk_log \<Rightarrow> (gpu_pipeline_t ptr \<times> vk_log) option" where
  "gpu_pipeline_create D g shader mesh_layout =
     create_resource D 16 (\<lambda>p. \<lparr>pipeline_addr = p, pipeline_layout = 0, pipe = 0\<rparr>)
       (and_then
         (create_into D VkPipelineLayout
           (\<lambda>p. [dev g, (VkDescriptorSetLayout, descriptor_set_layout shader)]) (\<lambda>p. [])
           (\<lambda>h p. Some (p\<lparr>pipeline_layout := h\<rparr>)))
         (create_into D VkPipeline
           (\<lambda>p. [dev g, (VkPipelineLayout, pipeline_layout p), (VkRenderPass, render_pass g),
                (VkShaderModule, vertex_module shader), (VkShaderModule, fragment_module shader)])
           (\<lambda>p. [layout_number mesh_layout])
           (\<lambda>h p. Some (p\<lparr>pipe := h\<rparr>))))
       (gpu_pipeline_destroy D g)"

section \<open>Shaders\<close>

definition gpu_shader_destroy :: "driver \<Rightarrow> 'a gpu_t_scheme \<Rightarrow> gpu_shader_t \<Rightarrow> vk_log \<Rightarrow> vk_log" where
  "gpu_shader_destroy D g s l =
     (let l = destroy_if D VkShaderModule [dev g] (vertex_module s) l;
          l = destroy_if D VkShaderModule [dev g] (fragment_module s) l;
          l = destroy_if D VkDescriptorSetLayout [dev g] (descriptor_set_layout s) l
      in vk_issued D (VkDestroy HeapBlock [] (shader_addr s)) l)"

definition gpu_shader_create ::
  "driver \<Rightarrow> 'a gpu_t_scheme \<Rightarrow> gpu_shader_info_t \<Rightarrow> vk_log \<Rightarrow> (gpu_shader_t ptr \<times> vk_log) option" where
  "gpu_shader_create D g info =
     create_resource D 24
       (\<lambda>p. \<lparr>shader_addr = p, vertex_module = 0, fragment_module = 0, descriptor_set_layout = 0\<rparr>)
       (and_then
         (create_into D VkShaderModule (\<lambda>s. [dev g]) (\<lambda>s. [si_vertex_size info])
           (\<lambda>h s. Some (s\<lparr>vertex_module := h\<rparr>)))
       (and_then
         (create_into D VkShaderModule (\<lambda>s. [dev g]) (\<lambda>s. [si_fragment_size info])
           (\<lambda>h s. Some (s\<lparr>fragment_module := h\<rparr>)))
         (create_into D VkDescriptorSetLayout (\<lambda>s. [dev g]) (\<lambda>s. [0..<si_uniform_buffer_count info])
           (\<lambda>h s. Some (s\<lparr>descriptor_set_layout := h\<rparr>)))))
       (gpu_shader_destroy D g)"

section \<open>Uniform buffers\<close>

definition gpu_uniform_buffer_destroy :: "driver \<Rightarrow> 'a gpu_t_scheme \<Rightarrow> gpu_uniform_buffer_t \<Rightarrow> vk_log \<Rightarrow> vk_log" where
  "gpu_uniform_buffer_destroy D g u l =
     (let l = destroy_if D VkBuffer [dev g] (ub_buffer u) l;
          l = destroy_if D VkDeviceMemory [dev g] (ub_memory u) l
      in vk_issued D (VkDestroy HeapBlock [] (ub_addr u)) l)"

text \<open>A failing map is ignored.\<close>

definition gpu_uniform_buffer_update ::
  "driver \<Rightarrow> 'a gpu_t_scheme \<Rightarrow> gpu_uniform_buffer_t \<Rightarrow> u8 list \<Rightarrow> vk_log \<Rightarrow> vk_log" where
  "gpu_uniform_buffer_update D g u bytes l =
     (let (a, l) = issue D (VkDo vkMapMemory [dev g, (VkDeviceMemory, ub_memory u)] [0, length bytes]) l
      in if vk_result a = 0
         then vk_issued D (VkDo vkUnmapMemory [dev g, (VkDeviceMemory, ub_memory u)] [])
           (vk_issued D (VkWrite (VkDeviceMemory, ub_memory u) bytes) l)
         else l)"

definition gpu_uniform_buffer_create ::
  "driver \<Rightarrow> 'a gpu_t_scheme \<Rightarrow> u8 list \<Rightarrow> vk_log \<Rightarrow> (gpu_uniform_buffer_t ptr \<times> vk_log) option" where
  "gpu_uniform_buffer_create D g bytes =
     create_resource D 40 (\<lambda>p. \<lparr>ub_addr = p, ub_buffer = 0, ub_memory = 0, ub_descriptor = (0, 0)\<rparr>)
       (and_then
         (create_into D VkBuffer (\<lambda>u. [dev g]) (\<lambda>u. [length bytes, 16]) (\<lambda>h u. Some (u\<lparr>ub_buffer := h\<rparr>)))
         (alloc_buffer_memory D g ub_buffer
           (\<lambda>reqs. and_then
             (check D (\<lambda>u. VkDo vkBindBufferMemory
               [dev g, (VkBuffer, ub_buffer u), (VkDeviceMemory, ub_memory u)] [0]))
             (\<lambda>u l. let u = u\<lparr>ub_descriptor := (ub_buffer u, length bytes)\<rparr>
                    in Some (True, u, gpu_uniform_buffer_update D g u bytes l)))
           (\<lambda>h u. u\<lparr>ub_memory := h\<rparr>)))
       (gpu_uniform_buffer_destroy D g)"

end
