(* ===== verification/Gpu_Lifetime.thy ===== *)
theory Gpu_Lifetime
  imports Gpu "HOL-Library.Multiset"
begin

text \<open>
  The lifetimes of the GPU objects: a checker for logs of calls, and the objects \<^verbatim>\<open>gpu_create\<close> leaves
  and \<^verbatim>\<open>gpu_destroy\<close> releases, whichever call fails.
\<close>

section \<open>The rules for lifetimes\<close>

text \<open>
  The specification of a correct log, from the rules of Vulkan for the lifetime of objects and of the
  heap for blocks: a call uses only live objects, an object is destroyed once and not before the
  objects created from it; destroying NULL has no effect.  The checker returns the live objects.
\<close>

definition handle_objects :: "vk_kind \<Rightarrow> nat \<Rightarrow> vk_obj multiset" where
  "handle_objects k h = (if h = 0 then {#} else {#(k, h)#})"

fun dependents :: "vk_kind \<Rightarrow> vk_kind list" where
  "dependents VkInstance = [VkDevice, VkSurfaceKHR]"
| "dependents VkSurfaceKHR = [VkSwapchainKHR]"
| "dependents VkDevice = [VkSwapchainKHR, VkImage, VkImageView, VkDeviceMemory, VkRenderPass,
     VkFramebuffer, VkSemaphore, VkFence, VkDescriptorPool, VkCommandPool, VkCommandBuffer,
     VkDescriptorSet, VkDescriptorSetLayout, VkBuffer, VkPipelineLayout, VkPipeline, VkShaderModule]"
| "dependents VkDescriptorPool = [VkDescriptorSet]"
| "dependents VkCommandPool = [VkCommandBuffer]"
| "dependents _ = []"

definition free_of :: "vk_kind list \<Rightarrow> vk_obj multiset \<Rightarrow> bool" where
  "free_of ks L \<longleftrightarrow> (\<forall>ob \<in># L. fst ob \<notin> set ks)"

fun vk_event :: "vk_obj multiset \<Rightarrow> vk_call \<times> vk_answer \<Rightarrow> vk_obj multiset option" where
  "vk_event L (VkCreate k us ns, a) =
     (if set us \<subseteq> set_mset L
      then Some (L + handle_objects k (if k = HeapBlock \<or> vk_result a = 0 then vk_value a else 0))
      else None)"
| "vk_event L (VkDestroy k us h, a) =
     (if set us \<subseteq> set_mset L \<and> (h = 0 \<or> (k, h) \<in># L \<and> free_of (dependents k) L)
      then Some (L - handle_objects k h) else None)"
| "vk_event L (VkDo f us ns, a) = (if set us \<subseteq> set_mset L then Some L else None)"
| "vk_event L (VkWrite ob bytes, a) = (if ob \<in># L then Some L else None)"

fun vk_run :: "vk_obj multiset \<Rightarrow> vk_log \<Rightarrow> vk_obj multiset option" where
  "vk_run L [] = Some L"
| "vk_run L (e # es) = vk_event L e \<bind> (\<lambda>L. vk_run L es)"

definition live_objects :: "vk_log \<Rightarrow> vk_obj multiset option" where
  "live_objects l = vk_run {#} l"

lemma vk_run_append: "vk_run L (es @ fs) = vk_run L es \<bind> (\<lambda>L. vk_run L fs)"
  by (induction es arbitrary: L) (simp_all split: Option.bind_split)

lemma live_append: "live_objects (l @ [e]) = live_objects l \<bind> (\<lambda>L. vk_event L e)"
  by (simp add: live_objects_def vk_run_append split: Option.bind_split)

lemma live_vk_issued:
  "live_objects l = Some L \<Longrightarrow> live_objects (vk_issued D c l) = vk_event L (c, D l c)"
  by (simp add: vk_issued_def issue_def Let_def live_append)

lemma in_handle_objects [simp]: "ob \<in># handle_objects k h \<longleftrightarrow> h \<noteq> 0 \<and> ob = (k, h)"
  by (simp add: handle_objects_def)

lemma handle_objects_0 [simp]: "handle_objects k 0 = {#}"
  by (simp add: handle_objects_def)

lemma free_of_union [simp]: "free_of ks (A + B) \<longleftrightarrow> free_of ks A \<and> free_of ks B"
  by (auto simp: free_of_def)

lemma free_of_empty [simp]: "free_of ks {#}"
  by (simp add: free_of_def)

lemma free_of_nil [simp]: "free_of [] L"
  by (simp add: free_of_def)

lemma free_of_handle [simp]: "free_of ks (handle_objects k h) \<longleftrightarrow> h = 0 \<or> k \<notin> set ks"
  by (auto simp: free_of_def)

section \<open>What the code relies on\<close>

text \<open>
  The heap does not run out; a successful creation returns an object, a failed one leaves NULL in the
  output; the second query of the swap chain images writes no more than it is asked for.  (For most
  functions Vulkan leaves the output of a failed call undefined: the code relies on more.)
\<close>

definition driver_ok :: "driver \<Rightarrow> bool" where
  "driver_ok D \<longleftrightarrow>
     (\<forall>l k us ns. if k = HeapBlock then vk_value (D l (VkCreate k us ns)) \<noteq> 0
        else vk_result (D l (VkCreate k us ns)) = 0 \<longleftrightarrow> vk_value (D l (VkCreate k us ns)) \<noteq> 0) \<and>
     (\<forall>l us n. vk_value (D l (VkDo vkGetSwapchainImagesKHR us [n])) \<le> n \<and>
        vk_value (D l (VkDo vkGetSwapchainImagesKHR us [n])) \<le> length (vk_handles (D l (VkDo vkGetSwapchainImagesKHR us [n])))) \<and>
     (\<forall>l us n. vk_result (D l (VkDo vkEnumeratePhysicalDevices us [n])) = 0 \<longrightarrow>
        vk_handles (D l (VkDo vkEnumeratePhysicalDevices us [n])) \<noteq> [])"

lemma driver_heap: "driver_ok D \<Longrightarrow> vk_value (D l (VkCreate HeapBlock us ns)) \<noteq> 0"
  by (simp add: driver_ok_def)

lemma driver_create:
  "driver_ok D \<Longrightarrow> k \<noteq> HeapBlock \<Longrightarrow>
   vk_value (D l (VkCreate k us ns)) = (if vk_result (D l (VkCreate k us ns)) = 0 then vk_value (D l (VkCreate k us ns)) else 0)"
  unfolding driver_ok_def by (metis (full_types))

lemma driver_made:
  "driver_ok D \<Longrightarrow> k \<noteq> HeapBlock \<Longrightarrow> vk_result (D l (VkCreate k us ns)) = 0 \<Longrightarrow> vk_value (D l (VkCreate k us ns)) \<noteq> 0"
  unfolding driver_ok_def by metis

text \<open>Issuing a creation adds what is stored.\<close>

lemma live_create:
  assumes "driver_ok D" and "live_objects l = Some L" and "set us \<subseteq> set_mset L"
  shows "live_objects (l @ [(VkCreate k us ns, D l (VkCreate k us ns))]) =
    Some (L + handle_objects k (vk_value (D l (VkCreate k us ns))))"
  using assms driver_create [OF assms(1), of k l us ns] by (auto simp: live_append)

section \<open>The objects of a GPU\<close>

definition cmd_buffer_objects :: "gpu_cmd_buffer_t ptr \<Rightarrow> vk_obj multiset" where
  "cmd_buffer_objects p =
     (case p of None \<Rightarrow> {#}
      | Some cb \<Rightarrow> handle_objects HeapBlock (cb_addr cb) + handle_objects VkCommandBuffer (cb_buffer cb))"

definition frame_objects :: "gpu_frame_t \<Rightarrow> vk_obj multiset" where
  "frame_objects f = handle_objects VkFence (fence f) + cmd_buffer_objects (cmd_buffer f) +
     handle_objects VkFramebuffer (frame_buffer f) + handle_objects VkImageView (fr_view f)"

definition layout_objects :: "gpu_layout_t \<Rightarrow> vk_obj multiset" where
  "layout_objects ly = handle_objects HeapBlock (ly_binding ly) + handle_objects HeapBlock (ly_attributes ly)"

definition frames_objects :: "(nat \<times> gpu_frame_t list) ptr \<Rightarrow> vk_obj multiset" where
  "frames_objects fs = (case fs of None \<Rightarrow> {#}
     | Some (p, fs) \<Rightarrow> handle_objects HeapBlock p + sum_list (map frame_objects fs))"

text \<open>In the order in which they are destroyed.\<close>

definition gpu_objects :: "'a gpu_t_scheme \<Rightarrow> vk_obj multiset" where
  "gpu_objects g =
     sum_list (map layout_objects (mesh_layouts g)) +
     (handle_objects VkSemaphore (render_complete_sema g) +
     (handle_objects VkSemaphore (present_complete_sema g) +
     (handle_objects VkImageView (depth_stencil_view g) +
     (handle_objects VkImage (depth_stencil_image g) +
     (handle_objects VkDeviceMemory (depth_stencil_memory g) +
     (frames_objects (frames g) +
     (handle_objects VkDescriptorPool (descriptor_pool g) +
     (handle_objects VkCommandPool (cmd_pool g) +
     (handle_objects VkRenderPass (render_pass g) +
     (handle_objects VkSwapchainKHR (swap_chain g) +
     (handle_objects VkSurfaceKHR (surface g) +
     (handle_objects VkDevice (logical_device g) +
     (handle_objects VkInstance (vk_instance g) +
      handle_objects HeapBlock (gpu_addr g))))))))))))))"

text \<open>
  What res_live at every point of the creation: an object exists only together with those it was created
  from, and the array of frames is long enough and empty behind the used part.
\<close>

definition frame_ok :: "'a gpu_t_scheme \<Rightarrow> gpu_frame_t \<Rightarrow> bool" where
  "frame_ok g f \<longleftrightarrow> (case cmd_buffer f of None \<Rightarrow> True | Some cb \<Rightarrow> cb_addr cb \<noteq> 0 \<and> cmd_pool g \<noteq> 0)"

definition gpu_ok :: "'a gpu_t_scheme \<Rightarrow> bool" where
  "gpu_ok g \<longleftrightarrow> gpu_addr g \<noteq> 0 \<and>
     (logical_device g \<noteq> 0 \<or> surface g \<noteq> 0 \<longrightarrow> vk_instance g \<noteq> 0) \<and>
     (logical_device g = 0 \<longrightarrow> swap_chain g = 0 \<and> render_pass g = 0 \<and> depth_stencil_image g = 0 \<and>
        depth_stencil_memory g = 0 \<and> depth_stencil_view g = 0 \<and> cmd_pool g = 0 \<and> descriptor_pool g = 0 \<and>
        present_complete_sema g = 0 \<and> render_complete_sema g = 0 \<and> frames g = None) \<and>
     (\<forall>ly \<in> set (mesh_layouts g). ly_binding ly = 0 \<longleftrightarrow> ly_attributes ly = 0) \<and>
     (case frames g of None \<Rightarrow> True
      | Some (p, fs) \<Rightarrow> p \<noteq> 0 \<and> unat (frame_count g) \<le> length fs \<and> (\<forall>f \<in> set fs. frame_ok g f) \<and>
          (\<forall>f \<in> set (drop (unat (frame_count g)) fs). f = zero_frame))"

section \<open>Destruction\<close>

lemma live_destroy:
  assumes "live_objects l = Some (handle_objects k h + R)" and "set us \<subseteq> set_mset R"
    and "h \<noteq> 0 \<Longrightarrow> k \<notin> set (dependents k) \<and> free_of (dependents k) R"
  shows "live_objects (vk_issued D (VkDestroy k us h) l) = Some R"
  using assms(2,3) by (auto simp: live_vk_issued [OF assms(1)])

lemma live_destroy_if:
  assumes "live_objects l = Some (handle_objects k h + R)" and "h \<noteq> 0 \<Longrightarrow> set us \<subseteq> set_mset R"
    and "h \<noteq> 0 \<Longrightarrow> k \<notin> set (dependents k) \<and> free_of (dependents k) R"
  shows "live_objects (destroy_if D k us h l) = Some R"
  using assms live_destroy [OF assms(1,2)] by (cases "h = 0") (simp_all add: destroy_if_def)

lemma live_destroy_layouts:
  assumes "live_objects l = Some (sum_list (map layout_objects lys) + R)"
    and "\<forall>ly \<in> set lys. ly_binding ly = 0 \<longleftrightarrow> ly_attributes ly = 0"
  shows "live_objects (fold (\<lambda>ly l. if ly_binding ly \<noteq> 0
                 then vk_issued D (VkDestroy HeapBlock [] (ly_attributes ly))
                   (vk_issued D (VkDestroy HeapBlock [] (ly_binding ly)) l)
                 else l) lys l) = Some R"
  using assms
proof (induction lys arbitrary: l)
  case (Cons ly lys)
  let ?R = "sum_list (map layout_objects lys) + R"
  have l: "live_objects l = Some (handle_objects HeapBlock (ly_binding ly) +
      (handle_objects HeapBlock (ly_attributes ly) + ?R))"
    using Cons.prems(1) by (simp add: layout_objects_def [of ly] ac_simps)
  show ?case
  proof (cases "ly_binding ly = 0")
    case True
    with Cons.prems(2) l have "live_objects l = Some ?R" by simp
    with True Cons.IH [of l] Cons.prems(2) show ?thesis by simp
  next
    case False
    have "live_objects (vk_issued D (VkDestroy HeapBlock [] (ly_attributes ly))
        (vk_issued D (VkDestroy HeapBlock [] (ly_binding ly)) l)) = Some ?R"
      by (rule live_destroy [OF live_destroy [OF l]]) simp_all
    with False Cons.IH Cons.prems(2) show ?thesis by simp
  qed
qed simp

lemma live_destroy_frame:
  assumes l: "live_objects l = Some (frame_objects f + R)" and d: "dev g \<in># R" and f: "frame_ok g f"
    and pool: "cmd_pool g \<noteq> 0 \<Longrightarrow> (VkCommandPool, cmd_pool g) \<in># R"
  shows "live_objects (destroy_frame D g f l) = Some R"
proof -
  have l0: "live_objects l = Some (handle_objects VkFence (fence f) + (cmd_buffer_objects (cmd_buffer f) +
      (handle_objects VkFramebuffer (frame_buffer f) + (handle_objects VkImageView (fr_view f) + R))))"
    using l by (simp add: frame_objects_def ac_simps)
  define l1 where "l1 = destroy_if D VkFence [dev g] (fence f) l"
  have l1: "live_objects l1 = Some (cmd_buffer_objects (cmd_buffer f) +
      (handle_objects VkFramebuffer (frame_buffer f) + (handle_objects VkImageView (fr_view f) + R)))"
    unfolding l1_def by (rule live_destroy_if [OF l0]) (use d in simp_all)
  define l2 where "l2 = (case cmd_buffer f of None \<Rightarrow> l1
      | Some cb \<Rightarrow> vk_issued D (VkDestroy HeapBlock [] (cb_addr cb))
          (vk_issued D (VkDestroy VkCommandBuffer [dev g, (VkCommandPool, cmd_pool g)] (cb_buffer cb)) l1))"
  have l2: "live_objects l2 = Some (handle_objects VkFramebuffer (frame_buffer f) + (handle_objects VkImageView (fr_view f) + R))"
  proof (cases "cmd_buffer f")
    case None
    with l1 show ?thesis by (simp add: l2_def cmd_buffer_objects_def)
  next
    case (Some cb)
    let ?R = "handle_objects VkFramebuffer (frame_buffer f) + (handle_objects VkImageView (fr_view f) + R)"
    have "live_objects l1 = Some (handle_objects VkCommandBuffer (cb_buffer cb) + (handle_objects HeapBlock (cb_addr cb) + ?R))"
      using l1 Some by (simp add: cmd_buffer_objects_def ac_simps)
    moreover have "(VkCommandPool, cmd_pool g) \<in># R" using f Some pool by (simp add: frame_ok_def)
    ultimately have "live_objects (vk_issued D (VkDestroy VkCommandBuffer [dev g, (VkCommandPool, cmd_pool g)] (cb_buffer cb)) l1) =
        Some (handle_objects HeapBlock (cb_addr cb) + ?R)"
      by (intro live_destroy) (use d in simp_all)
    then have "live_objects (vk_issued D (VkDestroy HeapBlock [] (cb_addr cb))
        (vk_issued D (VkDestroy VkCommandBuffer [dev g, (VkCommandPool, cmd_pool g)] (cb_buffer cb)) l1)) = Some ?R"
      by (rule live_destroy) simp_all
    with Some show ?thesis by (simp add: l2_def)
  qed
  have "live_objects (destroy_if D VkImageView [dev g] (fr_view f)
      (destroy_if D VkFramebuffer [dev g] (frame_buffer f) l2)) = Some R"
    by (rule live_destroy_if [OF live_destroy_if [OF l2]]) (use d in simp_all)
  then show ?thesis by (simp add: destroy_frame_def l1_def [symmetric] l2_def [symmetric])
qed

lemma live_destroy_frame_list:
  assumes "live_objects l = Some (sum_list (map frame_objects fs) + R)" and "dev g \<in># R"
    and "\<forall>f \<in> set fs. frame_ok g f" and "cmd_pool g \<noteq> 0 \<Longrightarrow> (VkCommandPool, cmd_pool g) \<in># R"
  shows "live_objects (fold (destroy_frame D g) fs l) = Some R"
  using assms
proof (induction fs arbitrary: l)
  case (Cons f fs)
  let ?R = "sum_list (map frame_objects fs) + R"
  have "live_objects (destroy_frame D g f l) = Some ?R"
    by (rule live_destroy_frame) (use Cons.prems in \<open>simp_all add: ac_simps\<close>)
  with Cons.IH Cons.prems show ?case by simp
qed simp

lemma zero_frame_objects [simp]: "frame_objects zero_frame = {#}"
  by (simp add: frame_objects_def zero_frame_def cmd_buffer_objects_def)

lemma zero_frames_objects: "\<forall>f \<in> set fs. f = zero_frame \<Longrightarrow> sum_list (map frame_objects fs) = {#}"
  by (induction fs) simp_all

lemma live_destroy_frames:
  assumes ok: "gpu_ok g" and l: "live_objects l = Some (frames_objects (frames g) + R)"
    and d: "frames g \<noteq> None \<Longrightarrow> dev g \<in># R"
    and pool: "cmd_pool g \<noteq> 0 \<Longrightarrow> (VkCommandPool, cmd_pool g) \<in># R"
  shows "\<exists>l'. destroy_frames D g l = Some l' \<and> live_objects l' = Some R"
proof (cases "frames g")
  case None
  with l show ?thesis by (simp add: destroy_frames_def frames_objects_def)
next
  case (Some pf)
  then obtain p fs where fs: "frames g = Some (p, fs)" by (cases pf) simp
  let ?n = "unat (frame_count g)"
  have n: "?n \<le> length fs" "\<forall>f \<in> set fs. frame_ok g f" "\<forall>f \<in> set (drop ?n fs). f = zero_frame"
    using ok by (simp_all add: gpu_ok_def fs)
  have "sum_list (map frame_objects fs) =
      sum_list (map frame_objects (take ?n fs)) + sum_list (map frame_objects (drop ?n fs))"
    by (metis append_take_drop_id map_append sum_list.append)
  then have "live_objects l = Some (sum_list (map frame_objects (take ?n fs)) + (handle_objects HeapBlock p + R))"
    using l n(3) by (simp add: fs frames_objects_def zero_frames_objects ac_simps)
  then have "live_objects (fold (destroy_frame D g) (take ?n fs) l) = Some (handle_objects HeapBlock p + R)"
    by (rule live_destroy_frame_list) (use d pool n(2) fs in \<open>auto dest: in_set_takeD\<close>)
  then have "live_objects (vk_issued D (VkDestroy HeapBlock [] p) (fold (destroy_frame D g) (take ?n fs) l)) = Some R"
    by (rule live_destroy) simp_all
  with n(1) show ?thesis by (simp add: destroy_frames_def fs)
qed

definition heap_only :: "vk_obj multiset \<Rightarrow> bool" where
  "heap_only L \<longleftrightarrow> (\<forall>ob \<in># L. fst ob = HeapBlock)"

lemma heap_only_free: "heap_only L \<Longrightarrow> HeapBlock \<notin> set ks \<Longrightarrow> free_of ks L"
  by (auto simp: heap_only_def free_of_def)

lemma destroys:
  assumes ok: "gpu_ok g" and l: "live_objects l = Some (gpu_objects g + L)" and L: "heap_only L"
  shows "\<exists>l'. gpu_destroy D g l = Some l' \<and> live_objects l' = Some L"
proof -
  note free = heap_only_free [OF L]
  have inst: "logical_device g \<noteq> 0 \<Longrightarrow> vk_instance g \<noteq> 0" "surface g \<noteq> 0 \<Longrightarrow> vk_instance g \<noteq> 0"
    using ok unfolding gpu_ok_def by blast+
  have dev: "logical_device g = 0 \<Longrightarrow> render_complete_sema g = 0 \<and> present_complete_sema g = 0 \<and>
      depth_stencil_view g = 0 \<and> depth_stencil_image g = 0 \<and> depth_stencil_memory g = 0 \<and> frames g = None \<and>
      descriptor_pool g = 0 \<and> cmd_pool g = 0 \<and> render_pass g = 0 \<and> swap_chain g = 0"
    using ok unfolding gpu_ok_def by blast
  let ?R1 = "handle_objects VkSurfaceKHR (surface g) + (handle_objects VkDevice (logical_device g) +
     (handle_objects VkInstance (vk_instance g) + (handle_objects HeapBlock (gpu_addr g) + L)))"
  let ?R2 = "handle_objects VkDescriptorPool (descriptor_pool g) + (handle_objects VkCommandPool (cmd_pool g) +
     (handle_objects VkRenderPass (render_pass g) + (handle_objects VkSwapchainKHR (swap_chain g) + ?R1)))"
  define l1 where "l1 = (if gpu_queue g \<noteq> 0 then vk_issued D (VkDo vkQueueWaitIdle [] [gpu_queue g]) l else l)"
  have "live_objects l1 = Some (gpu_objects g + L)" using live_vk_issued [OF l] l by (simp add: l1_def)
  note l1 = this [unfolded gpu_objects_def add.assoc]
  have lys: "\<forall>ly \<in> set (mesh_layouts g). ly_binding ly = 0 \<longleftrightarrow> ly_attributes ly = 0"
    using ok by (simp add: gpu_ok_def)
  define l2 where "l2 = destroy_if D VkDeviceMemory [dev g] (depth_stencil_memory g)
     (destroy_if D VkImage [dev g] (depth_stencil_image g)
     (destroy_if D VkImageView [dev g] (depth_stencil_view g)
     (destroy_if D VkSemaphore [dev g] (present_complete_sema g)
     (destroy_if D VkSemaphore [dev g] (render_complete_sema g) (destroy_mesh_layouts D g l1)))))"
  have l2: "live_objects l2 = Some (frames_objects (frames g) + ?R2)"
    unfolding l2_def
    by (rule live_destroy_if, rule live_destroy_if, rule live_destroy_if, rule live_destroy_if,
        rule live_destroy_if, rule live_destroy_layouts [OF l1 lys, of D, folded destroy_mesh_layouts_def])
      (use dev in auto)
  obtain l3 where l3: "destroy_frames D g l2 = Some l3" "live_objects l3 = Some ?R2"
  proof -
    have "logical_device g \<noteq> 0" if "frames g \<noteq> None" using dev that by blast
    then have "\<exists>l'. destroy_frames D g l2 = Some l' \<and> live_objects l' = Some ?R2"
      by (intro live_destroy_frames [OF ok l2]) auto
    then show thesis using that by blast
  qed
  define l4 where "l4 = vk_issued D (VkDestroy HeapBlock [] (gpu_addr g))
     (destroy_if D VkInstance [] (vk_instance g) (destroy_if D VkDevice [] (logical_device g)
     (destroy_if D VkSurfaceKHR [(VkInstance, vk_instance g)] (surface g)
     (destroy_if D VkSwapchainKHR [dev g] (swap_chain g) (destroy_if D VkRenderPass [dev g] (render_pass g)
     (destroy_if D VkCommandPool [dev g] (cmd_pool g)
     (destroy_if D VkDescriptorPool [dev g] (descriptor_pool g) l3)))))))"
  have "live_objects l4 = Some L"
    unfolding l4_def
    by (rule live_destroy, rule live_destroy_if, rule live_destroy_if, rule live_destroy_if,
        rule live_destroy_if, rule live_destroy_if, rule live_destroy_if, rule live_destroy_if, rule l3(2))
      (use dev inst free in auto)
  moreover have "gpu_destroy D g l = Some l4"
    unfolding gpu_destroy_def Let_def l1_def [symmetric] l2_def [symmetric] l3(1) bind.bind_lunit l4_def [symmetric]
    by (rule refl)
  ultimately show ?thesis by blast
qed

end
