(* ===== verification/Gpu_Create.thy ===== *)
theory Gpu_Create
  imports Gpu_Lifetime
begin

text \<open>
  The sections of \<^verbatim>\<open>gpu_create\<close>: each adds to the live objects what it stores, also when it fails,
  so the destruction at the end of a failed creation releases exactly what was created.
\<close>

section \<open>How far the creation is\<close>

definition frame_made :: "nat \<Rightarrow> gpu_frame_t \<Rightarrow> bool" where
  "frame_made n f \<longleftrightarrow> (fr_view f \<noteq> 0 \<longleftrightarrow> 5 \<le> n) \<and> (frame_buffer f \<noteq> 0 \<longleftrightarrow> 10 \<le> n) \<and>
     (fence f \<noteq> 0 \<longleftrightarrow> 15 \<le> n) \<and>
     (case cmd_buffer f of None \<Rightarrow> n < 15 | Some cb \<Rightarrow> 15 \<le> n \<and> cb_addr cb \<noteq> 0 \<and> cb_buffer cb \<noteq> 0)"

definition fields_made :: "nat \<Rightarrow> 'a gpu_t_scheme \<Rightarrow> bool" where
  "fields_made n g \<longleftrightarrow> gpu_addr g \<noteq> 0 \<and> (vk_instance g \<noteq> 0 \<longleftrightarrow> 1 \<le> n) \<and> (logical_device g \<noteq> 0 \<longleftrightarrow> 2 \<le> n) \<and>
     (surface g \<noteq> 0 \<longleftrightarrow> 3 \<le> n) \<and> (swap_chain g \<noteq> 0 \<longleftrightarrow> 4 \<le> n) \<and> (frames g \<noteq> None \<longleftrightarrow> 5 \<le> n) \<and>
     (depth_stencil_image g \<noteq> 0 \<longleftrightarrow> 6 \<le> n) \<and> (depth_stencil_memory g \<noteq> 0 \<longleftrightarrow> 7 \<le> n) \<and>
     (depth_stencil_view g \<noteq> 0 \<longleftrightarrow> 8 \<le> n) \<and> (render_pass g \<noteq> 0 \<longleftrightarrow> 9 \<le> n) \<and>
     (present_complete_sema g \<noteq> 0 \<longleftrightarrow> 11 \<le> n) \<and> (render_complete_sema g \<noteq> 0 \<longleftrightarrow> 12 \<le> n) \<and>
     (descriptor_pool g \<noteq> 0 \<longleftrightarrow> 13 \<le> n) \<and> (cmd_pool g \<noteq> 0 \<longleftrightarrow> 14 \<le> n) \<and>
     mesh_layouts g = [zero_layout, zero_layout] \<and> frame_index g = 0"

text \<open>The first \<open>j\<close> frames are made up to stage \<open>n\<close>, the others up to stage \<open>m\<close>.\<close>

definition frames_made :: "nat \<Rightarrow> nat \<Rightarrow> nat \<Rightarrow> 'a gpu_t_scheme \<Rightarrow> bool" where
  "frames_made n j m g \<longleftrightarrow> (\<forall>p fs. frames g = Some (p, fs) \<longrightarrow> p \<noteq> 0 \<and> unat (frame_count g) \<le> length fs \<and>
     (\<forall>i < unat (frame_count g). frame_made (if i < j then n else m) (fs ! i)) \<and>
     (\<forall>i < length fs. unat (frame_count g) \<le> i \<longrightarrow> fs ! i = zero_frame))"

definition made :: "nat \<Rightarrow> 'a gpu_t_scheme \<Rightarrow> bool" where
  "made n g \<longleftrightarrow> fields_made n g \<and> frames_made n (unat (frame_count g)) n g"

section \<open>Steps\<close>

definition owned :: "vk_obj multiset \<Rightarrow> 'a gpu_t_scheme \<Rightarrow> vk_log \<Rightarrow> bool" where
  "owned L g l \<longleftrightarrow> gpu_ok g \<and> live_objects l = Some (gpu_objects g + L)"

text \<open>
  \<open>triple I P s Q\<close>: the step \<open>s\<close> is defined wherever \<open>P\<close> res_live, keeps the invariant \<open>I\<close> whether it goes
  on or not, and establishes \<open>Q\<close> when it goes on.
\<close>

definition triple ::
  "('g \<Rightarrow> vk_log \<Rightarrow> bool) \<Rightarrow> ('g \<Rightarrow> bool) \<Rightarrow> 'g vk_step \<Rightarrow> ('g \<Rightarrow> bool) \<Rightarrow> bool" where
  "triple I P s Q \<longleftrightarrow> (\<forall>g l. P g \<longrightarrow> I g l \<longrightarrow>
     (\<exists>ok g' l'. s g l = Some (ok, g', l') \<and> I g' l' \<and> (ok \<longrightarrow> Q g')))"

abbreviation step_ok ::
  "vk_obj multiset \<Rightarrow> (gpu_create_t \<Rightarrow> bool) \<Rightarrow> gpu_create_t vk_step \<Rightarrow> (gpu_create_t \<Rightarrow> bool) \<Rightarrow> bool" where
  "step_ok L \<equiv> triple (owned L)"

lemmas step_ok_def = triple_def

lemma step_and_then:
  assumes s: "triple I P s Q" and t: "triple I Q t R"
  shows "triple I P (and_then s t) R"
  unfolding step_ok_def
proof (intro allI impI)
  fix g l
  assume "P g" "I g l"
  then obtain ok g1 l1 where 1: "s g l = Some (ok, g1, l1)" "I g1 l1" "ok \<longrightarrow> Q g1"
    using s unfolding step_ok_def by blast
  show "\<exists>ok g' l'. and_then s t g l = Some (ok, g', l') \<and> I g' l' \<and> (ok \<longrightarrow> R g')"
  proof (cases ok)
    case True
    with 1 obtain ok2 g2 l2 where "t g1 l1 = Some (ok2, g2, l2)" "I g2 l2" "ok2 \<longrightarrow> R g2"
      using t unfolding step_ok_def by blast
    with 1(1) True show ?thesis by (simp add: and_then_def)
  next
    case False
    with 1 show ?thesis by (auto simp: and_then_def)
  qed
qed

lemma step_for_each:
  assumes "\<And>i. i < n \<Longrightarrow> triple I (J i) (body i) (J (Suc i))"
  shows "m \<le> n \<Longrightarrow> triple I (J m) (for_each body [m..<n]) (J n)"
proof (induction "n - m" arbitrary: m)
  case 0
  then have "n = m" by simp
  then show ?case by (auto simp: step_ok_def intro!: exI [of _ True])
next
  case (Suc d)
  then have "m < n" by simp
  have "triple I (J m) (and_then (body m) (for_each body [Suc m..<n])) (J n)"
    by (rule step_and_then [OF assms [OF \<open>m < n\<close>]]) (use Suc in simp)
  moreover have "for_each body [m..<n] = and_then (body m) (for_each body [Suc m..<n])"
    using \<open>m < n\<close> by (simp add: upt_conv_Cons fun_eq_iff)
  ultimately show ?case by simp
qed

lemma step_weaken: "triple I P s Q \<Longrightarrow> (\<And>g. P' g \<Longrightarrow> P g) \<Longrightarrow> (\<And>g. Q g \<Longrightarrow> Q' g) \<Longrightarrow> triple I P' s Q'"
  unfolding step_ok_def by blast

text \<open>A query changes nothing but the log.\<close>

lemma owned_ask:
  "owned L g l \<Longrightarrow> set us \<subseteq> set_mset (gpu_objects g) \<Longrightarrow> owned L g (l @ [(VkDo f us ns, a)])"
  by (auto simp: owned_def live_append)

lemma owned_create:
  assumes "driver_ok D" and "owned L g l" and "set us \<subseteq> set_mset (gpu_objects g)"
    and "gpu_objects g' = gpu_objects g + handle_objects k (vk_value (D l (VkCreate k us ns)))" and "gpu_ok g'"
  shows "owned L g' (l @ [(VkCreate k us ns, D l (VkCreate k us ns))])"
proof -
  have l: "live_objects l = Some (gpu_objects g + L)" using assms(2) by (simp add: owned_def)
  have "set us \<subseteq> set_mset (gpu_objects g + L)" using assms(3) by auto
  from live_create [OF assms(1) l this, of k ns] assms(4,5) show ?thesis
    by (simp add: owned_def ac_simps)
qed

lemma step_create:
  assumes D: "driver_ok D" and k: "k \<noteq> HeapBlock"
    and us: "\<And>g. P g \<Longrightarrow> gpu_ok g \<Longrightarrow> set (us g) \<subseteq> set_mset (gpu_objects g)"
    and put: "\<And>g h. P g \<Longrightarrow> gpu_ok g \<Longrightarrow> \<exists>g'. put h g = Some g' \<and> gpu_ok g' \<and>
      gpu_objects g' = gpu_objects g + handle_objects k h \<and> (h \<noteq> 0 \<longrightarrow> Q g')"
  shows "step_ok L P (create_into D k us ns put) Q"
  unfolding step_ok_def
proof (intro allI impI)
  fix g l
  assume P: "P g" and o: "owned L g l"
  let ?c = "VkCreate k (us g) (ns g)"
  have ok: "gpu_ok g" using o by (simp add: owned_def)
  obtain g' where g': "put (vk_value (D l ?c)) g = Some g'" "gpu_ok g'"
    "gpu_objects g' = gpu_objects g + handle_objects k (vk_value (D l ?c))" "vk_value (D l ?c) \<noteq> 0 \<Longrightarrow> Q g'"
    using put [OF P ok] by blast
  have "vk_result (D l ?c) = 0 \<Longrightarrow> vk_value (D l ?c) \<noteq> 0" by (rule driver_made [OF D k])
  moreover have "owned L g' (l @ [(?c, D l ?c)])"
    by (rule owned_create [OF D o us [OF P ok] g'(3,2)])
  ultimately show "\<exists>ok g' l'. create_into D k us ns put g l = Some (ok, g', l') \<and> owned L g' l' \<and> (ok \<longrightarrow> Q g')"
    using g' by (auto simp: create_into_def issue_def Let_def)
qed

lemma step_check:
  assumes "\<And>g. P g \<Longrightarrow> gpu_ok g \<Longrightarrow> \<exists>f us ns. c g = VkDo f us ns \<and> set us \<subseteq> set_mset (gpu_objects g)"
  shows "step_ok L P (check D c) P"
  unfolding step_ok_def
proof (intro allI impI)
  fix g l
  assume P: "P g" and o: "owned L g l"
  have "gpu_ok g" using o by (simp add: owned_def)
  from assms [OF P this] obtain f us ns where c: "c g = VkDo f us ns" "set us \<subseteq> set_mset (gpu_objects g)" by blast
  with owned_ask [OF o c(2)] P show "\<exists>ok g' l'. check D c g l = Some (ok, g', l') \<and> owned L g' l' \<and> (ok \<longrightarrow> P g')"
    by (simp add: check_def issue_def Let_def)
qed

lemma step_ask:
  assumes us: "\<And>g. P g \<Longrightarrow> gpu_ok g \<Longrightarrow> set (us g) \<subseteq> set_mset (gpu_objects g)"
    and s: "\<And>a. step_ok L P (s a) Q"
  shows "step_ok L P (\<lambda>g l. let (a, l) = issue D (VkDo f (us g) (ns g)) l in s a g l) Q"
  unfolding step_ok_def
proof (intro allI impI)
  fix g l
  assume P: "P g" and o: "owned L g l"
  let ?a = "D l (VkDo f (us g) (ns g))"
  have "gpu_ok g" using o by (simp add: owned_def)
  with us P have "owned L g (l @ [(VkDo f (us g) (ns g), ?a)])" by (intro owned_ask [OF o]) simp
  with s [of ?a] P show "\<exists>ok g' l'. (let (a, l) = issue D (VkDo f (us g) (ns g)) l in s a g l) = Some (ok, g', l') \<and>
      owned L g' l' \<and> (ok \<longrightarrow> Q g')"
    unfolding step_ok_def by (simp add: issue_def Let_def)
qed

section \<open>The objects of a GPU\<close>

lemma gpu_objects_in:
  "logical_device g \<noteq> 0 \<Longrightarrow> dev g \<in># gpu_objects g"
  "vk_instance g \<noteq> 0 \<Longrightarrow> (VkInstance, vk_instance g) \<in># gpu_objects g"
  "surface g \<noteq> 0 \<Longrightarrow> (VkSurfaceKHR, surface g) \<in># gpu_objects g"
  "swap_chain g \<noteq> 0 \<Longrightarrow> (VkSwapchainKHR, swap_chain g) \<in># gpu_objects g"
  "render_pass g \<noteq> 0 \<Longrightarrow> (VkRenderPass, render_pass g) \<in># gpu_objects g"
  "depth_stencil_view g \<noteq> 0 \<Longrightarrow> (VkImageView, depth_stencil_view g) \<in># gpu_objects g"
  "depth_stencil_image g \<noteq> 0 \<Longrightarrow> (VkImage, depth_stencil_image g) \<in># gpu_objects g"
  "depth_stencil_memory g \<noteq> 0 \<Longrightarrow> (VkDeviceMemory, depth_stencil_memory g) \<in># gpu_objects g"
  "cmd_pool g \<noteq> 0 \<Longrightarrow> (VkCommandPool, cmd_pool g) \<in># gpu_objects g"
  "descriptor_pool g \<noteq> 0 \<Longrightarrow> (VkDescriptorPool, descriptor_pool g) \<in># gpu_objects g"
  by (simp_all add: gpu_objects_def)

lemma in_sum_list: "x \<in> set xs \<Longrightarrow> ob \<in># F x \<Longrightarrow> ob \<in># sum_list (map F xs)" for F :: "'b \<Rightarrow> 'c multiset"
  by (induction xs) auto

lemma frame_view_in:
  assumes "frames g = Some (p, fs)" and "i < length fs" and "fr_view (fs ! i) \<noteq> 0"
  shows "(VkImageView, fr_view (fs ! i)) \<in># gpu_objects g"
proof -
  have "(VkImageView, fr_view (fs ! i)) \<in># sum_list (map frame_objects fs)"
    by (rule in_sum_list [of "fs ! i"]) (use assms in \<open>simp_all add: frame_objects_def\<close>)
  then show ?thesis by (simp add: gpu_objects_def frames_objects_def assms(1))
qed

lemma sum_list_update:
  fixes F :: "'b \<Rightarrow> 'c multiset"
  assumes "i < length xs" and "F x = F (xs ! i) + X"
  shows "sum_list (map F (xs[i := x])) = sum_list (map F xs) + X"
  using assms
proof (induction xs arbitrary: i)
  case (Cons y ys)
  then show ?case by (cases i) (simp_all add: ac_simps)
qed simp

lemma objects_put_frame:
  assumes "frames g = Some (p, fs)" and "i < length fs" and "frame_objects f = frame_objects (fs ! i) + X"
  shows "gpu_objects (g\<lparr>frames := Some (p, fs[i := f])\<rparr>) = gpu_objects g + X"
  using sum_list_update [of i fs frame_objects f X] assms
  by (simp add: gpu_objects_def frames_objects_def ac_simps)

lemmas made_defs = made_def fields_made_def

lemma gpu_ok_put_frame:
  assumes ok: "gpu_ok g" and fs: "frames g = Some (p, fs)" and i: "i < unat (frame_count g)" and f: "frame_ok g f"
  shows "gpu_ok (g\<lparr>frames := Some (p, fs[i := f])\<rparr>)"
proof -
  let ?g = "g\<lparr>frames := Some (p, fs[i := f])\<rparr>"
  have same: "frame_ok ?g = frame_ok g" by (simp add: frame_ok_def fun_eq_iff split: option.splits)
  have old: "p \<noteq> 0" "unat (frame_count g) \<le> length fs" "\<forall>f \<in> set fs. frame_ok g f"
    "\<forall>f \<in> set (drop (unat (frame_count g)) fs). f = zero_frame"
    using ok by (simp_all add: gpu_ok_def fs)
  have "\<forall>f \<in> set (fs[i := f]). frame_ok g f"
    using old(3) f set_update_subset_insert [of fs i f] by blast
  moreover have "drop (unat (frame_count g)) (fs[i := f]) = drop (unat (frame_count g)) fs"
    using i by (simp add: drop_update_cancel)
  ultimately show ?thesis
    using ok old fs unfolding gpu_ok_def same by simp
qed

section \<open>The sections\<close>

lemmas step_simps = made_defs frames_made_def gpu_objects_in

text \<open>Setting a field that no other condition depends on.\<close>

lemma gpu_ok_update:
  "gpu_ok g \<Longrightarrow> gpu_ok (g\<lparr>vk_instance := h\<rparr>) \<longleftrightarrow> (logical_device g \<noteq> 0 \<or> surface g \<noteq> 0 \<longrightarrow> h \<noteq> 0)"
  "gpu_ok g \<Longrightarrow> vk_instance g \<noteq> 0 \<Longrightarrow> gpu_ok (g\<lparr>surface := h\<rparr>)"
  "gpu_ok g \<Longrightarrow> logical_device g \<noteq> 0 \<Longrightarrow> gpu_ok (g\<lparr>swap_chain := h\<rparr>)"
  "gpu_ok g \<Longrightarrow> logical_device g \<noteq> 0 \<Longrightarrow> gpu_ok (g\<lparr>depth_stencil_image := h\<rparr>)"
  "gpu_ok g \<Longrightarrow> logical_device g \<noteq> 0 \<Longrightarrow> gpu_ok (g\<lparr>depth_stencil_memory := h\<rparr>)"
  "gpu_ok g \<Longrightarrow> logical_device g \<noteq> 0 \<Longrightarrow> gpu_ok (g\<lparr>depth_stencil_view := h\<rparr>)"
  "gpu_ok g \<Longrightarrow> logical_device g \<noteq> 0 \<Longrightarrow> gpu_ok (g\<lparr>render_pass := h\<rparr>)"
  "gpu_ok g \<Longrightarrow> logical_device g \<noteq> 0 \<Longrightarrow> gpu_ok (g\<lparr>present_complete_sema := h\<rparr>)"
  "gpu_ok g \<Longrightarrow> logical_device g \<noteq> 0 \<Longrightarrow> gpu_ok (g\<lparr>render_complete_sema := h\<rparr>)"
  "gpu_ok g \<Longrightarrow> logical_device g \<noteq> 0 \<Longrightarrow> gpu_ok (g\<lparr>descriptor_pool := h\<rparr>)"
  "gpu_ok g \<Longrightarrow> logical_device g \<noteq> 0 \<Longrightarrow> cmd_pool g = 0 \<Longrightarrow> gpu_ok (g\<lparr>cmd_pool := h\<rparr>)"
  by (auto simp: gpu_ok_def frame_ok_def split: option.splits)

lemma objects_update:
  "vk_instance g = 0 \<Longrightarrow> gpu_objects (g\<lparr>vk_instance := h\<rparr>) = gpu_objects g + handle_objects VkInstance h"
  "logical_device g = 0 \<Longrightarrow> gpu_objects (g\<lparr>logical_device := h\<rparr>) = gpu_objects g + handle_objects VkDevice h"
  "surface g = 0 \<Longrightarrow> gpu_objects (g\<lparr>surface := h\<rparr>) = gpu_objects g + handle_objects VkSurfaceKHR h"
  "swap_chain g = 0 \<Longrightarrow> gpu_objects (g\<lparr>swap_chain := h\<rparr>) = gpu_objects g + handle_objects VkSwapchainKHR h"
  "depth_stencil_image g = 0 \<Longrightarrow> gpu_objects (g\<lparr>depth_stencil_image := h\<rparr>) = gpu_objects g + handle_objects VkImage h"
  "depth_stencil_memory g = 0 \<Longrightarrow> gpu_objects (g\<lparr>depth_stencil_memory := h\<rparr>) = gpu_objects g + handle_objects VkDeviceMemory h"
  "depth_stencil_view g = 0 \<Longrightarrow> gpu_objects (g\<lparr>depth_stencil_view := h\<rparr>) = gpu_objects g + handle_objects VkImageView h"
  "render_pass g = 0 \<Longrightarrow> gpu_objects (g\<lparr>render_pass := h\<rparr>) = gpu_objects g + handle_objects VkRenderPass h"
  "present_complete_sema g = 0 \<Longrightarrow> gpu_objects (g\<lparr>present_complete_sema := h\<rparr>) = gpu_objects g + handle_objects VkSemaphore h"
  "render_complete_sema g = 0 \<Longrightarrow> gpu_objects (g\<lparr>render_complete_sema := h\<rparr>) = gpu_objects g + handle_objects VkSemaphore h"
  "descriptor_pool g = 0 \<Longrightarrow> gpu_objects (g\<lparr>descriptor_pool := h\<rparr>) = gpu_objects g + handle_objects VkDescriptorPool h"
  "cmd_pool g = 0 \<Longrightarrow> gpu_objects (g\<lparr>cmd_pool := h\<rparr>) = gpu_objects g + handle_objects VkCommandPool h"
  by (simp_all add: gpu_objects_def ac_simps)

lemma frame_made_steps:
  "frame_made 6 = frame_made 5" "frame_made 7 = frame_made 5" "frame_made 8 = frame_made 5" "frame_made 9 = frame_made 5"
  "frame_made 11 = frame_made 10" "frame_made 12 = frame_made 10" "frame_made 13 = frame_made 10" "frame_made 14 = frame_made 10"
  by (auto simp: frame_made_def fun_eq_iff split: option.splits)

lemmas section_simps = made_defs frames_made_def gpu_objects_in gpu_ok_update objects_update frame_made_steps

lemma section_instance:
  assumes "driver_ok D"
  shows "step_ok L (made 0) (create_instance D v) (made 1)"
  unfolding create_instance_def by (rule step_create [OF assms]) (simp_all add: section_simps)

lemma section_surface_object:
  assumes "driver_ok D"
  shows "step_ok L (made 2) (create_into D VkSurfaceKHR (\<lambda>g. [(VkInstance, vk_instance g)]) (\<lambda>g. [hwnd])
         (\<lambda>h g. Some (g\<lparr>surface := h\<rparr>))) (made 3)"
  by (rule step_create [OF assms]) (simp_all add: section_simps)

lemma section_render_pass:
  assumes "driver_ok D"
  shows "step_ok L (made 8) (create_render_pass D) (made 9)"
  unfolding create_render_pass_def by (rule step_create [OF assms]) (simp_all add: section_simps)

lemma section_sync:
  assumes "driver_ok D"
  shows "step_ok L (made 10) (create_sync D) (made 12)"
  unfolding create_sync_def
  by (rule step_and_then [where Q = "made 11"]; rule step_create [OF assms]) (simp_all add: section_simps)

lemma section_pools:
  assumes "driver_ok D"
  shows "step_ok L (made 12) (create_pools D) (made 14)"
  unfolding create_pools_def
  by (rule step_and_then [where Q = "made 13"]; rule step_create [OF assms]) (simp_all add: section_simps)

lemma section_depth_buffer:
  assumes D: "driver_ok D"
  shows "step_ok L (made 5) (create_depth_buffer D) (made 8)"
  unfolding create_depth_buffer_def
proof (rule step_and_then [where Q = "made 6"], goal_cases)
  case 1
  show ?case by (rule step_create [OF D]) (simp_all add: section_simps)
next
  case 2
  show ?case
  proof (rule step_and_then [where Q = "made 7"], goal_cases)
    case 1
    show ?case
      by (rule step_ask [where us = "\<lambda>g. [dev g, (VkImage, depth_stencil_image g)]" and ns = "\<lambda>g. []"])
        (simp add: section_simps, rule step_create [OF D], simp_all add: section_simps)
  next
    case 2
    show ?case
      by (rule step_and_then [OF step_check step_create [OF D]]) (simp_all add: section_simps)
  qed
qed

section \<open>The loops over the frames\<close>

definition frame_loop_at :: "nat \<Rightarrow> nat \<Rightarrow> nat \<Rightarrow> nat \<Rightarrow> 'a gpu_t_scheme \<Rightarrow> bool" where
  "frame_loop_at n m N j g \<longleftrightarrow> fields_made n g \<and> frames_made n j m g \<and> unat (frame_count g) = N"

lemma step_frame_loop:
  assumes "\<And>N i. i < N \<Longrightarrow> step_ok L (frame_loop_at n m N i) (body i) (frame_loop_at n m N (Suc i))"
  shows "step_ok L (\<lambda>g. fields_made n g \<and> frames_made n 0 m g) (frame_loop body) (made n)"
  unfolding step_ok_def
proof (intro allI impI)
  fix g :: gpu_create_t and l
  assume g: "fields_made n g \<and> frames_made n 0 m g" and o: "owned L g l"
  let ?N = "unat (frame_count g)"
  have "step_ok L (frame_loop_at n m ?N 0) (for_each body [0..<?N]) (frame_loop_at n m ?N ?N)"
    by (rule step_for_each [where J = "frame_loop_at n m ?N"]) (simp_all add: assms)
  moreover have "frame_loop_at n m ?N 0 g" using g by (simp add: frame_loop_at_def)
  ultimately obtain ok g' l' where "for_each body [0..<?N] g l = Some (ok, g', l')" "owned L g' l'"
    "ok \<longrightarrow> frame_loop_at n m ?N ?N g'"
    using o unfolding step_ok_def by blast
  moreover have "frame_loop_at n m ?N ?N g' \<Longrightarrow> made n g'"
    by (auto simp: frame_loop_at_def made_def frames_made_def)
  ultimately show "\<exists>ok g' l'. frame_loop body g l = Some (ok, g', l') \<and> owned L g' l' \<and> (ok \<longrightarrow> made n g')"
    by (auto simp: frame_loop_def)
qed

text \<open>Inside the loop: frame \<open>i\<close> satisfies \<open>Q\<close>.\<close>

definition frame_at ::
  "nat \<Rightarrow> nat \<Rightarrow> nat \<Rightarrow> nat \<Rightarrow> (gpu_frame_t \<Rightarrow> bool) \<Rightarrow> 'a gpu_t_scheme \<Rightarrow> bool" where
  "frame_at n m N i Q g \<longleftrightarrow> i < N \<and> fields_made n g \<and> unat (frame_count g) = N \<and>
     (\<exists>p fs. frames g = Some (p, fs) \<and> p \<noteq> 0 \<and> N \<le> length fs \<and> Q (fs ! i) \<and>
        (\<forall>k < N. k \<noteq> i \<longrightarrow> frame_made (if k < i then n else m) (fs ! k)) \<and>
        (\<forall>k < length fs. N \<le> k \<longrightarrow> fs ! k = zero_frame))"

lemma frame_at_start:
  "frame_loop_at n m N i g \<Longrightarrow> i < N \<Longrightarrow> 5 \<le> n \<Longrightarrow> frame_at n m N i (frame_made m) g"
  unfolding frame_loop_at_def frame_at_def
proof (elim conjE, intro conjI)
  assume i: "i < N" "5 \<le> n" and f: "fields_made n g" "frames_made n i m g" and N: "unat (frame_count g) = N"
  have "frames g \<noteq> None" using f(1) i(2) by (simp add: fields_made_def)
  then obtain p fs where fs: "frames g = Some (p, fs)" by auto
  with f(2) N have "\<forall>k < N. frame_made (if k < i then n else m) (fs ! k)" by (simp add: frames_made_def)
  then have "frame_made m (fs ! i)" using i(1) by fastforce
  with fs f(2) N i(1) show "\<exists>p fs. frames g = Some (p, fs) \<and> p \<noteq> 0 \<and> N \<le> length fs \<and> frame_made m (fs ! i) \<and>
        (\<forall>k < N. k \<noteq> i \<longrightarrow> frame_made (if k < i then n else m) (fs ! k)) \<and>
        (\<forall>k < length fs. N \<le> k \<longrightarrow> fs ! k = zero_frame)"
    by (intro exI [of _ p] exI [of _ fs]) (simp add: frames_made_def)
qed

lemma frame_at_end: "frame_at n m N i (frame_made n) g \<Longrightarrow> frame_loop_at n m N (Suc i) g"
  unfolding frame_loop_at_def frame_at_def
proof (elim conjE exE, intro conjI)
  fix p fs
  assume fs: "frames g = Some (p, fs)" "p \<noteq> 0" "N \<le> length fs" "frame_made n (fs ! i)"
    "\<forall>k < N. k \<noteq> i \<longrightarrow> frame_made (if k < i then n else m) (fs ! k)"
    "\<forall>k < length fs. N \<le> k \<longrightarrow> fs ! k = zero_frame" and N: "unat (frame_count g) = N"
  have "frame_made (if k < Suc i then n else m) (fs ! k)" if "k < N" for k
  proof (cases "k = i")
    case False
    with fs(5) that have "frame_made (if k < i then n else m) (fs ! k)" by blast
    moreover have "k < Suc i \<longleftrightarrow> k < i" using False by auto
    ultimately show ?thesis by simp
  qed (use fs(4) in simp)
  with fs N show "frames_made n (Suc i) m g" by (simp add: frames_made_def)
qed

lemma frame_at_put:
  assumes at: "frame_at n m N i Q g" and ok: "gpu_ok g"
  obtains f where "Q f" and "get_frame g i = Some f" and "frame_at n m N i (\<lambda>f'. f' = f) g"
    and "\<And>f' X R. frame_ok g f' \<Longrightarrow> frame_objects f' = frame_objects f + X \<Longrightarrow> R f' \<Longrightarrow>
      \<exists>g'. put_frame i f' g = Some g' \<and> gpu_ok g' \<and> gpu_objects g' = gpu_objects g + X \<and> frame_at n m N i R g' \<and>
        logical_device g' = logical_device g \<and> cmd_pool g' = cmd_pool g"
proof -
  obtain p fs where fs: "frames g = Some (p, fs)" "p \<noteq> 0" "N \<le> length fs" "Q (fs ! i)"
    "\<forall>k < N. k \<noteq> i \<longrightarrow> frame_made (if k < i then n else m) (fs ! k)"
    "\<forall>k < length fs. N \<le> k \<longrightarrow> fs ! k = zero_frame"
    and i: "i < N" "fields_made n g" "unat (frame_count g) = N"
    using at by (auto simp: frame_at_def)
  have "\<exists>g'. put_frame i f' g = Some g' \<and> gpu_ok g' \<and> gpu_objects g' = gpu_objects g + X \<and> frame_at n m N i R g' \<and>
        logical_device g' = logical_device g \<and> cmd_pool g' = cmd_pool g"
    if f': "frame_ok g f'" "frame_objects f' = frame_objects (fs ! i) + X" "R f'" for f' X R
  proof -
    let ?g = "g\<lparr>frames := Some (p, fs[i := f'])\<rparr>"
    have "put_frame i f' g = Some ?g" using fs(1,3) i(1) by (simp add: put_frame_def)
    moreover have "gpu_ok ?g" by (rule gpu_ok_put_frame [OF ok fs(1) _ f'(1)]) (use i in simp)
    moreover have "gpu_objects ?g = gpu_objects g + X"
      by (rule objects_put_frame [OF fs(1) _ f'(2)]) (use i fs(3) in simp)
    moreover have "fields_made n ?g" using i(2) fs(1) by (simp add: fields_made_def)
    then have "frame_at n m N i R ?g" using fs i f'(3) by (simp add: frame_at_def)
    ultimately show ?thesis by (intro exI [of _ ?g]) simp
  qed
  moreover have "get_frame g i = Some (fs ! i)" using fs(1,3) i(1) by (simp add: get_frame_def)
  moreover have "frame_at n m N i (\<lambda>f'. f' = fs ! i) g" using fs i by (simp add: frame_at_def)
  ultimately show ?thesis using that fs(4) by blast
qed

lemma frame_at_in:
  assumes "frame_at n m N i (\<lambda>f'. f' = f) g" and "fr_view f \<noteq> 0"
  shows "(VkImageView, fr_view f) \<in># gpu_objects g"
  using assms by (auto simp: frame_at_def intro!: frame_view_in)

lemma step_create_in_frame:
  assumes D: "driver_ok D" and k: "k \<noteq> HeapBlock"
    and us: "\<And>f (g :: gpu_create_t). Q f \<Longrightarrow> frame_at n m N i (\<lambda>f'. f' = f) g \<Longrightarrow> set (us f g) \<subseteq> set_mset (gpu_objects g)"
    and upd: "\<And>f h. Q f \<Longrightarrow> frame_objects (upd h f) = frame_objects f + handle_objects k h"
      "\<And>f h (g :: gpu_create_t). Q f \<Longrightarrow> frame_at n m N i (\<lambda>f'. f' = f) g \<Longrightarrow> frame_ok g (upd h f)"
      "\<And>f h. Q f \<Longrightarrow> h \<noteq> 0 \<Longrightarrow> R (upd h f)"
  shows "step_ok L (frame_at n m N i Q) (create_in_frame D i k us ns upd) (frame_at n m N i R)"
  unfolding step_ok_def
proof (intro allI impI)
  fix g :: gpu_create_t and l
  assume at: "frame_at n m N i Q g" and o: "owned L g l"
  have ok: "gpu_ok g" using o by (simp add: owned_def)
  obtain f where f: "Q f" "get_frame g i = Some f" "frame_at n m N i (\<lambda>f'. f' = f) g"
    and put: "\<And>f' X R. frame_ok g f' \<Longrightarrow> frame_objects f' = frame_objects f + X \<Longrightarrow> R f' \<Longrightarrow>
      \<exists>g'. put_frame i f' g = Some g' \<and> gpu_ok g' \<and> gpu_objects g' = gpu_objects g + X \<and> frame_at n m N i R g' \<and>
        logical_device g' = logical_device g \<and> cmd_pool g' = cmd_pool g"
    using frame_at_put [OF at ok] by metis
  have "step_ok L (\<lambda>g'. g' = g) (create_into D k (us f) (ns f) (\<lambda>h g. put_frame i (upd h f) g)) (frame_at n m N i R)"
  proof (rule step_create [OF D k])
    fix g' h
    assume "g' = g"
    then show "\<exists>g''. put_frame i (upd h f) g' = Some g'' \<and> gpu_ok g'' \<and> gpu_objects g'' = gpu_objects g' + handle_objects k h \<and>
        (h \<noteq> 0 \<longrightarrow> frame_at n m N i R g'')"
      using put [OF upd(2) [OF f(1,3)] upd(1) [OF f(1)], where R = "\<lambda>f'. h \<noteq> 0 \<longrightarrow> R f'" and h1 = h] upd(3) [OF f(1)]
      by (cases "h = 0") auto
  qed (use us [OF f(1,3)] in simp)
  with o f(2) show "\<exists>ok g' l'. create_in_frame D i k us ns upd g l = Some (ok, g', l') \<and> owned L g' l' \<and>
      (ok \<longrightarrow> frame_at n m N i R g')"
    by (simp add: step_ok_def create_in_frame_def)
qed

lemma frame_ok_same:
  "frame_ok g f \<Longrightarrow> frame_ok g (f\<lparr>frame_buffer := h\<rparr>)"
  "frame_ok g f \<Longrightarrow> frame_ok g (f\<lparr>fr_view := h\<rparr>)"
  "frame_ok g f \<Longrightarrow> frame_ok g (f\<lparr>fence := h\<rparr>)"
  "frame_ok g f \<Longrightarrow> frame_ok g (f\<lparr>fr_image := h\<rparr>)"
  by (simp_all add: frame_ok_def)

lemma frame_at_made_ok: "frame_at n m N i Q g \<Longrightarrow> frame_made k f \<Longrightarrow> k < 15 \<or> 14 \<le> n \<Longrightarrow> frame_ok g f"
  by (auto simp: frame_at_def fields_made_def frame_made_def frame_ok_def split: option.splits)

lemma frame_at_fields: "frame_at n m N i Q g \<Longrightarrow> fields_made n g"
  by (simp add: frame_at_def)

lemma section_frame_buffers:
  assumes D: "driver_ok D"
  shows "step_ok L (made 9) (create_frame_buffers D) (made 10)"
proof (rule step_weaken)
  show "step_ok L (\<lambda>g. fields_made 10 g \<and> frames_made 10 0 9 g) (create_frame_buffers D) (made 10)"
    unfolding create_frame_buffers_def
  proof (rule step_frame_loop)
    fix N i :: nat
    assume i: "i < N"
    have "step_ok L (frame_at 10 9 N i (frame_made 9))
       (create_in_frame D i VkFramebuffer
       (\<lambda>f g. [dev g, (VkRenderPass, render_pass g), (VkImageView, fr_view f), (VkImageView, depth_stencil_view g)])
       (\<lambda>f g. [unat (frame_width g), unat (frame_height g)]) (\<lambda>h f. f\<lparr>frame_buffer := h\<rparr>))
       (frame_at 10 9 N i (frame_made 10))"
    proof (rule step_create_in_frame [OF D])
      fix f :: gpu_frame_t and g :: gpu_create_t
      assume "frame_made 9 f" "frame_at 10 9 N i (\<lambda>f'. f' = f) g"
      with frame_at_in [OF this(2)] frame_at_fields [OF this(2)]
      show "set [dev g, (VkRenderPass, render_pass g), (VkImageView, fr_view f), (VkImageView, depth_stencil_view g)]
          \<subseteq> set_mset (gpu_objects g)"
        by (simp add: fields_made_def frame_made_def gpu_objects_in)
    qed (auto simp: frame_made_def frame_objects_def ac_simps intro!: frame_ok_same dest: frame_at_made_ok [where k = 9] split: option.splits)
    then show "step_ok L (frame_loop_at 10 9 N i) (create_in_frame D i VkFramebuffer
       (\<lambda>f g. [dev g, (VkRenderPass, render_pass g), (VkImageView, fr_view f), (VkImageView, depth_stencil_view g)])
       (\<lambda>f g. [unat (frame_width g), unat (frame_height g)]) (\<lambda>h f. f\<lparr>frame_buffer := h\<rparr>)) (frame_loop_at 10 9 N (Suc i))"
      by (rule step_weaken) (use i in \<open>simp_all add: frame_at_start frame_at_end\<close>)
  qed
qed (simp_all add: made_def fields_made_def frames_made_def)

text \<open>A frame whose command buffer struct exists, with (\<open>b\<close>) or without its Vulkan object.\<close>

definition cmd_frame :: "bool \<Rightarrow> gpu_frame_t \<Rightarrow> bool" where
  "cmd_frame b f \<longleftrightarrow> fr_view f \<noteq> 0 \<and> frame_buffer f \<noteq> 0 \<and> fence f = 0 \<and>
     (\<exists>cb. cmd_buffer f = Some cb \<and> cb_addr cb \<noteq> 0 \<and> (cb_buffer cb \<noteq> 0 \<longleftrightarrow> b))"

lemma step_alloc_cmd_buffer:
  assumes D: "driver_ok D"
  shows "step_ok L (frame_at 15 14 N i (frame_made 14)) (alloc_cmd_buffer D i) (frame_at 15 14 N i (cmd_frame False))"
  unfolding step_ok_def
proof (intro allI impI)
  fix g :: gpu_create_t and l
  assume at: "frame_at 15 14 N i (frame_made 14) g" and o: "owned L g l"
  let ?c = "VkCreate HeapBlock [] [24]"
  have ok: "gpu_ok g" using o by (simp add: owned_def)
  obtain f where f: "frame_made 14 f" "get_frame g i = Some f"
    and put: "\<And>f' X R. frame_ok g f' \<Longrightarrow> frame_objects f' = frame_objects f + X \<Longrightarrow> R f' \<Longrightarrow>
      \<exists>g'. put_frame i f' g = Some g' \<and> gpu_ok g' \<and> gpu_objects g' = gpu_objects g + X \<and> frame_at 15 14 N i R g' \<and>
        logical_device g' = logical_device g \<and> cmd_pool g' = cmd_pool g"
    using frame_at_put [OF at ok] by metis
  let ?v = "vk_value (D l ?c)"
  let ?f = "f\<lparr>cmd_buffer := Some \<lparr>cb_addr = ?v, cb_buffer = 0, cb_pipeline_layout = 0,
     cb_index_count = 0, cb_vertex_count = 0\<rparr>\<rparr>"
  have v: "?v \<noteq> 0" by (rule driver_heap [OF D])
  have c: "cmd_buffer f = None" using f(1) by (auto simp: frame_made_def split: option.splits)
  have "frame_ok g ?f" using v at by (simp add: frame_ok_def frame_at_def fields_made_def)
  moreover have "frame_objects ?f = frame_objects f + handle_objects HeapBlock ?v"
    by (simp add: frame_objects_def cmd_buffer_objects_def c ac_simps)
  moreover have "cmd_frame False ?f" using f(1) v by (simp add: frame_made_def cmd_frame_def)
  ultimately obtain g' where g': "put_frame i ?f g = Some g'" "gpu_ok g'"
    "gpu_objects g' = gpu_objects g + handle_objects HeapBlock ?v" "frame_at 15 14 N i (cmd_frame False) g'"
    using put [of ?f "handle_objects HeapBlock ?v" "cmd_frame False"] by blast
  have "owned L g' (l @ [(?c, D l ?c)])" by (rule owned_create [OF D o _ g'(3,2)]) simp
  moreover have "alloc_cmd_buffer D i g l = Some (True, g', l @ [(?c, D l ?c)])"
    using g'(1) v f(2) by (simp add: alloc_cmd_buffer_def issue_def Let_def)
  ultimately show "\<exists>ok g' l'. alloc_cmd_buffer D i g l = Some (ok, g', l') \<and> owned L g' l' \<and>
      (ok \<longrightarrow> frame_at 15 14 N i (cmd_frame False) g')"
    using g'(4) by blast
qed

lemma step_cmd_buffer:
  assumes D: "driver_ok D"
  shows "step_ok L (frame_at 15 14 N i (cmd_frame False)) (create_in_frame D i VkCommandBuffer (\<lambda>f g. [dev g, (VkCommandPool, cmd_pool g)]) (\<lambda>f g. [])
      (\<lambda>h f. f\<lparr>cmd_buffer := map_option (\<lambda>cb. cb\<lparr>cb_buffer := h\<rparr>) (cmd_buffer f)\<rparr>)) (frame_at 15 14 N i (cmd_frame True))"
proof (rule step_create_in_frame [OF D])
  fix f :: gpu_frame_t and g :: gpu_create_t
  assume "frame_at 15 14 N i (\<lambda>f'. f' = f) g"
  then show "set [dev g, (VkCommandPool, cmd_pool g)] \<subseteq> set_mset (gpu_objects g)"
    by (simp add: frame_at_def fields_made_def gpu_objects_in)
next
  fix f :: gpu_frame_t and h :: nat
  assume "cmd_frame False f"
  then obtain cb where cb: "cmd_buffer f = Some cb" "cb_buffer cb = 0" by (auto simp: cmd_frame_def)
  show "frame_objects (f\<lparr>cmd_buffer := map_option (\<lambda>cb. cb\<lparr>cb_buffer := h\<rparr>) (cmd_buffer f)\<rparr>) =
      frame_objects f + handle_objects VkCommandBuffer h"
    by (simp add: frame_objects_def cmd_buffer_objects_def cb ac_simps)
next
  fix f :: gpu_frame_t and h :: nat and g :: gpu_create_t
  assume "cmd_frame False f" and at: "frame_at 15 14 N i (\<lambda>f'. f' = f) g"
  then obtain cb where cb: "cmd_buffer f = Some cb" "cb_addr cb \<noteq> 0" by (auto simp: cmd_frame_def)
  have "cmd_pool g \<noteq> 0" using at by (simp add: frame_at_def fields_made_def)
  then show "frame_ok g (f\<lparr>cmd_buffer := map_option (\<lambda>cb. cb\<lparr>cb_buffer := h\<rparr>) (cmd_buffer f)\<rparr>)"
    by (simp add: frame_ok_def cb)
next
  fix f :: gpu_frame_t and h :: nat
  assume "cmd_frame False f" "h \<noteq> 0"
  then show "cmd_frame True (f\<lparr>cmd_buffer := map_option (\<lambda>cb. cb\<lparr>cb_buffer := h\<rparr>) (cmd_buffer f)\<rparr>)" by (auto simp: cmd_frame_def)
qed simp

lemma step_fence:
  assumes D: "driver_ok D"
  shows "step_ok L (frame_at 15 14 N i (cmd_frame True)) (create_in_frame D i VkFence (\<lambda>f g. [dev g]) (\<lambda>f g. [1]) (\<lambda>h f. f\<lparr>fence := h\<rparr>)) (frame_at 15 14 N i (frame_made 15))"
proof (rule step_create_in_frame [OF D])
  fix f :: gpu_frame_t and g :: gpu_create_t
  assume "frame_at 15 14 N i (\<lambda>f'. f' = f) g"
  then show "set [dev g] \<subseteq> set_mset (gpu_objects g)"
    by (simp add: frame_at_def fields_made_def gpu_objects_in)
next
  fix f :: gpu_frame_t and h :: nat
  assume "cmd_frame True f"
  then show "frame_objects (f\<lparr>fence := h\<rparr>) = frame_objects f + handle_objects VkFence h"
    by (simp add: frame_objects_def cmd_frame_def ac_simps)
next
  fix f :: gpu_frame_t and h :: nat and g :: gpu_create_t
  assume "cmd_frame True f" and at: "frame_at 15 14 N i (\<lambda>f'. f' = f) g"
  then obtain cb where cb: "cmd_buffer f = Some cb" "cb_addr cb \<noteq> 0" by (auto simp: cmd_frame_def)
  have "cmd_pool g \<noteq> 0" using at by (simp add: frame_at_def fields_made_def)
  then show "frame_ok g (f\<lparr>fence := h\<rparr>)" by (simp add: frame_ok_def cb)
next
  fix f :: gpu_frame_t and h :: nat
  assume "cmd_frame True f" "h \<noteq> 0"
  then show "frame_made 15 (f\<lparr>fence := h\<rparr>)" by (auto simp: frame_made_def cmd_frame_def)
qed simp

lemma section_cmd_buffers:
  assumes D: "driver_ok D"
  shows "step_ok L (made 14) (create_cmd_buffers D) (made 15)"
proof (rule step_weaken)
  show "step_ok L (\<lambda>g. fields_made 15 g \<and> frames_made 15 0 14 g) (create_cmd_buffers D) (made 15)"
    unfolding create_cmd_buffers_def
  proof (rule step_frame_loop)
    fix N i :: nat
    assume i: "i < N"
    let ?buffer = "create_in_frame D i VkCommandBuffer (\<lambda>f g. [dev g, (VkCommandPool, cmd_pool g)]) (\<lambda>f g. [])
           (\<lambda>h f. f\<lparr>cmd_buffer := map_option (\<lambda>cb. cb\<lparr>cb_buffer := h\<rparr>) (cmd_buffer f)\<rparr>)"
    let ?fence = "create_in_frame D i VkFence (\<lambda>f g. [dev g]) (\<lambda>f g. [1]) (\<lambda>h f. f\<lparr>fence := h\<rparr>)"
    have "step_ok L (frame_at 15 14 N i (frame_made 14)) (and_then (alloc_cmd_buffer D i) (and_then ?buffer ?fence))
        (frame_at 15 14 N i (frame_made 15))"
      by (rule step_and_then [OF step_alloc_cmd_buffer [OF D] step_and_then [OF step_cmd_buffer [OF D] step_fence [OF D]]])
    then show "step_ok L (frame_loop_at 15 14 N i) (and_then (alloc_cmd_buffer D i) (and_then ?buffer ?fence))
        (frame_loop_at 15 14 N (Suc i))"
      by (rule step_weaken) (use i in \<open>simp_all add: frame_at_start frame_at_end\<close>)
  qed
qed (simp_all add: made_def fields_made_def frames_made_def)

text \<open>Fields that have no part in the lifetimes.\<close>

lemma owned_other_fields:
  "owned L (g\<lparr>physical_device := pd\<rparr>) l \<longleftrightarrow> owned L g l"
  "owned L (g\<lparr>queue_family_index := x\<rparr>) l \<longleftrightarrow> owned L g l"
  "owned L (g\<lparr>memory_properties := ms\<rparr>) l \<longleftrightarrow> owned L g l"
  "owned L (g\<lparr>gpu_queue := q\<rparr>) l \<longleftrightarrow> owned L g l"
  "owned L (g\<lparr>frame_width := x, frame_height := y, surface_min_images := z\<rparr>) l \<longleftrightarrow> owned L g l"
  by (simp_all add: owned_def gpu_ok_def frame_ok_def gpu_objects_def cong: option.case_cong)

lemma made_other_fields:
  "made n (g\<lparr>physical_device := pd\<rparr>) \<longleftrightarrow> made n g"
  "made n (g\<lparr>queue_family_index := x\<rparr>) \<longleftrightarrow> made n g"
  "made n (g\<lparr>memory_properties := ms\<rparr>) \<longleftrightarrow> made n g"
  "made n (g\<lparr>gpu_queue := q\<rparr>) \<longleftrightarrow> made n g"
  "made n (g\<lparr>frame_width := x, frame_height := y, surface_min_images := z\<rparr>) \<longleftrightarrow> made n g"
  by (simp_all add: made_defs frames_made_def)

lemma section_physical_device:
  assumes D: "driver_ok D"
  shows "step_ok L (made 1) (find_physical_device D) (made 1)"
  unfolding step_ok_def
proof (intro allI impI)
  fix g :: gpu_create_t and l
  assume m: "made 1 g" and o: "owned L g l"
  let ?us = "[(VkInstance, vk_instance g)]"
  let ?a1 = "D l (VkDo vkEnumeratePhysicalDevices ?us [])"
  let ?l1 = "l @ [(VkDo vkEnumeratePhysicalDevices ?us [], ?a1)]"
  let ?a2 = "D ?l1 (VkDo vkEnumeratePhysicalDevices ?us [vk_value ?a1])"
  let ?l2 = "?l1 @ [(VkDo vkEnumeratePhysicalDevices ?us [vk_value ?a1], ?a2)]"
  have us: "set ?us \<subseteq> set_mset (gpu_objects g)" using m by (simp add: made_defs gpu_objects_in)
  note o1 = owned_ask [OF o us] and o2 = owned_ask [OF owned_ask [OF o us] us]
  have run: "find_physical_device D g l =
      (if vk_result ?a1 \<noteq> 0 \<or> vk_value ?a1 = 0 then Some (False, g, ?l1)
       else if vk_result ?a2 \<noteq> 0 then Some (False, g, ?l2)
       else arr_get (vk_handles ?a2) 0 \<bind> (\<lambda>p. Some (True, g\<lparr>physical_device := p\<rparr>, ?l2)))"
    by (simp add: find_physical_device_def issue_def Let_def)
  show "\<exists>ok g' l'. find_physical_device D g l = Some (ok, g', l') \<and> owned L g' l' \<and> (ok \<longrightarrow> made 1 g')"
  proof (cases "vk_result ?a1 \<noteq> 0 \<or> vk_value ?a1 = 0")
    case True
    with o1 show ?thesis unfolding run by auto
  next
    case f1: False
    show ?thesis
    proof (cases "vk_result ?a2 = 0")
      case True
      then have "vk_handles ?a2 \<noteq> []" using D unfolding driver_ok_def by blast
      then have "arr_get (vk_handles ?a2) 0 = Some (hd (vk_handles ?a2))" by (simp add: hd_conv_nth)
      with True f1 have "find_physical_device D g l = Some (True, g\<lparr>physical_device := hd (vk_handles ?a2)\<rparr>, ?l2)"
        unfolding run by simp
      moreover have "owned L (g\<lparr>physical_device := hd (vk_handles ?a2)\<rparr>) ?l2"
        using o2 by (simp add: owned_other_fields)
      moreover have "made 1 (g\<lparr>physical_device := hd (vk_handles ?a2)\<rparr>)"
        using m by (simp add: made_other_fields)
      ultimately show ?thesis by blast
    next
      case False
      with f1 o2 show ?thesis unfolding run by auto
    qed
  qed
qed

lemma section_device:
  assumes D: "driver_ok D"
  shows "step_ok L (made 1) (create_device D) (made 2)"
  unfolding step_ok_def
proof (intro allI impI)
  fix g :: gpu_create_t and l
  assume m: "made 1 g" and o: "owned L g l"
  let ?f = vkGetPhysicalDeviceQueueFamilyProperties
  define l1 where "l1 = l @ [(VkDo ?f [] [physical_device g], D l (VkDo ?f [] [physical_device g]))]"
  define c2 where "c2 = VkDo ?f [] [physical_device g, vk_value (D l (VkDo ?f [] [physical_device g]))]"
  define l2 where "l2 = l1 @ [(c2, D l1 c2)]"
  define family count where "family = fst (find_queue_family (vk_families (D l1 c2)))"
    and "count = snd (find_queue_family (vk_families (D l1 c2)))"
  define g1 where "g1 = g\<lparr>queue_family_index := family\<rparr>"
  define c3 where "c3 = VkCreate VkDevice [] [physical_device g, unat family, unat count]"
  define g2 where "g2 = g1\<lparr>logical_device := vk_value (D l2 c3)\<rparr>"
  define l3 where "l3 = l2 @ [(c3, D l2 c3)]"
  have o2: "owned L g1 l2"
    unfolding l2_def l1_def c2_def g1_def owned_other_fields by (intro owned_ask o) simp_all
  have m1: "made 1 g1" using m by (simp add: g1_def made_other_fields)
  have "gpu_ok g1" using o2 by (simp add: owned_def)
  then have "gpu_ok g2" using m1 by (auto simp: g2_def made_defs gpu_ok_def frame_ok_def)
  moreover have "gpu_objects g2 = gpu_objects g1 + handle_objects VkDevice (vk_value (D l2 c3))"
    using m1 by (simp add: g2_def made_defs objects_update)
  ultimately have o3: "owned L g2 l3"
    unfolding l3_def c3_def using owned_create [OF D o2, where k = VkDevice and us = "[]"] by (simp add: c3_def)
  let ?done = "\<lambda>r. \<exists>ok g' l'. r = Some (ok, g', l') \<and> owned L g' l' \<and> (ok \<longrightarrow> made 2 g')"
  have run: "create_device D g l = (if count = - 1 then Some (False, g1, l2)
      else if vk_result (D l2 c3) \<noteq> 0 then Some (False, g2, l3)
      else let (a, l) = issue D (VkDo vkGetPhysicalDeviceMemoryProperties [] [physical_device g]) l3;
               (a', l) = issue D (VkDo vkGetDeviceQueue [dev g2] [unat family]) l
           in Some (True, g2\<lparr>memory_properties := vk_memory_types a, gpu_queue := vk_value a'\<rparr>, l))"
    by (simp add: create_device_def issue_def Let_def l1_def [symmetric] c2_def [symmetric] l2_def [symmetric]
        family_def [symmetric] count_def [symmetric] case_prod_beta g1_def g2_def c3_def l3_def)
  show "?done (create_device D g l)"
  proof (cases "count = - 1 \<or> vk_result (D l2 c3) \<noteq> 0")
    case True
    with o2 o3 show ?thesis unfolding run by auto
  next
    case False
    have "vk_value (D l2 c3) \<noteq> 0" using D False unfolding driver_ok_def c3_def by (metis vk_kind.distinct(3))
    then have m2: "made 2 g2" using m1 by (simp add: g2_def made_defs frames_made_def)
    have d: "set [dev g2] \<subseteq> set_mset (gpu_objects g2)" using m2 by (simp add: made_defs gpu_objects_in)
    have "owned L (g2\<lparr>memory_properties := ms, gpu_queue := q\<rparr>) (l3 @ [(VkDo f [] ns, a)] @ [(VkDo f' [dev g2] ns', a')])"
      for ms q f ns a f' ns' a'
      using owned_ask [OF owned_ask [OF o3, of "[]"] d] by (simp add: owned_other_fields)
    moreover have "made 2 (g2\<lparr>memory_properties := ms, gpu_queue := q\<rparr>)" for ms q
      using m2 by (simp add: made_other_fields)
    ultimately show ?thesis using False unfolding run by (auto simp: issue_def Let_def)
  qed
qed

lemma section_surface:
  assumes D: "driver_ok D"
  shows "step_ok L (made 2) (create_surface D hwnd) (made 3)"
  unfolding create_surface_def
proof (rule step_and_then [OF section_surface_object [OF D]])
  let ?s = "\<lambda>a g l. if vk_result a \<noteq> 0 then Some (False, g, l)
      else Some (True, g\<lparr>frame_width := fst (vk_extent a), frame_height := snd (vk_extent a),
        surface_min_images := vk_min_images a\<rparr>, l)"
  have "step_ok L (made 3) (?s a) (made 3)" for a
    by (cases "vk_result a = 0") (auto simp: step_ok_def owned_other_fields made_other_fields)
  from step_ask [where us = "\<lambda>g. [(VkSurfaceKHR, surface g)]" and ns = "\<lambda>g. [physical_device g]" and D = D
      and f = vkGetPhysicalDeviceSurfaceCapabilitiesKHR, OF _ this]
  show "step_ok L (made 3) (\<lambda>g l. let (a, l) = issue D (VkDo vkGetPhysicalDeviceSurfaceCapabilitiesKHR
      [(VkSurfaceKHR, surface g)] [physical_device g]) l in ?s a g l) (made 3)"
    by (simp add: made_defs gpu_objects_in)
qed

lemma section_frames_loop:
  assumes D: "driver_ok D"
  shows "step_ok L (\<lambda>g. fields_made 5 g \<and> frames_made 5 0 4 g \<and> unat (frame_count g) \<le> length images)
    (frame_loop (\<lambda>i. and_then (set_image images i)
       (create_in_frame D i VkImageView (\<lambda>f g. [dev g]) (\<lambda>f g. [fr_image f]) (\<lambda>h f. f\<lparr>fr_view := h\<rparr>)))) (made 5)"
proof -
  let ?view = "\<lambda>i. create_in_frame D i VkImageView (\<lambda>f g. [dev g]) (\<lambda>f g. [fr_image f]) (\<lambda>h f. f\<lparr>fr_view := h\<rparr>)"
  have image: "step_ok L (frame_at 5 4 N i (frame_made 4)) (set_image images i) (frame_at 5 4 N i (frame_made 4))"
    if "i < length images" for N i
    unfolding step_ok_def
  proof (intro allI impI)
    fix g :: gpu_create_t and l
    assume at: "frame_at 5 4 N i (frame_made 4) g" and o: "owned L g l"
    have ok: "gpu_ok g" using o by (simp add: owned_def)
    obtain f where f: "frame_made 4 f" "get_frame g i = Some f"
      and put: "\<And>f' X R. frame_ok g f' \<Longrightarrow> frame_objects f' = frame_objects f + X \<Longrightarrow> R f' \<Longrightarrow>
        \<exists>g'. put_frame i f' g = Some g' \<and> gpu_ok g' \<and> gpu_objects g' = gpu_objects g + X \<and> frame_at 5 4 N i R g' \<and>
          logical_device g' = logical_device g \<and> cmd_pool g' = cmd_pool g"
      using frame_at_put [OF at ok] by metis
    let ?f = "f\<lparr>fr_image := images ! i\<rparr>"
    have "frame_ok g ?f" using frame_at_made_ok [OF at f(1)] by (simp add: frame_ok_same)
    moreover have "frame_objects ?f = frame_objects f + {#}" by (simp add: frame_objects_def)
    moreover have "frame_made 4 ?f" using f(1) by (simp add: frame_made_def)
    ultimately obtain g' where g': "put_frame i ?f g = Some g'" "gpu_ok g'" "gpu_objects g' = gpu_objects g + {#}"
      "frame_at 5 4 N i (frame_made 4) g'"
      using put [of ?f "{#}" "frame_made 4"] by blast
    have "owned L g' l" using o g'(2,3) by (simp add: owned_def)
    moreover have "set_image images i g l = Some (True, g', l)"
      using that f(2) g'(1) by (simp add: set_image_def)
    ultimately show "\<exists>ok g' l'. set_image images i g l = Some (ok, g', l') \<and> owned L g' l' \<and>
        (ok \<longrightarrow> frame_at 5 4 N i (frame_made 4) g')"
      using g'(4) by blast
  qed
  have view: "step_ok L (frame_at 5 4 N i (frame_made 4)) (?view i) (frame_at 5 4 N i (frame_made 5))" for N i
  proof (rule step_create_in_frame [OF D])
    fix f :: gpu_frame_t and g :: gpu_create_t
    assume "frame_at 5 4 N i (\<lambda>f'. f' = f) g"
    then show "set [dev g] \<subseteq> set_mset (gpu_objects g)"
      by (simp add: frame_at_def fields_made_def gpu_objects_in)
  qed (auto simp: frame_made_def frame_objects_def ac_simps intro!: frame_ok_same dest: frame_at_made_ok [where k = 4]
      split: option.splits)
  have body: "step_ok L (frame_loop_at 5 4 N i) (and_then (set_image images i) (?view i)) (frame_loop_at 5 4 N (Suc i))"
    if "i < N" "N \<le> length images" for N i
    by (rule step_weaken [OF step_and_then [OF image [where N = N and i = i] view [where N = N and i = i]]]) (use that in \<open>simp_all add: frame_at_start frame_at_end\<close>)
  show ?thesis
    unfolding step_ok_def
  proof (intro allI impI, elim conjE)
    fix g :: gpu_create_t and l
    assume g: "fields_made 5 g" "frames_made 5 0 4 g" "unat (frame_count g) \<le> length images" and o: "owned L g l"
    let ?N = "unat (frame_count g)"
    let ?body = "\<lambda>i. and_then (set_image images i) (?view i)"
    have "step_ok L (frame_loop_at 5 4 ?N 0) (for_each ?body [0..<?N]) (frame_loop_at 5 4 ?N ?N)"
      by (rule step_for_each [where J = "frame_loop_at 5 4 ?N"]) (use body g(3) in simp_all)
    moreover have "frame_loop_at 5 4 ?N 0 g" using g by (simp add: frame_loop_at_def)
    ultimately obtain ok g' l' where "for_each ?body [0..<?N] g l = Some (ok, g', l')" "owned L g' l'"
      "ok \<longrightarrow> frame_loop_at 5 4 ?N ?N g'"
      using o unfolding step_ok_def by blast
    moreover have "frame_loop_at 5 4 ?N ?N g' \<Longrightarrow> made 5 g'"
      by (auto simp: frame_loop_at_def made_def frames_made_def)
    ultimately show "\<exists>ok g' l'. frame_loop ?body g l = Some (ok, g', l') \<and> owned L g' l' \<and> (ok \<longrightarrow> made 5 g')"
      by (auto simp: frame_loop_def)
  qed
qed

end
