(* ===== verification/Gpu_Life.thy ===== *)
theory Gpu_Life
  imports Gpu_Create
begin

text \<open>
  \<^verbatim>\<open>gpu_create\<close> and \<^verbatim>\<open>gpu_destroy\<close> as a whole: whichever call fails, nothing is left over, and a
  created GPU is complete.
\<close>

section \<open>The frames\<close>

lemma zero_frame_made [simp]: "frame_made 4 zero_frame"
  by (simp add: frame_made_def zero_frame_def)

lemma section_frames:
  assumes D: "driver_ok D"
  shows "step_ok L (made 4) (create_swapchain_frames D) (made 5)"
  unfolding step_ok_def
proof (intro allI impI)
  fix g :: gpu_create_t and l
  assume m: "made 4 g" and o: "owned L g l"
  let ?us = "[dev g, (VkSwapchainKHR, swap_chain g)]"
  define a1 where "a1 = D l (VkDo vkGetSwapchainImagesKHR ?us [])"
  define l1 where "l1 = l @ [(VkDo vkGetSwapchainImagesKHR ?us [], a1)]"
  define g1 where "g1 = g\<lparr>frame_count := word_of_nat (vk_value a1)\<rparr>"
  define n where "n = unat (frame_count g1)"
  define p where "p = vk_value (D l1 (VkCreate HeapBlock [] [40 * n]))"
  define l2 where "l2 = l1 @ [(VkCreate HeapBlock [] [40 * n], D l1 (VkCreate HeapBlock [] [40 * n]))]"
  define g2 where "g2 = g1\<lparr>frames := Some (p, replicate n zero_frame)\<rparr>"
  define a3 where "a3 = D l2 (VkDo vkGetSwapchainImagesKHR ?us [n])"
  define l3 where "l3 = l2 @ [(VkDo vkGetSwapchainImagesKHR ?us [n], a3)]"
  define g3 where "g3 = g2\<lparr>frame_count := word_of_nat (vk_value a3)\<rparr>"
  have us: "set ?us \<subseteq> set_mset (gpu_objects g)" using m by (simp add: made_defs gpu_objects_in)
  have none: "frames g = None" using m by (cases "frames g") (auto simp: made_defs)
  have "owned L g l1" unfolding l1_def by (rule owned_ask [OF o us])
  then have o1: "owned L g1 l1" using none by (simp add: owned_def g1_def gpu_ok_def gpu_objects_def)
  have p: "p \<noteq> 0" unfolding p_def by (rule driver_heap [OF D])
  have n': "vk_value a3 \<le> n" "vk_value a3 \<le> length (vk_handles a3)"
    using D unfolding driver_ok_def a3_def by blast+
  have "n < 2 ^ 32" unfolding n_def using unsigned_less [of "frame_count g1"] by simp
  then have c3: "unat (frame_count g3) = vk_value a3" using n'(1) by (simp add: g3_def unat_of_nat)
  have f3: "fields_made 5 g3" using m p by (simp add: made_defs fields_made_def g3_def g2_def g1_def)
  have fr3: "frames_made 5 0 4 g3"
    using p n'(1) c3 by (simp add: frames_made_def) (simp add: g3_def g2_def)
  have ok1: "gpu_ok g1" using o1 by (simp add: owned_def)
  have fr0: "frame_ok (g :: gpu_create_t) zero_frame" for g by (simp add: frame_ok_def zero_frame_def)
  have ok2: "gpu_ok g2" and ok3: "gpu_ok g3"
    using ok1 p m n'(1) c3 by (auto simp: gpu_ok_def g2_def g3_def g1_def n_def made_defs fr0)
  have "gpu_objects g2 = gpu_objects g1 + handle_objects HeapBlock p"
    using none zero_frames_objects [of "replicate n zero_frame"]
    by (simp add: gpu_objects_def g2_def g1_def frames_objects_def ac_simps del: map_replicate)
  then have o2: "owned L g2 l2"
    unfolding l2_def p_def by (intro owned_create [OF D o1 _ _ ok2]) simp_all
  have "set ?us \<subseteq> set_mset (gpu_objects g2)" using m
    by (simp add: made_defs g2_def g1_def gpu_objects_def)
  then have "owned L g2 l3" unfolding l3_def by (rule owned_ask [OF o2])
  moreover have "gpu_objects g3 = gpu_objects g2" by (simp add: gpu_objects_def g3_def)
  ultimately have o3: "owned L g3 l3" using ok3 by (simp add: owned_def)
  let ?loop = "frame_loop (\<lambda>i. and_then (set_image (vk_handles a3) i)
             (create_in_frame D i VkImageView (\<lambda>f g. [dev g]) (\<lambda>f g. [fr_image f])
               (\<lambda>h f. f\<lparr>fr_view := h\<rparr>)))"
  have run: "create_swapchain_frames D g l =
      (if vk_result a1 \<noteq> 0 then Some (False, g1, l1)
       else if vk_result a3 \<noteq> 0 then Some (False, g3, l3) else ?loop g3 l3)"
  proof -
    have d: "dev g1 = dev g" "swap_chain g1 = swap_chain g" "dev g2 = dev g" "swap_chain g2 = swap_chain g"
      by (simp_all add: g1_def g2_def)
    show ?thesis
      unfolding create_swapchain_frames_def issue_def Let_def prod.case a1_def [symmetric] l1_def [symmetric] g1_def [symmetric]
        n_def [symmetric] p_def [symmetric] l2_def [symmetric] g2_def [symmetric]
      by (simp add: p d a3_def [symmetric] l3_def [symmetric] g3_def [symmetric])
  qed
  obtain ok g' l' where "?loop g3 l3 = Some (ok, g', l')" "owned L g' l'" "ok \<longrightarrow> made 5 g'"
  proof -
    have "fields_made 5 g3 \<and> frames_made 5 0 4 g3 \<and> unat (frame_count g3) \<le> length (vk_handles a3)"
      using f3 fr3 c3 n'(2) by simp
    then show ?thesis
      using that o3 section_frames_loop [OF D, of L "vk_handles a3"] unfolding step_ok_def by blast
  qed
  with o1 o3 show "\<exists>ok g' l'. create_swapchain_frames D g l = Some (ok, g', l') \<and> owned L g' l' \<and> (ok \<longrightarrow> made 5 g')"
    unfolding run by auto
qed

lemma section_swapchain:
  assumes D: "driver_ok D"
  shows "step_ok L (made 3) (create_swapchain D) (made 5)"
  unfolding create_swapchain_def
  by (rule step_and_then [OF step_create [OF D, where Q = "made 4"] section_frames [OF D]])
    (simp_all add: section_simps)

lemma sections:
  assumes D: "driver_ok D"
  shows "step_ok L (made 0) (create_sections D v hwnd) (made 15)"
  unfolding create_sections_def
  by (rule step_and_then [OF section_instance [OF D] step_and_then [OF section_physical_device [OF D]
    step_and_then [OF section_device [OF D] step_and_then [OF section_surface [OF D]
    step_and_then [OF section_swapchain [OF D] step_and_then [OF section_depth_buffer [OF D]
    step_and_then [OF section_render_pass [OF D] step_and_then [OF section_frame_buffers [OF D]
    step_and_then [OF section_sync [OF D] step_and_then [OF section_pools [OF D] section_cmd_buffers [OF D]]]]]]]]]]])

section \<open>A complete GPU\<close>

definition layout_complete :: "nat \<Rightarrow> nat list \<Rightarrow> gpu_layout_t \<Rightarrow> bool" where
  "layout_complete stride offsets ly \<longleftrightarrow> ly_binding ly \<noteq> 0 \<and> ly_attributes ly \<noteq> 0 \<and>
     ly_stride ly = stride \<and> ly_offsets ly = offsets \<and> ly_vertex_size ly = stride \<and> ly_index_size ly = 2"

definition gpu_complete :: "'a gpu_t_scheme \<Rightarrow> bool" where
  "gpu_complete g \<longleftrightarrow> gpu_ok g \<and>
     0 \<notin> {vk_instance g, logical_device g, surface g, swap_chain g, depth_stencil_image g,
          depth_stencil_memory g, depth_stencil_view g, render_pass g, present_complete_sema g,
          render_complete_sema g, descriptor_pool g, cmd_pool g} \<and>
     (\<exists>p fs. frames g = Some (p, fs) \<and> unat (frame_count g) \<le> length fs \<and>
        (\<forall>i < unat (frame_count g). frame_made 15 (fs ! i))) \<and>
     (\<exists>ly ly'. mesh_layouts g = [ly, ly'] \<and> layout_complete 12 [0] ly \<and> layout_complete 24 [0, 12] ly')"

lemma live_heap:
  assumes "driver_ok D" and "live_objects l = Some L"
  shows "live_objects (l @ [(VkCreate HeapBlock [] ns, D l (VkCreate HeapBlock [] ns))]) =
    Some (L + handle_objects HeapBlock (vk_value (D l (VkCreate HeapBlock [] ns))))"
  by (rule live_create [OF assms]) simp

lemma layout_created:
  assumes D: "driver_ok D" and o: "owned L g l" and i: "i < length (mesh_layouts g)" "mesh_layouts g ! i = zero_layout"
  shows "\<exists>ly l'. create_mesh_layout D i stride offsets g l = Some (g\<lparr>mesh_layouts := (mesh_layouts g)[i := ly]\<rparr>, l') \<and>
    owned L (g\<lparr>mesh_layouts := (mesh_layouts g)[i := ly]\<rparr>) l' \<and> layout_complete stride offsets ly"
proof -
  define b where "b = vk_value (D l (VkCreate HeapBlock [] [12]))"
  define l1 where "l1 = l @ [(VkCreate HeapBlock [] [12], D l (VkCreate HeapBlock [] [12]))]"
  define c where "c = VkCreate HeapBlock [] [16 * length offsets]"
  define a where "a = vk_value (D l1 c)"
  define l2 where "l2 = l1 @ [(c, D l1 c)]"
  have nz: "b \<noteq> 0" "a \<noteq> 0" unfolding a_def b_def c_def by (rule driver_heap [OF D])+
  have ok: "gpu_ok g" and l: "live_objects l = Some (gpu_objects g + L)" using o by (simp_all add: owned_def)
  have "live_objects l1 = Some (gpu_objects g + L + handle_objects HeapBlock b)"
    unfolding l1_def b_def by (rule live_heap [OF D l])
  then have l2: "live_objects l2 = Some (gpu_objects g + L + handle_objects HeapBlock b + handle_objects HeapBlock a)"
    unfolding l2_def a_def c_def by (rule live_heap [OF D])
  let ?ly = "\<lparr>ly_binding = b, ly_attributes = a, ly_stride = stride, ly_offsets = offsets,
            ly_vertex_size = stride, ly_index_size = 2\<rparr>"
  let ?g = "g\<lparr>mesh_layouts := (mesh_layouts g)[i := ?ly]\<rparr>"
  have "layout_objects ?ly = layout_objects (mesh_layouts g ! i) + (handle_objects HeapBlock b + handle_objects HeapBlock a)"
    by (simp add: layout_objects_def i(2) zero_layout_def)
  from sum_list_update [OF i(1) this]
  have "gpu_objects ?g = gpu_objects g + (handle_objects HeapBlock b + handle_objects HeapBlock a)"
    by (simp add: gpu_objects_def ac_simps)
  moreover have "gpu_ok ?g"
  proof -
    have "\<forall>ly \<in> set ((mesh_layouts g)[i := ?ly]). ly_binding ly = 0 \<longleftrightarrow> ly_attributes ly = 0"
      using ok nz set_update_subset_insert [of "mesh_layouts g" i ?ly] by (auto simp: gpu_ok_def)
    moreover have "frame_ok ?g f = frame_ok g f" for f by (simp add: frame_ok_def split: option.splits)
    ultimately show ?thesis using ok by (simp add: gpu_ok_def cong: option.case_cong)
  qed
  ultimately have "owned L ?g l2" using l2 by (simp add: owned_def ac_simps)
  moreover have "create_mesh_layout D i stride offsets g l = Some (?g, l2)"
    using nz i(1) unfolding create_mesh_layout_def issue_def Let_def prod.case b_def [symmetric] l1_def [symmetric]
      c_def [symmetric] a_def [symmetric] l2_def [symmetric] by simp
  moreover have "layout_complete stride offsets ?ly" using nz by (simp add: layout_complete_def)
  ultimately show ?thesis by blast
qed

lemma layouts_created:
  assumes D: "driver_ok D" and o: "owned L g l" and m: "made 15 g"
  shows "\<exists>g' l'. create_mesh_layouts D g l = Some (g', l') \<and> owned L g' l' \<and> gpu_complete g' \<and> frame_index g' = 0"
proof -
  have z: "mesh_layouts g = [zero_layout, zero_layout]" using m by (simp add: made_defs)
  obtain ly l1 where 1: "create_mesh_layout D 0 12 [0] g l = Some (g\<lparr>mesh_layouts := [ly, zero_layout]\<rparr>, l1)"
    "owned L (g\<lparr>mesh_layouts := [ly, zero_layout]\<rparr>) l1" "layout_complete 12 [0] ly"
    using layout_created [OF D o, of 0 12 "[0]"] z by auto
  obtain ly' l2 where 2: "create_mesh_layout D 1 24 [0, 12] (g\<lparr>mesh_layouts := [ly, zero_layout]\<rparr>) l1 =
      Some (g\<lparr>mesh_layouts := [ly, ly']\<rparr>, l2)" "owned L (g\<lparr>mesh_layouts := [ly, ly']\<rparr>) l2"
    "layout_complete 24 [0, 12] ly'"
    using layout_created [OF D 1(2), of 1 24 "[0, 12]"] by auto
  obtain p fs where fs: "frames g = Some (p, fs)" using m by (auto simp: made_defs)
  have "unat (frame_count g) \<le> length fs" "\<forall>i < unat (frame_count g). frame_made 15 (fs ! i)"
    using m fs by (auto simp: made_def frames_made_def)
  then have "gpu_complete (g\<lparr>mesh_layouts := [ly, ly']\<rparr>) \<and> frame_index g = 0"
    using m fs 1(3) 2(2,3) by (simp add: gpu_complete_def owned_def made_defs)
  with 1 2 show ?thesis by (auto simp: create_mesh_layouts_def)
qed

section \<open>Creation and destruction\<close>

lemma zero_gpu_owned:
  "p \<noteq> 0 \<Longrightarrow> live_objects l = Some (L + handle_objects HeapBlock p) \<Longrightarrow> owned L (zero_gpu p) l"
  by (simp add: owned_def gpu_ok_def zero_gpu_def gpu_objects_def frames_objects_def layout_objects_def zero_layout_def ac_simps)

lemma zero_gpu_made: "p \<noteq> 0 \<Longrightarrow> made 0 (zero_gpu p)"
  by (simp add: made_defs frames_made_def zero_gpu_def)

lemma truncate_same:
  "gpu_objects (gpu_t.truncate g) = gpu_objects g" "gpu_ok (gpu_t.truncate g) = gpu_ok g"
  "gpu_complete (gpu_t.truncate g) = gpu_complete g" "frame_index (gpu_t.truncate g) = frame_index g"
  by (simp_all add: gpu_t.defs gpu_objects_def gpu_ok_def gpu_complete_def frame_ok_def cong: option.case_cong)

lemma gpu_created:
  assumes D: "driver_ok D" and l: "live_objects l = Some L" and L: "heap_only L"
  obtains (failed) l' where "gpu_create D v hwnd l = Some (None, l')" and "live_objects l' = Some L"
    | (complete) g l' where "gpu_create D v hwnd l = Some (Some g, l')" and "gpu_complete g" and "frame_index g = 0"
        and "live_objects l' = Some (gpu_objects g + L)"
proof -
  define c where "c = VkCreate HeapBlock [] [848]"
  define p where "p = vk_value (D l c)"
  have p: "p \<noteq> 0" unfolding p_def c_def by (rule driver_heap [OF D])
  have "live_objects (l @ [(c, D l c)]) = Some (L + handle_objects HeapBlock p)"
    unfolding p_def c_def by (rule live_heap [OF D l])
  note o = zero_gpu_owned [OF p this]
  obtain ok g1 l1 where s: "create_sections D v hwnd (zero_gpu p) (l @ [(c, D l c)]) = Some (ok, g1, l1)"
    "owned L g1 l1" "ok \<longrightarrow> made 15 g1"
    using sections [OF D] zero_gpu_made [OF p] o unfolding step_ok_def by blast
  have run: "gpu_create D v hwnd l =
      (if ok then create_mesh_layouts D g1 l1 \<bind> (\<lambda>(g, l). Some (Some (gpu_t.truncate g), l))
       else gpu_destroy D g1 l1 \<bind> (\<lambda>l. Some (None, l)))"
    using p unfolding gpu_create_def issue_def Let_def prod.case c_def [symmetric] p_def [symmetric] by (simp add: s(1))
  show ?thesis
  proof (cases ok)
    case True
    with layouts_created [OF D s(2)] s(3) obtain g2 l2 where
      "create_mesh_layouts D g1 l1 = Some (g2, l2)" "owned L g2 l2" "gpu_complete g2" "frame_index g2 = 0" by blast
    with True run show ?thesis by (intro complete [of "gpu_t.truncate g2" l2]) (simp_all add: truncate_same owned_def)
  next
    case False
    have "gpu_ok g1" "live_objects l1 = Some (gpu_objects g1 + L)" using s(2) by (simp_all add: owned_def)
    from destroys [OF this L, of D] obtain l2 where "gpu_destroy D g1 l1 = Some l2" "live_objects l2 = Some L" by blast
    with False run show ?thesis by (intro failed [of l2]) simp_all
  qed
qed

section \<open>Properties\<close>

text \<open>A driver with one device and one image; every call succeeds, and every handle is 1.\<close>

definition sample_driver :: driver where
  "sample_driver l c =
     \<lparr>vk_result = 0, vk_value = (case c of VkDo f us ns \<Rightarrow> if f = vkGetSwapchainImagesKHR \<and> ns = [0] then 0 else 1 | _ \<Rightarrow> 1),
      vk_handles = [1], vk_families = [(1, 1)], vk_memory_types = [1, 6], vk_extent = (640, 480),
      vk_min_images = 2, vk_req_size = 4096, vk_req_bits = 3\<rparr>"

lemma sample_driver_ok: "driver_ok sample_driver"
  by (auto simp: driver_ok_def sample_driver_def)




lemma sample_created: "\<exists>g l'. gpu_create sample_driver False 7 [] = Some (Some g, l')"
proof -
  have "map_option (\<lambda>(r, l). r = None) (gpu_create sample_driver False 7 []) = Some False" by code_simp
  then show ?thesis by auto
qed


end
