(* ===== verification/Gpu_Released.thy ===== *)
theory Gpu_Released
  imports Gpu_Resources Gpu_Life
begin

text \<open>
  The contract of the resources of the GPU: a creation adds the objects of its result or, when a call
  fails, nothing; a destruction removes them.
\<close>

section \<open>The contract\<close>

text \<open>
  The specification of a kind of resource: a creation adds the objects of what it returns, and nothing
  when it fails, and destroying the result gives back the objects from before; several resources may
  be destroyed in any order.
\<close>

definition released ::
  "(vk_log \<Rightarrow> ('r ptr \<times> vk_log) option) \<Rightarrow> ('r \<Rightarrow> vk_log \<Rightarrow> vk_log) \<Rightarrow> ('r \<Rightarrow> vk_obj multiset) \<Rightarrow>
   ('r \<Rightarrow> bool) \<Rightarrow> vk_obj multiset \<Rightarrow> bool" where
  "released create destroy objs good L \<longleftrightarrow>
     (\<forall>l. live_objects l = Some L \<longrightarrow> (\<exists>r l'. create l = Some (r, l') \<and> (\<forall>x. r = Some x \<longrightarrow> good x) \<and>
        live_objects l' = Some ((case r of None \<Rightarrow> {#} | Some x \<Rightarrow> objs x) + L) \<and>
        live_objects (case r of None \<Rightarrow> l' | Some x \<Rightarrow> destroy x l') = Some L)) \<and>
     (\<forall>l xs ys. mset ys = mset xs \<longrightarrow> live_objects l = Some (sum_list (map objs xs) + L) \<longrightarrow>
        live_objects (fold destroy ys l) = Some L)"

locale gpu_resource =
  fixes make :: "vk_log \<Rightarrow> ('r ptr \<times> vk_log) option"
    and kill :: "'r \<Rightarrow> vk_log \<Rightarrow> vk_log"
    and objs :: "'r \<Rightarrow> vk_obj multiset"
    and good :: "'r \<Rightarrow> bool"
    and ready :: "vk_obj multiset \<Rightarrow> bool"
  assumes make_law: "ready L \<Longrightarrow> live_objects l = Some L \<Longrightarrow>
      \<exists>r l'. make l = Some (r, l') \<and>
        live_objects l' = Some ((case r of None \<Rightarrow> {#} | Some x \<Rightarrow> objs x) + L) \<and> (\<forall>x. r = Some x \<longrightarrow> good x)"
    and kill_law: "ready L \<Longrightarrow> live_objects l = Some (objs x + L) \<Longrightarrow> live_objects (kill x l) = Some L"
    and ready_more: "ready L \<Longrightarrow> ready (M + L)"
begin

lemma make_kill:
  assumes "ready L" and "live_objects l = Some L"
  shows "\<exists>r l'. make l = Some (r, l') \<and> (\<forall>x. r = Some x \<longrightarrow> good x) \<and>
    live_objects l' = Some ((case r of None \<Rightarrow> {#} | Some x \<Rightarrow> objs x) + L) \<and>
    live_objects (case r of None \<Rightarrow> l' | Some x \<Rightarrow> kill x l') = Some L"
proof -
  obtain r l' where r: "make l = Some (r, l')" "\<forall>x. r = Some x \<longrightarrow> good x"
    "live_objects l' = Some ((case r of None \<Rightarrow> {#} | Some x \<Rightarrow> objs x) + L)"
    using make_law [OF assms] by blast
  then show ?thesis using kill_law [OF assms(1)] by (cases r) auto
qed

text \<open>Resources may be destroyed in any order.\<close>

lemma kill_list:
  assumes "ready L" and "live_objects l = Some (sum_list (map objs xs) + L)"
  shows "live_objects (fold kill xs l) = Some L"
  using assms(2)
proof (induction xs arbitrary: l)
  case (Cons x xs)
  have "live_objects (kill x l) = Some (sum_list (map objs xs) + L)"
    by (rule kill_law [OF ready_more [OF assms(1)]]) (use Cons.prems in \<open>simp add: add.assoc\<close>)
  with Cons.IH show ?case by simp
qed simp

lemma kill_any_order:
  assumes "ready L" and "live_objects l = Some (sum_list (map objs xs) + L)" and "mset ys = mset xs"
  shows "live_objects (fold kill ys l) = Some L"
proof -
  have "sum_list (map objs ys) = sum_list (map objs xs)"
    using assms(3) by (metis mset_map sum_mset_sum_list)
  with kill_list [OF assms(1)] assms(2) show ?thesis by simp
qed

lemma contract: "ready L \<Longrightarrow> released make kill objs good L"
  unfolding released_def using make_kill kill_any_order by blast

end

section \<open>Steps of a creation\<close>

definition res_live :: "('r \<Rightarrow> vk_obj multiset) \<Rightarrow> vk_obj multiset \<Rightarrow> 'r \<Rightarrow> vk_log \<Rightarrow> bool" where
  "res_live F L r l \<longleftrightarrow> live_objects l = Some (F r + L)"

lemma res_live_ask: "res_live F L r l \<Longrightarrow> set us \<subseteq> set_mset (F r + L) \<Longrightarrow> res_live F L r (l @ [(VkDo f us ns, a)])"
  by (simp add: res_live_def live_append)

lemma res_live_issued: "res_live F L r l \<Longrightarrow> set us \<subseteq> set_mset (F r + L) \<Longrightarrow> res_live F L r (vk_issued D (VkDo f us ns) l)"
  unfolding vk_issued_def issue_def Let_def snd_conv by (rule res_live_ask)

lemma triple_create:
  assumes D: "driver_ok D" and k: "k \<noteq> HeapBlock"
    and us: "\<And>r. P r \<Longrightarrow> set (us r) \<subseteq> set_mset (F r + L)"
    and put: "\<And>r h. P r \<Longrightarrow> \<exists>r'. put h r = Some r' \<and> F r' = F r + handle_objects k h \<and> (h \<noteq> 0 \<longrightarrow> Q r')"
  shows "triple (res_live F L) P (create_into D k us ns put) Q"
  unfolding triple_def
proof (intro allI impI)
  fix r l
  assume P: "P r" and h: "res_live F L r l"
  let ?c = "VkCreate k (us r) (ns r)"
  obtain r' where r': "put (vk_value (D l ?c)) r = Some r'"
    "F r' = F r + handle_objects k (vk_value (D l ?c))" "vk_value (D l ?c) \<noteq> 0 \<longrightarrow> Q r'"
    using put [OF P] by blast
  have l: "live_objects l = Some (F r + L)" using h by (simp add: res_live_def)
  have "live_objects (l @ [(?c, D l ?c)]) = Some (F r + L + handle_objects k (vk_value (D l ?c)))"
    by (rule live_create [OF D l us [OF P]])
  then have "res_live F L r' (l @ [(?c, D l ?c)])" using r'(2) by (simp add: res_live_def ac_simps)
  moreover have "vk_result (D l ?c) = 0 \<Longrightarrow> vk_value (D l ?c) \<noteq> 0" by (rule driver_made [OF D k])
  ultimately show "\<exists>ok g' l'. create_into D k us ns put r l = Some (ok, g', l') \<and> res_live F L g' l' \<and> (ok \<longrightarrow> Q g')"
    using r' by (auto simp: create_into_def issue_def Let_def)
qed

lemma triple_check:
  assumes "\<And>r. P r \<Longrightarrow> \<exists>f us ns. c r = VkDo f us ns \<and> set us \<subseteq> set_mset (F r + L)"
  shows "triple (res_live F L) P (check D c) P"
  unfolding triple_def
proof (intro allI impI)
  fix r l
  assume P: "P r" and h: "res_live F L r l"
  obtain f us ns where "c r = VkDo f us ns" "set us \<subseteq> set_mset (F r + L)" using assms [OF P] by blast
  with P res_live_ask [OF h] show "\<exists>ok g' l'. check D c r l = Some (ok, g', l') \<and> res_live F L g' l' \<and> (ok \<longrightarrow> P g')"
    by (auto simp: check_def issue_def Let_def)
qed

lemma triple_upload:
  assumes "\<And>r. P r \<Longrightarrow> {dev g, (VkDeviceMemory, memory r)} \<subseteq> set_mset (F r + L)" and "length bytes \<le> mapped"
  shows "triple (res_live F L) P (upload D g memory bytes mapped) P"
  unfolding triple_def
proof (intro allI impI)
  fix r l
  assume P: "P r" and h: "res_live F L r l"
  let ?us = "[dev g, (VkDeviceMemory, memory r)]"
  let ?c = "VkDo vkMapMemory ?us [0, mapped]"
  have us: "set ?us \<subseteq> set_mset (F r + L)" using assms(1) [OF P] by simp
  note h1 = res_live_ask [OF h us, of vkMapMemory "[0, mapped]" "D l ?c"]
  have "live_objects (vk_issued D (VkWrite (VkDeviceMemory, memory r) bytes) (l @ [(?c, D l ?c)])) = Some (F r + L)"
    using live_vk_issued [of "l @ [(?c, D l ?c)]" "F r + L"] h1 us by (simp add: res_live_def)
  then have h2: "res_live F L r (vk_issued D (VkWrite (VkDeviceMemory, memory r) bytes) (l @ [(?c, D l ?c)]))"
    by (simp add: res_live_def)
  from P h1 res_live_issued [OF h2 us] assms(2)
  show "\<exists>ok g' l'. upload D g memory bytes mapped r l = Some (ok, g', l') \<and> res_live F L g' l' \<and> (ok \<longrightarrow> P g')"
    by (auto simp: upload_def issue_def Let_def)
qed

text \<open>The documented size of the memory a buffer requires: at least the size of the buffer
  (a 64-bit number).\<close>

definition buffers_ok :: "driver \<Rightarrow> bool" where
  "buffers_ok D \<longleftrightarrow> (\<forall>l us n usage a us'. vk_value a \<noteq> 0 \<longrightarrow> n < 2 ^ 64 \<longrightarrow>
     n \<le> unat (vk_req_size (D (l @ [(VkCreate VkBuffer us [n, usage], a)])
       (VkDo vkGetBufferMemoryRequirements (us' @ [(VkBuffer, vk_value a)]) []))))"

text \<open>Creating a buffer and its memory, then \<open>rest\<close> knowing what the driver requires.\<close>

lemma triple_buffer:
  assumes D: "driver_ok D" and B: "buffers_ok D" and n64: "n < 2 ^ 64" and d: "dev g \<in># L"
    and bF: "\<And>r h. P r \<Longrightarrow> F (put_buffer h r) = F r + handle_objects VkBuffer h"
    and bb: "\<And>r h. P r \<Longrightarrow> buffer (put_buffer h r) = h"
    and bP: "\<And>r h. P r \<Longrightarrow> h \<noteq> 0 \<Longrightarrow> P1 (put_buffer h r)"
    and m: "\<And>r h. P1 r \<Longrightarrow> F (put_memory h r) = F r + handle_objects VkDeviceMemory h"
    and mP: "\<And>r h. P1 r \<Longrightarrow> h \<noteq> 0 \<Longrightarrow> P2 (put_memory h r)"
    and rest: "\<And>reqs. n \<le> unat (vk_req_size reqs) \<Longrightarrow> triple (res_live F L) P2 (rest reqs) Q"
  shows "triple (res_live F L) P (and_then
      (create_into D VkBuffer (\<lambda>r. [dev g]) (\<lambda>r. [n, usage]) (\<lambda>h r. Some (put_buffer h r)))
      (alloc_buffer_memory D g buffer rest put_memory)) Q"
  unfolding triple_def
proof (intro allI impI)
  fix r l
  assume P: "P r" and h: "res_live F L r l"
  let ?c = "VkCreate VkBuffer [dev g] [n, usage]"
  define a where "a = D l ?c"
  define r1 where "r1 = put_buffer (vk_value a) r"
  define l1 where "l1 = l @ [(?c, a)]"
  have "live_objects l = Some (F r + L)" using h by (simp add: res_live_def)
  then have "live_objects l1 = Some (F r + L + handle_objects VkBuffer (vk_value a))"
    unfolding l1_def a_def by (rule live_create [OF D]) (use d in simp)
  then have h1: "res_live F L r1 l1" using bF [OF P] by (simp add: res_live_def r1_def ac_simps)
  have run1: "create_into D VkBuffer (\<lambda>r. [dev g]) (\<lambda>r. [n, usage]) (\<lambda>h r. Some (put_buffer h r)) r l =
      Some (vk_result a = 0, r1, l1)"
    by (simp add: create_into_def issue_def Let_def a_def r1_def l1_def)
  show "\<exists>ok g' l'. and_then (create_into D VkBuffer (\<lambda>r. [dev g]) (\<lambda>r. [n, usage]) (\<lambda>h r. Some (put_buffer h r)))
      (alloc_buffer_memory D g buffer rest put_memory) r l = Some (ok, g', l') \<and> res_live F L g' l' \<and> (ok \<longrightarrow> Q g')"
  proof (cases "vk_result a = 0")
    case False
    with run1 h1 show ?thesis by (auto simp: and_then_def)
  next
    case True
    have v: "vk_value a \<noteq> 0" using driver_made [OF D] True unfolding a_def by simp
    let ?q = "VkDo vkGetBufferMemoryRequirements [dev g, (VkBuffer, buffer r1)] []"
    define reqs where "reqs = D l1 ?q"
    have br: "buffer r1 = vk_value a" using bb [OF P] by (simp add: r1_def)
    have "\<And>us'. n \<le> unat (vk_req_size (D l1 (VkDo vkGetBufferMemoryRequirements (us' @ [(VkBuffer, vk_value a)]) [])))"
      using B v n64 unfolding buffers_ok_def l1_def by blast
    from this [of "[dev g]"] have n: "n \<le> unat (vk_req_size reqs)"
      unfolding reqs_def by (simp add: br)
    have P1: "P1 r1" unfolding r1_def by (rule bP [OF P v])
    have "(VkBuffer, buffer r1) \<in># F r1" using bF [OF P, of "vk_value a"] v br by (simp add: r1_def)
    then have h2: "res_live F L r1 (l1 @ [(?q, reqs)])" using d by (intro res_live_ask [OF h1]) simp
    have "triple (res_live F L) P1 (and_then
       (create_into D VkDeviceMemory (\<lambda>r. [dev g])
         (\<lambda>r. [unat (vk_req_size reqs), get_memory_type_index g (vk_req_bits reqs) 6])
         (\<lambda>h r. Some (put_memory h r))) (rest reqs)) Q"
    proof (rule step_and_then [OF triple_create [OF D] rest [OF n]])
      show "\<exists>r'. Some (put_memory h r) = Some r' \<and> F r' = F r + handle_objects VkDeviceMemory h \<and> (h \<noteq> 0 \<longrightarrow> P2 r')"
        if "P1 r" for r h using m [OF that] mP [OF that] by simp
    qed (use d in simp_all)
    with P1 h2 obtain ok r' l' where "and_then
       (create_into D VkDeviceMemory (\<lambda>r. [dev g])
         (\<lambda>r. [unat (vk_req_size reqs), get_memory_type_index g (vk_req_bits reqs) 6])
         (\<lambda>h r. Some (put_memory h r))) (rest reqs) r1 (l1 @ [(?q, reqs)]) = Some (ok, r', l')"
      "res_live F L r' l'" "ok \<longrightarrow> Q r'"
      unfolding triple_def by blast
    with run1 True show ?thesis
      by (auto simp: and_then_def [of "create_into D VkBuffer _ _ _"] alloc_buffer_memory_def issue_def Let_def reqs_def)
  qed
qed

text \<open>A creation from its steps and its destruction.\<close>

lemma create_resource_law:
  assumes D: "driver_ok D" and l: "live_objects l = Some L"
    and steps: "triple (res_live F L) (\<lambda>r. \<exists>p. p \<noteq> 0 \<and> r = zero p) steps Q"
    and zero: "\<And>p. F (zero p) = handle_objects HeapBlock p"
    and destroy: "\<And>r l. live_objects l = Some (F r + L) \<Longrightarrow> live_objects (destroy r l) = Some L"
  shows "\<exists>r l'. create_resource D bytes zero steps destroy l = Some (r, l') \<and>
    live_objects l' = Some ((case r of None \<Rightarrow> {#} | Some x \<Rightarrow> F x) + L) \<and> (\<forall>x. r = Some x \<longrightarrow> Q x)"
proof -
  define c where "c = VkCreate HeapBlock [] [bytes]"
  define p where "p = vk_value (D l c)"
  have p: "p \<noteq> 0" unfolding p_def c_def by (rule driver_heap [OF D])
  have "live_objects (l @ [(c, D l c)]) = Some (L + handle_objects HeapBlock p)"
    unfolding p_def c_def by (rule live_heap [OF D l])
  then have "res_live F L (zero p) (l @ [(c, D l c)])" by (simp add: res_live_def zero ac_simps)
  with p steps obtain ok r l' where r: "steps (zero p) (l @ [(c, D l c)]) = Some (ok, r, l')" "res_live F L r l'" "ok \<longrightarrow> Q r"
    unfolding triple_def by blast
  have "create_resource D bytes zero steps destroy l = Some (if ok then (Some r, l') else (None, destroy r l'))"
    using p unfolding create_resource_def issue_def Let_def prod.case c_def [symmetric] p_def [symmetric]
    by (simp add: r(1))
  with r(2,3) destroy [of l' r] show ?thesis by (auto simp: res_live_def)
qed

end
