(* ===== verification/Gpu_Contract.thy ===== *)
theory Gpu_Contract
  imports Gpu_Released
begin

text \<open>
  The five kinds of resources of \<^verbatim>\<open>gpu.c\<close> keep the contract of \<^theory_text>\<open>Gpu_Released\<close>: a creation that fails
  leaves nothing over, and a destruction releases exactly what the creation made.
\<close>

section \<open>The objects of the resources\<close>

text \<open>In the order in which they are destroyed.\<close>

definition mesh_objects :: "gpu_mesh_t \<Rightarrow> vk_obj multiset" where
  "mesh_objects m = handle_objects VkBuffer (index_buffer m) + (handle_objects VkDeviceMemory (index_memory m) +
     (handle_objects VkBuffer (vertex_buffer m) + (handle_objects VkDeviceMemory (vertex_memory m) +
      handle_objects HeapBlock (mesh_addr m))))"

definition uniform_buffer_objects :: "gpu_uniform_buffer_t \<Rightarrow> vk_obj multiset" where
  "uniform_buffer_objects u = handle_objects VkBuffer (ub_buffer u) +
     (handle_objects VkDeviceMemory (ub_memory u) + handle_objects HeapBlock (ub_addr u))"

definition shader_objects :: "gpu_shader_t \<Rightarrow> vk_obj multiset" where
  "shader_objects s = handle_objects VkShaderModule (vertex_module s) +
     (handle_objects VkShaderModule (fragment_module s) +
     (handle_objects VkDescriptorSetLayout (descriptor_set_layout s) + handle_objects HeapBlock (shader_addr s)))"

definition pipeline_objects :: "gpu_pipeline_t \<Rightarrow> vk_obj multiset" where
  "pipeline_objects p = handle_objects VkPipelineLayout (pipeline_layout p) +
     (handle_objects VkPipeline (pipe p) + handle_objects HeapBlock (pipeline_addr p))"

definition descriptor_objects :: "gpu_descriptor_t \<Rightarrow> vk_obj multiset" where
  "descriptor_objects d = handle_objects VkDescriptorSet (descriptor_set d) + handle_objects HeapBlock (descriptor_addr d)"

lemmas resource_objects_def = mesh_objects_def uniform_buffer_objects_def shader_objects_def
  pipeline_objects_def descriptor_objects_def

text \<open>What a successful creation returns.\<close>

definition bytes_per_vertex :: "gpu_mesh_layout_t \<Rightarrow> nat" where
  "bytes_per_vertex k = (case k of k_gpu_mesh_layout_tri_p444_i2 \<Rightarrow> 12 | k_gpu_mesh_layout_tri_p444_c444_i2 \<Rightarrow> 24)"

definition mesh_made :: "gpu_mesh_info_t \<Rightarrow> gpu_mesh_t \<Rightarrow> bool" where
  "mesh_made info m \<longleftrightarrow> 0 \<notin> {index_buffer m, index_memory m, vertex_buffer m, vertex_memory m} \<and>
     (length (mi_index_data info) < 2 ^ 31 \<longrightarrow> index_count m = int (length (mi_index_data info) div 2)) \<and>
     (length (mi_vertex_data info) < 2 ^ 31 \<longrightarrow>
        vertex_count m = int (length (mi_vertex_data info) div bytes_per_vertex (mi_layout info)))"

definition uniform_buffer_made :: "gpu_uniform_buffer_t \<Rightarrow> bool" where
  "uniform_buffer_made u \<longleftrightarrow> ub_buffer u \<noteq> 0 \<and> ub_memory u \<noteq> 0 \<and> fst (ub_descriptor u) = ub_buffer u"

definition shader_made :: "gpu_shader_t \<Rightarrow> bool" where
  "shader_made s \<longleftrightarrow> vertex_module s \<noteq> 0 \<and> fragment_module s \<noteq> 0 \<and> descriptor_set_layout s \<noteq> 0"

definition pipeline_made :: "gpu_pipeline_t \<Rightarrow> bool" where
  "pipeline_made p \<longleftrightarrow> pipeline_layout p \<noteq> 0 \<and> pipe p \<noteq> 0"

definition descriptor_made :: "gpu_descriptor_t \<Rightarrow> bool" where
  "descriptor_made d \<longleftrightarrow> descriptor_set d \<noteq> 0"

lemmas resource_made_def = mesh_made_def uniform_buffer_made_def shader_made_def pipeline_made_def descriptor_made_def

section \<open>The GPU they are made on\<close>

definition gpu_live :: "driver \<Rightarrow> 'a gpu_t_scheme \<Rightarrow> vk_obj multiset \<Rightarrow> bool" where
  "gpu_live D g L \<longleftrightarrow> driver_ok D \<and> buffers_ok D \<and> gpu_complete g \<and> gpu_objects g \<subseteq># L"

lemma gpu_live_more: "gpu_live D g L \<Longrightarrow> gpu_live D g (M + L)"
  by (auto simp: gpu_live_def intro: subset_mset.order_trans)

lemma more_objects: "(X :: vk_obj multiset) \<subseteq># L \<Longrightarrow> X \<subseteq># M + L"
  by (rule subset_mset.order_trans [of _ L]) simp_all

lemma gpu_live_in:
  assumes "gpu_live D g L"
  shows "dev g \<in># L" and "(VkDescriptorPool, descriptor_pool g) \<in># L" and "(VkRenderPass, render_pass g) \<in># L"
    and "(VkSwapchainKHR, swap_chain g) \<in># L" and "(VkSemaphore, present_complete_sema g) \<in># L"
    and "(VkSemaphore, render_complete_sema g) \<in># L"
proof -
  have "gpu_complete g" "set_mset (gpu_objects g) \<subseteq> set_mset L"
    using assms set_mset_mono by (auto simp: gpu_live_def)
  then show "dev g \<in># L" "(VkDescriptorPool, descriptor_pool g) \<in># L" "(VkRenderPass, render_pass g) \<in># L"
    "(VkSwapchainKHR, swap_chain g) \<in># L" "(VkSemaphore, present_complete_sema g) \<in># L"
    "(VkSemaphore, render_complete_sema g) \<in># L"
    by (auto simp: gpu_complete_def gpu_objects_def)
qed

lemma gpu_live_ok: "gpu_live D g L \<Longrightarrow> driver_ok D" "gpu_live D g L \<Longrightarrow> buffers_ok D"
  by (simp_all add: gpu_live_def)

section \<open>Destructions\<close>

lemma mesh_killed:
  assumes "dev g \<in># L" and l: "live_objects l = Some (mesh_objects m + L)"
  shows "live_objects (gpu_mesh_destroy D g m l) = Some L"
  unfolding gpu_mesh_destroy_def Let_def
  by (rule live_destroy, rule live_destroy_if, rule live_destroy_if, rule live_destroy_if, rule live_destroy_if,
      rule l [unfolded mesh_objects_def add.assoc]) (use assms(1) in simp_all)

lemma uniform_buffer_killed:
  assumes "dev g \<in># L" and l: "live_objects l = Some (uniform_buffer_objects u + L)"
  shows "live_objects (gpu_uniform_buffer_destroy D g u l) = Some L"
  unfolding gpu_uniform_buffer_destroy_def Let_def
  by (rule live_destroy, rule live_destroy_if, rule live_destroy_if,
      rule l [unfolded uniform_buffer_objects_def add.assoc]) (use assms(1) in simp_all)

lemma shader_killed:
  assumes "dev g \<in># L" and l: "live_objects l = Some (shader_objects s + L)"
  shows "live_objects (gpu_shader_destroy D g s l) = Some L"
  unfolding gpu_shader_destroy_def Let_def
  by (rule live_destroy, rule live_destroy_if, rule live_destroy_if, rule live_destroy_if,
      rule l [unfolded shader_objects_def add.assoc]) (use assms(1) in simp_all)

lemma pipeline_killed:
  assumes "dev g \<in># L" and l: "live_objects l = Some (pipeline_objects p + L)"
  shows "live_objects (gpu_pipeline_destroy D g p l) = Some L"
  unfolding gpu_pipeline_destroy_def Let_def
  by (rule live_destroy, rule live_destroy_if, rule live_destroy_if,
      rule l [unfolded pipeline_objects_def add.assoc]) (use assms(1) in simp_all)

lemma descriptor_killed:
  assumes "dev g \<in># L" and "(VkDescriptorPool, descriptor_pool g) \<in># L"
    and l: "live_objects l = Some (descriptor_objects d + L)"
  shows "live_objects (gpu_descriptor_destroy D g d l) = Some L"
  unfolding gpu_descriptor_destroy_def Let_def
  by (rule live_destroy, rule live_destroy_if, rule l [unfolded descriptor_objects_def add.assoc])
    (use assms(1,2) in simp_all)

section \<open>Creations\<close>

lemma shader_in:
  assumes "shader_made s" and "shader_objects s \<subseteq># L"
  shows "(VkDescriptorSetLayout, descriptor_set_layout s) \<in># L" and "(VkShaderModule, vertex_module s) \<in># L"
    and "(VkShaderModule, fragment_module s) \<in># L"
  using assms(1) set_mset_mono [OF assms(2)] by (auto simp: shader_made_def shader_objects_def)

lemma uniform_buffer_in:
  assumes "uniform_buffer_made u" and "uniform_buffer_objects u \<subseteq># L"
  shows "(VkBuffer, fst (ub_descriptor u)) \<in># L"
  using assms(1) set_mset_mono [OF assms(2)] by (auto simp: uniform_buffer_made_def uniform_buffer_objects_def)

text \<open>An update changes nothing but the contents of the memory.\<close>

lemma update_live:
  assumes l: "live_objects l = Some M" and "dev g \<in># M" and "(VkDeviceMemory, ub_memory u) \<in># M"
  shows "live_objects (gpu_uniform_buffer_update D g u bytes l) = Some M"
proof -
  let ?us = "[dev g, (VkDeviceMemory, ub_memory u)]"
  let ?c = "VkDo vkMapMemory ?us [0, length bytes]"
  have 1: "live_objects (l @ [(?c, D l ?c)]) = Some M" using assms by (simp add: live_append)
  then have "live_objects (vk_issued D (VkWrite (VkDeviceMemory, ub_memory u) bytes) (l @ [(?c, D l ?c)])) = Some M"
    using assms(3) by (simp add: live_vk_issued)
  then have "live_objects (vk_issued D (VkDo vkUnmapMemory ?us [])
      (vk_issued D (VkWrite (VkDeviceMemory, ub_memory u) bytes) (l @ [(?c, D l ?c)]))) = Some M"
    using assms(2,3) by (simp add: live_vk_issued)
  with 1 show ?thesis by (simp add: gpu_uniform_buffer_update_def issue_def Let_def)
qed

lemma update_res_live:
  assumes "res_live F L r l" and "dev g \<in># L" and "(VkDeviceMemory, ub_memory u) \<in># F r" and "F r' = F r"
  shows "res_live F L r' (gpu_uniform_buffer_update D g u bytes l)"
  using assms update_live [of l "F r + L" g u D bytes] by (simp add: res_live_def)

lemma shader_law:
  assumes g: "gpu_live D g L" and l: "live_objects l = Some L"
  shows "\<exists>r l'. gpu_shader_create D g info l = Some (r, l') \<and>
    live_objects l' = Some ((case r of None \<Rightarrow> {#} | Some x \<Rightarrow> shader_objects x) + L) \<and> (\<forall>x. r = Some x \<longrightarrow> shader_made x)"
proof -
  note D = gpu_live_ok(1) [OF g] and d = gpu_live_in(1) [OF g]
  let ?P = "\<lambda>s. \<exists>p. p \<noteq> 0 \<and> s = \<lparr>shader_addr = p, vertex_module = 0, fragment_module = 0, descriptor_set_layout = 0\<rparr>"
  let ?P1 = "\<lambda>s. vertex_module s \<noteq> 0 \<and> fragment_module s = 0 \<and> descriptor_set_layout s = 0"
  let ?P2 = "\<lambda>s. vertex_module s \<noteq> 0 \<and> fragment_module s \<noteq> 0 \<and> descriptor_set_layout s = 0"
  show ?thesis
    unfolding gpu_shader_create_def
    by (rule create_resource_law [OF D l], rule step_and_then [of _ ?P _ ?P1],
        rule triple_create [OF D], simp, use d in simp, fastforce simp: shader_objects_def ac_simps,
        rule step_and_then [of _ ?P1 _ ?P2],
        rule triple_create [OF D], simp, use d in simp, fastforce simp: shader_objects_def ac_simps,
        rule triple_create [OF D], simp, use d in simp, fastforce simp: shader_objects_def shader_made_def ac_simps)
      (simp_all add: shader_objects_def shader_killed [OF d])
qed

lemma pipeline_law:
  assumes g: "gpu_live D g L" and s: "shader_made s" "shader_objects s \<subseteq># L" and l: "live_objects l = Some L"
  shows "\<exists>r l'. gpu_pipeline_create D g s ly l = Some (r, l') \<and>
    live_objects l' = Some ((case r of None \<Rightarrow> {#} | Some x \<Rightarrow> pipeline_objects x) + L) \<and> (\<forall>x. r = Some x \<longrightarrow> pipeline_made x)"
proof -
  note D = gpu_live_ok(1) [OF g] and d = gpu_live_in [OF g] and s = shader_in [OF s]
  let ?P = "\<lambda>p. \<exists>a. a \<noteq> 0 \<and> p = \<lparr>pipeline_addr = a, pipeline_layout = 0, pipe = 0\<rparr>"
  let ?P1 = "\<lambda>p. pipeline_layout p \<noteq> 0 \<and> pipe p = 0"
  show ?thesis
    unfolding gpu_pipeline_create_def
    by (rule create_resource_law [OF D l], rule step_and_then [of _ ?P _ ?P1],
        rule triple_create [OF D], simp, use d s in simp, fastforce simp: pipeline_objects_def ac_simps,
        rule triple_create [OF D], simp, use d s in \<open>simp add: pipeline_objects_def\<close>,
        fastforce simp: pipeline_objects_def pipeline_made_def ac_simps)
      (simp_all add: pipeline_objects_def pipeline_killed [OF d(1)])
qed

lemma step_done:
  assumes "\<And>r l. P r \<Longrightarrow> I r l \<Longrightarrow> I (f r) (e r l) \<and> Q (f r)"
  shows "triple I P (\<lambda>r l. Some (True, f r, e r l)) Q"
  using assms by (auto simp: triple_def)

lemma descriptor_law:
  assumes g: "gpu_live D g L" and s: "shader_made s" "shader_objects s \<subseteq># L"
    and u: "\<forall>u \<in> set ubs. uniform_buffer_made u \<and> uniform_buffer_objects u \<subseteq># L" and l: "live_objects l = Some L"
  shows "\<exists>r l'. gpu_descriptor_create D g s ubs l = Some (r, l') \<and>
    live_objects l' = Some ((case r of None \<Rightarrow> {#} | Some x \<Rightarrow> descriptor_objects x) + L) \<and> (\<forall>x. r = Some x \<longrightarrow> descriptor_made x)"
proof -
  note D = gpu_live_ok(1) [OF g] and d = gpu_live_in [OF g] and s = shader_in [OF s]
  have u: "(VkBuffer, fst (ub_descriptor u)) \<in># L" if "u \<in> set ubs" for u
    using u that uniform_buffer_in by fastforce
  let ?P = "\<lambda>x. \<exists>a. a \<noteq> 0 \<and> x = \<lparr>descriptor_addr = a, descriptor_set = 0\<rparr>"
  show ?thesis
    unfolding gpu_descriptor_create_def
    by (rule create_resource_law [OF D l], rule step_and_then [of _ ?P _ descriptor_made],
        rule triple_create [OF D], simp, use d s in simp, fastforce simp: descriptor_objects_def descriptor_made_def ac_simps,
        rule step_done, rule conjI, erule res_live_issued, use d u in \<open>auto simp: descriptor_objects_def descriptor_made_def\<close>)
      (simp_all add: descriptor_objects_def descriptor_killed [OF d(1,2)])
qed

lemma uniform_buffer_law:
  assumes g: "gpu_live D g L" and n: "length bytes < 2 ^ 64" and l: "live_objects l = Some L"
  shows "\<exists>r l'. gpu_uniform_buffer_create D g bytes l = Some (r, l') \<and>
    live_objects l' = Some ((case r of None \<Rightarrow> {#} | Some x \<Rightarrow> uniform_buffer_objects x) + L) \<and>
    (\<forall>x. r = Some x \<longrightarrow> uniform_buffer_made x)"
proof -
  note D = gpu_live_ok(1) [OF g] and B = gpu_live_ok(2) [OF g] and d = gpu_live_in(1) [OF g]
  let ?F = uniform_buffer_objects
  let ?P = "\<lambda>u. \<exists>a. a \<noteq> 0 \<and> u = \<lparr>ub_addr = a, ub_buffer = 0, ub_memory = 0, ub_descriptor = (0, 0)\<rparr>"
  let ?P1 = "\<lambda>u. ub_buffer u \<noteq> 0 \<and> ub_memory u = 0"
  let ?P2 = "\<lambda>u. ub_buffer u \<noteq> 0 \<and> ub_memory u \<noteq> 0"
  have bind: "triple (res_live ?F L) ?P2 (and_then
             (check D (\<lambda>u. VkDo vkBindBufferMemory
               [dev g, (VkBuffer, ub_buffer u), (VkDeviceMemory, ub_memory u)] [0]))
             (\<lambda>u l. let u = u\<lparr>ub_descriptor := (ub_buffer u, length bytes)\<rparr>
                    in Some (True, u, gpu_uniform_buffer_update D g u bytes l))) uniform_buffer_made"
    unfolding Let_def
    by (rule step_and_then [of _ ?P2 _ ?P2], rule triple_check, use d in \<open>fastforce simp: uniform_buffer_objects_def\<close>,
        rule step_done, rule conjI, rule update_res_live)
      (use d in \<open>simp_all add: res_live_def uniform_buffer_objects_def uniform_buffer_made_def\<close>)
  show ?thesis
    unfolding gpu_uniform_buffer_create_def
    by (rule create_resource_law [OF D l], rule triple_buffer [OF D B n d, where ?P = ?P and ?P1.0 = ?P1 and ?P2.0 = ?P2 and F = ?F, OF _ _ _ _ _ bind])
      (auto simp: uniform_buffer_objects_def uniform_buffer_killed [OF d] ac_simps)
qed

text \<open>One of the buffers of a mesh, filled and bound.\<close>

lemma triple_mesh_buffer:
  assumes g: "gpu_live D g L" and n: "length bytes < 2 ^ 64"
    and bF: "\<And>r h. P r \<Longrightarrow> mesh_objects (put_buffer h r) = mesh_objects r + handle_objects VkBuffer h"
    and bb: "\<And>r h. P r \<Longrightarrow> buffer (put_buffer h r) = h"
    and bP: "\<And>r h. P r \<Longrightarrow> h \<noteq> 0 \<Longrightarrow> P1 (put_buffer h r)"
    and m: "\<And>r h. P1 r \<Longrightarrow> mesh_objects (put_memory h r) = mesh_objects r + handle_objects VkDeviceMemory h"
    and mP: "\<And>r h. P1 r \<Longrightarrow> h \<noteq> 0 \<Longrightarrow> Q (put_memory h r)"
    and Q: "\<And>r. Q r \<Longrightarrow> (VkBuffer, buffer r) \<in># mesh_objects r \<and> (VkDeviceMemory, memory r) \<in># mesh_objects r"
  shows "triple (res_live mesh_objects L) P (create_mesh_buffer D g usage bytes buffer put_buffer memory put_memory) Q"
proof -
  note D = gpu_live_ok(1) [OF g] and B = gpu_live_ok(2) [OF g] and d = gpu_live_in(1) [OF g]
  have fill: "triple (res_live mesh_objects L) Q (and_then (upload D g memory bytes (unat (vk_req_size reqs)))
           (check D (\<lambda>m. VkDo vkBindBufferMemory
             [dev g, (VkBuffer, buffer m), (VkDeviceMemory, memory m)] [0]))) Q"
    if "length bytes \<le> unat (vk_req_size reqs)" for reqs
    by (rule step_and_then [OF triple_upload triple_check]) (use that d Q in auto)
  show ?thesis
    unfolding create_mesh_buffer_def
    by (rule triple_buffer [OF D B n d, where F = mesh_objects and ?P1.0 = P1 and ?P2.0 = Q])
      (use bF bb bP m mP fill in blast)+
qed

text \<open>The layout of the mesh is one of the tables of a complete GPU.\<close>

lemma element_count_value:
  assumes "sz \<noteq> 0"
  shows "\<exists>n. element_count bytes sz = Some n \<and> (length bytes < 2 ^ 31 \<longrightarrow> n = int (length bytes div sz))"
  using assms sint_small [of "length bytes"]
  by (cases "length bytes = 0") (auto simp: element_count_def Let_def zdiv_int sgn_if simp del: sint_small)

lemma layout_sizes:
  assumes "gpu_complete g"
  shows "\<exists>lay. arr_get (mesh_layouts g) (layout_number k) = Some lay \<and> ly_index_size lay = 2 \<and>
    ly_vertex_size lay = bytes_per_vertex k"
  using assms by (cases k) (auto simp: gpu_complete_def layout_complete_def arr_get_def bytes_per_vertex_def)

lemma mesh_law:
  assumes g: "gpu_live D g L" and n: "length (mi_vertex_data info) < 2 ^ 64" "length (mi_index_data info) < 2 ^ 64"
    and l: "live_objects l = Some L"
  shows "\<exists>r l'. gpu_mesh_create D g info l = Some (r, l') \<and>
    live_objects l' = Some ((case r of None \<Rightarrow> {#} | Some x \<Rightarrow> mesh_objects x) + L) \<and> (\<forall>x. r = Some x \<longrightarrow> mesh_made info x)"
proof -
  note D = gpu_live_ok(1) [OF g] and d = gpu_live_in(1) [OF g]
  obtain lay where lay: "arr_get (mesh_layouts g) (layout_number (mi_layout info)) = Some lay"
    "ly_index_size lay = 2" "ly_vertex_size lay = bytes_per_vertex (mi_layout info)"
    using layout_sizes [of g "mi_layout info"] g unfolding gpu_live_def by blast
  obtain i where i: "element_count (mi_index_data info) (ly_index_size lay) = Some i"
    "length (mi_index_data info) < 2 ^ 31 \<longrightarrow> i = int (length (mi_index_data info) div 2)"
    using element_count_value [of 2 "mi_index_data info"] lay(2) by auto
  have "bytes_per_vertex (mi_layout info) \<noteq> 0" by (cases "mi_layout info") (simp_all add: bytes_per_vertex_def)
  then obtain k where k: "element_count (mi_vertex_data info) (ly_vertex_size lay) = Some k"
    "length (mi_vertex_data info) < 2 ^ 31 \<longrightarrow> k = int (length (mi_vertex_data info) div bytes_per_vertex (mi_layout info))"
    using element_count_value [of "bytes_per_vertex (mi_layout info)" "mi_vertex_data info"] lay(3) by auto
  let ?P = "\<lambda>m. \<exists>a. a \<noteq> 0 \<and> m = \<lparr>mesh_addr = a, index_buffer = 0, index_memory = 0, index_count = 0, vertex_buffer = 0,
             vertex_memory = 0, vertex_count = 0\<rparr>"
  let ?Z = "\<lambda>m. index_count m = i \<and> vertex_count m = k \<and> index_buffer m = 0 \<and> index_memory m = 0 \<and> vertex_buffer m = 0 \<and> vertex_memory m = 0"
  let ?V1 = "\<lambda>m. index_count m = i \<and> vertex_count m = k \<and> index_buffer m = 0 \<and> index_memory m = 0 \<and> vertex_buffer m \<noteq> 0 \<and> vertex_memory m = 0"
  let ?V2 = "\<lambda>m. index_count m = i \<and> vertex_count m = k \<and> index_buffer m = 0 \<and> index_memory m = 0 \<and> vertex_buffer m \<noteq> 0 \<and> vertex_memory m \<noteq> 0"
  let ?I1 = "\<lambda>m. index_count m = i \<and> vertex_count m = k \<and> index_buffer m \<noteq> 0 \<and> index_memory m = 0 \<and> vertex_buffer m \<noteq> 0 \<and> vertex_memory m \<noteq> 0"
  have counts: "triple (res_live mesh_objects L) ?P
         (\<lambda>m l. do {
           ly \<leftarrow> arr_get (mesh_layouts g) (layout_number (mi_layout info));
           n \<leftarrow> element_count (mi_index_data info) (ly_index_size ly);
           k \<leftarrow> element_count (mi_vertex_data info) (ly_vertex_size ly);
           Some (True, m\<lparr>index_count := n, vertex_count := k\<rparr>, l)
         }) ?Z"
    unfolding lay(1) bind.bind_lunit i(1) k(1)
    by (rule step_done) (auto simp: res_live_def mesh_objects_def)
  have vertex: "triple (res_live mesh_objects L) ?Z (create_mesh_buffer D g 128 (mi_vertex_data info) vertex_buffer
      (\<lambda>h m. m\<lparr>vertex_buffer := h\<rparr>) vertex_memory (\<lambda>h m. m\<lparr>vertex_memory := h\<rparr>)) ?V2"
    by (rule triple_mesh_buffer [OF g n(1), where ?P1.0 = ?V1]) (simp_all add: mesh_objects_def ac_simps)
  have index: "triple (res_live mesh_objects L) ?V2 (create_mesh_buffer D g 64 (mi_index_data info) index_buffer
      (\<lambda>h m. m\<lparr>index_buffer := h\<rparr>) index_memory (\<lambda>h m. m\<lparr>index_memory := h\<rparr>)) (mesh_made info)"
    by (rule triple_mesh_buffer [OF g n(2), where ?P1.0 = ?I1]) (use i(2) k(2) in \<open>auto simp: mesh_objects_def mesh_made_def ac_simps\<close>)
  show ?thesis
    unfolding gpu_mesh_create_def
    by (rule create_resource_law [OF D l step_and_then [OF counts step_and_then [OF vertex index]]])
      (simp_all add: mesh_objects_def mesh_killed [OF d])
qed

section \<open>The contract res_live\<close>

interpretation meshes: gpu_resource "gpu_mesh_create D g info" "gpu_mesh_destroy D g" mesh_objects "mesh_made info"
  "\<lambda>L. gpu_live D g L \<and> length (mi_vertex_data info) < 2 ^ 64 \<and> length (mi_index_data info) < 2 ^ 64"
  for D g info
  by unfold_locales (use mesh_law mesh_killed gpu_live_in(1) gpu_live_more in blast)+

interpretation uniform_buffers: gpu_resource "gpu_uniform_buffer_create D g bytes" "gpu_uniform_buffer_destroy D g"
  uniform_buffer_objects uniform_buffer_made "\<lambda>L. gpu_live D g L \<and> length bytes < 2 ^ 64"
  for D g bytes
  by unfold_locales (use uniform_buffer_law uniform_buffer_killed gpu_live_in(1) gpu_live_more in blast)+

interpretation shaders: gpu_resource "gpu_shader_create D g info" "gpu_shader_destroy D g"
  shader_objects shader_made "gpu_live D g"
  for D g info
  by unfold_locales (use shader_law shader_killed gpu_live_in(1) gpu_live_more in blast)+

interpretation pipelines: gpu_resource "gpu_pipeline_create D g s ly" "gpu_pipeline_destroy D g"
  pipeline_objects pipeline_made "\<lambda>L. gpu_live D g L \<and> shader_made s \<and> shader_objects s \<subseteq># L"
  for D g s ly
proof (unfold_locales, goal_cases)
  case (1 L l)
  then show ?case using pipeline_law [of D g L s l ly] by blast
next
  case (2 L l x)
  then show ?case using pipeline_killed [of g L l x D] gpu_live_in(1) [of D g L] by blast
next
  case (3 L M)
  then show ?case using gpu_live_more [of D g L M] more_objects by auto
qed

interpretation descriptors: gpu_resource "gpu_descriptor_create D g s ubs" "gpu_descriptor_destroy D g"
  descriptor_objects descriptor_made "\<lambda>L. gpu_live D g L \<and> shader_made s \<and> shader_objects s \<subseteq># L \<and>
    (\<forall>u \<in> set ubs. uniform_buffer_made u \<and> uniform_buffer_objects u \<subseteq># L)"
  for D g s ubs
proof (unfold_locales, goal_cases)
  case (1 L l)
  then show ?case using descriptor_law [of D g L s ubs l] by blast
next
  case (2 L l x)
  then show ?case using descriptor_killed [of g L l x D] gpu_live_in(1,2) [of D g L] by blast
next
  case (3 L M)
  then show ?case using gpu_live_more [of D g L M] more_objects by auto
qed

section \<open>Properties\<close>


text \<open>A driver that asks for exactly the memory of the buffer created last.\<close>

definition tight_driver :: driver where
  "tight_driver l c = (sample_driver l c)\<lparr>vk_req_size := (case c of
       VkDo f us ns \<Rightarrow> if f = vkGetBufferMemoryRequirements \<and> l \<noteq> []
         then (case fst (last l) of VkCreate k us ns \<Rightarrow> word_of_nat (hd ns) | _ \<Rightarrow> 0) else 4096
     | _ \<Rightarrow> 4096)\<rparr>"

lemma tight_driver_ok: "driver_ok tight_driver" "buffers_ok tight_driver"
proof -
  show "driver_ok tight_driver" using sample_driver_ok by (simp add: driver_ok_def tight_driver_def)
  show "buffers_ok tight_driver" by (simp add: buffers_ok_def tight_driver_def unat_of_nat)
qed

lemma tight_created: "\<exists>g l'. gpu_create tight_driver False 7 [] = Some (Some g, l')"
proof -
  have "map_option (\<lambda>(r, l). r = None) (gpu_create tight_driver False 7 []) = Some False" by code_simp
  then show ?thesis by auto
qed


text \<open>A triangle.\<close>

definition sample_mesh :: gpu_mesh_info_t where
  "sample_mesh = \<lparr>mi_layout = k_gpu_mesh_layout_tri_p444_i2, mi_vertex_data = replicate 36 0,
     mi_index_data = [0, 0, 1, 0, 2, 0]\<rparr>"


end
