(* ===== verification/Gpu_Frames.thy ===== *)
theory Gpu_Frames
  imports Gpu_Contract
begin

text \<open>
  Recording and submitting frames in \<^verbatim>\<open>gpu.c\<close>: the ring of frames, the commands of a draw, and when a
  command buffer is recorded while the GPU may still execute it.
\<close>

section \<open>Frames\<close>

text \<open>A sequence of calls whose results are not looked at (apart from printing them).\<close>

definition vk_calls :: "driver \<Rightarrow> vk_call list \<Rightarrow> vk_log \<Rightarrow> vk_log" where
  "vk_calls D cs l = fold (vk_issued D) cs l"

text \<open>The frame at \<^verbatim>\<open>frame_index\<close> and its command buffer, which both must exist.\<close>

definition gpu_frame_now :: "'a gpu_t_scheme \<Rightarrow> (gpu_frame_t \<times> gpu_cmd_buffer_t) option" where
  "gpu_frame_now g = do {
     f \<leftarrow> get_frame g (unat (frame_index g));
     cb \<leftarrow> cmd_buffer f;
     Some (f, cb)
   }"

definition gpu_frame_begin :: "driver \<Rightarrow> 'a gpu_t_scheme \<Rightarrow> vk_log \<Rightarrow> (gpu_cmd_buffer_t ptr \<times> vk_log) option" where
  "gpu_frame_begin D g l = do {
     (f, cb) \<leftarrow> gpu_frame_now g;
     let b = (VkCommandBuffer, cb_buffer cb);
     let (a, l) = issue D (VkDo vkBeginCommandBuffer [b] []) l;
     if vk_result a \<noteq> 0 then Some (None, l)
     else Some (Some cb, vk_calls D
       [VkDo vkCmdBeginRenderPass [b, (VkRenderPass, render_pass g), (VkFramebuffer, frame_buffer f)]
          [unat (frame_width g), unat (frame_height g)],
        VkDo vkCmdSetViewport [b] [unat (frame_width g), unat (frame_height g)],
        VkDo vkCmdSetScissor [b] [unat (frame_width g), unat (frame_height g)]] l)
   }"

text \<open>
  The index of the image is what \<^verbatim>\<open>vkAcquireNextImageKHR\<close> left in the variable, also when it failed.
  Every call is made whatever the calls before it returned.
\<close>

definition gpu_frame_end :: "driver \<Rightarrow> 'a gpu_t_scheme \<Rightarrow> vk_log \<Rightarrow> ('a gpu_t_scheme \<times> vk_log) option" where
  "gpu_frame_end D g l = do {
     f \<leftarrow> get_frame g (unat (frame_index g));
     if frame_count g = 0 then None
     else do {
       let g = g\<lparr>frame_index := (frame_index g + 1) mod frame_count g\<rparr>;
       cb \<leftarrow> cmd_buffer f;
       let b = (VkCommandBuffer, cb_buffer cb);
       let l = vk_calls D [VkDo vkCmdEndRenderPass [b] [], VkDo vkEndCommandBuffer [b] []] l;
       let (image_index, l) = issue D (VkDo vkAcquireNextImageKHR
         [dev g, (VkSwapchainKHR, swap_chain g), (VkSemaphore, present_complete_sema g)] []) l;
       Some (g, vk_calls D
         [VkDo vkWaitForFences [dev g, (VkFence, fence f)] [],
          VkDo vkResetFences [dev g, (VkFence, fence f)] [],
          VkDo vkQueueSubmit [b, (VkSemaphore, present_complete_sema g),
            (VkSemaphore, render_complete_sema g), (VkFence, fence f)] [gpu_queue g],
          VkDo vkQueuePresentKHR [(VkSwapchainKHR, swap_chain g), (VkSemaphore, render_complete_sema g)]
            [gpu_queue g, vk_value image_index]] l)
     }
   }"

section \<open>The commands of a draw\<close>

definition gpu_cmd_pipeline_bind ::
  "driver \<Rightarrow> gpu_cmd_buffer_t \<Rightarrow> gpu_pipeline_t \<Rightarrow> vk_log \<Rightarrow> gpu_cmd_buffer_t \<times> vk_log" where
  "gpu_cmd_pipeline_bind D cb p l =
     (let l = vk_issued D (VkDo vkCmdBindPipeline [(VkCommandBuffer, cb_buffer cb), (VkPipeline, pipe p)] []) l
      in (cb\<lparr>cb_pipeline_layout := pipeline_layout p\<rparr>, l))"

definition gpu_cmd_descriptor_bind :: "driver \<Rightarrow> gpu_cmd_buffer_t \<Rightarrow> gpu_descriptor_t \<Rightarrow> vk_log \<Rightarrow> vk_log" where
  "gpu_cmd_descriptor_bind D cb d =
     vk_issued D (VkDo vkCmdBindDescriptorSets [(VkCommandBuffer, cb_buffer cb),
       (VkPipelineLayout, cb_pipeline_layout cb), (VkDescriptorSet, descriptor_set d)] [])"

definition gpu_cmd_mesh_bind ::
  "driver \<Rightarrow> gpu_cmd_buffer_t \<Rightarrow> gpu_mesh_t \<Rightarrow> vk_log \<Rightarrow> gpu_cmd_buffer_t \<times> vk_log" where
  "gpu_cmd_mesh_bind D cb m l =
     (let (cb, l) = if vertex_count m \<noteq> 0
           then (let l = vk_issued D (VkDo vkCmdBindVertexBuffers
                   [(VkCommandBuffer, cb_buffer cb), (VkBuffer, vertex_buffer m)] [0]) l
                 in (cb\<lparr>cb_vertex_count := vertex_count m\<rparr>, l))
           else (cb\<lparr>cb_vertex_count := 0\<rparr>, l)
      in if index_count m \<noteq> 0
         then (let l = vk_issued D (VkDo vkCmdBindIndexBuffer
                 [(VkCommandBuffer, cb_buffer cb), (VkBuffer, index_buffer m)] [0]) l
               in (cb\<lparr>cb_index_count := index_count m\<rparr>, l))
         else (cb\<lparr>cb_index_count := 0\<rparr>, l))"

text \<open>The counts are converted to \<^verbatim>\<open>uint32_t\<close>.\<close>

definition gpu_cmd_draw :: "driver \<Rightarrow> gpu_cmd_buffer_t \<Rightarrow> vk_log \<Rightarrow> vk_log" where
  "gpu_cmd_draw D cb l =
     (let b = (VkCommandBuffer, cb_buffer cb)
      in if cb_index_count cb \<noteq> 0
         then vk_issued D (VkDo vkCmdDrawIndexed [b] [unat (word_of_int (cb_index_count cb) :: u32), 1, 0, 0, 0]) l
         else if cb_vertex_count cb \<noteq> 0
         then vk_issued D (VkDo vkCmdDraw [b] [unat (word_of_int (cb_vertex_count cb) :: u32), 1, 0, 0]) l
         else l)"

section \<open>Only live objects\<close>

definition only_uses :: "vk_obj multiset \<Rightarrow> vk_call list \<Rightarrow> bool" where
  "only_uses L cs \<longleftrightarrow> (\<forall>c \<in> set cs. \<exists>f us ns. c = VkDo f us ns \<and> set us \<subseteq> set_mset L)"

lemma only_uses_simps [simp]:
  "only_uses L []" "only_uses L (VkDo f us ns # cs) \<longleftrightarrow> set us \<subseteq> set_mset L \<and> only_uses L cs"
  by (auto simp: only_uses_def)

lemma vk_calls_live: "live_objects l = Some L \<Longrightarrow> only_uses L cs \<Longrightarrow> live_objects (vk_calls D cs l) = Some L"
proof (induction cs arbitrary: l)
  case (Cons c cs)
  then obtain f us ns where c: "c = VkDo f us ns" "set us \<subseteq> set_mset L" "only_uses L cs"
    by (auto simp: only_uses_def)
  have "live_objects (vk_issued D c l) = Some L" using c(2) by (simp add: c(1) live_vk_issued [OF Cons.prems(1)])
  with Cons.IH [of "vk_issued D c l"] c(3) show ?case by (simp add: vk_calls_def)
qed (simp add: vk_calls_def)

lemma vk_ask_live: "live_objects l = Some L \<Longrightarrow> set us \<subseteq> set_mset L \<Longrightarrow>
   live_objects (l @ [(VkDo f us ns, a)]) = Some L"
  by (simp add: live_append)

text \<open>The current frame of a complete GPU.\<close>

lemma frame_now:
  assumes g: "gpu_live D g L" and i: "unat i < unat (frame_count g)"
  obtains f cb where "get_frame g (unat i) = Some f" and "cmd_buffer f = Some cb"
    and "(VkCommandBuffer, cb_buffer cb) \<in># L" and "(VkFramebuffer, frame_buffer f) \<in># L" and "(VkFence, fence f) \<in># L"
proof -
  have c: "gpu_complete g" and sub: "set_mset (gpu_objects g) \<subseteq> set_mset L"
    using g set_mset_mono by (auto simp: gpu_live_def)
  obtain p fs where fs: "frames g = Some (p, fs)" "unat (frame_count g) \<le> length fs"
    "\<forall>i < unat (frame_count g). frame_made 15 (fs ! i)"
    using c by (auto simp: gpu_complete_def)
  define f where "f = fs ! unat i"
  have "f \<in> set fs" using i fs(2) by (auto simp: f_def)
  have objs: "ob \<in># L" if "ob \<in># frame_objects f" for ob
  proof -
    have "ob \<in># sum_list (map frame_objects fs)"
      by (rule in_sum_list [OF \<open>f \<in> set fs\<close>]) (rule that)
    then have "ob \<in># gpu_objects g" by (simp add: gpu_objects_def frames_objects_def fs(1))
    with sub show ?thesis by blast
  qed
  have "frame_made 15 f" using fs(3) i by (simp add: f_def)
  then obtain cb where cb: "cmd_buffer f = Some cb" "cb_addr cb \<noteq> 0" "cb_buffer cb \<noteq> 0" "frame_buffer f \<noteq> 0" "fence f \<noteq> 0"
    by (auto simp: frame_made_def split: option.splits)
  then show thesis using i fs(1,2)
    by (intro that [of f cb]) (auto simp: get_frame_def arr_get_def f_def [symmetric] intro!: objs
        simp: frame_objects_def cmd_buffer_objects_def)
qed


text \<open>A frame without draws.  The renderer ends it also when it could not be begun.\<close>

fun run_frames :: "driver \<Rightarrow> nat \<Rightarrow> 'a gpu_t_scheme \<Rightarrow> vk_log \<Rightarrow> ('a gpu_t_scheme \<times> vk_log) option" where
  "run_frames D 0 g l = Some (g, l)"
| "run_frames D (Suc n) g l = do {
     (cb, l) \<leftarrow> gpu_frame_begin D g l;
     (g, l) \<leftarrow> gpu_frame_end D g l;
     run_frames D n g l
   }"

lemma frame_begins:
  assumes g: "gpu_live D g L" and i: "frame_index g < frame_count g" and l: "live_objects l = Some L"
  shows "\<exists>r l'. gpu_frame_begin D g l = Some (r, l') \<and> live_objects l' = Some L"
proof -
  obtain f cb where f: "get_frame g (unat (frame_index g)) = Some f" "cmd_buffer f = Some cb"
    "(VkCommandBuffer, cb_buffer cb) \<in># L" "(VkFramebuffer, frame_buffer f) \<in># L"
    by (rule frame_now [OF g, of "frame_index g"]) (use i in \<open>auto simp: word_less_nat_alt\<close>)
  note live = vk_ask_live [OF l, of "[(VkCommandBuffer, cb_buffer cb)]" vkBeginCommandBuffer "[]"]
  show ?thesis
    using f gpu_live_in(3) [OF g]
    by (auto simp: gpu_frame_begin_def gpu_frame_now_def issue_def Let_def intro!: vk_calls_live live)
qed

lemma next_index:
  fixes i n :: u32
  assumes "i < n"
  shows "unat ((i + 1) mod n) = (unat i + 1) mod unat n" and "(i + 1) mod n < n"
proof -
  have "unat i < unat n" "unat n < 2 ^ 32" using assms unsigned_less [of n] by (simp_all add: word_less_nat_alt)
  then have "unat (i + 1) = unat i + 1" by (simp add: unat_word_ariths)
  then show "unat ((i + 1) mod n) = (unat i + 1) mod unat n" by (simp add: unat_mod)
  then show "(i + 1) mod n < n" using \<open>unat i < unat n\<close> by (simp add: word_less_nat_alt)
qed

lemma frame_ends:
  assumes g: "gpu_live D g L" and i: "frame_index g < frame_count g" and l: "live_objects l = Some L"
  shows "\<exists>l'. gpu_frame_end D g l = Some (g\<lparr>frame_index := (frame_index g + 1) mod frame_count g\<rparr>, l') \<and>
    live_objects l' = Some L"
proof -
  obtain f cb where f: "get_frame g (unat (frame_index g)) = Some f" "cmd_buffer f = Some cb"
    "(VkCommandBuffer, cb_buffer cb) \<in># L" "(VkFence, fence f) \<in># L"
    by (rule frame_now [OF g, of "frame_index g"]) (use i in \<open>auto simp: word_less_nat_alt\<close>)
  have "frame_count g \<noteq> 0" using i by auto
  with f gpu_live_in [OF g] show ?thesis
    by (auto simp: gpu_frame_end_def issue_def Let_def intro!: vk_calls_live vk_ask_live l)
qed


lemma frame_index_live: "gpu_live D (g\<lparr>frame_index := i\<rparr>) L = gpu_live D g L"
  by (simp add: gpu_live_def gpu_objects_def gpu_complete_def gpu_ok_def frame_ok_def cong: option.case_cong)

lemma frames_run:
  assumes "gpu_live D g L" and "frame_index g < frame_count g" and "live_objects l = Some L"
  shows "\<exists>i l'. run_frames D n g l = Some (g\<lparr>frame_index := i\<rparr>, l') \<and> live_objects l' = Some L \<and>
    unat i = (unat (frame_index g) + n) mod unat (frame_count g)"
  using assms
proof (induction n arbitrary: g l)
  case 0
  then show ?case by (intro exI [of _ "frame_index g"]) (simp add: word_less_nat_alt)
next
  case (Suc n)
  obtain r l1 where 1: "gpu_frame_begin D g l = Some (r, l1)" "live_objects l1 = Some L"
    using frame_begins [OF Suc.prems] by blast
  let ?i = "(frame_index g + 1) mod frame_count g"
  obtain l2 where 2: "gpu_frame_end D g l1 = Some (g\<lparr>frame_index := ?i\<rparr>, l2)" "live_objects l2 = Some L"
    using frame_ends [OF Suc.prems(1,2) 1(2)] by blast
  note i = next_index [OF Suc.prems(2)]
  have "gpu_live D (g\<lparr>frame_index := ?i\<rparr>) L" using Suc.prems(1) by (simp add: frame_index_live)
  from Suc.IH [OF this _ 2(2)] i(2) obtain j l3 where
    3: "run_frames D n (g\<lparr>frame_index := ?i\<rparr>) l2 = Some (g\<lparr>frame_index := j\<rparr>, l3)" "live_objects l3 = Some L"
      "unat j = (unat ?i + n) mod unat (frame_count g)"
    by auto
  moreover have "unat j = (unat (frame_index g) + Suc n) mod unat (frame_count g)"
    unfolding 3(3) i(1) by (simp add: mod_simps)
  ultimately show ?case using 1(1) 2(1) by auto
qed

section \<open>When the GPU executes a command buffer\<close>

text \<open>
  The rule of Vulkan for command buffers: one that is submitted is pending until the fence of its
  submission was waited for (or the queue was idle), and a pending command buffer must not be begun
  nor submitted again.  The checker keeps the pending command buffers with their fences.
\<close>

definition of_kind :: "vk_kind \<Rightarrow> vk_obj list \<Rightarrow> nat list" where
  "of_kind k us = map snd (filter (\<lambda>u. fst u = k) us)"

fun sync_event :: "(nat \<times> nat) list \<Rightarrow> vk_call \<times> vk_answer \<Rightarrow> (nat \<times> nat) list option" where
  "sync_event P (VkDo f us ns, a) =
     (let cbs = of_kind VkCommandBuffer us; fences = of_kind VkFence us in
      if f = vkBeginCommandBuffer \<and> set cbs \<inter> fst ` set P \<noteq> {} then None
      else if f = vkQueueSubmit \<and> (set cbs \<inter> fst ` set P \<noteq> {} \<or> set fences \<inter> snd ` set P \<noteq> {}) then None
      else if vk_result a \<noteq> 0 then Some P
      else if f = vkQueueSubmit then Some (List.product cbs fences @ P)
      else if f = vkWaitForFences then Some (filter (\<lambda>x. snd x \<notin> set fences) P)
      else if f = vkQueueWaitIdle then Some []
      else Some P)"
| "sync_event P e = Some P"

definition pending :: "vk_log \<Rightarrow> (nat \<times> nat) list option" where
  "pending l = fold (\<lambda>e P. P \<bind> (\<lambda>P. sync_event P e)) l (Some [])"

lemma pending_append: "pending (l @ [e]) = pending l \<bind> (\<lambda>P. sync_event P e)"
  by (simp add: pending_def)

lemma pending_issued: "pending (vk_issued D c l) = pending l \<bind> (\<lambda>P. sync_event P (c, D l c))"
  by (simp add: vk_issued_def issue_def Let_def pending_append)

lemma vk_calls_simps [simp]: "vk_calls D [] l = l" "vk_calls D (c # cs) l = vk_calls D cs (vk_issued D c l)"
  by (simp_all add: vk_calls_def)

lemma of_kind_simps [simp]:
  "of_kind k [] = []" "of_kind k (u # us) = (if fst u = k then snd u # of_kind k us else of_kind k us)"
  by (simp_all add: of_kind_def)

lemma begin_pending:
  assumes D: "\<forall>l c. vk_result (D l c) = 0" and l: "pending l = Some P" and now: "gpu_frame_now g = Some (f, cb)"
  shows "\<exists>r l'. gpu_frame_begin D g l = Some (r, l') \<and>
    pending l' = (if cb_buffer cb \<in> fst ` set P then None else Some P)"
  using D by (simp add: gpu_frame_begin_def now issue_def Let_def pending_issued pending_append l split: Option.bind_split)

lemma end_pending:
  assumes D: "\<forall>l c. vk_result (D l c) = 0" and l: "pending l = Some P" and now: "gpu_frame_now g = Some (f, cb)"
    and P: "cb_buffer cb \<notin> fst ` set P" "fence f \<notin> snd ` set P" and n: "frame_count g \<noteq> 0"
  shows "\<exists>l'. gpu_frame_end D g l = Some (g\<lparr>frame_index := (frame_index g + 1) mod frame_count g\<rparr>, l') \<and>
    pending l' = Some ((cb_buffer cb, fence f) # P)"
proof -
  have f: "get_frame g (unat (frame_index g)) = Some f" "cmd_buffer f = Some cb"
    using now by (auto simp: gpu_frame_now_def split: Option.bind_splits)
  have "filter (\<lambda>x. snd x \<noteq> fence f) P = P" using P(2) by (auto simp: filter_id_conv image_iff)
  then show ?thesis
    using D P n by (simp add: gpu_frame_end_def f issue_def Let_def pending_issued pending_append l)
qed


text \<open>The submissions of the first \<open>k\<close> frames, the last one first.\<close>

definition frame_pair :: "gpu_frame_t \<Rightarrow> nat \<times> nat" where
  "frame_pair f = (case cmd_buffer f of None \<Rightarrow> 0 | Some cb \<Rightarrow> cb_buffer cb, fence f)"

definition frames_in_flight :: "gpu_frame_t list \<Rightarrow> nat \<Rightarrow> (nat \<times> nat) list" where
  "frames_in_flight fs k = rev (map frame_pair (take k fs))"

lemma frames_in_flight_Suc: "k < length fs \<Longrightarrow> frames_in_flight fs (Suc k) = frame_pair (fs ! k) # frames_in_flight fs k"
  by (simp add: frames_in_flight_def take_Suc_conv_app_nth)

lemma not_frames_in_flight:
  assumes "distinct (map (h \<circ> frame_pair) (take n fs))" and "k < n" and "n \<le> length fs"
  shows "h (frame_pair (fs ! k)) \<notin> h ` set (frames_in_flight fs k)"
proof
  assume "h (frame_pair (fs ! k)) \<in> h ` set (frames_in_flight fs k)"
  then obtain j where "j < k" "h (frame_pair (fs ! k)) = h (frame_pair (fs ! j))"
    using assms by (auto simp: frames_in_flight_def in_set_conv_nth)
  with assms show False by (auto simp: distinct_conv_nth)
qed

lemma frames_pending:
  assumes D: "\<forall>l c. vk_result (D l c) = 0" and fs: "frames g = Some (p, fs)"
    and n: "unat (frame_count g) \<le> length fs" "frame_count g \<noteq> 0"
    and cbs: "\<forall>f \<in> set (take (unat (frame_count g)) fs). cmd_buffer f \<noteq> None"
    and one: "distinct (map (fst \<circ> frame_pair) (take (unat (frame_count g)) fs))"
      "distinct (map (snd \<circ> frame_pair) (take (unat (frame_count g)) fs))"
    and "pending l = Some (frames_in_flight fs j)" and "unat (frame_index g) = j mod unat (frame_count g)"
    and "j + k \<le> unat (frame_count g)"
  shows "\<exists>i l'. run_frames D k g l = Some (g\<lparr>frame_index := i\<rparr>, l') \<and> pending l' = Some (frames_in_flight fs (j + k)) \<and>
    unat i = (j + k) mod unat (frame_count g)"
  using assms
proof (induction k arbitrary: g l j)
  case 0
  then show ?case by (intro exI [of _ "frame_index g"]) simp
next
  case (Suc k)
  let ?n = "unat (frame_count g)"
  have j: "j < ?n" "unat (frame_index g) = j" using Suc.prems(9,10) by simp_all
  have "fs ! j \<in> set (take ?n fs)" using j(1) Suc.prems(3) by (auto simp: in_set_conv_nth intro!: exI [of _ j])
  then obtain cb where cb: "cmd_buffer (fs ! j) = Some cb" using Suc.prems(5) by blast
  have now: "gpu_frame_now g = Some (fs ! j, cb)"
    using j Suc.prems(2,3) cb by (simp add: gpu_frame_now_def get_frame_def arr_get_def)
  have pair: "frame_pair (fs ! j) = (cb_buffer cb, fence (fs ! j))" by (simp add: frame_pair_def cb)
  note new = not_frames_in_flight [OF Suc.prems(6) j(1) Suc.prems(3)] not_frames_in_flight [OF Suc.prems(7) j(1) Suc.prems(3)]
  obtain r l1 where 1: "gpu_frame_begin D g l = Some (r, l1)" "pending l1 = Some (frames_in_flight fs j)"
    using begin_pending [OF Suc.prems(1,8) now] new(1) pair by auto
  let ?i = "(frame_index g + 1) mod frame_count g"
  obtain l2 where 2: "gpu_frame_end D g l1 = Some (g\<lparr>frame_index := ?i\<rparr>, l2)"
    "pending l2 = Some (frames_in_flight fs (Suc j))"
    using end_pending [OF Suc.prems(1) 1(2) now _ _ Suc.prems(4)] new pair frames_in_flight_Suc [of j fs] j(1) Suc.prems(3)
    by auto
  have "unat ?i = Suc j mod ?n" using next_index(1) [of "frame_index g" "frame_count g"] j by (simp add: word_less_nat_alt)
  then obtain i l3 where "run_frames D k (g\<lparr>frame_index := ?i\<rparr>) l2 = Some (g\<lparr>frame_index := i\<rparr>, l3)"
    "pending l3 = Some (frames_in_flight fs (Suc j + k))" "unat i = (Suc j + k) mod ?n"
    using Suc.IH [of "g\<lparr>frame_index := ?i\<rparr>" l2 "Suc j"] Suc.prems 2(2) by auto
  with 1(1) 2(1) show ?case by auto
qed


section \<open>Draws\<close>

text \<open>What the renderer does for a model whose pipeline and mesh are not bound yet.\<close>

definition gpu_draw ::
  "driver \<Rightarrow> gpu_cmd_buffer_t \<Rightarrow> gpu_pipeline_t \<Rightarrow> gpu_mesh_t \<Rightarrow> gpu_descriptor_t \<Rightarrow> vk_log \<Rightarrow> vk_log" where
  "gpu_draw D cb p m d l =
     (let (cb, l) = gpu_cmd_pipeline_bind D cb p l;
          (cb, l) = gpu_cmd_mesh_bind D cb m l;
          l = gpu_cmd_descriptor_bind D cb d l
      in gpu_cmd_draw D cb l)"

fun is_draw :: "vk_call \<Rightarrow> bool" where
  "is_draw (VkDo f us ns) \<longleftrightarrow> f = vkCmdDraw \<or> f = vkCmdDrawIndexed"
| "is_draw _ \<longleftrightarrow> False"

definition draw_calls :: "gpu_cmd_buffer_t \<Rightarrow> gpu_pipeline_t \<Rightarrow> gpu_mesh_t \<Rightarrow> gpu_descriptor_t \<Rightarrow> vk_call list" where
  "draw_calls cb p m d =
     (let b = (VkCommandBuffer, cb_buffer cb)
      in [VkDo vkCmdBindPipeline [b, (VkPipeline, pipe p)] []] @
         (if vertex_count m \<noteq> 0 then [VkDo vkCmdBindVertexBuffers [b, (VkBuffer, vertex_buffer m)] [0]] else []) @
         (if index_count m \<noteq> 0 then [VkDo vkCmdBindIndexBuffer [b, (VkBuffer, index_buffer m)] [0]] else []) @
         [VkDo vkCmdBindDescriptorSets [b, (VkPipelineLayout, pipeline_layout p), (VkDescriptorSet, descriptor_set d)] []] @
         (if index_count m \<noteq> 0 then [VkDo vkCmdDrawIndexed [b] [unat (word_of_int (index_count m) :: u32), 1, 0, 0, 0]]
          else if vertex_count m \<noteq> 0 then [VkDo vkCmdDraw [b] [unat (word_of_int (vertex_count m) :: u32), 1, 0, 0]]
          else []))"

lemma draw_is_calls: "gpu_draw D cb p m d l = vk_calls D (draw_calls cb p m d) l"
  by (simp add: gpu_draw_def draw_calls_def gpu_cmd_pipeline_bind_def gpu_cmd_mesh_bind_def
      gpu_cmd_descriptor_bind_def gpu_cmd_draw_def Let_def)

lemma vk_calls_issued: "map fst (vk_calls D cs l) = map fst l @ cs"
  by (induction cs arbitrary: l) (simp_all add: vk_issued_def issue_def Let_def)

lemma made_in:
  assumes "pipeline_made p \<and> mesh_made info m \<and> descriptor_made d"
    and "pipeline_objects p + mesh_objects m + descriptor_objects d \<subseteq># L"
  shows "(VkPipeline, pipe p) \<in># L \<and> (VkPipelineLayout, pipeline_layout p) \<in># L \<and>
    (VkBuffer, vertex_buffer m) \<in># L \<and> (VkBuffer, index_buffer m) \<in># L \<and> (VkDescriptorSet, descriptor_set d) \<in># L"
  using assms(1) set_mset_mono [OF assms(2)] by (auto simp: resource_made_def resource_objects_def)

lemma frame_has_commands: "frame_made 15 f \<Longrightarrow> \<exists>cb. cmd_buffer f = Some cb"
  by (simp add: frame_made_def split: option.splits)

section \<open>Properties\<close>

text \<open>A log that creates the objects of one draw.\<close>

definition sample_draw_log :: vk_log where
  "sample_draw_log = map (\<lambda>c. (c, sample_driver [] c))
     [VkCreate VkDescriptorSet [] [], VkCreate HeapBlock [] [], VkCreate VkBuffer [] [], VkCreate VkDeviceMemory [] [],
      VkCreate VkBuffer [] [], VkCreate VkDeviceMemory [] [], VkCreate HeapBlock [] [], VkCreate VkPipelineLayout [] [],
      VkCreate VkPipeline [] [], VkCreate HeapBlock [] [], VkCreate VkCommandBuffer [] []]"

text \<open>Drawing a mesh issues exactly one draw, of the mesh's number of indices, or without indices of its
  number of vertices, and none for an empty mesh; it uses only live objects.\<close>

theorem gpu_draw_counts:
  assumes "pipeline_made p \<and> mesh_made info m \<and> descriptor_made d"
    and "pipeline_objects p + mesh_objects m + descriptor_objects d \<subseteq># L"
    and "length (mi_index_data info) < 2 ^ 31 \<and> length (mi_vertex_data info) < 2 ^ 31"
    and "(VkCommandBuffer, cb_buffer cb) \<in># L" and "live_objects l = Some L"
  shows "live_objects (gpu_draw D cb p m d l) = Some L \<and>
    (\<exists>cs. map fst (gpu_draw D cb p m d l) = map fst l @ cs \<and> filter is_draw cs =
      (if 2 \<le> length (mi_index_data info)
       then [VkDo vkCmdDrawIndexed [(VkCommandBuffer, cb_buffer cb)] [length (mi_index_data info) div 2, 1, 0, 0, 0]]
       else if bytes_per_vertex (mi_layout info) \<le> length (mi_vertex_data info)
       then [VkDo vkCmdDraw [(VkCommandBuffer, cb_buffer cb)]
               [length (mi_vertex_data info) div bytes_per_vertex (mi_layout info), 1, 0, 0]]
       else []))"
proof
  note objs = made_in [OF assms(1,2)]
  have "only_uses L (draw_calls cb p m d)" using objs assms(4) by (auto simp: draw_calls_def Let_def only_uses_def)
  then show "live_objects (gpu_draw D cb p m d l) = Some L"
    unfolding draw_is_calls by (rule vk_calls_live [OF assms(5)])
next
  let ?k = "bytes_per_vertex (mi_layout info)"
  have k: "?k \<noteq> 0" by (cases "mi_layout info") (simp_all add: bytes_per_vertex_def)
  have i: "index_count m = int (length (mi_index_data info) div 2)"
    and v: "vertex_count m = int (length (mi_vertex_data info) div ?k)"
    using assms(1,3) by (simp_all add: mesh_made_def)
  have small: "length xs div n < 2 ^ 32" if "length xs < 2 ^ 31" for n and xs :: "u8 list"
    by (rule le_less_trans [OF div_le_dividend]) (use that in simp)
  have "filter is_draw (draw_calls cb p m d) =
      (if 2 \<le> length (mi_index_data info)
       then [VkDo vkCmdDrawIndexed [(VkCommandBuffer, cb_buffer cb)] [length (mi_index_data info) div 2, 1, 0, 0, 0]]
       else if ?k \<le> length (mi_vertex_data info)
       then [VkDo vkCmdDraw [(VkCommandBuffer, cb_buffer cb)] [length (mi_vertex_data info) div ?k, 1, 0, 0]]
       else [])"
    using small [of "mi_index_data info" 2] small [of "mi_vertex_data info" ?k] assms(3) k
    by (simp add: draw_calls_def Let_def i v div_eq_0_iff unat_of_nat not_less del: of_nat_div)
  then show "\<exists>cs. map fst (gpu_draw D cb p m d l) = map fst l @ cs \<and> filter is_draw cs =
      (if 2 \<le> length (mi_index_data info)
       then [VkDo vkCmdDrawIndexed [(VkCommandBuffer, cb_buffer cb)] [length (mi_index_data info) div 2, 1, 0, 0, 0]]
       else if ?k \<le> length (mi_vertex_data info)
       then [VkDo vkCmdDraw [(VkCommandBuffer, cb_buffer cb)] [length (mi_vertex_data info) div ?k, 1, 0, 0]]
       else [])"
    unfolding draw_is_calls vk_calls_issued by blast
qed


theorem gpu_draw_counts_witness:
  "\<exists>cs. map fst (gpu_draw sample_driver \<lparr>cb_addr = 1, cb_buffer = 1, cb_pipeline_layout = 0, cb_index_count = 0, cb_vertex_count = 0\<rparr>
      \<lparr>pipeline_addr = 1, pipeline_layout = 1, pipe = 1\<rparr>
      \<lparr>mesh_addr = 1, index_buffer = 1, index_memory = 1, index_count = 3, vertex_buffer = 1, vertex_memory = 1, vertex_count = 3\<rparr>
      \<lparr>descriptor_addr = 1, descriptor_set = 1\<rparr> sample_draw_log) = map fst sample_draw_log @ cs \<and>
    filter is_draw cs = [VkDo vkCmdDrawIndexed [(VkCommandBuffer, 1)] [3, 1, 0, 0, 0]]"
proof -
  let ?cb = "\<lparr>cb_addr = 1, cb_buffer = 1, cb_pipeline_layout = 0, cb_index_count = 0, cb_vertex_count = 0\<rparr>"
  let ?p = "\<lparr>pipeline_addr = 1, pipeline_layout = 1, pipe = 1\<rparr>"
  let ?m = "\<lparr>mesh_addr = 1, index_buffer = 1, index_memory = 1, index_count = 3, vertex_buffer = 1, vertex_memory = 1, vertex_count = 3\<rparr>"
  let ?d = "\<lparr>descriptor_addr = 1, descriptor_set = 1\<rparr>"
  let ?L = "{#(VkCommandBuffer, 1)#} + (pipeline_objects ?p + mesh_objects ?m + descriptor_objects ?d)"
  have made: "pipeline_made ?p \<and> mesh_made sample_mesh ?m \<and> descriptor_made ?d"
    by (simp add: resource_made_def sample_mesh_def bytes_per_vertex_def)
  have live: "live_objects sample_draw_log = Some ?L"
    by (simp add: live_objects_def sample_draw_log_def resource_objects_def handle_objects_def sample_driver_def)
  have sizes: "length (mi_index_data sample_mesh) = 6" "length (mi_vertex_data sample_mesh) = 36"
    by (simp_all add: sample_mesh_def)
  have "(VkCommandBuffer, cb_buffer ?cb) \<in># ?L" by simp
  from gpu_draw_counts [OF made _ _ this live, of sample_driver, unfolded sizes] show ?thesis by simp
qed

text \<open>Frames on a complete GPU: recording and submitting any number of them is defined, whatever the
  driver answers, uses only live objects and goes round the ring of frames.\<close>

theorem gpu_frames_ring:
  assumes "gpu_live D g L" and "frame_index g < frame_count g" and "live_objects l = Some L"
  shows "\<exists>i l'. run_frames D n g l = Some (g\<lparr>frame_index := i\<rparr>, l') \<and> live_objects l' = Some L \<and>
    unat i = (unat (frame_index g) + n) mod unat (frame_count g)"
  by (rule frames_run [OF assms])

lemma tight_live:
  "\<exists>g l. gpu_create tight_driver False 7 [] = Some (Some g, l) \<and> gpu_live tight_driver g (gpu_objects g) \<and>
    frame_count g = 1 \<and> frame_index g = 0 \<and> live_objects l = Some (gpu_objects g)"
proof -
  have "map_option (\<lambda>(r, l). case r of None \<Rightarrow> False | Some g \<Rightarrow> frame_count g = 1) (gpu_create tight_driver False 7 []) =
      Some True" by code_simp
  then obtain g l where g: "gpu_create tight_driver False 7 [] = Some (Some g, l)" "frame_count g = 1"
    by (auto split: option.splits)
  have "gpu_complete g \<and> live_objects l = Some (gpu_objects g + {#}) \<and> frame_index g = 0"
    by (rule gpu_created [OF tight_driver_ok(1), of "[]" "{#}" False 7])
      (use g in \<open>auto simp: live_objects_def heap_only_def\<close>)
  with g show ?thesis by (auto simp: gpu_live_def tight_driver_ok)
qed

theorem gpu_frames_ring_witness:
  "\<exists>g l i l'. gpu_create tight_driver False 7 [] = Some (Some g, l) \<and>
     run_frames tight_driver 3 g l = Some (g\<lparr>frame_index := i\<rparr>, l') \<and> live_objects l' = Some (gpu_objects g) \<and> unat i = 0"
proof -
  obtain g l where g: "gpu_create tight_driver False 7 [] = Some (Some g, l)" "gpu_live tight_driver g (gpu_objects g)"
    "frame_count g = 1" "frame_index g = 0" "live_objects l = Some (gpu_objects g)" using tight_live by blast
  from gpu_frames_ring [OF g(2) _ g(5), of 3] g show ?thesis by auto
qed

text \<open>C38. Recording over a pending command buffer.  When every call succeeds and the command buffers and
  fences of the frames are distinct, the first round of frames keeps the rule for command buffers,
  but \<^verbatim>\<open>gpu_frame_begin\<close> does not wait for the fence of its frame (\<^verbatim>\<open>gpu_frame_end\<close> waits for it, after the
  recording), so the next frame begins a command buffer the GPU may still execute; a
  \<^verbatim>\<open>gpu_wait_until_idle\<close> before it would make it correct.\<close>

theorem gpu_frame_begin_while_pending:
  assumes "\<forall>l c. vk_result (D l c) = 0" and "gpu_complete g" and "frame_index g = 0" and "frame_count g \<noteq> 0"
    and "frames g = Some (p, fs)" and "pending l = Some []"
    and "distinct (map (fst \<circ> frame_pair) (take (unat (frame_count g)) fs))"
    and "distinct (map (snd \<circ> frame_pair) (take (unat (frame_count g)) fs))"
  shows "\<exists>g' l'. run_frames D (unat (frame_count g)) g l = Some (g', l') \<and> pending l' \<noteq> None \<and>
    (\<exists>r l2. gpu_frame_begin D g' l' = Some (r, l2) \<and> pending l2 = None) \<and>
    (\<exists>r l2. gpu_frame_begin D g' (gpu_wait_until_idle D g' l') = Some (r, l2) \<and> pending l2 = Some [])"
proof -
  let ?n = "unat (frame_count g)"
  have n: "?n \<le> length fs" "\<forall>i < ?n. frame_made 15 (fs ! i)"
    using assms(2,5) by (auto simp: gpu_complete_def)
  have pos: "0 < ?n" using assms(4) by (simp add: unat_gt_0)
  have len: "0 < length fs" using n(1) pos by linarith
  have cbs: "\<forall>f \<in> set (take ?n fs). cmd_buffer f \<noteq> None"
    using n frame_has_commands by (fastforce simp: in_set_conv_nth)
  have "\<exists>i l'. run_frames D ?n g l = Some (g\<lparr>frame_index := i\<rparr>, l') \<and> pending l' = Some (frames_in_flight fs (0 + ?n)) \<and>
      unat i = (0 + ?n) mod ?n"
    by (rule frames_pending [OF assms(1,5) n(1) assms(4) cbs assms(7,8)])
      (use assms(3,6) in \<open>simp_all add: frames_in_flight_def\<close>)
  then obtain i l' where run: "run_frames D ?n g l = Some (g\<lparr>frame_index := i\<rparr>, l')" "pending l' = Some (frames_in_flight fs ?n)"
    "unat i = 0" by auto
  obtain cb where cb: "cmd_buffer (fs ! 0) = Some cb" using n(2) pos frame_has_commands by blast
  have now: "gpu_frame_now (g\<lparr>frame_index := i\<rparr>) = Some (fs ! 0, cb)"
    using run(3) len cb by (simp add: gpu_frame_now_def get_frame_def arr_get_def assms(5))
  have "fs ! 0 \<in> set (take ?n fs)" using len pos by (auto simp: in_set_conv_nth intro!: exI [of _ 0])
  then have "(cb_buffer cb, fence (fs ! 0)) \<in> set (frames_in_flight fs ?n)"
    by (force simp: frames_in_flight_def frame_pair_def cb intro: rev_image_eqI)
  then have "cb_buffer cb \<in> fst ` set (frames_in_flight fs ?n)" by force
  with begin_pending [OF assms(1) run(2) now]
  have "\<exists>r l2. gpu_frame_begin D (g\<lparr>frame_index := i\<rparr>) l' = Some (r, l2) \<and> pending l2 = None" by simp
  moreover have "pending (gpu_wait_until_idle D (g\<lparr>frame_index := i\<rparr>) l') = Some []"
    using assms(1) by (simp add: gpu_wait_until_idle_def pending_issued run(2))
  from begin_pending [OF assms(1) this now]
  have "\<exists>r l2. gpu_frame_begin D (g\<lparr>frame_index := i\<rparr>) (gpu_wait_until_idle D (g\<lparr>frame_index := i\<rparr>) l') = Some (r, l2) \<and>
      pending l2 = Some []" by simp
  ultimately show ?thesis using run by auto
qed


lemma sample_idle:
  "\<exists>g l p f. gpu_create sample_driver False 7 [] = Some (Some g, l) \<and> frame_count g = 1 \<and> frames g = Some (p, [f]) \<and>
    pending l = Some []"
proof -
  have "map_option (\<lambda>(r, l). (map_option (\<lambda>g. (frame_count g, map_option (\<lambda>(p, fs). length fs) (frames g))) r, pending l))
      (gpu_create sample_driver False 7 []) = Some (Some (1, Some 1), Some [])" by code_simp
  then show ?thesis by (auto simp: length_Suc_conv)
qed

theorem gpu_frame_begin_while_pending_witness:
  "\<exists>g l g' l' r l2. gpu_create sample_driver False 7 [] = Some (Some g, l) \<and> run_frames sample_driver 1 g l = Some (g', l') \<and>
     gpu_frame_begin sample_driver g' l' = Some (r, l2) \<and> pending l2 = None"
proof -
  obtain g l p f where g: "gpu_create sample_driver False 7 [] = Some (Some g, l)" "frame_count g = 1"
    "frames g = Some (p, [f])" "pending l = Some []" using sample_idle by blast
  have "gpu_complete g \<and> frame_index g = 0"
    by (rule gpu_created [OF sample_driver_ok, of "[]" "{#}" False 7])
      (use g in \<open>auto simp: live_objects_def heap_only_def\<close>)
  with gpu_frame_begin_while_pending [of sample_driver g p "[f]" l] g show ?thesis
    by (auto simp: sample_driver_def)
qed

end
