(* ===== verification/Thread_Test.thy ===== *)
theory Thread_Test
  imports Sync
begin

text \<open>
  The thread test of \<^verbatim>\<open>lecture7.c\<close>: eight threads count to 100000 each on one counter, without
  synchronisation, with atomic loads and stores, with atomic increments or under a mutex.

  A step is one access to shared state of one thread, or a step of the main thread, or a tick of the
  clock; they interleave in every order.  The accesses of \<^verbatim>\<open>no_synchronization_func\<close> are taken to be
  single loads and stores (C leaves the data race undefined).
\<close>

section \<open>The threads\<close>

datatype thread_func = no_synchronization_func | atomic_load_store_func | atomic_increment_func | mutex_func

text \<open>Where a thread is: what it does next, and the value it has loaded or returned.\<close>

datatype phase = At_start | At_clock | At_test | At_increment | At_lock | At_load | At_store c_int | At_unlock
  | Exited c_int

record test_thread_t =
  phase :: phase
  loop_i :: nat
  clock_t0 :: u32

text \<open>What \<^verbatim>\<open>thread_data_t\<close> points to, and the clock.\<close>

record ('e, 'm) thread_data_t =
  counter :: c_int
  data_mutex :: 'm
  data_start :: 'e
  time_now :: u32

fun first_access :: "thread_func \<Rightarrow> phase" where
  "first_access atomic_increment_func = At_increment"
| "first_access mutex_func = At_lock"
| "first_access _ = At_load"

definition loop_next :: "test_thread_t \<Rightarrow> test_thread_t" where
  "loop_next t = t\<lparr>phase := At_test, loop_i := Suc (loop_i t)\<rparr>"

text \<open>\<open>None\<close>: the thread \<open>k\<close> waits, or has returned.\<close>

definition thread_step ::
  "'e event_api \<Rightarrow> 'm mutex_api \<Rightarrow> thread_func \<Rightarrow> nat \<Rightarrow> test_thread_t \<Rightarrow> ('e, 'm) thread_data_t \<Rightarrow>
   (test_thread_t \<times> ('e, 'm) thread_data_t) option" where
  "thread_step E X f k t d =
     (case phase t of
        At_start \<Rightarrow> do { e \<leftarrow> event_wait E (data_start d); Some (t\<lparr>phase := At_clock\<rparr>, d\<lparr>data_start := e\<rparr>) }
      | At_clock \<Rightarrow> Some (t\<lparr>phase := At_test, loop_i := 0, clock_t0 := time_now d\<rparr>, d)
      | At_test \<Rightarrow> Some (if loop_i t < 100000 then t\<lparr>phase := first_access f\<rparr>
                        else t\<lparr>phase := Exited (time_now d - clock_t0 t)\<rparr>, d)
      | At_increment \<Rightarrow> Some (loop_next t, d\<lparr>counter := snd (atomic_increment (counter d))\<rparr>)
      | At_lock \<Rightarrow> do { m \<leftarrow> mutex_lock X k (data_mutex d); Some (t\<lparr>phase := At_load\<rparr>, d\<lparr>data_mutex := m\<rparr>) }
      | At_load \<Rightarrow> Some (t\<lparr>phase := At_store (atomic_load (counter d))\<rparr>, d)
      | At_store v \<Rightarrow> Some (if f = mutex_func then t\<lparr>phase := At_unlock\<rparr> else loop_next t,
                         d\<lparr>counter := atomic_store (counter d) (v + 1)\<rparr>)
      | At_unlock \<Rightarrow> Some (loop_next t, d\<lparr>data_mutex := mutex_unlock X k (data_mutex d)\<rparr>)
      | Exited c \<Rightarrow> None)"

section \<open>The test\<close>

datatype main_pc = Creating | Signalling | Joining nat | Printed

record ('e, 'm) timed_test =
  test_data :: "('e, 'm) thread_data_t"
  test_threads :: "test_thread_t list"
  main_pc :: main_pc
  test_duration :: c_int
  test_output :: "(c_int \<times> c_int) option"

text \<open>The test before its first thread is created; the clock shows \<open>now\<close>.\<close>

definition run_timed_test :: "'e event_api \<Rightarrow> 'm mutex_api \<Rightarrow> u32 \<Rightarrow> ('e, 'm) timed_test" where
  "run_timed_test E X now =
     \<lparr>test_data = \<lparr>counter = 0, data_mutex = mutex_create X, data_start = event_create E, time_now = now\<rparr>,
      test_threads = [], main_pc = Creating, test_duration = 0, test_output = None\<rparr>"

definition new_thread :: test_thread_t where
  "new_thread = \<lparr>phase = At_start, loop_i = 0, clock_t0 = 0\<rparr>"

text \<open>
  The main thread creates eight threads, raises the event, joins the threads in order and prints.  (The
  creation of a thread is taken to succeed.)
\<close>

definition main_step :: "'e event_api \<Rightarrow> ('e, 'm) timed_test \<Rightarrow> ('e, 'm) timed_test option" where
  "main_step E s =
     (case main_pc s of
        Creating \<Rightarrow> Some (if length (test_threads s) < 8 then s\<lparr>test_threads := test_threads s @ [new_thread]\<rparr>
                         else s\<lparr>main_pc := Signalling\<rparr>)
      | Signalling \<Rightarrow> Some (s\<lparr>test_data := (test_data s)\<lparr>data_start := event_signal E (data_start (test_data s))\<rparr>,
                               main_pc := Joining 0\<rparr>)
      | Joining i \<Rightarrow>
          if i < 8
          then (case phase (test_threads s ! i) of
                  Exited code \<Rightarrow> Some (s\<lparr>main_pc := Joining (Suc i), test_duration := test_duration s + code\<rparr>)
                | _ \<Rightarrow> None)
          else Some (s\<lparr>main_pc := Printed, test_output := Some (test_duration s, counter (test_data s))\<rparr>)
      | Printed \<Rightarrow> None)"

inductive test_run :: "'e event_api \<Rightarrow> 'm mutex_api \<Rightarrow> thread_func \<Rightarrow> ('e, 'm) timed_test \<Rightarrow> ('e, 'm) timed_test \<Rightarrow> bool"
  for E X f where
  thread: "k < length (test_threads s) \<Longrightarrow> thread_step E X f k (test_threads s ! k) (test_data s) = Some (t, d) \<Longrightarrow>
     test_run E X f s (s\<lparr>test_threads := (test_threads s)[k := t], test_data := d\<rparr>)"
| main: "main_step E s = Some s' \<Longrightarrow> test_run E X f s s'"

text \<open>Every step of the program, and the clock.\<close>

inductive test_step :: "'e event_api \<Rightarrow> 'm mutex_api \<Rightarrow> thread_func \<Rightarrow> ('e, 'm) timed_test \<Rightarrow> ('e, 'm) timed_test \<Rightarrow> bool"
  for E X f where
  run: "test_run E X f s s' \<Longrightarrow> test_step E X f s s'"
| tick: "test_step E X f s (s\<lparr>test_data := (test_data s)\<lparr>time_now := time_now (test_data s) + 1\<rparr>\<rparr>)"

inductive test_reach :: "'e event_api \<Rightarrow> 'm mutex_api \<Rightarrow> thread_func \<Rightarrow> ('e, 'm) timed_test \<Rightarrow> bool"
  for E X f where
  start: "test_reach E X f (run_timed_test E X now)"
| step: "test_reach E X f s \<Longrightarrow> test_step E X f s s' \<Longrightarrow> test_reach E X f s'"

inductive_cases test_runE: "test_run E X f s s'"
inductive_cases test_stepE: "test_step E X f s s'"

section \<open>The program\<close>

text \<open>Where a thread can be while it runs \<open>f\<close>, and how far its loop is.\<close>

fun phase_ok :: "thread_func \<Rightarrow> phase \<Rightarrow> nat \<Rightarrow> bool" where
  "phase_ok f At_start i \<longleftrightarrow> i = 0"
| "phase_ok f At_clock i \<longleftrightarrow> i = 0"
| "phase_ok f At_test i \<longleftrightarrow> i \<le> 100000"
| "phase_ok f At_increment i \<longleftrightarrow> f = atomic_increment_func \<and> i < 100000"
| "phase_ok f At_lock i \<longleftrightarrow> f = mutex_func \<and> i < 100000"
| "phase_ok f At_load i \<longleftrightarrow> f \<noteq> atomic_increment_func \<and> i < 100000"
| "phase_ok f (At_store v) i \<longleftrightarrow> f \<noteq> atomic_increment_func \<and> i < 100000"
| "phase_ok f At_unlock i \<longleftrightarrow> f = mutex_func \<and> i < 100000"
| "phase_ok f (Exited c) i \<longleftrightarrow> i = 100000"

definition thread_ok :: "thread_func \<Rightarrow> test_thread_t \<Rightarrow> bool" where
  "thread_ok f t \<longleftrightarrow> phase_ok f (phase t) (loop_i t)"

definition exit_code :: "test_thread_t \<Rightarrow> c_int" where
  "exit_code t = (case phase t of Exited c \<Rightarrow> c | _ \<Rightarrow> 0)"

definition has_exited :: "test_thread_t \<Rightarrow> bool" where
  "has_exited t \<longleftrightarrow> (\<exists>c. phase t = Exited c)"

text \<open>The main thread and the event.\<close>

definition main_ok :: "('e \<Rightarrow> bool) \<Rightarrow> ('e, 'm) timed_test \<Rightarrow> bool" where
  "main_ok signalled s \<longleftrightarrow>
     (case main_pc s of
        Creating \<Rightarrow> length (test_threads s) \<le> 8 \<and> test_duration s = 0
      | Signalling \<Rightarrow> length (test_threads s) = 8 \<and> test_duration s = 0
      | Joining i \<Rightarrow> length (test_threads s) = 8 \<and> i \<le> 8 \<and> signalled (data_start (test_data s)) \<and>
          (\<forall>j < i. has_exited (test_threads s ! j)) \<and>
          test_duration s = sum_list (map exit_code (take i (test_threads s)))
      | Printed \<Rightarrow> length (test_threads s) = 8 \<and> (\<forall>t \<in> set (test_threads s). has_exited t) \<and>
          test_output s = Some (sum_list (map exit_code (test_threads s)), counter (test_data s)))"

definition program_ok :: "('e \<Rightarrow> bool) \<Rightarrow> thread_func \<Rightarrow> ('e, 'm) timed_test \<Rightarrow> bool" where
  "program_ok signalled f s \<longleftrightarrow> (\<forall>t \<in> set (test_threads s). thread_ok f t) \<and> main_ok signalled s"

lemma thread_step_ok:
  "thread_ok f t \<Longrightarrow> thread_step E X f k t d = Some (t', d') \<Longrightarrow> thread_ok f t'"
  by (cases f; cases "phase t")
    (auto simp: thread_ok_def thread_step_def loop_next_def split: Option.bind_splits if_splits)

lemma thread_step_not_exited: "thread_step E X f k t d = Some (t', d') \<Longrightarrow> \<not> has_exited t"
  by (auto simp: thread_step_def has_exited_def)

lemma thread_step_event:
  "event_laws E signalled \<Longrightarrow> thread_step E X f k t d = Some (t', d') \<Longrightarrow> data_start d' = data_start d"
  by (cases "phase t") (auto simp: thread_step_def event_laws_wait split: Option.bind_splits if_splits)

lemma exited_same:
  assumes "has_exited (ts ! j)" and "\<not> has_exited (ts ! k)"
  shows "ts[k := t] ! j = ts ! j"
  using assms by (cases "j = k") auto

lemma take_exited_same:
  assumes "\<forall>j < i. has_exited (ts ! j)" and "\<not> has_exited (ts ! k)"
  shows "take i (ts[k := t]) = take i ts"
proof -
  have "i \<le> k" using assms by (meson not_le)
  then show ?thesis by simp
qed

lemma new_thread_ok: "thread_ok f new_thread"
  by (simp add: thread_ok_def new_thread_def)

lemma program_thread:
  assumes E: "event_laws E signalled" and ok: "program_ok signalled f s" and k: "k < length (test_threads s)"
    and st: "thread_step E X f k (test_threads s ! k) (test_data s) = Some (t, d)"
  shows "program_ok signalled f (s\<lparr>test_threads := (test_threads s)[k := t], test_data := d\<rparr>)"
proof -
  note run = thread_step_not_exited [OF st] and ev = thread_step_event [OF E st]
  have "thread_ok f (test_threads s ! k)" using ok k by (simp add: program_ok_def)
  from thread_step_ok [OF this st] have "\<forall>t \<in> set ((test_threads s)[k := t]). thread_ok f t"
    using ok set_update_subset_insert [of "test_threads s" k t] by (auto simp: program_ok_def)
  moreover have "main_ok signalled (s\<lparr>test_threads := (test_threads s)[k := t], test_data := d\<rparr>)"
  proof (cases "main_pc s")
    case (Joining i)
    then have m: "length (test_threads s) = 8" "i \<le> 8" "signalled (data_start (test_data s))"
      "\<forall>j < i. has_exited (test_threads s ! j)"
      "test_duration s = sum_list (map exit_code (take i (test_threads s)))"
      using ok by (auto simp: program_ok_def main_ok_def)
    have "\<forall>j < i. has_exited ((test_threads s)[k := t] ! j)" using m(4) exited_same [OF _ run] by simp
    with m ev take_exited_same [OF m(4) run] Joining show ?thesis by (simp add: main_ok_def)
  next
    case Printed
    with ok k run show ?thesis by (auto simp: program_ok_def main_ok_def)
  qed (use ok in \<open>auto simp: program_ok_def main_ok_def\<close>)
  ultimately show ?thesis by (simp add: program_ok_def)
qed

lemma program_main:
  assumes E: "event_laws E signalled" and ok: "program_ok signalled f s" and st: "main_step E s = Some s'"
  shows "program_ok signalled f s'"
proof (cases "main_pc s")
  case Creating
  with ok st show ?thesis
    by (auto simp: program_ok_def main_ok_def main_step_def new_thread_ok split: if_splits)
next
  case Signalling
  with ok st event_laws_signal [OF E] show ?thesis by (auto simp: program_ok_def main_ok_def main_step_def)
next
  case (Joining i)
  then have m: "length (test_threads s) = 8" "i \<le> 8" "signalled (data_start (test_data s))"
    "\<forall>j < i. has_exited (test_threads s ! j)"
    "test_duration s = sum_list (map exit_code (take i (test_threads s)))"
    using ok by (auto simp: program_ok_def main_ok_def)
  show ?thesis
  proof (cases "i < 8")
    case True
    with st Joining obtain c where c: "phase (test_threads s ! i) = Exited c"
      "s' = s\<lparr>main_pc := Joining (Suc i), test_duration := test_duration s + c\<rparr>"
      by (auto simp: main_step_def split: phase.splits)
    have "take (Suc i) (test_threads s) = take i (test_threads s) @ [test_threads s ! i]"
      using True m(1) by (simp add: take_Suc_conv_app_nth)
    moreover have "exit_code (test_threads s ! i) = c" by (simp add: exit_code_def c(1))
    ultimately show ?thesis using ok m True c by (auto simp: program_ok_def main_ok_def less_Suc_eq has_exited_def)
  next
    case False
    with m have "\<forall>t \<in> set (test_threads s). has_exited t" by (auto simp: in_set_conv_nth)
    with ok st m Joining False show ?thesis by (auto simp: program_ok_def main_ok_def main_step_def)
  qed
qed (use st in \<open>simp add: main_step_def\<close>)

lemma program_reach:
  assumes "event_laws E signalled" and "test_reach E X f s"
  shows "program_ok signalled f s"
  using assms(2)
proof induction
  case (start now)
  show ?case by (simp add: program_ok_def main_ok_def run_timed_test_def)
next
  case (step s s')
  from step.hyps(2) show ?case
  proof cases
    case run
    then show ?thesis
      using program_thread [OF assms(1) step.IH] program_main [OF assms(1) step.IH] by (auto elim!: test_runE)
  next
    case tick
    with step.IH show ?thesis by (simp add: program_ok_def main_ok_def split: main_pc.splits)
  qed
qed

section \<open>Termination\<close>

text \<open>The work that is left: it bounds the number of steps of the program.\<close>

definition thread_work :: "test_thread_t \<Rightarrow> nat" where
  "thread_work t = (case phase t of
       At_start \<Rightarrow> 600010 | At_clock \<Rightarrow> 600009
     | At_test \<Rightarrow> 6 * (100000 - loop_i t) + 8
     | At_lock \<Rightarrow> 6 * (100000 - loop_i t) + 7 | At_increment \<Rightarrow> 6 * (100000 - loop_i t) + 7
     | At_load \<Rightarrow> 6 * (100000 - loop_i t) + 6 | At_store v \<Rightarrow> 6 * (100000 - loop_i t) + 5
     | At_unlock \<Rightarrow> 6 * (100000 - loop_i t) + 4 | Exited c \<Rightarrow> 0)"

definition test_work :: "('e, 'm) timed_test \<Rightarrow> nat" where
  "test_work s = sum_list (map thread_work (test_threads s)) +
     (case main_pc s of Creating \<Rightarrow> 600011 * (8 - length (test_threads s)) + 20 | Signalling \<Rightarrow> 19
      | Joining i \<Rightarrow> 9 + (8 - i) | Printed \<Rightarrow> 0)"

lemma thread_step_work:
  "thread_ok f t \<Longrightarrow> thread_step E X f k t d = Some (t', d') \<Longrightarrow> thread_work t' < thread_work t"
  by (cases f; cases "phase t")
    (auto simp: thread_ok_def thread_step_def thread_work_def loop_next_def split: Option.bind_splits if_splits)

lemma sum_list_less:
  fixes h :: "'b \<Rightarrow> nat"
  shows "k < length xs \<Longrightarrow> h x < h (xs ! k) \<Longrightarrow> sum_list (map h (xs[k := x])) < sum_list (map h xs)"
  by (induction xs arbitrary: k) (auto simp: nth_Cons split: nat.splits)

lemma test_run_work:
  assumes ok: "program_ok signalled f s" and "test_run E X f s s'"
  shows "test_work s' < test_work s"
  using assms(2)
proof cases
  case (thread k t d)
  have "thread_ok f (test_threads s ! k)" using ok thread(2) by (simp add: program_ok_def)
  from sum_list_less [OF thread(2) thread_step_work [OF this thread(3)]] thread(1) show ?thesis
    by (simp add: test_work_def split: main_pc.split)
next
  case main
  then show ?thesis using ok
    by (cases "main_pc s") (auto simp: main_step_def test_work_def program_ok_def main_ok_def thread_work_def new_thread_def
        split: if_splits phase.splits)
qed

section \<open>The mutex\<close>

fun in_section :: "phase \<Rightarrow> bool" where
  "in_section At_load \<longleftrightarrow> True"
| "in_section (At_store v) \<longleftrightarrow> True"
| "in_section At_unlock \<longleftrightarrow> True"
| "in_section _ \<longleftrightarrow> False"

text \<open>
  Exactly the owner of the mutex is between \<^verbatim>\<open>mutex_lock\<close> and \<^verbatim>\<open>mutex_unlock\<close>, and the value a thread has
  loaded there is the value of the counter.
\<close>

definition section_ok :: "('m \<Rightarrow> (tid \<times> nat) option) \<Rightarrow> test_thread_t list \<Rightarrow> ('e, 'm) thread_data_t \<Rightarrow> bool" where
  "section_ok holder ts d \<longleftrightarrow>
     (\<forall>k < length ts. in_section (phase (ts ! k)) \<longleftrightarrow> holder (data_mutex d) = Some (k, 1)) \<and>
     (\<forall>k n. holder (data_mutex d) = Some (k, n) \<longrightarrow> n = 1 \<and> k < length ts) \<and>
     (\<forall>k < length ts. \<forall>v. phase (ts ! k) = At_store v \<longrightarrow> v = counter d)"

lemma section_step:
  assumes X: "mutex_laws X holder" and ok: "section_ok holder ts d" and t: "\<forall>t \<in> set ts. thread_ok mutex_func t"
    and k: "k < length ts" and st: "thread_step E X mutex_func k (ts ! k) d = Some (t', d')"
  shows "section_ok holder (ts[k := t']) d'"
proof -
  have ok1: "\<And>j. j < length ts \<Longrightarrow> in_section (phase (ts ! j)) \<longleftrightarrow> holder (data_mutex d) = Some (j, 1)"
    and ok2: "\<And>j n. holder (data_mutex d) = Some (j, n) \<Longrightarrow> n = 1 \<and> j < length ts"
    and ok3: "\<And>j v. j < length ts \<Longrightarrow> phase (ts ! j) = At_store v \<Longrightarrow> v = counter d"
    using ok by (auto simp: section_ok_def)
  have tk: "thread_ok mutex_func (ts ! k)" using t k by simp
  have keep: "section_ok holder (ts[k := t']) d'"
    if "in_section (phase t') = in_section (phase (ts ! k))" "data_mutex d' = data_mutex d" "counter d' = counter d"
      "\<And>v. phase t' = At_store v \<Longrightarrow> v = counter d"
  proof -
    have "in_section (phase (ts[k := t'] ! j)) \<longleftrightarrow> holder (data_mutex d') = Some (j, 1)" if "j < length ts" for j
      using ok1 [OF that] \<open>in_section (phase t') = _\<close> \<open>data_mutex d' = _\<close> by (cases "j = k") (simp_all add: that k)
    moreover have "v = counter d'" if "j < length ts" "phase (ts[k := t'] ! j) = At_store v" for j v
      using ok3 [OF that(1), of v] \<open>counter d' = _\<close> \<open>\<And>v. phase t' = At_store v \<Longrightarrow> _\<close> that k
      by (cases "j = k") simp_all
    ultimately show ?thesis using ok2 \<open>data_mutex d' = _\<close> unfolding section_ok_def by simp
  qed
  show ?thesis
  proof (cases "phase (ts ! k)")
    case At_lock
    with st obtain m where m: "mutex_lock X k (data_mutex d) = Some m" "t' = (ts ! k)\<lparr>phase := At_load\<rparr>"
      "d' = d\<lparr>data_mutex := m\<rparr>" by (auto simp: thread_step_def split: Option.bind_splits)
    have free: "holder (data_mutex d) = None"
    proof (rule ccontr)
      assume "holder (data_mutex d) \<noteq> None"
      then obtain j where j: "holder (data_mutex d) = Some (j, 1)" using ok2 by fastforce
      have "j \<noteq> k" using ok1 [OF k] At_lock j by auto
      with mutex_lock_held [OF X j] m(1) show False by simp
    qed
    from mutex_lock_free [OF X free, of k] m(1) have "holder m = Some (k, 1)" by auto
    with m(2,3) k ok1 ok3 free show ?thesis by (auto simp: section_ok_def nth_list_update)
  next
    case At_unlock
    with st have e: "t' = loop_next (ts ! k)" "d' = d\<lparr>data_mutex := mutex_unlock X k (data_mutex d)\<rparr>"
      by (auto simp: thread_step_def)
    have h: "holder (data_mutex d) = Some (k, 1)" using ok1 [OF k] At_unlock by simp
    with mutex_unlock_last [OF X] have "holder (mutex_unlock X k (data_mutex d)) = None" by blast
    with e k ok1 ok3 h show ?thesis by (auto simp: section_ok_def nth_list_update loop_next_def)
  next
    case (At_store v)
    with st have e: "t' = (ts ! k)\<lparr>phase := At_unlock\<rparr>" "data_mutex d' = data_mutex d"
      by (auto simp: thread_step_def)
    have h: "holder (data_mutex d) = Some (k, 1)" using ok1 [OF k] At_store by simp
    have "phase (ts ! j) \<noteq> At_store w" if "j < length ts" "j \<noteq> k" for j w
      using ok1 [OF that(1)] h that(2) by auto
    with e k ok1 ok2 h show ?thesis by (auto simp: section_ok_def nth_list_update)
  next
    case At_increment
    with tk show ?thesis by (simp add: thread_ok_def)
  qed (rule keep; use st in \<open>auto simp: thread_step_def atomic_load_def split: Option.bind_splits if_splits\<close>)+
qed

lemma section_new:
  assumes "section_ok holder ts d"
  shows "section_ok holder (ts @ [new_thread]) d"
proof -
  have "holder (data_mutex d) \<noteq> Some (length ts, 1)" using assms by (auto simp: section_ok_def)
  moreover have "\<forall>k n. holder (data_mutex d) = Some (k, n) \<longrightarrow> n = 1 \<and> k < length ts"
    using assms by (simp add: section_ok_def)
  ultimately show ?thesis
    using assms unfolding section_ok_def length_append less_Suc_eq new_thread_def
    by (simp add: nth_append less_Suc_eq all_conj_distrib) (blast intro: trans_less_add1)
qed

lemma section_same [simp]:
  "section_ok holder ts (d\<lparr>data_start := e\<rparr>) = section_ok holder ts d"
  "section_ok holder ts (d\<lparr>time_now := n\<rparr>) = section_ok holder ts d"
  by (simp_all add: section_ok_def)

section \<open>The counter\<close>

text \<open>The iterations a thread has stored.\<close>

definition stored :: "test_thread_t \<Rightarrow> nat" where
  "stored t = loop_i t + (if phase t = At_unlock then 1 else 0)"

lemma stored_new: "stored new_thread = 0"
  by (simp add: stored_def new_thread_def)

definition exact :: "thread_func \<Rightarrow> bool" where
  "exact f \<longleftrightarrow> f = atomic_increment_func \<or> f = mutex_func"

definition counted :: "('m \<Rightarrow> (tid \<times> nat) option) \<Rightarrow> thread_func \<Rightarrow> ('e, 'm) timed_test \<Rightarrow> bool" where
  "counted holder f s \<longleftrightarrow> (f = mutex_func \<longrightarrow> section_ok holder (test_threads s) (test_data s)) \<and>
     (exact f \<longrightarrow> counter (test_data s) = word_of_nat (sum_list (map stored (test_threads s))))"

lemma stored_step:
  assumes "exact f" and "thread_ok f t" and "thread_step E X f k t d = Some (t', d')"
    and "\<And>v. phase t = At_store v \<Longrightarrow> v = counter d"
  shows "\<exists>n. stored t' = stored t + n \<and> counter d' = counter d + word_of_nat n"
  using assms
  by (cases f; cases "phase t")
    (auto simp: exact_def thread_ok_def thread_step_def stored_def loop_next_def atomic_store_def
      intro: exI [of _ 0] exI [of _ 1] split: Option.bind_splits if_splits)

lemma sum_stored:
  "k < length ts \<Longrightarrow> stored t = stored (ts ! k) + n \<Longrightarrow>
   sum_list (map stored (ts[k := t])) = sum_list (map stored ts) + n"
  by (induction ts arbitrary: k) (auto simp: nth_Cons split: nat.splits)

lemma counted_run:
  assumes X: "mutex_laws X holder" and p: "program_ok signalled f s" and c: "counted holder f s"
    and "test_run E X f s s'"
  shows "counted holder f s'"
  using assms(4)
proof cases
  case (thread k t d)
  let ?ts = "test_threads s"
  have ts: "\<forall>t \<in> set ?ts. thread_ok f t" using p by (simp add: program_ok_def)
  have sec: "f = mutex_func \<longrightarrow> section_ok holder (?ts[k := t]) d"
    using c section_step [OF X _ _ thread(2)] thread(3) ts by (auto simp: counted_def)
  have "\<exists>n. stored t = stored (?ts ! k) + n \<and> counter d = counter (test_data s) + word_of_nat n" if f: "exact f"
  proof (rule stored_step [OF f _ thread(3)])
    show "thread_ok f (?ts ! k)" using ts thread(2) by simp
    show "v = counter (test_data s)" if "phase (?ts ! k) = At_store v" for v
      using f c that thread(2) \<open>thread_ok f (?ts ! k)\<close>
      by (auto simp: exact_def counted_def section_ok_def thread_ok_def)
  qed
  then have "counter d = word_of_nat (sum_list (map stored (?ts[k := t])))" if "exact f"
    using that c sum_stored [OF thread(2)] by (fastforce simp: counted_def)
  with sec thread(1) show ?thesis by (simp add: counted_def)
next
  case main
  then show ?thesis
  proof (cases "main_pc s")
    case Creating
    with main c show ?thesis
      by (auto simp: main_step_def counted_def section_new stored_new split: if_splits)
  next
    case (Joining i)
    with main c show ?thesis by (auto simp: main_step_def counted_def split: if_splits phase.splits)
  qed (use main c in \<open>auto simp: main_step_def counted_def\<close>)
qed


lemma counted_reach:
  assumes E: "event_laws E signalled" and X: "mutex_laws X holder" and "test_reach E X f s"
  shows "counted holder f s"
  using assms(3)
proof induction
  case (start now)
  show ?case
    using X by (simp add: counted_def run_timed_test_def section_ok_def mutex_laws_def mutex_create_def)
next
  case (step s s')
  from step.hyps(2) show ?case
  proof cases
    case run
    then show ?thesis by (rule counted_run [OF X program_reach [OF E step.hyps(1)] step.IH])
  next
    case tick
    with step.IH show ?thesis by (simp add: counted_def)
  qed
qed

lemma all_exited_stored:
  assumes "\<forall>t \<in> set ts. thread_ok f t \<and> has_exited t"
  shows "sum_list (map stored ts) = 100000 * length ts"
  using assms by (induction ts) (auto simp: thread_ok_def has_exited_def stored_def)

text \<open>A thread that has not returned can go on, unless another one has the mutex.\<close>

lemma thread_can_step:
  assumes E: "event_laws E signalled" and X: "mutex_laws X holder" and ev: "signalled (data_start d)"
    and t: "\<not> has_exited t" and free: "phase t = At_lock \<Longrightarrow> holder (data_mutex d) = None"
  shows "\<exists>t' d'. thread_step E X f k t d = Some (t', d')"
proof (cases "phase t")
  case At_lock
  with free obtain m where "mutex_lock X k (data_mutex d) = Some m" using mutex_lock_free [OF X] by blast
  with At_lock show ?thesis by (simp add: thread_step_def)
qed (use ev t in \<open>simp_all add: thread_step_def event_laws_wait [OF E] has_exited_def\<close>)

lemma test_can_run:
  assumes E: "event_laws E signalled" and X: "mutex_laws X holder" and p: "program_ok signalled f s"
    and c: "counted holder f s" and run: "main_pc s \<noteq> Printed"
  shows "\<exists>s'. test_run E X f s s'"
proof -
  let ?ts = "test_threads s" and ?d = "test_data s"
  have can: "\<exists>s'. test_run E X f s s'" if "main_step E s \<noteq> None" using that test_run.main by blast
  have thread: "\<exists>s'. test_run E X f s s'"
    if "k < length ?ts" "\<not> has_exited (?ts ! k)" "signalled (data_start ?d)"
      "phase (?ts ! k) = At_lock \<Longrightarrow> holder (data_mutex ?d) = None" for k
    using thread_can_step [OF E X that(3,2,4), of f k] test_run.thread [OF that(1)] by blast
  show ?thesis
  proof (cases "main_pc s")
    case (Joining i)
    with p have m: "length ?ts = 8" "signalled (data_start ?d)" by (auto simp: program_ok_def main_ok_def)
    show ?thesis
    proof (cases "i < 8 \<and> \<not> has_exited (?ts ! i)")
      case False
      with Joining show ?thesis by (intro can) (auto simp: main_step_def has_exited_def split: phase.splits)
    next
      case True
      show ?thesis
      proof (cases "phase (?ts ! i) = At_lock \<and> holder (data_mutex ?d) \<noteq> None")
        case False
        with True m show ?thesis by (intro thread [of i]) (auto simp del: not_None_eq)
      next
        case stuck: True
        have "thread_ok f (?ts ! i)" using p True m(1) by (simp add: program_ok_def)
        with stuck have f: "f = mutex_func" by (simp add: thread_ok_def)
        with c have sec: "section_ok holder ?ts ?d" by (simp add: counted_def)
        with stuck obtain k where k: "k < length ?ts" "holder (data_mutex ?d) = Some (k, 1)"
          unfolding section_ok_def by fastforce
        then have "in_section (phase (?ts ! k))" using sec by (simp add: section_ok_def)
        then show ?thesis using k(1) m(2) by (intro thread [of k]) (auto simp: has_exited_def)
      qed
    qed
  qed (use run in \<open>auto intro!: can simp: main_step_def\<close>)
qed


section \<open>Lost updates\<close>

text \<open>Runs of one thread at a time.\<close>

abbreviation test_runs ::
  "'e event_api \<Rightarrow> 'm mutex_api \<Rightarrow> thread_func \<Rightarrow> ('e, 'm) timed_test \<Rightarrow> ('e, 'm) timed_test \<Rightarrow> bool" where
  "test_runs E X f \<equiv> (test_run E X f)\<^sup>*\<^sup>*"

text \<open>The state during the run: the threads, the counter, and the main thread joining the first thread.\<close>

definition mid_test :: "'e \<Rightarrow> 'm \<Rightarrow> u32 \<Rightarrow> test_thread_t list \<Rightarrow> c_int \<Rightarrow> ('e, 'm) timed_test" where
  "mid_test e m now ts c =
     \<lparr>test_data = \<lparr>counter = c, data_mutex = m, data_start = e, time_now = now\<rparr>,
      test_threads = ts, main_pc = Joining 0, test_duration = 0, test_output = None\<rparr>"

lemma mid_thread:
  assumes "k < length ts" and "thread_step E X f k (ts ! k) \<lparr>counter = c, data_mutex = m, data_start = e, time_now = now\<rparr> =
      Some (t, \<lparr>counter = c', data_mutex = m, data_start = e, time_now = now\<rparr>)"
  shows "test_run E X f (mid_test e m now ts c) (mid_test e m now (ts[k := t]) c')"
  using test_run.thread [of k "mid_test e m now ts c" E X f] assms by (simp add: mid_test_def)

definition looping :: "u32 \<Rightarrow> phase \<Rightarrow> nat \<Rightarrow> test_thread_t" where
  "looping now p i = \<lparr>phase = p, loop_i = i, clock_t0 = now\<rparr>"

lemma mid_iteration:
  assumes k: "k < length ts" and f: "f = atomic_load_store_func" and i: "i < 100000"
  shows "test_runs E X f (mid_test e m now (ts[k := looping now At_test i]) c)
    (mid_test e m now (ts[k := looping now At_test (Suc i)]) (c + 1))"
proof -
  note step = mid_thread [of k "ts[k := _]" E X f, simplified, OF k]
  have "test_run E X f (mid_test e m now (ts[k := looping now At_test i]) c) (mid_test e m now (ts[k := looping now At_load i]) c)"
    by (rule step) (use k f i in \<open>simp add: thread_step_def looping_def\<close>)
  moreover have "test_run E X f (mid_test e m now (ts[k := looping now At_load i]) c) (mid_test e m now (ts[k := looping now (At_store c) i]) c)"
    by (rule step) (use k in \<open>simp add: thread_step_def looping_def atomic_load_def\<close>)
  moreover have "test_run E X f (mid_test e m now (ts[k := looping now (At_store c) i]) c)
      (mid_test e m now (ts[k := looping now At_test (Suc i)]) (c + 1))"
    by (rule step) (use k f in \<open>simp add: thread_step_def looping_def atomic_store_def loop_next_def\<close>)
  ultimately show ?thesis by (meson converse_rtranclp_into_rtranclp rtranclp.rtrancl_refl)
qed


lemma mid_loop:
  assumes k: "k < length ts" and f: "f = atomic_load_store_func"
  shows "i + n \<le> 100000 \<Longrightarrow> test_runs E X f (mid_test e m now (ts[k := looping now At_test i]) c)
    (mid_test e m now (ts[k := looping now At_test (i + n)]) (c + word_of_nat n))"
proof (induction n arbitrary: i c)
  case (Suc n)
  have "test_runs E X f (mid_test e m now (ts[k := looping now At_test i]) c)
      (mid_test e m now (ts[k := looping now At_test (Suc i)]) (c + 1))"
    by (rule mid_iteration [OF k f]) (use Suc.prems in simp)
  moreover have "test_runs E X f (mid_test e m now (ts[k := looping now At_test (Suc i)]) (c + 1))
      (mid_test e m now (ts[k := looping now At_test (Suc i + n)]) (c + 1 + word_of_nat n))"
    by (rule Suc.IH) (use Suc.prems in simp)
  ultimately have "test_runs E X f (mid_test e m now (ts[k := looping now At_test i]) c)
      (mid_test e m now (ts[k := looping now At_test (Suc i + n)]) (c + 1 + word_of_nat n))"
    by (rule rtranclp_trans)
  then show ?case by (simp add: algebra_simps)
qed simp

definition returned :: "u32 \<Rightarrow> test_thread_t" where
  "returned now = looping now (Exited 0) 100000"

lemma mid_finish:
  assumes k: "k < length ts" and f: "f = atomic_load_store_func" and "i + n = 100000"
  shows "test_runs E X f (mid_test e m now (ts[k := looping now At_test i]) c)
    (mid_test e m now (ts[k := returned now]) (c + word_of_nat n))"
proof -
  have "test_runs E X f (mid_test e m now (ts[k := looping now At_test i]) c)
      (mid_test e m now (ts[k := looping now At_test (i + n)]) (c + word_of_nat n))"
    by (rule mid_loop [OF k f]) (use assms(3) in simp)
  moreover have "test_run E X f (mid_test e m now (ts[k := looping now At_test (i + n)]) (c + word_of_nat n))
      (mid_test e m now (ts[k := returned now]) (c + word_of_nat n))"
    by (rule mid_thread [of k "ts[k := _]" E X f, simplified, OF k])
      (use k assms(3) in \<open>simp add: thread_step_def looping_def returned_def\<close>)
  ultimately show ?thesis by simp
qed

lemma mid_begin:
  assumes E: "event_laws E signalled" "signalled e" and k: "k < length ts" "ts ! k = new_thread"
  shows "test_runs E X f (mid_test e m now ts c) (mid_test e m now (ts[k := looping now At_test 0]) c)"
proof -
  have "test_run E X f (mid_test e m now ts c) (mid_test e m now (ts[k := new_thread\<lparr>phase := At_clock\<rparr>]) c)"
    by (rule mid_thread [OF k(1)]) (simp add: k thread_step_def new_thread_def event_laws_wait [OF E(1)] E(2))
  moreover have "test_run E X f (mid_test e m now (ts[k := new_thread\<lparr>phase := At_clock\<rparr>]) c)
      (mid_test e m now (ts[k := looping now At_test 0]) c)"
    by (rule mid_thread [of k "ts[k := _]" E X f, simplified, OF k(1)])
      (use k in \<open>simp add: thread_step_def looping_def new_thread_def\<close>)
  ultimately show ?thesis by (meson converse_rtranclp_into_rtranclp rtranclp.rtrancl_refl)
qed

lemma mid_solo:
  assumes E: "event_laws E signalled" "signalled e" and k: "k < length ts" "ts ! k = new_thread"
    and f: "f = atomic_load_store_func"
  shows "test_runs E X f (mid_test e m now ts c) (mid_test e m now (ts[k := returned now]) (c + 100000))"
  using rtranclp_trans [OF mid_begin [OF E k] mid_finish [OF k(1) f, of 0 100000]] by simp

text \<open>Two threads load 0 and both store 1, then run to their ends.\<close>

lemma lost_update:
  assumes E: "event_laws E signalled" "signalled e" and f: "f = atomic_load_store_func"
    and ts: "1 < length ts" "ts ! 0 = new_thread" "ts ! 1 = new_thread"
  shows "test_runs E X f (mid_test e m now ts 0) (mid_test e m now (ts[0 := returned now, 1 := returned now]) 199999)"
proof -
  define R where "R = test_runs E X f"
  let ?L = "\<lambda>p i. looping now p i"
  let ?M = "\<lambda>x y c. mid_test e m now (ts[0 := x, 1 := y]) c"
  have len: "0 < length ts" using ts(1) by linarith
  have swap: "ts[0 := x, 1 := y] = ts[1 := y, 0 := x]" for x y by (simp add: list_update_swap)
  have one: "R (?M x y c) (?M x' y c')"
    if "thread_step E X f 0 x \<lparr>counter = c, data_mutex = m, data_start = e, time_now = now\<rparr> =
      Some (x', \<lparr>counter = c', data_mutex = m, data_start = e, time_now = now\<rparr>)" for x x' y c c'
    using mid_thread [of 0 "ts[1 := y, 0 := x]" E X f c m e now x' c'] that len by (simp add: R_def swap [unfolded One_nat_def] r_into_rtranclp)
  have two: "R (?M x y c) (?M x y' c')"
    if "thread_step E X f 1 y \<lparr>counter = c, data_mutex = m, data_start = e, time_now = now\<rparr> =
      Some (y', \<lparr>counter = c', data_mutex = m, data_start = e, time_now = now\<rparr>)" for x y y' c c'
    using mid_thread [of 1 "ts[0 := x, 1 := y]" E X f c m e now y' c'] that ts(1) by (simp add: R_def r_into_rtranclp)
  note trans = rtranclp_trans [of "test_run E X f", folded R_def, trans]
  have "R (mid_test e m now ts 0) (mid_test e m now (ts[0 := ?L At_test 0]) 0)"
    unfolding R_def by (rule mid_begin [OF E len ts(2)])
  also have "R \<dots> (?M (?L At_test 0) (?L At_test 0) 0)"
    unfolding R_def by (rule mid_begin [OF E]) (use ts in simp_all)
  also have "R \<dots> (?M (?L At_load 0) (?L At_test 0) 0)" by (rule one) (simp add: thread_step_def looping_def f)
  also have "R \<dots> (?M (?L At_load 0) (?L At_load 0) 0)" by (rule two) (simp add: thread_step_def looping_def f)
  also have "R \<dots> (?M (?L (At_store 0) 0) (?L At_load 0) 0)" by (rule one) (simp add: thread_step_def looping_def atomic_load_def)
  also have "R \<dots> (?M (?L (At_store 0) 0) (?L (At_store 0) 0) 0)" by (rule two) (simp add: thread_step_def looping_def atomic_load_def)
  also have "R \<dots> (?M (?L At_test 1) (?L (At_store 0) 0) 1)"
    by (rule one) (simp add: thread_step_def looping_def f atomic_store_def loop_next_def)
  also have "R \<dots> (?M (?L At_test 1) (?L At_test 1) 1)"
    by (rule two) (simp add: thread_step_def looping_def f atomic_store_def loop_next_def)
  also have "R \<dots> (?M (?L At_test 1) (returned now) (1 + word_of_nat 99999))"
    unfolding R_def by (rule mid_finish [OF _ f]) (use ts in simp_all)
  also have "R \<dots> (?M (returned now) (returned now) (1 + word_of_nat 99999 + word_of_nat 99999))"
    unfolding R_def swap by (rule mid_finish [OF _ f]) (use len in simp_all)
  finally show ?thesis by (simp add: R_def)
qed


lemma solo_runs:
  assumes E: "event_laws E signalled" "signalled e" and f: "f = atomic_load_store_func"
  shows "j + n = 8 \<Longrightarrow> test_runs E X f (mid_test e m now (replicate j (returned now) @ replicate n new_thread) c)
    (mid_test e m now (replicate 8 (returned now)) (c + word_of_nat (100000 * n)))"
proof (induction n arbitrary: j c)
  case (Suc n)
  let ?ts = "replicate j (returned now) @ replicate (Suc n) new_thread"
  have "test_runs E X f (mid_test e m now ?ts c) (mid_test e m now (?ts[j := returned now]) (c + 100000))"
    by (rule mid_solo [OF E _ _ f]) (simp_all add: nth_append)
  moreover have "?ts[j := returned now] = replicate (Suc j) (returned now) @ replicate n new_thread"
    by (simp add: list_update_append replicate_append_same)
  moreover have "test_runs E X f (mid_test e m now (replicate (Suc j) (returned now) @ replicate n new_thread) (c + 100000))
      (mid_test e m now (replicate 8 (returned now)) (c + 100000 + word_of_nat (100000 * n)))"
    by (rule Suc.IH) (use Suc.prems in simp)
  ultimately show ?case by (simp add: algebra_simps)
qed simp

lemma creating_runs:
  "n \<le> 8 \<Longrightarrow> test_runs E X f (run_timed_test E X now) ((run_timed_test E X now)\<lparr>test_threads := replicate n new_thread\<rparr>)"
proof (induction n)
  case 0
  have "(run_timed_test E X now)\<lparr>test_threads := []\<rparr> = run_timed_test E X now" by (simp add: run_timed_test_def)
  then show ?case by simp
next
  case (Suc n)
  have "main_step E ((run_timed_test E X now)\<lparr>test_threads := replicate n new_thread\<rparr>) =
      Some ((run_timed_test E X now)\<lparr>test_threads := replicate (Suc n) new_thread\<rparr>)"
    using Suc.prems by (simp add: main_step_def run_timed_test_def replicate_append_same)
  with Suc show ?case by (auto intro: rtranclp.rtrancl_into_rtrancl test_run.main)
qed

lemma joining_runs:
  fixes c :: c_int
  assumes "\<And>k. k < 8 \<Longrightarrow> phase (ts ! k) = Exited 0"
  shows "j \<le> 8 \<Longrightarrow> test_runs E X f (mid_test e m now ts c) ((mid_test e m now ts c)\<lparr>main_pc := Joining j\<rparr>)"
proof (induction j)
  case 0
  have "(mid_test e m now ts c)\<lparr>main_pc := Joining 0\<rparr> = mid_test e m now ts c" by (simp add: mid_test_def)
  then show ?case by simp
next
  case (Suc j)
  have "main_step E ((mid_test e m now ts c)\<lparr>main_pc := Joining j\<rparr>) =
      Some ((mid_test e m now ts c)\<lparr>main_pc := Joining (Suc j)\<rparr>)"
    using Suc.prems assms [of j] by (simp add: main_step_def mid_test_def)
  with Suc show ?case by (auto intro: rtranclp.rtrancl_into_rtrancl test_run.main)
qed

lemma runs_reach: "test_runs E X f s s' \<Longrightarrow> test_reach E X f s \<Longrightarrow> test_reach E X f s'"
  by (induction rule: rtranclp_induct) (auto intro: test_reach.step test_step.run)

text \<open>Every run can be completed.\<close>

lemma test_finishes:
  assumes E: "event_laws E signalled" and X: "mutex_laws X holder"
  shows "test_reach E X f s \<Longrightarrow> \<exists>s'. test_reach E X f s' \<and> main_pc s' = Printed"
proof (induction "test_work s" arbitrary: s rule: less_induct)
  case less
  note p = program_reach [OF E less.prems]
  show ?case
  proof (cases "main_pc s = Printed")
    case False
    then obtain s' where s': "test_run E X f s s'"
      using test_can_run [OF E X p counted_reach [OF E X less.prems]] by blast
    show ?thesis
      by (rule less.hyps [OF test_run_work [OF p s'] test_reach.step [OF less.prems test_step.run [OF s']]])
  qed (use less.prems in blast)
qed

section \<open>Properties\<close>

text \<open>C39. With atomic increments or under the mutex no update is lost: in every interleaving, when the
  test prints, the counter is 800000 and the duration the sum of what the threads returned.\<close>

theorem thread_test_counts:
  assumes "event_laws E signalled" and "mutex_laws X holder" and "f = atomic_increment_func \<or> f = mutex_func"
    and "test_reach E X f s" and "main_pc s = Printed"
  shows "test_output s = Some (sum_list (map exit_code (test_threads s)), 800000)"
proof -
  have p: "program_ok signalled f s" by (rule program_reach [OF assms(1,4)])
  have "\<forall>t \<in> set (test_threads s). thread_ok f t \<and> has_exited t" "length (test_threads s) = 8"
    using p assms(5) by (auto simp: program_ok_def main_ok_def)
  then have "sum_list (map stored (test_threads s)) = 800000" using all_exited_stored by fastforce
  moreover have "counted holder f s" by (rule counted_reach [OF assms(1,2,4)])
  ultimately have "counter (test_data s) = 800000" using assms(3) by (auto simp: counted_def exact_def)
  with p assms(5) show ?thesis by (simp add: program_ok_def main_ok_def)
qed

theorem thread_test_counts_witness:
  "\<exists>s. test_reach flag_api owner_api mutex_func s \<and> main_pc s = Printed \<and>
     test_output s = Some (sum_list (map exit_code (test_threads s)), 800000)"
proof -
  obtain s where s: "test_reach flag_api owner_api mutex_func s" "main_pc s = Printed"
    using test_finishes [OF flag_api_laws owner_api_laws test_reach.start] by blast
  with thread_test_counts [OF flag_api_laws owner_api_laws _ s] show ?thesis by blast
qed

text \<open>C40. The test ends, with each of the four functions: as long as it has not printed some thread can go
  on, and every step of the program reduces the work that is left.\<close>

theorem thread_test_ends:
  assumes "event_laws E signalled" and "mutex_laws X holder" and "test_reach E X f s"
  shows "(main_pc s = Printed \<or> (\<exists>s'. test_run E X f s s')) \<and> (\<forall>s'. test_run E X f s s' \<longrightarrow> test_work s' < test_work s)"
  using test_can_run [OF assms(1,2) program_reach [OF assms(1,3)] counted_reach [OF assms]]
    test_run_work [OF program_reach [OF assms(1,3)]] by blast

text \<open>Atomic loads and stores do not make an atomic increment: there is an interleaving in which an
  update is lost and the test prints 799999.\<close>

theorem thread_test_loses_updates:
  assumes "event_laws E signalled"
  shows "\<exists>s. test_reach E X atomic_load_store_func s \<and> main_pc s = Printed \<and> test_output s = Some (0, 799999)"
proof -
  let ?f = atomic_load_store_func
  let ?s8 = "(run_timed_test E X 0)\<lparr>test_threads := replicate 8 new_thread\<rparr>"
  let ?e = "event_signal E (event_create E)" and ?m = "mutex_create X"
  let ?mid = "mid_test ?e ?m 0"
  define R where "R = test_runs E X ?f"
  note trans = rtranclp_trans [of "test_run E X ?f", folded R_def, trans]
  note E = assms event_laws_signal [OF assms, of "event_create E"]
  have m: "R s s'" if "main_step E s = Some s'" for s s' unfolding R_def using that by (intro r_into_rtranclp test_run.main)
  have "R (run_timed_test E X 0) ?s8" unfolding R_def by (rule creating_runs) simp
  also have "R \<dots> (?s8\<lparr>main_pc := Signalling\<rparr>)" by (rule m) (simp add: main_step_def run_timed_test_def)
  also have "R \<dots> (?mid (replicate 8 new_thread) 0)" by (rule m) (simp add: main_step_def run_timed_test_def mid_test_def)
  also have "R \<dots> (?mid ((replicate 8 new_thread)[0 := returned 0, 1 := returned 0]) 199999)"
    unfolding R_def by (rule lost_update [OF E refl]) simp_all
  also have "(replicate 8 new_thread)[0 := returned 0, 1 := returned 0] = replicate 2 (returned 0) @ replicate 6 new_thread"
    by (simp add: eval_nat_numeral)
  also have "R (?mid (replicate 2 (returned 0) @ replicate 6 new_thread) 199999)
      (?mid (replicate 8 (returned 0)) (199999 + word_of_nat (100000 * 6)))"
    unfolding R_def by (rule solo_runs [OF E refl]) simp
  also have "R \<dots> ((?mid (replicate 8 (returned 0)) (199999 + word_of_nat (100000 * 6)))\<lparr>main_pc := Joining 8\<rparr>)"
    unfolding R_def by (rule joining_runs) (simp_all add: returned_def looping_def)
  also have "R \<dots> ((?mid (replicate 8 (returned 0)) 799999)\<lparr>main_pc := Printed, test_output := Some (0, 799999)\<rparr>)"
    by (rule m) (simp add: main_step_def mid_test_def)
  finally have "test_reach E X ?f ((?mid (replicate 8 (returned 0)) 799999)\<lparr>main_pc := Printed, test_output := Some (0, 799999)\<rparr>)"
    unfolding R_def by (rule runs_reach) (rule test_reach.start)
  then show ?thesis by (intro exI conjI) (assumption, simp_all)
qed

text \<open>The kernel objects of \<^theory_text>\<open>Sync\<close> for which the laws hold.\<close>

theorem thread_test_ends_witness:
  "\<exists>s'. test_run flag_api owner_api mutex_func (run_timed_test flag_api owner_api 0) s' \<and>
     test_work s' < test_work (run_timed_test flag_api owner_api 0)"
proof -
  have "main_pc (run_timed_test flag_api owner_api 0) \<noteq> Printed" by (simp add: run_timed_test_def)
  with thread_test_ends [OF flag_api_laws owner_api_laws test_reach.start [where f = mutex_func and now = 0]]
  show ?thesis by blast
qed

theorem thread_test_loses_updates_witness:
  "\<exists>s. test_reach flag_api owner_api atomic_load_store_func s \<and> main_pc s = Printed \<and> test_output s = Some (0, 799999)"
  by (rule thread_test_loses_updates [OF flag_api_laws])

end
