(* ===== verification/Spec2Isabelle.thy ===== *)
theory Spec2Isabelle
  imports Queue_Conc Ecs_World Wav Wm Net_Threads Render_Queue Trace_Nesting Fs_Roundtrip Transforms Heap_Safety Heap_Leaks Audio Timer Frogger_Play Gpu_Frames Thread_Test
begin

text \<open>
  A verification library for Milyra, a small game engine in C for x64 Windows
  (\<^verbatim>\<open>src/src\<close>).

  \<^bold>\<open>The program.\<close>  \<^verbatim>\<open>main.c\<close> creates a file system worker, a window and a renderer, runs a game
  (\<^verbatim>\<open>frogger_game.c\<close>) frame by frame and destroys them.  The components share a few services: a
  blocking ring queue (\<^verbatim>\<open>queue.c\<close>) on atomics, semaphores, mutexes and events, and a heap.  A game keeps its
  objects in an entity component system (\<^verbatim>\<open>ecs.c\<close>), reads the input from the window (\<^verbatim>\<open>wm.c\<close>), hands
  draw commands to a render thread (\<^verbatim>\<open>render.c\<close>) through a queue, and replicates entities to other
  machines (\<^verbatim>\<open>net.c\<close>).  \<^verbatim>\<open>gpu.c\<close> draws over Vulkan.  \<^verbatim>\<open>trace.c\<close> records timings, \<^verbatim>\<open>wav_parse.c\<close> reads sound files.

  \<^bold>\<open>Theories.\<close>
  \<^item> \<^verbatim>\<open>Milyra_Base\<close>: machine integers, arrays and byte blocks with out-of-bounds access as \<^verbatim>\<open>None\<close>,
    the first-match loop, little endian integers.
  \<^item> \<^verbatim>\<open>Sync\<close>: \<^verbatim>\<open>atomic.c\<close>, and \<^verbatim>\<open>semaphore.c\<close>, \<^verbatim>\<open>event.c\<close>, \<^verbatim>\<open>mutex.c\<close> over parameters for the Win32
    objects, with the documented laws of those objects as locales' assumptions.
  \<^item> \<^verbatim>\<open>Queue\<close> and \<^verbatim>\<open>Queue_Conc\<close>: \<^verbatim>\<open>queue.c\<close>.  The first has the operations and their refinement of
    a bounded list; the second runs the atomic actions of several threads in every order and
    proves that with one producer and one consumer the queue is a deadlock free FIFO, and that with
    two producers or two consumers it is not.
  \<^item> \<^verbatim>\<open>Ecs\<close> and \<^verbatim>\<open>Ecs_World\<close>: \<^verbatim>\<open>ecs.c\<close>.  The store with its well-formedness, references and their
    lifetime; then queries, component memory and the life cycle of an entity.
  \<^item> \<^verbatim>\<open>Wav\<close>: \<^verbatim>\<open>wav_parse.c\<close> on bytes; \<^verbatim>\<open>Wm\<close>: the window procedure and the message pump of \<^verbatim>\<open>wm.c\<close>.
  \<^item> \<^verbatim>\<open>Net\<close> (operations), \<^verbatim>\<open>Net_Delta\<close> (the delta encoding), \<^verbatim>\<open>Net_Protocol\<close> (snapshots and packets),
    \<^verbatim>\<open>Net_Connections\<close> (connections, receiving) and \<^verbatim>\<open>Net_Threads\<close> (addresses, the threads between the queues and
    the socket): \<^verbatim>\<open>net.c\<close>.
  \<^item> \<^verbatim>\<open>Render\<close> (operations), \<^verbatim>\<open>Render_Cache\<close> (its caches), \<^verbatim>\<open>Render_Thread\<close> (the thread, over the sequence of the
    calls it makes to \<^verbatim>\<open>gpu.c\<close>) and \<^verbatim>\<open>Render_Queue\<close> (the game and the thread together, over the queue): \<^verbatim>\<open>render.c\<close>.
  \<^item> \<^verbatim>\<open>Fs\<close> (operations), \<^verbatim>\<open>Fs_Work\<close> (the flow of work between the threads), \<^verbatim>\<open>Fs_Liveness\<close> and
    \<^verbatim>\<open>Fs_Roundtrip\<close>: \<^verbatim>\<open>fs.c\<close>.
  \<^item> \<^verbatim>\<open>Math3d\<close> (operations) and \<^verbatim>\<open>Transforms\<close> (their laws): \<^verbatim>\<open>math.h\<close>, \<^verbatim>\<open>vec3f.h\<close>, \<^verbatim>\<open>quatf.h\<close>, \<^verbatim>\<open>quatf.c\<close>,
    \<^verbatim>\<open>mat4f.c\<close>, \<^verbatim>\<open>transform.c\<close>.
  \<^item> \<^verbatim>\<open>Tlsf\<close> (operations), \<^verbatim>\<open>Tlsf_Bits\<close> and \<^verbatim>\<open>Tlsf_Mapping\<close> (bit scans, size classes), \<^verbatim>\<open>Tlsf_Phys\<close>,
    \<^verbatim>\<open>Tlsf_Layout\<close>, \<^verbatim>\<open>Tlsf_Steps\<close> (blocks that tile memory, their headers), \<^verbatim>\<open>Tlsf_Lists\<close> (free lists and bitmaps),
    \<^verbatim>\<open>Tlsf_Alloc\<close> (the steps of the operations), \<^verbatim>\<open>Tlsf_Correct\<close>, \<^verbatim>\<open>Tlsf_Memalign\<close>, \<^verbatim>\<open>Tlsf_Realloc\<close>,
    \<^verbatim>\<open>Tlsf_Pools\<close>, \<^verbatim>\<open>Tlsf_Check\<close> (allocation, release, reallocation, creation, checks) and \<^verbatim>\<open>Tlsf_Api\<close> (the interface):
    \<^verbatim>\<open>tlsf/tlsf.c\<close>, the allocator under the heap.
  \<^item> \<^verbatim>\<open>Heap\<close> (operations), \<^verbatim>\<open>Heap_Safety\<close> (allocation and release) and \<^verbatim>\<open>Heap_Leaks\<close> (the leak report): \<^verbatim>\<open>heap.c\<close>
    over the allocator, with the pages from Windows as a parameter.
  \<^item> \<^verbatim>\<open>Timer\<close>: the clock of \<^verbatim>\<open>timer.c\<close> and the timer objects of \<^verbatim>\<open>timer_object.c\<close>, with the readings of the
    performance counter as arguments.
  \<^item> \<^verbatim>\<open>Audio\<close>: \<^verbatim>\<open>audio.c\<close> over the live DirectSound buffers, and the calls of \<^verbatim>\<open>main.c\<close> that start the sound.
  \<^item> \<^verbatim>\<open>Game_World\<close>: the components, the loop over a query and the drawing that the games share;
    \<^verbatim>\<open>Frogger\<close> (operations), \<^verbatim>\<open>Frogger_Steps\<close> (the invariant, one spawn, one player, one truck),
    \<^verbatim>\<open>Frogger_Frames\<close> (the loops), \<^verbatim>\<open>Frogger_Game\<close> (the frame), \<^verbatim>\<open>Frogger_Start\<close> (the creation) and
    \<^verbatim>\<open>Frogger_Play\<close> (the properties): \<^verbatim>\<open>frogger_game.c\<close> over the models of the entity system, the timers,
    the window and the transforms.
  \<^item> \<^verbatim>\<open>Gpu\<close> (creation and destruction of the device), \<^verbatim>\<open>Gpu_Lifetime\<close> (the rules for the lifetime of
    objects), \<^verbatim>\<open>Gpu_Create\<close> (the sections of the creation), \<^verbatim>\<open>Gpu_Life\<close> (their composition), \<^verbatim>\<open>Gpu_Resources\<close>
    (meshes, shaders and so on), \<^verbatim>\<open>Gpu_Released\<close> and \<^verbatim>\<open>Gpu_Contract\<close> (their contract), \<^verbatim>\<open>Gpu_Frames\<close> (recording
    and submitting frames): \<^verbatim>\<open>gpu.c\<close> over a driver that answers each Vulkan call.
  \<^item> \<^verbatim>\<open>Thread_Test\<close>: the threads of \<^verbatim>\<open>lecture7.c\<close> that count on one counter, in every interleaving.
  \<^item> \<^verbatim>\<open>Trace\<close> and \<^verbatim>\<open>Trace_Nesting\<close>: \<^verbatim>\<open>trace.c\<close> over the queue and mutex models, and the JSON text it writes.

  \<^bold>\<open>Conventions.\<close>  A struct is a record with the fields of the source, a fixed array a list of its
  length, raw memory a list of bytes.  Undefined behaviour is \<^verbatim>\<open>None\<close> (or \<^verbatim>\<open>Undefined\<close> where an operation may also
  block), so a theorem that a result is \<^verbatim>\<open>Some\<close> is a theorem of memory safety.  Integers whose
  width matters are words.  No definition uses fuel: the loops are structural or have
  a termination proof.

  \<^bold>\<open>Not modelled.\<close>  What Win32, Vulkan, DirectSound and the sockets do in a call (their answers are parameters,
  the calls are recorded), the vendored LZ4 library, console output.  Floating point numbers are opaque 32 bit patterns
  wherever the code only copies them, and real numbers (no rounding) where it computes with them.
\<close>

end
